(* ===== verification/Prelude.thy ===== *)
theory Prelude
  imports Main "HOL-Library.Char_ord" "HOL-Library.List_Lexorder" "HOL-Library.Sublist"
    "HOL-Library.AList" "HOL-Library.Word"
begin

text \<open>
  Shared vocabulary of the development: the parts of the Go language and of its
  standard library that the modelled packages use, and the generic lemmas that carry
  the component proofs.

  A Go \<open>string\<close> is a list of bytes. The functions of package \<open>strings\<close> below follow the
  ASCII branch of the library (white space is the six ASCII blanks, case folding
  touches \<open>A\<close> to \<open>Z\<close> only); bytes from 128 on are left as they are. The order on
  strings is the lexicographic byte order of \<open>sort.Strings\<close> and of Badger's keys.

  A Go \<open>map\<close> whose size or iteration matters is an association list with distinct
  keys (\<open>map_of\<close> looks up, \<open>AList.update\<close> stores, \<open>AList.delete\<close> deletes and
  \<open>length\<close> counts); the iteration order is the order of the list.

  A \<open>time.Time\<close> is the number of nanoseconds since the zero time, so that \<open>IsZero\<close>
  is equality with 0; a \<open>time.Duration\<close> is an \<open>int\<close> in the range of \<open>int64\<close>, and
  operations on durations that can leave that range wrap or saturate as Go's do.
\<close>

section \<open>Collections of rewrite rules\<close>

named_theorems gostr \<open>evaluation of the string functions\<close>
named_theorems gomap \<open>lookups in association lists\<close>

section \<open>Strings\<close>

definition is_space :: "char \<Rightarrow> bool" where
  "is_space c \<longleftrightarrow> of_char c \<in> {9::nat, 10, 11, 12, 13, 32}"

definition TrimSpace :: "string \<Rightarrow> string" where
  "TrimSpace s = rev (dropWhile is_space (rev (dropWhile is_space s)))"

definition lower_char :: "char \<Rightarrow> char" where
  "lower_char c = (if 65 \<le> (of_char c :: nat) \<and> (of_char c :: nat) \<le> 90
                   then char_of (of_char c + (32::nat)) else c)"

definition ToLower :: "string \<Rightarrow> string" where
  "ToLower s = map lower_char s"

definition EqualFold :: "string \<Rightarrow> string \<Rightarrow> bool" where
  "EqualFold s t \<longleftrightarrow> ToLower s = ToLower t"

definition ReplaceAllChar :: "char \<Rightarrow> char \<Rightarrow> string \<Rightarrow> string" where
  "ReplaceAllChar a b s = map (\<lambda>c. if c = a then b else c) s"

definition ContainsAny :: "string \<Rightarrow> string \<Rightarrow> bool" where
  "ContainsAny s chars \<longleftrightarrow> list_ex (\<lambda>c. c \<in> set chars) s"

lemma is_space_lower [simp]: "is_space (lower_char c) = is_space c"
  by (auto simp: is_space_def lower_char_def)

lemma lower_char_idem [simp]: "lower_char (lower_char c) = lower_char c"
  by (auto simp: lower_char_def)

lemma ToLower_idem [simp]: "ToLower (ToLower s) = ToLower s"
  by (simp add: ToLower_def)

lemma ToLower_Nil [simp]: "ToLower [] = []" "ToLower s = [] \<longleftrightarrow> s = []"
  by (simp_all add: ToLower_def)

lemma TrimSpace_Nil [simp]: "TrimSpace [] = []"
  by (simp add: TrimSpace_def)

lemma dropWhile_idem_hd: "s \<noteq> [] \<Longrightarrow> \<not> P (hd s) \<Longrightarrow> dropWhile P s = s"
  by (cases s) auto

text \<open>A string that neither starts nor ends with a blank is its own trimming; a trimmed
  string is one.\<close>

lemma TrimSpace_fixed:
  assumes "s = [] \<or> (\<not> is_space (hd s) \<and> \<not> is_space (last s))"
  shows "TrimSpace s = s"
proof (cases "s = []")
  case False
  with assms have "dropWhile is_space s = s" "dropWhile is_space (rev s) = rev s"
    by (auto intro!: dropWhile_idem_hd simp: hd_rev)
  then show ?thesis by (simp add: TrimSpace_def)
qed simp

lemma TrimSpace_ends:
  "TrimSpace s \<noteq> [] \<Longrightarrow> \<not> is_space (hd (TrimSpace s)) \<and> \<not> is_space (last (TrimSpace s))"
proof -
  assume ne: "TrimSpace s \<noteq> []"
  let ?a = "dropWhile is_space s"
  let ?b = "dropWhile is_space (rev ?a)"
  have b: "?b \<noteq> []" using ne by (simp add: TrimSpace_def)
  have l: "\<not> is_space (last (TrimSpace s))"
    using hd_dropWhile [of is_space "rev ?a"] b by (simp add: TrimSpace_def last_rev)
  have a: "?a \<noteq> []" using b by fastforce
  have "hd (TrimSpace s) = hd ?a"
  proof -
    have "suffix ?b (rev ?a)" by (rule suffix_dropWhile)
    then have "prefix (rev ?b) ?a" by (simp add: suffix_to_prefix)
    with b show ?thesis by (metis TrimSpace_def hd_append2 prefix_def rev_is_Nil_conv)
  qed
  moreover have "\<not> is_space (hd ?a)" using a by (metis hd_dropWhile dropWhile_eq_Nil_conv)
  ultimately show ?thesis using l by simp
qed

lemma TrimSpace_idem [simp]: "TrimSpace (TrimSpace s) = TrimSpace s"
  using TrimSpace_ends [of s] by (intro TrimSpace_fixed) blast

lemma TrimSpace_blank:
  assumes "TrimSpace s = []" and "c \<in> set s"
  shows "is_space c"
proof -
  have all: "\<forall>x \<in> set (dropWhile is_space s). is_space x" using assms(1) by (simp add: TrimSpace_def)
  have "dropWhile is_space s = []"
  proof (rule ccontr)
    assume ne: "dropWhile is_space s \<noteq> []"
    with hd_dropWhile [of is_space s] all show False by (metis hd_in_set)
  qed
  then show ?thesis using assms(2) by simp
qed

lemma dropWhile_map_inv: "(\<And>c. P (f c) = P c) \<Longrightarrow> dropWhile P (map f s) = map f (dropWhile P s)"
  by (induction s) auto

lemma TrimSpace_map:
  "(\<And>c. is_space (f c) = is_space c) \<Longrightarrow> TrimSpace (map f s) = map f (TrimSpace s)"
  by (simp add: TrimSpace_def dropWhile_map_inv rev_map)

lemma TrimSpace_ToLower: "TrimSpace (ToLower s) = ToLower (TrimSpace s)"
  by (simp add: ToLower_def TrimSpace_map)

section \<open>Errors\<close>

text \<open>A Go error: a text, a text that wraps another error (\<open>%w\<close>), or an error of a parser of
  package \<open>time\<close> on the given input.\<close>

datatype goerr = Err string | Wrap string goerr | ErrParseDuration string | ErrParseTime string

text \<open>The first failing check of a sequence of guards, in program order.\<close>

fun firstErr :: "(bool \<times> goerr) list \<Rightarrow> goerr option" where
  "firstErr [] = None"
| "firstErr ((bad, e) # cs) = (if bad then Some e else firstErr cs)"

lemma firstErr_None: "firstErr cs = None \<longleftrightarrow> (\<forall>c \<in> set cs. \<not> fst c)"
  by (induction cs rule: firstErr.induct) auto

section \<open>Time\<close>

type_synonym time = int

definition IsZero :: "time \<Rightarrow> bool" where
  "IsZero t \<longleftrightarrow> t = 0"

definition maxInt64 :: int where
  "maxInt64 = 2 ^ 63 - 1"

definition minInt64 :: int where
  "minInt64 = - (2 ^ 63)"

text \<open>The value of a 64-bit signed computation: wrap-around into the range of \<open>int64\<close>.\<close>

definition wrap64 :: "int \<Rightarrow> int" where
  "wrap64 x = (x + 2 ^ 63) mod 2 ^ 64 - 2 ^ 63"

text \<open>The Unix epoch as an offset from the zero time, and \<open>Time.UnixNano\<close>, which wraps.\<close>

definition unixEpoch :: time where
  "unixEpoch = 62135596800 * 1000000000"

definition UnixNano :: "time \<Rightarrow> int" where
  "UnixNano t = wrap64 (t - unixEpoch)"

definition UnixMilli :: "time \<Rightarrow> int" where
  "UnixMilli t = wrap64 ((t - unixEpoch) div 1000000)"

text \<open>\<open>Time.Sub\<close> saturates at the largest and smallest duration.\<close>

definition time_Sub :: "time \<Rightarrow> time \<Rightarrow> int" where
  "time_Sub t u = max minInt64 (min maxInt64 (t - u))"

lemma wrap64_id: "minInt64 \<le> x \<Longrightarrow> x \<le> maxInt64 \<Longrightarrow> wrap64 x = x"
  by (simp add: wrap64_def minInt64_def maxInt64_def)

lemma wrap64_range: "minInt64 \<le> wrap64 x \<and> wrap64 x \<le> maxInt64"
  using pos_mod_bound [of "2 ^ 64" "x + 2 ^ 63"] pos_mod_sign [of "2 ^ 64" "x + 2 ^ 63"]
  unfolding wrap64_def minInt64_def maxInt64_def by simp

lemma time_Sub_mono: "t \<le> t' \<Longrightarrow> time_Sub t u \<le> time_Sub t' u"
  by (simp add: time_Sub_def)

section \<open>Maps as association lists\<close>

abbreviation gokeys :: "('k \<times> 'v) list \<Rightarrow> 'k list" where
  "gokeys m \<equiv> List.map fst m"

declare map_of_eq_Some_iff [simp del]

lemma map_of_delete [gomap, simp]:
  "map_of (AList.delete k m) k' = (if k' = k then None else map_of m k')"
  by (simp add: delete_conv)

lemma map_of_update [gomap, simp]:
  "map_of (AList.update k v m) k' = (if k' = k then Some v else map_of m k')"
  by (simp add: update_conv)

lemma set_gokeys_delete [gomap]: "set (gokeys (AList.delete k m)) = set (gokeys m) - {k}"
  by (auto simp: AList.delete_eq)

lemma set_gokeys_update [gomap]: "set (gokeys (AList.update k v m)) = insert k (set (gokeys m))"
  by (induction m) auto

lemma gokeys_delete: "gokeys (AList.delete k m) = filter (\<lambda>x. x \<noteq> k) (gokeys m)"
  by (induction m) (auto simp: AList.delete_eq)

lemma gokeys_update:
  "gokeys (AList.update k v m) = (if k \<in> set (gokeys m) then gokeys m else gokeys m @ [k])"
  by (induction m) auto

lemma map_of_None_keys: "map_of m k = None \<longleftrightarrow> k \<notin> set (gokeys m)"
  by (simp add: map_of_eq_None_iff)

lemma map_of_Some_key: "map_of m k = Some v \<Longrightarrow> k \<in> set (gokeys m)"
  by (metis map_of_eq_None_iff option.distinct(1) set_map)

text \<open>Keys that are drawn, each once, from a list are at most as many as the list is long.\<close>

lemma distinct_subset_length: "distinct xs \<Longrightarrow> set xs \<subseteq> set ys \<Longrightarrow> length xs \<le> length ys"
  by (metis card_mono distinct_card card_length List.finite_set le_trans)

text \<open>An update of a list element that keeps a projection keeps it at every position.\<close>

lemma nth_update_proj: "f v = f (xs ! n) \<Longrightarrow> f (xs[n := v] ! m) = f (xs ! m)"
  by (cases "n < length xs") (auto simp: nth_list_update not_less list_update_beyond)

section \<open>Splitting and printing\<close>

text \<open>The segments of a string between the occurrences of a separator.\<close>

fun splitOn :: "char \<Rightarrow> string \<Rightarrow> string list" where
  "splitOn c [] = [[]]"
| "splitOn c (x # xs) =
     (if x = c then [] # splitOn c xs
      else (case splitOn c xs of [] \<Rightarrow> [[x]] | s # ss \<Rightarrow> (x # s) # ss))"

lemma splitOn_none: "c \<notin> set s \<Longrightarrow> splitOn c s = [s]"
  by (induction s) auto

lemma splitOn_sep: "c \<notin> set s \<Longrightarrow> splitOn c (s @ c # t) = s # splitOn c t"
  by (induction s) auto

text \<open>The position of the last occurrence of a byte, as the parts before and after it.\<close>

definition splitLast :: "char \<Rightarrow> string \<Rightarrow> (string \<times> string) option" where
  "splitLast c s =
     (if c \<in> set s
      then Some (rev (tl (dropWhile (\<lambda>x. x \<noteq> c) (rev s))), rev (takeWhile (\<lambda>x. x \<noteq> c) (rev s)))
      else None)"

lemma splitLast_append: "c \<notin> set b \<Longrightarrow> splitLast c (a @ c # b) = Some (a, b)"
proof -
  assume "c \<notin> set b"
  then have "dropWhile (\<lambda>x. x \<noteq> c) (rev b @ c # rev a) = c # rev a" "takeWhile (\<lambda>x. x \<noteq> c) (rev b @ c # rev a) = rev b"
    by (subst dropWhile_append2, auto, subst takeWhile_append2, auto)
  then show ?thesis by (simp add: splitLast_def)
qed

lemma splitLast_none: "splitLast c s = None \<longleftrightarrow> c \<notin> set s"
  by (simp add: splitLast_def)

text \<open>The part after the last separator determines, and is determined by, the whole.\<close>

lemma append_sep_eq: "c \<notin> set b \<Longrightarrow> c \<notin> set b' \<Longrightarrow> a @ c # b = a' @ c # b' \<longleftrightarrow> a = a' \<and> b = b'" for a :: string
proof
  assume sep: "c \<notin> set b" "c \<notin> set b'" and "a @ c # b = a' @ c # b'"
  then have "splitLast c (a @ c # b) = splitLast c (a' @ c # b')" by simp
  then show "a = a' \<and> b = b'" by (simp add: splitLast_append sep)
qed simp

text \<open>Decimal printing, \<open>%d\<close> of a natural number, and its zero-padded form \<open>%0wd\<close>.\<close>

definition digit :: "nat \<Rightarrow> char" where
  "digit d = char_of (48 + d)"

fun dec :: "nat \<Rightarrow> string" where
  "dec n = (if n < 10 then [digit n] else dec (n div 10) @ [digit (n mod 10)])"

declare dec.simps [simp del]

definition decPad :: "nat \<Rightarrow> nat \<Rightarrow> string" where
  "decPad w n = replicate (w - length (dec n)) (digit 0) @ dec n"

text \<open>\<open>%0wd\<close> of an integer: the sign counts toward the width.\<close>

definition fmtPad :: "nat \<Rightarrow> int \<Rightarrow> string" where
  "fmtPad w n = (if n < 0 then ''-'' @ decPad (w - 1) (nat (- n)) else decPad w (nat n))"

text \<open>\<open>%d\<close> of an integer.\<close>

definition fmtInt :: "int \<Rightarrow> string" where
  "fmtInt n = (if n < 0 then ''-'' @ dec (nat (- n)) else dec (nat n))"

definition is_digit :: "char \<Rightarrow> bool" where
  "is_digit c \<longleftrightarrow> 48 \<le> (of_char c :: nat) \<and> (of_char c :: nat) \<le> 57"

lemma of_char_digit [simp]: "d < 10 \<Longrightarrow> (of_char (digit d) :: nat) = 48 + d"
  by (simp add: digit_def)

lemma is_digit_digit [simp]: "d < 10 \<Longrightarrow> is_digit (digit d)"
  by (simp add: is_digit_def)

lemma dec_digits: "list_all is_digit (dec n)"
  by (induction n rule: dec.induct) (subst dec.simps, auto)

lemma dec_nonempty [simp]: "dec n \<noteq> []"
  by (subst dec.simps) auto

lemma dec_in_digits: "c \<in> set (dec n) \<Longrightarrow> is_digit c"
  using dec_digits by (auto simp: list_all_iff)

text \<open>No leading zero but in the numeral of zero itself.\<close>

lemma dec_hd: "0 < n \<Longrightarrow> hd (dec n) \<noteq> digit 0"
proof (induction n rule: dec.induct)
  case (1 n)
  show ?case
  proof (cases "n < 10")
    case True
    with "1.prems" show ?thesis
      by (simp add: dec.simps [of n]) (metis of_char_digit add_left_cancel add.right_neutral
          less_numeral_extra(3) zero_less_numeral)
  next
    case False
    then have "hd (dec (n div 10)) \<noteq> digit 0" using "1.IH" by simp
    with False show ?thesis by (simp add: dec.simps [of n])
  qed
qed

text \<open>The order of strings that start with parts of the same length is decided part by part.\<close>

lemma less_append_same_length:
  "length a = length b \<Longrightarrow> a @ x < b @ y \<longleftrightarrow> a < b \<or> (a = b \<and> x < y)" for a b :: "'a::linorder list"
proof (induction a arbitrary: b)
  case (Cons c a)
  then show ?case by (cases b) auto
qed simp

text \<open>A zero-padded numeral of sufficient width, digit by digit.\<close>

fun fixedDigits :: "nat \<Rightarrow> nat \<Rightarrow> string" where
  "fixedDigits 0 n = []"
| "fixedDigits (Suc w) n = fixedDigits w (n div 10) @ [digit (n mod 10)]"

lemma length_fixedDigits [simp]: "length (fixedDigits w n) = w"
  by (induction w arbitrary: n) auto

lemma fixedDigits_zero: "fixedDigits w 0 = replicate w (digit 0)"
  by (induction w) (auto simp flip: replicate_append_same)

lemma decPad_fixedDigits: "n < 10 ^ w \<Longrightarrow> 0 < w \<Longrightarrow> decPad w n = fixedDigits w n"
proof (induction w arbitrary: n)
  case (Suc w)
  show ?case
  proof (cases "n < 10")
    case True
    then show ?thesis by (simp add: decPad_def dec.simps [of n] fixedDigits_zero)
  next
    case False
    have small: "n div 10 < 10 ^ w" using Suc.prems(1) by (simp add: less_mult_imp_div_less mult.commute)
    then have w: "0 < w" using False by (cases w) auto
    have "decPad (Suc w) n = decPad w (n div 10) @ [digit (n mod 10)]"
      using False by (simp add: decPad_def dec.simps [of n])
    with Suc.IH [OF small w] show ?thesis by simp
  qed
qed simp

lemma digit_less: "a < 10 \<Longrightarrow> b < 10 \<Longrightarrow> digit a < digit b \<longleftrightarrow> a < b"
  by (simp add: less_char_def)

lemma digit_eq: "a < 10 \<Longrightarrow> b < 10 \<Longrightarrow> digit a = digit b \<longleftrightarrow> a = b"
  using of_char_digit by (metis add_left_cancel)

lemma fixedDigits_inj: "n < 10 ^ w \<Longrightarrow> m < 10 ^ w \<Longrightarrow> fixedDigits w n = fixedDigits w m \<longleftrightarrow> n = m"
proof (induction w arbitrary: n m)
  case (Suc w)
  have "n div 10 < 10 ^ w" "m div 10 < 10 ^ w" using Suc.prems by (simp_all add: less_mult_imp_div_less mult.commute)
  then show ?case using Suc.IH by (auto simp: digit_eq) (metis div_mult_mod_eq)
qed simp

lemma fixedDigits_less: "n < 10 ^ w \<Longrightarrow> m < 10 ^ w \<Longrightarrow> fixedDigits w n < fixedDigits w m \<longleftrightarrow> n < m"
proof (induction w arbitrary: n m)
  case (Suc w)
  have d: "n div 10 < 10 ^ w" "m div 10 < 10 ^ w" using Suc.prems by (simp_all add: less_mult_imp_div_less mult.commute)
  have "n = 10 * (n div 10) + n mod 10" "m = 10 * (m div 10) + m mod 10" "n mod 10 < 10" "m mod 10 < 10" by simp_all
  then have "n < m \<longleftrightarrow> n div 10 < m div 10 \<or> (n div 10 = m div 10 \<and> n mod 10 < m mod 10)"
    by (cases "n div 10" "m div 10" rule: linorder_cases) linarith+
  then show ?case
    using Suc.IH [OF d] by (simp add: less_append_same_length fixedDigits_inj [OF d] digit_less)
qed simp

lemma decPad_less: "n < 10 ^ w \<Longrightarrow> m < 10 ^ w \<Longrightarrow> 0 < w \<Longrightarrow> decPad w n < decPad w m \<longleftrightarrow> n < m"
  by (simp add: decPad_fixedDigits fixedDigits_less)

lemma decPad_inj: "n < 10 ^ w \<Longrightarrow> m < 10 ^ w \<Longrightarrow> 0 < w \<Longrightarrow> decPad w n = decPad w m \<longleftrightarrow> n = m"
  by (simp add: decPad_fixedDigits fixedDigits_inj)

lemma length_decPad: "n < 10 ^ w \<Longrightarrow> 0 < w \<Longrightarrow> length (decPad w n) = w"
  by (simp add: decPad_fixedDigits)
section \<open>Keeping the greatest\<close>

text \<open>The loop that keeps the first element of greatest rank: an element replaces the one kept
  so far only when its rank is strictly greater.\<close>

definition keepMax :: "('a \<Rightarrow> 'r::linorder) \<Rightarrow> 'a \<Rightarrow> 'a list \<Rightarrow> 'a" where
  "keepMax rank b xs = fold (\<lambda>x best. if rank best < rank x then x else best) xs b"

lemma keepMax_simps [simp]:
  "keepMax rank b [] = b"
  "keepMax rank b (x # xs) = keepMax rank (if rank b < rank x then x else b) xs"
  by (simp_all add: keepMax_def)

lemma keepMax_in: "keepMax rank b xs \<in> insert b (set xs)"
  by (induction xs arbitrary: b) auto

lemma keepMax_ge_start: "rank b \<le> rank (keepMax rank b xs)"
  by (induction xs arbitrary: b) (auto, metis less_imp_le order_trans)

lemma keepMax_ge: "x \<in> set xs \<Longrightarrow> rank x \<le> rank (keepMax rank b xs)"
proof (induction xs arbitrary: b)
  case (Cons y ys)
  have "rank y \<le> rank (if rank b < rank y then y else b)" by auto
  also have "\<dots> \<le> rank (keepMax rank (if rank b < rank y then y else b) ys)"
    by (rule keepMax_ge_start)
  finally show ?case using Cons by auto
qed simp

end
