(* ===== verification/GoTime.thy ===== *)
theory GoTime
  imports Prelude
begin

text \<open>
  The parts of package \<open>time\<close> that the policy packages use: \<open>Time.Format\<close> and \<open>time.Parse\<close>
  with the layout \<open>15:04\<close>, and \<open>time.ParseDuration\<close>. A fraction of a duration unit is
  truncated to whole nanoseconds exactly, where the library computes it in floating point.
\<close>

section \<open>Clock readings\<close>

text \<open>\<open>Format "15:04"\<close> of an instant in a location \<open>zone\<close> seconds east of UTC.\<close>

definition minuteOfDay :: "int \<Rightarrow> time \<Rightarrow> nat" where
  "minuteOfDay zone t = nat ((t div 1000000000 + zone) div 60 mod 1440)"

definition formatClock :: "int \<Rightarrow> time \<Rightarrow> string" where
  "formatClock zone t =
     (let m = minuteOfDay zone t in decPad 2 (m div 60) @ '':'' @ decPad 2 (m mod 60))"

definition digitOf :: "char \<Rightarrow> nat" where
  "digitOf c = of_char c - 48"

text \<open>\<open>time.Parse "15:04"\<close>: an hour of one or two digits below 24, a colon, and a minute of
  exactly two digits below 60. The result is the minute of the day.\<close>

definition parseMinute :: "nat \<Rightarrow> string \<Rightarrow> nat option" where
  "parseMinute h s =
     (case s of
        [c, m1, m2] \<Rightarrow>
          if c = CHR '':'' \<and> is_digit m1 \<and> is_digit m2 \<and> h < 24 \<and> 10 * digitOf m1 + digitOf m2 < 60
          then Some (60 * h + (10 * digitOf m1 + digitOf m2)) else None
      | _ \<Rightarrow> None)"

definition parseClock :: "string \<Rightarrow> nat option" where
  "parseClock s =
     (case s of
        h1 # h2 # rest \<Rightarrow>
          if \<not> is_digit h1 then None
          else if is_digit h2 then parseMinute (10 * digitOf h1 + digitOf h2) rest
          else parseMinute (digitOf h1) (h2 # rest)
      | _ \<Rightarrow> None)"

section \<open>Durations\<close>

definition unitMap :: "string \<Rightarrow> nat option" where
  "unitMap u =
     (if u = ''ns'' then Some 1
      else if u = ''us'' \<or> u = [char_of (0xC2::nat), char_of (0xB5::nat), CHR ''s'']
              \<or> u = [char_of (0xCE::nat), char_of (0xBC::nat), CHR ''s''] then Some 1000
      else if u = ''ms'' then Some 1000000
      else if u = ''s'' then Some 1000000000
      else if u = ''m'' then Some 60000000000
      else if u = ''h'' then Some 3600000000000
      else None)"

text \<open>The value of a run of digits.\<close>

definition digitsValue :: "string \<Rightarrow> nat" where
  "digitsValue ds = foldl (\<lambda>v c. 10 * v + digitOf c) 0 ds"

definition isUnitChar :: "char \<Rightarrow> bool" where
  "isUnitChar c \<longleftrightarrow> c \<noteq> CHR ''.'' \<and> \<not> is_digit c"

text \<open>One iteration of the loop of \<open>ParseDuration\<close>: a number with its unit. The result is the
  remaining input and the sum so far.\<close>

definition durationStep :: "string \<Rightarrow> nat \<Rightarrow> (string \<times> nat) option" where
  "durationStep s d =
     (let int_part = takeWhile is_digit s;
          s1 = dropWhile is_digit s;
          dotted = (s1 \<noteq> [] \<and> hd s1 = CHR ''.'');
          frac = (if dotted then takeWhile is_digit (tl s1) else []);
          s2 = (if dotted then dropWhile is_digit (tl s1) else s1);
          u = takeWhile isUnitChar s2;
          s3 = dropWhile isUnitChar s2 in
      if int_part = [] \<and> frac = [] then None
      else if digitsValue int_part > 2 ^ 63 then None
      else if u = [] then None
      else (case unitMap u of
              None \<Rightarrow> None
            | Some unit \<Rightarrow>
                if digitsValue int_part > 2 ^ 63 div unit then None
                else let v = digitsValue int_part * unit + digitsValue frac * unit div 10 ^ length frac in
                     if v > 2 ^ 63 then None
                     else if d + v > 2 ^ 63 then None
                     else Some (s3, d + v)))"

lemma durationStep_shrinks: "durationStep s d = Some (s', d') \<Longrightarrow> length s' < length s"
proof -
  assume step: "durationStep s d = Some (s', d')"
  define s1 where "s1 = dropWhile is_digit s"
  define s2 where "s2 = (if s1 \<noteq> [] \<and> hd s1 = CHR ''.'' then dropWhile is_digit (tl s1) else s1)"
  have u: "takeWhile isUnitChar s2 \<noteq> []" and s': "s' = dropWhile isUnitChar s2"
    using step by (auto simp: durationStep_def Let_def s1_def s2_def split: if_splits option.splits)
  have "length s' < length s2"
    using u unfolding s' by (metis append_Nil length_dropWhile_le nat_less_le takeWhile_dropWhile_id
        append_eq_conv_conj length_append add_cancel_left_left length_0_conv)
  moreover have "length s2 \<le> length s1"
    unfolding s2_def by (cases s1) (auto intro: le_SucI length_dropWhile_le)
  moreover have "length s1 \<le> length s" unfolding s1_def by (rule length_dropWhile_le)
  ultimately show ?thesis by simp
qed

function durationLoop :: "string \<Rightarrow> nat \<Rightarrow> nat option" where
  "durationLoop s d =
     (if s = [] then Some d
      else case durationStep s d of None \<Rightarrow> None | Some (s', d') \<Rightarrow> durationLoop s' d')"
  by pat_completeness auto

termination
  by (relation "measure (length \<circ> fst)") (auto dest: durationStep_shrinks)

declare durationLoop.simps [simp del]

definition ParseDuration :: "string \<Rightarrow> int option" where
  "ParseDuration s =
     (let signed = (s \<noteq> [] \<and> (hd s = CHR ''-'' \<or> hd s = CHR ''+''));
          neg = (signed \<and> hd s = CHR ''-'');
          s = (if signed then tl s else s) in
      if s = ''0'' then Some 0
      else if s = [] then None
      else (case durationLoop s 0 of
              None \<Rightarrow> None
            | Some d \<Rightarrow> if neg then Some (- int d) else if d > 2 ^ 63 - 1 then None else Some (int d)))"

section \<open>Order of clock readings\<close>

lemma digit_le_iff: "a < 10 \<Longrightarrow> b < 10 \<Longrightarrow> digit a < digit b \<longleftrightarrow> a < b"
  by (simp add: less_char_def)

lemma digit_eq_iff: "a < 10 \<Longrightarrow> b < 10 \<Longrightarrow> digit a = digit b \<longleftrightarrow> a = b"
  by (metis add_left_cancel of_char_digit)

lemma decPad_2: "n < 100 \<Longrightarrow> decPad 2 n = [digit (n div 10), digit (n mod 10)]"
  by (cases "n < 10") (simp_all add: decPad_def dec.simps [of n] dec.simps [of "n div 10"])

definition clockText :: "nat \<Rightarrow> string" where
  "clockText m = decPad 2 (m div 60) @ '':'' @ decPad 2 (m mod 60)"

lemma clockText_digits:
  "m < 1440 \<Longrightarrow> clockText m =
     [digit (m div 600), digit (m div 60 mod 10), CHR '':'', digit (m mod 60 div 10), digit (m mod 60 mod 10)]"
  by (simp add: clockText_def decPad_2 flip: div_mult2_eq)

lemma div_mod_less:
  "0 < k \<Longrightarrow> x div k < y div k \<or> x div k = y div k \<and> x mod k < y mod k \<longleftrightarrow> x < y" for x y k :: nat
proof -
  assume k: "0 < k"
  show ?thesis
  proof (cases "x div k = y div k")
    case True
    have "x < y \<longleftrightarrow> x div k * k + x mod k < y div k * k + y mod k" by (simp only: div_mult_mod_eq)
    also have "\<dots> \<longleftrightarrow> x mod k < y mod k" unfolding True by (rule nat_add_left_cancel_less)
    finally show ?thesis using True by simp
  next
    case False
    moreover have "x < y \<Longrightarrow> x div k \<le> y div k" by (simp add: div_le_mono)
    moreover have "x div k < y div k \<Longrightarrow> x < y" using div_le_mono [of y x k] by linarith
    ultimately show ?thesis by auto
  qed
qed

lemma div_mod_eq: "x = y \<longleftrightarrow> x div k = y div k \<and> x mod k = y mod k" for x y k :: nat
  by (metis div_mult_mod_eq)

lemma div_600: "m div 600 = m div 60 div (10::nat)"
  by (simp flip: div_mult2_eq)

lemma clockText_less:
  assumes "a < 1440" and "b < 1440"
  shows "clockText a < clockText b \<longleftrightarrow> a < b"
proof -
  have d: "m div 600 < 10" "m div 60 mod 10 < 10" "m mod 60 div 10 < 10" "m mod 60 mod 10 < 10" if "m < 1440" for m :: nat
    using that by auto
  have "clockText a < clockText b \<longleftrightarrow>
      a div 600 < b div 600 \<or> a div 600 = b div 600 \<and>
      (a div 60 mod 10 < b div 60 mod 10 \<or> a div 60 mod 10 = b div 60 mod 10 \<and>
      (a mod 60 div 10 < b mod 60 div 10 \<or> a mod 60 div 10 = b mod 60 div 10 \<and>
       a mod 60 mod 10 < b mod 60 mod 10))"
    using d [OF assms(1)] d [OF assms(2)]
    by (simp add: clockText_digits assms digit_le_iff digit_eq_iff)
  also have "\<dots> \<longleftrightarrow> a div 60 < b div 60 \<or> a div 60 = b div 60 \<and> a mod 60 < b mod 60"
    using div_mod_less [of 10 "a div 60" "b div 60", OF zero_less_numeral]
      div_mod_less [of 10 "a mod 60" "b mod 60", OF zero_less_numeral]
      div_mod_eq [of "a div 60" "b div 60" 10]
    unfolding div_600 by blast
  also have "\<dots> \<longleftrightarrow> a < b" by (rule div_mod_less) simp
  finally show ?thesis .
qed

lemma formatClock_text: "formatClock zone t = clockText (minuteOfDay zone t)"
  by (simp add: formatClock_def clockText_def Let_def)

lemma minuteOfDay_bound: "minuteOfDay zone t < 1440"
  by (simp add: minuteOfDay_def nat_less_iff)

lemma parseClock_text:
  assumes "m < 1440"
  shows "parseClock (clockText m) = Some m"
proof -
  have h: "10 * (m div 600) + m div 60 mod 10 = m div 60"
    unfolding div_600 by (rule mult_div_mod_eq)
  have n: "10 * (m mod 60 div 10) + m mod 60 mod 10 = m mod 60" by (rule mult_div_mod_eq)
  have d: "m div 600 < 10" "m div 60 mod 10 < 10" "m mod 60 div 10 < 10" "m mod 60 mod 10 < 10"
    using assms by auto
  have "m div 60 < 24" "m mod 60 < 60" using assms by auto
  then show ?thesis
    using assms d h n
    by (simp add: clockText_digits parseClock_def parseMinute_def digitOf_def)
qed

end
