(* ===== verification/Risk.thy ===== *)
theory Risk
  imports Prelude
begin

text \<open>
  Packages \<open>governance/classification\<close> and \<open>governance/risk\<close>: the effect and scope vocabulary
  that capabilities declare, the normalisation of its spelling, and \<open>Classify\<close>, the only
  producer of risk classes.

  The three vocabularies are Go string types, so a value outside the listed constants can
  occur; they are strings here too. The lemmas give the exact contents and order of the
  risk list, the floor that a non-builtin scope imposes whatever effects are declared, and
  the idempotence of the normalisation.
\<close>

section \<open>Vocabulary\<close>

type_synonym EffectClass = string
type_synonym CapabilityScope = string
type_synonym RiskClass = string

abbreviation EffectClassFilesystemMutation :: EffectClass where
  "EffectClassFilesystemMutation \<equiv> ''filesystem-mutation''"
abbreviation EffectClassProcessSpawn :: EffectClass where
  "EffectClassProcessSpawn \<equiv> ''process-spawn''"
abbreviation EffectClassNetworkEgress :: EffectClass where
  "EffectClassNetworkEgress \<equiv> ''network-egress''"
abbreviation EffectClassCredentialUse :: EffectClass where
  "EffectClassCredentialUse \<equiv> ''credential-use''"
abbreviation EffectClassExternalState :: EffectClass where
  "EffectClassExternalState \<equiv> ''external-state''"
abbreviation EffectClassSessionCreation :: EffectClass where
  "EffectClassSessionCreation \<equiv> ''session-creation''"
abbreviation EffectClassContextInsertion :: EffectClass where
  "EffectClassContextInsertion \<equiv> ''context-insertion''"

abbreviation CapabilityScopeBuiltin :: CapabilityScope where
  "CapabilityScopeBuiltin \<equiv> ''builtin''"
abbreviation CapabilityScopeWorkspace :: CapabilityScope where
  "CapabilityScopeWorkspace \<equiv> ''workspace''"
abbreviation CapabilityScopeProvider :: CapabilityScope where
  "CapabilityScopeProvider \<equiv> ''provider''"
abbreviation CapabilityScopeRemote :: CapabilityScope where
  "CapabilityScopeRemote \<equiv> ''remote''"

abbreviation RiskClassReadOnly :: RiskClass where
  "RiskClassReadOnly \<equiv> ''read-only''"
abbreviation RiskClassDestructive :: RiskClass where
  "RiskClassDestructive \<equiv> ''destructive''"
abbreviation RiskClassExecute :: RiskClass where
  "RiskClassExecute \<equiv> ''execute''"
abbreviation RiskClassNetwork :: RiskClass where
  "RiskClassNetwork \<equiv> ''network''"
abbreviation RiskClassCredentialed :: RiskClass where
  "RiskClassCredentialed \<equiv> ''credentialed''"
abbreviation RiskClassExfiltration :: RiskClass where
  "RiskClassExfiltration \<equiv> ''exfiltration-sensitive''"
abbreviation RiskClassSessioned :: RiskClass where
  "RiskClassSessioned \<equiv> ''sessioned''"

section \<open>Operations\<close>

definition NormalizeClassString :: "string \<Rightarrow> string" where
  "NormalizeClassString s = ReplaceAllChar CHR ''_'' CHR ''-'' (ToLower (TrimSpace s))"

text \<open>The switch of the effect loop: the classes one declared effect adds to the set.\<close>

definition effectRisks :: "EffectClass \<Rightarrow> RiskClass list" where
  "effectRisks eff =
     (if eff = EffectClassFilesystemMutation then [RiskClassDestructive]
      else if eff = EffectClassProcessSpawn then [RiskClassExecute]
      else if eff = EffectClassNetworkEgress then [RiskClassNetwork, RiskClassExfiltration]
      else if eff = EffectClassCredentialUse then [RiskClassCredentialed]
      else if eff = EffectClassExternalState then [RiskClassNetwork, RiskClassExfiltration]
      else if eff = EffectClassSessionCreation then [RiskClassSessioned]
      else [])"

text \<open>The switch on the scope: the floor added whatever the effects were.\<close>

definition scopeFloor :: "CapabilityScope \<Rightarrow> RiskClass list" where
  "scopeFloor scope =
     (if scope = CapabilityScopeWorkspace then [RiskClassSessioned]
      else if scope = CapabilityScopeProvider then [RiskClassCredentialed]
      else if scope = CapabilityScopeRemote
           then [RiskClassSessioned, RiskClassNetwork, RiskClassExfiltration]
      else [])"

definition sortOrder :: "RiskClass list" where
  "sortOrder = [RiskClassReadOnly, RiskClassDestructive, RiskClassExecute, RiskClassNetwork,
                RiskClassCredentialed, RiskClassExfiltration, RiskClassSessioned]"

text \<open>The set of classes is a list; only membership in it is used.\<close>

definition sortRiskClasses :: "RiskClass list \<Rightarrow> RiskClass list" where
  "sortRiskClasses s = (if s = [] then [] else filter (\<lambda>r. r \<in> set s) sortOrder)"

definition Classify :: "EffectClass list \<Rightarrow> CapabilityScope \<Rightarrow> RiskClass list" where
  "Classify effects scope =
     (let s = concat (map effectRisks effects);
          s = (if s = [] then [RiskClassReadOnly] else s)
      in sortRiskClasses (s @ scopeFloor scope))"

section \<open>Correctness\<close>

lemma effectRisks_in_order: "set (effectRisks eff) \<subseteq> set sortOrder - {RiskClassReadOnly}"
  by (auto simp: effectRisks_def sortOrder_def)

lemma scopeFloor_in_order: "set (scopeFloor scope) \<subseteq> set sortOrder - {RiskClassReadOnly}"
  by (auto simp: scopeFloor_def sortOrder_def)

lemma sortRiskClasses_filter:
  "sortRiskClasses s = filter (\<lambda>r. r \<in> set (sortRiskClasses s)) sortOrder"
  by (cases s) (auto simp: sortRiskClasses_def intro!: filter_cong)

lemma set_Classify:
  "set (Classify effects scope) =
     (if \<forall>eff \<in> set effects. effectRisks eff = [] then {RiskClassReadOnly}
      else (\<Union>eff \<in> set effects. set (effectRisks eff))) \<union> set (scopeFloor scope)"
proof -
  have "(\<Union>eff \<in> set effects. set (effectRisks eff)) \<subseteq> set sortOrder"
    using effectRisks_in_order by blast
  moreover have "RiskClassReadOnly \<in> set sortOrder" by (simp add: sortOrder_def)
  ultimately show ?thesis
    using scopeFloor_in_order [of scope]
    by (auto simp: Classify_def sortRiskClasses_def Let_def)
qed

text \<open>
  \<open>Classify\<close> returns the risk classes of the declared effects and of the scope and nothing
  else: each once, in the fixed severity order; \<open>read-only\<close> exactly when no effect carries a
  risk; and the floor of the scope always, whatever effects are declared.
\<close>

theorem classify_exact:
  "set (Classify effects scope) =
     (if concat (map effectRisks effects) = [] then {RiskClassReadOnly}
      else set (concat (map effectRisks effects))) \<union> set (scopeFloor scope) \<and>
   Classify effects scope = filter (\<lambda>r. r \<in> set (Classify effects scope)) sortOrder \<and>
   distinct (Classify effects scope) \<and> Classify effects scope \<noteq> []"
proof -
  have s: "set (Classify effects scope) =
     (if concat (map effectRisks effects) = [] then {RiskClassReadOnly}
      else set (concat (map effectRisks effects))) \<union> set (scopeFloor scope)"
    by (auto simp: set_Classify)
  have f: "Classify effects scope = filter (\<lambda>r. r \<in> set (Classify effects scope)) sortOrder"
    unfolding Classify_def Let_def by (rule sortRiskClasses_filter)
  have "distinct sortOrder" by (simp add: sortOrder_def)
  then have d: "distinct (Classify effects scope)" using f by (metis distinct_filter)
  have "set (Classify effects scope) \<noteq> {}" unfolding s by auto
  then have n: "Classify effects scope \<noteq> []" by (metis set_empty)
  show ?thesis by (intro conjI s f d n)
qed

lemma ReplaceAllChar_idem: "a \<noteq> b \<Longrightarrow> ReplaceAllChar a b (ReplaceAllChar a b s) = ReplaceAllChar a b s"
  by (simp add: ReplaceAllChar_def)

text \<open>
  \<open>NormalizeClassString\<close> is idempotent and lands in the canonical spelling: no
  underscore, no upper-case letter, no blank at either end.
\<close>

theorem normalizeClassString_canonical:
  "NormalizeClassString (NormalizeClassString s) = NormalizeClassString s \<and>
   CHR ''_'' \<notin> set (NormalizeClassString s) \<and>
   ToLower (NormalizeClassString s) = NormalizeClassString s \<and>
   TrimSpace (NormalizeClassString s) = NormalizeClassString s"
proof -
  let ?r = "\<lambda>c. if c = CHR ''_'' then CHR ''-'' else c"
  have low: "lower_char CHR ''-'' = CHR ''-''" by (simp add: lower_char_def)
  have sp: "is_space (?r c) = is_space c" for c by (simp add: is_space_def)
  have trim: "TrimSpace (NormalizeClassString s) = NormalizeClassString s"
    unfolding NormalizeClassString_def ReplaceAllChar_def
    by (simp add: TrimSpace_map [OF sp] TrimSpace_ToLower)
  have lower: "ToLower (NormalizeClassString s) = NormalizeClassString s"
    by (simp add: NormalizeClassString_def ReplaceAllChar_def ToLower_def low)
  have none: "CHR ''_'' \<notin> set (NormalizeClassString s)"
    by (auto simp: NormalizeClassString_def ReplaceAllChar_def)
  have "ReplaceAllChar CHR ''_'' CHR ''-'' (NormalizeClassString s) = NormalizeClassString s"
    unfolding NormalizeClassString_def by (simp add: ReplaceAllChar_idem)
  with trim lower have "NormalizeClassString (NormalizeClassString s) = NormalizeClassString s"
    by (simp add: NormalizeClassString_def [of "NormalizeClassString s"])
  with trim lower none show ?thesis by blast
qed

end
