(* ===== verification/Policy.thy ===== *)
theory Policy
  imports GoTime Risk
begin

text \<open>
  The policy vocabulary: the rules, conditions, requests and decisions of
  \<open>governance/policy/policy_types.go\<close>, the session policies of
  \<open>governance/policy/session_policy_types.go\<close> with their validation, and the three-valued
  authorization decision of \<open>governance/permissions/decision.go\<close>. Named string types stay
  strings, so that every unknown value is representable; a \<open>*bool\<close> is a \<open>bool option\<close>.
\<close>

section \<open>Rules, requests and decisions\<close>

record ActorMatch =
  am_Kind :: string
  am_IDs :: "string list"
  am_Authenticated :: bool

record TimeWindow =
  tw_After :: string
  tw_Before :: string
  tw_Days :: "string list"
  tw_Timezone :: string

record RateLimit =
  rl_MaxRequests :: int
  rl_WindowSeconds :: int
  rl_Per :: string

record PolicyEffect =
  pe_Action :: string
  pe_Approvers :: "string list"
  pe_ApprovalTTL :: string
  pe_RateLimit :: "RateLimit option"
  pe_Reason :: string

record PolicyConditions =
  pc_Actors :: "ActorMatch list"
  pc_Capabilities :: "string list"
  pc_ExportNames :: "string list"
  pc_SourceDomains :: "string list"
  pc_ContextClasses :: "string list"
  pc_SensitivityClasses :: "string list"
  pc_RouteModes :: "string list"
  pc_ProviderKinds :: "string list"
  pc_ExternalProviders :: "string list"
  pc_MinRiskClasses :: "RiskClass list"
  pc_TrustClasses :: "string list"
  pc_CapabilityKinds :: "string list"
  pc_RuntimeFamilies :: "string list"
  pc_EffectClasses :: "EffectClass list"
  pc_Partitions :: "string list"
  pc_ChannelIDs :: "string list"
  pc_SessionScopes :: "string list"
  pc_SessionOperations :: "string list"
  pc_RequireOwnership :: "bool option"
  pc_RequireDelegation :: "bool option"
  pc_RequireExternalBinding :: "bool option"
  pc_RequireResolvedExternal :: "bool option"
  pc_RequireRestrictedExternal :: "bool option"
  pc_TimeWindow :: "TimeWindow option"

record PolicyRule =
  pr_ID :: string
  pr_Name :: string
  pr_Priority :: int
  pr_Enabled :: bool
  pr_Conditions :: PolicyConditions
  pr_Effect :: PolicyEffect

record EventActor =
  ea_Kind :: string
  ea_ID :: string
  ea_Label :: string
  ea_TenantID :: string
  ea_SessionID :: string
  ea_Scopes :: "string list"
  ea_SubjectKind :: string

text \<open>A \<open>time.Time\<close> carries its location:
  \<open>rq_Zone\<close> is its offset in seconds east of UTC.\<close>

record PolicyRequest =
  rq_Target :: string
  rq_Actor :: EventActor
  rq_Authenticated :: bool
  rq_ActorTenantID :: string
  rq_ResourceTenantID :: string
  rq_CapabilityID :: string
  rq_CapabilityName :: string
  rq_LineageID :: string
  rq_AttemptID :: string
  rq_ExportName :: string
  rq_SourceDomain :: string
  rq_ContextClass :: string
  rq_SensitivityClass :: string
  rq_RouteMode :: string
  rq_CapabilityKind :: string
  rq_RuntimeFamily :: string
  rq_ProviderKind :: string
  rq_ProviderOrigin :: string
  rq_TrustClass :: string
  rq_RiskClasses :: "RiskClass list"
  rq_EffectClasses :: "EffectClass list"
  rq_Partition :: string
  rq_ChannelID :: string
  rq_SessionID :: string
  rq_SessionScope :: string
  rq_SessionOperation :: string
  rq_SessionOwnerID :: string
  rq_IsOwner :: bool
  rq_IsDelegated :: bool
  rq_ExternalProvider :: string
  rq_ExternalAccountID :: string
  rq_ExternalChannelID :: string
  rq_ExternalConversationID :: string
  rq_ExternalThreadID :: string
  rq_ExternalUserID :: string
  rq_HasExternalBinding :: bool
  rq_ResolvedExternal :: bool
  rq_RestrictedExternal :: bool
  rq_Timestamp :: time
  rq_Zone :: int

abbreviation PolicyTargetCapability :: string where
  "PolicyTargetCapability \<equiv> ''capability''"
abbreviation PolicyTargetProvider :: string where
  "PolicyTargetProvider \<equiv> ''provider''"
abbreviation PolicyTargetSession :: string where
  "PolicyTargetSession \<equiv> ''session''"
abbreviation PolicyTargetResume :: string where
  "PolicyTargetResume \<equiv> ''resume''"

record PolicyDecision =
  pd_Effect :: string
  pd_Rule :: "PolicyRule option"
  pd_Reason :: string

definition PolicyDecisionAllow :: "string \<Rightarrow> PolicyDecision" where
  "PolicyDecisionAllow reason = \<lparr>pd_Effect = ''allow'', pd_Rule = None, pd_Reason = reason\<rparr>"

definition PolicyDecisionDeny :: "string \<Rightarrow> PolicyDecision" where
  "PolicyDecisionDeny reason = \<lparr>pd_Effect = ''deny'', pd_Rule = None, pd_Reason = reason\<rparr>"

definition PolicyDecisionRequireApproval :: "PolicyRule option \<Rightarrow> PolicyDecision" where
  "PolicyDecisionRequireApproval rule =
     (let reason = (case rule of None \<Rightarrow> [] | Some r \<Rightarrow> pe_Reason (pr_Effect r))
      in \<lparr>pd_Effect = ''require_approval'', pd_Rule = rule, pd_Reason = reason\<rparr>)"

section \<open>Validation of rules\<close>

definition blank :: "string \<Rightarrow> bool" where
  "blank s \<longleftrightarrow> TrimSpace s = []"

definition RateLimit_Validate :: "RateLimit \<Rightarrow> goerr option" where
  "RateLimit_Validate r = firstErr
     [(rl_MaxRequests r \<le> 0, Err ''max_requests must be > 0''),
      (rl_WindowSeconds r \<le> 0, Err ''window_seconds must be > 0''),
      (rl_Per r \<notin> {''actor'', ''capability'', ''global''}, Err (''rate limit per '' @ rl_Per r @ '' invalid''))]"

definition PolicyEffect_Validate :: "PolicyEffect \<Rightarrow> goerr option" where
  "PolicyEffect_Validate e =
     (if pe_Action e \<notin> {''allow'', ''deny'', ''require_approval'', ''rate_limit'', ''log_only''}
      then Some (Err (''policy action '' @ pe_Action e @ '' invalid''))
      else if pe_ApprovalTTL e \<noteq> [] \<and> ParseDuration (pe_ApprovalTTL e) = None
      then Some (Wrap ''approval ttl invalid: '' (ErrParseDuration (pe_ApprovalTTL e)))
      else if pe_Action e = ''rate_limit''
      then (case pe_RateLimit e of
              None \<Rightarrow> Some (Err ''rate limit config required'')
            | Some r \<Rightarrow> RateLimit_Validate r)
      else None)"

definition TimeWindow_Validate :: "TimeWindow \<Rightarrow> goerr option" where
  "TimeWindow_Validate w = firstErr
     [(blank (tw_After w) \<and> blank (tw_Before w), Err ''after or before required''),
      (tw_After w \<noteq> [] \<and> parseClock (tw_After w) = None,
       Wrap ''after invalid: '' (ErrParseTime (tw_After w))),
      (tw_Before w \<noteq> [] \<and> parseClock (tw_Before w) = None,
       Wrap ''before invalid: '' (ErrParseTime (tw_Before w)))]"

definition PolicyRule_Validate :: "PolicyRule \<Rightarrow> goerr option" where
  "PolicyRule_Validate r =
     (if blank (pr_ID r) then Some (Err ''policy rule id required'')
      else if blank (pr_Name r) then Some (Err ''policy rule name required'')
      else case PolicyEffect_Validate (pr_Effect r) of
        Some err \<Rightarrow> Some (Wrap ''policy effect invalid: '' err)
      | None \<Rightarrow>
          case Option.bind (pc_TimeWindow (pr_Conditions r)) TimeWindow_Validate of
            Some err \<Rightarrow> Some (Wrap ''time window invalid: '' err)
          | None \<Rightarrow> firstErr
              [(list_ex blank (pc_Partitions (pr_Conditions r)), Err ''policy partition must not be empty''),
               (list_ex blank (pc_ExportNames (pr_Conditions r)), Err ''policy export name must not be empty''),
               (list_ex blank (pc_ContextClasses (pr_Conditions r)), Err ''policy context class must not be empty''),
               (list_ex blank (pc_SensitivityClasses (pr_Conditions r)), Err ''policy sensitivity class must not be empty''),
               (list_ex blank (pc_RouteModes (pr_Conditions r)), Err ''policy route mode must not be empty''),
               (list_ex blank (pc_ChannelIDs (pr_Conditions r)), Err ''policy channel id must not be empty'')])"

section \<open>Session policies\<close>

record SessionSelector =
  ss_Partitions :: "string list"
  ss_ChannelIDs :: "string list"
  ss_Scopes :: "string list"
  ss_TrustClasses :: "string list"
  ss_Operations :: "string list"
  ss_ActorKinds :: "string list"
  ss_ActorIDs :: "string list"
  ss_ExternalProviders :: "string list"
  ss_RequireOwnership :: "bool option"
  ss_RequireDelegation :: "bool option"
  ss_RequireExternalBinding :: "bool option"
  ss_RequireResolvedExternal :: "bool option"
  ss_RequireRestrictedExternal :: "bool option"
  ss_AuthenticatedOnly :: "bool option"

record SessionPolicy =
  sp_ID :: string
  sp_Name :: string
  sp_Priority :: int
  sp_Enabled :: bool
  sp_Selector :: SessionSelector
  sp_Effect :: string
  sp_Approvers :: "string list"
  sp_ApprovalTTL :: string
  sp_Reason :: string

definition sessionScopes :: "string list" where
  "sessionScopes = [''main'', ''per-channel-peer'', ''per-thread'']"

definition sessionOperations :: "string list" where
  "sessionOperations = [''attach'', ''send'', ''invoke'', ''resume'', ''inspect'', ''close'']"

definition ValidateSessionSelector :: "SessionSelector \<Rightarrow> goerr option" where
  "ValidateSessionSelector s =
     (if ss_Partitions s = [] \<and> ss_ChannelIDs s = [] \<and> ss_Scopes s = [] \<and> ss_TrustClasses s = [] \<and>
         ss_Operations s = [] \<and> ss_ActorKinds s = [] \<and> ss_ActorIDs s = [] \<and> ss_ExternalProviders s = [] \<and>
         ss_RequireOwnership s = None \<and> ss_RequireDelegation s = None \<and>
         ss_RequireExternalBinding s = None \<and> ss_RequireResolvedExternal s = None \<and>
         ss_RequireRestrictedExternal s = None \<and> ss_AuthenticatedOnly s = None
      then Some (Err ''at least one selector field required'')
      else if list_ex blank (ss_Partitions s) then Some (Err ''partitions contains empty partition'')
      else if list_ex blank (ss_ChannelIDs s) then Some (Err ''channel_ids contains empty channel id'')
      else case List.find (\<lambda>x. x \<notin> set sessionScopes) (ss_Scopes s) of
        Some scope \<Rightarrow> Some (Err (''scope '' @ scope @ '' invalid''))
      | None \<Rightarrow>
          if list_ex blank (ss_TrustClasses s) then Some (Err ''trust_classes contains empty trust class'')
          else case List.find (\<lambda>x. x \<notin> set sessionOperations) (ss_Operations s) of
            Some operation \<Rightarrow> Some (Err (''operation '' @ operation @ '' invalid''))
          | None \<Rightarrow> firstErr
              [(list_ex blank (ss_ActorKinds s), Err ''actor_kinds contains empty actor kind''),
               (list_ex blank (ss_ActorIDs s), Err ''actor_ids contains empty actor id''),
               (list_ex blank (ss_ExternalProviders s), Err ''session selector external provider must not be empty'')])"

definition ValidateSessionPolicy :: "SessionPolicy \<Rightarrow> goerr option" where
  "ValidateSessionPolicy p =
     (if blank (sp_ID p) then Some (Err ''id required'')
      else if blank (sp_Name p) then Some (Err ''name required'')
      else case ValidateSessionSelector (sp_Selector p) of
        Some err \<Rightarrow> Some (Wrap ''selector invalid: '' err)
      | None \<Rightarrow> firstErr
          [(sp_Effect p \<notin> {''allow'', ''ask'', ''deny''}, Err (''effect='' @ sp_Effect p @ '' invalid'')),
           (list_ex blank (sp_Approvers p), Err ''approvers contains empty approver''),
           (sp_ApprovalTTL p \<noteq> [] \<and> ParseDuration (sp_ApprovalTTL p) = None,
            Wrap ''approval_ttl invalid: '' (ErrParseDuration (sp_ApprovalTTL p)))])"

section \<open>The three-valued decision\<close>

type_synonym Decision = string

abbreviation DecisionAllow :: Decision where
  "DecisionAllow \<equiv> ''allow''"
abbreviation DecisionAsk :: Decision where
  "DecisionAsk \<equiv> ''ask''"
abbreviation DecisionDeny :: Decision where
  "DecisionDeny \<equiv> ''deny''"

definition Decision_Valid :: "Decision \<Rightarrow> bool" where
  "Decision_Valid d \<longleftrightarrow> d = DecisionAllow \<or> d = DecisionAsk \<or> d = DecisionDeny"

definition ParseDecision :: "string \<Rightarrow> goerr + Decision" where
  "ParseDecision s =
     (let normalized = ToLower (TrimSpace s) in
      if normalized = DecisionAllow \<or> normalized = DecisionAsk \<or> normalized = DecisionDeny
      then Inr normalized else Inl (Err (''invalid decision '' @ s)))"

definition DecisionOr :: "string \<Rightarrow> Decision \<Rightarrow> goerr + Decision" where
  "DecisionOr s def =
     (if TrimSpace s = [] then (if def = [] then Inr DecisionAsk else Inr def)
      else ParseDecision s)"

section \<open>Properties\<close>

lemma ParseDecision_Valid: "ParseDecision s = Inr d \<Longrightarrow> Decision_Valid d"
  by (auto simp: ParseDecision_def Decision_Valid_def Let_def split: if_splits)

lemma ParseDecision_fixed: "Decision_Valid d \<Longrightarrow> ParseDecision d = Inr d"
  by (auto simp: Decision_Valid_def ParseDecision_def) code_simp+

text \<open>
  \<^bold>\<open>C38.\<close> Decisions fail closed: \<open>DecisionOr\<close> reads \<open>allow\<close> exactly from a text that says allow, in any
  case and with any surrounding blanks, or from a blank text with the explicit default allow;
  every other text and default gives ask, deny or an error.
\<close>

theorem decisionOr_fail_closed:
  "DecisionOr s def = Inr DecisionAllow \<longleftrightarrow>
     EqualFold (TrimSpace s) ''allow'' \<or> (TrimSpace s = [] \<and> def = DecisionAllow)"
proof -
  have low: "ToLower ''allow'' = ''allow''" by code_simp
  have "TrimSpace s \<noteq> []" if "ToLower (TrimSpace s) = ''allow''"
    using that by (metis ToLower_Nil(1) list.distinct(1))
  then show ?thesis
    by (auto simp: DecisionOr_def ParseDecision_def EqualFold_def Let_def low)
qed

end
