(* ===== verification/PolicyMatch.thy ===== *)
theory PolicyMatch
  imports Policy "HOL-Library.Product_Lexorder" "HOL-Library.Multiset"
begin

text \<open>
  Matching of requests against compiled rules and the deny-wins lattice
  (\<open>governance/authorization/policy_match.go\<close>). The reading of \<open>time.Now\<close> that
  \<open>matchesTimeWindow\<close> takes when a request carries no timestamp is the argument \<open>now\<close>.
\<close>

section \<open>The effect lattice\<close>

type_synonym policyEffect = string

abbreviation effectAllow :: policyEffect where "effectAllow \<equiv> ''allow''"
abbreviation effectLogOnly :: policyEffect where "effectLogOnly \<equiv> ''log_only''"
abbreviation effectRateLimit :: policyEffect where "effectRateLimit \<equiv> ''rate_limit''"
abbreviation effectRequireApproval :: policyEffect where "effectRequireApproval \<equiv> ''require_approval''"
abbreviation effectDeny :: policyEffect where "effectDeny \<equiv> ''deny''"

definition effectSeverity :: "(policyEffect \<times> int) list" where
  "effectSeverity = [(effectAllow, 0), (effectLogOnly, 1), (effectRateLimit, 2),
                     (effectRequireApproval, 3), (effectDeny, 4)]"

text \<open>An action that is no effect parses to the empty effect.\<close>

definition parsePolicyEffect :: "string \<Rightarrow> policyEffect \<times> bool" where
  "parsePolicyEffect action =
     (let effect = TrimSpace action in
      case map_of effectSeverity effect of Some _ \<Rightarrow> (effect, True) | None \<Rightarrow> ([], False))"

definition effectSeverityOf :: "policyEffect \<Rightarrow> int" where
  "effectSeverityOf effect =
     (case map_of effectSeverity effect of Some severity \<Rightarrow> severity | None \<Rightarrow> maxInt64)"

record shadowedRule =
  sh_Winner :: PolicyRule
  sh_Shadowed :: PolicyRule

section \<open>Conditions\<close>

fun containsFoldLoop :: "string list \<Rightarrow> string \<Rightarrow> bool" where
  "containsFoldLoop [] want = False"
| "containsFoldLoop (v # vs) want = (if EqualFold (TrimSpace v) want then True else containsFoldLoop vs want)"

definition containsFold :: "string list \<Rightarrow> string \<Rightarrow> bool" where
  "containsFold values want =
     (let want = TrimSpace want in if want = [] then False else containsFoldLoop values want)"

definition containsProviderKind :: "string list \<Rightarrow> string \<Rightarrow> bool" where
  "containsProviderKind values want = list_ex (\<lambda>v. v = want) values"

definition containsExternalProvider :: "string list \<Rightarrow> string \<Rightarrow> bool" where
  "containsExternalProvider values want = list_ex (\<lambda>v. EqualFold v want) values"

definition containsTrustClass :: "string list \<Rightarrow> string \<Rightarrow> bool" where
  "containsTrustClass values want = list_ex (\<lambda>v. v = want) values"

definition containsCapabilityKind :: "string list \<Rightarrow> string \<Rightarrow> bool" where
  "containsCapabilityKind values want = list_ex (\<lambda>v. v = want) values"

definition containsRuntimeFamily :: "string list \<Rightarrow> string \<Rightarrow> bool" where
  "containsRuntimeFamily values want = list_ex (\<lambda>v. v = want) values"

definition containsEffectClass :: "EffectClass list \<Rightarrow> EffectClass list \<Rightarrow> bool" where
  "containsEffectClass values actual = list_ex (\<lambda>v. list_ex (\<lambda>c. c = v) actual) values"

definition containsSessionScope :: "string list \<Rightarrow> string \<Rightarrow> bool" where
  "containsSessionScope values want = list_ex (\<lambda>v. v = want) values"

definition containsSessionOperation :: "string list \<Rightarrow> string \<Rightarrow> bool" where
  "containsSessionOperation values want = list_ex (\<lambda>v. v = want) values"

definition containsSensitivityClass :: "string list \<Rightarrow> string \<Rightarrow> bool" where
  "containsSensitivityClass values want = list_ex (\<lambda>v. EqualFold v want) values"

definition containsRouteMode :: "string list \<Rightarrow> string \<Rightarrow> bool" where
  "containsRouteMode values want = list_ex (\<lambda>v. EqualFold v want) values"

definition riskRank :: "RiskClass \<Rightarrow> int" where
  "riskRank r =
     (if r = RiskClassReadOnly then 1
      else if r = RiskClassSessioned then 2
      else if r = RiskClassNetwork then 3
      else if r = RiskClassExecute then 4
      else if r = RiskClassCredentialed then 5
      else if r = RiskClassExfiltration then 6
      else if r = RiskClassDestructive then 7
      else 0)"

definition matchesMinRiskClasses :: "RiskClass list \<Rightarrow> RiskClass list \<Rightarrow> bool" where
  "matchesMinRiskClasses minValues actual =
     list_ex (\<lambda>minValue. let threshold = riskRank minValue in
                list_ex (\<lambda>actualRisk. riskRank actualRisk \<ge> threshold) actual) minValues"

definition matchesTimeWindow :: "time \<Rightarrow> TimeWindow \<Rightarrow> time \<Rightarrow> int \<Rightarrow> bool" where
  "matchesTimeWindow now window ts zone =
     (let current = (if IsZero ts then formatClock 0 now else formatClock zone ts) in
      if tw_After window \<noteq> [] \<and> current < tw_After window then False
      else if tw_Before window \<noteq> [] \<and> tw_Before window < current then False
      else True)"

fun matchAnyActor :: "ActorMatch list \<Rightarrow> PolicyRequest \<Rightarrow> bool" where
  "matchAnyActor [] req = False"
| "matchAnyActor (actor # rest) req =
     (if am_Kind actor \<noteq> [] \<and> \<not> EqualFold (am_Kind actor) (ea_Kind (rq_Actor req)) then matchAnyActor rest req
      else if am_IDs actor \<noteq> [] \<and> \<not> containsFold (am_IDs actor) (ea_ID (rq_Actor req)) then matchAnyActor rest req
      else if am_Authenticated actor \<and> \<not> rq_Authenticated req then matchAnyActor rest req
      else True)"

text \<open>A required flag: no requirement, or the flag has the required value.\<close>

definition flagOk :: "bool option \<Rightarrow> bool \<Rightarrow> bool" where
  "flagOk want actual = (case want of None \<Rightarrow> True | Some b \<Rightarrow> actual = b)"

text \<open>A condition on a list of values: no values, or the test holds.\<close>

definition listOk :: "'a list \<Rightarrow> bool \<Rightarrow> bool" where
  "listOk values ok \<longleftrightarrow> values = [] \<or> ok"

definition ruleMatchesRequest :: "time \<Rightarrow> PolicyRule \<Rightarrow> PolicyRequest \<Rightarrow> bool" where
  "ruleMatchesRequest now rule req =
     (let c = pr_Conditions rule in
      listOk (pc_Actors c) (matchAnyActor (pc_Actors c) req) \<and>
      listOk (pc_Capabilities c) (containsFold (pc_Capabilities c) (rq_CapabilityID req) \<or>
                                  containsFold (pc_Capabilities c) (rq_CapabilityName req)) \<and>
      listOk (pc_ExportNames c) (containsFold (pc_ExportNames c) (rq_ExportName req)) \<and>
      listOk (pc_SourceDomains c) (containsFold (pc_SourceDomains c) (rq_SourceDomain req)) \<and>
      listOk (pc_ContextClasses c) (containsFold (pc_ContextClasses c) (rq_ContextClass req)) \<and>
      listOk (pc_SensitivityClasses c) (containsSensitivityClass (pc_SensitivityClasses c) (rq_SensitivityClass req)) \<and>
      listOk (pc_RouteModes c) (containsRouteMode (pc_RouteModes c) (rq_RouteMode req)) \<and>
      listOk (pc_ProviderKinds c) (containsProviderKind (pc_ProviderKinds c) (rq_ProviderKind req)) \<and>
      listOk (pc_ExternalProviders c) (containsExternalProvider (pc_ExternalProviders c) (rq_ExternalProvider req)) \<and>
      listOk (pc_TrustClasses c) (containsTrustClass (pc_TrustClasses c) (rq_TrustClass req)) \<and>
      listOk (pc_CapabilityKinds c) (containsCapabilityKind (pc_CapabilityKinds c) (rq_CapabilityKind req)) \<and>
      listOk (pc_RuntimeFamilies c) (containsRuntimeFamily (pc_RuntimeFamilies c) (rq_RuntimeFamily req)) \<and>
      listOk (pc_EffectClasses c) (containsEffectClass (pc_EffectClasses c) (rq_EffectClasses req)) \<and>
      listOk (pc_MinRiskClasses c) (matchesMinRiskClasses (pc_MinRiskClasses c) (rq_RiskClasses req)) \<and>
      listOk (pc_Partitions c) (containsFold (pc_Partitions c) (rq_Partition req)) \<and>
      listOk (pc_ChannelIDs c) (containsFold (pc_ChannelIDs c) (rq_ChannelID req)) \<and>
      listOk (pc_SessionScopes c) (containsSessionScope (pc_SessionScopes c) (rq_SessionScope req)) \<and>
      listOk (pc_SessionOperations c) (containsSessionOperation (pc_SessionOperations c) (rq_SessionOperation req)) \<and>
      flagOk (pc_RequireOwnership c) (rq_IsOwner req) \<and>
      flagOk (pc_RequireDelegation c) (rq_IsDelegated req) \<and>
      flagOk (pc_RequireExternalBinding c) (rq_HasExternalBinding req) \<and>
      flagOk (pc_RequireResolvedExternal c) (rq_ResolvedExternal req) \<and>
      flagOk (pc_RequireRestrictedExternal c) (rq_RestrictedExternal req) \<and>
      (case pc_TimeWindow c of None \<Rightarrow> True
       | Some w \<Rightarrow> matchesTimeWindow now w (rq_Timestamp req) (rq_Zone req)))"

section \<open>Evaluation\<close>

definition decisionForEffect :: "policyEffect \<Rightarrow> PolicyRule option \<Rightarrow> PolicyDecision" where
  "decisionForEffect effect rule =
     (let reason = (case rule of None \<Rightarrow> [] | Some r \<Rightarrow> pe_Reason (pr_Effect r)) in
      if effect = effectAllow \<or> effect = effectLogOnly
      then (PolicyDecisionAllow reason)\<lparr>pd_Rule := rule\<rparr>
      else if effect = effectDeny then (PolicyDecisionDeny reason)\<lparr>pd_Rule := rule\<rparr>
      else if effect = effectRequireApproval \<or> effect = effectRateLimit
      then PolicyDecisionRequireApproval rule
      else PolicyDecisionDeny (''unsupported effect '' @ [CHR 0x22] @ effect @ [CHR 0x22]))"

definition ruleEffect :: "PolicyRule \<Rightarrow> policyEffect" where
  "ruleEffect r = fst (parsePolicyEffect (pe_Action (pr_Effect r)))"

text \<open>The scan for the winner: the rule kept so far with its effect and severity.\<close>

fun winnerLoop :: "PolicyRule \<Rightarrow> policyEffect \<Rightarrow> int \<Rightarrow> PolicyRule list \<Rightarrow> PolicyRule \<times> policyEffect \<times> int" where
  "winnerLoop w e s [] = (w, e, s)"
| "winnerLoop w e s (r # rs) =
     (let effect = ruleEffect r;
          severity = effectSeverityOf effect in
      if severity > s \<or> (severity = s \<and> pr_Priority r > pr_Priority w)
      then winnerLoop r effect severity rs
      else winnerLoop w e s rs)"

definition evaluateCompiledRules ::
  "time \<Rightarrow> PolicyRule list \<Rightarrow> PolicyRequest \<Rightarrow> PolicyDecision option \<times> shadowedRule list" where
  "evaluateCompiledRules now rules req =
     (case filter (\<lambda>r. pr_Enabled r \<and> ruleMatchesRequest now r req) rules of
        [] \<Rightarrow> (None, [])
      | m # ms \<Rightarrow>
          let (winner, effect, severity) = winnerLoop m (ruleEffect m) (effectSeverityOf (ruleEffect m)) ms;
              shadowed = map (\<lambda>r. \<lparr>sh_Winner = winner, sh_Shadowed = r\<rparr>)
                (filter (\<lambda>r. ruleEffect r = effectAllow \<and> effectSeverityOf (ruleEffect r) < severity) (m # ms))
          in (Some (decisionForEffect effect (Some winner)), shadowed))"

section \<open>The winner\<close>

definition ruleRank :: "PolicyRule \<Rightarrow> int \<times> int" where
  "ruleRank r = (effectSeverityOf (ruleEffect r), pr_Priority r)"

lemma winnerLoop_keepMax:
  "winnerLoop w (ruleEffect w) (effectSeverityOf (ruleEffect w)) rs =
     (let k = keepMax ruleRank w rs in (k, ruleEffect k, effectSeverityOf (ruleEffect k)))"
  by (induction rs arbitrary: w) (auto simp: Let_def ruleRank_def less_prod_def)

definition matching :: "time \<Rightarrow> PolicyRule list \<Rightarrow> PolicyRequest \<Rightarrow> PolicyRule list" where
  "matching now rules req = filter (\<lambda>r. pr_Enabled r \<and> ruleMatchesRequest now r req) rules"

text \<open>The decision is that of a matching rule whose effect is at least as strong as the effect of
  every matching rule.\<close>

lemma evaluate_winner:
  assumes "matching now rules req \<noteq> []"
  obtains w where "w \<in> set (matching now rules req)"
    and "fst (evaluateCompiledRules now rules req) = Some (decisionForEffect (ruleEffect w) (Some w))"
    and "\<forall>r \<in> set (matching now rules req). ruleRank r \<le> ruleRank w"
proof -
  obtain m ms where ms: "matching now rules req = m # ms" using assms by (cases "matching now rules req") auto
  let ?w = "keepMax ruleRank m ms"
  have "?w \<in> set (m # ms)" using keepMax_in [of ruleRank m ms] by simp
  moreover have "\<forall>r \<in> set (m # ms). ruleRank r \<le> ruleRank ?w"
    using keepMax_ge [of _ ms ruleRank m] keepMax_ge_start [of ruleRank m ms] by simp
  moreover have "fst (evaluateCompiledRules now rules req) = Some (decisionForEffect (ruleEffect ?w) (Some ?w))"
    using ms by (simp add: evaluateCompiledRules_def matching_def winnerLoop_keepMax Let_def)
  ultimately show thesis using that ms by metis
qed

lemma evaluate_none: "matching now rules req = [] \<Longrightarrow> evaluateCompiledRules now rules req = (None, [])"
  by (simp add: evaluateCompiledRules_def matching_def)

lemma ruleEffect_cases:
  "ruleEffect r \<in> {effectAllow, effectLogOnly, effectRateLimit, effectRequireApproval, effectDeny, []}"
  by (auto simp: ruleEffect_def parsePolicyEffect_def effectSeverity_def Let_def split: option.split if_splits)

lemma severity_values [simp]:
  "effectSeverityOf effectAllow = 0" "effectSeverityOf effectLogOnly = 1" "effectSeverityOf effectRateLimit = 2"
  "effectSeverityOf effectRequireApproval = 3" "effectSeverityOf effectDeny = 4" "effectSeverityOf [] = maxInt64"
  by (simp_all add: effectSeverityOf_def effectSeverity_def)

lemma decisionForEffect_effect:
  "pd_Effect (decisionForEffect e r) =
     (if e = effectAllow \<or> e = effectLogOnly then ''allow''
      else if e = effectRequireApproval \<or> e = effectRateLimit then ''require_approval'' else ''deny'')"
  by (simp add: decisionForEffect_def PolicyDecisionAllow_def PolicyDecisionDeny_def
      PolicyDecisionRequireApproval_def Let_def)

text \<open>The decision vocabulary as the severities the lattice gives it.\<close>

definition severityDecision :: "int \<Rightarrow> string" where
  "severityDecision s = (if s \<le> 1 then ''allow'' else if s \<le> 3 then ''require_approval'' else ''deny'')"

lemma decision_by_severity:
  "pd_Effect (decisionForEffect (ruleEffect r) x) = severityDecision (effectSeverityOf (ruleEffect r))"
  using ruleEffect_cases [of r]
  by (auto simp: decisionForEffect_effect severityDecision_def maxInt64_def)

definition topSeverity :: "PolicyRule list \<Rightarrow> int" where
  "topSeverity rs = Max ((effectSeverityOf \<circ> ruleEffect) ` set rs)"

lemma topSeverity_winner:
  assumes "w \<in> set rs" and "\<forall>r \<in> set rs. ruleRank r \<le> ruleRank w"
  shows "topSeverity rs = effectSeverityOf (ruleEffect w)"
  unfolding topSeverity_def
  using assms by (intro Max_eqI) (auto simp: ruleRank_def less_eq_prod_def)

lemma evaluate_effect:
  "map_option pd_Effect (fst (evaluateCompiledRules now rules req)) =
     (if matching now rules req = [] then None
      else Some (severityDecision (topSeverity (matching now rules req))))"
proof (cases "matching now rules req = []")
  case False
  from False obtain w where w: "w \<in> set (matching now rules req)"
    and dec: "fst (evaluateCompiledRules now rules req) = Some (decisionForEffect (ruleEffect w) (Some w))"
    and top: "\<forall>r \<in> set (matching now rules req). ruleRank r \<le> ruleRank w"
    by (rule evaluate_winner)
  with False show ?thesis by (simp add: decision_by_severity topSeverity_winner)
qed (simp add: evaluate_none)

lemma evaluate_shadowed:
  "map sh_Shadowed (snd (evaluateCompiledRules now rules req)) =
     filter (\<lambda>r. ruleEffect r = effectAllow \<and> 0 < topSeverity (matching now rules req))
       (matching now rules req)"
proof (cases "matching now rules req")
  case (Cons m ms)
  let ?w = "keepMax ruleRank m ms"
  have "topSeverity (m # ms) = effectSeverityOf (ruleEffect ?w)"
    using keepMax_in [of ruleRank m ms] keepMax_ge [of _ ms ruleRank m] keepMax_ge_start [of ruleRank m ms]
    by (intro topSeverity_winner) auto
  with Cons show ?thesis
    by (auto simp: evaluateCompiledRules_def matching_def winnerLoop_keepMax Let_def comp_def
        simp del: filter_eq_Cons_iff intro: filter_cong)
qed (simp add: evaluate_none)

text \<open>
  \<^bold>\<open>C3.\<close> The strongest matching rule decides, whatever the order of the rules: the effect of the
  decision is the one of the greatest severity among the enabled rules that match the request,
  an action outside the vocabulary counting as stronger than deny; and the rules reported as
  shadowed are the matching allow rules that lost to a stronger one.
\<close>

theorem evaluate_strongest_wins:
  "map_option pd_Effect (fst (evaluateCompiledRules now rules req)) =
     (if matching now rules req = [] then None
      else Some (severityDecision (topSeverity (matching now rules req)))) \<and>
   map sh_Shadowed (snd (evaluateCompiledRules now rules req)) =
     filter (\<lambda>r. ruleEffect r = effectAllow \<and> 0 < topSeverity (matching now rules req))
       (matching now rules req)"
  by (intro conjI evaluate_effect evaluate_shadowed)

text \<open>What clients of the lattice use: a denying or unreadable matching rule forces a denial, and
  the effect depends on the set of rules only.\<close>

lemma evaluate_denies:
  assumes "r \<in> set rules" "pr_Enabled r" "ruleMatchesRequest now r req" "ruleEffect r \<in> {effectDeny, []}"
  shows "\<exists>d. fst (evaluateCompiledRules now rules req) = Some d \<and> pd_Effect d = ''deny''"
proof -
  have r: "r \<in> set (matching now rules req)" using assms by (simp add: matching_def)
  then have "effectSeverityOf (ruleEffect r) \<le> topSeverity (matching now rules req)"
    unfolding topSeverity_def by (intro Max_ge) auto
  moreover have "4 \<le> effectSeverityOf (ruleEffect r)" using assms(4) by (auto simp: maxInt64_def)
  ultimately have "severityDecision (topSeverity (matching now rules req)) = ''deny''"
    by (simp add: severityDecision_def)
  then show ?thesis using evaluate_effect [of now rules req] r by (auto simp: map_option_case split: option.splits if_splits)
qed

lemma evaluate_effect_cong:
  "set rules = set rules' \<Longrightarrow>
   map_option pd_Effect (fst (evaluateCompiledRules now rules req)) =
   map_option pd_Effect (fst (evaluateCompiledRules now rules' req))"
proof -
  assume "set rules = set rules'"
  then have m: "set (matching now rules req) = set (matching now rules' req)" by (auto simp: matching_def)
  then have "matching now rules req = [] \<longleftrightarrow> matching now rules' req = []" by (metis set_empty)
  with m show ?thesis by (simp add: evaluate_effect topSeverity_def)
qed

section \<open>Time windows\<close>

text \<open>
  A time window whose bounds are written with two-digit hours matches exactly the instants
  whose minute of the day, on the clock of the timestamp, lies between them; a window that
  runs over midnight (the lower bound later than the upper) matches no instant at all.
\<close>

theorem timeWindow_padded:
  assumes "after < 1440" and "before < 1440" and "\<not> IsZero ts"
    and "window = \<lparr>tw_After = clockText after, tw_Before = clockText before, tw_Days = days, tw_Timezone = tz\<rparr>"
  shows "matchesTimeWindow now window ts zone \<longleftrightarrow>
           after \<le> minuteOfDay zone ts \<and> minuteOfDay zone ts \<le> before"
proof -
  have "clockText after \<noteq> []" "clockText before \<noteq> []" by (simp_all add: clockText_def)
  then show ?thesis
    using assms by (auto simp: matchesTimeWindow_def Let_def formatClock_text clockText_less minuteOfDay_bound)
qed

theorem timeWindow_padded_witness:
  "matchesTimeWindow 0 \<lparr>tw_After = clockText 540, tw_Before = clockText 1020, tw_Days = [], tw_Timezone = []\<rparr>
     (10 * 3600 * 1000000000) 0 \<longleftrightarrow>
   540 \<le> minuteOfDay 0 (10 * 3600 * 1000000000) \<and> minuteOfDay 0 (10 * 3600 * 1000000000) \<le> 1020"
  by (rule timeWindow_padded) (simp_all add: IsZero_def)

text \<open>
  Validation accepts a one-digit hour, but the comparison is one of strings: the valid window
  from 9:30 to 17:00 does not match ten o'clock, nor any other time of the day.
\<close>

theorem timeWindow_unpadded_never_matches:
  "TimeWindow_Validate \<lparr>tw_After = ''9:30'', tw_Before = ''17:00'', tw_Days = [], tw_Timezone = []\<rparr> = None \<and>
   \<not> matchesTimeWindow now \<lparr>tw_After = ''9:30'', tw_Before = ''17:00'', tw_Days = [], tw_Timezone = []\<rparr> ts zone"
proof
  show "TimeWindow_Validate \<lparr>tw_After = ''9:30'', tw_Before = ''17:00'', tw_Days = [], tw_Timezone = []\<rparr> = None"
    by code_simp
  have early: "clockText m < ''9:30''" if "m < 1440" for m
  proof -
    have "of_char (digit (m div 600)) < (57::nat)" using that by simp
    moreover have "(of_char CHR ''9'' :: nat) = 57" by code_simp
    ultimately have "digit (m div 600) < CHR ''9''" unfolding less_char_def by simp
    then show ?thesis using that by (simp add: clockText_digits)
  qed
  show "\<not> matchesTimeWindow now \<lparr>tw_After = ''9:30'', tw_Before = ''17:00'', tw_Days = [], tw_Timezone = []\<rparr> ts zone"
    using early [OF minuteOfDay_bound] by (simp add: matchesTimeWindow_def formatClock_text Let_def)
qed

end
