(* ===== verification/Bounded.thy ===== *)
theory Bounded
  imports Prelude
begin

text \<open>
  Package \<open>governance/bounded\<close>: the bounded cache with per-entry time to live and
  insert-order eviction (\<open>cache.go\<close>), and the fixed-capacity ring buffer (\<open>ring.go\<close>).

  A cache is the record of the Go struct. The map \<open>entries\<close> is an association list with
  distinct keys; \<open>c_log\<close> is the sequence of calls made to the \<open>onEvict\<close> hook (empty when
  no hook is installed). Every method holds the mutex for its whole body, so a method
  is one atomic state transformer; the clock readings it takes are its arguments.

  The lemmas show that the cache never holds more than its capacity, that a value
  consumed by \<open>TakeIf\<close> is never observed again, what \<open>Sweep\<close> leaves behind, when a
  stored value can be read back and when it cannot, and that the ring holds exactly the
  newest elements in order.
\<close>

section \<open>The cache: state and operations\<close>

record 'v cacheEntry =
  ce_value :: 'v
  ce_insertedAt :: time

record ('k, 'v) cache =
  c_cap :: int
  c_ttl :: int
  c_entries :: "('k \<times> 'v cacheEntry) list"
  c_order :: "'k list"
  c_onEvict :: bool
  c_evicted :: "64 word"
  c_expired :: "64 word"
  c_log :: "('k \<times> 'v) list"

definition NewCache :: "int \<Rightarrow> int \<Rightarrow> bool \<Rightarrow> ('k, 'v) cache" where
  "NewCache cap ttl hook =
     \<lparr>c_cap = cap, c_ttl = ttl, c_entries = [], c_order = [], c_onEvict = hook,
      c_evicted = 0, c_expired = 0, c_log = []\<rparr>"

definition removeLocked :: "'k \<Rightarrow> 'v cacheEntry \<Rightarrow> ('k, 'v) cache \<Rightarrow> ('k, 'v) cache" where
  "removeLocked k e c =
     c\<lparr>c_entries := AList.delete k (c_entries c),
       c_log := (if c_onEvict c then c_log c @ [(k, ce_value e)] else c_log c)\<rparr>"

definition expiredLocked ::
    "time \<Rightarrow> 'k \<Rightarrow> 'v cacheEntry \<Rightarrow> ('k, 'v) cache \<Rightarrow> bool \<times> ('k, 'v) cache" where
  "expiredLocked now k e c =
     (if c_ttl c \<le> 0 \<or> IsZero (ce_insertedAt e) then (False, c)
      else if time_Sub now (ce_insertedAt e) < c_ttl c then (False, c)
      else let c1 = removeLocked k e c in (True, c1\<lparr>c_expired := c_expired c1 + 1\<rparr>))"

definition cache_Get :: "time \<Rightarrow> 'k \<Rightarrow> ('k, 'v) cache \<Rightarrow> 'v option \<times> ('k, 'v) cache" where
  "cache_Get now k c =
     (case map_of (c_entries c) k of
        None \<Rightarrow> (None, c)
      | Some e \<Rightarrow>
          (case expiredLocked now k e c of
             (expired, c') \<Rightarrow> if expired then (None, c') else (Some (ce_value e), c')))"

definition touchLocked :: "'k \<Rightarrow> ('k, 'v) cache \<Rightarrow> ('k, 'v) cache" where
  "touchLocked k c =
     (if k \<in> set (c_order c) then c\<lparr>c_order := remove1 k (c_order c) @ [k]\<rparr> else c)"

text \<open>The eviction loop of \<open>Put\<close>: pop the oldest key until the order fits the capacity. The
  body of one round is \<open>popOldest\<close>.\<close>

definition popOldest :: "('k, 'v) cache \<Rightarrow> ('k, 'v) cache" where
  "popOldest c =
     (case c_order c of
        [] \<Rightarrow> c
      | oldest # rest \<Rightarrow>
          let c1 = c\<lparr>c_order := rest\<rparr> in
          (case map_of (c_entries c1) oldest of
             None \<Rightarrow> c1
           | Some e \<Rightarrow>
               let c2 = removeLocked oldest e c1
               in c2\<lparr>c_evicted := c_evicted c2 + 1\<rparr>))"

lemma popOldest_order [simp]: "c_order (popOldest c) = tl (c_order c)"
  by (auto simp: popOldest_def removeLocked_def Let_def split: list.split option.split)

function evictOldest :: "('k, 'v) cache \<Rightarrow> ('k, 'v) cache" where
  "evictOldest c =
     (if int (length (c_order c)) > c_cap c \<and> c_order c \<noteq> [] then evictOldest (popOldest c) else c)"
  by pat_completeness auto
termination
  by (relation "measure (\<lambda>c. length (c_order c))") auto

declare evictOldest.simps [simp del]

definition cache_Put :: "time \<Rightarrow> 'k \<Rightarrow> 'v \<Rightarrow> ('k, 'v) cache \<Rightarrow> ('k, 'v) cache" where
  "cache_Put now k v c =
     (if c_cap c \<le> 0
      then c\<lparr>c_log := (if c_onEvict c then c_log c @ [(k, v)] else c_log c),
             c_evicted := c_evicted c + 1\<rparr>
      else let e = \<lparr>ce_value = v, ce_insertedAt = now\<rparr>;
               c1 = c\<lparr>c_entries := AList.update k e (c_entries c)\<rparr>
           in case map_of (c_entries c) k of
                Some _ \<Rightarrow> touchLocked k c1
              | None \<Rightarrow> evictOldest (c1\<lparr>c_order := c_order c @ [k]\<rparr>))"

definition removeFromOrderLocked :: "'k \<Rightarrow> ('k, 'v) cache \<Rightarrow> ('k, 'v) cache" where
  "removeFromOrderLocked k c = c\<lparr>c_order := remove1 k (c_order c)\<rparr>"

definition cache_Delete :: "'k \<Rightarrow> ('k, 'v) cache \<Rightarrow> ('k, 'v) cache" where
  "cache_Delete k c =
     (case map_of (c_entries c) k of
        None \<Rightarrow> c
      | Some e \<Rightarrow> removeFromOrderLocked k (removeLocked k e c))"

text \<open>The condition \<open>cond\<close> is \<open>None\<close> for a nil function.\<close>

definition cache_TakeIf ::
    "time \<Rightarrow> 'k \<Rightarrow> ('v \<Rightarrow> bool) option \<Rightarrow> ('k, 'v) cache \<Rightarrow> 'v option \<times> ('k, 'v) cache" where
  "cache_TakeIf now k cond c =
     (case map_of (c_entries c) k of
        None \<Rightarrow> (None, c)
      | Some e \<Rightarrow>
          (case expiredLocked now k e c of
             (expired, c') \<Rightarrow>
               (if expired then (None, c')
                else if (case cond of None \<Rightarrow> True | Some f \<Rightarrow> f (ce_value e))
                then (Some (ce_value e), removeFromOrderLocked k (removeLocked k e c'))
                else (Some (ce_value e), c'))))"

definition cache_Len :: "('k, 'v) cache \<Rightarrow> nat" where
  "cache_Len c = length (c_entries c)"

text \<open>\<open>clock i\<close> is the reading taken while the \<open>i\<close>-th key of the order is examined.\<close>

fun sweepKeys ::
    "(nat \<Rightarrow> time) \<Rightarrow> nat \<Rightarrow> 'k list \<Rightarrow> nat \<Rightarrow> ('k, 'v) cache \<Rightarrow> nat \<times> ('k, 'v) cache" where
  "sweepKeys clock i [] removed c = (removed, c)"
| "sweepKeys clock i (k # ks) removed c =
     (case map_of (c_entries c) k of
        None \<Rightarrow> sweepKeys clock (Suc i) ks removed c
      | Some e \<Rightarrow>
          (case expiredLocked (clock i) k e c of
             (expired, c') \<Rightarrow>
               sweepKeys clock (Suc i) ks (if expired then Suc removed else removed) c'))"

definition cache_Sweep :: "(nat \<Rightarrow> time) \<Rightarrow> ('k, 'v) cache \<Rightarrow> nat \<times> ('k, 'v) cache" where
  "cache_Sweep clock c =
     (case sweepKeys clock 0 (c_order c) 0 c of
        (removed, c') \<Rightarrow>
          (if removed > 0
           then (removed, c'\<lparr>c_order := filter (\<lambda>k. map_of (c_entries c') k \<noteq> None) (c_order c')\<rparr>)
           else (removed, c')))"

definition cache_Reset :: "('k, 'v) cache \<Rightarrow> ('k, 'v) cache" where
  "cache_Reset c = c\<lparr>c_entries := [], c_order := []\<rparr>"

text \<open>\<open>Range\<close>: the pairs handed to \<open>fn\<close>, in the order of the map, up to the first call that
  answers false.\<close>

fun rangeEntries ::
    "int \<Rightarrow> (nat \<Rightarrow> time) \<Rightarrow> nat \<Rightarrow> ('k \<Rightarrow> 'v \<Rightarrow> bool) \<Rightarrow> ('k \<times> 'v cacheEntry) list \<Rightarrow> ('k \<times> 'v) list" where
  "rangeEntries ttl clock i fn [] = []"
| "rangeEntries ttl clock i fn ((k, e) # es) =
     (if ttl > 0 \<and> time_Sub (clock i) (ce_insertedAt e) \<ge> ttl
      then rangeEntries ttl clock (Suc i) fn es
      else (k, ce_value e) #
           (if fn k (ce_value e) then rangeEntries ttl clock (Suc i) fn es else []))"

definition cache_Range :: "(nat \<Rightarrow> time) \<Rightarrow> ('k \<Rightarrow> 'v \<Rightarrow> bool) \<Rightarrow> ('k, 'v) cache \<Rightarrow> ('k \<times> 'v) list" where
  "cache_Range clock fn c = rangeEntries (c_ttl c) clock 0 fn (c_entries c)"

text \<open>One call of the cache's interface, and a sequence of calls. The mutex makes every
  concurrent execution such a sequence.\<close>

datatype ('k, 'v) cacheOp =
    OpGet time 'k
  | OpPut time 'k 'v
  | OpDelete 'k
  | OpTakeIf time 'k "('v \<Rightarrow> bool) option"
  | OpSweep "nat \<Rightarrow> time"
  | OpReset

fun execOp :: "('k, 'v) cacheOp \<Rightarrow> ('k, 'v) cache \<Rightarrow> ('k, 'v) cache" where
  "execOp (OpGet now k) c = snd (cache_Get now k c)"
| "execOp (OpPut now k v) c = cache_Put now k v c"
| "execOp (OpDelete k) c = cache_Delete k c"
| "execOp (OpTakeIf now k cond) c = snd (cache_TakeIf now k cond c)"
| "execOp (OpSweep clock) c = snd (cache_Sweep clock c)"
| "execOp OpReset c = cache_Reset c"

definition execOps :: "('k, 'v) cacheOp list \<Rightarrow> ('k, 'v) cache \<Rightarrow> ('k, 'v) cache" where
  "execOps ops c = fold execOp ops c"

fun isPutOf :: "'k \<Rightarrow> ('k, 'v) cacheOp \<Rightarrow> bool" where
  "isPutOf k (OpPut _ k' _) = (k' = k)"
| "isPutOf k _ = False"

section \<open>The capacity invariant\<close>

text \<open>The keys of the map are distinct, every key of the map is in the order, and the order
  is no longer than the capacity. The order may hold keys that are no longer in the map.\<close>

definition cache_inv :: "('k, 'v) cache \<Rightarrow> bool" where
  "cache_inv c \<longleftrightarrow>
     distinct (gokeys (c_entries c)) \<and>
     (\<forall>k. map_of (c_entries c) k \<noteq> None \<longrightarrow> k \<in> set (c_order c)) \<and>
     int (length (c_order c)) \<le> max 0 (c_cap c)"

lemma removeLocked_sel [simp]:
  "c_cap (removeLocked k e c) = c_cap c"
  "c_ttl (removeLocked k e c) = c_ttl c"
  "c_order (removeLocked k e c) = c_order c"
  "c_entries (removeLocked k e c) = AList.delete k (c_entries c)"
  "c_evicted (removeLocked k e c) = c_evicted c"
  "c_expired (removeLocked k e c) = c_expired c"
  by (simp_all add: removeLocked_def)

lemma removeFromOrderLocked_sel [simp]:
  "c_cap (removeFromOrderLocked k c) = c_cap c"
  "c_ttl (removeFromOrderLocked k c) = c_ttl c"
  "c_order (removeFromOrderLocked k c) = remove1 k (c_order c)"
  "c_entries (removeFromOrderLocked k c) = c_entries c"
  by (simp_all add: removeFromOrderLocked_def)

lemma touchLocked_sel [simp]:
  "c_cap (touchLocked k c) = c_cap c"
  "c_ttl (touchLocked k c) = c_ttl c"
  "c_order (touchLocked k c) =
     (if k \<in> set (c_order c) then remove1 k (c_order c) @ [k] else c_order c)"
  "c_entries (touchLocked k c) = c_entries c"
  by (simp_all add: touchLocked_def)

text \<open>An expiry check either leaves the cache alone or drops the entry from the map only.\<close>

lemma expiredLocked_sel:
  assumes "expiredLocked now k e c = (b, c')"
  shows "c_cap c' = c_cap c" "c_ttl c' = c_ttl c" "c_order c' = c_order c"
    "c_entries c' = (if b then AList.delete k (c_entries c) else c_entries c)"
    "\<not> b \<Longrightarrow> c' = c"
  using assms by (auto simp: expiredLocked_def Let_def split: if_splits)

lemma distinct_gokeys_delete [simp]:
  "distinct (gokeys m) \<Longrightarrow> distinct (gokeys (AList.delete k m))"
  by (rule distinct_delete)

lemma distinct_gokeys_update [simp]:
  "distinct (gokeys m) \<Longrightarrow> distinct (gokeys (AList.update k v m))"
  by (rule distinct_update)

lemma popOldest_sel [simp]:
  "c_cap (popOldest c) = c_cap c"
  "c_ttl (popOldest c) = c_ttl c"
  "c_order c = k # ks \<Longrightarrow> c_entries (popOldest c) = AList.delete k (c_entries c)"
  by (auto simp: popOldest_def Let_def map_of_None_keys split: list.split option.split)

lemma evictOldest_cap [simp]: "c_cap (evictOldest c) = c_cap c"
  by (induction c rule: evictOldest.induct) (subst evictOldest.simps, simp)

lemma evictOldest_ttl [simp]: "c_ttl (evictOldest c) = c_ttl c"
  by (induction c rule: evictOldest.induct) (subst evictOldest.simps, simp)

lemma evictOldest_bound: "0 \<le> c_cap c \<Longrightarrow> int (length (c_order (evictOldest c))) \<le> c_cap c"
  by (induction c rule: evictOldest.induct) (subst evictOldest.simps, auto)

lemma evictOldest_keys:
  "distinct (gokeys (c_entries c)) \<Longrightarrow>
   (\<And>k. map_of (c_entries c) k \<noteq> None \<Longrightarrow> k \<in> set (c_order c)) \<Longrightarrow>
   distinct (gokeys (c_entries (evictOldest c))) \<and>
   (\<forall>k. map_of (c_entries (evictOldest c)) k \<noteq> None \<longrightarrow> k \<in> set (c_order (evictOldest c)))"
proof (induction c rule: evictOldest.induct)
  case (1 c)
  show ?case
  proof (cases "int (length (c_order c)) > c_cap c \<and> c_order c \<noteq> []")
    case True
    then obtain k ks where o: "c_order c = k # ks" by (auto simp: neq_Nil_conv)
    have "distinct (gokeys (c_entries (popOldest c)))"
      "\<And>x. map_of (c_entries (popOldest c)) x \<noteq> None \<Longrightarrow> x \<in> set (c_order (popOldest c))"
      using "1.prems" o by (auto split: if_splits)
    from "1.IH" [OF True this] True show ?thesis
      by (simp add: evictOldest.simps [of c])
  next
    case False
    with "1.prems" show ?thesis by (auto simp: evictOldest.simps [of c])
  qed
qed

lemma inv_NewCache: "cache_inv (NewCache cap ttl hook)"
  by (simp add: cache_inv_def NewCache_def)

lemma inv_expiredLocked:
  "expiredLocked now k e c = (b, c') \<Longrightarrow> cache_inv c \<Longrightarrow> cache_inv c'"
  by (auto simp: cache_inv_def expiredLocked_sel split: if_splits)

lemma inv_cache_Get: "cache_inv c \<Longrightarrow> cache_inv (snd (cache_Get now k c))"
  by (auto simp: cache_Get_def split: option.split prod.split dest: inv_expiredLocked)

lemma inv_drop_key:
  assumes "cache_inv c"
  shows "cache_inv (removeFromOrderLocked k (removeLocked k e c))"
proof -
  have "int (length (remove1 k (c_order c))) \<le> max 0 (c_cap c)"
    using assms by (auto simp: cache_inv_def length_remove1)
  then show ?thesis
    using assms by (auto simp: cache_inv_def split: if_splits)
qed

lemma inv_cache_Delete: "cache_inv c \<Longrightarrow> cache_inv (cache_Delete k c)"
  by (auto simp: cache_Delete_def inv_drop_key split: option.split)

lemma inv_cache_TakeIf: "cache_inv c \<Longrightarrow> cache_inv (snd (cache_TakeIf now k cond c))"
  by (auto simp: cache_TakeIf_def inv_drop_key split: option.split prod.split
      dest: inv_expiredLocked)

lemma inv_touch:
  assumes "cache_inv c" "map_of (c_entries c) k \<noteq> None"
  shows "cache_inv (touchLocked k (c\<lparr>c_entries := AList.update k e (c_entries c)\<rparr>))"
proof -
  have o: "k \<in> set (c_order c)" using assms by (auto simp: cache_inv_def)
  then have "length (remove1 k (c_order c) @ [k]) = length (c_order c)"
    by (simp add: length_remove1) (metis Suc_pred length_pos_if_in_set)
  then show ?thesis
    using assms(1) o by (auto simp: cache_inv_def split: if_splits)
qed

lemma inv_insert_evict:
  assumes "cache_inv c" "0 < c_cap c"
  shows "cache_inv (evictOldest (c\<lparr>c_entries := AList.update k e (c_entries c),
                                   c_order := c_order c @ [k]\<rparr>))"
    (is "cache_inv (evictOldest ?c)")
proof -
  have "distinct (gokeys (c_entries ?c))"
    "\<And>x. map_of (c_entries ?c) x \<noteq> None \<Longrightarrow> x \<in> set (c_order ?c)"
    using assms(1) by (auto simp: cache_inv_def split: if_splits)
  from evictOldest_keys [OF this] evictOldest_bound [of ?c] assms(2) show ?thesis
    by (simp add: cache_inv_def)
qed

lemma inv_cache_Put:
  assumes "cache_inv c" shows "cache_inv (cache_Put now k v c)"
proof (cases "c_cap c \<le> 0")
  case True
  with assms show ?thesis by (auto simp: cache_Put_def cache_inv_def)
next
  case False
  with inv_touch [OF assms, of k] inv_insert_evict [OF assms, of k] show ?thesis
    by (simp add: cache_Put_def Let_def split: option.split)
qed

lemma inv_sweepKeys: "cache_inv c \<Longrightarrow> cache_inv (snd (sweepKeys clock i ks n c))"
  by (induction ks arbitrary: i n c) (auto split: option.split prod.split dest: inv_expiredLocked)

lemma inv_live_order:
  assumes "cache_inv c"
  shows "cache_inv (c\<lparr>c_order := filter (\<lambda>k. map_of (c_entries c) k \<noteq> None) (c_order c)\<rparr>)"
proof -
  have "int (length (filter (\<lambda>k. map_of (c_entries c) k \<noteq> None) (c_order c))) \<le> int (length (c_order c))"
    by simp
  with assms have "int (length (filter (\<lambda>k. map_of (c_entries c) k \<noteq> None) (c_order c))) \<le> max 0 (c_cap c)"
    unfolding cache_inv_def by linarith
  with assms show ?thesis
    by (auto simp: cache_inv_def)
qed

lemma inv_cache_Sweep: "cache_inv c \<Longrightarrow> cache_inv (snd (cache_Sweep clock c))"
  using inv_sweepKeys [of c clock 0 "c_order c" 0]
  by (cases "sweepKeys clock 0 (c_order c) 0 c")
     (simp add: cache_Sweep_def inv_live_order del: not_None_eq)

lemma inv_cache_Reset: "cache_inv c \<Longrightarrow> cache_inv (cache_Reset c)"
  by (simp add: cache_inv_def cache_Reset_def)

lemmas cache_inv_ops = inv_cache_Get inv_cache_Put inv_cache_Delete inv_cache_TakeIf
  inv_cache_Sweep inv_cache_Reset

lemma inv_execOp: "cache_inv c \<Longrightarrow> cache_inv (execOp op c)"
  by (cases op) (simp_all add: cache_inv_ops)

lemma inv_execOps: "cache_inv c \<Longrightarrow> cache_inv (execOps ops c)"
  unfolding execOps_def by (induction ops arbitrary: c) (simp_all add: inv_execOp)

lemma cache_inv_Len: 
  assumes "cache_inv c" shows "int (cache_Len c) \<le> max 0 (c_cap c)"
proof -
  have "set (gokeys (c_entries c)) \<subseteq> set (c_order c)"
    using assms map_of_None_keys [of "c_entries c"] by (auto simp: cache_inv_def simp del: set_map)
  then have "length (gokeys (c_entries c)) \<le> length (c_order c)"
    using assms by (intro distinct_subset_length) (auto simp: cache_inv_def)
  then show ?thesis using assms by (simp add: cache_inv_def cache_Len_def)
qed

section \<open>Reading back what was stored\<close>

text \<open>Eviction only removes entries, and spares a key that stands at the end of the order and
  nowhere else.\<close>

lemma evictOldest_None: "map_of (c_entries c) k = None \<Longrightarrow> map_of (c_entries (evictOldest c)) k = None"
proof (induction c rule: evictOldest.induct)
  case (1 c)
  have "map_of (c_entries (popOldest c)) k = None" if "c_order c \<noteq> []"
    using that "1.prems" by (cases "c_order c") auto
  with 1 show ?case by (subst evictOldest.simps) auto
qed

lemma evictOldest_keeps_newest:
  "c_order c = xs @ [k] \<Longrightarrow> k \<notin> set xs \<Longrightarrow> 0 < c_cap c \<Longrightarrow>
   map_of (c_entries (evictOldest c)) k = map_of (c_entries c) k"
proof (induction c arbitrary: xs rule: evictOldest.induct)
  case (1 c)
  show ?case
  proof (cases "int (length (c_order c)) > c_cap c \<and> c_order c \<noteq> []")
    case True
    with "1.prems" obtain y ys where xs: "xs = y # ys" by (cases xs) auto
    with "1.prems" have "map_of (c_entries (evictOldest (popOldest c))) k = map_of (c_entries (popOldest c)) k"
      by (intro "1.IH" [OF True]) auto
    with True xs "1.prems" show ?thesis by (simp add: evictOldest.simps [of c])
  next
    case False
    then show ?thesis by (auto simp: evictOldest.simps [of c])
  qed
qed

lemma evictOldest_stop: "int (length (c_order c)) \<le> c_cap c \<Longrightarrow> evictOldest c = c"
  by (simp add: evictOldest.simps)

lemma cache_Get_fresh:
  "map_of (c_entries c) k = Some e \<Longrightarrow> c_ttl c \<le> 0 \<or> time_Sub now (ce_insertedAt e) < c_ttl c \<Longrightarrow>
   fst (cache_Get now k c) = Some (ce_value e)"
  by (auto simp: cache_Get_def expiredLocked_def)

lemma cache_Get_None: "map_of (c_entries c) k = None \<Longrightarrow> fst (cache_Get now k c) = None"
  by (simp add: cache_Get_def)

text \<open>
  A value put into a cache with positive capacity is the one the next \<open>Get\<close> returns
  while its time to live lasts, provided the key is either live in the map or absent from
  the eviction order.
\<close>

theorem cache_put_get:
  assumes "0 < c_cap c"
    and "map_of (c_entries c) k \<noteq> None \<or> k \<notin> set (c_order c)"
    and "c_ttl c \<le> 0 \<or> time_Sub now' now < c_ttl c"
  shows "fst (cache_Get now' k (cache_Put now k v c)) = Some v"
proof -
  let ?e = "\<lparr>ce_value = v, ce_insertedAt = now\<rparr>"
  let ?c' = "cache_Put now k v c"
  have "map_of (c_entries ?c') k = Some ?e"
    using assms(1,2) evictOldest_keeps_newest [of "c\<lparr>c_entries := AList.update k ?e (c_entries c),
        c_order := c_order c @ [k]\<rparr>" "c_order c" k]
    by (auto simp: cache_Put_def Let_def split: option.split)
  moreover have "c_ttl ?c' = c_ttl c"
    by (simp add: cache_Put_def Let_def split: option.split)
  ultimately show ?thesis
    using cache_Get_fresh [of ?c' k ?e now'] assms(3) by simp
qed

theorem cache_put_get_witness:
  "fst (cache_Get 7 ''b'' (cache_Put 6 ''b'' (2::nat) (cache_Put 5 ''a'' 1 (NewCache 2 10 True)))) = Some 2"
proof -
  let ?c = "cache_Put 5 ''a'' (1::nat) (NewCache 2 10 True)"
  have "0 < c_cap ?c" "''b'' \<notin> set (c_order ?c)" "time_Sub 7 6 < c_ttl ?c"
    by (simp_all add: cache_Put_def NewCache_def evictOldest.simps time_Sub_def maxInt64_def minInt64_def)
  then show ?thesis using cache_put_get [of ?c "''b''" 7 6 2] by blast
qed

text \<open>
  The proviso of the previous property is needed: an expiry found by \<open>Get\<close> or \<open>TakeIf\<close>
  drops the entry from the map and leaves its key in the eviction order. When such a
  stale key is the oldest of a full order, a \<open>Put\<close> of that key evicts the value it has
  just inserted: the next \<open>Get\<close> finds nothing, at any time.
\<close>

theorem cache_put_lost_on_stale_key:
  assumes "0 < c_cap c" "int (length (c_order c)) = c_cap c"
    and "c_order c = k # ks" "map_of (c_entries c) k = None"
  shows "fst (cache_Get now' k (cache_Put now k v c)) = None"
proof -
  let ?c1 = "c\<lparr>c_entries := AList.update k \<lparr>ce_value = v, ce_insertedAt = now\<rparr> (c_entries c),
               c_order := c_order c @ [k]\<rparr>"
  have "map_of (c_entries (popOldest ?c1)) k = None"
    using assms(3) by (subst popOldest_sel(3) [of _ k "ks @ [k]"]) auto
  then have "map_of (c_entries (evictOldest ?c1)) k = None"
    using assms(2,3) evictOldest_None [of "popOldest ?c1" k] by (subst evictOldest.simps) simp
  with assms(1,4) have "map_of (c_entries (cache_Put now k v c)) k = None"
    by (simp add: cache_Put_def Let_def)
  then show ?thesis by (rule cache_Get_None)
qed

text \<open>The stale state is reached by three ordinary calls: two puts and a get after the time
  to live of the first.\<close>

theorem cache_put_lost_on_stale_key_witness:
  "\<exists>c :: (string, nat) cache.
     c = execOps [OpPut 1 ''a'' 7, OpPut 5 ''b'' 2, OpGet 11 ''a''] (NewCache 2 10 True) \<and>
     cache_Len c = 1 \<and> c_cap c = 2 \<and> fst (cache_Get 11 ''a'' (cache_Put 11 ''a'' 3 c)) = None"
proof -
  let ?c = "execOps [OpPut 1 ''a'' (7::nat), OpPut 5 ''b'' 2, OpGet 11 ''a''] (NewCache 2 10 True)"
  have c: "?c = \<lparr>c_cap = 2, c_ttl = 10, c_entries = [(''b'', \<lparr>ce_value = 2, ce_insertedAt = 5\<rparr>)],
      c_order = [''a'', ''b''], c_onEvict = True, c_evicted = 0, c_expired = 1, c_log = [(''a'', 7)]\<rparr>"
    by (simp add: execOps_def NewCache_def cache_Put_def cache_Get_def evictOldest.simps
        expiredLocked_def removeLocked_def time_Sub_def maxInt64_def minInt64_def IsZero_def Let_def)
  have "fst (cache_Get 11 ''a'' (cache_Put 11 ''a'' 3 ?c)) = None"
    unfolding c by (rule cache_put_lost_on_stale_key [of _ _ "[''b'']"]) simp_all
  then show ?thesis by (simp add: c cache_Len_def)
qed

section \<open>One-time consumption\<close>

text \<open>Only a \<open>Put\<close> of the key brings back a key that is not in the map.\<close>

lemma sweepKeys_None:
  "map_of (c_entries c) k = None \<Longrightarrow> map_of (c_entries (snd (sweepKeys clock i ks n c))) k = None"
proof (induction ks arbitrary: i n c)
  case (Cons x xs)
  then show ?case
    by (auto simp: expiredLocked_sel split: option.split prod.split)
qed simp

lemma execOp_absent:
  assumes "map_of (c_entries c) k = None" "\<not> isPutOf k op"
  shows "map_of (c_entries (execOp op c)) k = None"
proof (cases op)
  case (OpPut now k' v)
  with assms show ?thesis
    by (auto simp: cache_Put_def Let_def intro!: evictOldest_None split: option.split)
next
  case (OpSweep clock)
  with assms sweepKeys_None [OF assms(1), of clock 0 "c_order c" 0] show ?thesis
    by (auto simp: cache_Sweep_def split: prod.split)
qed (use assms in \<open>auto simp: cache_Get_def cache_Delete_def cache_TakeIf_def cache_Reset_def
      expiredLocked_sel split: option.split prod.split\<close>)

lemma execOps_absent:
  "map_of (c_entries c) k = None \<Longrightarrow> \<forall>op \<in> set ops. \<not> isPutOf k op \<Longrightarrow>
   map_of (c_entries (execOps ops c)) k = None"
  unfolding execOps_def by (induction ops arbitrary: c) (simp_all add: execOp_absent)

text \<open>
  \<^bold>\<open>C12.\<close> \<open>TakeIf\<close> is the exactly-once consumption primitive: once a call has returned a value
  that satisfies its condition, no later \<open>TakeIf\<close> or \<open>Get\<close> of that key returns anything,
  whatever calls other clients make in between, unless one of them puts the key again.
\<close>

theorem takeIf_exactly_once:
  assumes "cache_TakeIf now k cond c = (Some v, c')"
    and "case cond of None \<Rightarrow> True | Some f \<Rightarrow> f v"
    and "\<forall>op \<in> set ops. \<not> isPutOf k op"
  shows "fst (cache_TakeIf now' k cond' (execOps ops c')) = None \<and>
         fst (cache_Get now' k (execOps ops c')) = None"
proof -
  have "map_of (c_entries c') k = None"
    using assms(1,2) by (auto simp: cache_TakeIf_def split: option.splits prod.splits if_splits)
  from execOps_absent [OF this assms(3)] have "map_of (c_entries (execOps ops c')) k = None" .
  then show ?thesis by (simp add: cache_TakeIf_def cache_Get_def)
qed

text \<open>A grant that is consumed once stays consumed, also after another client's put and a sweep.\<close>

theorem takeIf_exactly_once_witness:
  "\<exists>c' :: (string, nat) cache.
     cache_TakeIf 3 ''g'' (Some (\<lambda>v. v > 0)) (cache_Put 2 ''g'' 7 (NewCache 4 0 False)) = (Some 7, c') \<and>
     fst (cache_TakeIf 9 ''g'' None (execOps [OpPut 4 ''h'' 1, OpSweep (\<lambda>_. 5)] c')) = None \<and>
     fst (cache_Get 9 ''g'' (execOps [OpPut 4 ''h'' 1, OpSweep (\<lambda>_. 5)] c')) = None"
proof -
  let ?c = "cache_Put 2 ''g'' (7::nat) (NewCache 4 0 False)"
  let ?f = "Some (\<lambda>v::nat. v > 0)"
  obtain c' where c': "cache_TakeIf 3 ''g'' ?f ?c = (Some 7, c')"
    by (simp add: cache_TakeIf_def cache_Put_def NewCache_def evictOldest.simps expiredLocked_def)
  have f: "case ?f of None \<Rightarrow> True | Some f \<Rightarrow> f 7" by simp
  have o: "\<forall>op \<in> set [OpPut 4 ''h'' (1::nat), OpSweep (\<lambda>_. 5)]. \<not> isPutOf ''g'' op" by simp
  show ?thesis
    using c' takeIf_exactly_once [OF c' f o] by blast
qed

section \<open>Sweeping\<close>

definition entryExpired :: "int \<Rightarrow> time \<Rightarrow> 'v cacheEntry \<Rightarrow> bool" where
  "entryExpired ttl now e \<longleftrightarrow>
     \<not> (ttl \<le> 0 \<or> IsZero (ce_insertedAt e)) \<and> \<not> time_Sub now (ce_insertedAt e) < ttl"

lemma expiredLocked_eq:
  "expiredLocked now k e c =
     (if entryExpired (c_ttl c) now e
      then (True, (removeLocked k e c)\<lparr>c_expired := c_expired c + 1\<rparr>) else (False, c))"
  by (auto simp: expiredLocked_def entryExpired_def Let_def)

lemma sweepKeys_entries:
  "map_of (c_entries (snd (sweepKeys (\<lambda>_. now) i ks n c))) k =
     (case map_of (c_entries c) k of
        None \<Rightarrow> None
      | Some e \<Rightarrow> if k \<in> set ks \<and> entryExpired (c_ttl c) now e then None else Some e)"
proof (induction ks arbitrary: i n c)
  case (Cons x xs)
  then show ?case by (auto simp: expiredLocked_eq split: option.split)
qed (simp split: option.split)

lemma sweepKeys_frame [simp]:
  "c_cap (snd (sweepKeys clock i ks n c)) = c_cap c"
  "c_ttl (snd (sweepKeys clock i ks n c)) = c_ttl c"
  "c_order (snd (sweepKeys clock i ks n c)) = c_order c"
  by (induction ks arbitrary: i n c)
     (auto simp: expiredLocked_eq split: option.split)

text \<open>A pass that meets no expired entry changes nothing.\<close>

lemma sweepKeys_idle:
  "(\<And>k e. map_of (c_entries c) k = Some e \<Longrightarrow> \<not> entryExpired (c_ttl c) now e) \<Longrightarrow>
   sweepKeys (\<lambda>_. now) i ks n c = (n, c)"
proof (induction ks arbitrary: i)
  case (Cons x xs)
  then show ?case by (auto simp: expiredLocked_eq split: option.split)
qed simp

lemma cache_Sweep_sel:
  "c_entries (snd (cache_Sweep clock c)) = c_entries (snd (sweepKeys clock 0 (c_order c) 0 c))"
  "c_ttl (snd (cache_Sweep clock c)) = c_ttl c"
  "c_cap (snd (cache_Sweep clock c)) = c_cap c"
  using sweepKeys_frame [of clock 0 "c_order c" 0 c]
  by (cases "sweepKeys clock 0 (c_order c) 0 c", simp add: cache_Sweep_def)+

lemma cache_Sweep_entries:
  assumes "cache_inv c"
  shows "map_of (c_entries (snd (cache_Sweep (\<lambda>_. now) c))) k =
     (case map_of (c_entries c) k of
        None \<Rightarrow> None
      | Some e \<Rightarrow> if entryExpired (c_ttl c) now e then None else Some e)"
  using assms by (auto simp: cache_Sweep_sel sweepKeys_entries cache_inv_def split: option.split)

text \<open>
  \<open>Sweep\<close> at one instant removes exactly the entries whose time to live has elapsed and
  keeps every other one unchanged, in every state the cache can reach; a second sweep at
  the same instant removes nothing and leaves the cache as it is.
\<close>

theorem cache_sweep_exact_idempotent:
  fixes ops :: "('k, 'v) cacheOp list"
    and cap ttl :: int and hook :: bool and now :: time
  defines "c \<equiv> execOps ops (NewCache cap ttl hook)"
  defines "c' \<equiv> snd (cache_Sweep (\<lambda>_. now) c)"
  shows "(\<forall>k. map_of (c_entries c') k =
           (case map_of (c_entries c) k of
              None \<Rightarrow> None
            | Some e \<Rightarrow> if entryExpired (c_ttl c) now e then None else Some e)) \<and>
         cache_Sweep (\<lambda>_. now) c' = (0, c')"
proof -
  have inv: "cache_inv c" unfolding c_def by (intro inv_execOps inv_NewCache)
  have e: "map_of (c_entries c') k =
           (case map_of (c_entries c) k of
              None \<Rightarrow> None
            | Some e \<Rightarrow> if entryExpired (c_ttl c) now e then None else Some e)" for k
    unfolding c'_def by (rule cache_Sweep_entries [OF inv])
  have "\<not> entryExpired (c_ttl c') now e" if "map_of (c_entries c') k = Some e" for k e
    using that e [of k] by (auto simp: c'_def cache_Sweep_sel split: option.splits if_splits)
  from sweepKeys_idle [of c' now, OF this] have "cache_Sweep (\<lambda>_. now) c' = (0, c')"
    by (simp add: cache_Sweep_def)
  with e show ?thesis by blast
qed

text \<open>
  Whatever calls are made, a cache holds at most its capacity (nothing when the
  capacity is not positive), and its eviction order is no longer than that either.
\<close>

theorem cache_never_exceeds_cap:
  fixes ops :: "('k, 'v) cacheOp list"
    and cap ttl :: int and hook :: bool
  defines "c \<equiv> execOps ops (NewCache cap ttl hook)"
  shows "int (cache_Len c) \<le> max 0 cap \<and> int (length (c_order c)) \<le> max 0 cap"
proof -
  have inv: "cache_inv c" unfolding c_def by (intro inv_execOps inv_NewCache)
  have "c_cap (execOp op d) = c_cap d" for op and d :: "('k, 'v) cache"
    by (cases op) (auto simp: cache_Get_def cache_Put_def cache_Delete_def cache_TakeIf_def
        cache_Sweep_sel cache_Reset_def expiredLocked_eq Let_def split: option.split prod.split)
  then have "c_cap (execOps ops d) = c_cap d" for d
    unfolding execOps_def by (induction ops arbitrary: d) simp_all
  then have "c_cap c = cap" unfolding c_def by (simp add: NewCache_def)
  with cache_inv_Len [OF inv] inv show ?thesis by (simp add: cache_inv_def)
qed

section \<open>The ring buffer\<close>

record 'a ring =
  r_elements :: "'a list"
  r_cap :: nat
  r_next :: nat
  r_size :: nat

text \<open>\<open>NewRing\<close> panics on a capacity that is not positive; the slice starts with zero values.\<close>

definition NewRing :: "'a \<Rightarrow> int \<Rightarrow> 'a ring option" where
  "NewRing zero cap =
     (if cap \<le> 0 then None
      else Some \<lparr>r_elements = replicate (nat cap) zero, r_cap = nat cap, r_next = 0, r_size = 0\<rparr>)"

definition ring_Append :: "'a \<Rightarrow> 'a ring \<Rightarrow> 'a ring" where
  "ring_Append v r =
     (let overwrite = (r_size r = r_cap r);
          r1 = r\<lparr>r_elements := (r_elements r)[(r_next r + r_size r) mod r_cap r := v]\<rparr>
      in if overwrite then r1\<lparr>r_next := (r_next r + 1) mod r_cap r\<rparr>
         else r1\<lparr>r_size := r_size r + 1\<rparr>)"

definition ring_Snapshot :: "'a ring \<Rightarrow> 'a list" where
  "ring_Snapshot r = map (\<lambda>i. r_elements r ! ((r_next r + i) mod r_cap r)) [0..<r_size r]"

definition ring_Len :: "'a ring \<Rightarrow> nat" where
  "ring_Len r = r_size r"

definition ring_inv :: "'a ring \<Rightarrow> bool" where
  "ring_inv r \<longleftrightarrow> 0 < r_cap r \<and> length (r_elements r) = r_cap r \<and>
     r_next r < r_cap r \<and> r_size r \<le> r_cap r"

text \<open>The contract of a log that keeps the newest \<open>n\<close> entries, and what it gives for a whole
  sequence of appends.\<close>

locale newest_log =
  fixes append :: "'a \<Rightarrow> 'r \<Rightarrow> 'r"
    and contents :: "'r \<Rightarrow> 'a list"
    and room :: "'r \<Rightarrow> nat"
    and ok :: "'r \<Rightarrow> bool"
  assumes ok_append: "ok r \<Longrightarrow> ok (append v r)"
    and room_append: "ok r \<Longrightarrow> room (append v r) = room r"
    and contents_append: "ok r \<Longrightarrow>
      contents (append v r) = drop (Suc (length (contents r)) - room r) (contents r @ [v])"
    and contents_room: "ok r \<Longrightarrow> length (contents r) \<le> room r"
    and room_pos: "ok r \<Longrightarrow> 0 < room r"
begin

lemma contents_fold:
  "ok r \<Longrightarrow> contents (fold append vs r) =
     drop (length (contents r @ vs) - room r) (contents r @ vs)"
proof (induction vs arbitrary: r)
  case Nil
  then show ?case using contents_room [of r] by simp
next
  case (Cons v vs)
  let ?d = "Suc (length (contents r)) - room r"
  have "?d \<le> length (contents r)" using room_pos [OF Cons.prems] by arith
  then have "contents (append v r) @ vs = drop ?d (contents r @ v # vs)"
    using Cons.prems by (simp add: contents_append)
  then show ?case
    using Cons.IH [OF ok_append [OF Cons.prems], of v] Cons.prems contents_room [OF Cons.prems]
    by (simp add: room_append del: drop_append) (rule arg_cong [where f = "\<lambda>n. drop n _"], simp)
qed

end

lemma ring_inv_Append: "ring_inv r \<Longrightarrow> ring_inv (ring_Append v r)"
  by (auto simp: ring_inv_def ring_Append_def Let_def)

lemma ring_slot_inj:
  assumes "i < n" "j < n" "(m + i) mod n = (m + j) mod (n::nat)"
  shows "i = j"
  using assms
proof (induction i j rule: linorder_wlog)
  case (le a b)
  then have "n dvd b - a" by (metis add_diff_cancel_left mod_eq_dvd_iff_nat nat_add_left_cancel_le)
  with le show ?case by (auto dest: dvd_imp_le)
qed metis

lemma ring_Snapshot_Append:
  assumes "ring_inv r"
  shows "ring_Snapshot (ring_Append v r) =
           drop (Suc (r_size r) - r_cap r) (ring_Snapshot r @ [v])"
proof (cases "r_size r = r_cap r")
  case False
  let ?s = "(r_next r + r_size r) mod r_cap r"
  have slot: "?s < length (r_elements r)" using assms by (simp add: ring_inv_def)
  have "(r_next r + i) mod r_cap r \<noteq> ?s" if "i < r_size r" for i
    using ring_slot_inj [of i "r_cap r" "r_size r" "r_next r"] that assms False
    by (auto simp: ring_inv_def)
  then have "map (\<lambda>i. (r_elements r)[?s := v] ! ((r_next r + i) mod r_cap r)) [0..<r_size r] =
      ring_Snapshot r"
    unfolding ring_Snapshot_def by (intro map_cong nth_list_update_neq) (auto dest: sym)
  with False slot assms show ?thesis
    by (simp add: ring_Append_def Let_def ring_Snapshot_def ring_inv_def)
next
  case True
  let ?n = "r_cap r"
  have pos: "0 < ?n" and len: "length (r_elements r) = ?n" and nx: "r_next r < ?n"
    using assms by (auto simp: ring_inv_def)
  have "(r_elements r)[r_next r := v] ! (((r_next r + 1) mod ?n + i) mod ?n) =
      (tl (ring_Snapshot r) @ [v]) ! i" if "i < ?n" for i
  proof (cases "Suc i = ?n")
    case True
    then have "((r_next r + 1) mod ?n + i) mod ?n = r_next r"
      using nx by (metis Suc_eq_plus1 add.assoc add.commute mod_add_left_eq mod_add_self2 mod_less)
    with True nx len pos \<open>r_size r = ?n\<close> show ?thesis
      by (auto simp: nth_append ring_Snapshot_def)
  next
    case False
    with that have i: "Suc i < ?n" by simp
    have e: "((r_next r + 1) mod ?n + i) mod ?n = (r_next r + Suc i) mod ?n"
      by (simp add: mod_add_left_eq)
    have "(r_next r + Suc i) mod ?n \<noteq> r_next r"
      using ring_slot_inj [of "Suc i" ?n 0 "r_next r"] i pos nx by auto
    with e i True show ?thesis by (auto simp: nth_append ring_Snapshot_def nth_tl)
  qed
  then have "ring_Snapshot (ring_Append v r) = tl (ring_Snapshot r) @ [v]"
    using True nx pos
    by (intro nth_equalityI) (auto simp: ring_Append_def Let_def ring_Snapshot_def)
  moreover have "ring_Snapshot r \<noteq> []" using True pos by (simp add: ring_Snapshot_def)
  ultimately show ?thesis using True by (cases "ring_Snapshot r") auto
qed

lemma ring_Snapshot_length [simp]: "length (ring_Snapshot r) = r_size r"
  by (simp add: ring_Snapshot_def)

interpretation ringlog: newest_log ring_Append ring_Snapshot r_cap ring_inv
proof unfold_locales
  fix r :: "'a ring" and v
  assume r: "ring_inv r"
  show "ring_inv (ring_Append v r)" using r by (rule ring_inv_Append)
  show "r_cap (ring_Append v r) = r_cap r" by (simp add: ring_Append_def Let_def)
  show "ring_Snapshot (ring_Append v r) =
      drop (Suc (length (ring_Snapshot r)) - r_cap r) (ring_Snapshot r @ [v])"
    using r by (simp add: ring_Snapshot_Append)
  show "length (ring_Snapshot r) \<le> r_cap r" "0 < r_cap r" using r by (simp_all add: ring_inv_def)
qed

text \<open>
  A ring of capacity \<open>cap\<close> to which \<open>vs\<close> has been appended holds exactly the last \<open>cap\<close>
  elements of \<open>vs\<close>, oldest first, and its length is their number.
\<close>

theorem ring_holds_newest:
  assumes "NewRing zero cap = Some r"
  shows "ring_Snapshot (fold ring_Append vs r) = drop (length vs - nat cap) vs \<and>
         ring_Len (fold ring_Append vs r) = min (length vs) (nat cap)"
proof -
  have r: "ring_inv r" "r_cap r = nat cap" "ring_Snapshot r = []"
    using assms by (auto simp: NewRing_def ring_inv_def ring_Snapshot_def split: if_splits)
  from ringlog.contents_fold [OF r(1), of vs] r(2,3)
  have s: "ring_Snapshot (fold ring_Append vs r) = drop (length vs - nat cap) vs" by simp
  then have "r_size (fold ring_Append vs r) = min (length vs) (nat cap)"
    using ring_Snapshot_length [of "fold ring_Append vs r"] by (simp del: ring_Snapshot_length)
  with s show ?thesis by (simp add: ring_Len_def)
qed

theorem ring_holds_newest_witness:
  "\<exists>r. NewRing (0::nat) 2 = Some r \<and>
       ring_Snapshot (fold ring_Append [5, 6, 7] r) = [6, 7] \<and>
       ring_Len (fold ring_Append [5, 6, 7] r) = 2"
proof -
  obtain r where r: "NewRing (0::nat) 2 = Some r" by (simp add: NewRing_def)
  from ring_holds_newest [OF r, of "[5, 6, 7]"] r show ?thesis by (auto simp: numeral_2_eq_2)
qed

section \<open>The cache without time to live as a store\<close>

text \<open>What the permission manager relies on: values are found under their key until they are
  deleted, taken, or displaced by other keys, and \<open>take\<close> removes the value exactly when its test
  holds.\<close>

locale take_store =
  fixes ok :: "'c \<Rightarrow> bool"
    and lookup :: "'c \<Rightarrow> 'k \<Rightarrow> 'v option"
    and put :: "time \<Rightarrow> 'k \<Rightarrow> 'v \<Rightarrow> 'c \<Rightarrow> 'c"
    and del :: "'k \<Rightarrow> 'c \<Rightarrow> 'c"
    and take :: "time \<Rightarrow> 'k \<Rightarrow> ('v \<Rightarrow> bool) \<Rightarrow> 'c \<Rightarrow> 'v option \<times> 'c"
  assumes ok_put: "ok c \<Longrightarrow> ok (put now k v c)"
    and ok_del: "ok c \<Longrightarrow> ok (del k c)"
    and ok_take: "ok c \<Longrightarrow> ok (snd (take now k f c))"
    and lookup_put_same: "ok c \<Longrightarrow> lookup (put now k v c) k = Some v"
    and lookup_put_other: "ok c \<Longrightarrow> k' \<noteq> k \<Longrightarrow> lookup (put now k v c) k' = Some v' \<Longrightarrow> lookup c k' = Some v'"
    and lookup_del: "ok c \<Longrightarrow> lookup (del k c) k' = (if k' = k then None else lookup c k')"
    and take_value: "ok c \<Longrightarrow> fst (take now k f c) = lookup c k"
    and lookup_take: "ok c \<Longrightarrow> lookup (snd (take now k f c)) k' =
          (if k' = k then (case lookup c k of None \<Rightarrow> None | Some v \<Rightarrow> if f v then None else Some v)
           else lookup c k')"
begin

lemma ok_fold_del: "ok c \<Longrightarrow> ok (fold del ks c)"
  by (induction ks arbitrary: c) (simp_all add: ok_del)

lemma lookup_fold_del:
  "ok c \<Longrightarrow> lookup (fold del ks c) k = (if k \<in> set ks then None else lookup c k)"
  by (induction ks arbitrary: c) (auto simp: ok_del lookup_del)

lemma taken_once:
  "ok c \<Longrightarrow> take now k f c = (Some v, c') \<Longrightarrow> f v \<Longrightarrow> fst (take now' k f' c') = None"
  using ok_take [of c now k f] take_value [of c now k f] lookup_take [of c now k f k] take_value [of c' now' k f']
  by (auto split: option.splits)

end

text \<open>The states of such a cache: with positive capacity and no time to live, the order lists
  exactly the keys of the map.\<close>

definition liveCache :: "int \<Rightarrow> ('k, 'v) cache \<Rightarrow> bool" where
  "liveCache n c \<longleftrightarrow> c_ttl c \<le> 0 \<and> 0 < n \<and> c_cap c = n \<and> int (length (c_order c)) \<le> n \<and> distinct (gokeys (c_entries c)) \<and>
     distinct (c_order c) \<and> set (c_order c) = set (gokeys (c_entries c))"

definition cacheValue :: "('k, 'v) cache \<Rightarrow> 'k \<Rightarrow> 'v option" where
  "cacheValue c k = map_option ce_value (map_of (c_entries c) k)"

lemma evictOldest_live:
  "distinct (gokeys (c_entries c)) \<Longrightarrow> distinct (c_order c) \<Longrightarrow>
   set (c_order c) = set (gokeys (c_entries c)) \<Longrightarrow>
   distinct (gokeys (c_entries (evictOldest c))) \<and> distinct (c_order (evictOldest c)) \<and>
   set (c_order (evictOldest c)) = set (gokeys (c_entries (evictOldest c)))"
proof (induction c rule: evictOldest.induct)
  case (1 c)
  show ?case
  proof (cases "int (length (c_order c)) > c_cap c \<and> c_order c \<noteq> []")
    case True
    then obtain k ks where o: "c_order c = k # ks" by (cases "c_order c") auto
    have "set (c_order (popOldest c)) = set (gokeys (c_entries (popOldest c)))"
      using o "1.prems" by (auto simp: set_gokeys_delete simp del: set_map)
    moreover have "evictOldest c = evictOldest (popOldest c)" using True by (simp add: evictOldest.simps [of c])
    ultimately show ?thesis using 1 True o by simp
  next
    case False
    then have "evictOldest c = c" by (simp only: evictOldest.simps [of c] if_False)
    with 1 show ?thesis by simp
  qed
qed

lemma evictOldest_Some:
  "map_of (c_entries (evictOldest c)) k = Some e \<Longrightarrow> map_of (c_entries c) k = Some e"
proof (induction c rule: evictOldest.induct)
  case (1 c)
  show ?case
  proof (cases "int (length (c_order c)) > c_cap c \<and> c_order c \<noteq> []")
    case True
    then obtain x xs where o: "c_order c = x # xs" by (cases "c_order c") auto
    from "1.prems" True have "map_of (c_entries (popOldest c)) k = Some e"
      using "1.IH" by (simp add: evictOldest.simps [of c])
    then show ?thesis using o by (simp split: if_splits)
  next
    case False
    with "1.prems" show ?thesis by (simp add: evictOldest.simps [of c])
  qed
qed

lemma live_put: "liveCache n c \<Longrightarrow> liveCache n (cache_Put now k v c)"
proof -
  assume live: "liveCache n c"
  let ?e = "\<lparr>ce_value = v, ce_insertedAt = now\<rparr>"
  show ?thesis
  proof (cases "map_of (c_entries c) k")
    case None
    then have "k \<notin> set (gokeys (c_entries c))" by (simp add: map_of_None_keys)
    with live None show ?thesis
      using evictOldest_live [of "c\<lparr>c_entries := AList.update k ?e (c_entries c), c_order := c_order c @ [k]\<rparr>"]
        evictOldest_bound [of "c\<lparr>c_entries := AList.update k ?e (c_entries c), c_order := c_order c @ [k]\<rparr>"]
      by (simp add: liveCache_def cache_Put_def set_gokeys_update del: set_map)
  next
    case (Some e)
    then have "k \<in> set (gokeys (c_entries c))" by (rule map_of_Some_key)
    then have "k \<in> set (c_order c)" using live by (simp add: liveCache_def)
    then have "Suc (length (remove1 k (c_order c))) = length (c_order c)"
      by (simp add: length_remove1 Suc_pred [OF length_pos_if_in_set])
    with \<open>k \<in> set (c_order c)\<close> live Some show ?thesis
      by (auto simp: liveCache_def cache_Put_def set_gokeys_update simp del: set_map)
  qed
qed

lemma live_drop: "liveCache n c \<Longrightarrow> liveCache n (removeFromOrderLocked k (removeLocked k e c))"
  by (auto simp: liveCache_def set_gokeys_delete length_remove1 simp del: set_map)

lemma liveCache_Len:
  "liveCache n c \<Longrightarrow> cache_Len c = length (c_order c)"
  by (metis cache_Len_def distinct_card length_map liveCache_def)

lemma live_expired: "liveCache n c \<Longrightarrow> expiredLocked now k e c = (False, c)"
  by (simp add: liveCache_def expiredLocked_def)

lemma cacheValue_put_same: "liveCache n c \<Longrightarrow> cacheValue (cache_Put now k v c) k = Some v"
proof -
  assume live: "liveCache n c"
  show ?thesis
  proof (cases "map_of (c_entries c) k")
    case None
    then have "k \<notin> set (c_order c)" using live by (simp add: liveCache_def map_of_None_keys del: set_map)
    then show ?thesis using live None
      by (simp add: cacheValue_def cache_Put_def liveCache_def evictOldest_keeps_newest)
  next
    case (Some e)
    with live show ?thesis by (simp add: cacheValue_def cache_Put_def liveCache_def)
  qed
qed

interpretation grantstore: take_store "liveCache n" cacheValue cache_Put cache_Delete
  "\<lambda>now k f. cache_TakeIf now k (Some f)" for n
proof
  fix c :: "('k, 'v) cache" and now k k' v v' f
  assume live: "liveCache n c"
  show "liveCache n (cache_Put now k v c)" using live by (rule live_put)
  show "liveCache n (cache_Delete k c)" using live by (auto simp: cache_Delete_def live_drop split: option.split)
  show "liveCache n (snd (cache_TakeIf now k (Some f) c))"
    using live by (auto simp: cache_TakeIf_def live_expired live_drop split: option.split)
  show "cacheValue (cache_Put now k v c) k = Some v" using live by (rule cacheValue_put_same)
  show "cacheValue (cache_Delete k c) k' = (if k' = k then None else cacheValue c k')"
    by (auto simp: cache_Delete_def cacheValue_def split: option.split)
  show "fst (cache_TakeIf now k (Some f) c) = cacheValue c k"
    using live by (auto simp: cache_TakeIf_def live_expired cacheValue_def split: option.split)
  show "cacheValue (snd (cache_TakeIf now k (Some f) c)) k' =
      (if k' = k then (case cacheValue c k of None \<Rightarrow> None | Some v \<Rightarrow> if f v then None else Some v)
       else cacheValue c k')"
    using live by (auto simp: cache_TakeIf_def live_expired cacheValue_def split: option.split)
  show "cacheValue c k' = Some v'" if "k' \<noteq> k" "cacheValue (cache_Put now k v c) k' = Some v'"
    using that by (auto simp: cache_Put_def cacheValue_def Let_def split: option.splits if_splits
        dest!: evictOldest_Some)
qed

end
