(* ===== verification/Paths.thy ===== *)
theory Paths
  imports Prelude
begin

text \<open>
  The functions of Go's \<open>path/filepath\<close> and \<open>strings\<close> that the permission checks use on paths, for a Unix
  system (where \<open>ToSlash\<close> is the identity): lexical cleaning, joining, base and directory names,
  relative paths, and the replacement of markers.
\<close>

section \<open>Cleaning\<close>

fun joinWith :: "string \<Rightarrow> string list \<Rightarrow> string" where
  "joinWith sep [] = []"
| "joinWith sep [x] = x"
| "joinWith sep (x # y # ys) = x @ sep @ joinWith sep (y # ys)"

text \<open>The components seen so far are \<open>acc\<close>, last first. A parent reference takes the last component back; at
  the root it is dropped, at the start of a relative path it stays.\<close>

fun cleanComps :: "bool \<Rightarrow> string list \<Rightarrow> string list \<Rightarrow> string list" where
  "cleanComps rooted [] acc = rev acc"
| "cleanComps rooted (c # cs) acc =
     (if c = [] \<or> c = ''.'' then cleanComps rooted cs acc
      else if c = ''..'' then
        (case acc of
           a # as \<Rightarrow> cleanComps rooted cs (if a = ''..'' then c # acc else as)
         | [] \<Rightarrow> cleanComps rooted cs (if rooted then [] else [c]))
      else cleanComps rooted cs (c # acc))"

definition IsAbs :: "string \<Rightarrow> bool" where
  "IsAbs path \<longleftrightarrow> prefix ''/'' path"

definition pathComps :: "string \<Rightarrow> string list" where
  "pathComps path = cleanComps (IsAbs path) (splitOn CHR ''/'' path) []"

definition Clean :: "string \<Rightarrow> string" where
  "Clean path =
     (if IsAbs path then CHR ''/'' # joinWith ''/'' (pathComps path)
      else if pathComps path = [] then ''.'' else joinWith ''/'' (pathComps path))"

fun Join :: "string list \<Rightarrow> string" where
  "Join [] = []"
| "Join (e # es) = (if e = [] then Join es else Clean (joinWith ''/'' (e # es)))"

text \<open>\<open>Base\<close> and \<open>Dir\<close>: what follows the last slash, trailing slashes aside, and what precedes it.\<close>

definition Base :: "string \<Rightarrow> string" where
  "Base path =
     (if path = [] then ''.''
      else let path = rev (dropWhile (\<lambda>c. c = CHR ''/'') (rev path));
               base = rev (takeWhile (\<lambda>c. c \<noteq> CHR ''/'') (rev path))
           in if base = [] then ''/'' else base)"

definition Dir :: "string \<Rightarrow> string" where
  "Dir path = Clean (rev (dropWhile (\<lambda>c. c \<noteq> CHR ''/'') (rev path)))"

definition Abs :: "string option \<Rightarrow> string \<Rightarrow> goerr + string" where
  "Abs cwd path =
     (if IsAbs path then Inr (Clean path)
      else case cwd of None \<Rightarrow> Inl (Err ''getwd'') | Some wd \<Rightarrow> Inr (Join [wd, path]))"

text \<open>\<open>Rel\<close> compares the cleaned paths component by component.\<close>

fun relComps :: "string list \<Rightarrow> string list \<Rightarrow> string list option" where
  "relComps [] ts = Some ts"
| "relComps (b # bs) ts =
     (if ts \<noteq> [] \<and> hd ts = b then relComps bs (tl ts)
      else if b = ''..'' then None
      else Some (replicate (length (b # bs)) ''..'' @ ts))"

definition Rel :: "string \<Rightarrow> string \<Rightarrow> goerr + string" where
  "Rel basepath targpath =
     (let base = Clean basepath; targ = Clean targpath in
      if targ = base then Inr ''.''
      else
        let base = (if base = ''.'' then [] else base) in
        if IsAbs base \<noteq> IsAbs targ
        then Inl (Err (''Rel: can't make '' @ targpath @ '' relative to '' @ basepath))
        else case relComps (filter (\<lambda>c. c \<noteq> []) (splitOn CHR ''/'' base)) (filter (\<lambda>c. c \<noteq> []) (splitOn CHR ''/'' targ)) of
          None \<Rightarrow> Inl (Err (''Rel: can't make '' @ targpath @ '' relative to '' @ basepath))
        | Some cs \<Rightarrow> Inr (joinWith ''/'' cs))"

section \<open>Replacement of markers\<close>

text \<open>\<open>strings.NewReplacer\<close>: left to right without overlap, the first pair that applies at a position wins.\<close>

function replacePairs :: "(string \<times> string) list \<Rightarrow> string \<Rightarrow> string" where
  "replacePairs ps [] = []"
| "replacePairs ps (c # s) =
     (case find (\<lambda>(k, v). k \<noteq> [] \<and> prefix k (c # s)) ps of
        None \<Rightarrow> c # replacePairs ps s
      | Some (k, v) \<Rightarrow> v @ replacePairs ps (drop (length k - 1) s))"
  by pat_completeness auto
termination by (relation "measure (length \<circ> snd)") auto

definition TrimPrefix :: "string \<Rightarrow> string \<Rightarrow> string" where
  "TrimPrefix s p = (if prefix p s then drop (length p) s else s)"

definition TrimSuffix :: "string \<Rightarrow> string \<Rightarrow> string" where
  "TrimSuffix s p = (if suffix p s then take (length s - length p) s else s)"

definition between :: "char \<Rightarrow> char \<Rightarrow> char \<Rightarrow> bool" where
  "between a b c \<longleftrightarrow> a \<le> c \<and> c \<le> b"

definition upper :: "char \<Rightarrow> bool" where
  "upper = between CHR ''A'' CHR ''Z''"

definition alnum :: "char \<Rightarrow> bool" where
  "alnum c \<longleftrightarrow> upper c \<or> between CHR ''a'' CHR ''z'' c \<or> between CHR ''0'' CHR ''9'' c"

definition strContains :: "string \<Rightarrow> string \<Rightarrow> bool" where
  "strContains s needle \<longleftrightarrow> sublist needle s"

section \<open>Cleaned paths\<close>

text \<open>Components of a cleaned path: none is empty or a dot, none contains a slash, and parent references
  stand only at the start of a relative path.\<close>

definition comp_ok :: "string \<Rightarrow> bool" where
  "comp_ok c \<longleftrightarrow> c \<noteq> [] \<and> c \<noteq> ''.'' \<and> CHR ''/'' \<notin> set c"

definition comps_ok :: "bool \<Rightarrow> string list \<Rightarrow> bool" where
  "comps_ok rooted cs \<longleftrightarrow> (\<forall>c \<in> set cs. comp_ok c) \<and>
     (\<exists>n rest. cs = replicate n ''..'' @ rest \<and> ''..'' \<notin> set rest \<and> (rooted \<longrightarrow> n = 0))"


lemma comps_okD: "comps_ok rooted cs \<Longrightarrow> c \<in> set cs \<Longrightarrow> comp_ok c"
  by (simp add: comps_ok_def)

lemma comps_ok_rooted: "comps_ok True cs \<longleftrightarrow> (\<forall>c \<in> set cs. comp_ok c) \<and> ''..'' \<notin> set cs"
  by (auto simp: comps_ok_def)

lemma comps_ok_push:
  assumes "comps_ok rooted cs" and "comp_ok c" and "c \<noteq> ''..''"
  shows "comps_ok rooted (cs @ [c])"
proof -
  from assms(1) obtain n rest where "cs = replicate n ''..'' @ rest" "''..'' \<notin> set rest" "rooted \<longrightarrow> n = 0" by (auto simp: comps_ok_def)
  then have "cs @ [c] = replicate n ''..'' @ (rest @ [c])" "''..'' \<notin> set (rest @ [c])" "rooted \<longrightarrow> n = 0" using assms(3) by auto
  then show ?thesis using assms(1,2) unfolding comps_ok_def by fastforce
qed

lemma comps_ok_pop:
  assumes "comps_ok rooted (cs @ [c])"
  shows "comps_ok rooted cs"
proof -
  from assms obtain n rest where eq: "cs @ [c] = replicate n ''..'' @ rest" and rest: "''..'' \<notin> set rest" "rooted \<longrightarrow> n = 0"
    by (auto simp: comps_ok_def)
  have "\<exists>n rest. cs = replicate n ''..'' @ rest \<and> ''..'' \<notin> set rest \<and> (rooted \<longrightarrow> n = 0)"
  proof (cases rest rule: rev_cases)
    case Nil
    with eq have "cs = butlast (replicate n ''..'')" by (metis append_Nil2 butlast_snoc)
    then have "cs = replicate (n - 1) ''..''" by (cases n) (simp_all add: replicate_append_same [symmetric] butlast_append)
    with rest show ?thesis by (intro exI [of _ "n - 1"] exI [of _ "[]"]) simp
  next
    case (snoc r x)
    with eq rest show ?thesis by (intro exI [of _ n] exI [of _ r]) auto
  qed
  with assms show ?thesis by (auto simp: comps_ok_def)
qed

lemma comps_ok_up:
  assumes "comps_ok False (cs @ [''..''])"
  shows "comps_ok False (cs @ [''..''] @ [''..''])"
proof -
  from assms obtain n rest where eq: "cs @ [''..''] = replicate n ''..'' @ rest" "''..'' \<notin> set rest" by (auto simp: comps_ok_def)
  then have "rest = []" by (cases rest rule: rev_cases) auto
  with eq have "(cs @ [''..'']) @ [''..''] = replicate n ''..'' @ [''..'']" by simp
  then have "cs @ [''..''] @ [''..''] = replicate (n + 1) ''..'' @ []" by (simp add: replicate_append_same)
  moreover have "\<forall>c \<in> set (cs @ [''..''] @ [''..'']). comp_ok c" using assms by (auto simp: comps_ok_def)
  ultimately show ?thesis unfolding comps_ok_def by (metis empty_iff empty_set)
qed

lemma comps_ok_one: "comps_ok rooted (rev (if rooted then [] else [''..'']))"
  unfolding comps_ok_def by (cases rooted) (simp_all add: comp_ok_def, intro exI [of _ 1] exI [of _ "[]"], simp)

lemma cleanComps_ok:
  assumes "\<forall>c \<in> set cs. CHR ''/'' \<notin> set c" and "comps_ok rooted (rev acc)"
  shows "comps_ok rooted (cleanComps rooted cs acc)"
  using assms
proof (induction rooted cs acc rule: cleanComps.induct)
  case (2 rooted c cs acc)
  have seps: "\<forall>c \<in> set cs. CHR ''/'' \<notin> set c" using "2.prems"(1) by simp
  show ?case
  proof (cases "c = [] \<or> c = ''.'' \<or> c \<noteq> ''..''")
    case True
    then show ?thesis using "2.IH"(1,4) "2.prems" seps comps_ok_push [OF "2.prems"(2), of c] by (auto simp: comp_ok_def)
  next
    case False
    then have c: "c = ''..''" by simp
    show ?thesis
    proof (cases acc)
      case Nil
      with "2.IH"(2) [OF _ _ Nil seps] c comps_ok_one [of rooted] show ?thesis by (cases rooted) simp_all
    next
      case (Cons a as)
      have "comps_ok rooted (rev (if a = ''..'' then c # acc else as))"
      proof (cases "a = ''..''")
        case True
        with "2.prems"(2) Cons have "\<not> rooted" by (auto simp: comps_ok_rooted)
        with True "2.prems"(2) Cons c show ?thesis using comps_ok_up [of "rev as"] by simp
      next
        case False
        with "2.prems"(2) Cons show ?thesis using comps_ok_pop [of rooted "rev as" a] by simp
      qed
      with "2.IH"(3) [OF _ _ Cons seps] c Cons show ?thesis by (cases "a = ''..''") simp_all
    qed
  qed
qed simp


lemma splitOn_seps: "s \<in> set (splitOn c xs) \<Longrightarrow> c \<notin> set s"
proof (induction xs arbitrary: s)
  case (Cons x xs)
  then show ?case by (cases "splitOn c xs") (auto split: if_splits)
qed simp

lemma pathComps_ok: "comps_ok (IsAbs path) (pathComps path)"
  unfolding pathComps_def by (rule cleanComps_ok) (auto dest: splitOn_seps simp: comps_ok_def)

lemma splitOn_join:
  "cs \<noteq> [] \<Longrightarrow> \<forall>c \<in> set cs. CHR ''/'' \<notin> set c \<Longrightarrow> splitOn CHR ''/'' (joinWith ''/'' cs) = cs"
  by (induction "''/''" cs rule: joinWith.induct) (simp_all add: splitOn_none splitOn_sep)

lemma cleanComps_id:
  assumes "comps_ok rooted (rev acc @ cs)"
  shows "cleanComps rooted cs acc = rev acc @ cs"
  using assms
proof (induction cs arbitrary: acc)
  case (Cons c cs)
  then have c: "comp_ok c" by (auto dest: comps_okD)
  show ?case
  proof (cases "c = ''..''")
    case False
    then show ?thesis using c Cons.IH [of "c # acc"] Cons.prems by (simp add: comp_ok_def)
  next
    case True
    from Cons.prems obtain n rest where eq: "rev acc @ c # cs = replicate n ''..'' @ rest" and rest: "''..'' \<notin> set rest" "rooted \<longrightarrow> n = 0"
      by (auto simp: comps_ok_def)
    have "length (rev acc) < n"
    proof (rule ccontr)
      assume "\<not> length (rev acc) < n"
      then have "(replicate n ''..'' @ rest) ! length (rev acc) = rest ! (length (rev acc) - n)" by (simp add: nth_append)
      moreover have "length (rev acc @ c # cs) = n + length rest" unfolding eq by simp
      then have "length (rev acc) - n < length rest" using \<open>\<not> length (rev acc) < n\<close> by auto
      ultimately have "(rev acc @ c # cs) ! length (rev acc) \<in> set rest" unfolding eq by simp
      with True rest show False unfolding nth_append_length by simp
    qed
    then have "rev acc = replicate (length (rev acc)) ''..''"
      using arg_cong [OF eq, of "take (length (rev acc))"] by (simp add: min_def)
    then have "x = ''..''" if "x \<in> set acc" for x using that by (metis in_set_replicate set_rev)
    moreover have "\<not> rooted" using \<open>length (rev acc) < n\<close> rest(2) by auto
    ultimately have "acc = [] \<or> hd acc = ''..''" by (cases acc) auto
    then show ?thesis using True \<open>\<not> rooted\<close> Cons.IH [of "c # acc"] Cons.prems by (cases acc) auto
  qed
qed simp


lemma splitOn_nonempty [simp]: "splitOn c s \<noteq> []"
  by (cases s) (auto split: list.split)

lemma splitOn_append: "splitOn c (s @ c # t) = splitOn c s @ splitOn c t"
proof (induction s)
  case (Cons x s)
  then show ?case by (cases "splitOn c s") (use splitOn_nonempty [of c s] in auto)
qed simp

lemma joinWith_append: "xs \<noteq> [] \<Longrightarrow> ys \<noteq> [] \<Longrightarrow> joinWith sep (xs @ ys) = joinWith sep xs @ sep @ joinWith sep ys"
proof (induction sep xs rule: joinWith.induct)
  case (2 sep x)
  then show ?case by (cases ys) auto
qed auto

lemma comps_slash: "comps_ok rooted cs \<Longrightarrow> \<forall>c \<in> set cs. CHR ''/'' \<notin> set c"
  by (auto simp: comps_ok_def comp_ok_def)

lemma join_not_abs: "comps_ok rooted cs \<Longrightarrow> \<not> IsAbs (joinWith ''/'' cs)"
  by (induction "''/''" cs rule: joinWith.induct) (auto simp: IsAbs_def comps_ok_def comp_ok_def prefix_Cons Cons_eq_append_conv neq_Nil_conv)

lemma IsAbs_Clean [simp]: "IsAbs (Clean p) = IsAbs p"
  using join_not_abs [OF pathComps_ok [of p]] by (simp add: Clean_def) (simp add: IsAbs_def)

lemma pathComps_Clean [simp]: "pathComps (Clean p) = pathComps p"
proof (cases "pathComps p = []")
  case True
  then show ?thesis by (simp add: Clean_def) (simp add: pathComps_def IsAbs_def)
next
  case False
  note join = splitOn_join [OF False comps_slash [OF pathComps_ok]]
  have "splitOn CHR ''/'' (Clean p) = (if IsAbs p then [[]] else []) @ pathComps p"
    using False join by (simp add: Clean_def)
  then have "pathComps (Clean p) = cleanComps (IsAbs p) (pathComps p) []" unfolding pathComps_def [of "Clean p"] by simp
  then show ?thesis using cleanComps_id [of "IsAbs p" "[]" "pathComps p"] pathComps_ok [of p] by simp
qed

lemma Clean_idem [simp]: "Clean (Clean p) = Clean p"
  by (simp add: Clean_def [of "Clean p"]) (simp add: Clean_def)

lemma Clean_nonempty [simp]: "Clean p \<noteq> []"
  using pathComps_ok [of p] by (cases "pathComps p" rule: remdups_adj.cases) (auto simp: Clean_def comps_ok_def comp_ok_def)

text \<open>On cleaned absolute paths the textual containment test, equal or with the root and a slash in front, is
  containment of the components; under a root other than the root directory itself.\<close>

lemma join_prefix:
  assumes "bs \<noteq> []" and "\<forall>c \<in> set bs. CHR ''/'' \<notin> set c" and "\<forall>c \<in> set cs. CHR ''/'' \<notin> set c"
  shows "joinWith ''/'' cs = joinWith ''/'' bs \<or> prefix (joinWith ''/'' bs @ ''/'') (joinWith ''/'' cs) \<longleftrightarrow>
         prefix bs cs \<or> cs = [] \<and> bs = [[]]"
proof
  assume "prefix bs cs \<or> cs = [] \<and> bs = [[]]"
  then show "joinWith ''/'' cs = joinWith ''/'' bs \<or> prefix (joinWith ''/'' bs @ ''/'') (joinWith ''/'' cs)"
  proof (elim disjE conjE prefixE)
    fix rest assume "cs = bs @ rest"
    then show ?thesis using joinWith_append [OF assms(1), of rest "''/''"] by (cases "rest = []") auto
  qed simp
next
  assume "joinWith ''/'' cs = joinWith ''/'' bs \<or> prefix (joinWith ''/'' bs @ ''/'') (joinWith ''/'' cs)"
  then obtain rest where "joinWith ''/'' cs = joinWith ''/'' bs \<or> joinWith ''/'' cs = joinWith ''/'' bs @ CHR ''/'' # rest"
    by (auto elim!: prefixE)
  then have "splitOn CHR ''/'' (joinWith ''/'' cs) = bs \<or> splitOn CHR ''/'' (joinWith ''/'' cs) = bs @ splitOn CHR ''/'' rest"
    using splitOn_join [OF assms(1,2)] by (auto simp: splitOn_append)
  moreover have "splitOn CHR ''/'' (joinWith ''/'' cs) = (if cs = [] then [[]] else cs)" using splitOn_join [OF _ assms(3)] by simp
  moreover have "splitOn CHR ''/'' rest \<noteq> []" by simp
  ultimately show "prefix bs cs \<or> cs = [] \<and> bs = [[]]" using assms(1) by (auto split: if_splits simp: Cons_eq_append_conv)
qed

lemma clean_within:
  assumes "IsAbs base" and "pathComps base \<noteq> []" and "IsAbs p"
  shows "Clean p = Clean base \<or> prefix (Clean base @ ''/'') (Clean p) \<longleftrightarrow> prefix (pathComps base) (pathComps p)"
  using join_prefix [OF assms(2) comps_slash [OF pathComps_ok] comps_slash [OF pathComps_ok]] assms pathComps_ok [of base]
  by (auto simp: Clean_def comps_ok_def comp_ok_def)


text \<open>The directory of a cleaned path drops its last component, so that walking up ends.\<close>

lemma cleanComps_skip: "cleanComps rooted (cs @ [[]]) acc = cleanComps rooted cs acc"
proof (induction rooted cs acc rule: cleanComps.induct)
  case (2 rooted c cs acc)
  then show ?case by (cases acc) auto
qed simp

lemma pathComps_slash: "pathComps (p @ ''/'') = (if p = [] then [] else pathComps p)"
proof (cases p)
  case (Cons c s)
  then have "IsAbs (p @ ''/'') = IsAbs p" by (simp add: IsAbs_def)
  with Cons show ?thesis by (simp add: pathComps_def splitOn_append cleanComps_skip del: append_Cons)
qed (simp add: pathComps_def IsAbs_def)

lemma pathComps_rooted: "comps_ok True cs \<Longrightarrow> pathComps (CHR ''/'' # joinWith ''/'' cs) = cs"
  using cleanComps_id [of True "[]" cs] splitOn_join [OF _ comps_slash] by (cases "cs = []") (simp_all add: pathComps_def IsAbs_def)

lemma pathComps_relative: "comps_ok False cs \<Longrightarrow> pathComps (joinWith ''/'' cs) = cs"
proof (cases "cs = []")
  case True
  then show ?thesis by (simp add: pathComps_def IsAbs_def)
next
  case False
  assume ok: "comps_ok False cs"
  then show ?thesis
    using cleanComps_id [of False "[]" cs] splitOn_join [OF False comps_slash [OF ok]] join_not_abs [OF ok] by (simp add: pathComps_def)
qed

lemma dropWhile_rev_slash: "CHR ''/'' \<notin> set x \<Longrightarrow> rev (dropWhile (\<lambda>c. c \<noteq> CHR ''/'') (rev (p @ CHR ''/'' # x))) = p @ ''/''"
proof -
  assume "CHR ''/'' \<notin> set x"
  then have "dropWhile (\<lambda>c. c \<noteq> CHR ''/'') (rev x @ CHR ''/'' # rev p) = CHR ''/'' # rev p" by (subst dropWhile_append2) auto
  then show ?thesis by simp
qed

lemma comps_ok_butlast: "comps_ok rooted cs \<Longrightarrow> comps_ok rooted (butlast cs)"
  by (cases cs rule: rev_cases) (auto intro: comps_ok_pop)

lemma pathComps_Dir:
  assumes "Clean p = p"
  shows "pathComps (Dir p) = butlast (pathComps p)"
proof (cases "pathComps p" rule: rev_cases)
  case Nil
  with assms have "p = ''/'' \<or> p = ''.''" by (auto simp: Clean_def split: if_splits)
  then have "pathComps (Dir p) = []"
  proof
    assume "p = ''/''"
    then show ?thesis unfolding Dir_def pathComps_Clean by (simp add: pathComps_def IsAbs_def)
  next
    assume "p = ''.''"
    then show ?thesis unfolding Dir_def pathComps_Clean by (simp add: pathComps_def IsAbs_def)
  qed
  with Nil show ?thesis by simp
next
  case (snoc xs x)
  then have x: "CHR ''/'' \<notin> set x" and ok: "comps_ok (IsAbs p) xs"
    using comps_slash [OF pathComps_ok [of p]] comps_ok_pop [of "IsAbs p" xs x] pathComps_ok [of p] by auto
  show ?thesis
  proof (cases "IsAbs p")
    case True
    with assms snoc have "p = (CHR ''/'' # joinWith ''/'' xs) @ (if xs = [] then [] else ''/'') @ x"
      using joinWith_append [of xs "[x]" "''/''"] by (cases "xs = []") (auto simp: Clean_def)
    then have "Dir p = Clean (if xs = [] then ''/'' else (CHR ''/'' # joinWith ''/'' xs) @ ''/'')"
      using dropWhile_rev_slash [OF x, of "[]"] dropWhile_rev_slash [OF x, of "CHR ''/'' # joinWith ''/'' xs"] by (auto simp: Dir_def)
    then show ?thesis
      using snoc ok True pathComps_rooted [of xs] pathComps_slash [of "[]"] pathComps_slash [of "CHR ''/'' # joinWith ''/'' xs"] by auto
  next
    case False
    with assms snoc have p: "p = (if xs = [] then x else joinWith ''/'' xs @ CHR ''/'' # x)"
      using joinWith_append [of xs "[x]" "''/''"] by (cases "xs = []") (auto simp: Clean_def)
    have last: "rev (dropWhile (\<lambda>c. c \<noteq> CHR ''/'') (rev x)) = []" using x by (auto simp: dropWhile_eq_Nil_conv)
    have "Dir p = Clean (if xs = [] then [] else joinWith ''/'' xs @ ''/'')"
    proof (cases "xs = []")
      case True
      with last p show ?thesis unfolding Dir_def by (simp only: if_True simp_thms)
    next
      case False
      with p dropWhile_rev_slash [OF x, of "joinWith ''/'' xs"] show ?thesis unfolding Dir_def by (simp only: if_False simp_thms)
    qed
    moreover have "joinWith ''/'' xs = [] \<longrightarrow> xs = []" "pathComps [] = []"
      using ok by (cases xs rule: remdups_adj.cases) (auto simp: comps_ok_def comp_ok_def pathComps_def IsAbs_def)
    ultimately show ?thesis
      using snoc ok False pathComps_relative [of xs] pathComps_slash [of "joinWith ''/'' xs"] by (cases "xs = []") simp_all
  qed
qed

lemma Clean_empty_comps: "Clean p = p \<Longrightarrow> pathComps p = [] \<Longrightarrow> p = ''/'' \<or> p = ''.''"
  by (auto simp: Clean_def split: if_splits)

end
