(* ===== verification/Redact.thy ===== *)
theory Redact
  imports Paths
begin

text \<open>
  Redaction of audit metadata (\<open>governance/authorization/redact.go\<close>, and \<open>redactSensitivePath\<close> of
  \<open>perm_delegation.go\<close>): the recognition of secret-shaped values and secret-bearing keys, and the
  redaction of nested metadata, argument lists, environments and paths.

  A metadata value of type \<open>any\<close> is one of the shapes the code distinguishes. Any other scalar is
  its printed form, which is all the code looks at. A container of another type (\<open>[]map[string]any\<close>,
  \<open>map[string][]string\<close>, a struct) is \<open>AContainer\<close> with its printed form and the entries it holds, which the
  code does not walk.
\<close>

section \<open>Recognition\<close>

definition sensitiveKeyNeedles :: "string list" where
  "sensitiveKeyNeedles =
     [''secret'', ''token'', ''password'', ''cookie'', ''authorization'', ''auth'', ''credential'', ''api_key'', ''apikey'']"

definition isSensitiveKey :: "string \<Rightarrow> bool" where
  "isSensitiveKey key = list_ex (strContains (ToLower (TrimSpace key))) sensitiveKeyNeedles"

text \<open>A non-empty run of a class that ends the text.\<close>

definition runOf :: "(char \<Rightarrow> bool) \<Rightarrow> string \<Rightarrow> bool" where
  "runOf cls s \<longleftrightarrow> s \<noteq> [] \<and> list_all cls s"

definition keyedRun :: "string \<Rightarrow> (char \<Rightarrow> bool) \<Rightarrow> string \<Rightarrow> bool" where
  "keyedRun key cls s \<longleftrightarrow> prefix key s \<and> runOf cls (drop (length key) s)"

definition looksJWT :: "string \<Rightarrow> bool" where
  "looksJWT s \<longleftrightarrow> length (splitOn CHR ''.'' s) = 3 \<and> prefix ''eyJ'' s \<and> length (hd (splitOn CHR ''.'' s)) > 3 \<and>
     list_all (runOf (\<lambda>c. alnum c \<or> c \<in> set ''_-'')) (splitOn CHR ''.'' s)"

definition looksAWSKey :: "string \<Rightarrow> bool" where
  "looksAWSKey s \<longleftrightarrow> length s = 20 \<and> (prefix ''AKIA'' s \<or> prefix ''ASIA'' s) \<and>
     list_all (\<lambda>c. upper c \<or> between CHR ''0'' CHR ''9'' c) (drop 4 s)"

definition isS :: "char \<Rightarrow> bool" where
  "isS c \<longleftrightarrow> c \<in> set [CHR 0x09, CHR 0x0A, CHR 0x0C, CHR 0x0D, CHR 0x20]"

text \<open>\<open>scheme://user:password@\<close> at the start. The scheme class has no colon and the two runs have no at sign,
  so the first colon ends the scheme and the first at sign ends the credential.\<close>

definition looksUserinfo :: "string \<Rightarrow> bool" where
  "looksUserinfo s =
     (let scheme = takeWhile (\<lambda>c. c \<noteq> CHR '':'') s;
          rest = drop (length scheme) s;
          body = takeWhile (\<lambda>c. c \<noteq> CHR ''@'') (drop 3 rest)
      in scheme \<noteq> [] \<and> (upper (hd scheme) \<or> between CHR ''a'' CHR ''z'' (hd scheme)) \<and>
         list_all (\<lambda>c. alnum c \<or> c \<in> set ''+.-'') scheme \<and> prefix ''://'' rest \<and>
         length body < length (drop 3 rest) \<and> list_all (\<lambda>c. \<not> isS c) body \<and>
         list_ex (\<lambda>i. body ! i = CHR '':'' \<and> CHR ''/'' \<notin> set (take i body)) [1..<length body - 1])"

definition secretShapePatterns :: "(string \<Rightarrow> bool) list" where
  "secretShapePatterns =
     [looksJWT, looksAWSKey,
      \<lambda>s. list_ex (\<lambda>c. keyedRun (''xox'' @ [c] @ ''-'') (\<lambda>c. alnum c \<or> c = CHR ''-'') s) ''baprs'',
      \<lambda>s. list_ex (\<lambda>c. keyedRun (''gh'' @ [c] @ ''_'') alnum s) ''pousr'',
      keyedRun ''github_pat_'' (\<lambda>c. alnum c \<or> c = CHR ''_''),
      keyedRun ''sk-'' (\<lambda>c. alnum c \<or> c \<in> set ''_-''),
      prefix ''-----BEGIN'',
      looksUserinfo]"

definition sensitiveValuePrefixes :: "string list" where
  "sensitiveValuePrefixes =
     [''bearer '', ''basic '', ''ghp_'', ''gho_'', ''ghu_'', ''ghs_'', ''ghr_'', ''github_pat_'', ''sk-'', ''authorization:'', ''session='']"

definition LooksSensitiveShape :: "string \<Rightarrow> bool" where
  "LooksSensitiveShape v =
     (let trimmed = TrimSpace v in
      if trimmed = [] then False
      else list_ex (strContains (ToLower trimmed)) sensitiveValuePrefixes \<or>
           list_ex (\<lambda>re. re trimmed) secretShapePatterns)"

section \<open>Redaction\<close>

definition REDACTED :: string where
  "REDACTED = ''[REDACTED]''"

definition RedactStrings :: "string list \<Rightarrow> string list" where
  "RedactStrings values = map (\<lambda>v. if LooksSensitiveShape v then REDACTED else v) values"

text \<open>\<open>strings.Cut\<close> at the first occurrence of a byte.\<close>

definition cutAt :: "char \<Rightarrow> string \<Rightarrow> (string \<times> string) option" where
  "cutAt c s =
     (if c \<in> set s then Some (takeWhile (\<lambda>x. x \<noteq> c) s, tl (dropWhile (\<lambda>x. x \<noteq> c) s)) else None)"

definition RedactEnvPairs :: "string list \<Rightarrow> string list" where
  "RedactEnvPairs env = map (\<lambda>e.
     case cutAt CHR ''='' e of
       None \<Rightarrow> e
     | Some (key, v) \<Rightarrow>
         if isSensitiveKey key \<or> LooksSensitiveShape v then key @ ''='' @ REDACTED else e) env"

datatype anyVal =
    AString string
  | AMap "(string \<times> anyVal) list"
  | AStringMap "(string \<times> string) list"
  | AList "anyVal list"
  | AStrings "string list"
  | AScalar string
  | AContainer string "(string \<times> anyVal) list"

definition redactString :: "string \<Rightarrow> string \<Rightarrow> anyVal" where
  "redactString key v =
     (if isSensitiveKey key then AString REDACTED
      else if LooksSensitiveShape v then AString REDACTED else AString v)"

fun redactValue :: "string \<Rightarrow> anyVal \<Rightarrow> anyVal" where
  "redactValue key (AString s) = redactString key s"
| "redactValue key (AMap m) =
     (if isSensitiveKey key then AString REDACTED else AMap (map (\<lambda>(k, v). (k, redactValue k v)) m))"
| "redactValue key (AStringMap m) =
     (if isSensitiveKey key then AString REDACTED else AMap (map (\<lambda>(k, v). (k, redactString k v)) m))"
| "redactValue key (AStrings xs) =
     (if isSensitiveKey key then AString REDACTED else AList (map (redactString key) xs))"
| "redactValue key (AList xs) =
     (if isSensitiveKey key then AString REDACTED else AList (map (redactValue key) xs))"
| "redactValue key (AScalar printed) =
     (if isSensitiveKey key then AString REDACTED
      else if LooksSensitiveShape printed then AString REDACTED else AScalar printed)"
| "redactValue key (AContainer printed content) =
     (if isSensitiveKey key then AString REDACTED
      else if LooksSensitiveShape printed then AString REDACTED else AContainer printed content)"

definition redactMetadataMap :: "(string \<times> anyVal) list \<Rightarrow> (string \<times> anyVal) list" where
  "redactMetadataMap m = map (\<lambda>(k, v). (k, redactValue k v)) m"

definition sensitivePathPatterns :: "string list" where
  "sensitivePathPatterns =
     [''.env'', ''.ssh'', ''secret'', ''token'', ''credential'', ''password'', ''key.pem'', ''id_rsa'', ''id_ed25519'']"

definition redactSensitivePath :: "string \<Rightarrow> string" where
  "redactSensitivePath path =
     (if list_ex (strContains (ToLower path)) sensitivePathPatterns then ''[REDACTED_PATH]'' else path)"

section \<open>Nothing secret-shaped is left\<close>

fun cleanUnder :: "string \<Rightarrow> anyVal \<Rightarrow> bool" where
  "cleanUnder key (AString s) \<longleftrightarrow> s = REDACTED \<or> \<not> isSensitiveKey key \<and> \<not> LooksSensitiveShape s"
| "cleanUnder key (AMap m) \<longleftrightarrow> \<not> isSensitiveKey key \<and> list_all (\<lambda>(k, v). cleanUnder k v) m"
| "cleanUnder key (AStringMap m) \<longleftrightarrow> False"
| "cleanUnder key (AStrings xs) \<longleftrightarrow> False"
| "cleanUnder key (AList xs) \<longleftrightarrow> \<not> isSensitiveKey key \<and> list_all (cleanUnder key) xs"
| "cleanUnder key (AScalar printed) \<longleftrightarrow> \<not> isSensitiveKey key \<and> \<not> LooksSensitiveShape printed"
| "cleanUnder key (AContainer printed content) \<longleftrightarrow> \<not> isSensitiveKey key \<and> \<not> LooksSensitiveShape printed"

text \<open>
  What may become of a value under a key: the mark if the key or the printed value betrays a secret, and
  otherwise the value itself, a container with the same keys and positions and with what may become of
  each of its values.
\<close>

fun printedForm :: "anyVal \<Rightarrow> string option" where
  "printedForm (AString s) = Some s"
| "printedForm (AScalar printed) = Some printed"
| "printedForm (AContainer printed content) = Some printed"
| "printedForm v = None"

definition betrays :: "string \<Rightarrow> anyVal \<Rightarrow> bool" where
  "betrays key v \<longleftrightarrow> isSensitiveKey key \<or> (case printedForm v of None \<Rightarrow> False | Some s \<Rightarrow> LooksSensitiveShape s)"

inductive maskedAs :: "string \<Rightarrow> anyVal \<Rightarrow> anyVal \<Rightarrow> bool" where
  masked: "betrays key v \<Longrightarrow> maskedAs key v (AString REDACTED)"
| leaf: "\<not> betrays key v \<Longrightarrow> printedForm v \<noteq> None \<Longrightarrow> maskedAs key v v"
| map: "\<not> betrays key (AMap m) \<Longrightarrow> list_all2 (\<lambda>x y. fst y = fst x \<and> maskedAs (fst x) (snd x) (snd y)) m m' \<Longrightarrow>
    maskedAs key (AMap m) (AMap m')"
| stringMap: "\<not> betrays key (AStringMap m) \<Longrightarrow> list_all2 (\<lambda>x y. fst y = fst x \<and> maskedAs (fst x) (AString (snd x)) (snd y)) m m' \<Longrightarrow>
    maskedAs key (AStringMap m) (AMap m')"
| items: "\<not> betrays key (AList xs) \<Longrightarrow> list_all2 (maskedAs key) xs ys \<Longrightarrow> maskedAs key (AList xs) (AList ys)"
| strings: "\<not> betrays key (AStrings xs) \<Longrightarrow> list_all2 (\<lambda>s y. maskedAs key (AString s) y) xs ys \<Longrightarrow> maskedAs key (AStrings xs) (AList ys)"

lemma betrays_simps [simp]:
  "betrays key (AString s) = (isSensitiveKey key \<or> LooksSensitiveShape s)"
  "betrays key (AScalar s) = (isSensitiveKey key \<or> LooksSensitiveShape s)"
  "betrays key (AContainer s c) = (isSensitiveKey key \<or> LooksSensitiveShape s)"
  "betrays key (AMap m) = isSensitiveKey key" "betrays key (AStringMap sm) = isSensitiveKey key"
  "betrays key (AList xs) = isSensitiveKey key" "betrays key (AStrings ss) = isSensitiveKey key"
  by (simp_all add: betrays_def)

lemma maskedAs_string: "maskedAs key (AString s) (redactString key s)"
  by (auto simp: redactString_def intro: masked leaf)

lemma maskedAs_redact: "maskedAs key v (redactValue key v)"
proof (induction key v rule: redactValue.induct)
  case (1 key s)
  show ?case using maskedAs_string by simp
next
  case (2 key m)
  then show ?case
    by (cases "isSensitiveKey key") (auto simp: list_all2_conv_all_nth split_def intro!: masked maskedAs.map)
next
  case (3 key m)
  show ?case
    by (cases "isSensitiveKey key") (auto simp: list_all2_conv_all_nth split_def maskedAs_string intro!: masked stringMap)
next
  case (4 key xs)
  show ?case
    by (cases "isSensitiveKey key") (auto simp: list_all2_conv_all_nth maskedAs_string intro!: masked strings)
next
  case (5 key xs)
  then show ?case
    by (cases "isSensitiveKey key") (auto simp: list_all2_conv_all_nth intro!: masked items)
qed (auto intro: masked leaf)

lemma cleanUnder_string: "cleanUnder key (redactString key s)"
  by (simp add: redactString_def)

lemma cleanUnder_redact: "cleanUnder key (redactValue key v)"
  by (induction key v rule: redactValue.induct) (auto simp: list_all_iff cleanUnder_string)

lemma redact_clean: "cleanUnder key v \<Longrightarrow> redactValue key v = v"
proof (induction key v rule: cleanUnder.induct)
  case (1 key s)
  then show ?case by (auto simp: redactString_def)
next
  case (2 key m)
  then have "map (\<lambda>(k, v). (k, redactValue k v)) m = map (\<lambda>x. x) m" by (intro map_cong) (auto simp: list_all_iff)
  with 2 show ?case by simp
next
  case (5 key xs)
  then have "map (redactValue key) xs = map (\<lambda>x. x) xs" by (intro map_cong) (auto simp: list_all_iff)
  with 5 show ?case by simp
qed auto

text \<open>
  \<^bold>\<open>C35.\<close> Redaction of metadata is complete, exact and stable for the containers the redactor walks (maps to
  \<open>any\<close> or \<open>string\<close>, lists of \<open>any\<close> or \<open>string\<close>): every value reached through them is the redaction mark, or
  stands under keys without a secret-bearing name and is not secret-shaped in its printed form; exactly the
  values that betray a secret are replaced, and everything else keeps its keys, positions and value at every
  depth; redacting again changes nothing. What containers of other types hold is not looked at.
\<close>

theorem redact_complete:
  "list_all (\<lambda>(k, v). cleanUnder k v) (redactMetadataMap m) \<and>
   list_all2 (\<lambda>x y. fst y = fst x \<and> maskedAs (fst x) (snd x) (snd y)) m (redactMetadataMap m) \<and>
   redactMetadataMap (redactMetadataMap m) = redactMetadataMap m"
proof -
  have "list_all (\<lambda>(k, v). cleanUnder k v) (redactMetadataMap m)"
    by (auto simp: redactMetadataMap_def list_all_iff cleanUnder_redact)
  moreover have "redactMetadataMap (redactMetadataMap m) = redactMetadataMap m"
    by (simp add: redactMetadataMap_def redact_clean [OF cleanUnder_redact] split_def)
  moreover have "list_all2 (\<lambda>x y. fst y = fst x \<and> maskedAs (fst x) (snd x) (snd y)) m (redactMetadataMap m)"
    by (auto simp: redactMetadataMap_def list_all2_conv_all_nth split_def maskedAs_redact)
  ultimately show ?thesis by blast
qed

text \<open>A password in a list of maps stays readable: \<open>[]map[string]any\<close> is not walked.\<close>

lemma container_leaks:
  "redactValue ''servers'' (AContainer ''[map[password:hunter2]]'' [(''password'', AString ''hunter2'')]) =
     AContainer ''[map[password:hunter2]]'' [(''password'', AString ''hunter2'')]"
  "redactValue ''servers'' (AList [AMap [(''password'', AString ''hunter2'')]]) = AList [AMap [(''password'', AString REDACTED)]]"
  by code_simp+

text \<open>An environment keeps its keys, and every entry whose key or value betrays a secret loses its value.\<close>

lemma takeWhile_dropWhile_cut: "cutAt c s = Some (a, b) \<Longrightarrow> s = a @ c # b \<and> c \<notin> set a"
proof -
  assume "cutAt c s = Some (a, b)"
  then have c: "c \<in> set s" and a: "a = takeWhile (\<lambda>x. x \<noteq> c) s" and b: "b = tl (dropWhile (\<lambda>x. x \<noteq> c) s)"
    by (auto simp: cutAt_def split: if_splits)
  have "dropWhile (\<lambda>x. x \<noteq> c) s \<noteq> []" using c by auto
  then have "dropWhile (\<lambda>x. x \<noteq> c) s = c # b" using hd_dropWhile [of "\<lambda>x. x \<noteq> c" s] unfolding b by (metis list.collapse)
  then show ?thesis using takeWhile_dropWhile_id [of "\<lambda>x. x \<noteq> c" s] a set_takeWhileD by fastforce
qed

end
