(* ===== verification/Declared.thy ===== *)
theory Declared
  imports Paths
begin

text \<open>
  The permissions an agent manifest declares (\<open>userconfig/permissions\<close>): the data, the validation of a
  permission set, and the expansion of workspace markers in declared paths
  (\<open>governance/authorization/perm_file.go\<close>).
\<close>

section \<open>Data\<close>

abbreviation PermissionTypeFilesystem :: string where "PermissionTypeFilesystem \<equiv> ''filesystem''"
abbreviation PermissionTypeExecutable :: string where "PermissionTypeExecutable \<equiv> ''executable''"
abbreviation PermissionTypeNetwork :: string where "PermissionTypeNetwork \<equiv> ''network''"
abbreviation PermissionTypeCapability :: string where "PermissionTypeCapability \<equiv> ''capability''"
abbreviation PermissionTypeIPC :: string where "PermissionTypeIPC \<equiv> ''ipc''"
abbreviation PermissionTypeHITL :: string where "PermissionTypeHITL \<equiv> ''hitl''"

record FileSystemPermission =
  fp_Action :: string
  fp_Path :: string
  fp_Justification :: string
  fp_HITLRequired :: bool
  fp_ReadOnlyMount :: bool

record ExecutablePermission =
  xp_Binary :: string
  xp_Args :: "string list"
  xp_Env :: "string list"
  xp_Checksum :: string
  xp_HITLRequired :: bool
  xp_ProxyRequired :: bool

record NetworkPermission =
  np_Direction :: string
  np_Protocol :: string
  np_Host :: string
  np_Port :: int
  np_Description :: string
  np_HITLRequired :: bool

record CapabilityPermission =
  cp_Capability :: string
  cp_Justification :: string

record IPCPermission =
  ip_Kind :: string
  ip_Target :: string
  ip_Description :: string
  ip_HITLRequired :: bool

record PermissionSet =
  ps_FileSystem :: "FileSystemPermission list"
  ps_Executables :: "ExecutablePermission list"
  ps_Network :: "NetworkPermission list"
  ps_Capabilities :: "CapabilityPermission list"
  ps_IPC :: "IPCPermission list"
  ps_HITLRequired :: "string list"

section \<open>Validation\<close>

definition globChar :: "char \<Rightarrow> bool" where
  "globChar c \<longleftrightarrow> alnum c \<or> c \<in> set ''_./*-{}$''"

definition validateGlobPath :: "string \<Rightarrow> goerr option" where
  "validateGlobPath path =
     (if path = [] then Some (Err ''glob cannot be empty'')
      else if strContains path ''..'' then Some (Err (''glob cannot contain '' @ [CHR 0x27] @ ''..'' @ [CHR 0x27]))
      else let clean = Clean path in
        if prefix ''../'' clean \<or> clean = ''..'' then Some (Err ''glob cannot escape workspace'')
        else if \<not> list_all globChar path then Some (Err ''glob contains unsupported characters'')
        else None)"

fun validateFileSystem :: "FileSystemPermission list \<Rightarrow> goerr option" where
  "validateFileSystem [] = None"
| "validateFileSystem (perm # perms) =
     (if fp_Path perm = [] then Some (Err (''filesystem permission '' @ fp_Action perm @ '' missing path''))
      else case validateGlobPath (fp_Path perm) of
        Some err \<Rightarrow> Some (Wrap (''invalid filesystem path '' @ fp_Path perm @ '': '') err)
      | None \<Rightarrow> validateFileSystem perms)"

fun validateExecutables :: "ExecutablePermission list \<Rightarrow> goerr option" where
  "validateExecutables [] = None"
| "validateExecutables (exec # execs) =
     (if xp_Binary exec = [] then Some (Err ''executable permission missing binary'')
      else if CHR ''/'' \<in> set (xp_Binary exec)
      then Some (Err (''executable '' @ xp_Binary exec @ '' must be referenced by name''))
      else validateExecutables execs)"

fun validateNetwork :: "NetworkPermission list \<Rightarrow> goerr option" where
  "validateNetwork [] = None"
| "validateNetwork (net # nets) =
     (if np_Direction net = [] then Some (Err ''network permission missing direction'')
      else if np_Protocol net = [] then Some (Err (''network permission for '' @ np_Direction net @ '' missing protocol''))
      else if np_Direction net = ''egress'' \<and> np_Host net = []
      then Some (Err ''egress network permission must declare host'')
      else validateNetwork nets)"

definition ValidatePermissionSet :: "PermissionSet option \<Rightarrow> goerr option" where
  "ValidatePermissionSet p =
     (case p of
        None \<Rightarrow> None
      | Some p \<Rightarrow>
          (case validateFileSystem (ps_FileSystem p) of
             Some err \<Rightarrow> Some err
           | None \<Rightarrow>
               (case validateExecutables (ps_Executables p) of
                  Some err \<Rightarrow> Some err
                | None \<Rightarrow> validateNetwork (ps_Network p))))"

section \<open>Workspace markers\<close>

definition expandWorkspaceMarker :: "string \<Rightarrow> string \<Rightarrow> string" where
  "expandWorkspaceMarker workspace pattern =
     (if pattern = [] then pattern
      else
        let resolved = replacePairs [(''${workspace}'', workspace), (''${WORKSPACE}'', workspace),
                                     (''{{workspace}}'', workspace), (''{{WORKSPACE}}'', workspace)] pattern in
        if IsAbs resolved then resolved
        else if workspace = [] then resolved
        else Join [workspace, TrimPrefix resolved ''./''])"

definition inflateScopes :: "string \<Rightarrow> PermissionSet \<Rightarrow> PermissionSet" where
  "inflateScopes basePath declared =
     (let ws = Clean basePath in
      declared\<lparr>ps_FileSystem := map (\<lambda>perm. perm\<lparr>fp_Path := expandWorkspaceMarker ws (fp_Path perm)\<rparr>) (ps_FileSystem declared)\<rparr>)"

section \<open>What a valid set cannot contain\<close>

lemma validateFileSystem_ok: "validateFileSystem perms = None \<longleftrightarrow> (\<forall>p \<in> set perms. validateGlobPath (fp_Path p) = None)"
  by (induction perms) (auto simp: validateGlobPath_def split: option.splits)

lemma validateExecutables_ok:
  "validateExecutables execs = None \<longleftrightarrow> (\<forall>x \<in> set execs. xp_Binary x \<noteq> [] \<and> CHR ''/'' \<notin> set (xp_Binary x))"
  by (induction execs) auto

lemma validateNetwork_ok:
  "validateNetwork nets = None \<longleftrightarrow>
   (\<forall>n \<in> set nets. np_Direction n \<noteq> [] \<and> np_Protocol n \<noteq> [] \<and> (np_Direction n = ''egress'' \<longrightarrow> np_Host n \<noteq> []))"
  by (induction nets) auto

end
