(* ===== verification/Grants.thy ===== *)
theory Grants
  imports Bounded Policy Redact Declared
begin

text \<open>
  Approval grants of the permission manager
  (\<open>governance/authorization/permissions.go\<close>, \<open>perm_delegation.go\<close>): grants cached per permission
  key in a bounded cache, consumed by \<open>TakeIf\<close> when they are one-time; the rate limit on requests
  to the human approver; task grants; release of a session's grants.

  The approver (\<open>HITLProvider\<close>) is an interface: a call receives it as the function from the
  request to its answer, or \<open>None\<close> for a nil provider. Clock readings are the arguments
  \<open>clk 0\<close>, \<open>clk 1\<close>, ... of a call, in the order in which the call takes them. The audit logger is the
  function from a record to its error; records of denials, whose errors are dropped, and telemetry
  are not part of the state. A grant in the cache is a non-nil pointer: no call stores nil. The
  sandbox runtime is its own policy and the function that applies a policy.
\<close>

section \<open>State\<close>

record PermissionDescriptor =
  dp_Type :: string
  dp_Action :: string
  dp_Resource :: string
  dp_Metadata :: "(string \<times> string) list"
  dp_RequiresHITL :: bool

record PermissionGrant =
  pg_ID :: string
  pg_Permission :: PermissionDescriptor
  pg_Scope :: string
  pg_ExpiresAt :: time
  pg_ApprovedBy :: string
  pg_Conditions :: "(string \<times> string) list"
  pg_GrantedAt :: time
  pg_Description :: string
  pg_SessionID :: string

record PermissionRequest =
  pq_ID :: string
  pq_Permission :: PermissionDescriptor
  pq_Justification :: string
  pq_Scope :: string
  pq_Duration :: int
  pq_Risk :: string
  pq_RunID :: string
  pq_Timeout :: int
  pq_TimeoutBehavior :: string
  pq_RequestedAt :: time
  pq_State :: string

abbreviation GrantScopeOneTime :: string where
  "GrantScopeOneTime \<equiv> ''one_time''"
abbreviation GrantScopeSession :: string where
  "GrantScopeSession \<equiv> ''session''"
abbreviation RiskLevelMedium :: string where
  "RiskLevelMedium \<equiv> ''medium''"

record hitlRateBucket =
  rb_count :: int
  rb_windowAt :: time

record taskGrant =
  tgr_runID :: string
  tgr_approvedTags :: "string list"

type_synonym HITLProvider = "PermissionRequest \<Rightarrow> goerr + PermissionGrant"

record AuditRecord =
  au_Timestamp :: time
  au_AgentID :: string
  au_Action :: string
  au_Type :: string
  au_Permission :: string
  au_Result :: string
  au_Metadata :: "(string \<times> anyVal) list"
  au_User :: string
  au_Correlation :: string

type_synonym AuditLogger = "AuditRecord \<Rightarrow> goerr option"

record NetworkRule =
  nr_Direction :: string
  nr_Protocol :: string
  nr_Host :: string
  nr_Port :: int
  nr_Description :: string

record SandboxPolicy =
  sb_NetworkRules :: "NetworkRule list"
  sb_ReadOnlyRoot :: bool
  sb_ProtectedPaths :: "string list"
  sb_NoNewPrivileges :: bool
  sb_SeccompProfile :: string
  sb_AllowedEnvKeys :: "string list"
  sb_DeniedEnvKeys :: "string list"

type_synonym SandboxRuntime = "SandboxPolicy \<times> (SandboxPolicy \<Rightarrow> goerr option)"

record PermissionManager =
  pm_basePath :: string
  pm_declared :: PermissionSet
  pm_audit :: "AuditLogger option"
  pm_hitl :: "HITLProvider option"
  pm_runtime :: "SandboxRuntime option"
  pm_netPolicy :: "NetworkRule list"
  pm_runtimePolicyErr :: "goerr option"
  pm_fsPermCache :: "(string, FileSystemPermission option) cache"
  pm_execPermCache :: "(string, ExecutablePermission option) cache"
  pm_fsProtectedRoots :: "string list"
  pm_fsExcludedRoots :: "string list"
  pm_grants :: "(string, PermissionGrant) cache"
  pm_defaultDecision :: Decision
  pm_taskGrants :: "(string \<times> taskGrant) list"
  pm_hitlRateLimits :: "(string, hitlRateBucket) cache"

definition grantsCacheCap :: int where "grantsCacheCap = 1024"
definition hitlRateCacheCap :: int where "hitlRateCacheCap = 4096"
definition hitlRateEntryTTL :: int where "hitlRateEntryTTL = 3600 * 1000000000"
definition hitlRateMax :: int where "hitlRateMax = 10"
definition hitlRateWindow :: int where "hitlRateWindow = 60 * 1000000000"

definition fsPermCacheCap :: int where "fsPermCacheCap = 2048"
definition execPermCacheCap :: int where "execPermCacheCap = 2048"

text \<open>The state a new manager starts with, and the constructor, which validates the declared set and expands
  the workspace markers in it.\<close>

definition newManager :: "string \<Rightarrow> PermissionSet \<Rightarrow> AuditLogger option \<Rightarrow> HITLProvider option \<Rightarrow> PermissionManager" where
  "newManager basePath declared audit hitl =
     \<lparr>pm_basePath = basePath, pm_declared = inflateScopes basePath declared, pm_audit = audit, pm_hitl = hitl, pm_runtime = None,
      pm_netPolicy = [], pm_runtimePolicyErr = None, pm_fsPermCache = NewCache fsPermCacheCap 0 False,
      pm_execPermCache = NewCache execPermCacheCap 0 False, pm_fsProtectedRoots = [], pm_fsExcludedRoots = [],
      pm_grants = NewCache grantsCacheCap 0 False, pm_defaultDecision = DecisionAsk,
      pm_taskGrants = [], pm_hitlRateLimits = NewCache hitlRateCacheCap hitlRateEntryTTL False\<rparr>"

definition NewPermissionManager ::
  "string \<Rightarrow> PermissionSet option \<Rightarrow> AuditLogger option \<Rightarrow> HITLProvider option \<Rightarrow> goerr + PermissionManager" where
  "NewPermissionManager basePath declared audit hitl =
     (case declared of
        None \<Rightarrow> Inl (Err ''permission manager requires permission set'')
      | Some perms \<Rightarrow>
          (case ValidatePermissionSet declared of
             Some err \<Rightarrow> Inl err
           | None \<Rightarrow> Inr (newManager basePath perms audit hitl)))"

section \<open>Grants\<close>

definition grant_Expired :: "PermissionGrant \<Rightarrow> time \<Rightarrow> bool" where
  "grant_Expired g now = (if IsZero (pg_ExpiresAt g) then False else now > pg_ExpiresAt g)"

definition sweepExpiredGrants :: "time \<Rightarrow> (nat \<Rightarrow> time) \<Rightarrow> PermissionManager \<Rightarrow> PermissionManager" where
  "sweepExpiredGrants now clock m =
     (let stale = map fst (filter (\<lambda>(k, g). grant_Expired g now) (cache_Range clock (\<lambda>_ _. True) (pm_grants m)))
      in m\<lparr>pm_grants := fold cache_Delete stale (pm_grants m)\<rparr>)"

definition putGrant :: "time \<Rightarrow> string \<Rightarrow> PermissionGrant \<Rightarrow> PermissionManager \<Rightarrow> PermissionManager" where
  "putGrant now key g m =
     (let m = (if int (cache_Len (pm_grants m)) \<ge> grantsCacheCap div 2
               then sweepExpiredGrants now (\<lambda>_. now) m else m)
      in m\<lparr>pm_grants := cache_Put now key g (pm_grants m)\<rparr>)"

definition ReleaseSession :: "(nat \<Rightarrow> time) \<Rightarrow> string \<Rightarrow> PermissionManager \<Rightarrow> nat \<times> PermissionManager" where
  "ReleaseSession clock sessionID m =
     (let released = map fst (filter (\<lambda>(k, g). pg_SessionID g \<noteq> [] \<and> pg_SessionID g = sessionID)
                                     (cache_Range clock (\<lambda>_ _. True) (pm_grants m)))
      in (length released, m\<lparr>pm_grants := fold cache_Delete released (pm_grants m)\<rparr>))"

definition GrantManual ::
  "(nat \<Rightarrow> time) \<Rightarrow> PermissionDescriptor \<Rightarrow> string \<Rightarrow> string \<Rightarrow> int \<Rightarrow> PermissionGrant" where
  "GrantManual clk permission approvedBy scope duration =
     \<lparr>pg_ID = ''manual-'' @ fmtInt (UnixNano (clk 0)), pg_Permission = permission, pg_Scope = scope,
      pg_ExpiresAt = (if duration > 0 then clk 2 + duration else 0), pg_ApprovedBy = approvedBy,
      pg_Conditions = [], pg_GrantedAt = clk 1, pg_Description = [], pg_SessionID = []\<rparr>"

definition permissionKey :: "PermissionDescriptor \<Rightarrow> string" where
  "permissionKey desc = dp_Action desc @ '':'' @ dp_Resource desc"

definition GrantPermission ::
  "(nat \<Rightarrow> time) \<Rightarrow> PermissionDescriptor \<Rightarrow> string \<Rightarrow> string \<Rightarrow> int \<Rightarrow> PermissionManager \<Rightarrow> PermissionManager" where
  "GrantPermission clk desc approvedBy scope duration m =
     putGrant (clk 3) (permissionKey desc) (GrantManual clk desc approvedBy scope duration) m"

text \<open>The atomic read of a cached grant: expired and one-time grants leave the cache with it. The
  grant authorizes when it has not expired.\<close>

definition takeGrant :: "(nat \<Rightarrow> time) \<Rightarrow> string \<Rightarrow> PermissionManager \<Rightarrow> bool \<times> PermissionManager" where
  "takeGrant clk key m =
     (case cache_TakeIf (clk 0) key
             (Some (\<lambda>g. grant_Expired g (clk 1) \<or> pg_Scope g = GrantScopeOneTime)) (pm_grants m) of
        (g, grants) \<Rightarrow>
          ((case g of None \<Rightarrow> False | Some g \<Rightarrow> \<not> grant_Expired g (clk 2)), m\<lparr>pm_grants := grants\<rparr>))"

section \<open>Approval\<close>

text \<open>The bucket is a pointer: its counter changes in place, without touching the entry's age or
  its position in the eviction order.\<close>

definition setInPlace :: "'k \<Rightarrow> 'v \<Rightarrow> ('k, 'v) cache \<Rightarrow> ('k, 'v) cache" where
  "setInPlace k v c =
     (case map_of (c_entries c) k of
        None \<Rightarrow> c
      | Some e \<Rightarrow> c\<lparr>c_entries := AList.update k (e\<lparr>ce_value := v\<rparr>) (c_entries c)\<rparr>)"

definition checkHITLRateLimit ::
  "time \<Rightarrow> time \<Rightarrow> string \<Rightarrow> PermissionManager \<Rightarrow> goerr option \<times> PermissionManager" where
  "checkHITLRateLimit now cnow key m =
     (case cache_Get cnow key (pm_hitlRateLimits m) of
        (bucket, limits) \<Rightarrow>
          let fresh = m\<lparr>pm_hitlRateLimits := cache_Put cnow key \<lparr>rb_count = 1, rb_windowAt = now\<rparr> limits\<rparr> in
          (case bucket of
             None \<Rightarrow> (None, fresh)
           | Some b \<Rightarrow>
               if time_Sub now (rb_windowAt b) \<ge> hitlRateWindow then (None, fresh)
               else let b' = b\<lparr>rb_count := rb_count b + 1\<rparr>;
                        m' = m\<lparr>pm_hitlRateLimits := setInPlace key b' limits\<rparr> in
                    if rb_count b' > hitlRateMax
                    then (Some (Err (''HITL rate limit exceeded for '' @ key @ '': max 10 requests per 1m0s'')), m')
                    else (None, m')))"

text \<open>The request to the approver and the caching of its grant. \<open>agentID\<close> is the agent of the
  principal in the call's context.\<close>

definition newRequest :: "PermissionDescriptor \<Rightarrow> string \<Rightarrow> string \<Rightarrow> int \<Rightarrow> string \<Rightarrow> PermissionRequest" where
  "newRequest desc justification scope duration risk =
     \<lparr>pq_ID = [], pq_Permission = desc, pq_Justification = justification, pq_Scope = scope,
      pq_Duration = duration, pq_Risk = risk, pq_RunID = [], pq_Timeout = 0, pq_TimeoutBehavior = [],
      pq_RequestedAt = 0, pq_State = []\<rparr>"

definition askHITL ::
  "time \<Rightarrow> string \<Rightarrow> string \<Rightarrow> PermissionRequest \<Rightarrow> PermissionManager \<Rightarrow> goerr option \<times> PermissionManager" where
  "askHITL now agentID key req m =
     (case pm_hitl m of
        None \<Rightarrow> (Some (Err ''hitl approval required''), m)
      | Some hitl \<Rightarrow>
          (case hitl req of
             Inl err \<Rightarrow> (Some err, m)
           | Inr grant \<Rightarrow> (None, putGrant now key (grant\<lparr>pg_SessionID := agentID\<rparr>) m)))"

definition requestGrant ::
  "(nat \<Rightarrow> time) \<Rightarrow> string \<Rightarrow> PermissionDescriptor \<Rightarrow> PermissionManager \<Rightarrow> goerr option \<times> PermissionManager" where
  "requestGrant clk agentID desc m =
     askHITL (clk 3) agentID (permissionKey desc)
       (newRequest desc ''runtime request'' GrantScopeSession 0 RiskLevelMedium) m"

definition ensureGrant ::
  "(nat \<Rightarrow> time) \<Rightarrow> string \<Rightarrow> PermissionDescriptor \<Rightarrow> PermissionManager \<Rightarrow> goerr option \<times> PermissionManager" where
  "ensureGrant clk agentID desc m =
     (case takeGrant clk (permissionKey desc) m of
        (granted, m') \<Rightarrow> if granted then (None, m') else requestGrant clk agentID desc m')"

definition RequireApproval ::
  "(nat \<Rightarrow> time) \<Rightarrow> string \<Rightarrow> PermissionDescriptor \<Rightarrow> string \<Rightarrow> string \<Rightarrow> string \<Rightarrow> int \<Rightarrow>
   PermissionManager \<Rightarrow> goerr option \<times> PermissionManager" where
  "RequireApproval clk agentID desc justification scope risk duration m =
     (let desc = desc\<lparr>dp_RequiresHITL := True\<rparr>;
          key = permissionKey desc in
      case takeGrant clk key m of
        (granted, m1) \<Rightarrow>
          if granted then (None, m1)
          else case checkHITLRateLimit (clk 3) (clk 4) key m1 of
            (limited, m2) \<Rightarrow>
              (case limited of
                 Some err \<Rightarrow> (Some err, m2)
               | None \<Rightarrow>
                   let scope = (if scope = [] then GrantScopeOneTime else scope);
                       risk = (if risk = [] then RiskLevelMedium else risk)
                   in askHITL (clk 5) agentID key (newRequest desc justification scope duration risk) m2))"

section \<open>Default decision and task grants\<close>

definition SetDefaultDecision :: "Decision \<Rightarrow> PermissionManager \<Rightarrow> goerr option \<times> PermissionManager" where
  "SetDefaultDecision level m =
     (case ParseDecision level of
        Inl err \<Rightarrow> (Some err, m)
      | Inr _ \<Rightarrow>
          if level = DecisionAllow
          then (Some (Err ''default decision allow is not permitted; use ask (HITL) or deny''), m)
          else (None, m\<lparr>pm_defaultDecision := level\<rparr>))"

definition effectiveDefaultDecision :: "PermissionManager \<Rightarrow> Decision" where
  "effectiveDefaultDecision m =
     (if pm_defaultDecision m = [] then DecisionAsk else pm_defaultDecision m)"

fun collectTags :: "string list \<Rightarrow> string list \<Rightarrow> goerr + string list" where
  "collectTags [] acc = Inr acc"
| "collectTags (tag # tags) acc =
     (let tag = ToLower (TrimSpace tag) in
      if tag = [] then collectTags tags acc
      else if tag = ''*'' then Inl (Err ''wildcard task grants are not allowed'')
      else collectTags tags (List.insert tag acc))"

definition RegisterTaskGrant ::
  "string \<Rightarrow> string list \<Rightarrow> PermissionManager \<Rightarrow> goerr option \<times> PermissionManager" where
  "RegisterTaskGrant runID approvedTags m =
     (let runID = TrimSpace runID in
      if runID = [] then (Some (Err ''run id required''), m)
      else if approvedTags = [] then (Some (Err ''approved tags required''), m)
      else case collectTags approvedTags [] of
        Inl err \<Rightarrow> (Some err, m)
      | Inr tags \<Rightarrow>
          if tags = [] then (Some (Err ''approved tags required''), m)
          else (None, m\<lparr>pm_taskGrants :=
                   AList.update runID \<lparr>tgr_runID = runID, tgr_approvedTags = tags\<rparr> (pm_taskGrants m)\<rparr>))"

definition RevokeTaskGrant :: "string \<Rightarrow> PermissionManager \<Rightarrow> PermissionManager" where
  "RevokeTaskGrant runID m = m\<lparr>pm_taskGrants := AList.delete (TrimSpace runID) (pm_taskGrants m)\<rparr>"

definition toolAllowedByTaskGrant :: "string \<Rightarrow> string list \<Rightarrow> PermissionManager \<Rightarrow> bool" where
  "toolAllowedByTaskGrant agentID tags m =
     (if TrimSpace agentID = [] then False
      else case map_of (pm_taskGrants m) agentID of
        None \<Rightarrow> False
      | Some grant \<Rightarrow>
          list_ex (\<lambda>tag. let tag = ToLower (TrimSpace tag) in
                         tag \<noteq> [] \<and> tag \<in> set (tgr_approvedTags grant)) tags)"

text \<open>One call on the manager, and a history of calls.\<close>

datatype managerOp =
    RequireOp "nat \<Rightarrow> time" string PermissionDescriptor string string string int
  | EnsureOp "nat \<Rightarrow> time" string PermissionDescriptor
  | GrantOp "nat \<Rightarrow> time" PermissionDescriptor string string int
  | ReleaseOp "nat \<Rightarrow> time" string
  | RegisterOp string "string list"
  | RevokeOp string
  | DefaultOp Decision

fun managerStep :: "managerOp \<Rightarrow> PermissionManager \<Rightarrow> PermissionManager" where
  "managerStep (RequireOp clk ag d j s r du) m = snd (RequireApproval clk ag d j s r du m)"
| "managerStep (EnsureOp clk ag d) m = snd (ensureGrant clk ag d m)"
| "managerStep (GrantOp clk d who s du) m = GrantPermission clk d who s du m"
| "managerStep (ReleaseOp clk sid) m = snd (ReleaseSession clk sid m)"
| "managerStep (RegisterOp run tags) m = snd (RegisterTaskGrant run tags m)"
| "managerStep (RevokeOp run) m = RevokeTaskGrant run m"
| "managerStep (DefaultOp d) m = snd (SetDefaultDecision d m)"

section \<open>The manager's invariant\<close>

abbreviation cachedGrant :: "PermissionManager \<Rightarrow> string \<Rightarrow> PermissionGrant option" where
  "cachedGrant m key \<equiv> cacheValue (pm_grants m) key"

definition grants_ok :: "PermissionManager \<Rightarrow> bool" where
  "grants_ok m \<longleftrightarrow> liveCache grantsCacheCap (pm_grants m) \<and> pm_defaultDecision m \<noteq> DecisionAllow"

lemma grants_ok_New: "grants_ok (newManager bp ps au h)"
  by (simp add: grants_ok_def newManager_def NewCache_def liveCache_def grantsCacheCap_def)

lemma grants_ok_sweep: "grants_ok m \<Longrightarrow> grants_ok (sweepExpiredGrants now clock m)"
  by (simp add: grants_ok_def sweepExpiredGrants_def Let_def grantstore.ok_fold_del)

lemma grants_ok_put: "grants_ok m \<Longrightarrow> grants_ok (putGrant now key g m)"
  using grants_ok_sweep [of m now "\<lambda>_. now"]
  by (auto simp: putGrant_def Let_def grants_ok_def grantstore.ok_put)

lemma cachedGrant_put: "grants_ok m \<Longrightarrow> cachedGrant (putGrant now key g m) key = Some g"
  using grants_ok_sweep [of m now "\<lambda>_. now"]
  by (auto simp: putGrant_def Let_def grants_ok_def grantstore.lookup_put_same)

lemma takeGrant_spec:
  assumes "grants_ok m"
  shows "fst (takeGrant clk key m) \<longleftrightarrow> (\<exists>g. cachedGrant m key = Some g \<and> \<not> grant_Expired g (clk 2))"
    and "cachedGrant (snd (takeGrant clk key m)) key =
           (case cachedGrant m key of None \<Rightarrow> None
            | Some g \<Rightarrow> if grant_Expired g (clk 1) \<or> pg_Scope g = GrantScopeOneTime then None else Some g)"
    and "grants_ok (snd (takeGrant clk key m))"
    and "pm_hitl (snd (takeGrant clk key m)) = pm_hitl m"
    and "pm_hitlRateLimits (snd (takeGrant clk key m)) = pm_hitlRateLimits m"
proof -
  let ?f = "\<lambda>g. grant_Expired g (clk 1) \<or> pg_Scope g = GrantScopeOneTime"
  have live: "liveCache grantsCacheCap (pm_grants m)" using assms by (simp add: grants_ok_def)
  obtain g c where take: "cache_TakeIf (clk 0) key (Some ?f) (pm_grants m) = (g, c)" by fastforce
  have g: "g = cachedGrant m key" using grantstore.take_value [OF live, of "clk 0" key ?f] take by simp
  have c: "liveCache grantsCacheCap c" using grantstore.ok_take [OF live, of "clk 0" key ?f] take by simp
  have eq: "takeGrant clk key m =
      ((case g of None \<Rightarrow> False | Some g \<Rightarrow> \<not> grant_Expired g (clk 2)), m\<lparr>pm_grants := c\<rparr>)"
    unfolding takeGrant_def take prod.case ..
  show "fst (takeGrant clk key m) \<longleftrightarrow> (\<exists>g. cachedGrant m key = Some g \<and> \<not> grant_Expired g (clk 2))"
    by (simp add: eq g split: option.split)
  show "cachedGrant (snd (takeGrant clk key m)) key =
      (case cachedGrant m key of None \<Rightarrow> None
       | Some g \<Rightarrow> if grant_Expired g (clk 1) \<or> pg_Scope g = GrantScopeOneTime then None else Some g)"
    using grantstore.lookup_take [OF live, of "clk 0" key ?f key] take by (simp add: eq)
  show "grants_ok (snd (takeGrant clk key m))" using c assms by (simp add: eq grants_ok_def)
qed (simp_all add: takeGrant_def split: prod.split)

lemma checkHITLRateLimit_frame [simp]:
  "pm_grants (snd (checkHITLRateLimit now cnow key m)) = pm_grants m"
  "pm_hitl (snd (checkHITLRateLimit now cnow key m)) = pm_hitl m"
  "pm_defaultDecision (snd (checkHITLRateLimit now cnow key m)) = pm_defaultDecision m"
  by (auto simp: checkHITLRateLimit_def Let_def split: prod.split option.split)

lemma grants_ok_askHITL: "grants_ok m \<Longrightarrow> grants_ok (snd (askHITL now ag key req m))"
  by (auto simp: askHITL_def grants_ok_put split: option.split sum.split)

lemma grants_ok_ensureGrant: "grants_ok m \<Longrightarrow> grants_ok (snd (ensureGrant clk ag d m))"
  using takeGrant_spec(3) [of m clk "permissionKey d"]
  by (cases "takeGrant clk (permissionKey d) m") (simp add: ensureGrant_def requestGrant_def grants_ok_askHITL)

lemma permissionKey_HITL [simp]: "permissionKey (d\<lparr>dp_RequiresHITL := b\<rparr>) = permissionKey d"
  by (simp add: permissionKey_def)

text \<open>The three outcomes of \<open>RequireApproval\<close>: a cached grant, the rate limit, the approver.\<close>

lemma RequireApproval_unfold:
  fixes m d clk
  defines "m1 \<equiv> snd (takeGrant clk (permissionKey d) m)"
  defines "m2 \<equiv> snd (checkHITLRateLimit (clk 3) (clk 4) (permissionKey d) m1)"
  shows "RequireApproval clk ag d j s r du m =
     (if fst (takeGrant clk (permissionKey d) m) then (None, m1)
      else case fst (checkHITLRateLimit (clk 3) (clk 4) (permissionKey d) m1) of
        Some err \<Rightarrow> (Some err, m2)
      | None \<Rightarrow> askHITL (clk 5) ag (permissionKey d)
          (newRequest (d\<lparr>dp_RequiresHITL := True\<rparr>) j (if s = [] then GrantScopeOneTime else s) du
             (if r = [] then RiskLevelMedium else r)) m2)"
  by (simp add: RequireApproval_def m1_def m2_def Let_def split: prod.split option.split)

lemma grants_ok_RequireApproval: "grants_ok m \<Longrightarrow> grants_ok (snd (RequireApproval clk ag d j s r du m))"
  using takeGrant_spec(3) [of m clk "permissionKey d"]
  by (auto simp: RequireApproval_unfold grants_ok_def
      intro!: grants_ok_askHITL [unfolded grants_ok_def, THEN conjunct1]
        grants_ok_askHITL [unfolded grants_ok_def, THEN conjunct2, rule_format] split: option.split)

lemma grants_ok_step:
  assumes ok: "grants_ok m"
  shows "grants_ok (managerStep op m)"
proof (cases op)
  case (RequireOp clk ag d j s r du)
  then show ?thesis using ok by (simp add: grants_ok_RequireApproval)
next
  case (EnsureOp clk ag d)
  then show ?thesis using ok by (simp add: grants_ok_ensureGrant)
next
  case (GrantOp now d who s du)
  then show ?thesis using ok by (simp add: GrantPermission_def grants_ok_put)
next
  case (ReleaseOp clk sid)
  then show ?thesis using ok by (simp add: ReleaseSession_def grants_ok_def Let_def grantstore.ok_fold_del)
next
  case (RegisterOp run tags)
  then show ?thesis using ok by (auto simp: RegisterTaskGrant_def grants_ok_def Let_def split: sum.split)
next
  case (RevokeOp run)
  then show ?thesis using ok by (simp add: RevokeTaskGrant_def grants_ok_def)
next
  case (DefaultOp d)
  then show ?thesis using ok by (auto simp: SetDefaultDecision_def grants_ok_def split: sum.split)
qed

text \<open>
  Whatever the history of calls on a permission manager, its default decision is never allow,
  the grant cache never exceeds its capacity, and its eviction order lists exactly the cached keys.
\<close>

theorem manager_invariant:
  fixes ops :: "managerOp list" and bp :: string and ps :: PermissionSet and au :: "AuditLogger option" and h :: "HITLProvider option"
  defines "m \<equiv> fold managerStep ops (newManager bp ps au h)"
  shows "effectiveDefaultDecision m \<noteq> DecisionAllow \<and>
         cache_Len (pm_grants m) = length (c_order (pm_grants m)) \<and>
         set (c_order (pm_grants m)) = set (gokeys (c_entries (pm_grants m))) \<and>
         int (cache_Len (pm_grants m)) \<le> grantsCacheCap"
proof -
  have "grants_ok m \<Longrightarrow> grants_ok (fold managerStep ops m)" for m
    by (induction ops arbitrary: m) (simp_all add: grants_ok_step)
  then have "grants_ok m" unfolding m_def using grants_ok_New by blast
  then show ?thesis
    using liveCache_Len [of grantsCacheCap "pm_grants m"]
    by (auto simp: grants_ok_def liveCache_def effectiveDefaultDecision_def)
qed

section \<open>How often a grant authorizes\<close>

text \<open>The outcomes of repeated identical checks, one per entry of \<open>clks\<close>.\<close>

fun approvalRun ::
  "(nat \<Rightarrow> time) list \<Rightarrow> string \<Rightarrow> PermissionDescriptor \<Rightarrow> string \<Rightarrow> PermissionManager \<Rightarrow> bool list" where
  "approvalRun [] ag d s m = []"
| "approvalRun (clk # clks) ag d s m =
     (case RequireApproval clk ag d [] s [] 0 m of
        (err, m') \<Rightarrow> (err = None) # approvalRun clks ag d s m')"

lemma RequireApproval_cached:
  assumes "grants_ok m" and "cachedGrant m (permissionKey d) = Some g" and "IsZero (pg_ExpiresAt g)"
  shows "fst (RequireApproval clk ag d j s r du m) = None"
    and "cachedGrant (snd (RequireApproval clk ag d j s r du m)) (permissionKey d) =
           (if pg_Scope g = GrantScopeOneTime then None else Some g)"
    and "pm_hitl (snd (RequireApproval clk ag d j s r du m)) = pm_hitl m"
  using assms takeGrant_spec [OF assms(1), of clk "permissionKey d"]
  by (auto simp: RequireApproval_unfold grant_Expired_def)

lemma RequireApproval_refused:
  assumes "grants_ok m" and "cachedGrant m (permissionKey d) = None" and "pm_hitl m = None"
  shows "fst (RequireApproval clk ag d j s r du m) \<noteq> None"
    and "cachedGrant (snd (RequireApproval clk ag d j s r du m)) (permissionKey d) = None"
    and "pm_hitl (snd (RequireApproval clk ag d j s r du m)) = None"
  using assms takeGrant_spec [OF assms(1), of clk "permissionKey d"]
  by (auto simp: RequireApproval_unfold askHITL_def split: option.split)

lemma approvalRun_refused:
  "grants_ok m \<Longrightarrow> cachedGrant m (permissionKey d) = None \<Longrightarrow> pm_hitl m = None \<Longrightarrow>
   approvalRun clks ag d s m = replicate (length clks) False"
proof (induction clks arbitrary: m)
  case (Cons clk clks)
  then show ?case
    using RequireApproval_refused [of m d clk ag "[]" s "[]" 0] grants_ok_RequireApproval [of m clk ag d "[]" s "[]" 0]
    by (cases "RequireApproval clk ag d [] s [] 0 m") simp
qed simp

lemma approvalRun_session:
  "grants_ok m \<Longrightarrow> cachedGrant m (permissionKey d) = Some g \<Longrightarrow> IsZero (pg_ExpiresAt g) \<Longrightarrow>
   pg_Scope g \<noteq> GrantScopeOneTime \<Longrightarrow> approvalRun clks ag d s m = replicate (length clks) True"
proof (induction clks arbitrary: m)
  case (Cons clk clks)
  then show ?case
    using RequireApproval_cached [of m d g clk ag "[]" s "[]" 0] grants_ok_RequireApproval [of m clk ag d "[]" s "[]" 0]
    by (cases "RequireApproval clk ag d [] s [] 0 m") simp
qed simp

text \<open>
  \<^bold>\<open>C31.\<close> A cached one-time grant authorizes exactly one check: with no approver to ask again, of any
  number of identical checks the first succeeds and all others fail. A cached grant of another
  scope without expiry authorizes them all.
\<close>

theorem cached_grant_uses:
  assumes "grants_ok m" and "pm_hitl m = None"
    and "cachedGrant m (permissionKey d) = Some g" and "IsZero (pg_ExpiresAt g)"
  shows "approvalRun (clk # clks) ag d s m =
           True # replicate (length clks) (pg_Scope g \<noteq> GrantScopeOneTime)"
proof -
  let ?m = "snd (RequireApproval clk ag d [] s [] 0 m)"
  note first = RequireApproval_cached [OF assms(1,3,4), of clk ag "[]" s "[]" 0]
  have ok: "grants_ok ?m" using assms(1) by (rule grants_ok_RequireApproval)
  have "approvalRun clks ag d s ?m = replicate (length clks) (pg_Scope g \<noteq> GrantScopeOneTime)"
  proof (cases "pg_Scope g = GrantScopeOneTime")
    case True
    with first ok assms(2) show ?thesis by (simp add: approvalRun_refused)
  next
    case False
    with first ok assms(4) show ?thesis by (simp add: approvalRun_session [of ?m d g])
  qed
  with first(1) show ?thesis by (cases "RequireApproval clk ag d [] s [] 0 m") simp
qed

definition noPermissions :: PermissionSet where
  "noPermissions = \<lparr>ps_FileSystem = [], ps_Executables = [], ps_Network = [], ps_Capabilities = [], ps_IPC = [], ps_HITLRequired = []\<rparr>"

abbreviation wNew :: "HITLProvider option \<Rightarrow> PermissionManager" where
  "wNew \<equiv> newManager ''/w'' noPermissions None"

definition wDesc :: PermissionDescriptor where
  "wDesc = \<lparr>dp_Type = ''executable'', dp_Action = ''exec'', dp_Resource = ''git'', dp_Metadata = [],
            dp_RequiresHITL = True\<rparr>"

definition wManager :: PermissionManager where
  "wManager = GrantPermission (\<lambda>_. 5) wDesc ''user'' GrantScopeOneTime 0 (wNew None)"

theorem cached_grant_uses_witness:
  "approvalRun [\<lambda>_. 6, \<lambda>_. 7, \<lambda>_. 8] ''agent'' wDesc [] wManager = [True, False, False]"
proof -
  let ?g = "GrantManual (\<lambda>_. 5) wDesc ''user'' GrantScopeOneTime 0"
  have "grants_ok wManager" "cachedGrant wManager (permissionKey wDesc) = Some ?g" "pm_hitl wManager = None"
    by (simp_all add: wManager_def GrantPermission_def grants_ok_put cachedGrant_put grants_ok_New)
      (simp add: putGrant_def newManager_def Let_def NewCache_def cache_Len_def grantsCacheCap_def)
  then show ?thesis
    using cached_grant_uses [of wManager wDesc ?g "\<lambda>_. 6" "[\<lambda>_. 7, \<lambda>_. 8]" "''agent''" "[]"]
    by (simp add: GrantManual_def IsZero_def)
qed

text \<open>
  One approval with one-time scope serves two checks, not one: the check that asked the
  approver succeeds on the answer, and the answer is cached and also serves the next identical
  check. Only the check after that is refused when the approver is not asked again.
\<close>

theorem one_time_approval_serves_two:
  assumes "grants_ok m" and "cachedGrant m (permissionKey d) = None"
    and "fst (checkHITLRateLimit (clk 3) (clk 4) (permissionKey d) (snd (takeGrant clk (permissionKey d) m))) = None"
    and "pm_hitl m = Some (\<lambda>_. Inr g)"
    and "pg_Scope g = GrantScopeOneTime" and "IsZero (pg_ExpiresAt g)"
  shows "fst (RequireApproval clk ag d [] [] [] 0 m) = None \<and>
         approvalRun [clk1, clk2] ag d [] ((snd (RequireApproval clk ag d [] [] [] 0 m))\<lparr>pm_hitl := None\<rparr>) =
           [True, False]"
proof -
  let ?key = "permissionKey d" and ?g = "g\<lparr>pg_SessionID := ag\<rparr>"
  let ?m1 = "snd (takeGrant clk ?key m)"
  let ?m2 = "snd (checkHITLRateLimit (clk 3) (clk 4) ?key ?m1)"
  let ?m3 = "putGrant (clk 5) ?key ?g ?m2"
  have ok1: "grants_ok ?m1" using assms(1) by (rule takeGrant_spec)
  then have ok2: "grants_ok ?m2" by (simp add: grants_ok_def)
  have ask: "RequireApproval clk ag d [] [] [] 0 m = (None, ?m3)"
    using assms takeGrant_spec [OF assms(1), of clk ?key]
    by (simp add: RequireApproval_unfold askHITL_def)
  let ?m = "?m3\<lparr>pm_hitl := None\<rparr>"
  have m: "grants_ok ?m" "cachedGrant ?m ?key = Some ?g" "pm_hitl ?m = None"
    using grants_ok_put [OF ok2, of "clk 5" ?key ?g] cachedGrant_put [OF ok2, of "clk 5" ?key ?g]
    by (simp_all add: grants_ok_def)
  note use = RequireApproval_cached [OF m(1,2), of clk1 ag "[]" "[]" "[]" 0]
  have "approvalRun [clk2] ag d [] (snd (RequireApproval clk1 ag d [] [] [] 0 ?m)) = [False]"
    using approvalRun_refused [OF grants_ok_RequireApproval [OF m(1), of clk1 ag d "[]" "[]" "[]" 0], of d "[clk2]"]
      use assms(5,6) m(3) by simp
  with ask use(1) assms(6) show ?thesis by (cases "RequireApproval clk1 ag d [] [] [] 0 ?m") simp
qed

theorem one_time_approval_serves_two_witness:
  "\<exists>g m. pg_Scope g = GrantScopeOneTime \<and> m = wNew (Some (\<lambda>_. Inr g)) \<and>
     fst (RequireApproval (\<lambda>_. 6) ''agent'' wDesc [] [] [] 0 m) = None \<and>
     approvalRun [\<lambda>_. 7, \<lambda>_. 8] ''agent'' wDesc []
       ((snd (RequireApproval (\<lambda>_. 6) ''agent'' wDesc [] [] [] 0 m))\<lparr>pm_hitl := None\<rparr>) = [True, False]"
proof -
  let ?g = "GrantManual (\<lambda>_. 5) wDesc ''user'' GrantScopeOneTime 0"
  let ?m = "wNew (Some (\<lambda>_. Inr ?g))"
  have "cachedGrant ?m (permissionKey wDesc) = None"
    by (simp add: newManager_def NewCache_def cacheValue_def)
  moreover have "fst (checkHITLRateLimit 6 6 (permissionKey wDesc) (snd (takeGrant (\<lambda>_. 6) (permissionKey wDesc) ?m))) = None"
    by (simp add: newManager_def NewCache_def takeGrant_def cache_TakeIf_def checkHITLRateLimit_def
        cache_Get_def Let_def)
  ultimately show ?thesis
    using one_time_approval_serves_two [of ?m wDesc "\<lambda>_. 6" ?g "''agent''" "\<lambda>_. 7" "\<lambda>_. 8"] grants_ok_New
    by (intro exI [of _ ?g] exI [of _ ?m])
      (simp add: GrantManual_def IsZero_def newManager_def)
qed

section \<open>Release of a session\<close>

lemma cache_Range_all:
  "c_ttl c \<le> 0 \<Longrightarrow> cache_Range clock (\<lambda>_ _. True) c = map (\<lambda>(k, e). (k, ce_value e)) (c_entries c)"
proof -
  assume ttl: "c_ttl c \<le> 0"
  have "rangeEntries (c_ttl c) clock i (\<lambda>_ _. True) es = map (\<lambda>(k, e). (k, ce_value e)) es" for i es
    using ttl by (induction es arbitrary: i) auto
  then show ?thesis by (simp add: cache_Range_def)
qed

definition sessionKeys :: "string \<Rightarrow> PermissionManager \<Rightarrow> string list" where
  "sessionKeys sid m =
     gokeys (filter (\<lambda>(k, e). pg_SessionID (ce_value e) = sid) (c_entries (pm_grants m)))"

lemma ReleaseSession_keys:
  assumes "grants_ok m" and "sid \<noteq> []"
  shows "ReleaseSession clock sid m =
     (length (sessionKeys sid m), m\<lparr>pm_grants := fold cache_Delete (sessionKeys sid m) (pm_grants m)\<rparr>)"
proof -
  have "map fst (filter (\<lambda>(k, g). pg_SessionID g \<noteq> [] \<and> pg_SessionID g = sid)
      (cache_Range clock (\<lambda>_ _. True) (pm_grants m))) = sessionKeys sid m"
    using assms
    by (auto simp: cache_Range_all grants_ok_def liveCache_def sessionKeys_def filter_map comp_def
        case_prod_beta intro!: arg_cong [where f = "map fst"] filter_cong)
  then show ?thesis unfolding ReleaseSession_def Let_def by (metis length_map)
qed

lemma sessionKeys_iff:
  assumes "grants_ok m"
  shows "k \<in> set (sessionKeys sid m) \<longleftrightarrow> (\<exists>g. cachedGrant m k = Some g \<and> pg_SessionID g = sid)"
  using assms by (force simp: sessionKeys_def cacheValue_def grants_ok_def liveCache_def
      map_of_eq_Some_iff intro: rev_image_eqI)

text \<open>
  Releasing a session deletes exactly the grants issued under it, leaves every other grant in
  place, reports how many it deleted, and finds nothing more when called again.
\<close>

theorem releaseSession_exact:
  assumes "grants_ok m" and "sid \<noteq> []"
  shows "(\<forall>key. cachedGrant (snd (ReleaseSession clock sid m)) key =
            (case cachedGrant m key of None \<Rightarrow> None
             | Some g \<Rightarrow> if pg_SessionID g = sid then None else Some g)) \<and>
         fst (ReleaseSession clock sid m) = card {key. \<exists>g. cachedGrant m key = Some g \<and> pg_SessionID g = sid} \<and>
         fst (ReleaseSession clock' sid (snd (ReleaseSession clock sid m))) = 0"
proof (intro conjI)
  let ?m = "snd (ReleaseSession clock sid m)"
  have live: "liveCache grantsCacheCap (pm_grants m)" using assms(1) by (simp add: grants_ok_def)
  have look: "cachedGrant ?m key = (case cachedGrant m key of None \<Rightarrow> None
      | Some g \<Rightarrow> if pg_SessionID g = sid then None else Some g)" for key
    using sessionKeys_iff [OF assms(1), of key sid]
    by (auto simp: ReleaseSession_keys [OF assms] grantstore.lookup_fold_del [OF live] split: option.split)
  then show "\<forall>key. cachedGrant ?m key = (case cachedGrant m key of None \<Rightarrow> None
      | Some g \<Rightarrow> if pg_SessionID g = sid then None else Some g)" by blast
  have "distinct (sessionKeys sid m)"
    using live unfolding sessionKeys_def by (intro distinct_map_filter) (simp add: liveCache_def)
  then have "length (sessionKeys sid m) = card (set (sessionKeys sid m))" by (simp add: distinct_card)
  also have "set (sessionKeys sid m) = {key. \<exists>g. cachedGrant m key = Some g \<and> pg_SessionID g = sid}"
    using sessionKeys_iff [OF assms(1)] by blast
  finally show "fst (ReleaseSession clock sid m) =
      card {key. \<exists>g. cachedGrant m key = Some g \<and> pg_SessionID g = sid}"
    by (simp add: ReleaseSession_keys [OF assms])
  have ok: "grants_ok ?m"
    using assms(1) by (simp add: ReleaseSession_def grants_ok_def Let_def grantstore.ok_fold_del)
  have "key \<notin> set (sessionKeys sid ?m)" for key
    by (cases "cachedGrant m key") (auto simp: sessionKeys_iff [OF ok] look split: if_splits)
  then have "set (sessionKeys sid ?m) = {}" by (meson equals0I)
  then show "fst (ReleaseSession clock' sid ?m) = 0" by (simp add: ReleaseSession_keys [OF ok assms(2)])
qed

theorem releaseSession_exact_witness:
  "\<exists>m. cachedGrant m ''exec:git'' \<noteq> None \<and> fst (ReleaseSession (\<lambda>_. 0) ''s1'' m) = 1 \<and>
     cachedGrant (snd (ReleaseSession (\<lambda>_. 0) ''s1'' m)) ''exec:git'' = None \<and>
     fst (ReleaseSession (\<lambda>_. 9) ''s1'' (snd (ReleaseSession (\<lambda>_. 0) ''s1'' m))) = 0"
proof -
  let ?g = "(GrantManual (\<lambda>_. 5) wDesc ''user'' GrantScopeSession 0)\<lparr>pg_SessionID := ''s1''\<rparr>"
  let ?m = "putGrant 5 ''exec:git'' ?g (wNew None)"
  have ok: "grants_ok ?m" by (simp add: grants_ok_put grants_ok_New)
  have g: "cachedGrant ?m ''exec:git'' = Some ?g" by (simp add: cachedGrant_put grants_ok_New)
  have "c_entries (pm_grants ?m) = [(''exec:git'', \<lparr>ce_value = ?g, ce_insertedAt = 5\<rparr>)]"
    by (simp add: putGrant_def Let_def newManager_def NewCache_def cache_Put_def grantsCacheCap_def
        cache_Len_def evictOldest.simps)
  then have "{key. \<exists>g. cachedGrant ?m key = Some g \<and> pg_SessionID g = ''s1''} = {''exec:git''}"
    by (auto simp: cacheValue_def)
  then show ?thesis
    using releaseSession_exact [OF ok, of "''s1''" "\<lambda>_. 0" "\<lambda>_. 9"] g
    by (intro exI [of _ ?m]) simp
qed

section \<open>The rate limit on requests to the approver\<close>

text \<open>The answers of a run of requests for one key, with the readings of the manager's clock and of
  the cache's clock for each.\<close>

fun rateRun :: "(time \<times> time) list \<Rightarrow> string \<Rightarrow> PermissionManager \<Rightarrow> bool list" where
  "rateRun [] key m = []"
| "rateRun ((now, cnow) # ts) key m =
     (case checkHITLRateLimit now cnow key m of (err, m') \<Rightarrow> (err = None) # rateRun ts key m')"

text \<open>The bucket of a key in the window that opened at \<open>w\<close>, stored at the cache time \<open>cw\<close>.\<close>

definition bucketAt :: "string \<Rightarrow> int \<Rightarrow> time \<Rightarrow> time \<Rightarrow> PermissionManager \<Rightarrow> bool" where
  "bucketAt key n w cw m \<longleftrightarrow>
     c_ttl (pm_hitlRateLimits m) = hitlRateEntryTTL \<and>
     map_of (c_entries (pm_hitlRateLimits m)) key =
       Some \<lparr>ce_value = \<lparr>rb_count = n, rb_windowAt = w\<rparr>, ce_insertedAt = cw\<rparr>"

lemma rate_step:
  assumes "bucketAt key n w cw m" and "now - w < hitlRateWindow" "w \<le> now"
    and "cnow - cw < hitlRateEntryTTL" "cw \<le> cnow"
  shows "fst (checkHITLRateLimit now cnow key m) = None \<longleftrightarrow> n < hitlRateMax"
    and "bucketAt key (n + 1) w cw (snd (checkHITLRateLimit now cnow key m))"
proof -
  have "time_Sub now w < hitlRateWindow" "time_Sub cnow cw < hitlRateEntryTTL"
    using assms by (simp_all add: time_Sub_def minInt64_def maxInt64_def hitlRateWindow_def hitlRateEntryTTL_def)
  with assms(1) show "fst (checkHITLRateLimit now cnow key m) = None \<longleftrightarrow> n < hitlRateMax"
    and "bucketAt key (n + 1) w cw (snd (checkHITLRateLimit now cnow key m))"
    by (auto simp: bucketAt_def checkHITLRateLimit_def cache_Get_def expiredLocked_def setInPlace_def Let_def)
qed

lemma rateRun_bucket:
  assumes "bucketAt key n w cw m"
    and "\<forall>(now, cnow) \<in> set ts. w \<le> now \<and> now - w < hitlRateWindow \<and> cw \<le> cnow \<and> cnow - cw < hitlRateEntryTTL"
  shows "rateRun ts key m = map (\<lambda>i. n + int i < hitlRateMax) [0..<length ts]"
  using assms
proof (induction ts arbitrary: n m)
  case (Cons t ts)
  obtain now cnow where t: "t = (now, cnow)" by fastforce
  note step = rate_step [OF Cons.prems(1), of now cnow]
  have "rateRun ts key (snd (checkHITLRateLimit now cnow key m)) =
      map (\<lambda>i. n + int (Suc i) < hitlRateMax) [0..<length ts]"
    using Cons step t by (simp add: algebra_simps)
  moreover have "[0..<length (t # ts)] = 0 # map Suc [0..<length ts]"
    by (simp add: map_Suc_upt upt_conv_Cons del: upt_Suc)
  ultimately show ?case
    using step(1) Cons.prems(2) t by (cases "checkHITLRateLimit now cnow key m") (simp add: comp_def del: upt_Suc)
qed simp

text \<open>No bucket for the key, in the map or as a stale entry of the eviction order.\<close>

definition bucket_fresh :: "string \<Rightarrow> PermissionManager \<Rightarrow> bool" where
  "bucket_fresh key m \<longleftrightarrow> c_ttl (pm_hitlRateLimits m) = hitlRateEntryTTL \<and> 0 < c_cap (pm_hitlRateLimits m) \<and>
     map_of (c_entries (pm_hitlRateLimits m)) key = None \<and> key \<notin> set (c_order (pm_hitlRateLimits m))"

text \<open>
  Within one window of a minute the approver is asked at most ten times for one key: of any
  number of requests after the window opens, the first ten pass and every later one is rejected.
\<close>

theorem hitl_rate_limit:
  assumes "bucket_fresh key m"
    and "\<forall>(now, cnow) \<in> set ts. w \<le> now \<and> now - w < hitlRateWindow \<and> cw \<le> cnow \<and> cnow - cw < hitlRateEntryTTL"
  shows "rateRun ((w, cw) # ts) key m = map (\<lambda>i. int i < hitlRateMax) [0..<length ((w, cw) # ts)]"
proof -
  have "fst (checkHITLRateLimit w cw key m) = None" "bucketAt key 1 w cw (snd (checkHITLRateLimit w cw key m))"
    using assms(1)
    by (auto simp: bucket_fresh_def checkHITLRateLimit_def cache_Get_def bucketAt_def cache_Put_def Let_def
        evictOldest_keeps_newest)
  moreover have "[0..<length ((w, cw) # ts)] = 0 # map Suc [0..<length ts]"
    by (simp add: map_Suc_upt upt_conv_Cons del: upt_Suc)
  ultimately show ?thesis
    using rateRun_bucket [of key 1 w cw "snd (checkHITLRateLimit w cw key m)" ts] assms(2)
    by (cases "checkHITLRateLimit w cw key m") (simp add: comp_def hitlRateMax_def algebra_simps del: upt_Suc)
qed

theorem hitl_rate_limit_witness:
  "rateRun ((5, 5) # replicate 11 (6, 6)) ''exec:git'' (wNew None) = replicate 10 True @ [False, False]"
proof -
  have "bucket_fresh ''exec:git'' (wNew None)"
    by (simp add: bucket_fresh_def newManager_def NewCache_def hitlRateCacheCap_def)
  then show ?thesis
    using hitl_rate_limit [of "''exec:git''" "wNew None" "replicate 11 (6, 6)" 5 5]
    by (simp add: hitlRateWindow_def hitlRateEntryTTL_def hitlRateMax_def upt_rec numeral_eq_Suc)
qed

section \<open>Task grants\<close>

definition normTag :: "string \<Rightarrow> string" where
  "normTag tag = ToLower (TrimSpace tag)"

lemma collectTags_spec:
  "collectTags tags acc =
     (if ''*'' \<in> normTag ` set tags then Inl (Err ''wildcard task grants are not allowed'')
      else Inr (fold List.insert (filter (\<lambda>t. t \<noteq> []) (map normTag tags)) acc))"
  by (induction tags acc rule: collectTags.induct) (auto simp: Let_def simp flip: normTag_def)

lemma set_fold_insert: "set (fold List.insert xs acc) = set acc \<union> set xs"
  by (induction xs arbitrary: acc) auto

text \<open>
  A task grant authorizes the tools that carry one of its tags and no others: when
  \<open>RegisterTaskGrant\<close> succeeds, a tool is allowed for that run exactly if one of its tags is, up to
  case and blanks, an approved non-blank tag; other runs keep the answer they had; a wildcard tag
  is refused; and after \<open>RevokeTaskGrant\<close> nothing is allowed for the run.
\<close>

theorem task_grant_exact:
  assumes "RegisterTaskGrant run approved m = (None, m')" and "TrimSpace run = run"
  shows "(toolAllowedByTaskGrant run tags m' \<longleftrightarrow>
            (\<exists>t \<in> set tags. normTag t \<noteq> [] \<and> normTag t \<in> normTag ` set approved)) \<and>
         ''*'' \<notin> normTag ` set approved \<and>
         (other \<noteq> run \<longrightarrow> toolAllowedByTaskGrant other tags m' = toolAllowedByTaskGrant other tags m) \<and>
         \<not> toolAllowedByTaskGrant run tags (RevokeTaskGrant run m')"
proof -
  let ?tags = "fold List.insert (filter (\<lambda>t. t \<noteq> []) (map normTag approved)) []"
  have run: "run \<noteq> []" and star: "''*'' \<notin> normTag ` set approved"
    and m': "m' = m\<lparr>pm_taskGrants := AList.update run \<lparr>tgr_runID = run, tgr_approvedTags = ?tags\<rparr> (pm_taskGrants m)\<rparr>"
    using assms by (auto simp: RegisterTaskGrant_def collectTags_spec Let_def split: if_splits)
  have "toolAllowedByTaskGrant run tags m' \<longleftrightarrow>
      (\<exists>t \<in> set tags. normTag t \<noteq> [] \<and> normTag t \<in> normTag ` set approved)"
    using run assms(2)
    by (auto simp: toolAllowedByTaskGrant_def m' set_fold_insert list_ex_iff Let_def simp flip: normTag_def)
  moreover have "\<not> toolAllowedByTaskGrant run tags (RevokeTaskGrant run m')"
    using assms(2) by (simp add: toolAllowedByTaskGrant_def RevokeTaskGrant_def m')
  ultimately show ?thesis using star by (simp add: toolAllowedByTaskGrant_def m')
qed

theorem task_grant_exact_witness:
  "\<exists>m'. RegisterTaskGrant ''run-1'' ['' Lang:Go''] (wNew None) = (None, m') \<and>
     toolAllowedByTaskGrant ''run-1'' [''lang:go'', ''x''] m' \<and>
     \<not> toolAllowedByTaskGrant ''run-1'' [''lang:go''] (RevokeTaskGrant ''run-1'' m')"
proof -
  let ?r = "RegisterTaskGrant ''run-1'' ['' Lang:Go''] (wNew None)"
  have "fst ?r = None" by code_simp
  then have r: "?r = (None, snd ?r)" by (metis prod.collapse)
  have run: "TrimSpace ''run-1'' = ''run-1''" by code_simp
  have "normTag ''lang:go'' \<noteq> [] \<and> normTag ''lang:go'' \<in> normTag ` set ['' Lang:Go'']" by code_simp
  then show ?thesis
    using task_grant_exact [OF r run, of "[''lang:go'', ''x'']" "''run-2''"]
      task_grant_exact [OF r run, of "[''lang:go'']" "''run-2''"] r
    by (intro exI [of _ "snd ?r"]) auto
qed

end
