(* ===== verification/PolicyEngine.thy ===== *)
theory PolicyEngine
  imports PolicyMatch Grants
begin

text \<open>
  Compilation of an agent's policies into rules (\<open>policy_compile.go\<close>), the manifest policy engine
  with its fallbacks (\<open>policy_engine.go\<close>) and enforcement of its decisions
  (\<open>policy_enforcement.go\<close>), all of \<open>governance/authorization\<close>.

  The Go maps of a policy input are association lists in the order of their iteration; Go does
  not fix that order. The telemetry that \<open>Evaluate\<close> emits is part of its result.
\<close>

section \<open>Policy input\<close>

record CapabilitySelectorView =
  cs_ID :: string
  cs_Name :: string
  cs_Kind :: string
  cs_RuntimeFamilies :: "string list"
  cs_Tags :: "string list"
  cs_ExcludeTags :: "string list"
  cs_SourceScopes :: "string list"
  cs_TrustClasses :: "string list"
  cs_RiskClasses :: "string list"
  cs_EffectClasses :: "string list"
  cs_CoordinationTaskTypes :: "string list"
  cs_CoordinationRoles :: "string list"
  cs_CoordinationExecModes :: "string list"
  cs_CoordinationLongRunning :: int
  cs_CoordinationDirectInsertion :: int

record ToolPolicyView =
  tp_Execute :: string

record CapabilityPolicyView =
  cp_Selector :: CapabilitySelectorView
  cp_Execute :: string

record ProviderPolicyView =
  pp_Activate :: string
  pp_DefaultTrust :: string
  pp_AllowCredentialShare :: bool

text \<open>A session policy view has the fields of \<open>SessionPolicy\<close>, which the compiler copies one by one;
  the model uses that record for both.\<close>

record PolicyInput =
  in_ToolExecutionPolicy :: "(string \<times> ToolPolicyView) list"
  in_CapabilityPolicies :: "CapabilityPolicyView list"
  in_ProviderPolicies :: "(string \<times> ProviderPolicyView) list"
  in_SessionPolicies :: "SessionPolicy list"
  in_GlobalPolicies :: "(string \<times> string) list"

section \<open>Compilation\<close>

definition policyPriorityGlobal :: int where "policyPriorityGlobal = 100"
definition policyPriorityTool :: int where "policyPriorityTool = 300"
definition policyPrioritySession :: int where "policyPrioritySession = 400"
definition policyPriorityProvider :: int where "policyPriorityProvider = 500"

definition noConditions :: PolicyConditions where
  "noConditions =
     \<lparr>pc_Actors = [], pc_Capabilities = [], pc_ExportNames = [], pc_SourceDomains = [], pc_ContextClasses = [],
      pc_SensitivityClasses = [], pc_RouteModes = [], pc_ProviderKinds = [], pc_ExternalProviders = [],
      pc_MinRiskClasses = [], pc_TrustClasses = [], pc_CapabilityKinds = [], pc_RuntimeFamilies = [],
      pc_EffectClasses = [], pc_Partitions = [], pc_ChannelIDs = [], pc_SessionScopes = [],
      pc_SessionOperations = [], pc_RequireOwnership = None, pc_RequireDelegation = None,
      pc_RequireExternalBinding = None, pc_RequireResolvedExternal = None, pc_RequireRestrictedExternal = None,
      pc_TimeWindow = None\<rparr>"

definition permissionLevelToAction :: "string \<Rightarrow> string" where
  "permissionLevelToAction level =
     (case ParseDecision level of
        Inl err \<Rightarrow> ''require_approval''
      | Inr decision \<Rightarrow>
          if decision = DecisionAllow then DecisionAllow
          else if decision = DecisionDeny then DecisionDeny
          else ''require_approval'')"

definition permissionLevelToEffect :: "string \<Rightarrow> string \<Rightarrow> PolicyEffect" where
  "permissionLevelToEffect level reason =
     \<lparr>pe_Action = permissionLevelToAction level, pe_Approvers = [], pe_ApprovalTTL = [], pe_RateLimit = None,
      pe_Reason = reason\<rparr>"

definition toRiskClasses :: "string list \<Rightarrow> RiskClass list" where
  "toRiskClasses values = map NormalizeClassString values"

definition toEffectClasses :: "string list \<Rightarrow> EffectClass list" where
  "toEffectClasses values = map NormalizeClassString values"

definition compileCapabilitySelector :: "CapabilitySelectorView \<Rightarrow> goerr + PolicyConditions" where
  "compileCapabilitySelector s =
     (if cs_ExcludeTags s \<noteq> [] \<or> cs_Tags s \<noteq> [] \<or> cs_SourceScopes s \<noteq> [] \<or> cs_CoordinationRoles s \<noteq> [] \<or>
         cs_CoordinationTaskTypes s \<noteq> [] \<or> cs_CoordinationExecModes s \<noteq> [] \<or>
         cs_CoordinationLongRunning s \<noteq> 0 \<or> cs_CoordinationDirectInsertion s \<noteq> 0
      then Inl (Err ''selector fields require descriptor-time evaluation'')
      else Inr (noConditions
        \<lparr>pc_TrustClasses := cs_TrustClasses s,
         pc_MinRiskClasses := toRiskClasses (cs_RiskClasses s),
         pc_RuntimeFamilies := cs_RuntimeFamilies s,
         pc_EffectClasses := toEffectClasses (cs_EffectClasses s),
         pc_Capabilities := (if cs_ID s \<noteq> [] then [cs_ID s] else []) @ (if cs_Name s \<noteq> [] then [cs_Name s] else []),
         pc_CapabilityKinds := (if cs_Kind s \<noteq> [] then [cs_Kind s] else [])\<rparr>))"

definition compileToolExecutionPolicy :: "string \<Rightarrow> ToolPolicyView \<Rightarrow> PolicyRule option" where
  "compileToolExecutionPolicy toolName policy =
     (if TrimSpace toolName = [] \<or> tp_Execute policy = [] then None
      else Some \<lparr>pr_ID = ''tool:'' @ toolName, pr_Name = ''Tool policy for '' @ toolName,
        pr_Priority = policyPriorityTool, pr_Enabled = True,
        pr_Conditions = noConditions\<lparr>pc_Capabilities := [toolName], pc_CapabilityKinds := [''tool''],
                                     pc_RuntimeFamilies := [''local-tool'']\<rparr>,
        pr_Effect = permissionLevelToEffect (tp_Execute policy) []\<rparr>)"

definition compileCapabilityPolicy :: "nat \<Rightarrow> CapabilityPolicyView \<Rightarrow> goerr + PolicyRule" where
  "compileCapabilityPolicy index policy =
     (case compileCapabilitySelector (cp_Selector policy) of
        Inl err \<Rightarrow> Inl (Wrap (''capability_policies['' @ dec index @ ''] unsupported selector: '') err)
      | Inr conditions \<Rightarrow>
          Inr \<lparr>pr_ID = ''capability-policy:'' @ dec index, pr_Name = ''Capability policy '' @ dec index,
            pr_Priority = policyPriorityTool + int index, pr_Enabled = True, pr_Conditions = conditions,
            pr_Effect = permissionLevelToEffect (cp_Execute policy) []\<rparr>)"

definition compileProviderPolicy :: "string \<Rightarrow> ProviderPolicyView \<Rightarrow> PolicyRule option" where
  "compileProviderPolicy providerID policy =
     (if TrimSpace providerID = [] \<or> pp_Activate policy = [] then None
      else Some \<lparr>pr_ID = ''provider:'' @ providerID @ '':activate'',
        pr_Name = ''Provider activation policy for '' @ providerID,
        pr_Priority = policyPriorityProvider, pr_Enabled = True,
        pr_Conditions = noConditions\<lparr>pc_Capabilities := [''provider:'' @ providerID @ '':activate'']\<rparr>,
        pr_Effect = permissionLevelToEffect (pp_Activate policy) []\<rparr>)"

definition sessionActors :: "SessionSelector \<Rightarrow> ActorMatch list" where
  "sessionActors s =
     (if ss_ActorKinds s \<noteq> [] \<or> ss_ActorIDs s \<noteq> [] \<or> ss_AuthenticatedOnly s \<noteq> None
      then [\<lparr>am_Kind = (if ss_ActorKinds s \<noteq> [] then ss_ActorKinds s ! 0 else []),
             am_IDs = ss_ActorIDs s,
             am_Authenticated = (case ss_AuthenticatedOnly s of None \<Rightarrow> False | Some b \<Rightarrow> b)\<rparr>]
      else [])"

definition compileSessionPolicy :: "nat \<Rightarrow> SessionPolicy \<Rightarrow> goerr + PolicyRule" where
  "compileSessionPolicy index p =
     (case ValidateSessionPolicy p of
        Some err \<Rightarrow> Inl err
      | None \<Rightarrow>
          let s = sp_Selector p in
          Inr \<lparr>pr_ID = sp_ID p, pr_Name = sp_Name p,
            pr_Priority = wrap64 (policyPrioritySession + sp_Priority p),
            pr_Enabled = sp_Enabled p,
            pr_Conditions = noConditions
              \<lparr>pc_TrustClasses := ss_TrustClasses s, pc_Partitions := ss_Partitions s,
               pc_ChannelIDs := ss_ChannelIDs s, pc_SessionScopes := ss_Scopes s,
               pc_SessionOperations := ss_Operations s, pc_ExternalProviders := ss_ExternalProviders s,
               pc_RequireOwnership := ss_RequireOwnership s, pc_RequireDelegation := ss_RequireDelegation s,
               pc_RequireExternalBinding := ss_RequireExternalBinding s,
               pc_RequireResolvedExternal := ss_RequireResolvedExternal s,
               pc_RequireRestrictedExternal := ss_RequireRestrictedExternal s,
               pc_Actors := sessionActors s\<rparr>,
            pr_Effect = \<lparr>pe_Action = permissionLevelToAction (sp_Effect p), pe_Approvers = sp_Approvers p,
              pe_ApprovalTTL = sp_ApprovalTTL p, pe_RateLimit = None, pe_Reason = sp_Reason p\<rparr>\<rparr>)"

definition globalConditions :: "string \<Rightarrow> PolicyConditions option" where
  "globalConditions key =
     (if key \<in> {''builtin-trusted'', ''workspace-trusted'', ''provider-local-untrusted'',
                ''remote-declared-untrusted'', ''remote-approved''}
      then Some (noConditions\<lparr>pc_TrustClasses := [key]\<rparr>)
      else if key \<in> {RiskClassReadOnly, RiskClassDestructive, RiskClassExecute, RiskClassNetwork,
                     RiskClassCredentialed, RiskClassExfiltration, RiskClassSessioned}
      then Some (noConditions\<lparr>pc_MinRiskClasses := [NormalizeClassString key]\<rparr>)
      else if key \<in> {''local-tool'', ''provider'', ''relurpic''}
      then Some (noConditions\<lparr>pc_RuntimeFamilies := [key]\<rparr>)
      else if key \<in> {EffectClassFilesystemMutation, EffectClassProcessSpawn, EffectClassNetworkEgress,
                     EffectClassCredentialUse, EffectClassExternalState, EffectClassSessionCreation,
                     EffectClassContextInsertion}
      then Some (noConditions\<lparr>pc_EffectClasses := [NormalizeClassString key]\<rparr>)
      else None)"

definition compileGlobalPolicy :: "string \<Rightarrow> string \<Rightarrow> goerr + PolicyRule" where
  "compileGlobalPolicy key level =
     (let key = TrimSpace (ToLower key) in
      if key = [] \<or> key = ''default_tool_policy'' \<or> level = [] then Inl (Err ''invalid global policy key or level'')
      else case globalConditions key of
        None \<Rightarrow> Inl (Err (''unsupported global policy class '' @ [CHR 0x22] @ key @ [CHR 0x22]))
      | Some conditions \<Rightarrow>
          Inr \<lparr>pr_ID = ''global:'' @ key, pr_Name = ''Global policy for '' @ key,
            pr_Priority = policyPriorityGlobal, pr_Enabled = True, pr_Conditions = conditions,
            pr_Effect = permissionLevelToEffect level []\<rparr>)"

text \<open>The loops that collect rules: a policy that compiles to nothing is skipped, one that fails
  ends the compilation.\<close>

fun collectRules :: "(goerr + PolicyRule) list \<Rightarrow> goerr + PolicyRule list" where
  "collectRules [] = Inr []"
| "collectRules (Inl err # rs) = Inl err"
| "collectRules (Inr rule # rs) = (case collectRules rs of Inl err \<Rightarrow> Inl err | Inr rules \<Rightarrow> Inr (rule # rules))"

definition ruleOrder :: "PolicyRule \<Rightarrow> int \<times> string" where
  "ruleOrder r = (- pr_Priority r, pr_ID r)"

definition compiledPolicies :: "PolicyInput \<Rightarrow> (goerr + PolicyRule) list" where
  "compiledPolicies spec =
     map Inr (List.map_filter (\<lambda>(n, p). compileToolExecutionPolicy n p) (in_ToolExecutionPolicy spec)) @
     map (\<lambda>(i, p). compileCapabilityPolicy i p) (enumerate 0 (in_CapabilityPolicies spec)) @
     map Inr (List.map_filter (\<lambda>(n, p). compileProviderPolicy n p) (in_ProviderPolicies spec)) @
     map (\<lambda>(i, p). compileSessionPolicy i p) (enumerate 0 (in_SessionPolicies spec)) @
     map (\<lambda>(k, l). compileGlobalPolicy k l) (in_GlobalPolicies spec)"

definition CompileAgentSpecPolicyRules :: "PolicyInput option \<Rightarrow> goerr + PolicyRule list" where
  "CompileAgentSpecPolicyRules spec =
     (case spec of
        None \<Rightarrow> Inr []
      | Some spec \<Rightarrow>
          (case collectRules (compiledPolicies spec) of
             Inl err \<Rightarrow> Inl err
           | Inr rules \<Rightarrow> Inr (sort_key ruleOrder rules)))"

section \<open>The engine\<close>

record ManifestPolicyEngine =
  en_agentID :: string
  en_manager :: "PermissionManager option"
  en_rules :: "PolicyRule list"

definition FromAgentSpecWithConfig ::
  "PolicyInput option \<Rightarrow> string \<Rightarrow> PermissionManager option \<Rightarrow> goerr + ManifestPolicyEngine" where
  "FromAgentSpecWithConfig spec agentID manager =
     (case CompileAgentSpecPolicyRules spec of
        Inl err \<Rightarrow> Inl err
      | Inr rules \<Rightarrow> Inr \<lparr>en_agentID = agentID, en_manager = manager, en_rules = rules\<rparr>)"

definition permissionActionForRequest :: "PolicyRequest \<Rightarrow> string" where
  "permissionActionForRequest req =
     (if rq_CapabilityName req \<noteq> [] then rq_CapabilityName req
      else if rq_CapabilityID req \<noteq> [] then rq_CapabilityID req
      else if rq_Target req = PolicyTargetResume \<and> rq_ExportName req \<noteq> [] then ''resume:'' @ rq_ExportName req
      else if rq_Target req = PolicyTargetSession then ''session:'' @ rq_SessionOperation req
      else if rq_Target req = PolicyTargetProvider then ''provider''
      else ''capability'')"

definition permissionResourceForRequest :: "PolicyRequest \<Rightarrow> string" where
  "permissionResourceForRequest req =
     (if rq_LineageID req \<noteq> [] then rq_LineageID req
      else if rq_CapabilityID req \<noteq> [] then rq_CapabilityID req
      else if rq_SessionID req \<noteq> [] then rq_SessionID req
      else if ea_ID (rq_Actor req) \<noteq> [] then ea_ID (rq_Actor req)
      else [])"

definition capabilityFallbackDecision ::
  "ManifestPolicyEngine \<Rightarrow> PermissionManager \<Rightarrow> PolicyRequest \<Rightarrow> PolicyDecision" where
  "capabilityFallbackDecision e manager req =
     (if rq_TrustClass req = ''builtin-trusted'' \<or> rq_TrustClass req = ''workspace-trusted''
      then PolicyDecisionAllow ''workspace trusted''
      else let d = effectiveDefaultDecision manager in
        if d = DecisionAllow then PolicyDecisionAllow ''default policy: allow''
        else if d = DecisionDeny
        then PolicyDecisionDeny (''capability '' @ [CHR 0x22] @ rq_CapabilityName req @ [CHR 0x22] @
               '' denied by default policy for agent '' @ en_agentID e)
        else PolicyDecisionRequireApproval None)"

definition providerFallbackDecision :: "PolicyRequest \<Rightarrow> PolicyDecision" where
  "providerFallbackDecision req =
     (if rq_ProviderKind req = ''builtin'' \<or> rq_ProviderKind req = ''agent-runtime''
      then PolicyDecisionAllow ''provider kind trusted by default''
      else if rq_ProviderOrigin req = ''remote'' then PolicyDecisionRequireApproval None
      else PolicyDecisionAllow ''provider allowed by default'')"

definition sessionFallbackDecision ::
  "ManifestPolicyEngine \<Rightarrow> PermissionManager \<Rightarrow> PolicyRequest \<Rightarrow> PolicyDecision" where
  "sessionFallbackDecision e manager req =
     (if rq_RestrictedExternal req then PolicyDecisionRequireApproval None
      else if \<not> rq_IsOwner req \<and> \<not> rq_IsDelegated req
      then PolicyDecisionDeny ''session access requires ownership or explicit delegation''
      else capabilityFallbackDecision e manager req)"

definition resumeFallbackDecision ::
  "ManifestPolicyEngine \<Rightarrow> PermissionManager \<Rightarrow> PolicyRequest \<Rightarrow> PolicyDecision" where
  "resumeFallbackDecision e manager req =
     (if \<not> rq_IsOwner req \<and> \<not> rq_IsDelegated req
      then PolicyDecisionDeny ''resume requires ownership or explicit delegation''
      else if rq_RestrictedExternal req then PolicyDecisionRequireApproval None
      else capabilityFallbackDecision e manager req)"

definition fallbackDecision ::
  "ManifestPolicyEngine \<Rightarrow> PermissionManager \<Rightarrow> PolicyRequest \<Rightarrow> PolicyDecision" where
  "fallbackDecision e manager req =
     (if rq_Target req = PolicyTargetProvider then providerFallbackDecision req
      else if rq_Target req = PolicyTargetSession then sessionFallbackDecision e manager req
      else if rq_Target req = PolicyTargetResume then resumeFallbackDecision e manager req
      else capabilityFallbackDecision e manager req)"

text \<open>What the engine hands to the decision sink of its manager.\<close>

datatype policyEvent =
    PolicyEvaluated string string string string string
  | PolicyConflictShadowed string string string string

definition emitDecision :: "ManifestPolicyEngine \<Rightarrow> PolicyRequest \<Rightarrow> PolicyDecision \<Rightarrow> policyEvent list" where
  "emitDecision e req d =
     (if en_manager e = None then []
      else [PolicyEvaluated (case pd_Rule d of None \<Rightarrow> [] | Some r \<Rightarrow> pr_ID r) (pd_Effect d) (pd_Reason d)
              (en_agentID e) (permissionActionForRequest req)])"

definition emitShadowedConflicts :: "ManifestPolicyEngine \<Rightarrow> shadowedRule list \<Rightarrow> policyEvent list" where
  "emitShadowedConflicts e shadowed =
     (if en_manager e = None then []
      else map (\<lambda>s. PolicyConflictShadowed (pr_ID (sh_Winner s)) (pr_ID (sh_Shadowed s))
                      (pe_Action (pr_Effect (sh_Shadowed s))) (en_agentID e)) shadowed)"

definition policyEngineUnavailable :: string where
  "policyEngineUnavailable = ''policy engine unavailable''"

definition Evaluate ::
  "time \<Rightarrow> ManifestPolicyEngine option \<Rightarrow> PolicyRequest \<Rightarrow> (PolicyDecision \<times> goerr option) \<times> policyEvent list" where
  "Evaluate now e req =
     (let unavailable = ((PolicyDecisionDeny policyEngineUnavailable, Some (Err policyEngineUnavailable)), []) in
      case e of
        None \<Rightarrow> unavailable
      | Some e \<Rightarrow>
          (case evaluateCompiledRules now (en_rules e) req of
             (Some decision, shadowed) \<Rightarrow>
               ((decision, None), emitDecision e req decision @ emitShadowedConflicts e shadowed)
           | (None, shadowed) \<Rightarrow>
               (case en_manager e of
                  None \<Rightarrow> unavailable
                | Some manager \<Rightarrow>
                    let decision = fallbackDecision e manager req
                    in ((decision, None), emitDecision e req decision))))"

section \<open>Enforcement\<close>

record ApprovalRequest =
  ar_AgentID :: string
  ar_Manager :: "PermissionManager option"
  ar_Permission :: PermissionDescriptor
  ar_Justification :: string
  ar_Scope :: string
  ar_Risk :: string
  ar_Duration :: int
  ar_MissingManagerErr :: string
  ar_DenyReasonFallback :: string

definition EvaluatePolicyRequest ::
  "time \<Rightarrow> ManifestPolicyEngine option \<Rightarrow> PolicyRequest \<Rightarrow> PolicyDecision \<times> goerr option" where
  "EvaluatePolicyRequest now engine req =
     (if engine = None then (PolicyDecisionDeny policyEngineUnavailable, Some (Err policyEngineUnavailable))
      else fst (Evaluate now engine req))"

text \<open>\<open>evaluated\<close> is what \<open>EvaluatePolicyRequest\<close> returned: the engine is an interface, and the
  switch below treats every decision an implementation may give. The result carries the
  manager as the approval left it.\<close>

definition enforceDecision ::
  "(nat \<Rightarrow> time) \<Rightarrow> string \<Rightarrow> PolicyDecision \<times> goerr option \<Rightarrow> ApprovalRequest \<Rightarrow>
   (PolicyDecision \<times> goerr option) \<times> PermissionManager option" where
  "enforceDecision clk ctxAgent evaluated approval =
     (case evaluated of (decision, err) \<Rightarrow>
        if err \<noteq> None then ((decision, err), ar_Manager approval)
        else if pd_Effect decision = ''allow'' then ((decision, None), ar_Manager approval)
        else if pd_Effect decision = [] then
          ((decision\<lparr>pd_Effect := ''deny'', pd_Reason := ''empty policy effect''\<rparr>,
            Some (Err ''empty policy effect'')), ar_Manager approval)
        else if pd_Effect decision = ''deny'' then
          (let reason = pd_Reason decision;
               reason = (if reason = [] then ar_DenyReasonFallback approval else reason);
               reason = (if reason = [] then ''denied by policy'' else reason)
           in ((decision, Some (Err reason)), ar_Manager approval))
        else if pd_Effect decision = ''require_approval'' then
          (case ar_Manager approval of
             None \<Rightarrow>
               (let reason = (if ar_MissingManagerErr approval = []
                              then ''approval required but permission manager unavailable''
                              else ar_MissingManagerErr approval)
                in ((decision, Some (Err reason)), None))
           | Some manager \<Rightarrow>
               (case RequireApproval clk ctxAgent (ar_Permission approval) (ar_Justification approval)
                       (ar_Scope approval) (ar_Risk approval) (ar_Duration approval) manager of
                  (err, manager') \<Rightarrow> ((decision, err), Some manager')))
        else ((decision, Some (Err (''unsupported policy effect '' @ [CHR 0x22] @ pd_Effect decision @ [CHR 0x22]))),
              ar_Manager approval))"

definition EnforcePolicyRequest ::
  "(nat \<Rightarrow> time) \<Rightarrow> string \<Rightarrow> time \<Rightarrow> ManifestPolicyEngine option \<Rightarrow> PolicyRequest \<Rightarrow> ApprovalRequest \<Rightarrow>
   (PolicyDecision \<times> goerr option) \<times> PermissionManager option" where
  "EnforcePolicyRequest clk ctxAgent now engine req approval =
     enforceDecision clk ctxAgent (EvaluatePolicyRequest now engine req) approval"

section \<open>What enforcement permits\<close>

text \<open>
  \<^bold>\<open>C1.\<close> Enforcement fails closed: a request goes through (no error) exactly if evaluation gave no
  error and either an allow, or a require-approval that the permission manager of the call then
  granted. A missing engine, a missing manager, an empty, unknown or denying effect all give an
  error.
\<close>

theorem enforce_permits_iff:
  "snd (fst (EnforcePolicyRequest clk ag now engine req approval)) = None \<longleftrightarrow>
     snd (EvaluatePolicyRequest now engine req) = None \<and>
     (pd_Effect (fst (EvaluatePolicyRequest now engine req)) = ''allow'' \<or>
      pd_Effect (fst (EvaluatePolicyRequest now engine req)) = ''require_approval'' \<and>
      (\<exists>m. ar_Manager approval = Some m \<and>
           fst (RequireApproval clk ag (ar_Permission approval) (ar_Justification approval) (ar_Scope approval)
                  (ar_Risk approval) (ar_Duration approval) m) = None))"
  by (auto simp: EnforcePolicyRequest_def enforceDecision_def Let_def split: prod.split option.split)

lemma Evaluate_rules:
  "fst (evaluateCompiledRules now (en_rules e) req) = Some d \<Longrightarrow> fst (Evaluate now (Some e) req) = (d, None)"
  by (auto simp: Evaluate_def Let_def split: prod.split option.split)

text \<open>
  \<^bold>\<open>C2.\<close> A deny rule cannot be outvoted: when an enabled rule of the engine matches the request and its
  action is deny, or is no known action, enforcement returns an error and leaves the permission
  manager untouched, whatever the other rules, their priorities, the cached approvals and the trust class of the
  target. The comment of \<open>Evaluate\<close> says that built-in and workspace-trusted targets are always allowed; that is
  only the fallback for requests without a matching rule, and the witness is such a target.
\<close>

theorem deny_rule_blocks:
  assumes "r \<in> set (en_rules e)" and "pr_Enabled r" and "ruleMatchesRequest now r req"
    and "ruleEffect r \<in> {effectDeny, []}"
  shows "\<exists>d err. EnforcePolicyRequest clk ag now (Some e) req approval = ((d, Some err), ar_Manager approval) \<and>
                 pd_Effect d = ''deny''"
proof -
  obtain d where d: "fst (evaluateCompiledRules now (en_rules e) req) = Some d" "pd_Effect d = ''deny''"
    using evaluate_denies [OF assms] by blast
  then show ?thesis
    using Evaluate_rules [OF d(1)]
    by (auto simp: EnforcePolicyRequest_def EvaluatePolicyRequest_def enforceDecision_def Let_def)
qed

section \<open>Fallbacks\<close>

text \<open>
  Without a matching rule, a session or resume request of an actor that neither owns the
  session nor holds a delegation is never allowed, and one that comes from a restricted external
  identity is never allowed either.
\<close>

theorem session_fallback_guarded:
  assumes "matching now (en_rules e) req = []"
    and "rq_Target req \<in> {PolicyTargetSession, PolicyTargetResume}"
    and "rq_RestrictedExternal req \<or> (\<not> rq_IsOwner req \<and> \<not> rq_IsDelegated req)"
  shows "pd_Effect (fst (fst (Evaluate now (Some e) req))) \<noteq> ''allow''"
  using assms
  by (auto simp: Evaluate_def evaluate_none fallbackDecision_def sessionFallbackDecision_def
      resumeFallbackDecision_def PolicyDecisionDeny_def PolicyDecisionRequireApproval_def Let_def
      split: option.split)

section \<open>Compilation\<close>

lemma collectRules_spec:
  "collectRules xs = (if \<forall>x \<in> set xs. \<exists>r. x = Inr r then Inr (map projr xs)
                      else Inl (projl (hd (filter (\<lambda>x. \<exists>e. x = Inl e) xs))))"
  by (induction xs rule: collectRules.induct) auto

lemma collectRules_set:
  assumes "set xs = set ys"
  shows "(\<exists>e. collectRules xs = Inl e \<and> (\<exists>e'. collectRules ys = Inl e')) \<or>
         (\<exists>rs rs'. collectRules xs = Inr rs \<and> collectRules ys = Inr rs' \<and> set rs = set rs')"
  using assms by (simp add: collectRules_spec)

lemma set_map_filter: "set (List.map_filter f xs) = {y. \<exists>x \<in> set xs. f x = Some y}"
  by (induction xs) (auto split: option.splits)

lemma compiledPolicies_set:
  assumes "set (in_ToolExecutionPolicy spec) = set (in_ToolExecutionPolicy spec')"
    and "set (in_ProviderPolicies spec) = set (in_ProviderPolicies spec')"
    and "set (in_GlobalPolicies spec) = set (in_GlobalPolicies spec')"
    and "in_CapabilityPolicies spec = in_CapabilityPolicies spec'"
    and "in_SessionPolicies spec = in_SessionPolicies spec'"
  shows "set (compiledPolicies spec) = set (compiledPolicies spec')"
  using assms by (simp add: compiledPolicies_def set_map_filter)

text \<open>
  The effect of a decision does not depend on the iteration order of Go's maps: two inputs
  whose tool, provider and global policy maps are permutations of each other either both fail to
  compile, or compile to rule lists that give every request the same effect, or none.
\<close>

theorem compile_order_irrelevant:
  assumes "mset (in_ToolExecutionPolicy spec) = mset (in_ToolExecutionPolicy spec')"
    and "mset (in_ProviderPolicies spec) = mset (in_ProviderPolicies spec')"
    and "mset (in_GlobalPolicies spec) = mset (in_GlobalPolicies spec')"
    and "in_CapabilityPolicies spec = in_CapabilityPolicies spec'"
    and "in_SessionPolicies spec = in_SessionPolicies spec'"
  shows "case (CompileAgentSpecPolicyRules (Some spec), CompileAgentSpecPolicyRules (Some spec')) of
           (Inl e, Inl e') \<Rightarrow> True
         | (Inr rs, Inr rs') \<Rightarrow>
             map_option pd_Effect (fst (evaluateCompiledRules now rs req)) =
             map_option pd_Effect (fst (evaluateCompiledRules now rs' req))
         | _ \<Rightarrow> False"
proof -
  have "set (compiledPolicies spec) = set (compiledPolicies spec')"
    using assms by (intro compiledPolicies_set) (metis set_mset_mset)+
  from collectRules_set [OF this] show ?thesis
    by (auto simp: CompileAgentSpecPolicyRules_def intro!: evaluate_effect_cong)
qed

lemma compiled_rule:
  assumes "CompileAgentSpecPolicyRules (Some spec) = Inr rules" and "x \<in> set (compiledPolicies spec)"
  obtains r where "x = Inr r" and "r \<in> set rules"
  using assms by (auto simp: CompileAgentSpecPolicyRules_def collectRules_spec split: if_splits)
    (metis image_eqI sum.sel(2))

section \<open>Remote capabilities under global policies\<close>

lemma permissionLevel_deny: "EqualFold (TrimSpace level) ''deny'' \<Longrightarrow> permissionLevelToAction level = ''deny''"
proof -
  have "ToLower ''deny'' = ''deny''" by code_simp
  then show "EqualFold (TrimSpace level) ''deny'' \<Longrightarrow> permissionLevelToAction level = ''deny''"
    by (simp add: permissionLevelToAction_def ParseDecision_def EqualFold_def)
qed

lemma parse_deny: "parsePolicyEffect ''deny'' = (effectDeny, True)"
  by code_simp

lemma EqualFold_deny_nonempty: "EqualFold (TrimSpace level) ''deny'' \<Longrightarrow> level \<noteq> []"
  by (auto simp: EqualFold_def ToLower_def)

lemma remote_exfiltration: "RiskClassExfiltration \<in> set (Classify effects CapabilityScopeRemote)"
  by (simp add: set_Classify scopeFloor_def)

definition boundRiskClasses :: "RiskClass set" where
  "boundRiskClasses = {RiskClassReadOnly, RiskClassSessioned, RiskClassNetwork, RiskClassExecute,
                       RiskClassCredentialed, RiskClassExfiltration}"

lemma boundRiskClasses_rank:
  "k \<in> boundRiskClasses \<Longrightarrow>
     globalConditions k = Some (noConditions\<lparr>pc_MinRiskClasses := [k]\<rparr>) \<and>
     riskRank k \<le> riskRank RiskClassExfiltration \<and> k \<noteq> [] \<and> k \<noteq> ''default_tool_policy''"
  unfolding boundRiskClasses_def by (elim insertE emptyE; hypsubst; code_simp)

text \<open>
  The risk floor of remote capabilities makes global policies bind them: once a policy input
  that denies any risk class up to exfiltration compiles, every request for a capability of remote
  scope, whatever effects it declares, is denied.
\<close>

theorem remote_capability_denied:
  assumes "CompileAgentSpecPolicyRules (Some spec) = Inr rules"
    and "(key, level) \<in> set (in_GlobalPolicies spec)"
    and "TrimSpace (ToLower key) \<in> boundRiskClasses" and "EqualFold (TrimSpace level) ''deny''"
    and "rq_RiskClasses req = Classify effects CapabilityScopeRemote"
  shows "pd_Effect (fst (fst (Evaluate now (Some \<lparr>en_agentID = ag, en_manager = m, en_rules = rules\<rparr>) req))) = ''deny''"
proof -
  let ?k = "TrimSpace (ToLower key)"
  have "compileGlobalPolicy key level \<in> set (compiledPolicies spec)"
    using assms(2) by (force simp: compiledPolicies_def)
  then obtain r where c: "compileGlobalPolicy key level = Inr r" and r: "r \<in> set rules"
    using assms(1) compiled_rule by metis
  have k: "pr_Conditions r = noConditions\<lparr>pc_MinRiskClasses := [?k]\<rparr>" "pr_Enabled r" "ruleEffect r = effectDeny"
    using c boundRiskClasses_rank [OF assms(3)] EqualFold_deny_nonempty [OF assms(4)]
    by (auto simp: compileGlobalPolicy_def permissionLevelToEffect_def permissionLevel_deny [OF assms(4)]
        ruleEffect_def parse_deny Let_def)
  have "matchesMinRiskClasses [?k] (rq_RiskClasses req)"
    using remote_exfiltration [of effects] boundRiskClasses_rank [OF assms(3)]
    by (auto simp: matchesMinRiskClasses_def assms(5) list_ex_iff intro!: bexI [of _ RiskClassExfiltration])
  then have "ruleMatchesRequest now r req"
    by (simp add: ruleMatchesRequest_def k(1) noConditions_def listOk_def flagOk_def Let_def)
  with r k obtain d where "fst (evaluateCompiledRules now rules req) = Some d" "pd_Effect d = ''deny''"
    using evaluate_denies by blast
  then show ?thesis by (simp add: Evaluate_rules)
qed

section \<open>Session policies and actor kinds\<close>

text \<open>
  A session policy that names several actor kinds compiles to a rule on the first kind alone:
  a request of an actor of another kind, named in the policy or not, does not match the rule.
\<close>

theorem sessionPolicy_first_kind_only:
  assumes "compileSessionPolicy i p = Inr rule"
    and "ss_ActorKinds (sp_Selector p) = kind # kinds" and "\<not> EqualFold kind (ea_Kind (rq_Actor req))"
  shows "\<not> ruleMatchesRequest now rule req"
proof -
  have v: "ValidateSessionPolicy p = None" using assms(1) by (auto simp: compileSessionPolicy_def split: option.splits)
  then have "\<not> list_ex blank (kind # kinds)"
    using assms(2)
    by (auto simp: ValidateSessionPolicy_def ValidateSessionSelector_def split: if_splits option.splits)
  then have "kind \<noteq> []" by (auto simp: blank_def)
  moreover have "pc_Actors (pr_Conditions rule) = sessionActors (sp_Selector p)"
    using assms(1) by (auto simp: compileSessionPolicy_def Let_def split: option.splits)
  ultimately show ?thesis
    using assms(2,3) by (simp add: ruleMatchesRequest_def sessionActors_def listOk_def Let_def)
qed

section \<open>Witnesses\<close>

definition wActor :: EventActor where
  "wActor = \<lparr>ea_Kind = ''node'', ea_ID = ''n1'', ea_Label = [], ea_TenantID = [], ea_SessionID = [], ea_Scopes = [],
             ea_SubjectKind = []\<rparr>"

definition wRequest :: "string \<Rightarrow> PolicyRequest" where
  "wRequest target =
     \<lparr>rq_Target = target, rq_Actor = wActor, rq_Authenticated = False, rq_ActorTenantID = [],
      rq_ResourceTenantID = [], rq_CapabilityID = ''fetch'', rq_CapabilityName = [], rq_LineageID = [],
      rq_AttemptID = [], rq_ExportName = [], rq_SourceDomain = [], rq_ContextClass = [], rq_SensitivityClass = [],
      rq_RouteMode = [], rq_CapabilityKind = [], rq_RuntimeFamily = [], rq_ProviderKind = [], rq_ProviderOrigin = [],
      rq_TrustClass = ''workspace-trusted'', rq_RiskClasses = Classify [] CapabilityScopeRemote, rq_EffectClasses = [],
      rq_Partition = [], rq_ChannelID = [], rq_SessionID = [], rq_SessionScope = [], rq_SessionOperation = ''attach'',
      rq_SessionOwnerID = [], rq_IsOwner = False, rq_IsDelegated = False, rq_ExternalProvider = [],
      rq_ExternalAccountID = [], rq_ExternalChannelID = [], rq_ExternalConversationID = [], rq_ExternalThreadID = [],
      rq_ExternalUserID = [], rq_HasExternalBinding = False, rq_ResolvedExternal = False,
      rq_RestrictedExternal = False, rq_Timestamp = 0, rq_Zone = 0\<rparr>"

definition wSpec :: "(string \<times> ToolPolicyView) list \<Rightarrow> PolicyInput" where
  "wSpec tools = \<lparr>in_ToolExecutionPolicy = tools, in_CapabilityPolicies = [], in_ProviderPolicies = [],
     in_SessionPolicies = [], in_GlobalPolicies = [(''Network'', '' Deny'')]\<rparr>"

definition wApproval :: ApprovalRequest where
  "wApproval = \<lparr>ar_AgentID = ''a'', ar_Manager = None, ar_Permission = wDesc, ar_Justification = [], ar_Scope = [],
     ar_Risk = [], ar_Duration = 0, ar_MissingManagerErr = [], ar_DenyReasonFallback = []\<rparr>"

definition wRule :: PolicyRule where
  "wRule = \<lparr>pr_ID = ''r'', pr_Name = ''r'', pr_Priority = 0, pr_Enabled = True, pr_Conditions = noConditions,
     pr_Effect = permissionLevelToEffect ''deny'' []\<rparr>"

definition wEngine :: "PolicyRule list \<Rightarrow> ManifestPolicyEngine" where
  "wEngine rules = \<lparr>en_agentID = ''a'', en_manager = None, en_rules = rules\<rparr>"

theorem deny_rule_blocks_witness:
  "\<exists>d err. EnforcePolicyRequest (\<lambda>_. 0) ''a'' 0 (Some (wEngine [wRule])) (wRequest ''capability'') wApproval =
     ((d, Some err), None) \<and> pd_Effect d = ''deny''"
proof -
  have "wRule \<in> set (en_rules (wEngine [wRule]))" by (simp add: wEngine_def)
  moreover have "pr_Enabled wRule" "ruleMatchesRequest 0 wRule (wRequest ''capability'')"
    "ruleEffect wRule \<in> {effectDeny, []}" by code_simp+
  ultimately show ?thesis
    using deny_rule_blocks [of wRule "wEngine [wRule]" 0 "wRequest ''capability''" "\<lambda>_. 0" "''a''" wApproval]
    by (simp add: wApproval_def)
qed

theorem session_fallback_guarded_witness:
  "pd_Effect (fst (fst (Evaluate 0 (Some (wEngine [])) (wRequest PolicyTargetSession)))) \<noteq> ''allow''"
  by (rule session_fallback_guarded) (simp_all add: wEngine_def matching_def wRequest_def)

theorem compile_order_irrelevant_witness:
  "case (CompileAgentSpecPolicyRules (Some (wSpec [(''a'', \<lparr>tp_Execute = ''ask''\<rparr>), (''b'', \<lparr>tp_Execute = ''deny''\<rparr>)])),
         CompileAgentSpecPolicyRules (Some (wSpec [(''b'', \<lparr>tp_Execute = ''deny''\<rparr>), (''a'', \<lparr>tp_Execute = ''ask''\<rparr>)]))) of
     (Inl e, Inl e') \<Rightarrow> True
   | (Inr rs, Inr rs') \<Rightarrow>
       map_option pd_Effect (fst (evaluateCompiledRules 0 rs (wRequest ''capability''))) =
       map_option pd_Effect (fst (evaluateCompiledRules 0 rs' (wRequest ''capability'')))
   | _ \<Rightarrow> False"
  by (rule compile_order_irrelevant) (simp_all add: wSpec_def add_mset_commute)

theorem remote_capability_denied_witness:
  "\<exists>rules. CompileAgentSpecPolicyRules (Some (wSpec [])) = Inr rules \<and>
     pd_Effect (fst (fst (Evaluate 0 (Some \<lparr>en_agentID = ''a'', en_manager = None, en_rules = rules\<rparr>)
       (wRequest ''capability'')))) = ''deny''"
proof -
  have "\<not> isl (CompileAgentSpecPolicyRules (Some (wSpec [])))" by code_simp
  then obtain rules where r: "CompileAgentSpecPolicyRules (Some (wSpec [])) = Inr rules"
    by (cases "CompileAgentSpecPolicyRules (Some (wSpec []))") auto
  moreover have "(''Network'', '' Deny'') \<in> set (in_GlobalPolicies (wSpec []))" by (simp add: wSpec_def)
  moreover have "TrimSpace (ToLower ''Network'') \<in> boundRiskClasses" "EqualFold (TrimSpace '' Deny'') ''deny''" by code_simp+
  moreover have "rq_RiskClasses (wRequest ''capability'') = Classify [] CapabilityScopeRemote" by (simp add: wRequest_def)
  ultimately show ?thesis using remote_capability_denied [of "wSpec []" rules "''Network''" "'' Deny''"] by blast
qed

definition wSession :: SessionPolicy where
  "wSession = \<lparr>sp_ID = ''s'', sp_Name = ''s'', sp_Priority = 0, sp_Enabled = True,
     sp_Selector = \<lparr>ss_Partitions = [], ss_ChannelIDs = [], ss_Scopes = [], ss_TrustClasses = [],
       ss_Operations = [''attach''], ss_ActorKinds = [''user'', ''node''], ss_ActorIDs = [], ss_ExternalProviders = [],
       ss_RequireOwnership = None, ss_RequireDelegation = None, ss_RequireExternalBinding = None,
       ss_RequireResolvedExternal = None, ss_RequireRestrictedExternal = None, ss_AuthenticatedOnly = None\<rparr>,
     sp_Effect = ''deny'', sp_Approvers = [], sp_ApprovalTTL = [], sp_Reason = []\<rparr>"

theorem sessionPolicy_first_kind_only_witness:
  "\<exists>rule. compileSessionPolicy 0 wSession = Inr rule \<and>
     ea_Kind (rq_Actor (wRequest PolicyTargetSession)) \<in> set (ss_ActorKinds (sp_Selector wSession)) \<and>
     \<not> ruleMatchesRequest 0 rule (wRequest PolicyTargetSession)"
proof -
  have "\<not> isl (compileSessionPolicy 0 wSession)" by code_simp
  then obtain rule where r: "compileSessionPolicy 0 wSession = Inr rule" by (cases "compileSessionPolicy 0 wSession") auto
  have k: "ss_ActorKinds (sp_Selector wSession) = [''user'', ''node'']" by (simp add: wSession_def)
  have "\<not> EqualFold ''user'' (ea_Kind (rq_Actor (wRequest PolicyTargetSession)))" by code_simp
  from sessionPolicy_first_kind_only [OF r k this] r k show ?thesis by (auto simp: wRequest_def wActor_def)
qed

end
