(* ===== verification/Globs.thy ===== *)
theory Globs
  imports Policy
begin

text \<open>
  Pattern decisions of \<open>governance/authorization\<close>: the deny-first evaluator
  (\<open>policy_helpers.go\<close>), command-line patterns (\<open>match_command_glob.go\<close>), path patterns
  (\<open>matchGlob\<close> of \<open>permissions.go\<close>) and the cache of compiled patterns (\<open>glob_cache.go\<close>).

  The generated regular expressions only use literals, \<open>.\<close>, \<open>.*\<close>, \<open>[^/]*\<close> and an optional
  directory prefix. Their texts are modelled by the list of these elements, and a match by
  membership in the language, on the code points of the input as package \<open>regexp\<close> reads them.
\<close>

section \<open>Code points of a byte string\<close>

definition byteOf :: "char \<Rightarrow> nat" where
  "byteOf c = of_char c"

definition isCont :: "nat \<Rightarrow> bool" where
  "isCont b \<longleftrightarrow> 0x80 \<le> b \<and> b \<le> 0xBF"

definition runeError :: nat where
  "runeError = 0xFFFD"

text \<open>\<open>utf8.DecodeRune\<close>: the code point at the head of a non-empty byte list and its width; an
  invalid or truncated encoding is the error rune of width 1.\<close>

definition decodeRune :: "nat list \<Rightarrow> nat \<times> nat" where
  "decodeRune bs =
     (let b0 = bs ! 0; n = length bs;
          b1 = (if n > 1 then bs ! 1 else 0); b2 = (if n > 2 then bs ! 2 else 0);
          b3 = (if n > 3 then bs ! 3 else 0) in
      if b0 < 0x80 then (b0, 1)
      else if 0xC2 \<le> b0 \<and> b0 \<le> 0xDF \<and> isCont b1 then ((b0 - 0xC0) * 64 + (b1 - 0x80), 2)
      else if 0xE0 \<le> b0 \<and> b0 \<le> 0xEF \<and> isCont b1 \<and> isCont b2 \<and>
              (b0 = 0xE0 \<longrightarrow> 0xA0 \<le> b1) \<and> (b0 = 0xED \<longrightarrow> b1 \<le> 0x9F)
      then ((b0 - 0xE0) * 4096 + (b1 - 0x80) * 64 + (b2 - 0x80), 3)
      else if 0xF0 \<le> b0 \<and> b0 \<le> 0xF4 \<and> isCont b1 \<and> isCont b2 \<and> isCont b3 \<and>
              (b0 = 0xF0 \<longrightarrow> 0x90 \<le> b1) \<and> (b0 = 0xF4 \<longrightarrow> b1 \<le> 0x8F)
      then ((b0 - 0xF0) * 262144 + (b1 - 0x80) * 4096 + (b2 - 0x80) * 64 + (b3 - 0x80), 4)
      else (runeError, 1))"

lemma decodeRune_width: "0 < snd (decodeRune bs)"
  by (simp add: decodeRune_def Let_def)

function runesOf :: "nat list \<Rightarrow> nat list" where
  "runesOf bs = (if bs = [] then [] else fst (decodeRune bs) # runesOf (drop (snd (decodeRune bs)) bs))"
  by pat_completeness auto

termination
  by (relation "measure length") (auto simp: decodeRune_width)

declare runesOf.simps [simp del]

definition runes :: "string \<Rightarrow> nat list" where
  "runes s = runesOf (map byteOf s)"

section \<open>Regular expressions\<close>

text \<open>\<open>Any nl\<close> is \<open>.\<close>, which matches a newline only under the flag \<open>(?s)\<close>; \<open>AnyStar nl\<close> is \<open>.*\<close>;
  \<open>SegStar\<close> is \<open>[^/]*\<close>; \<open>DirOpt nl\<close> is \<open>(?:.*/)?\<close>.\<close>

datatype re = Lit nat | Any bool | AnyStar bool | SegStar | DirOpt bool

definition dotOk :: "bool \<Rightarrow> nat \<Rightarrow> bool" where
  "dotOk nl r \<longleftrightarrow> nl \<or> r \<noteq> 10"

text \<open>The suffixes of the input after a run of code points that satisfy a test.\<close>

fun afterRun :: "(nat \<Rightarrow> bool) \<Rightarrow> nat list \<Rightarrow> nat list list" where
  "afterRun P [] = [[]]"
| "afterRun P (x # xs) = (x # xs) # (if P x then afterRun P xs else [])"

fun matchRe :: "re list \<Rightarrow> nat list \<Rightarrow> bool" where
  "matchRe [] xs = (xs = [])"
| "matchRe (Lit r # ts) xs = (case xs of [] \<Rightarrow> False | x # xs' \<Rightarrow> x = r \<and> matchRe ts xs')"
| "matchRe (Any nl # ts) xs = (case xs of [] \<Rightarrow> False | x # xs' \<Rightarrow> dotOk nl x \<and> matchRe ts xs')"
| "matchRe (AnyStar nl # ts) xs = list_ex (matchRe ts) (afterRun (dotOk nl) xs)"
| "matchRe (SegStar # ts) xs = list_ex (matchRe ts) (afterRun (\<lambda>r. r \<noteq> 47) xs)"
| "matchRe (DirOpt nl # ts) xs =
     (matchRe ts xs \<or>
      list_ex (\<lambda>ys. case ys of [] \<Rightarrow> False | y # ys' \<Rightarrow> y = 47 \<and> matchRe ts ys') (afterRun (dotOk nl) xs))"

section \<open>Command patterns\<close>

text \<open>A byte \<open>c\<close> of the pattern is quoted as \<open>string(c)\<close>, the code point with the number of the byte.\<close>

fun commandGlobToRegex :: "string \<Rightarrow> re list" where
  "commandGlobToRegex [] = []"
| "commandGlobToRegex (c # cs) =
     (if c = CHR 0x5C
      then (case cs of
              [] \<Rightarrow> [Lit (byteOf CHR 0x5C)]
            | x # cs' \<Rightarrow> Lit (byteOf x) # commandGlobToRegex cs')
      else if c = CHR ''*'' then AnyStar True # commandGlobToRegex cs
      else if c = CHR ''?'' then Any True # commandGlobToRegex cs
      else Lit (byteOf c) # commandGlobToRegex cs)"

definition permissionMatchAll :: string where
  "permissionMatchAll = ''**''"

definition MatchCommandGlob :: "string \<Rightarrow> string \<Rightarrow> bool" where
  "MatchCommandGlob pattern cmdline =
     (let pattern = TrimSpace pattern in
      if pattern = [] then False
      else if pattern = permissionMatchAll then True
      else matchRe (commandGlobToRegex pattern) (runes cmdline))"

section \<open>Path patterns\<close>

text \<open>\<open>filepath.Match\<close> on Unix, as the test that it reports a match and no error. An error is a
  property of the pattern alone, so a malformed pattern matches nothing.\<close>

fun scanChunkEnd :: "bool \<Rightarrow> string \<Rightarrow> string \<times> string" where
  "scanChunkEnd inrange [] = ([], [])"
| "scanChunkEnd inrange (c # cs) =
     (if c = CHR 0x5C
      then (case cs of
              [] \<Rightarrow> ([c], [])
            | x # cs' \<Rightarrow> (case scanChunkEnd inrange cs' of (chunk, rest) \<Rightarrow> (c # x # chunk, rest)))
      else if c = CHR ''*'' \<and> \<not> inrange then ([], c # cs)
      else (case scanChunkEnd (if c = CHR ''['' then True else if c = CHR '']'' then False else inrange) cs of
              (chunk, rest) \<Rightarrow> (c # chunk, rest)))"

definition getEsc :: "string \<Rightarrow> (nat \<times> string) option" where
  "getEsc chunk =
     (if chunk = [] \<or> hd chunk = CHR ''-'' \<or> hd chunk = CHR '']'' then None
      else let esc = (hd chunk = CHR 0x5C);
               chunk = (if esc then tl chunk else chunk) in
           if chunk = [] then None
           else let (r, n) = decodeRune (map byteOf chunk) in
                if (r = runeError \<and> n = 1) \<or> drop n chunk = [] then None
                else Some (r, drop n chunk))"

lemma getEsc_shrinks: "getEsc chunk = Some (r, rest) \<Longrightarrow> length rest < length chunk"
  using decodeRune_width [of "map byteOf chunk"] decodeRune_width [of "map byteOf (tl chunk)"]
  by (cases chunk) (auto simp: getEsc_def Let_def split: if_splits prod.splits)

text \<open>The ranges of a character class, until its closing bracket: whether one of them holds \<open>r\<close>.\<close>

function matchClass :: "nat \<Rightarrow> bool \<Rightarrow> bool \<Rightarrow> string \<Rightarrow> (bool \<times> string) option" where
  "matchClass r matched some_range chunk =
     (if chunk \<noteq> [] \<and> hd chunk = CHR '']'' \<and> some_range then Some (matched, tl chunk)
      else case getEsc chunk of
        None \<Rightarrow> None
      | Some (lo, rest) \<Rightarrow>
          if hd rest = CHR ''-''
          then (case getEsc (tl rest) of
                  None \<Rightarrow> None
                | Some (hi, rest') \<Rightarrow> matchClass r (matched \<or> (lo \<le> r \<and> r \<le> hi)) True rest')
          else matchClass r (matched \<or> lo = r) True rest)"
  by pat_completeness auto

termination
proof (relation "measure (\<lambda>(r, m, s, chunk). length chunk)", goal_cases)
  case (2 r matched some_range chunk p lo rest p' hi rest')
  then have "length rest < length chunk" "length rest' < length (tl rest)"
    using getEsc_shrinks by blast+
  then show ?case by simp
next
  case (3 r matched some_range chunk p lo rest)
  then show ?case using getEsc_shrinks by force
qed simp

declare matchClass.simps [simp del]

lemma matchClass_shrinks: "matchClass r m b chunk = Some (m', rest) \<Longrightarrow> length rest < length chunk"
proof (induction r m b chunk rule: matchClass.induct)
  case (1 r m b chunk)
  show ?case
  proof (cases "chunk \<noteq> [] \<and> hd chunk = CHR '']'' \<and> b")
    case True
    with "1.prems" show ?thesis by (cases chunk) (auto simp: matchClass.simps)
  next
    case False
    then obtain lo r1 where g: "getEsc chunk = Some (lo, r1)"
      using "1.prems" by (subst (asm) matchClass.simps) (auto split: option.splits)
    show ?thesis
    proof (cases "hd r1 = CHR ''-''")
      case True
      then obtain hi r2 where h: "getEsc (tl r1) = Some (hi, r2)"
        using "1.prems" False g by (subst (asm) matchClass.simps) (auto split: option.splits)
      have "length rest < length r2"
        using "1.prems" False g h True "1.IH"(1) [OF False g refl True h refl] by (simp add: matchClass.simps)
      then show ?thesis using getEsc_shrinks [OF g] getEsc_shrinks [OF h] by simp
    next
      case noRange: False
      have "length rest < length r1"
        using "1.prems" False g noRange "1.IH"(2) [OF False g refl noRange] by (simp add: matchClass.simps)
      then show ?thesis using getEsc_shrinks [OF g] by simp
    qed
  qed
qed

text \<open>\<open>matchChunk\<close>: the rest of the name after a match of the whole chunk.\<close>

function matchChunk :: "string \<Rightarrow> string \<Rightarrow> string option" where
  "matchChunk chunk s =
     (if chunk = [] then Some s
      else if s = [] then None
      else if hd chunk = CHR ''[''
      then (let (r, n) = decodeRune (map byteOf s);
                chunk' = tl chunk;
                negated = (chunk' \<noteq> [] \<and> hd chunk' = CHR ''^'');
                chunk' = (if negated then tl chunk' else chunk') in
            case matchClass r False False chunk' of
              None \<Rightarrow> None
            | Some (matched, rest) \<Rightarrow> if matched = negated then None else matchChunk rest (drop n s))
      else if hd chunk = CHR ''?''
      then (if hd s = CHR ''/'' then None else matchChunk (tl chunk) (drop (snd (decodeRune (map byteOf s))) s))
      else let chunk' = (if hd chunk = CHR 0x5C then tl chunk else chunk) in
           if chunk' = [] then None
           else if hd chunk' \<noteq> hd s then None
           else matchChunk (tl chunk') (tl s))"
  by pat_completeness auto

termination
proof (relation "measure (length \<circ> fst)", goal_cases)
  case (2 chunk s p r n chunk1 negated chunk2 q matched rest)
  then have "length rest < length chunk2" by (metis matchClass_shrinks)
  moreover have "length chunk2 \<le> length (tl chunk)" unfolding 2(6,8) by (simp add: diff_le_mono2)
  ultimately show ?case by simp
qed (auto split: if_splits)

declare matchChunk.simps [simp del]

definition scanChunk :: "string \<Rightarrow> bool \<times> string \<times> string" where
  "scanChunk pattern =
     (let star = (pattern \<noteq> [] \<and> hd pattern = CHR ''*'')
      in (star, scanChunkEnd False (dropWhile (\<lambda>c. c = CHR ''*'') pattern)))"

lemma scanChunkEnd_append: "fst (scanChunkEnd b s) @ snd (scanChunkEnd b s) = s"
proof (induction b s rule: scanChunkEnd.induct)
  case (2 b c cs)
  show ?case
  proof (cases "c = CHR 0x5C")
    case True
    show ?thesis
    proof (cases cs)
      case (Cons x cs')
      then show ?thesis using True "2.IH"(1) [OF True Cons] by (cases "scanChunkEnd b cs'") simp
    qed (simp add: True)
  next
    case False
    let ?b = "if c = CHR ''['' then True else if c = CHR '']'' then False else b"
    show ?thesis
    proof (cases "c = CHR ''*'' \<and> \<not> b")
      case noStar: False
      have "fst (scanChunkEnd ?b cs) @ snd (scanChunkEnd ?b cs) = cs" using "2.IH"(2) [OF False noStar] .
      then show ?thesis using False noStar by (cases "scanChunkEnd ?b cs") (simp only: scanChunkEnd.simps if_False prod.case
            fst_conv snd_conv append_Cons)
    qed (use False in simp)
  qed
qed simp

lemma scanChunkEnd_length: "length (snd (scanChunkEnd b s)) \<le> length s"
  by (metis scanChunkEnd_append length_append le_add2)

lemma scanChunkEnd_consumes:
  assumes "s \<noteq> []" and "hd s \<noteq> CHR ''*''"
  shows "fst (scanChunkEnd b s) \<noteq> []"
proof -
  obtain c cs where s: "s = c # cs" "c \<noteq> CHR ''*''" using assms by (cases s) auto
  show ?thesis
  proof (cases "c = CHR 0x5C")
    case True
    then show ?thesis by (cases cs) (simp_all add: s split: prod.split)
  next
    case False
    let ?b = "if c = CHR ''['' then True else if c = CHR '']'' then False else b"
    have "scanChunkEnd b s = (c # fst (scanChunkEnd ?b cs), snd (scanChunkEnd ?b cs))"
      using False s(2) unfolding s(1) scanChunkEnd.simps by (simp only: if_False simp_thms split: prod.split) simp
    then show ?thesis by simp
  qed
qed

lemma scanChunkEnd_less:
  "s \<noteq> [] \<Longrightarrow> hd s \<noteq> CHR ''*'' \<Longrightarrow> length (snd (scanChunkEnd b s)) < length s"
  using scanChunkEnd_append [of b s] scanChunkEnd_consumes [of s b]
  by (metis length_append less_add_same_cancel2 length_greater_0_conv)

lemma scanChunk_less:
  assumes "pattern \<noteq> []" and "scanChunk pattern = (star, chunk, rest)"
  shows "length rest < length pattern"
proof -
  let ?p = "dropWhile (\<lambda>c. c = CHR ''*'') pattern"
  have rest: "rest = snd (scanChunkEnd False ?p)" and star: "star \<longleftrightarrow> hd pattern = CHR ''*''"
    using assms by (auto simp: scanChunk_def Let_def)
  show ?thesis
  proof (cases "hd pattern = CHR ''*''")
    case True
    then have "length ?p < length pattern"
      using assms(1) by (cases pattern) (auto intro: le_imp_less_Suc length_dropWhile_le)
    then show ?thesis using rest scanChunkEnd_length [of False ?p] by simp
  next
    case False
    then have "?p = pattern" using assms(1) by (cases pattern) auto
    then show ?thesis using rest scanChunkEnd_less [of pattern False] assms(1) False by simp
  qed
qed

fun starTry :: "string \<Rightarrow> bool \<Rightarrow> string \<Rightarrow> string option" where
  "starTry chunk final [] = None"
| "starTry chunk final (c # name) =
     (if c = CHR ''/'' then None
      else case matchChunk chunk name of
        Some t \<Rightarrow> if final \<and> t \<noteq> [] then starTry chunk final name else Some t
      | None \<Rightarrow> starTry chunk final name)"

function filepath_Match :: "string \<Rightarrow> string \<Rightarrow> bool" where
  "filepath_Match pattern name =
     (if pattern = [] then name = []
      else let (star, chunk, rest) = scanChunk pattern in
        if star \<and> chunk = [] then CHR ''/'' \<notin> set name
        else case (case matchChunk chunk name of
                     None \<Rightarrow> None
                   | Some t \<Rightarrow> if t = [] \<or> rest \<noteq> [] then Some t else None) of
               Some t \<Rightarrow> filepath_Match rest t
             | None \<Rightarrow>
                 if star
                 then (case starTry chunk (rest = []) name of
                         None \<Rightarrow> False
                       | Some t \<Rightarrow> filepath_Match rest t)
                 else False)"
  by pat_completeness auto

termination
  by (relation "measure (length \<circ> fst)") (simp_all, (metis scanChunk_less)+)

declare filepath_Match.simps [simp del]

text \<open>\<open>globToRegex\<close>: a run of two stars crosses directories, and as a prefix with its slash it
  also matches no directory at all. No flag is set, so \<open>.\<close> does not match a newline.\<close>

fun globToRegex :: "nat list \<Rightarrow> re list" where
  "globToRegex [] = []"
| "globToRegex (ch # rs) =
     (if ch = byteOf CHR ''*''
      then (case rs of
              [] \<Rightarrow> [SegStar]
            | r1 # rs1 \<Rightarrow>
                if r1 = byteOf CHR ''*''
                then (case rs1 of
                        [] \<Rightarrow> [AnyStar False]
                      | r2 # rs2 \<Rightarrow>
                          if r2 = byteOf CHR ''/'' then DirOpt False # globToRegex rs2
                          else AnyStar False # globToRegex rs1)
                else SegStar # globToRegex rs)
      else if ch = byteOf CHR ''?'' then Any False # globToRegex rs
      else Lit ch # globToRegex rs)"

fun hasStarStar :: "string \<Rightarrow> bool" where
  "hasStarStar (a # b # cs) = ((a = CHR ''*'' \<and> b = CHR ''*'') \<or> hasStarStar (b # cs))"
| "hasStarStar _ = False"

definition matchGlob :: "string \<Rightarrow> string \<Rightarrow> bool" where
  "matchGlob pattern value =
     (if pattern = [] then False
      else if pattern = permissionMatchAll then True
      else if suffix ''/**'' pattern \<and> value = take (length pattern - 3) pattern then True
      else if \<not> hasStarStar pattern then filepath_Match pattern value
      else matchRe (globToRegex (runes pattern)) (runes value))"

section \<open>Deny-first decisions\<close>

record CommandDecision =
  cd_Decision :: Decision
  cd_MatchedPattern :: string
  cd_Reason :: string

fun firstMatch :: "(string \<Rightarrow> string \<Rightarrow> bool) \<Rightarrow> string \<Rightarrow> string list \<Rightarrow> string option" where
  "firstMatch match target [] = None"
| "firstMatch match target (pattern # ps) =
     (let pattern = TrimSpace pattern in
      if pattern = [] then firstMatch match target ps
      else if match pattern target then Some pattern
      else firstMatch match target ps)"

definition decideByMatcher ::
  "string \<Rightarrow> string list \<Rightarrow> string list \<Rightarrow> Decision \<Rightarrow> (string \<Rightarrow> string \<Rightarrow> bool) \<Rightarrow> Decision \<times> string \<times> string" where
  "decideByMatcher target allowPatterns denyPatterns defaultDecision match =
     (let target = TrimSpace target in
      case firstMatch match target denyPatterns of
        Some pattern \<Rightarrow> (DecisionDeny, pattern, ''deny_pattern'')
      | None \<Rightarrow>
          (case firstMatch match target allowPatterns of
             Some pattern \<Rightarrow> (DecisionAllow, pattern, ''allow_pattern'')
           | None \<Rightarrow>
               ((case DecisionOr defaultDecision DecisionAsk of Inl err \<Rightarrow> DecisionAsk | Inr d \<Rightarrow> d),
                [], ''default'')))"

definition DecideByPatterns ::
  "string \<Rightarrow> string list \<Rightarrow> string list \<Rightarrow> Decision \<Rightarrow> Decision \<times> string" where
  "DecideByPatterns target allowPatterns denyPatterns defaultDecision =
     (case decideByMatcher target allowPatterns denyPatterns defaultDecision matchGlob of
        (decision, matched, reason) \<Rightarrow> (decision, matched))"

definition DecideCommandByPatterns ::
  "string \<Rightarrow> string list \<Rightarrow> string list \<Rightarrow> Decision \<Rightarrow> CommandDecision" where
  "DecideCommandByPatterns target allowPatterns denyPatterns defaultDecision =
     (case decideByMatcher target allowPatterns denyPatterns defaultDecision MatchCommandGlob of
        (decision, matched, reason) \<Rightarrow>
          \<lparr>cd_Decision = decision, cd_MatchedPattern = matched, cd_Reason = reason\<rparr>)"

section \<open>Properties of the decisions\<close>

definition patternHits :: "(string \<Rightarrow> string \<Rightarrow> bool) \<Rightarrow> string \<Rightarrow> string list \<Rightarrow> bool" where
  "patternHits match target ps \<longleftrightarrow>
     (\<exists>p \<in> set ps. TrimSpace p \<noteq> [] \<and> match (TrimSpace p) (TrimSpace target))"

lemma firstMatch_None: "firstMatch match (TrimSpace target) ps = None \<longleftrightarrow> \<not> patternHits match target ps"
  by (induction ps) (auto simp: patternHits_def Let_def)

lemma firstMatch_Some:
  "firstMatch match (TrimSpace target) ps = Some p \<Longrightarrow> patternHits match target ps"
  using firstMatch_None [of match target ps] by fastforce

text \<open>
  Deny patterns win, and nothing is allowed by accident: a target is denied exactly if a deny
  pattern matches it, or no allow pattern does and the default says deny; it is allowed exactly
  if no deny pattern matches and either an allow pattern does or the default says allow; every
  other target, one with an unreadable default included, is asked about.
\<close>

theorem decide_deny_first:
  "(fst (decideByMatcher target allow deny def match) = DecisionDeny \<longleftrightarrow>
      patternHits match target deny \<or>
      (\<not> patternHits match target allow \<and> EqualFold (TrimSpace def) ''deny'')) \<and>
   (fst (decideByMatcher target allow deny def match) = DecisionAllow \<longleftrightarrow>
      \<not> patternHits match target deny \<and>
      (patternHits match target allow \<or> EqualFold (TrimSpace def) ''allow'')) \<and>
   Decision_Valid (fst (decideByMatcher target allow deny def match))"
proof -
  have low: "ToLower ''allow'' = ''allow''" "ToLower ''deny'' = ''deny''" by code_simp+
  have ne: "TrimSpace def \<noteq> []" if "ToLower (TrimSpace def) \<in> {''allow'', ''deny''}"
    using that by auto
  show ?thesis
    using firstMatch_None [of match target deny] firstMatch_None [of match target allow] ne
    by (auto simp: decideByMatcher_def DecisionOr_def ParseDecision_def Decision_Valid_def EqualFold_def low Let_def
        split: option.split)
qed

section \<open>Command patterns against their grammar\<close>

text \<open>
  The documented grammar, on code points: \<open>*\<close> matches any run of characters, \<open>?\<close> exactly one, a backslash
  the character after it, and every other character itself. A backslash at the end of a pattern, of which
  the comment does not speak, stands for itself.
\<close>

inductive cmdGlob :: "nat list \<Rightarrow> nat list \<Rightarrow> bool" where
  Done: "cmdGlob [] []"
| Escaped: "cmdGlob ps xs \<Longrightarrow> cmdGlob (0x5C # c # ps) (c # xs)"
| LastBackslash: "cmdGlob [0x5C] [0x5C]"
| StarEnd: "cmdGlob ps xs \<Longrightarrow> cmdGlob (0x2A # ps) xs"
| StarMore: "cmdGlob (0x2A # ps) xs \<Longrightarrow> cmdGlob (0x2A # ps) (x # xs)"
| Question: "cmdGlob ps xs \<Longrightarrow> cmdGlob (0x3F # ps) (x # xs)"
| Literal: "c \<notin> {0x5C, 0x2A, 0x3F} \<Longrightarrow> cmdGlob ps xs \<Longrightarrow> cmdGlob (c # ps) (c # xs)"

inductive_cases cmdGlob_NilE: "cmdGlob [] xs"
inductive_cases cmdGlob_ConsE: "cmdGlob (c # ps) xs"

lemma afterRun_all: "list_ex P (afterRun (\<lambda>_. True) xs) \<longleftrightarrow> (\<exists>pre suf. xs = pre @ suf \<and> P suf)"
proof (induction xs)
  case (Cons x xs)
  show ?case
  proof
    assume "list_ex P (afterRun (\<lambda>_. True) (x # xs))"
    then have "P (x # xs) \<or> (\<exists>pre suf. xs = pre @ suf \<and> P suf)" using Cons by simp
    then show "\<exists>pre suf. x # xs = pre @ suf \<and> P suf" by (metis append_Cons append_Nil)
  next
    assume "\<exists>pre suf. x # xs = pre @ suf \<and> P suf"
    then show "list_ex P (afterRun (\<lambda>_. True) (x # xs))" using Cons by (auto simp: Cons_eq_append_conv)
  qed
qed simp

lemma cmdGlob_star: "cmdGlob (0x2A # ps) xs \<longleftrightarrow> (\<exists>pre suf. xs = pre @ suf \<and> cmdGlob ps suf)"
proof
  have "q = 0x2A # ps \<Longrightarrow> \<exists>pre suf. xs = pre @ suf \<and> cmdGlob ps suf" if "cmdGlob q xs" for q
    using that
  proof (induction q xs rule: cmdGlob.induct)
    case (StarEnd qs xs)
    then show ?case by (metis append_Nil list.inject)
  next
    case (StarMore qs xs x)
    then show ?case by (metis append_Cons)
  next
    case (Literal c qs xs)
    then show ?case by blast
  qed simp_all
  then show "cmdGlob (0x2A # ps) xs \<Longrightarrow> \<exists>pre suf. xs = pre @ suf \<and> cmdGlob ps suf" by blast
next
  assume "\<exists>pre suf. xs = pre @ suf \<and> cmdGlob ps suf"
  then obtain pre suf where "xs = pre @ suf" "cmdGlob ps suf" by blast
  moreover have "cmdGlob (0x2A # ps) (pre @ suf)" if "cmdGlob ps suf"
    using that by (induction pre) (simp_all add: cmdGlob.StarEnd cmdGlob.StarMore)
  ultimately show "cmdGlob (0x2A # ps) xs" by simp
qed

lemma dotOk_True: "dotOk True = (\<lambda>_. True)"
  by (rule ext) (simp add: dotOk_def)

lemma byteOf_eq: "byteOf c = byteOf d \<longleftrightarrow> c = d"
  by (simp add: byteOf_def)

lemma byteOf_special:
  "byteOf c = 0x5C \<longleftrightarrow> c = CHR 0x5C" "byteOf c = 0x2A \<longleftrightarrow> c = CHR ''*''" "byteOf c = 0x3F \<longleftrightarrow> c = CHR ''?''"
  using byteOf_eq [of c "CHR 0x5C"] byteOf_eq [of c "CHR ''*''"] byteOf_eq [of c "CHR ''?''"] by (simp_all add: byteOf_def)

text \<open>The translation takes each byte of the pattern for a code point.\<close>

lemma regex_iff_grammar: "matchRe (commandGlobToRegex ps) xs \<longleftrightarrow> cmdGlob (map byteOf ps) xs"
proof (induction ps arbitrary: xs rule: commandGlobToRegex.induct)
  case 1
  show ?case by (auto intro: cmdGlob.Done elim: cmdGlob_NilE)
next
  case (2 c cs)
  consider (esc) "c = CHR 0x5C" | (star) "c = CHR ''*''" | (quest) "c = CHR ''?''"
    | (lit) "c \<notin> {CHR 0x5C, CHR ''*'', CHR ''?''}" by blast
  then show ?case
  proof cases
    case esc
    have b: "byteOf c = 0x5C" using esc byteOf_special by blast
    show ?thesis using 2(1) [OF esc] esc b
      by (cases cs; cases xs) (auto intro: cmdGlob.intros elim: cmdGlob_ConsE)
  next
    case star
    then have "byteOf c = 0x2A" using byteOf_special by blast
    then show ?thesis using 2 star by (simp add: cmdGlob_star dotOk_True afterRun_all)
  next
    case quest
    then have "byteOf c = 0x3F" using byteOf_special by blast
    then show ?thesis using 2 quest by (cases xs) (auto simp: dotOk_def intro: cmdGlob.intros elim: cmdGlob_ConsE)
  next
    case lit
    then have "byteOf c \<notin> {0x5C, 0x2A, 0x3F}" using byteOf_special by blast
    then show ?thesis using 2 lit by (cases xs) (auto intro: cmdGlob.intros elim: cmdGlob_ConsE)
  qed
qed

definition asciiText :: "string \<Rightarrow> bool" where
  "asciiText s \<longleftrightarrow> list_all (\<lambda>c. byteOf c < 0x80) s"

lemma runes_ascii: "asciiText s \<Longrightarrow> runes s = map byteOf s"
proof (induction s)
  case Nil
  show ?case by (simp add: runes_def runesOf.simps)
next
  case (Cons c s)
  then have c: "byteOf c < 0x80" and s: "runes s = map byteOf s" by (simp_all add: asciiText_def)
  have "decodeRune (byteOf c # map byteOf s) = (byteOf c, 1)" using c by (simp add: decodeRune_def Let_def)
  then show ?case using s by (simp add: runes_def runesOf.simps [of "byteOf c # map byteOf s"])
qed

lemma TrimSpace_subset: "set (TrimSpace s) \<subseteq> set s"
  by (auto simp: TrimSpace_def dest!: set_dropWhileD)

text \<open>
  \<^bold>\<open>C37.\<close> Command patterns in ASCII follow their documented grammar: such a pattern matches a command line,
  of any characters, exactly if it is not blank and the grammar derives the whole line from the trimmed pattern,
  both read as code points. Patterns with other characters do not follow it
  (\<open>nonascii_literal_never_matches\<close>).
\<close>

theorem matchCommandGlob_grammar:
  assumes "asciiText pattern"
  shows "MatchCommandGlob pattern line \<longleftrightarrow> TrimSpace pattern \<noteq> [] \<and> cmdGlob (runes (TrimSpace pattern)) (runes line)"
proof -
  have "asciiText (TrimSpace pattern)" using assms TrimSpace_subset [of pattern] by (auto simp: asciiText_def list_all_iff)
  then have r: "runes (TrimSpace pattern) = map byteOf (TrimSpace pattern)" by (rule runes_ascii)
  have "byteOf CHR ''*'' = 0x2A" using byteOf_special(2) by blast
  then have "map byteOf permissionMatchAll = [0x2A, 0x2A]" by (simp add: permissionMatchAll_def)
  then have "cmdGlob (map byteOf permissionMatchAll) xs" for xs
    using cmdGlob_star [of "[]"] cmdGlob_star [of "[0x2A]"] cmdGlob.Done by (metis append_Nil append_Nil2)
  then show ?thesis unfolding r by (auto simp: MatchCommandGlob_def regex_iff_grammar Let_def)
qed

theorem matchCommandGlob_grammar_witness:
  "MatchCommandGlob ''git * ?.go'' ''git add -- a.go'' \<and> cmdGlob (runes ''git * ?.go'') (runes ''git add -- a.go'')"
proof -
  have "asciiText ''git * ?.go''" by code_simp
  moreover have "MatchCommandGlob ''git * ?.go'' ''git add -- a.go''" by code_simp
  moreover have "TrimSpace ''git * ?.go'' = ''git * ?.go''" by code_simp
  ultimately show ?thesis using matchCommandGlob_grammar [of "''git * ?.go''" "''git add -- a.go''"] by simp
qed

text \<open>
  Literals outside ASCII never match: the translation quotes each byte of the pattern as a code
  point of its own, so the pattern made of a two-byte character does not match that character.
\<close>

theorem nonascii_literal_never_matches:
  "\<not> MatchCommandGlob [char_of (0xC3 :: nat), char_of (0xA9 :: nat)] [char_of (0xC3 :: nat), char_of (0xA9 :: nat)]"
  by code_simp

section \<open>Path patterns and newlines\<close>

text \<open>
  A newline in a file name escapes a recursive deny pattern: the pattern \<open>secret/**\<close> denies the
  file \<open>secret/key\<close>, but a file in the same directory whose name holds a newline is allowed when the
  allow pattern is \<open>**\<close>.
\<close>

theorem newline_escapes_deny:
  "fst (DecideByPatterns ''secret/key'' [''**''] [''secret/**''] []) = DecisionDeny \<and>
   fst (DecideByPatterns (''secret/k'' @ [char_of (10 :: nat)] @ ''ey'') [''**''] [''secret/**''] []) = DecisionAllow"
  by code_simp

section \<open>The cache of compiled patterns\<close>

text \<open>The list is ordered by use, most recent first; \<open>compile\<close> is \<open>regexp.Compile\<close>.\<close>

record 'r compiledGlobCache =
  gc_maxSize :: int
  gc_ll :: "string list"
  gc_cache :: "(string \<times> 'r) list"

definition newCompiledGlobCache :: "int \<Rightarrow> 'r compiledGlobCache" where
  "newCompiledGlobCache maxSize =
     \<lparr>gc_maxSize = (if maxSize \<le> 0 then 256 else maxSize), gc_ll = [], gc_cache = []\<rparr>"

definition glob_evictLocked :: "'r compiledGlobCache \<Rightarrow> 'r compiledGlobCache" where
  "glob_evictLocked c =
     (if gc_ll c = [] then c
      else c\<lparr>gc_ll := butlast (gc_ll c), gc_cache := AList.delete (last (gc_ll c)) (gc_cache c)\<rparr>)"

definition glob_get ::
  "(string \<Rightarrow> goerr + 'r) \<Rightarrow> string \<Rightarrow> 'r compiledGlobCache \<Rightarrow> (goerr + 'r) \<times> 'r compiledGlobCache" where
  "glob_get compile pattern c =
     (case map_of (gc_cache c) pattern of
        Some regex \<Rightarrow> (Inr regex, c\<lparr>gc_ll := pattern # remove1 pattern (gc_ll c)\<rparr>)
      | None \<Rightarrow>
          (case compile pattern of
             Inl err \<Rightarrow> (Inl err, c)
           | Inr compiled \<Rightarrow>
               let c = (if int (length (gc_cache c)) \<ge> gc_maxSize c then glob_evictLocked c else c)
               in (Inr compiled, c\<lparr>gc_ll := pattern # gc_ll c,
                                   gc_cache := AList.update pattern compiled (gc_cache c)\<rparr>)))"

definition glob_len :: "'r compiledGlobCache \<Rightarrow> nat" where
  "glob_len c = length (gc_cache c)"

fun glob_gets :: "(string \<Rightarrow> goerr + 'r) \<Rightarrow> string list \<Rightarrow> 'r compiledGlobCache \<Rightarrow> 'r compiledGlobCache" where
  "glob_gets compile [] c = c"
| "glob_gets compile (p # ps) c = glob_gets compile ps (snd (glob_get compile p c))"

definition glob_inv :: "(string \<Rightarrow> goerr + 'r) \<Rightarrow> 'r compiledGlobCache \<Rightarrow> bool" where
  "glob_inv compile c \<longleftrightarrow>
     distinct (gokeys (gc_cache c)) \<and> distinct (gc_ll c) \<and> set (gc_ll c) = set (gokeys (gc_cache c)) \<and>
     0 < gc_maxSize c \<and> int (length (gc_ll c)) \<le> gc_maxSize c \<and>
     (\<forall>p r. map_of (gc_cache c) p = Some r \<longrightarrow> compile p = Inr r)"

lemma glob_inv_len: "glob_inv compile c \<Longrightarrow> glob_len c = length (gc_ll c)"
  by (metis glob_inv_def glob_len_def distinct_card length_map)

lemma glob_evict_inv:
  assumes "glob_inv compile c" and "gc_ll c \<noteq> []"
  shows "glob_inv compile (glob_evictLocked c)" and "length (gc_ll (glob_evictLocked c)) < length (gc_ll c)"
proof -
  obtain xs x where o: "gc_ll c = xs @ [x]" using assms(2) by (metis append_butlast_last_id)
  then have d: "distinct (xs @ [x])" "set (gokeys (gc_cache c)) = insert x (set xs)"
    using assms(1) by (auto simp: glob_inv_def simp del: set_map)
  show "glob_inv compile (glob_evictLocked c)"
    unfolding glob_inv_def
  proof (intro conjI)
    have eq: "glob_evictLocked c = c\<lparr>gc_ll := xs, gc_cache := AList.delete x (gc_cache c)\<rparr>"
      by (simp add: glob_evictLocked_def o)
    show "set (gc_ll (glob_evictLocked c)) = set (gokeys (gc_cache (glob_evictLocked c)))"
      using d by (auto simp: eq set_gokeys_delete simp del: set_map)
    show "distinct (gokeys (gc_cache (glob_evictLocked c)))"
      using assms(1) by (simp add: eq glob_inv_def distinct_delete)
    show "distinct (gc_ll (glob_evictLocked c))" using d by (simp add: eq)
    show "0 < gc_maxSize (glob_evictLocked c)" "int (length (gc_ll (glob_evictLocked c))) \<le> gc_maxSize (glob_evictLocked c)"
      using assms(1) o by (simp_all add: eq glob_inv_def)
    show "\<forall>p r. map_of (gc_cache (glob_evictLocked c)) p = Some r \<longrightarrow> compile p = Inr r"
      using assms(1) by (simp add: eq glob_inv_def)
  qed
  show "length (gc_ll (glob_evictLocked c)) < length (gc_ll c)" by (simp add: o glob_evictLocked_def)
qed

lemma glob_get_inv:
  assumes "glob_inv compile c"
  shows "glob_inv compile (snd (glob_get compile p c))"
proof (cases "map_of (gc_cache c) p")
  case (Some r)
  then have "p \<in> set (gc_ll c)" using assms map_of_Some_key [OF Some] by (simp add: glob_inv_def)
  then have "length (p # remove1 p (gc_ll c)) = length (gc_ll c)" "set (p # remove1 p (gc_ll c)) = set (gc_ll c)"
    using assms by (auto simp: glob_inv_def length_remove1 Suc_pred [OF length_pos_if_in_set])
  then show ?thesis using Some assms by (simp add: glob_get_def glob_inv_def)
next
  case None
  show ?thesis
  proof (cases "compile p")
    case (Inr r)
    define c' where "c' = (if int (length (gc_cache c)) \<ge> gc_maxSize c then glob_evictLocked c else c)"
    have "gc_ll c \<noteq> []" if "int (length (gc_cache c)) \<ge> gc_maxSize c"
      using that assms glob_inv_len [OF assms] by (auto simp: glob_inv_def glob_len_def)
    then have inv': "glob_inv compile c'" and room: "int (length (gc_ll c')) < gc_maxSize c'"
      using assms glob_evict_inv [OF assms] glob_inv_len [OF assms]
      by (auto simp: c'_def glob_inv_def glob_len_def glob_evictLocked_def)
    have "map_of (gc_cache c') p = None" using None by (simp add: c'_def glob_evictLocked_def)
    then have "p \<notin> set (gc_ll c')" using inv' by (simp add: glob_inv_def map_of_None_keys del: set_map)
    then show ?thesis
      using None Inr inv' room
      by (simp add: glob_get_def c'_def [symmetric] glob_inv_def set_gokeys_update Let_def distinct_update del: set_map)
  qed (simp add: glob_get_def None assms)
qed

text \<open>
  The cache of compiled patterns is transparent and bounded: after any sequence of lookups, a
  lookup answers what compiling the pattern answers, and the cache holds at most its configured
  number of patterns (256 when none is configured).
\<close>

theorem glob_cache_transparent:
  fixes maxSize :: int and compile :: "string \<Rightarrow> goerr + 'r" and patterns :: "string list"
  defines "c \<equiv> glob_gets compile patterns (newCompiledGlobCache maxSize)"
  shows "fst (glob_get compile pattern c) = compile pattern \<and>
         int (glob_len c) \<le> (if maxSize \<le> 0 then 256 else maxSize)"
proof -
  have "glob_inv compile c0 \<Longrightarrow> glob_inv compile (glob_gets compile patterns c0) \<and>
      gc_maxSize (glob_gets compile patterns c0) = gc_maxSize c0" for c0
  proof (induction patterns arbitrary: c0)
    case (Cons p ps)
    have "gc_maxSize (snd (glob_get compile p c0)) = gc_maxSize c0"
      by (auto simp: glob_get_def glob_evictLocked_def Let_def split: option.split sum.split)
    then show ?case using Cons glob_get_inv [of compile c0 p] by simp
  qed simp
  moreover have "glob_inv compile (newCompiledGlobCache maxSize)"
    by (simp add: glob_inv_def newCompiledGlobCache_def)
  ultimately have inv: "glob_inv compile c" and size: "gc_maxSize c = (if maxSize \<le> 0 then 256 else maxSize)"
    by (auto simp: c_def newCompiledGlobCache_def)
  have "fst (glob_get compile pattern c) = compile pattern"
    using inv by (auto simp: glob_get_def glob_inv_def Let_def split: option.split sum.split)
  then show ?thesis using inv size glob_inv_len [OF inv] by (simp add: glob_inv_def)
qed

end
