(* ===== verification/PermFile.thy ===== *)
theory PermFile
  imports Grants Globs
begin

text \<open>
  Checks of file accesses against the declared permissions
  (\<open>governance/authorization/perm_file.go\<close>) and the audit of granted accesses (\<open>log\<close> in
  \<open>perm_delegation.go\<close>).

  The file system is a parameter: \<open>ev path\<close> is what \<open>filepath.EvalSymlinks\<close> answers for a path, \<open>None\<close>
  for an error, and \<open>cwd\<close> the working directory. \<open>now\<close> is the reading of the clock by the verdict
  cache and \<open>ts\<close> the time stamp of the audit record.
\<close>

section \<open>Paths\<close>

type_synonym evalSymlinks = "string \<Rightarrow> string option"

text \<open>The walk up to the longest ancestor that exists. Every directory the loop visits is clean, so each
  step has one component less.\<close>

function resolveLoop :: "evalSymlinks \<Rightarrow> string \<Rightarrow> string list \<Rightarrow> string \<Rightarrow> string option" where
  "resolveLoop ev clean sfx parent =
     (if parent = ''.'' \<or> parent = ''/'' \<or> parent = clean then None
      else case ev parent of
        Some resolved \<Rightarrow> Some (Clean (fold (\<lambda>s r. Join [r, s]) (rev sfx) resolved))
      | None \<Rightarrow> resolveLoop ev clean (sfx @ [Base parent]) (Dir parent))"
  by pat_completeness auto
termination
proof (relation "measure (\<lambda>(ev, clean, sfx, p). if Clean p = p then length (pathComps p) else Suc (length (pathComps (Dir p))))")
  fix ev :: evalSymlinks and clean :: string and sfx :: "string list" and p :: string
  assume stop: "\<not> (p = ''.'' \<or> p = ''/'' \<or> p = clean)"
  have "Clean (Dir p) = Dir p" by (simp add: Dir_def)
  moreover have "length (pathComps (Dir p)) < length (pathComps p)" if "Clean p = p"
    using pathComps_Dir [OF that] Clean_empty_comps [OF that] stop by (cases "pathComps p") auto
  ultimately show "((ev, clean, sfx @ [Base p], Dir p), ev, clean, sfx, p)
      \<in> measure (\<lambda>(ev, clean, sfx, p). if Clean p = p then length (pathComps p) else Suc (length (pathComps (Dir p))))"
    by auto
qed simp

declare resolveLoop.simps [simp del]

definition resolveCanonicalPath :: "evalSymlinks \<Rightarrow> string \<Rightarrow> goerr + string" where
  "resolveCanonicalPath ev path =
     (if path = [] then Inl (Err ''path required'')
      else let clean = Clean path in
        case ev clean of
          Some resolved \<Rightarrow> Inr (Clean resolved)
        | None \<Rightarrow>
            (case resolveLoop ev clean [Base clean] (Dir clean) of
               Some resolved \<Rightarrow> Inr resolved
             | None \<Rightarrow> Inr clean))"

definition quote :: "string \<Rightarrow> string" where
  "quote s = [CHR 0x22] @ s @ [CHR 0x22]"

definition normalizePath :: "evalSymlinks \<Rightarrow> PermissionManager \<Rightarrow> string \<Rightarrow> goerr + string" where
  "normalizePath ev m path =
     (if path = [] then Inl (Err ''path required'')
      else if \<not> IsAbs path \<and> pm_basePath m = [] then Inr (Clean path)
      else
        let resolved = Clean (if IsAbs path then path else Join [pm_basePath m, path]);
            resolved = (case resolveCanonicalPath ev resolved of Inr canonical \<Rightarrow> canonical | Inl _ \<Rightarrow> resolved);
            base = Clean (pm_basePath m)
        in if resolved \<noteq> base \<and> \<not> prefix (base @ ''/'') resolved
           then Inl (Err (''path '' @ quote resolved @ '' escapes workspace '' @ quote base))
           else Inr resolved)"

section \<open>Guarded roots\<close>

definition pathWithinRoot :: "string \<Rightarrow> string \<Rightarrow> bool" where
  "pathWithinRoot target root =
     (let target = Clean target; root = Clean root in
      if root = [] then False else target = root \<or> prefix (root @ ''/'') target)"

fun normalizeRoots :: "string option \<Rightarrow> string list \<Rightarrow> string list \<Rightarrow> string list" where
  "normalizeRoots cwd [] out = out"
| "normalizeRoots cwd (path # paths) out =
     (let path = TrimSpace path in
      if path = [] then normalizeRoots cwd paths out
      else
        let path = (case Abs cwd path of Inr a \<Rightarrow> a | Inl _ \<Rightarrow> path);
            path = Clean path
        in if path = [] \<or> path = ''.'' \<or> path \<in> set out then normalizeRoots cwd paths out
           else normalizeRoots cwd paths (out @ [path]))"

definition normalizeFilesystemRoots :: "string option \<Rightarrow> string list \<Rightarrow> string list" where
  "normalizeFilesystemRoots cwd paths = normalizeRoots cwd paths []"

definition SetFilesystemGuardRoots ::
  "string option \<Rightarrow> string list \<Rightarrow> string list \<Rightarrow> PermissionManager \<Rightarrow> PermissionManager" where
  "SetFilesystemGuardRoots cwd protectedRoots excludedRoots m =
     m\<lparr>pm_fsProtectedRoots := normalizeFilesystemRoots cwd protectedRoots,
       pm_fsExcludedRoots := normalizeFilesystemRoots cwd excludedRoots,
       pm_fsPermCache := cache_Reset (pm_fsPermCache m)\<rparr>"

definition filesystemGuardRootsSnapshot :: "PermissionManager \<Rightarrow> string list" where
  "filesystemGuardRootsSnapshot m = pm_fsProtectedRoots m @ pm_fsExcludedRoots m"

definition isFilesystemProtectedPath :: "PermissionManager \<Rightarrow> string \<Rightarrow> bool" where
  "isFilesystemProtectedPath m path = list_ex (\<lambda>root. root \<noteq> [] \<and> pathWithinRoot path root) (pm_fsProtectedRoots m)"

definition isFilesystemExcludedPath :: "string \<Rightarrow> string list \<Rightarrow> bool" where
  "isFilesystemExcludedPath path roots = list_ex (\<lambda>root. root \<noteq> [] \<and> pathWithinRoot path root) roots"

definition filesystemPatternTargetsExcludedRoot :: "string \<Rightarrow> string list \<Rightarrow> bool" where
  "filesystemPatternTargetsExcludedRoot pattern roots =
     (let pattern = Clean (TrimSpace pattern) in
      if pattern = [] then False
      else list_ex (\<lambda>root. root \<noteq> [] \<and> (let root = Clean root in pattern = root \<or> prefix (root @ ''/'') pattern)) roots)"

section \<open>The declared permission of an access\<close>

definition permApplies :: "string list \<Rightarrow> string \<Rightarrow> string \<Rightarrow> FileSystemPermission \<Rightarrow> bool" where
  "permApplies roots action path perm \<longleftrightarrow>
     fp_Action perm = action \<and> matchGlob (fp_Path perm) path \<and>
     \<not> (roots \<noteq> [] \<and> isFilesystemExcludedPath path roots \<and> \<not> filesystemPatternTargetsExcludedRoot (fp_Path perm) roots)"

definition findFilesystemPermission ::
  "time \<Rightarrow> string \<Rightarrow> string \<Rightarrow> PermissionManager \<Rightarrow> FileSystemPermission option \<times> PermissionManager" where
  "findFilesystemPermission now action path m =
     (let normalized = Clean path in
      if isFilesystemProtectedPath m normalized then (None, m)
      else
        let cacheKey = action @ '':'' @ normalized in
        case cache_Get now cacheKey (pm_fsPermCache m) of
          (Some perm, cache) \<Rightarrow> (perm, m\<lparr>pm_fsPermCache := cache\<rparr>)
        | (None, cache) \<Rightarrow>
            let matched = find (permApplies (filesystemGuardRootsSnapshot m) action normalized) (ps_FileSystem (pm_declared m))
            in (matched, m\<lparr>pm_fsPermCache := cache_Put now cacheKey matched cache\<rparr>))"

section \<open>Audit\<close>

text \<open>\<open>log\<close>: the record handed to the logger, and the logger's error.\<close>

definition auditRecord :: "time \<Rightarrow> string \<Rightarrow> PermissionDescriptor \<Rightarrow> string \<Rightarrow> (string \<times> anyVal) list \<Rightarrow> AuditRecord" where
  "auditRecord ts agentID desc result meta =
     \<lparr>au_Timestamp = ts, au_AgentID = agentID, au_Action = dp_Action desc, au_Type = dp_Type desc,
      au_Permission = redactSensitivePath (dp_Resource desc), au_Result = result,
      au_Metadata = redactMetadataMap meta, au_User = [], au_Correlation = agentID\<rparr>"

definition auditLog ::
  "PermissionManager \<Rightarrow> time \<Rightarrow> string \<Rightarrow> PermissionDescriptor \<Rightarrow> string \<Rightarrow> (string \<times> anyVal) list \<Rightarrow> goerr option" where
  "auditLog m ts agentID desc result meta =
     (case pm_audit m of None \<Rightarrow> None | Some logger \<Rightarrow> logger (auditRecord ts agentID desc result meta))"

definition descriptor :: "string \<Rightarrow> string \<Rightarrow> string \<Rightarrow> bool \<Rightarrow> PermissionDescriptor" where
  "descriptor ty action resource hitl =
     \<lparr>dp_Type = ty, dp_Action = action, dp_Resource = resource, dp_Metadata = [], dp_RequiresHITL = hitl\<rparr>"

text \<open>What happens to an access that nothing declares: the default decision denies it or asks.\<close>

definition undeclared ::
  "(nat \<Rightarrow> time) \<Rightarrow> string \<Rightarrow> PermissionDescriptor \<Rightarrow> string \<Rightarrow> PermissionManager \<Rightarrow> goerr option \<times> PermissionManager" where
  "undeclared clk ctxAgent desc reason m =
     (if effectiveDefaultDecision m = DecisionDeny then (Some (Err reason), m)
      else ensureGrant clk ctxAgent (desc\<lparr>dp_RequiresHITL := True\<rparr>) m)"

section \<open>File access\<close>

definition CheckFileAccess ::
  "evalSymlinks \<Rightarrow> (nat \<Rightarrow> time) \<Rightarrow> time \<Rightarrow> time \<Rightarrow> string \<Rightarrow> string \<Rightarrow> string \<Rightarrow> string \<Rightarrow> PermissionManager \<Rightarrow>
   goerr option \<times> PermissionManager" where
  "CheckFileAccess ev clk now ts ctxAgent agentID action path m =
     (case normalizePath ev m path of
        Inl err \<Rightarrow> (Some (Wrap ''path escapes workspace: '' err), m)
      | Inr clean \<Rightarrow>
          (case findFilesystemPermission now action clean m of
             (None, m) \<Rightarrow>
               undeclared clk ctxAgent (descriptor PermissionTypeFilesystem action clean False) ''not declared'' m
           | (Some perm, m) \<Rightarrow>
               (case (if fp_HITLRequired perm
                      then ensureGrant clk ctxAgent (descriptor PermissionTypeFilesystem action (fp_Path perm) True) m
                      else (None, m)) of
                  (Some err, m) \<Rightarrow> (Some err, m)
                | (None, m) \<Rightarrow>
                    (auditLog m ts agentID (descriptor PermissionTypeFilesystem action clean False) ''granted''
                       [(''pattern'', AString (fp_Path perm)), (''fs_action'', AString action)], m))))"

definition StaticallyAllowsFileAccess ::
  "evalSymlinks \<Rightarrow> time \<Rightarrow> string \<Rightarrow> string \<Rightarrow> PermissionManager \<Rightarrow> bool \<times> PermissionManager" where
  "StaticallyAllowsFileAccess ev now action path m =
     (case normalizePath ev m path of
        Inl err \<Rightarrow> (False, m)
      | Inr clean \<Rightarrow>
          (case findFilesystemPermission now action clean m of
             (None, m) \<Rightarrow> (False, m)
           | (Some perm, m) \<Rightarrow> (\<not> fp_HITLRequired perm, m)))"

section \<open>The file matrix\<close>

record AgentFilePermissionSet =
  af_AllowPatterns :: "string list"
  af_DenyPatterns :: "string list"
  af_Default :: string
  af_RequireApproval :: bool
  af_DocumentationOnly :: bool

record AgentFileMatrix =
  am_Write :: AgentFilePermissionSet
  am_Edit :: AgentFilePermissionSet

fun validatePatterns :: "string \<Rightarrow> string list \<Rightarrow> goerr option" where
  "validatePatterns label [] = None"
| "validatePatterns label (pattern # patterns) =
     (let pattern = TrimSpace pattern in
      if pattern = [] then Some (Err (label @ '' permission contains empty glob''))
      else if strContains pattern ''//'' then Some (Err (label @ '' permission glob '' @ pattern @ '' invalid''))
      else validatePatterns label patterns)"

definition validateAgentFilePermissionSet :: "string \<Rightarrow> AgentFilePermissionSet \<Rightarrow> goerr option" where
  "validateAgentFilePermissionSet label perms =
     (case validatePatterns label (af_AllowPatterns perms @ af_DenyPatterns perms) of
        Some err \<Rightarrow> Some err
      | None \<Rightarrow>
          (case DecisionOr (af_Default perms) DecisionAsk of
             Inl err \<Rightarrow> Some (Wrap (label @ '' permission default '' @ af_Default perms @ '' invalid: '') err)
           | Inr _ \<Rightarrow> None))"

definition ValidateAgentFileMatrix :: "AgentFileMatrix \<Rightarrow> goerr option" where
  "ValidateAgentFileMatrix f =
     (case validateAgentFilePermissionSet ''write'' (am_Write f) of
        Some err \<Rightarrow> Some err
      | None \<Rightarrow> validateAgentFilePermissionSet ''edit'' (am_Edit f))"

definition CheckFilePermission ::
  "(nat \<Rightarrow> time) \<Rightarrow> string \<Rightarrow> string \<Rightarrow> string \<Rightarrow> string \<Rightarrow> AgentFileMatrix \<Rightarrow> PermissionManager option \<Rightarrow>
   goerr option \<times> PermissionManager option" where
  "CheckFilePermission clk ctxAgent basePath action absPath matrix m =
     (let rel = (if basePath \<noteq> [] then (case Rel basePath absPath of Inr r \<Rightarrow> r | Inl _ \<Rightarrow> absPath) else absPath);
          rel = TrimPrefix (Clean rel) ''./'';
          perm = (if action = ''edit'' then am_Edit matrix else am_Write matrix)
      in if af_DocumentationOnly perm \<and> \<not> suffix ''.md'' (ToLower rel)
         then (Some (Err (''file '' @ rel @ '' blocked: documentation_only enabled'')), m)
         else
           let decision = fst (DecideByPatterns rel (af_AllowPatterns perm) (af_DenyPatterns perm) (af_Default perm));
               decision = (if af_RequireApproval perm then DecisionAsk else decision)
           in if decision = DecisionAllow then (None, m)
              else if decision = DecisionDeny then (Some (Err (''file '' @ rel @ '' blocked: denied by file_permissions'')), m)
              else if decision = DecisionAsk then
                (case m of
                   None \<Rightarrow> (Some (Err (''file '' @ rel @ '' blocked: approval required but permission manager missing'')), None)
                 | Some manager \<Rightarrow>
                     (case RequireApproval clk ctxAgent
                             (descriptor PermissionTypeHITL (''file_matrix:'' @ action) rel True)
                             ''file permission matrix'' GrantScopeOneTime RiskLevelMedium 0 manager of
                        (err, manager) \<Rightarrow> (err, Some manager)))
              else (None, m))"

section \<open>Containment in the workspace\<close>

lemma resolveCanonicalPath_clean: "resolveCanonicalPath ev path = Inr r \<Longrightarrow> Clean r = r"
proof -
  assume "resolveCanonicalPath ev path = Inr r"
  moreover have "Clean s = s" if "resolveLoop ev clean sfx parent = Some s" for clean sfx parent s
    using that by (induction ev clean sfx parent rule: resolveLoop.induct)
      (subst (asm) resolveLoop.simps, auto split: if_splits option.splits)
  ultimately show ?thesis by (auto simp: resolveCanonicalPath_def Let_def split: if_splits option.splits)
qed

lemma normalizePath_clean: "normalizePath ev m path = Inr clean \<Longrightarrow> Clean clean = clean"
  by (auto simp: normalizePath_def Let_def resolveCanonicalPath_clean split: if_splits sum.splits)

text \<open>
  A path that passes normalization lies in the workspace, whatever the file system answers about links:
  its components are those of the workspace, followed by components without a parent reference.
\<close>

lemma normalizePath_inside:
  assumes "IsAbs (pm_basePath m)" and "pathComps (pm_basePath m) \<noteq> []" and "normalizePath ev m path = Inr clean"
  shows "\<exists>rest. pathComps clean = pathComps (pm_basePath m) @ rest \<and> ''..'' \<notin> set rest"
proof -
  let ?base = "pm_basePath m"
  note clean = normalizePath_clean [OF assms(3)]
  have "pm_basePath m \<noteq> []" using assms(1) by (auto simp: IsAbs_def)
  with assms(3) have within: "clean = Clean ?base \<or> prefix (Clean ?base @ ''/'') clean"
    by (auto simp: normalizePath_def Let_def split: if_splits)
  moreover have "IsAbs (Clean ?base)" using assms(1) by simp
  ultimately have abs: "IsAbs clean" by (auto simp: IsAbs_def prefix_def)
  have "prefix (pathComps ?base) (pathComps clean)"
    using within clean clean_within [OF assms(1,2) abs] by simp
  then obtain rest where rest: "pathComps clean = pathComps ?base @ rest" by (auto elim: prefixE)
  moreover have "''..'' \<notin> set (pathComps clean)" using pathComps_ok [of clean] abs by (simp add: comps_ok_rooted)
  ultimately show ?thesis by auto
qed

section \<open>The verdict cache\<close>

definition fileActions :: "string list" where
  "fileActions = [''fs:read'', ''fs:write'', ''fs:delete'', ''fs:rename'', ''fs:move'', ''fs:execute'', ''fs:list'']"

text \<open>The verdict without a cache.\<close>

definition fsVerdict :: "PermissionManager \<Rightarrow> string \<Rightarrow> string \<Rightarrow> FileSystemPermission option" where
  "fsVerdict m action path =
     (if isFilesystemProtectedPath m (Clean path) then None
      else find (permApplies (filesystemGuardRootsSnapshot m) action (Clean path)) (ps_FileSystem (pm_declared m)))"

text \<open>A cache without expiry whose entries all satisfy a predicate.\<close>

definition memo_ok :: "int \<Rightarrow> ('k \<Rightarrow> 'v \<Rightarrow> bool) \<Rightarrow> ('k, 'v) cache \<Rightarrow> bool" where
  "memo_ok n P c \<longleftrightarrow> liveCache n c \<and> (\<forall>k v. cacheValue c k = Some v \<longrightarrow> P k v)"

lemma cache_Get_live: "liveCache n c \<Longrightarrow> cache_Get now k c = (cacheValue c k, c)"
  by (simp add: cache_Get_def cacheValue_def expiredLocked_def liveCache_def split: option.split)

lemma memo_get: "memo_ok n P c \<Longrightarrow> cache_Get now k c = (cacheValue c k, c)"
  by (auto simp: memo_ok_def intro: cache_Get_live)

lemma memo_hit: "memo_ok n P c \<Longrightarrow> cacheValue c k = Some v \<Longrightarrow> P k v"
  by (simp add: memo_ok_def)

lemma memo_put: "memo_ok n P c \<Longrightarrow> P k v \<Longrightarrow> memo_ok n P (cache_Put now k v c)"
  unfolding memo_ok_def
  using grantstore.ok_put [of n c now k v] grantstore.lookup_put_same [of n c now k v] grantstore.lookup_put_other [of n c _ k now v]
  by (metis option.inject)

lemma memo_reset: "memo_ok n P c \<Longrightarrow> memo_ok n Q (cache_Reset c)"
  by (simp add: memo_ok_def liveCache_def cache_Reset_def cacheValue_def)

lemma memo_new: "0 < n \<Longrightarrow> memo_ok n P (NewCache n 0 b)"
  by (simp add: memo_ok_def liveCache_def NewCache_def cacheValue_def)

definition fsEntry :: "PermissionManager \<Rightarrow> string \<Rightarrow> FileSystemPermission option \<Rightarrow> bool" where
  "fsEntry m key perm \<longleftrightarrow>
     (\<exists>action \<in> set fileActions. \<exists>path. key = action @ '':'' @ path \<and>
        perm = find (permApplies (filesystemGuardRootsSnapshot m) action path) (ps_FileSystem (pm_declared m)))"

definition fs_ok :: "PermissionManager \<Rightarrow> bool" where
  "fs_ok m \<longleftrightarrow> memo_ok fsPermCacheCap (fsEntry m) (pm_fsPermCache m)"

lemma fileAction_key_inj:
  assumes "a @ '':'' @ p = b @ '':'' @ q" and "a \<in> set fileActions" and "b \<in> set fileActions"
  shows "a = b \<and> p = q"
  using assms unfolding fileActions_def by auto

lemma fsEntry_cong:
  "pm_declared m' = pm_declared m \<Longrightarrow> filesystemGuardRootsSnapshot m' = filesystemGuardRootsSnapshot m \<Longrightarrow> fsEntry m' = fsEntry m"
  by (simp add: fsEntry_def fun_eq_iff)

lemma find_fs_frame [simp]:
  "pm_fsPermCache (m\<lparr>pm_fsPermCache := c\<rparr>) = c"
  "filesystemGuardRootsSnapshot (m\<lparr>pm_fsPermCache := c\<rparr>) = filesystemGuardRootsSnapshot m"
  "fsEntry (m\<lparr>pm_fsPermCache := c\<rparr>) = fsEntry m"
  by (simp_all add: filesystemGuardRootsSnapshot_def fsEntry_def fun_eq_iff)

lemma find_fs_spec:
  assumes "fs_ok m" and "action \<in> set fileActions"
  shows "fst (findFilesystemPermission now action path m) = fsVerdict m action path"
    and "\<exists>c. snd (findFilesystemPermission now action path m) = m\<lparr>pm_fsPermCache := c\<rparr>"
    and "fs_ok (snd (findFilesystemPermission now action path m))"
proof -
  let ?p = "Clean path"
  let ?key = "action @ '':'' @ ?p" and ?v = "find (permApplies (filesystemGuardRootsSnapshot m) action ?p) (ps_FileSystem (pm_declared m))"
  have memo: "memo_ok fsPermCacheCap (fsEntry m) (pm_fsPermCache m)" using assms(1) by (simp add: fs_ok_def)
  have entry: "fsEntry m ?key ?v" using assms(2) unfolding fsEntry_def by blast
  have hit: "perm = ?v" if "cacheValue (pm_fsPermCache m) ?key = Some perm" for perm
    using memo_hit [OF memo that] fileAction_key_inj [OF _ assms(2)] unfolding fsEntry_def by blast
  have eq: "findFilesystemPermission now action path m =
      (if isFilesystemProtectedPath m ?p then (None, m)
       else (?v, m\<lparr>pm_fsPermCache := (if cacheValue (pm_fsPermCache m) ?key = None then cache_Put now ?key ?v (pm_fsPermCache m) else pm_fsPermCache m)\<rparr>))"
    using hit by (auto simp: findFilesystemPermission_def Let_def memo_get [OF memo] split: option.split)
  show "fst (findFilesystemPermission now action path m) = fsVerdict m action path" by (simp add: eq fsVerdict_def)
  show "\<exists>c. snd (findFilesystemPermission now action path m) = m\<lparr>pm_fsPermCache := c\<rparr>"
    unfolding eq by (cases "isFilesystemProtectedPath m ?p") (auto intro: exI [of _ "pm_fsPermCache m"])
  show "fs_ok (snd (findFilesystemPermission now action path m))"
    using assms(1) memo_put [OF memo entry, of now] by (auto simp: eq fs_ok_def)
qed


section \<open>Resolution of links\<close>

definition pathTo :: "string list \<Rightarrow> string" where
  "pathTo cs = CHR ''/'' # joinWith ''/'' cs"

text \<open>
  What an absolute path, given by its components, stands for after the resolution of links: the longest
  ancestor that the file system resolves (the path itself if it does; the root only for the root) with the remaining components
  appended, and the path as it is if nothing of it resolves. A link whose target does not exist counts
  as a component that is still to be created.
\<close>

definition linkResolved :: "evalSymlinks \<Rightarrow> string list \<Rightarrow> string" where
  "linkResolved ev cs =
     (case find (\<lambda>k. ev (pathTo (take k cs)) \<noteq> None) (if cs = [] then [0] else rev [1..<Suc (length cs)]) of
        None \<Rightarrow> pathTo cs
      | Some k \<Rightarrow> Clean (fold (\<lambda>s r. Join [r, s]) (drop k cs) (the (ev (pathTo (take k cs))))))"

lemma pathTo_comps: "comps_ok True cs \<Longrightarrow> pathComps (pathTo cs) = cs"
  unfolding pathTo_def by (rule pathComps_rooted)

lemma pathTo_abs [simp]: "IsAbs (pathTo cs)"
  by (simp add: pathTo_def IsAbs_def)

lemma pathTo_Clean: "comps_ok True cs \<Longrightarrow> Clean (pathTo cs) = pathTo cs"
  by (simp add: Clean_def pathTo_comps) (simp add: pathTo_def)

lemma Clean_pathTo: "IsAbs p \<Longrightarrow> Clean p = pathTo (pathComps p)"
  by (simp add: Clean_def pathTo_def)

lemma pathTo_inj: "comps_ok True cs \<Longrightarrow> comps_ok True ds \<Longrightarrow> pathTo cs = pathTo ds \<Longrightarrow> cs = ds"
  by (metis pathTo_comps)

lemma comps_ok_take: "comps_ok True cs \<Longrightarrow> comps_ok True (take k cs)"
  by (auto simp: comps_ok_rooted dest: in_set_takeD)

lemma Dir_pathTo: "comps_ok True cs \<Longrightarrow> Dir (pathTo cs) = pathTo (butlast cs)"
proof -
  assume ok: "comps_ok True cs"
  have "IsAbs (Dir (pathTo cs))"
  proof -
    have "CHR ''/'' \<in> set (pathTo cs)" by (simp add: pathTo_def)
    then have "IsAbs (rev (dropWhile (\<lambda>c. c \<noteq> CHR ''/'') (rev (pathTo cs))))"
    proof -
      obtain ys z where "rev (pathTo cs) = ys @ [z]" "z = CHR ''/''" by (simp add: pathTo_def)
      then have "\<exists>ws. dropWhile (\<lambda>c. c \<noteq> CHR ''/'') (rev (pathTo cs)) = ws @ [CHR ''/'']"
        by (cases "list_all (\<lambda>c. c \<noteq> CHR ''/'') ys")
          (auto simp: list_all_iff dropWhile_append intro: exI [of _ "dropWhile (\<lambda>c. c \<noteq> CHR ''/'') ys"])
      then show ?thesis by (auto simp: IsAbs_def)
    qed
    then show ?thesis by (simp add: Dir_def)
  qed
  then have "Dir (pathTo cs) = pathTo (pathComps (Dir (pathTo cs)))" using Clean_pathTo by (metis Clean_idem Dir_def)
  then show ?thesis using pathComps_Dir [OF pathTo_Clean [OF ok]] pathTo_comps [OF ok] by simp
qed

lemma Base_pathTo: "comps_ok True (cs @ [c]) \<Longrightarrow> Base (pathTo (cs @ [c])) = c"
proof -
  assume ok: "comps_ok True (cs @ [c])"
  then have c: "c \<noteq> []" "CHR ''/'' \<notin> set c" by (auto simp: comps_ok_rooted comp_ok_def)
  obtain p where p: "pathTo (cs @ [c]) = p @ CHR ''/'' # c"
    by (cases "cs = []") (auto simp: pathTo_def joinWith_append)
  have l: "last c \<noteq> CHR ''/''" using c last_in_set by metis
  have "dropWhile (\<lambda>x. x = CHR ''/'') (rev (p @ CHR ''/'' # c)) = rev (p @ CHR ''/'' # c)"
    using l c(1) by (cases c rule: rev_cases) auto
  then show ?thesis using c unfolding Base_def p Let_def
    by (simp add: takeWhile_append)
qed

lemma resolveLoop_spec:
  assumes "comps_ok True cs" and "k < length cs"
  shows "resolveLoop ev (pathTo cs) (rev (drop k cs)) (pathTo (take k cs)) =
    map_option (\<lambda>n. Clean (fold (\<lambda>s r. Join [r, s]) (drop n cs) (the (ev (pathTo (take n cs))))))
      (find (\<lambda>n. ev (pathTo (take n cs)) \<noteq> None) (rev [1..<Suc k]))"
  using assms(2)
proof (induction k)
  case 0
  have "pathTo (take 0 cs) = ''/''" by (simp add: pathTo_def)
  then show ?case by (subst resolveLoop.simps) simp
next
  case (Suc k)
  let ?p = "pathTo (take (Suc k) cs)"
  have ok: "comps_ok True (take (Suc k) cs)" by (rule comps_ok_take [OF assms(1)])
  have tk: "take (Suc k) cs = take k cs @ [cs ! k]" using Suc.prems by (simp add: take_Suc_conv_app_nth)
  have "?p \<noteq> pathTo cs"
  proof
    assume "?p = pathTo cs"
    then have "take (Suc k) cs = cs" by (rule pathTo_inj [OF ok assms(1)])
    then show False using Suc.prems by (metis length_take min_absorb2 less_imp_le_nat less_not_refl)
  qed
  moreover have "?p \<noteq> ''/''" using pathTo_comps [OF ok] tk by (auto simp: pathComps_def IsAbs_def)
  moreover have "?p \<noteq> ''.''" using pathTo_abs [of "take (Suc k) cs"] by (auto simp: IsAbs_def simp del: pathTo_abs)
  moreover have "Base ?p = cs ! k" using Base_pathTo ok unfolding tk by blast
  moreover have "Dir ?p = pathTo (take k cs)" using Dir_pathTo [OF ok] Suc.prems by (simp add: butlast_take)
  moreover have "rev (drop (Suc k) cs) @ [cs ! k] = rev (drop k cs)" using Suc.prems by (metis Cons_nth_drop_Suc Suc_lessD rev.simps(2))
  ultimately have step: "resolveLoop ev (pathTo cs) (rev (drop (Suc k) cs)) ?p =
      (case ev ?p of Some r \<Rightarrow> Some (Clean (fold (\<lambda>s r. Join [r, s]) (drop (Suc k) cs) r))
       | None \<Rightarrow> resolveLoop ev (pathTo cs) (rev (drop k cs)) (pathTo (take k cs)))"
    by (subst resolveLoop.simps) (simp split: option.split)
  have up: "rev [1..<Suc (Suc k)] = Suc k # rev [1..<Suc k]" by simp
  show ?case unfolding step up using Suc.IH [OF Suc_lessD [OF Suc.prems]] by (cases "ev ?p") (simp_all del: upt_Suc)
qed

lemma resolveCanonicalPath_spec:
  assumes "comps_ok True cs"
  shows "resolveCanonicalPath ev (pathTo cs) = Inr (linkResolved ev cs)"
proof (cases "cs = []")
  case True
  have "pathTo [] = ''/''" by (simp add: pathTo_def)
  moreover have "Clean ''/'' = ''/''" "Dir ''/'' = ''/''" by code_simp+
  ultimately show ?thesis unfolding True
    by (subst resolveCanonicalPath_def, subst resolveLoop.simps)
      (auto simp: linkResolved_def Let_def split: option.split)
next
  case False
  let ?k = "length cs - 1"
  have lt: "?k < length cs" using False by simp
  have ne: "pathTo cs \<noteq> []" by (simp add: pathTo_def)
  have bl: "cs = butlast cs @ [last cs]" using False by simp
  have b: "Base (pathTo cs) = last cs" using Base_pathTo assms bl by metis
  have d: "Dir (pathTo cs) = pathTo (take ?k cs)" using Dir_pathTo [OF assms] by (simp add: butlast_conv_take)
  have "drop ?k cs = [last cs]" using False by (metis append_butlast_last_id append_eq_conv_conj length_butlast)
  then have rv: "rev (drop ?k cs) = [last cs]" by simp
  have eq: "resolveCanonicalPath ev (pathTo cs) =
      (case ev (pathTo cs) of Some r \<Rightarrow> Inr (Clean r)
       | None \<Rightarrow> (case resolveLoop ev (pathTo cs) (rev (drop ?k cs)) (pathTo (take ?k cs)) of Some r \<Rightarrow> Inr r | None \<Rightarrow> Inr (pathTo cs)))"
    unfolding resolveCanonicalPath_def Let_def pathTo_Clean [OF assms] b d rv using ne by (simp only: if_False)
  have up: "rev [1..<Suc (length cs)] = length cs # rev [1..<Suc ?k]" using False by (cases cs) simp_all
  show ?thesis unfolding eq resolveLoop_spec [OF assms lt] linkResolved_def up using False
    by (cases "ev (pathTo cs)"; cases "find (\<lambda>n. ev (pathTo (take n cs)) \<noteq> None) (rev [1..<Suc ?k])") (simp_all del: upt_Suc)
qed

lemma linkResolved_clean: "comps_ok True cs \<Longrightarrow> Clean (linkResolved ev cs) = linkResolved ev cs"
  by (auto simp only: linkResolved_def Clean_idem pathTo_Clean split: option.split)

text \<open>The components of the path an access names, relative paths taken in the workspace.\<close>

definition namedPath :: "string \<Rightarrow> string \<Rightarrow> string list" where
  "namedPath base path = pathComps (if IsAbs path then path else base @ ''/'' @ path)"

text \<open>A path at or below the workspace; in the root directory as workspace only the root itself counts.\<close>

definition inWorkspace :: "string \<Rightarrow> string \<Rightarrow> bool" where
  "inWorkspace base p \<longleftrightarrow> IsAbs p \<and> prefix (pathComps base) (pathComps p) \<and> (pathComps base = [] \<longrightarrow> pathComps p = [])"

lemma inWorkspace_text:
  assumes "IsAbs base" and "Clean p = p"
  shows "p = Clean base \<or> prefix (Clean base @ ''/'') p \<longleftrightarrow> inWorkspace base p"
proof (cases "IsAbs p")
  case False
  moreover have "IsAbs (Clean base)" using assms(1) by simp
  ultimately show ?thesis by (auto simp: inWorkspace_def IsAbs_def prefix_def)
next
  case True
  show ?thesis
  proof (cases "pathComps base = []")
    case root: True
    then have b: "Clean base = ''/''" using assms(1) by (simp add: Clean_def)
    have "\<not> prefix ''//'' (Clean p)"
      using join_not_abs [OF pathComps_ok [of p]] by (cases "joinWith ''/'' (pathComps p)") (auto simp: Clean_def IsAbs_def)
    moreover have "p = ''/'' \<longleftrightarrow> pathComps p = []"
      using assms(2) True by (auto simp: Clean_def) (simp add: pathComps_def IsAbs_def)
    ultimately show ?thesis using True root assms(2) by (auto simp: b inWorkspace_def)
  next
    case False
    then show ?thesis using clean_within [OF assms(1) False True] assms(2) True by (auto simp: inWorkspace_def)
  qed
qed

lemma namedPath_ok: "IsAbs base \<Longrightarrow> comps_ok True (namedPath base path)"
  using pathComps_ok [of path] pathComps_ok [of "base @ ''/'' @ path"] by (auto simp: namedPath_def IsAbs_def)

lemma normalizePath_spec:
  assumes "IsAbs (pm_basePath m)"
  shows "normalizePath ev m path = Inr p \<longleftrightarrow>
    path \<noteq> [] \<and> p = linkResolved ev (namedPath (pm_basePath m) path) \<and> inWorkspace (pm_basePath m) p"
proof -
  let ?cs = "namedPath (pm_basePath m) path"
  have ne: "pm_basePath m \<noteq> []" using assms by (auto simp: IsAbs_def)
  have "IsAbs (pm_basePath m @ ''/'' @ path)" using assms by (simp add: IsAbs_def)
  then have named: "Clean (if IsAbs path then path else Join [pm_basePath m, path]) = pathTo ?cs"
    using ne Clean_pathTo [of path] Clean_pathTo [of "pm_basePath m @ ''/'' @ path"] Clean_idem [of "pm_basePath m @ ''/'' @ path"]
    by (simp add: namedPath_def)
  note ok = namedPath_ok [OF assms, of path]
  show ?thesis
    using ne inWorkspace_text [OF assms linkResolved_clean [OF ok]]
    by (auto simp: normalizePath_def named resolveCanonicalPath_spec [OF ok] Let_def)
qed



section \<open>Who may access a file\<close>

text \<open>A human approved: a grant for the permission is cached and has not expired, or the approver grants the
  request now.\<close>

definition approved :: "(nat \<Rightarrow> time) \<Rightarrow> PermissionDescriptor \<Rightarrow> PermissionManager \<Rightarrow> bool" where
  "approved clk desc m \<longleftrightarrow>
     (case cachedGrant m (permissionKey desc) of None \<Rightarrow> False | Some g \<Rightarrow> \<not> grant_Expired g (clk 2)) \<or>
     (case pm_hitl m of
        None \<Rightarrow> False
      | Some hitl \<Rightarrow>
          (case hitl (newRequest desc ''runtime request'' GrantScopeSession 0 RiskLevelMedium) of Inl _ \<Rightarrow> False | Inr _ \<Rightarrow> True))"

lemma ensureGrant_iff:
  assumes "grants_ok m"
  shows "fst (ensureGrant clk ag desc m) = None \<longleftrightarrow> approved clk desc m"
  using takeGrant_spec [OF assms, of clk "permissionKey desc"]
  by (cases "takeGrant clk (permissionKey desc) m")
    (auto simp: ensureGrant_def requestGrant_def askHITL_def approved_def split: option.splits sum.splits)

lemma approved_cong:
  "pm_grants m' = pm_grants m \<Longrightarrow> pm_hitl m' = pm_hitl m \<Longrightarrow> approved clk desc m' = approved clk desc m"
  by (simp add: approved_def)

lemma putGrant_audit [simp]: "pm_audit (putGrant now key g m) = pm_audit m"
  by (simp add: putGrant_def sweepExpiredGrants_def Let_def)

lemma ensureGrant_audit: "pm_audit (snd (ensureGrant clk ag desc m)) = pm_audit m"
proof -
  obtain b m1 where t: "takeGrant clk (permissionKey desc) m = (b, m1)" by fastforce
  then have "pm_audit m1 = pm_audit m" by (auto simp: takeGrant_def split: prod.splits)
  then show ?thesis using t by (auto simp: ensureGrant_def requestGrant_def askHITL_def split: option.split sum.split)
qed

text \<open>The audit trail accepts a record.\<close>

definition recorded :: "PermissionManager \<Rightarrow> AuditRecord \<Rightarrow> bool" where
  "recorded m r \<longleftrightarrow> (case pm_audit m of None \<Rightarrow> True | Some logger \<Rightarrow> logger r = None)"

lemma auditLog_None: "auditLog m ts agentID desc result meta = None \<longleftrightarrow> recorded m (auditRecord ts agentID desc result meta)"
  by (simp add: auditLog_def recorded_def split: option.split)

definition fileGranted :: "(nat \<Rightarrow> time) \<Rightarrow> time \<Rightarrow> string \<Rightarrow> string \<Rightarrow> string \<Rightarrow> PermissionManager \<Rightarrow> bool" where
  "fileGranted clk ts agentID action clean m =
     (case fsVerdict m action clean of
        None \<Rightarrow> effectiveDefaultDecision m \<noteq> DecisionDeny \<and> approved clk (descriptor PermissionTypeFilesystem action clean True) m
      | Some perm \<Rightarrow>
          (fp_HITLRequired perm \<longrightarrow> approved clk (descriptor PermissionTypeFilesystem action (fp_Path perm) True) m) \<and>
          recorded m (auditRecord ts agentID (descriptor PermissionTypeFilesystem action clean False) ''granted''
            [(''pattern'', AString (fp_Path perm)), (''fs_action'', AString action)]))"

lemma fsVerdict_Some:
  assumes "fsVerdict m action path = Some perm"
  shows "perm \<in> set (ps_FileSystem (pm_declared m))" and "fp_Action perm = action" and "matchGlob (fp_Path perm) (Clean path)"
    and "\<not> isFilesystemProtectedPath m (Clean path)"
  using assms by (auto simp: fsVerdict_def permApplies_def find_Some_iff in_set_conv_nth split: if_splits)

lemma CheckFileAccess_iff:
  assumes "grants_ok m" and "fs_ok m" and "action \<in> set fileActions" and "normalizePath ev m path = Inr clean"
  shows "fst (CheckFileAccess ev clk now ts ag agentID action path m) = None \<longleftrightarrow> fileGranted clk ts agentID action clean m"
proof -
  obtain c where m1: "snd (findFilesystemPermission now action clean m) = m\<lparr>pm_fsPermCache := c\<rparr>"
    and v: "fst (findFilesystemPermission now action clean m) = fsVerdict m action clean"
    using find_fs_spec [OF assms(2,3)] by blast
  have found: "findFilesystemPermission now action clean m = (fsVerdict m action clean, m\<lparr>pm_fsPermCache := c\<rparr>)"
    using m1 v by (metis prod.collapse)
  have ok: "grants_ok (m\<lparr>pm_fsPermCache := c\<rparr>)" using assms(1) by (simp add: grants_ok_def)
  have ens: "fst (ensureGrant clk ag d (m\<lparr>pm_fsPermCache := c\<rparr>)) = None \<longleftrightarrow> approved clk d m" for d
    using ensureGrant_iff [OF ok] by (simp add: approved_def)
  have dd: "effectiveDefaultDecision (m\<lparr>pm_fsPermCache := c\<rparr>) = effectiveDefaultDecision m" by (simp add: effectiveDefaultDecision_def)
  show ?thesis
  proof (cases "fsVerdict m action clean")
    case None
    then show ?thesis by (simp add: CheckFileAccess_def assms(4) found undeclared_def fileGranted_def dd ens descriptor_def)
  next
    case (Some perm)
    let ?d = "descriptor PermissionTypeFilesystem action (fp_Path perm) True" and ?m = "m\<lparr>pm_fsPermCache := c\<rparr>"
    obtain err m2 where e: "(if fp_HITLRequired perm then ensureGrant clk ag ?d ?m else (None, ?m)) = (err, m2)" by fastforce
    then have "err = None \<longleftrightarrow> (fp_HITLRequired perm \<longrightarrow> approved clk ?d m)" "pm_audit m2 = pm_audit m"
      using ens [of ?d] ensureGrant_audit [of clk ag ?d ?m] by (auto split: if_splits)
    then show ?thesis
      using e Some by (auto simp: CheckFileAccess_def assms(4) found fileGranted_def auditLog_def recorded_def split: option.split)
  qed
qed

text \<open>
  \<^bold>\<open>C5.\<close> For an absolute workspace, a file access passes exactly if its path, after the resolution of links as far as
  the file system resolves them, lies in the workspace (in the root directory as workspace: is the root), and
  either a declared permission for the action covers the path, the path is under no protected root,
  a human approved if the permission asks for that, and the audit trail took the record; or nothing
  declared covers it, the default decision is not to deny, and a human approved. What does not exist yet is
  resolved through its longest existing ancestor; a link without a target counts as not existing, so the
  theorem does not say that a write through it stays inside (\<open>dangling_link_accepted\<close>).
\<close>

theorem file_access_iff:
  fixes m path ev
  defines "target \<equiv> linkResolved ev (namedPath (pm_basePath m) path)"
  assumes "grants_ok m" and "fs_ok m" and "action \<in> set fileActions" and "IsAbs (pm_basePath m)"
  shows "fst (CheckFileAccess ev clk now ts ag agentID action path m) = None \<longleftrightarrow>
    path \<noteq> [] \<and> inWorkspace (pm_basePath m) target \<and> ''..'' \<notin> set (pathComps target) \<and>
    fileGranted clk ts agentID action target m"
proof (cases "normalizePath ev m path")
  case (Inl e)
  then have "\<not> (path \<noteq> [] \<and> inWorkspace (pm_basePath m) target)"
    using normalizePath_spec [OF assms(5), of ev path target] by (auto simp: target_def)
  then show ?thesis using Inl by (auto simp: CheckFileAccess_def)
next
  case (Inr clean)
  then have t: "path \<noteq> []" "clean = target" "inWorkspace (pm_basePath m) target"
    using normalizePath_spec [OF assms(5), of ev path clean] by (auto simp: target_def)
  moreover have "''..'' \<notin> set (pathComps target)"
    using pathComps_ok [of target] t(3) by (simp add: inWorkspace_def comps_ok_rooted)
  ultimately show ?thesis using CheckFileAccess_iff [OF assms(2-4) Inr] by simp
qed

lemma fs_ok_New: "fs_ok (newManager bp ps au h)"
  by (simp add: fs_ok_def newManager_def memo_new fsPermCacheCap_def)

definition wFilePerm :: "string \<Rightarrow> string \<Rightarrow> FileSystemPermission" where
  "wFilePerm action path = \<lparr>fp_Action = action, fp_Path = path, fp_Justification = [], fp_HITLRequired = False, fp_ReadOnlyMount = False\<rparr>"

definition wFiles :: "AuditLogger option \<Rightarrow> HITLProvider option \<Rightarrow> PermissionManager" where
  "wFiles = newManager ''/w'' (noPermissions\<lparr>ps_FileSystem := [wFilePerm ''fs:read'' ''src/**'']\<rparr>)"

lemma wFiles_base: "IsAbs (pm_basePath (wFiles au h))" "pathComps (pm_basePath (wFiles au h)) \<noteq> []"
  by (simp_all add: wFiles_def newManager_def IsAbs_def pathComps_def)

theorem file_access_iff_witness:
  "fst (CheckFileAccess Some (\<lambda>_. 7) 7 7 ''agent'' ''agent'' ''fs:read'' ''src/a.go'' (wFiles None None)) = None \<and>
   fst (CheckFileAccess Some (\<lambda>_. 7) 7 7 ''agent'' ''agent'' ''fs:read'' ''../etc/passwd'' (wFiles None None)) \<noteq> None"
proof -
  let ?m = "wFiles None None"
  have ok: "grants_ok ?m" "fs_ok ?m" by (simp_all add: wFiles_def grants_ok_New fs_ok_New)
  have act: "''fs:read'' \<in> set fileActions" by (simp add: fileActions_def)
  note iff = file_access_iff [OF ok act wFiles_base(1)]
  have b: "pm_basePath ?m = ''/w''" by (simp add: wFiles_def newManager_def)
  have "linkResolved Some (namedPath ''/w'' ''src/a.go'') = ''/w/src/a.go''" by code_simp
  moreover have "inWorkspace ''/w'' ''/w/src/a.go''" "''..'' \<notin> set (pathComps ''/w/src/a.go'')" by code_simp+
  moreover have "fileGranted (\<lambda>_. 7) 7 ''agent'' ''fs:read'' ''/w/src/a.go'' ?m" by code_simp
  moreover have "linkResolved Some (namedPath ''/w'' ''../etc/passwd'') = ''/etc/passwd''" "\<not> inWorkspace ''/w'' ''/etc/passwd''" by code_simp+
  ultimately show ?thesis unfolding iff b by simp
qed

text \<open>An access that nothing declares and a human approves is not recorded: it passes also when the audit trail
  refuses every record, while a declared access then fails.\<close>

definition wGrant :: PermissionGrant where
  "wGrant = \<lparr>pg_ID = ''g'', pg_Permission = wDesc, pg_Scope = GrantScopeSession, pg_ExpiresAt = 0, pg_ApprovedBy = ''user'',
     pg_Conditions = [], pg_GrantedAt = 5, pg_Description = [], pg_SessionID = []\<rparr>"

lemma approved_access_unrecorded:
  assumes "m = wFiles (Some (\<lambda>_. Some (Err ''audit unavailable''))) (Some (\<lambda>_. Inr wGrant))"
  shows "fst (CheckFileAccess Some (\<lambda>_. 7) 7 7 ''agent'' ''agent'' ''fs:write'' ''src/a.go'' m) = None"
    and "fst (CheckFileAccess Some (\<lambda>_. 7) 7 7 ''agent'' ''agent'' ''fs:read'' ''src/a.go'' m) \<noteq> None"
proof -
  have ok: "grants_ok m" "fs_ok m" by (simp_all add: assms wFiles_def grants_ok_New fs_ok_New)
  have path: "normalizePath Some m ''src/a.go'' = Inr ''/w/src/a.go''" unfolding assms by code_simp
  have act: "''fs:read'' \<in> set fileActions" "''fs:write'' \<in> set fileActions" by (simp_all add: fileActions_def)
  have "fileGranted (\<lambda>_. 7) 7 ''agent'' ''fs:write'' ''/w/src/a.go'' m" "\<not> fileGranted (\<lambda>_. 7) 7 ''agent'' ''fs:read'' ''/w/src/a.go'' m"
    unfolding assms by code_simp+
  then show "fst (CheckFileAccess Some (\<lambda>_. 7) 7 7 ''agent'' ''agent'' ''fs:write'' ''src/a.go'' m) = None"
    and "fst (CheckFileAccess Some (\<lambda>_. 7) 7 7 ''agent'' ''agent'' ''fs:read'' ''src/a.go'' m) \<noteq> None"
    using CheckFileAccess_iff [OF ok act(2) path] CheckFileAccess_iff [OF ok act(1) path] by blast+
qed

text \<open>In the root directory as workspace every path is taken for an escape, since the containment test looks
  for a double slash.\<close>

lemma root_workspace_rejects_all:
  assumes "pm_basePath m = ''/''" and "normalizePath ev m path = Inr clean"
  shows "clean = ''/''"
proof -
  have root: "Clean ''/'' = ''/''" by code_simp
  have within: "clean = ''/'' \<or> prefix ''//'' clean"
    using assms by (auto simp: normalizePath_def root Let_def split: if_splits)
  have "\<not> prefix ''//'' (Clean clean)"
    using join_not_abs [OF pathComps_ok [of clean]] by (cases "joinWith ''/'' (pathComps clean)") (auto simp: Clean_def IsAbs_def)
  with within show ?thesis using normalizePath_clean [OF assms(2)] by auto
qed

text \<open>A link in the workspace whose target does not exist passes normalization wherever it points: the
  resolution of the link fails, and that of its directory is taken with the link's own name.\<close>

lemma dangling_link_accepted:
  "normalizePath (\<lambda>p. if p = ''/w'' then Some ''/w'' else None) (wFiles None None) ''link'' = Inr ''/w/link''"
  by code_simp


section \<open>The file matrix decides\<close>

lemma decideByMatcher_valid:
  "fst (decideByMatcher target allows denies d match) \<in> {DecisionAllow, DecisionDeny, DecisionAsk}"
  by (auto simp: decideByMatcher_def DecisionOr_def ParseDecision_def Decision_Valid_def Let_def split: option.split sum.splits if_splits)

lemma DecideByPatterns_valid: "fst (DecideByPatterns target allows denies d) \<in> {DecisionAllow, DecisionDeny, DecisionAsk}"
  using decideByMatcher_valid [of target allows denies d matchGlob] by (auto simp: DecideByPatterns_def split: prod.split)

text \<open>The path relative to the workspace, the entry of the matrix, and its decision.\<close>

definition matrixRel :: "string \<Rightarrow> string \<Rightarrow> string" where
  "matrixRel basePath absPath =
     TrimPrefix (Clean (if basePath \<noteq> [] then (case Rel basePath absPath of Inr r \<Rightarrow> r | Inl _ \<Rightarrow> absPath) else absPath)) ''./''"

definition matrixEntry :: "string \<Rightarrow> AgentFileMatrix \<Rightarrow> AgentFilePermissionSet" where
  "matrixEntry action matrix = (if action = ''edit'' then am_Edit matrix else am_Write matrix)"

definition matrixApproval :: "(nat \<Rightarrow> time) \<Rightarrow> string \<Rightarrow> string \<Rightarrow> string \<Rightarrow> PermissionManager option \<Rightarrow> bool" where
  "matrixApproval clk ctxAgent action rel m \<longleftrightarrow>
     (case m of
        None \<Rightarrow> False
      | Some manager \<Rightarrow>
          fst (RequireApproval clk ctxAgent (descriptor PermissionTypeHITL (''file_matrix:'' @ action) rel True)
                 ''file permission matrix'' GrantScopeOneTime RiskLevelMedium 0 manager) = None)"

lemma CheckFilePermission_iff:
  fixes basePath absPath action matrix
  defines "rel \<equiv> matrixRel basePath absPath" and "e \<equiv> matrixEntry action matrix"
  defines "decision \<equiv> fst (DecideByPatterns rel (af_AllowPatterns e) (af_DenyPatterns e) (af_Default e))"
  shows "fst (CheckFilePermission clk ctxAgent basePath action absPath matrix m) = None \<longleftrightarrow>
    (af_DocumentationOnly e \<longrightarrow> suffix ''.md'' (ToLower rel)) \<and>
    (if af_RequireApproval e \<or> decision = DecisionAsk then matrixApproval clk ctxAgent action rel m else decision = DecisionAllow)"
proof -
  have valid: "decision \<in> {DecisionAllow, DecisionDeny, DecisionAsk}" unfolding decision_def by (rule DecideByPatterns_valid)
  have "CheckFilePermission clk ctxAgent basePath action absPath matrix m =
    (if af_DocumentationOnly e \<and> \<not> suffix ''.md'' (ToLower rel)
     then (Some (Err (''file '' @ rel @ '' blocked: documentation_only enabled'')), m)
     else
       let d = (if af_RequireApproval e then DecisionAsk else decision) in
       if d = DecisionAllow then (None, m)
       else if d = DecisionDeny then (Some (Err (''file '' @ rel @ '' blocked: denied by file_permissions'')), m)
       else if d = DecisionAsk then
         (case m of
            None \<Rightarrow> (Some (Err (''file '' @ rel @ '' blocked: approval required but permission manager missing'')), None)
          | Some manager \<Rightarrow>
              (case RequireApproval clk ctxAgent (descriptor PermissionTypeHITL (''file_matrix:'' @ action) rel True)
                      ''file permission matrix'' GrantScopeOneTime RiskLevelMedium 0 manager of
                 (err, manager) \<Rightarrow> (err, Some manager)))
       else (None, m))"
    unfolding CheckFilePermission_def rel_def e_def decision_def matrixRel_def matrixEntry_def Let_def ..
  then show ?thesis using valid by (auto simp: matrixApproval_def Let_def split: option.split prod.split)
qed

text \<open>An entry that asks for approval weakens its own deny patterns: a denied file passes on an approval.\<close>

lemma require_approval_overrides_deny:
  fixes absPath action matrix
  defines "e \<equiv> matrixEntry action matrix" and "rel \<equiv> matrixRel [] absPath"
  assumes "af_RequireApproval e" and "\<not> af_DocumentationOnly e" and "matrixApproval clk ctxAgent action rel m"
  shows "fst (CheckFilePermission clk ctxAgent [] action absPath matrix m) = None"
  using assms(3-5) CheckFilePermission_iff [of clk ctxAgent "[]" action absPath matrix m] unfolding e_def rel_def by simp

text \<open>
  The file matrix has no third way out: an operation passes exactly if the path is not outside a
  documentation-only entry and either the patterns allow it and the entry asks for no approval, or an
  approval is asked for, by the entry or by the decision, and given.
\<close>

theorem file_matrix_iff:
  fixes basePath absPath action matrix
  defines "rel \<equiv> matrixRel basePath absPath" and "e \<equiv> matrixEntry action matrix"
  defines "decision \<equiv> fst (DecideByPatterns rel (af_AllowPatterns e) (af_DenyPatterns e) (af_Default e))"
  shows "fst (CheckFilePermission clk ctxAgent basePath action absPath matrix m) = None \<longleftrightarrow>
    (af_DocumentationOnly e \<longrightarrow> suffix ''.md'' (ToLower rel)) \<and>
    (if af_RequireApproval e \<or> decision = DecisionAsk then matrixApproval clk ctxAgent action rel m else decision = DecisionAllow)"
  unfolding rel_def e_def decision_def by (rule CheckFilePermission_iff)

definition wMatrix :: AgentFileMatrix where
  "wMatrix =
     (let e = \<lparr>af_AllowPatterns = [''src/**''], af_DenyPatterns = [''src/gen/**''], af_Default = ''deny'',
               af_RequireApproval = False, af_DocumentationOnly = False\<rparr>
      in \<lparr>am_Write = e, am_Edit = e\<lparr>af_DocumentationOnly := True\<rparr>\<rparr>)"

theorem file_matrix_iff_witness:
  "fst (CheckFilePermission (\<lambda>_. 0) [] ''/w'' ''write'' ''/w/src/a.go'' wMatrix None) = None \<and>
   fst (CheckFilePermission (\<lambda>_. 0) [] ''/w'' ''write'' ''/w/src/gen/a.go'' wMatrix None) \<noteq> None \<and>
   fst (CheckFilePermission (\<lambda>_. 0) [] ''/w'' ''edit'' ''/w/src/a.go'' wMatrix None) \<noteq> None"
proof -
  let ?d = "\<lambda>action rel. fst (DecideByPatterns rel (af_AllowPatterns (matrixEntry action wMatrix))
    (af_DenyPatterns (matrixEntry action wMatrix)) (af_Default (matrixEntry action wMatrix)))"
  have rel: "matrixRel ''/w'' ''/w/src/a.go'' = ''src/a.go''" "matrixRel ''/w'' ''/w/src/gen/a.go'' = ''src/gen/a.go''" by code_simp+
  have d: "?d ''write'' ''src/a.go'' = DecisionAllow" "?d ''write'' ''src/gen/a.go'' = DecisionDeny" by code_simp+
  have e: "\<not> af_RequireApproval (matrixEntry a wMatrix)" "af_DocumentationOnly (matrixEntry a wMatrix) = (a = ''edit'')" for a
    by (simp_all add: matrixEntry_def wMatrix_def Let_def)
  have md: "\<not> suffix ''.md'' (ToLower ''src/a.go'')" by code_simp
  show ?thesis unfolding file_matrix_iff rel d using e md d by auto
qed

end
