(* ===== verification/NetHost.thy ===== *)
theory NetHost
  imports Prelude
begin

text \<open>
  File \<open>governance/netpolicy/host.go\<close>: the security class of an address and of a host token.

  A \<open>net.IP\<close> is its list of bytes (4 or 16 of them; the nil address is the empty list).
  The predicates of \<open>net.IP\<close>, \<open>IPNet.Contains\<close> and \<open>net.ParseIP\<close> are modelled from the Go
  standard library. Numbers that the code keeps in \<open>uint64\<close> below an explicit bound of
  32 bits are naturals; the packed address is a 32-bit word.

  The lemmas show that the allocation-free classifier of packed addresses agrees with the
  general one, that the token classifier is the composition of the token parser with the
  address classifier, and that the numeric spellings of an address parse to that address.
\<close>

unbundle bit_operations_syntax

section \<open>Addresses of the standard library\<close>

type_synonym byte = "8 word"
type_synonym IP = "byte list"

definition v4InV6Prefix :: "byte list" where
  "v4InV6Prefix = [0, 0, 0, 0, 0, 0, 0, 0, 0, 0, 255, 255]"

definition net_IPv4 :: "byte \<Rightarrow> byte \<Rightarrow> byte \<Rightarrow> byte \<Rightarrow> IP" where
  "net_IPv4 a b c d = v4InV6Prefix @ [a, b, c, d]"

definition To4 :: "IP \<Rightarrow> IP option" where
  "To4 ip = (if length ip = 4 then Some ip
             else if length ip = 16 \<and> take 12 ip = v4InV6Prefix then Some (drop 12 ip)
             else None)"

definition ip_Equal :: "IP \<Rightarrow> IP \<Rightarrow> bool" where
  "ip_Equal ip x =
     (if length ip = length x then ip = x
      else if length ip = 4 \<and> length x = 16 then take 12 x = v4InV6Prefix \<and> ip = drop 12 x
      else if length ip = 16 \<and> length x = 4 then take 12 ip = v4InV6Prefix \<and> drop 12 ip = x
      else False)"

definition IPv6unspecified :: IP where
  "IPv6unspecified = replicate 16 0"

definition IPv6loopback :: IP where
  "IPv6loopback = replicate 15 0 @ [1]"

definition IsUnspecified :: "IP \<Rightarrow> bool" where
  "IsUnspecified ip \<longleftrightarrow> ip_Equal ip (net_IPv4 0 0 0 0) \<or> ip_Equal ip IPv6unspecified"

definition IsLoopback :: "IP \<Rightarrow> bool" where
  "IsLoopback ip = (case To4 ip of Some q \<Rightarrow> q ! 0 = 127 | None \<Rightarrow> ip_Equal ip IPv6loopback)"

definition IsLinkLocalUnicast :: "IP \<Rightarrow> bool" where
  "IsLinkLocalUnicast ip =
     (case To4 ip of
        Some q \<Rightarrow> q ! 0 = 169 \<and> q ! 1 = 254
      | None \<Rightarrow> length ip = 16 \<and> ip ! 0 = 254 \<and> ip ! 1 AND 192 = 128)"

definition IsLinkLocalMulticast :: "IP \<Rightarrow> bool" where
  "IsLinkLocalMulticast ip =
     (case To4 ip of
        Some q \<Rightarrow> q ! 0 = 224 \<and> q ! 1 = 0 \<and> q ! 2 = 0
      | None \<Rightarrow> length ip = 16 \<and> ip ! 0 = 255 \<and> ip ! 1 AND 15 = 2)"

definition IsPrivate :: "IP \<Rightarrow> bool" where
  "IsPrivate ip =
     (case To4 ip of
        Some q \<Rightarrow> q ! 0 = 10 \<or> (q ! 0 = 172 \<and> q ! 1 AND 240 = 16) \<or> (q ! 0 = 192 \<and> q ! 1 = 168)
      | None \<Rightarrow> length ip = 16 \<and> ip ! 0 AND 254 = 252)"

text \<open>An \<open>IPNet\<close> as \<open>net.ParseCIDR\<close> makes it from a constant of the source: the network bytes
  and the mask of the prefix length.\<close>

record IPNet =
  net_IP :: IP
  net_Mask :: "byte list"

fun maskBytes :: "nat \<Rightarrow> nat \<Rightarrow> byte list" where
  "maskBytes 0 n = []"
| "maskBytes (Suc k) n = (if n \<ge> 8 then 255 # maskBytes k (n - 8)
                          else NOT (mask (8 - n)) # maskBytes k 0)"

definition cidr :: "byte list \<Rightarrow> nat \<Rightarrow> IPNet" where
  "cidr ip n = \<lparr>net_IP = ip, net_Mask = maskBytes (length ip) n\<rparr>"

definition Contains :: "IPNet \<Rightarrow> IP \<Rightarrow> bool" where
  "Contains block ip =
     (let ip = (case To4 ip of Some q \<Rightarrow> q | None \<Rightarrow> ip)
      in length ip = length (net_IP block) \<and>
         list_all (\<lambda>(x, n, m). n AND m = x AND m) (zip ip (zip (net_IP block) (net_Mask block))))"

section \<open>Classes of addresses\<close>

datatype HostClass = ClassLoopback | ClassLinkLocal | ClassPrivate | ClassUnspecified
  | ClassReserved | ClassPublic

record Target =
  tg_Token :: string
  tg_Class :: HostClass
  tg_Literal :: bool

fun classSeverity :: "HostClass \<Rightarrow> nat" where
  "classSeverity ClassPublic = 0"
| "classSeverity ClassReserved = 1"
| "classSeverity ClassPrivate = 2"
| "classSeverity ClassUnspecified = 3"
| "classSeverity ClassLinkLocal = 4"
| "classSeverity ClassLoopback = 5"

definition unspecifiedBlocks :: "IPNet list" where
  "unspecifiedBlocks = [cidr [0, 0, 0, 0] 8]"

definition reservedBlocks :: "IPNet list" where
  "reservedBlocks =
     [cidr [100, 64, 0, 0] 10, cidr [192, 0, 0, 0] 24, cidr [192, 0, 2, 0] 24,
      cidr [198, 18, 0, 0] 15, cidr [198, 51, 100, 0] 24, cidr [203, 0, 113, 0] 24,
      cidr [224, 0, 0, 0] 4, cidr [240, 0, 0, 0] 4,
      cidr [32, 1, 13, 184, 0, 0, 0, 0, 0, 0, 0, 0, 0, 0, 0, 0] 32,
      cidr [255, 0, 0, 0, 0, 0, 0, 0, 0, 0, 0, 0, 0, 0, 0, 0] 8]"

definition ClassifyIP :: "IP \<Rightarrow> HostClass" where
  "ClassifyIP ip =
     (if ip = [] then ClassUnspecified
      else if IsUnspecified ip then ClassUnspecified
      else if IsLoopback ip then ClassLoopback
      else if IsLinkLocalUnicast ip \<or> IsLinkLocalMulticast ip then ClassLinkLocal
      else if IsPrivate ip then ClassPrivate
      else if list_ex (\<lambda>block. Contains block ip) unspecifiedBlocks then ClassUnspecified
      else if list_ex (\<lambda>block. Contains block ip) reservedBlocks then ClassReserved
      else ClassPublic)"

definition classifyIPv4 :: "32 word \<Rightarrow> HostClass" where
  "classifyIPv4 v =
     (if v = 0 \<or> drop_bit 24 v = 0 then ClassUnspecified
      else if drop_bit 24 v = 127 then ClassLoopback
      else if drop_bit 16 v = 0xa9fe \<or> v AND 0xffffff00 = 0xe0000000 then ClassLinkLocal
      else if v AND 0xff000000 = 0x0a000000 \<or> v AND 0xfff00000 = 0xac100000 \<or>
              v AND 0xffff0000 = 0xc0a80000 then ClassPrivate
      else if v AND 0xffc00000 = 0x64400000 \<or> v AND 0xffffff00 = 0xc0000000 \<or>
              v AND 0xffffff00 = 0xc0000200 \<or> v AND 0xfffe0000 = 0xc6120000 \<or>
              v AND 0xffffff00 = 0xc6336400 \<or> v AND 0xffffff00 = 0xcb007100 \<or>
              v AND 0xf0000000 = 0xe0000000 \<or> v AND 0xf0000000 = 0xf0000000 then ClassReserved
      else ClassPublic)"

section \<open>Numeric host tokens\<close>

definition digitValue :: "char \<Rightarrow> nat \<Rightarrow> nat option" where
  "digitValue c base =
     (let x = of_char c :: nat;
          d = (if 48 \<le> x \<and> x \<le> 57 then Some (x - 48)
               else if base = 16 \<and> 97 \<le> x \<and> x \<le> 102 then Some (x - 97 + 10)
               else if base = 16 \<and> 65 \<le> x \<and> x \<le> 70 then Some (x - 65 + 10)
               else None)
      in case d of None \<Rightarrow> None | Some d \<Rightarrow> if d \<ge> base then None else Some d)"

fun parseDigits :: "nat \<Rightarrow> nat \<Rightarrow> string \<Rightarrow> nat option" where
  "parseDigits base v [] = Some v"
| "parseDigits base v (c # cs) =
     (case digitValue c base of
        None \<Rightarrow> None
      | Some d \<Rightarrow>
          let v' = v * base + d
          in if v' > 0xffffffff then None else parseDigits base v' cs)"

definition parseNumericPart :: "string \<Rightarrow> nat option" where
  "parseNumericPart s =
     (if s = [] then None
      else let (base, digits) =
             (if length s > 2 \<and> s ! 0 = CHR ''0'' \<and> (s ! 1 = CHR ''x'' \<or> s ! 1 = CHR ''X'')
              then (16, drop 2 s)
              else if length s > 1 \<and> s ! 0 = CHR ''0'' then (8, drop 1 s)
              else (10, s))
           in if digits = [] then None else parseDigits base 0 digits)"

text \<open>The scanning loop of \<open>parseInetAtonU32\<close>: at each dot and at the end of the token the
  segment since the last dot is one part.\<close>

fun atonParts :: "nat list \<Rightarrow> string list \<Rightarrow> nat list option" where
  "atonParts vals [] = Some vals"
| "atonParts vals (part # parts) =
     (if part = [] \<or> length vals \<ge> 4 then None
      else case parseNumericPart part of
             None \<Rightarrow> None
           | Some v \<Rightarrow> atonParts (vals @ [v]) parts)"

definition parseInetAtonU32 :: "string \<Rightarrow> 32 word option" where
  "parseInetAtonU32 token =
     (case atonParts [] (splitOn CHR ''.'' token) of
        None \<Rightarrow> None
      | Some vals \<Rightarrow>
          let n = length vals in
          if n = 0 then None
          else if list_ex (\<lambda>v. v > 0xff) (butlast vals) then None
          else let shift = 8 * (5 - n) in
               if last vals \<ge> 2 ^ shift then None
               else let v = fold (\<lambda>x v. push_bit 8 v OR x) (butlast vals) 0
                    in Some (of_nat (push_bit shift v OR last vals)))"

definition parseInetAton :: "string \<Rightarrow> IP option" where
  "parseInetAton token =
     (case parseInetAtonU32 token of
        None \<Rightarrow> None
      | Some v \<Rightarrow> Some (net_IPv4 (ucast (drop_bit 24 v)) (ucast (drop_bit 16 v))
                                 (ucast (drop_bit 8 v)) (ucast v)))"

section \<open>\<open>net.ParseIP\<close>\<close>

definition parseDec8 :: "string \<Rightarrow> byte option" where
  "parseDec8 s =
     (if s = [] \<or> \<not> list_all is_digit s \<or> (length s > 1 \<and> hd s = CHR ''0'') then None
      else let v = fold (\<lambda>c v. v * 10 + (of_char c - 48)) s (0::nat)
           in if v > 255 then None else Some (of_nat v))"

definition parseIPv4Fields :: "string \<Rightarrow> byte list option" where
  "parseIPv4Fields s =
     (let segs = splitOn CHR ''.'' s
      in if length segs \<noteq> 4 then None else those (map parseDec8 segs))"

definition is_hex :: "char \<Rightarrow> bool" where
  "is_hex c \<longleftrightarrow> digitValue c 16 \<noteq> None"

definition hexValue :: "string \<Rightarrow> nat" where
  "hexValue s = fold (\<lambda>c v. v * 16 + the (digitValue c 16)) s 0"

text \<open>The field loop of \<open>netip.parseIPv6\<close>: the bytes so far, the position of the ellipsis and
  the rest of the string.\<close>

function v6Fields :: "string \<Rightarrow> byte list \<Rightarrow> nat option \<Rightarrow> (byte list \<times> nat option \<times> string) option" where
  "v6Fields s ip ell =
     (if length ip \<ge> 16 then Some (ip, ell, s)
      else let h = takeWhile is_hex s; rest = dropWhile is_hex s; acc = hexValue h in
        if h = [] \<or> length h > 4 then None
        else if rest \<noteq> [] \<and> hd rest = CHR ''.''
        then (if (ell = None \<and> length ip \<noteq> 12) \<or> length ip + 4 > 16 then None
              else case parseIPv4Fields s of
                     None \<Rightarrow> None
                   | Some q \<Rightarrow> Some (ip @ q, ell, []))
        else let ip = ip @ [of_nat (acc div 256), of_nat (acc mod 256)] in
             if rest = [] then Some (ip, ell, [])
             else if hd rest \<noteq> CHR '':'' \<or> length rest = 1 then None
             else let s' = tl rest in
                  if hd s' = CHR '':''
                  then (if ell \<noteq> None then None
                        else if tl s' = [] then Some (ip, Some (length ip), [])
                        else v6Fields (tl s') ip (Some (length ip)))
                  else v6Fields s' ip ell)"
  by pat_completeness auto
termination
proof (relation "measure (\<lambda>(s, ip, ell). length s)", simp, goal_cases)
  case (1 s ip ell)
  then show ?case using length_dropWhile_le [of is_hex s] by (cases "dropWhile is_hex s") auto
next
  case (2 s ip ell)
  then show ?case using length_dropWhile_le [of is_hex s] by (cases "dropWhile is_hex s") auto
qed

declare v6Fields.simps [simp del]

definition parseIPv6 :: "string \<Rightarrow> IP option" where
  "parseIPv6 s =
     (let lead = (take 2 s = ''::''); s0 = (if lead then drop 2 s else s) in
      if lead \<and> s0 = [] then Some (replicate 16 0)
      else case v6Fields s0 [] (if lead then Some 0 else None) of
             None \<Rightarrow> None
           | Some (ip, ell, rest) \<Rightarrow>
               if rest \<noteq> [] then None
               else if length ip < 16
               then (case ell of
                       None \<Rightarrow> None
                     | Some e \<Rightarrow> Some (take e ip @ replicate (16 - length ip) 0 @ drop e ip))
               else if ell \<noteq> None then None else Some ip)"

definition net_ParseIP :: "string \<Rightarrow> IP option" where
  "net_ParseIP s =
     (if CHR ''%'' \<in> set s then None
      else case dropWhile (\<lambda>c. c \<noteq> CHR ''.'' \<and> c \<noteq> CHR '':'') s of
             [] \<Rightarrow> None
           | c # _ \<Rightarrow>
               if c = CHR ''.''
               then (case parseIPv4Fields s of
                       Some [a, b, c, d] \<Rightarrow> Some (net_IPv4 a b c d)
                     | _ \<Rightarrow> None)
               else parseIPv6 s)"

section \<open>Host tokens\<close>

definition validZone :: "string \<Rightarrow> bool" where
  "validZone s \<longleftrightarrow> s \<noteq> [] \<and>
     list_all (\<lambda>c. let x = of_char c :: nat in
                  (97 \<le> x \<and> x \<le> 122) \<or> (65 \<le> x \<and> x \<le> 90) \<or> (48 \<le> x \<and> x \<le> 57) \<or>
                  c = CHR ''_'' \<or> c = CHR ''-'' \<or> c = CHR ''.'') s"

text \<open>The common opening of \<open>ClassifyToken\<close> and \<open>ParseHostToken\<close>: blanks, brackets and zone are
  stripped; a token that cannot be an address literal is rejected.\<close>

definition literalBody :: "string \<Rightarrow> string option" where
  "literalBody token =
     (let token = TrimSpace token in
      if token = [] then None
      else let bracketed = (hd token = CHR ''['') in
           if bracketed \<and> (last token \<noteq> CHR '']'' \<or> length token < 2) then None
           else let token = (if bracketed then butlast (tl token) else token) in
             case (case splitLast CHR ''%'' token of
                     None \<Rightarrow> Some token
                   | Some (before, zone) \<Rightarrow> if validZone zone then Some before else None) of
               None \<Rightarrow> None
             | Some token \<Rightarrow> if ContainsAny token ''/-'' then None else Some token)"

definition ClassifyToken :: "string \<Rightarrow> HostClass option" where
  "ClassifyToken token =
     (case literalBody token of
        None \<Rightarrow> None
      | Some token \<Rightarrow>
          (case (if CHR '':'' \<in> set token then None else parseInetAtonU32 token) of
             Some v \<Rightarrow> Some (classifyIPv4 v)
           | None \<Rightarrow> (case net_ParseIP token of None \<Rightarrow> None | Some ip \<Rightarrow> Some (ClassifyIP ip))))"

definition ParseHostToken :: "string \<Rightarrow> IP option" where
  "ParseHostToken token =
     (case literalBody token of
        None \<Rightarrow> None
      | Some token \<Rightarrow>
          (case (if CHR '':'' \<in> set token then None else parseInetAton token) of
             Some ip \<Rightarrow> Some ip
           | None \<Rightarrow> net_ParseIP token))"

section \<open>The two classifiers agree\<close>

lemma and_not_mask_eq_iff:
  fixes v c :: "'a::len word"
  assumes "take_bit k c = 0"
  shows "v AND NOT (mask k) = c \<longleftrightarrow> drop_bit k v = drop_bit k c"
proof
  assume "v AND NOT (mask k) = c"
  moreover have "drop_bit k (v AND NOT (mask k)) = drop_bit k v"
    by (rule bit_word_eqI) (auto simp: bit_simps dest: bit_imp_le_length)
  ultimately show "drop_bit k v = drop_bit k c" by simp
next
  assume d: "drop_bit k v = drop_bit k c"
  show "v AND NOT (mask k) = c"
  proof (rule bit_word_eqI)
    fix i assume i: "i < LENGTH('a)"
    show "bit (v AND NOT (mask k)) i = bit c i"
    proof (cases "i < k")
      case True
      then have "bit c i = bit (take_bit k c) i" by (simp add: bit_take_bit_iff)
      with True assms show ?thesis by (simp add: bit_simps)
    next
      case False
      from d have "bit (drop_bit k v) (i - k) = bit (drop_bit k c) (i - k)" by simp
      with False i show ?thesis by (simp add: bit_simps)
    qed
  qed
qed
lemma and_high_unat:
  fixes v m c :: "'a::len word"
  assumes "m = NOT (mask k)" "take_bit k c = 0"
  shows "v AND m = c \<longleftrightarrow> unat v div 2 ^ k = unat c div 2 ^ k"
  unfolding assms(1) and_not_mask_eq_iff [OF assms(2)]
  by (simp only: word_unat_eq_iff unat_drop_bit_eq drop_bit_eq_div [where ?'a = nat])

lemma drop_bit_unat: "drop_bit k v = c \<longleftrightarrow> unat v div 2 ^ k = unat c" for v c :: "'a::len word"
  by (simp only: word_unat_eq_iff unat_drop_bit_eq drop_bit_eq_div [where ?'a = nat])

lemma nat_quot:
  assumes "r < q" shows "(n div D = x * q + r) \<longleftrightarrow> (n div (D * q) = x \<and> n div D mod q = (r::nat))"
proof -
  have "n div (D*q) = n div D div q" by (simp add: div_mult2_eq)
  then show ?thesis using assms div_mult_mod_eq [of "n div D" q]
   by (metis  add.commute div_mult_self1 div_less add_0 mod_mult_self1 mod_less not_less0 mult.commute)
qed
lemma unat_byte: "unat (ucast (drop_bit k v) :: 8 word) = unat v div 2^k mod 256" for v :: "32 word"
  by (simp add: unsigned_ucast_eq unat_drop_bit_eq drop_bit_eq_div [where ?'a = nat] take_bit_eq_mod)
text \<open>The tests of the packed classifier, by prefix length, as tests on quotients of the address.\<close>

lemma packed_mask_8:
  fixes v :: "32 word"
  shows "v AND 0xffffff00 = 0xe0000000 \<longleftrightarrow> unat v div 256 = (224 * 256 + 0) * 256 + 0"
    and "v AND 0xffffff00 = 0xc0000000 \<longleftrightarrow> unat v div 256 = (192 * 256 + 0) * 256 + 0"
    and "v AND 0xffffff00 = 0xc0000200 \<longleftrightarrow> unat v div 256 = (192 * 256 + 0) * 256 + 2"
    and "v AND 0xffffff00 = 0xc6336400 \<longleftrightarrow> unat v div 256 = (198 * 256 + 51) * 256 + 100"
    and "v AND 0xffffff00 = 0xcb007100 \<longleftrightarrow> unat v div 256 = (203 * 256 + 0) * 256 + 113"
  by (subst and_high_unat [of _ 8], code_simp, code_simp, simp)+

lemma packed_mask_24:
  fixes v :: "32 word"
  shows "v AND 0xff000000 = 0x0a000000 \<longleftrightarrow> unat v div 16777216 = 10"
  by (subst and_high_unat [of _ 24], code_simp, code_simp, simp)+

lemma packed_mask_20:
  fixes v :: "32 word"
  shows "v AND 0xfff00000 = 0xac100000 \<longleftrightarrow> unat v div 1048576 = 172 * 16 + 1"
  by (subst and_high_unat [of _ 20], code_simp, code_simp, simp)+

lemma packed_mask_16:
  fixes v :: "32 word"
  shows "v AND 0xffff0000 = 0xc0a80000 \<longleftrightarrow> unat v div 65536 = 192 * 256 + 168"
  by (subst and_high_unat [of _ 16], code_simp, code_simp, simp)+

lemma packed_mask_22:
  fixes v :: "32 word"
  shows "v AND 0xffc00000 = 0x64400000 \<longleftrightarrow> unat v div 4194304 = 100 * 4 + 1"
  by (subst and_high_unat [of _ 22], code_simp, code_simp, simp)+

lemma packed_mask_17:
  fixes v :: "32 word"
  shows "v AND 0xfffe0000 = 0xc6120000 \<longleftrightarrow> unat v div 131072 = 198 * 128 + 9"
  by (subst and_high_unat [of _ 17], code_simp, code_simp, simp)+

lemma packed_mask_28:
  fixes v :: "32 word"
  shows "v AND 0xf0000000 = 0xe0000000 \<longleftrightarrow> unat v div 268435456 = 14"
    and "v AND 0xf0000000 = 0xf0000000 \<longleftrightarrow> unat v div 268435456 = 15"
  by (subst and_high_unat [of _ 28], code_simp, code_simp, simp)+

lemmas packed_masks = packed_mask_8 packed_mask_24 packed_mask_20 packed_mask_16 packed_mask_22 packed_mask_17 packed_mask_28

lemma byte_mask_4:
  fixes b :: byte
  shows "b AND 240 = 16 \<longleftrightarrow> unat b div 16 = 1"
    and "b AND 240 = 224 \<longleftrightarrow> unat b div 16 = 14"
    and "b AND 240 = 240 \<longleftrightarrow> unat b div 16 = 15"
  by (subst and_high_unat [of _ 4], code_simp, code_simp, simp)+

lemma byte_mask_6: "b AND 192 = 64 \<longleftrightarrow> unat b div 64 = 1" for b :: byte
  by (subst and_high_unat [of _ 6], code_simp, code_simp, simp)

lemma byte_mask_1: "b AND 254 = 18 \<longleftrightarrow> unat b div 2 = 9" for b :: byte
  by (subst and_high_unat [of _ 1], code_simp, code_simp, simp)

lemma byte_mask_full: "x AND 255 = x" for x :: byte
proof -
  have m: "(255 :: byte) = mask 8" by (simp add: mask_eq_exp_minus_1)
  show ?thesis unfolding m take_bit_eq_mask [symmetric] by (simp add: take_bit_word_eq_self)
qed

text \<open>The class of an IPv4 address by its leading bytes.\<close>

definition classOfQuad :: "nat \<Rightarrow> nat \<Rightarrow> nat \<Rightarrow> HostClass" where
  "classOfQuad a b c =
     (if a = 0 then ClassUnspecified
      else if a = 127 then ClassLoopback
      else if (a = 169 \<and> b = 254) \<or> (a = 224 \<and> b = 0 \<and> c = 0) then ClassLinkLocal
      else if a = 10 \<or> (a = 172 \<and> b div 16 = 1) \<or> (a = 192 \<and> b = 168) then ClassPrivate
      else if (a = 100 \<and> b div 64 = 1) \<or> (a = 192 \<and> b = 0 \<and> c = 0) \<or> (a = 192 \<and> b = 0 \<and> c = 2) \<or>
              (a = 198 \<and> b div 2 = 9) \<or> (a = 198 \<and> b = 51 \<and> c = 100) \<or>
              (a = 203 \<and> b = 0 \<and> c = 113) \<or> a div 16 = 14 \<or> a div 16 = 15 then ClassReserved
      else ClassPublic)"

lemma To4_net_IPv4 [simp]: "To4 (net_IPv4 a b c d) = Some [a, b, c, d]"
  by (simp add: To4_def net_IPv4_def v4InV6Prefix_def)

lemma IsUnspecified_net_IPv4:
  "IsUnspecified (net_IPv4 a b c d) \<longleftrightarrow> a = 0 \<and> b = 0 \<and> c = 0 \<and> d = 0"
proof -
  have z: "IPv6unspecified = [0, 0, 0, 0, 0, 0, 0, 0, 0, 0, 0, 0, 0, 0, 0, 0]" by code_simp
  show ?thesis
    by (auto simp: IsUnspecified_def ip_Equal_def net_IPv4_def v4InV6Prefix_def z)
qed

lemma maskBytes_4:
  "maskBytes 4 8 = [255, 0, 0, 0]" "maskBytes 4 10 = [255, 192, 0, 0]"
  "maskBytes 4 24 = [255, 255, 255, 0]" "maskBytes 4 15 = [255, 254, 0, 0]"
  "maskBytes 4 4 = [240, 0, 0, 0]"
  by code_simp+

lemma Contains_net_IPv4:
  "Contains (cidr [p, q, r, s] n) (net_IPv4 a b c d) =
     list_all (\<lambda>(x, n, m). n AND m = x AND m) (zip [a, b, c, d] (zip [p, q, r, s] (maskBytes 4 n)))"
  "length ip = 16 \<Longrightarrow> \<not> Contains (cidr ip n) (net_IPv4 a b c d)"
  by (simp_all add: Contains_def cidr_def numeral_eq_Suc del: maskBytes.simps)

lemma ClassifyIP_net_IPv4:
  "ClassifyIP (net_IPv4 a b c d) = classOfQuad (unat a) (unat b) (unat c)"
proof -
  have n: "net_IPv4 a b c d \<noteq> []" by (simp add: net_IPv4_def)
  have l: "IsLoopback (net_IPv4 a b c d) \<longleftrightarrow> unat a = 127"
    by (simp add: IsLoopback_def word_unat_eq_iff)
  have k: "IsLinkLocalUnicast (net_IPv4 a b c d) \<or> IsLinkLocalMulticast (net_IPv4 a b c d) \<longleftrightarrow>
      (unat a = 169 \<and> unat b = 254) \<or> (unat a = 224 \<and> unat b = 0 \<and> unat c = 0)"
    by (simp add: IsLinkLocalUnicast_def IsLinkLocalMulticast_def word_unat_eq_iff)
  have p: "IsPrivate (net_IPv4 a b c d) \<longleftrightarrow>
      unat a = 10 \<or> (unat a = 172 \<and> unat b div 16 = 1) \<or> (unat a = 192 \<and> unat b = 168)"
    unfolding IsPrivate_def byte_mask_4 by (simp add: word_unat_eq_iff)
  have u: "list_ex (\<lambda>block. Contains block (net_IPv4 a b c d)) unspecifiedBlocks \<longleftrightarrow> unat a = 0"
    by (auto simp: unspecifiedBlocks_def Contains_net_IPv4 maskBytes_4 byte_mask_full unsigned_eq_0_iff)
  have "list_ex (\<lambda>block. Contains block (net_IPv4 a b c d)) reservedBlocks \<longleftrightarrow>
      (a = 100 \<and> b AND 192 = 64) \<or> (a = 192 \<and> b = 0 \<and> c = 0) \<or> (a = 192 \<and> b = 0 \<and> c = 2) \<or>
      (a = 198 \<and> b AND 254 = 18) \<or> (a = 198 \<and> b = 51 \<and> c = 100) \<or>
      (a = 203 \<and> b = 0 \<and> c = 113) \<or> a AND 240 = 224 \<or> a AND 240 = 240"
    by (simp add: reservedBlocks_def Contains_net_IPv4 maskBytes_4 byte_mask_full)
  then have r: "list_ex (\<lambda>block. Contains block (net_IPv4 a b c d)) reservedBlocks \<longleftrightarrow>
      (unat a = 100 \<and> unat b div 64 = 1) \<or> (unat a = 192 \<and> unat b = 0 \<and> unat c = 0) \<or>
      (unat a = 192 \<and> unat b = 0 \<and> unat c = 2) \<or> (unat a = 198 \<and> unat b div 2 = 9) \<or>
      (unat a = 198 \<and> unat b = 51 \<and> unat c = 100) \<or> (unat a = 203 \<and> unat b = 0 \<and> unat c = 113) \<or>
      unat a div 16 = 14 \<or> unat a div 16 = 15"
    unfolding byte_mask_4 byte_mask_6 byte_mask_1 by (simp add: word_unat_eq_iff)
  show ?thesis
  proof (cases "unat a = 0")
    case True
    then show ?thesis
      unfolding ClassifyIP_def u r k l p classOfQuad_def by (simp add: n)
  next
    case False
    then have "a \<noteq> 0" by auto
    then have "\<not> IsUnspecified (net_IPv4 a b c d)" by (simp add: IsUnspecified_net_IPv4)
    with False show ?thesis
      unfolding ClassifyIP_def u r k l p classOfQuad_def by (simp add: n)
  qed
qed

text \<open>The quotients that the packed tests read, split into bytes.\<close>

lemma quot_16:
  "y < 256 \<Longrightarrow> n div 65536 = x * 256 + y \<longleftrightarrow> n div 16777216 = x \<and> n div 65536 mod 256 = (y::nat)"
  using nat_quot [of y 256 n 65536 x] by simp

lemma quot_8:
  "y < 256 \<Longrightarrow> z < 256 \<Longrightarrow> n div 256 = (x * 256 + y) * 256 + z \<longleftrightarrow>
   n div 16777216 = x \<and> n div 65536 mod 256 = y \<and> n div 256 mod 256 = (z::nat)"
  using nat_quot [of z 256 n 256 "x * 256 + y"] quot_16 [of y n x] by simp

lemma quot_mid:
  fixes n :: nat
  shows "n div 1048576 = x * 16 + 1 \<longleftrightarrow> n div 16777216 = x \<and> n div 65536 mod 256 div 16 = 1"
    and "n div 4194304 = x * 4 + 1 \<longleftrightarrow> n div 16777216 = x \<and> n div 65536 mod 256 div 64 = 1"
    and "n div 131072 = x * 128 + 9 \<longleftrightarrow> n div 16777216 = x \<and> n div 65536 mod 256 div 2 = 9"
    and "n div 268435456 = n div 16777216 div 16"
proof -
  have "m mod (p * q) div p = m div p mod q" if "0 < p" for m p q :: nat
    using that by (simp add: mod_mult2_eq)
  from this [of 16 _ 16] this [of 64 _ 4] this [of 2 _ 128]
  have s: "n div 65536 mod 256 div 16 = n div 1048576 mod 16"
    "n div 65536 mod 256 div 64 = n div 4194304 mod 4"
    "n div 65536 mod 256 div 2 = n div 131072 mod 128"
    by (simp_all flip: div_mult2_eq)
  show "n div 1048576 = x * 16 + 1 \<longleftrightarrow> n div 16777216 = x \<and> n div 65536 mod 256 div 16 = 1"
    using nat_quot [of 1 16 n 1048576 x] s by simp
  show "n div 4194304 = x * 4 + 1 \<longleftrightarrow> n div 16777216 = x \<and> n div 65536 mod 256 div 64 = 1"
    using nat_quot [of 1 4 n 4194304 x] s by simp
  show "n div 131072 = x * 128 + 9 \<longleftrightarrow> n div 16777216 = x \<and> n div 65536 mod 256 div 2 = 9"
    using nat_quot [of 9 128 n 131072 x] s by simp
  show "n div 268435456 = n div 16777216 div 16" by (simp flip: div_mult2_eq)
qed

lemma classifyIPv4_quad:
  "classifyIPv4 v = classOfQuad (unat v div 16777216) (unat v div 65536 mod 256) (unat v div 256 mod 256)"
proof -
  have z: "v = 0 \<or> drop_bit 24 v = 0 \<longleftrightarrow> unat v div 16777216 = 0"
    by (auto simp: drop_bit_unat)
  have d: "drop_bit 24 v = 127 \<longleftrightarrow> unat v div 16777216 = 127"
    "drop_bit 16 v = 0xa9fe \<longleftrightarrow> unat v div 65536 = 169 * 256 + 254"
    by (simp_all add: drop_bit_unat)
  have q: "unat v div 65536 = 169 * 256 + 254 \<longleftrightarrow> unat v div 16777216 = 169 \<and> unat v div 65536 mod 256 = 254"
    "unat v div 65536 = 192 * 256 + 168 \<longleftrightarrow> unat v div 16777216 = 192 \<and> unat v div 65536 mod 256 = 168"
    by (rule quot_16, simp)+
  have r: "unat v div 256 = (x * 256 + y) * 256 + z \<longleftrightarrow> unat v div 16777216 = x \<and>
      unat v div 65536 mod 256 = y \<and> unat v div 256 mod 256 = z" if "y < 256" "z < 256" for x y z
    using that by (rule quot_8)
  have r: "unat v div 256 = (224 * 256 + 0) * 256 + 0 \<longleftrightarrow> unat v div 16777216 = 224 \<and> unat v div 65536 mod 256 = 0 \<and> unat v div 256 mod 256 = 0"
    "unat v div 256 = (192 * 256 + 0) * 256 + 0 \<longleftrightarrow> unat v div 16777216 = 192 \<and> unat v div 65536 mod 256 = 0 \<and> unat v div 256 mod 256 = 0"
    "unat v div 256 = (192 * 256 + 0) * 256 + 2 \<longleftrightarrow> unat v div 16777216 = 192 \<and> unat v div 65536 mod 256 = 0 \<and> unat v div 256 mod 256 = 2"
    "unat v div 256 = (198 * 256 + 51) * 256 + 100 \<longleftrightarrow> unat v div 16777216 = 198 \<and> unat v div 65536 mod 256 = 51 \<and> unat v div 256 mod 256 = 100"
    "unat v div 256 = (203 * 256 + 0) * 256 + 113 \<longleftrightarrow> unat v div 16777216 = 203 \<and> unat v div 65536 mod 256 = 0 \<and> unat v div 256 mod 256 = 113"
    by (rule r; simp)+
  show ?thesis
    unfolding classifyIPv4_def classOfQuad_def z d packed_masks q r quot_mid by (rule refl)
qed

lemma classifyIPv4_ClassifyIP:
  "classifyIPv4 v = ClassifyIP (net_IPv4 (ucast (drop_bit 24 v)) (ucast (drop_bit 16 v))
                                          (ucast (drop_bit 8 v)) (ucast v))"
proof -
  have "unat v < 2 ^ LENGTH(32)" by (rule unsigned_less)
  then have "unat v div 16777216 < 256" by simp
  then show ?thesis
    by (simp add: classifyIPv4_quad ClassifyIP_net_IPv4 unat_byte)
qed

text \<open>
  The token classifier, with its allocation-free path for packed IPv4 addresses, gives
  every token the class of the address that \<open>ParseHostToken\<close> reads from it, and rejects
  exactly the tokens that are no address literal.
\<close>

theorem classifyToken_agrees:
  "ClassifyToken token = map_option ClassifyIP (ParseHostToken token)"
  by (auto simp: ClassifyToken_def ParseHostToken_def parseInetAton_def classifyIPv4_ClassifyIP
      split: option.split)

section \<open>Numeric spellings\<close>

lemma push_bit_or:
  "x < 2 ^ k \<Longrightarrow> push_bit k v OR x = v * 2 ^ k + (x::nat)"
proof -
  assume x: "x < 2 ^ k"
  have "push_bit k v + x = push_bit k v OR x"
  proof (rule disjunctive_add)
    fix n
    have "bit x n = bit (take_bit k x) n" using x by (simp add: take_bit_nat_eq_self)
    then show "\<not> bit (push_bit k v) n \<or> \<not> bit x n" by (auto simp: bit_simps)
  qed
  then show ?thesis by (simp add: push_bit_eq_mult)
qed

lemma digitValue_digit: "d < 10 \<Longrightarrow> digitValue (digit d) 10 = Some d"
  by (simp add: digitValue_def Let_def)

lemma parseDigits_append:
  "parseDigits b v (xs @ ys) =
     (case parseDigits b v xs of None \<Rightarrow> None | Some v' \<Rightarrow> parseDigits b v' ys)"
  by (induction xs arbitrary: v) (auto simp: Let_def split: option.split)

lemma parseDigits_dec: "n \<le> 0xffffffff \<Longrightarrow> parseDigits 10 0 (dec n) = Some n"
proof (induction n rule: dec.induct)
  case (1 n)
  show ?case
  proof (cases "n < 10")
    case True
    with "1.prems" show ?thesis by (simp add: dec.simps [of n] digitValue_digit)
  next
    case False
    then have "parseDigits 10 0 (dec (n div 10)) = Some (n div 10)" using 1 by simp
    with False "1.prems" show ?thesis
      by (simp add: dec.simps [of n] parseDigits_append digitValue_digit)
  qed
qed

lemma digit_0: "digit 0 = CHR ''0''"
  by code_simp

lemma dec_plain: "length (dec n) > 1 \<Longrightarrow> dec n ! 0 \<noteq> CHR ''0''"
proof -
  assume l: "length (dec n) > 1"
  then have "0 < n" by (cases n) (simp_all add: dec.simps [of 0])
  then show ?thesis using dec_hd [of n] by (simp add: digit_0 hd_conv_nth)
qed

lemma parseNumericPart_dec: "n \<le> 0xffffffff \<Longrightarrow> parseNumericPart (dec n) = Some n"
  using dec_plain [of n] parseDigits_dec [of n] by (auto simp: parseNumericPart_def)

text \<open>The dotted-quad spelling of a packed address.\<close>

definition dottedQuad :: "32 word \<Rightarrow> string" where
  "dottedQuad v =
     dec (unat v div 16777216) @ ''.'' @ dec (unat v div 65536 mod 256) @ ''.'' @
     dec (unat v div 256 mod 256) @ ''.'' @ dec (unat v mod 256)"

lemma dot_notin_dec: "CHR ''.'' \<notin> set (dec n)"
  using dec_in_digits [of "CHR ''.''" n] by (auto simp: is_digit_def)

lemma parseInetAtonU32_dec: "parseInetAtonU32 (dec (unat v)) = Some v"
proof -
  have "unat v < 2 ^ LENGTH(32)" by (rule unsigned_less)
  then have "unat v \<le> 0xffffffff" by simp
  from parseNumericPart_dec [OF this] \<open>unat v < 2 ^ LENGTH(32)\<close> show ?thesis
    by (simp add: parseInetAtonU32_def splitOn_none [OF dot_notin_dec] push_bit_or)
qed

lemma parseInetAtonU32_dotted: "parseInetAtonU32 (dottedQuad v) = Some v"
proof -
  let ?n = "unat v"
  have n: "?n < 2 ^ LENGTH(32)" by (rule unsigned_less)
  then have a: "?n div 16777216 < 256" by simp
  have s: "splitOn CHR ''.'' (dottedQuad v) = [dec (?n div 16777216), dec (?n div 65536 mod 256),
      dec (?n div 256 mod 256), dec (?n mod 256)]"
    by (simp add: dottedQuad_def splitOn_sep splitOn_none dot_notin_dec)
  have p: "parseNumericPart (dec m) = Some m" if "m < 256" for m
    using that by (intro parseNumericPart_dec) simp
  have "atonParts [] (splitOn CHR ''.'' (dottedQuad v)) =
      Some [?n div 16777216, ?n div 65536 mod 256, ?n div 256 mod 256, ?n mod 256]"
    using p [OF a] by (simp add: s p)
  moreover have "((?n div 16777216 * 256 + ?n div 65536 mod 256) * 256 + ?n div 256 mod 256) * 256 + ?n mod 256 = ?n"
  proof -
    have "?n div 16777216 = ?n div 65536 div 256" "?n div 65536 = ?n div 256 div 256"
      by (simp_all flip: div_mult2_eq)
    then show ?thesis by (simp only: div_mult_mod_eq)
  qed
  moreover have "\<not> 256 \<le> ?n mod 256" "?n div 65536 mod 256 \<le> 255" "?n div 256 mod 256 \<le> 255"
    using mod_less_divisor [of 256 "?n div 65536"] mod_less_divisor [of 256 "?n div 256"]
    by (simp_all add: not_le)
  ultimately show ?thesis
    using a push_bit_or [of _ 8]
    by (simp add: parseInetAtonU32_def push_bit_or algebra_simps del: of_nat_add of_nat_mult)
qed

text \<open>A spelling made of digits and dots is its own literal body.\<close>

lemma literalBody_digits:
  assumes "s \<noteq> []" "\<forall>c \<in> set s. is_digit c \<or> c = CHR ''.''"
  shows "literalBody s = Some s" and "CHR '':'' \<notin> set s"
proof -
  have sp: "\<not> is_space c" "c \<noteq> CHR ''[''" "c \<noteq> CHR ''%''" "c \<notin> set ''/-''" "c \<noteq> CHR '':''" if "c \<in> set s" for c
    using assms(2) that by (auto simp: is_space_def is_digit_def)
  have "TrimSpace s = s" using sp(1) assms(1) by (intro TrimSpace_fixed) simp
  moreover have "splitLast CHR ''%'' s = None" using sp(3) by (auto simp: splitLast_def)
  moreover have "\<not> ContainsAny s ''/-''" using sp(4) by (fastforce simp: ContainsAny_def list_ex_iff)
  ultimately show "literalBody s = Some s"
    using assms(1) sp(2) [of "hd s"] by (simp add: literalBody_def Let_def)
  show "CHR '':'' \<notin> set s" using sp(5) by auto
qed

text \<open>
  No spelling of an IPv4 address escapes classification: the plain decimal number and
  the dotted quad of an address both get the class of that address, whatever the address.
\<close>

theorem numeric_spellings_classified:
  "ClassifyToken (dec (unat v)) = Some (classifyIPv4 v) \<and>
   ClassifyToken (dottedQuad v) = Some (classifyIPv4 v)"
proof -
  have "literalBody (dec (unat v)) = Some (dec (unat v))" "CHR '':'' \<notin> set (dec (unat v))"
    by (rule literalBody_digits; auto dest: dec_in_digits)+
  moreover have "literalBody (dottedQuad v) = Some (dottedQuad v)" "CHR '':'' \<notin> set (dottedQuad v)"
    by (rule literalBody_digits; auto simp: dottedQuad_def dest: dec_in_digits)+
  ultimately show ?thesis
    by (simp add: ClassifyToken_def parseInetAtonU32_dec parseInetAtonU32_dotted)
qed

end
