(* ===== verification/NetResolve.thy ===== *)
theory NetResolve
  imports NetHost
begin

text \<open>
  DNS resolution with its process-wide cache (\<open>governance/netpolicy/resolve.go\<close>). The cache
  is threaded through \<open>ResolveHost\<close> explicitly; the mutex makes every read and every store
  atomic, and a call is modelled as its cache read, its lookup and its store in that order.

  The resolver is code outside the repository: a call receives it as a function from host names
  to an error text or a record set, and nothing is assumed of it. A clock reading is an argument
  of the call.
\<close>

section \<open>Options, entries and errors\<close>

type_synonym lookup = "string \<Rightarrow> string + IP list"

record IPAddr =
  addr_IP :: IP
  addr_Zone :: string

record ResolveOptions =
  ro_Timeout :: int
  ro_PositiveTTL :: int
  ro_NegativeTTL :: int
  ro_MaxCacheEntries :: int
  ro_Resolver :: "(string \<Rightarrow> string + IPAddr list) option"
  ro_Lookup :: "lookup option"
  ro_Now :: "time option"

record ResolvedHost =
  rh_Token :: string
  rh_IPs :: "IP list"
  rh_ResolvedAt :: time

datatype ResolveError =
    ErrUnresolved
  | ErrUnresolvedLookup string string
  | ErrUnresolvedNoRecords string
  | ErrPrivateResolved

record hostEntry =
  he_ips :: "IP list"
  he_expiresAt :: time
  he_negative :: bool

type_synonym hostCache = "(string \<times> hostEntry) list"

definition second :: int where
  "second = 1000000000"

definition DefaultResolveOptions :: ResolveOptions where
  "DefaultResolveOptions =
     \<lparr>ro_Timeout = 2 * second, ro_PositiveTTL = 60 * second, ro_NegativeTTL = 5 * second,
      ro_MaxCacheEntries = 4096, ro_Resolver = None, ro_Lookup = None, ro_Now = None\<rparr>"

text \<open>The process that runs the resolver: the reading of \<open>time.Now\<close> and \<open>net.DefaultResolver\<close>.\<close>

record netEnv =
  env_Now :: time
  env_DefaultResolver :: "string \<Rightarrow> string + IPAddr list"

definition norm :: "netEnv \<Rightarrow> ResolveOptions \<Rightarrow> ResolveOptions" where
  "norm env opts =
     (let d = DefaultResolveOptions;
          opts = (if ro_Timeout opts \<le> 0 then opts\<lparr>ro_Timeout := ro_Timeout d\<rparr> else opts);
          opts = (if ro_PositiveTTL opts \<le> 0 then opts\<lparr>ro_PositiveTTL := ro_PositiveTTL d\<rparr> else opts);
          opts = (if ro_NegativeTTL opts \<le> 0 then opts\<lparr>ro_NegativeTTL := ro_NegativeTTL d\<rparr> else opts);
          opts = (if ro_MaxCacheEntries opts \<le> 0 then opts\<lparr>ro_MaxCacheEntries := ro_MaxCacheEntries d\<rparr> else opts);
          opts = (if ro_Now opts = None then opts\<lparr>ro_Now := Some (env_Now env)\<rparr> else opts)
      in opts)"

section \<open>The cache\<close>

text \<open>The scan of \<open>evictOldestLocked\<close>: the first key of least expiry.\<close>

fun oldestEntry :: "string \<times> time \<Rightarrow> hostCache \<Rightarrow> string" where
  "oldestEntry (k, t) [] = k"
| "oldestEntry (k, t) ((k', e) # m) =
     oldestEntry (if he_expiresAt e < t then (k', he_expiresAt e) else (k, t)) m"

fun evictLoop :: "nat \<Rightarrow> hostCache \<Rightarrow> hostCache" where
  "evictLoop 0 m = m"
| "evictLoop (Suc n) m =
     (case m of
        [] \<Rightarrow> []
      | (k, e) # m' \<Rightarrow> evictLoop n (AList.delete (oldestEntry (k, he_expiresAt e) m') m))"

definition evictOldestLocked :: "nat \<Rightarrow> hostCache \<Rightarrow> hostCache" where
  "evictOldestLocked n m = evictLoop (if n < 1 then 1 else n) m"

definition storeCache :: "string \<Rightarrow> hostEntry \<Rightarrow> int \<Rightarrow> hostCache \<Rightarrow> hostCache" where
  "storeCache key entry maxEntries m =
     (let m = (if int (length m) \<ge> maxEntries then evictOldestLocked (length m div 8) m else m)
      in AList.update key entry m)"

section \<open>Resolution\<close>

definition lookupHost :: "netEnv \<Rightarrow> string \<Rightarrow> ResolveOptions \<Rightarrow> string + IP list" where
  "lookupHost env host opts =
     (case ro_Lookup opts of
        Some lookup \<Rightarrow> lookup host
      | None \<Rightarrow>
          let resolver = (case ro_Resolver opts of None \<Rightarrow> env_DefaultResolver env | Some r \<Rightarrow> r) in
          (case resolver host of
             Inl err \<Rightarrow> Inl err
           | Inr addrs \<Rightarrow> Inr (map addr_IP addrs)))"

definition ClassifyResolved :: "ResolvedHost \<Rightarrow> HostClass" where
  "ClassifyResolved h = keepMax classSeverity ClassPublic (map ClassifyIP (rh_IPs h))"

definition checkPublic :: "ResolvedHost \<Rightarrow> ResolvedHost \<times> ResolveError option" where
  "checkPublic h = (if ClassifyResolved h \<noteq> ClassPublic then (h, Some ErrPrivateResolved) else (h, None))"

definition ResolveHost ::
  "netEnv \<Rightarrow> string \<Rightarrow> ResolveOptions \<Rightarrow> hostCache \<Rightarrow> (ResolvedHost \<times> ResolveError option) \<times> hostCache" where
  "ResolveHost env token opts m =
     (let opts = norm env opts;
          token = TrimSpace token in
      if token = [] then ((\<lparr>rh_Token = token, rh_IPs = [], rh_ResolvedAt = 0\<rparr>, Some ErrUnresolved), m)
      else let now = the (ro_Now opts) in
      case ParseHostToken token of
        Some ip \<Rightarrow> ((\<lparr>rh_Token = token, rh_IPs = [ip], rh_ResolvedAt = now\<rparr>, None), m)
      | None \<Rightarrow>
          let key = ToLower token in
          case (case map_of m key of
                  None \<Rightarrow> None
                | Some entry \<Rightarrow> if now < he_expiresAt entry then Some entry else None) of
            Some entry \<Rightarrow>
              if he_negative entry
              then ((\<lparr>rh_Token = token, rh_IPs = [], rh_ResolvedAt = now\<rparr>, Some ErrUnresolved), m)
              else (checkPublic \<lparr>rh_Token = token, rh_IPs = he_ips entry, rh_ResolvedAt = now\<rparr>, m)
          | None \<Rightarrow>
              let none = \<lparr>rh_Token = token, rh_IPs = [], rh_ResolvedAt = 0\<rparr>;
                  negative = storeCache key
                    \<lparr>he_ips = [], he_expiresAt = now + ro_NegativeTTL opts, he_negative = True\<rparr>
                    (ro_MaxCacheEntries opts) m in
              (case lookupHost env token opts of
                 Inl err \<Rightarrow> ((none, Some (ErrUnresolvedLookup token err)), negative)
               | Inr ips \<Rightarrow>
                   if ips = [] then ((none, Some (ErrUnresolvedNoRecords token)), negative)
                   else (checkPublic \<lparr>rh_Token = token, rh_IPs = ips, rh_ResolvedAt = now\<rparr>,
                         storeCache key
                           \<lparr>he_ips = ips, he_expiresAt = now + ro_PositiveTTL opts, he_negative = False\<rparr>
                           (ro_MaxCacheEntries opts) m)))"

definition ResolveTarget ::
  "netEnv \<Rightarrow> string \<Rightarrow> ResolveOptions \<Rightarrow> hostCache \<Rightarrow> (ResolveError + Target) \<times> hostCache" where
  "ResolveTarget env token opts m =
     (let token = TrimSpace token in
      case ParseHostToken token of
        Some ip \<Rightarrow> (Inr \<lparr>tg_Token = token, tg_Class = ClassifyIP ip, tg_Literal = True\<rparr>, m)
      | None \<Rightarrow>
          (case ResolveHost env token opts m of
             ((h, err), m') \<Rightarrow>
               (case err of
                  Some e \<Rightarrow>
                    if e = ErrPrivateResolved
                    then (Inr \<lparr>tg_Token = token, tg_Class = ClassifyResolved h, tg_Literal = False\<rparr>, m')
                    else (Inl e, m')
                | None \<Rightarrow> (Inr \<lparr>tg_Token = token, tg_Class = ClassifyResolved h, tg_Literal = False\<rparr>, m'))))"

text \<open>A history of calls on the process-wide cache, from the empty cache.\<close>

type_synonym resolveCall = "netEnv \<times> string \<times> ResolveOptions"

fun resolveAll :: "resolveCall list \<Rightarrow> hostCache \<Rightarrow> hostCache" where
  "resolveAll [] m = m"
| "resolveAll ((env, token, opts) # cs) m = resolveAll cs (snd (ResolveTarget env token opts m))"

section \<open>The cache stays bounded\<close>

lemma oldestEntry_in: "oldestEntry (k, t) m \<in> insert k (set (gokeys m))"
  by (induction "(k, t)" m arbitrary: k t rule: oldestEntry.induct) auto

lemma length_delete_key: "k \<in> set (gokeys m) \<Longrightarrow> length (AList.delete k m) < length m"
  by (induction m) (auto simp: AList.delete_eq intro: le_imp_less_Suc length_filter_le)

lemma evictLoop_Nil [simp]: "evictLoop n [] = []"
  by (cases n) simp_all

lemma evictLoop_Suc:
  "\<exists>k. evictLoop (Suc n) m = evictLoop n (AList.delete k m) \<and> (m \<noteq> [] \<longrightarrow> k \<in> set (gokeys m))"
proof (cases m)
  case (Cons a m')
  then show ?thesis
    using oldestEntry_in [of "fst a" "he_expiresAt (snd a)" m']
    by (cases a) (auto simp del: delete_simps)
qed simp

declare evictLoop.simps(2) [simp del]

lemma evictLoop_le: "length (evictLoop n m) \<le> length m"
proof (induction n arbitrary: m)
  case (Suc n)
  obtain k where "evictLoop (Suc n) m = evictLoop n (AList.delete k m)" using evictLoop_Suc by blast
  then show ?case using Suc [of "AList.delete k m"] length_delete_le [of k m] by simp
qed simp

lemma evictLoop_less:
  assumes "n \<noteq> 0" and "m \<noteq> []"
  shows "length (evictLoop n m) < length m"
proof -
  from assms(1) obtain n' where n: "n = Suc n'" by (metis not0_implies_Suc)
  obtain k where k: "evictLoop n m = evictLoop n' (AList.delete k m)" "k \<in> set (gokeys m)"
    using evictLoop_Suc [of n' m] assms(2) n by blast
  have "length (AList.delete k m) < length m" using k(2) by (rule length_delete_key)
  then show ?thesis using evictLoop_le [of n' "AList.delete k m"] k(1) by simp
qed

lemma length_update_le: "length (AList.update k v m) \<le> Suc (length m)"
  by (induction m) auto

lemma storeCache_bounded:
  assumes "int (length m) \<le> n" and "1 \<le> mx" and "mx \<le> n"
  shows "int (length (storeCache key entry mx m)) \<le> n"
proof (cases "int (length m) \<ge> mx")
  case True
  let ?e = "evictOldestLocked (length m div 8) m"
  have "m \<noteq> []" using True assms(2) by auto
  then have "length ?e < length m" by (simp add: evictOldestLocked_def evictLoop_less)
  then show ?thesis
    using True assms(1) length_update_le [of key entry ?e] by (simp add: storeCache_def)
next
  case False
  then show ?thesis using assms(3) length_update_le [of key entry m] by (simp add: storeCache_def)
qed

lemma ResolveHost_stored:
  "snd (ResolveHost env token opts m) = m \<or>
   (\<exists>e. snd (ResolveHost env token opts m) =
        storeCache (ToLower (TrimSpace token)) e (ro_MaxCacheEntries (norm env opts)) m)"
  by (auto simp: ResolveHost_def Let_def split: option.split sum.split)

lemma ResolveTarget_stored:
  "snd (ResolveTarget env token opts m) = m \<or>
   (\<exists>e. snd (ResolveTarget env token opts m) =
        storeCache (ToLower (TrimSpace token)) e (ro_MaxCacheEntries (norm env opts)) m)"
  using ResolveHost_stored [of env "TrimSpace token" opts m]
  by (auto simp: ResolveTarget_def Let_def split: option.split prod.split)

lemma norm_max_pos: "1 \<le> ro_MaxCacheEntries (norm env opts)"
  by (auto simp: norm_def Let_def DefaultResolveOptions_def)

text \<open>
  The process-wide resolution cache is bounded: after any history of calls that ask for at
  most \<open>n\<close> entries (after the defaults are filled in) it holds at most \<open>n\<close> entries.
\<close>

theorem resolve_cache_bounded:
  assumes "\<forall>(env, token, opts) \<in> set calls. ro_MaxCacheEntries (norm env opts) \<le> n" and "1 \<le> n"
  shows "int (length (resolveAll calls [])) \<le> n"
proof -
  have "int (length m) \<le> n \<Longrightarrow> int (length (resolveAll calls m)) \<le> n" for m
    using assms(1)
  proof (induction calls arbitrary: m)
    case (Cons c cs)
    obtain env token opts where c: "c = (env, token, opts)" by (metis surj_pair)
    then have "ro_MaxCacheEntries (norm env opts) \<le> n" using Cons.prems(2) by simp
    then have "int (length (snd (ResolveTarget env token opts m))) \<le> n"
      using ResolveTarget_stored [of env token opts m] storeCache_bounded [of m n] norm_max_pos
        Cons.prems(1) by metis
    then show ?case using Cons c by simp
  qed simp
  then show ?thesis using assms(2) by simp
qed

section \<open>A public target rests on a fresh public answer\<close>

lemma ClassifyResolved_public:
  "ClassifyResolved h = ClassPublic \<longleftrightarrow> (\<forall>ip \<in> set (rh_IPs h). ClassifyIP ip = ClassPublic)"
proof
  assume pub: "ClassifyResolved h = ClassPublic"
  show "\<forall>ip \<in> set (rh_IPs h). ClassifyIP ip = ClassPublic"
  proof
    fix ip assume "ip \<in> set (rh_IPs h)"
    then have "classSeverity (ClassifyIP ip) \<le> classSeverity (ClassifyResolved h)"
      unfolding ClassifyResolved_def by (intro keepMax_ge) simp
    with pub show "ClassifyIP ip = ClassPublic" by (cases "ClassifyIP ip") simp_all
  qed
next
  assume "\<forall>ip \<in> set (rh_IPs h). ClassifyIP ip = ClassPublic"
  then show "ClassifyResolved h = ClassPublic"
    using keepMax_in [of classSeverity ClassPublic "map ClassifyIP (rh_IPs h)"]
    by (auto simp: ClassifyResolved_def)
qed

text \<open>The resolver's answer \<open>ips\<close> to some call for the name \<open>key\<close>, valid until \<open>expiry\<close>.\<close>

definition answered :: "resolveCall \<Rightarrow> string \<Rightarrow> IP list \<Rightarrow> time \<Rightarrow> bool" where
  "answered call key ips expiry =
     (case call of (env, token, opts) \<Rightarrow>
        ToLower (TrimSpace token) = key \<and>
        lookupHost env (TrimSpace token) (norm env opts) = Inr ips \<and> ips \<noteq> [] \<and>
        expiry = the (ro_Now (norm env opts)) + ro_PositiveTTL (norm env opts))"

definition entriesFrom :: "resolveCall list \<Rightarrow> hostCache \<Rightarrow> bool" where
  "entriesFrom calls m \<longleftrightarrow>
     (\<forall>key e. map_of m key = Some e \<longrightarrow> \<not> he_negative e \<longrightarrow>
        (\<exists>call \<in> set calls. answered call key (he_ips e) (he_expiresAt e)))"

lemma entriesFromD:
  "entriesFrom calls m \<Longrightarrow> map_of m key = Some e \<Longrightarrow> \<not> he_negative e \<Longrightarrow>
   \<exists>call \<in> set calls. answered call key (he_ips e) (he_expiresAt e)"
  by (simp add: entriesFrom_def)

lemma map_of_evictLoop: "map_of (evictLoop n m) k = Some e \<Longrightarrow> map_of m k = Some e"
proof (induction n arbitrary: m)
  case (Suc n)
  obtain k' where "evictLoop (Suc n) m = evictLoop n (AList.delete k' m)" using evictLoop_Suc by blast
  then show ?case using Suc by (fastforce split: if_splits)
qed simp

lemma map_of_storeCache:
  "map_of (storeCache key e mx m) k = Some e' \<Longrightarrow> (k = key \<and> e' = e) \<or> map_of m k = Some e'"
  by (auto simp: storeCache_def evictOldestLocked_def Let_def split: if_splits dest: map_of_evictLoop)

lemma entriesFrom_store:
  assumes "entriesFrom calls m"
    and "he_negative e \<or> (\<exists>call \<in> set calls'. answered call key (he_ips e) (he_expiresAt e))"
    and "set calls \<subseteq> set calls'"
  shows "entriesFrom calls' (storeCache key e mx m)"
  unfolding entriesFrom_def
  using assms by (fastforce dest!: map_of_storeCache dest: entriesFromD)

lemma entriesFrom_ResolveHost:
  assumes "entriesFrom calls m" and "token' = TrimSpace token"
  shows "entriesFrom ((env, token, opts) # calls) (snd (ResolveHost env token' opts m))"
proof -
  have keep: "entriesFrom ((env, token, opts) # calls) m"
    using assms by (fastforce simp: entriesFrom_def)
  show ?thesis using assms
    by (auto simp: ResolveHost_def Let_def answered_def intro!: keep entriesFrom_store [of calls]
        split: option.split sum.split)
qed

lemma entriesFrom_step:
  "entriesFrom calls m \<Longrightarrow>
   entriesFrom ((env, token, opts) # calls) (snd (ResolveTarget env token opts m))"
  using entriesFrom_ResolveHost [of calls m "TrimSpace token" token env opts]
  by (cases "ParseHostToken (TrimSpace token)")
    (auto simp: ResolveTarget_def Let_def entriesFrom_def split: option.split prod.split)

lemma entriesFrom_all: "entriesFrom cs m \<Longrightarrow> entriesFrom (rev calls @ cs) (resolveAll calls m)"
  by (induction calls m arbitrary: cs rule: resolveAll.induct)
    (auto dest: entriesFrom_step)

text \<open>The two ways to a public target for a name: a live positive entry, or a fresh answer.\<close>

lemma ResolveTarget_public_cases:
  assumes "fst (ResolveTarget env token opts m) = Inr target"
    and "tg_Class target = ClassPublic" and "\<not> tg_Literal target"
  defines "o' \<equiv> norm env opts" and "tok \<equiv> TrimSpace token"
  shows "\<exists>ips. (\<forall>ip \<in> set ips. ClassifyIP ip = ClassPublic) \<and>
           ((\<exists>e. map_of m (ToLower tok) = Some e \<and> \<not> he_negative e \<and> he_ips e = ips \<and>
                 the (ro_Now o') < he_expiresAt e) \<or>
            (lookupHost env tok o' = Inr ips \<and> ips \<noteq> []))"
  using assms
  by (auto simp: ResolveTarget_def ResolveHost_def checkPublic_def Let_def ClassifyResolved_public
      split: option.splits sum.splits if_splits prod.splits)

text \<open>A public answer traces to the resolver, through the calls that filled the cache.\<close>

lemma public_answer:
  assumes "entriesFrom calls m" and "fst (ResolveTarget env token opts m) = Inr target"
    and "tg_Class target = ClassPublic" and "\<not> tg_Literal target"
  shows "\<exists>call ips expiry. call \<in> set ((env, token, opts) # calls) \<and> answered call (ToLower (TrimSpace token)) ips expiry \<and>
    the (ro_Now (norm env opts)) < expiry \<and> (\<forall>ip \<in> set ips. ClassifyIP ip = ClassPublic)"
proof -
  let ?key = "ToLower (TrimSpace token)"
  have pos: "0 < ro_PositiveTTL (norm env opts)"
    by (auto simp: norm_def Let_def DefaultResolveOptions_def second_def)
  obtain ips where pub: "\<forall>ip \<in> set ips. ClassifyIP ip = ClassPublic"
    and "(\<exists>e. map_of m ?key = Some e \<and> \<not> he_negative e \<and> he_ips e = ips \<and>
              the (ro_Now (norm env opts)) < he_expiresAt e) \<or>
         (lookupHost env (TrimSpace token) (norm env opts) = Inr ips \<and> ips \<noteq> [])" (is "?cached \<or> ?fresh")
    using ResolveTarget_public_cases [OF assms(2-4)] by blast
  then show ?thesis
  proof (elim disjE)
    assume ?cached
    then obtain e where e: "map_of m ?key = Some e" "\<not> he_negative e" "he_ips e = ips"
        "the (ro_Now (norm env opts)) < he_expiresAt e" by blast
    from entriesFromD [OF assms(1) e(1,2)] e(3) obtain call
      where "call \<in> set calls" "answered call ?key ips (he_expiresAt e)" by auto
    note this e(4)
    with pub show ?thesis by (metis list.set_intros(2))
  next
    assume ?fresh
    then have "answered (env, token, opts) ?key ips
        (the (ro_Now (norm env opts)) + ro_PositiveTTL (norm env opts))"
      by (simp add: answered_def)
    with pub pos show ?thesis by (metis list.set_intros(1) less_add_same_cancel1)
  qed
qed

text \<open>
  \<^bold>\<open>C36.\<close> The cache cannot launder a private answer, and an unresolved name never yields a
  target: after any history of calls, when \<open>ResolveTarget\<close> reports a host name (no literal) as
  public, the resolver gave for that name a non-empty record set of public addresses only, in
  this call or in an earlier one whose time to live has not passed.
\<close>

theorem public_target_rests_on_answer:
  assumes "fst (ResolveTarget env token opts (resolveAll calls [])) = Inr target"
    and "tg_Class target = ClassPublic" and "\<not> tg_Literal target"
  shows "\<exists>call ips expiry. call \<in> set ((env, token, opts) # calls) \<and>
           answered call (ToLower (TrimSpace token)) ips expiry \<and>
           the (ro_Now (norm env opts)) < expiry \<and>
           (\<forall>ip \<in> set ips. ClassifyIP ip = ClassPublic)"
proof -
  have "entriesFrom (rev calls) (resolveAll calls [])"
    using entriesFrom_all [of "[]" "[]" calls] by (simp add: entriesFrom_def)
  from public_answer [OF this assms] show ?thesis by simp
qed

text \<open>Witness: a name with two public addresses, asked twice within the time to live; the second
  call is answered by the cache although its resolver fails.\<close>

definition wOpts :: "int \<Rightarrow> lookup \<Rightarrow> ResolveOptions" where
  "wOpts now lookup = DefaultResolveOptions\<lparr>ro_Now := Some now, ro_Lookup := Some lookup,
     ro_MaxCacheEntries := 1\<rparr>"

definition wEnv :: netEnv where
  "wEnv = \<lparr>env_Now = 0, env_DefaultResolver = (\<lambda>_. Inl ''offline'')\<rparr>"

definition wCalls :: "resolveCall list" where
  "wCalls = [(wEnv, ''Go.dev'', wOpts 1 (\<lambda>_. Inr [[8, 8, 8, 8], [1, 1, 1, 1]]))]"

definition wTarget :: Target where
  "wTarget = \<lparr>tg_Token = ''go.dev'', tg_Class = ClassPublic, tg_Literal = False\<rparr>"

theorem public_target_rests_on_answer_witness:
  "\<exists>call ips expiry. call \<in> set ((wEnv, ''go.dev'', wOpts 2 (\<lambda>_. Inl ''offline'')) # wCalls) \<and>
     answered call (ToLower (TrimSpace ''go.dev'')) ips expiry \<and>
     the (ro_Now (norm wEnv (wOpts 2 (\<lambda>_. Inl ''offline'')))) < expiry \<and>
     (\<forall>ip \<in> set ips. ClassifyIP ip = ClassPublic)"
proof (rule public_target_rests_on_answer)
  show "fst (ResolveTarget wEnv ''go.dev'' (wOpts 2 (\<lambda>_. Inl ''offline'')) (resolveAll wCalls [])) = Inr wTarget"
    by code_simp
qed (simp_all add: wTarget_def)

theorem resolve_cache_bounded_witness:
  "int (length (resolveAll ((wEnv, ''a.b'', wOpts 3 (\<lambda>_. Inl ''x'')) # wCalls) [])) \<le> 1"
  by (rule resolve_cache_bounded)
    (auto simp: wCalls_def wOpts_def norm_def DefaultResolveOptions_def Let_def second_def)

end
