(* ===== verification/PermChecks.thy ===== *)
theory PermChecks
  imports PermFile NetResolve
begin

text \<open>
  Checks of executables, network targets, capabilities, inter-process communication and tools
  (\<open>governance/authorization/perm_exec.go\<close>, \<open>perm_net.go\<close>, \<open>perm_tool.go\<close>, and the end of
  \<open>perm_delegation.go\<close>), and the invariant of the permission manager under all of its calls.
\<close>

section \<open>Executables\<close>

definition findExecutablePermission ::
  "time \<Rightarrow> string \<Rightarrow> PermissionManager \<Rightarrow> ExecutablePermission option \<times> PermissionManager" where
  "findExecutablePermission now binary m =
     (let cacheKey = TrimSpace binary in
      case cache_Get now cacheKey (pm_execPermCache m) of
        (Some perm, cache) \<Rightarrow> (perm, m\<lparr>pm_execPermCache := cache\<rparr>)
      | (None, cache) \<Rightarrow>
          let matched = find (\<lambda>perm. xp_Binary perm = binary) (ps_Executables (pm_declared m))
          in (matched, m\<lparr>pm_execPermCache := cache_Put now cacheKey matched cache\<rparr>))"

text \<open>The loop over the positions both lists have. With a trailing wildcard the last pattern is not compared.\<close>

fun matchArgsLoop :: "bool \<Rightarrow> string list \<Rightarrow> string list \<Rightarrow> bool" where
  "matchArgsLoop wild [] args = True"
| "matchArgsLoop wild patterns [] = True"
| "matchArgsLoop wild (pattern # patterns) (arg # args) =
     (if wild \<and> patterns = [] then True
      else if pattern = ''*'' then matchArgsLoop wild patterns args
      else if prefix ''--'' pattern \<and> suffix ''*'' pattern then
        (if \<not> prefix (TrimSuffix pattern ''*'') arg then False else matchArgsLoop wild patterns args)
      else if pattern \<noteq> arg then False
      else matchArgsLoop wild patterns args)"

definition matchArgs :: "string list \<Rightarrow> string list \<Rightarrow> bool" where
  "matchArgs patterns args =
     (if patterns = [] then True
      else if patterns = [''*''] then True
      else
        let hasTrailingWildcard = (last patterns = ''*'') in
        if \<not> hasTrailingWildcard \<and> length patterns \<noteq> length args then False
        else if hasTrailingWildcard \<and> length args < length patterns - 1 then False
        else matchArgsLoop hasTrailingWildcard patterns args)"

text \<open>The environment as a map: later entries of a name win, entries without an equals sign are dropped.\<close>

definition envMap :: "string list \<Rightarrow> (string \<times> string) list" where
  "envMap env = fold (\<lambda>e m. case cutAt CHR ''='' e of Some (k, v) \<Rightarrow> AList.update k v m | None \<Rightarrow> m) env []"

definition matchEnv :: "string list \<Rightarrow> string list \<Rightarrow> bool" where
  "matchEnv patterns env =
     list_all (\<lambda>pattern.
       case cutAt CHR ''='' pattern of
         None \<Rightarrow> True
       | Some (k, want) \<Rightarrow>
           (case map_of (envMap env) k of None \<Rightarrow> False | Some v \<Rightarrow> want = ''*'' \<or> want = v)) patterns"

definition CheckExecutable ::
  "(nat \<Rightarrow> time) \<Rightarrow> time \<Rightarrow> time \<Rightarrow> string \<Rightarrow> string \<Rightarrow> string \<Rightarrow> string list \<Rightarrow> string list \<Rightarrow> PermissionManager \<Rightarrow>
   goerr option \<times> PermissionManager" where
  "CheckExecutable clk now ts ctxAgent agentID binary args env m =
     (case findExecutablePermission now binary m of
        (None, m) \<Rightarrow>
          undeclared clk ctxAgent (descriptor PermissionTypeExecutable (''exec:binary:'' @ binary) binary False) ''binary not declared'' m
      | (Some perm, m) \<Rightarrow>
          if xp_Args perm \<noteq> [] \<and> \<not> matchArgs (xp_Args perm) args then (Some (Err ''arguments rejected''), m)
          else if xp_Env perm \<noteq> [] \<and> \<not> matchEnv (xp_Env perm) env then (Some (Err ''environment rejected''), m)
          else
            (case (if xp_HITLRequired perm
                   then ensureGrant clk ctxAgent (descriptor PermissionTypeExecutable (''exec:binary:'' @ binary) binary True) m
                   else (None, m)) of
               (Some err, m) \<Rightarrow> (Some err, m)
             | (None, m) \<Rightarrow>
                 (auditLog m ts agentID (descriptor PermissionTypeExecutable (''exec:'' @ binary) binary False) ''granted''
                    [(''args'', AStrings (RedactStrings args)), (''env'', AStrings (RedactEnvPairs env))], m)))"

section \<open>Network\<close>

abbreviation directionEgress :: string where "directionEgress \<equiv> ''egress''"
abbreviation directionIngress :: string where "directionIngress \<equiv> ''ingress''"
abbreviation directionDNS :: string where "directionDNS \<equiv> ''dns''"

fun classText :: "HostClass \<Rightarrow> string" where
  "classText ClassLoopback = ''loopback''"
| "classText ClassLinkLocal = ''link-local''"
| "classText ClassPrivate = ''private''"
| "classText ClassUnspecified = ''unspecified''"
| "classText ClassReserved = ''reserved''"
| "classText ClassPublic = ''public''"

definition networkDescriptor :: "string \<Rightarrow> string \<Rightarrow> string \<Rightarrow> int \<Rightarrow> PermissionDescriptor" where
  "networkDescriptor direction protocol host port =
     descriptor PermissionTypeNetwork (''net:'' @ direction @ '':'' @ protocol @ '':'' @ host @ '':'' @ fmtInt port) host False"

definition networkBlockReason :: "HostClass \<Rightarrow> string" where
  "networkBlockReason cls = classText cls @ '' addresses are blocked (ssrf protection)''"

definition netApplies :: "string \<Rightarrow> string \<Rightarrow> string \<Rightarrow> int \<Rightarrow> NetworkPermission \<Rightarrow> bool" where
  "netApplies direction protocol host port perm \<longleftrightarrow>
     (if np_Direction perm \<noteq> direction \<or> np_Protocol perm \<noteq> protocol then False
      else if np_Direction perm = directionEgress \<and> np_Port perm \<noteq> 0 \<and> np_Port perm \<noteq> port then False
      else if np_Direction perm = directionEgress \<and>
              (np_Host perm = host \<or> np_Host perm = permissionMatchAll \<or> matchGlob (np_Host perm) host) then True
      else if np_Direction perm = directionIngress \<and> (np_Port perm = port \<or> np_Port perm = 0) then True
      else if np_Direction perm = directionDNS \<and> np_Host perm = [] then True
      else np_Host perm = host @ '':'' @ fmtInt port)"

definition findNetworkPermission :: "string \<Rightarrow> string \<Rightarrow> string \<Rightarrow> int \<Rightarrow> PermissionManager \<Rightarrow> NetworkPermission option" where
  "findNetworkPermission direction protocol host port m =
     find (netApplies direction protocol host port) (ps_Network (pm_declared m))"

definition currentSandboxPolicyLocked :: "PermissionManager \<Rightarrow> SandboxPolicy" where
  "currentSandboxPolicyLocked m =
     (let policy = (case pm_runtime m of
                      Some (policy, apply) \<Rightarrow> policy
                    | None \<Rightarrow> \<lparr>sb_NetworkRules = [], sb_ReadOnlyRoot = False, sb_ProtectedPaths = [], sb_NoNewPrivileges = False,
                               sb_SeccompProfile = [], sb_AllowedEnvKeys = [], sb_DeniedEnvKeys = []\<rparr>)
      in policy\<lparr>sb_NetworkRules := pm_netPolicy m\<rparr>)"

definition applyRuntimePolicyLocked :: "PermissionManager \<Rightarrow> PermissionManager" where
  "applyRuntimePolicyLocked m =
     (case pm_runtime m of
        None \<Rightarrow> m
      | Some (policy, apply) \<Rightarrow> m\<lparr>pm_runtimePolicyErr := apply (currentSandboxPolicyLocked m)\<rparr>)"

definition AttachRuntime :: "SandboxRuntime option \<Rightarrow> PermissionManager \<Rightarrow> PermissionManager" where
  "AttachRuntime runtime m = applyRuntimePolicyLocked (m\<lparr>pm_runtime := runtime\<rparr>)"

definition recordNetworkRule :: "string \<Rightarrow> string \<Rightarrow> string \<Rightarrow> int \<Rightarrow> PermissionManager \<Rightarrow> PermissionManager" where
  "recordNetworkRule direction protocol host port m =
     applyRuntimePolicyLocked
       (m\<lparr>pm_netPolicy := pm_netPolicy m @
            [\<lparr>nr_Direction = direction, nr_Protocol = protocol, nr_Host = host, nr_Port = port, nr_Description = []\<rparr>]\<rparr>)"

definition CheckNetwork ::
  "(nat \<Rightarrow> time) \<Rightarrow> time \<Rightarrow> string \<Rightarrow> string \<Rightarrow> string \<Rightarrow> string \<Rightarrow> Target \<Rightarrow> int \<Rightarrow> PermissionManager \<Rightarrow>
   goerr option \<times> PermissionManager" where
  "CheckNetwork clk ts ctxAgent agentID direction protocol target port m =
     (let host = tg_Token target in
      if tg_Class target \<noteq> ClassPublic then (Some (Err (networkBlockReason (tg_Class target))), m)
      else case findNetworkPermission direction protocol host port m of
        None \<Rightarrow> undeclared clk ctxAgent (networkDescriptor direction protocol host port) ''network scope missing'' m
      | Some perm \<Rightarrow>
          (case (if np_HITLRequired perm
                 then ensureGrant clk ctxAgent
                   (descriptor PermissionTypeNetwork (''net:'' @ direction @ '':'' @ protocol) (host @ '':'' @ fmtInt port) True) m
                 else (None, m)) of
             (Some err, m) \<Rightarrow> (Some err, m)
           | (None, m) \<Rightarrow>
               (case auditLog m ts agentID
                       (descriptor PermissionTypeNetwork (''net:'' @ direction) (host @ '':'' @ fmtInt port) False) ''granted'' [] of
                  Some err \<Rightarrow> (Some err, m)
                | None \<Rightarrow> (None, recordNetworkRule direction protocol host port m))))"

section \<open>Capabilities and inter-process communication\<close>

definition hasCapability :: "string \<Rightarrow> PermissionManager \<Rightarrow> bool" where
  "hasCapability cap m = list_ex (\<lambda>perm. cp_Capability perm = cap) (ps_Capabilities (pm_declared m))"

definition CheckCapability :: "time \<Rightarrow> string \<Rightarrow> string \<Rightarrow> PermissionManager \<Rightarrow> goerr option" where
  "CheckCapability ts agentID capability m =
     (if \<not> hasCapability capability m then Some (Err ''capability not declared'')
      else auditLog m ts agentID (descriptor PermissionTypeCapability (''cap:'' @ capability) capability False) ''granted'' [])"

definition findIPCPermission :: "string \<Rightarrow> string \<Rightarrow> PermissionManager \<Rightarrow> IPCPermission option" where
  "findIPCPermission kind target m =
     find (\<lambda>perm. ip_Kind perm = kind \<and> (ip_Target perm = target \<or> ip_Target perm = permissionMatchAll)) (ps_IPC (pm_declared m))"

definition CheckIPC ::
  "(nat \<Rightarrow> time) \<Rightarrow> time \<Rightarrow> string \<Rightarrow> string \<Rightarrow> string \<Rightarrow> string \<Rightarrow> PermissionManager \<Rightarrow> goerr option \<times> PermissionManager" where
  "CheckIPC clk ts ctxAgent agentID kind target m =
     (case findIPCPermission kind target m of
        None \<Rightarrow> (Some (Err ''ipc scope missing''), m)
      | Some perm \<Rightarrow>
          (case (if ip_HITLRequired perm
                 then ensureGrant clk ctxAgent (descriptor PermissionTypeIPC (''ipc:'' @ kind) (ip_Target perm) True) m
                 else (None, m)) of
             (Some err, m) \<Rightarrow> (Some err, m)
           | (None, m) \<Rightarrow> (auditLog m ts agentID (descriptor PermissionTypeIPC (''ipc:'' @ kind) target False) ''granted'' [], m)))"

section \<open>Tools\<close>

text \<open>The view of a tool: its name, its tags, and the permissions it requires, possibly missing.\<close>

record toolView =
  tv_Name :: string
  tv_Tags :: "string list"
  tv_Permissions :: "PermissionSet option"

definition ToolPermissions_Validate :: "PermissionSet option \<Rightarrow> goerr option" where
  "ToolPermissions_Validate perms =
     (case perms of None \<Rightarrow> Some (Err ''tool permissions missing'') | Some _ \<Rightarrow> ValidatePermissionSet perms)"

fun undeclaredFiles :: "time \<Rightarrow> FileSystemPermission list \<Rightarrow> PermissionManager \<Rightarrow> string list \<times> PermissionManager" where
  "undeclaredFiles now [] m = ([], m)"
| "undeclaredFiles now (perm # perms) m =
     (case findFilesystemPermission now (fp_Action perm) (fp_Path perm) m of
        (found, m) \<Rightarrow>
          (case undeclaredFiles now perms m of
             (missing, m) \<Rightarrow>
               ((if found = None then [''fs '' @ fp_Action perm @ '' '' @ fp_Path perm] else []) @ missing, m)))"

fun undeclaredExecs :: "time \<Rightarrow> ExecutablePermission list \<Rightarrow> PermissionManager \<Rightarrow> string list \<times> PermissionManager" where
  "undeclaredExecs now [] m = ([], m)"
| "undeclaredExecs now (exec # execs) m =
     (case findExecutablePermission now (xp_Binary exec) m of
        (found, m) \<Rightarrow>
          (case undeclaredExecs now execs m of
             (missing, m) \<Rightarrow> ((if found = None then [''exec '' @ xp_Binary exec] else []) @ missing, m)))"

definition undeclaredNets :: "NetworkPermission list \<Rightarrow> PermissionManager \<Rightarrow> string list" where
  "undeclaredNets nets m =
     map (\<lambda>net. ''net '' @ np_Direction net @ '' '' @ np_Host net)
       (filter (\<lambda>net. findNetworkPermission (np_Direction net) (np_Protocol net) (np_Host net) (np_Port net) m = None) nets)"

definition collectUndeclared :: "time \<Rightarrow> PermissionSet \<Rightarrow> PermissionManager \<Rightarrow> string list \<times> PermissionManager" where
  "collectUndeclared now requirements m =
     (case undeclaredFiles now (ps_FileSystem requirements) m of
        (files, m) \<Rightarrow>
          (case undeclaredExecs now (ps_Executables requirements) m of
             (execs, m) \<Rightarrow> (files @ execs @ undeclaredNets (ps_Network requirements) m, m)))"

definition toolDescriptor :: "string \<Rightarrow> string \<Rightarrow> PermissionDescriptor" where
  "toolDescriptor name agentID = descriptor PermissionTypeHITL (''tool:'' @ name) agentID False"

definition handleUndeclaredTool ::
  "(nat \<Rightarrow> time) \<Rightarrow> string \<Rightarrow> string \<Rightarrow> string \<Rightarrow> string list \<Rightarrow> PermissionManager \<Rightarrow> goerr option \<times> PermissionManager" where
  "handleUndeclaredTool clk ctxAgent agentID name missing m =
     (if effectiveDefaultDecision m = DecisionDeny then (Some (Err ''tool exceeds declared permissions''), m)
      else RequireApproval clk ctxAgent ((toolDescriptor name agentID)\<lparr>dp_RequiresHITL := True\<rparr>)
             (''tool '' @ name @ '' requires: '' @ joinWith '', '' missing) GrantScopeSession RiskLevelMedium 0 m)"

definition AuthorizeTool ::
  "(nat \<Rightarrow> time) \<Rightarrow> time \<Rightarrow> time \<Rightarrow> string \<Rightarrow> string \<Rightarrow> toolView \<Rightarrow> PermissionManager \<Rightarrow> goerr option \<times> PermissionManager" where
  "AuthorizeTool clk now ts ctxAgent agentID t m =
     (if toolAllowedByTaskGrant ctxAgent (tv_Tags t) m
      then (auditLog m ts agentID (toolDescriptor (tv_Name t) agentID) ''tool_allowed_task_grant'' [(''tags'', AStrings (tv_Tags t))], m)
      else case ToolPermissions_Validate (tv_Permissions t) of
        Some err \<Rightarrow> (Some (Wrap (''tool '' @ tv_Name t @ '' permission invalid: '') err), m)
      | None \<Rightarrow>
          (case collectUndeclared now (the (tv_Permissions t)) m of
             (missing, m) \<Rightarrow>
               (case (if missing \<noteq> [] then handleUndeclaredTool clk ctxAgent agentID (tv_Name t) missing m else (None, m)) of
                  (Some err, m) \<Rightarrow> (Some err, m)
                | (None, m) \<Rightarrow> (auditLog m ts agentID (toolDescriptor (tv_Name t) agentID) ''tool_allowed'' [], m))))"

definition AuthorizeToolByName ::
  "(nat \<Rightarrow> time) \<Rightarrow> time \<Rightarrow> string \<Rightarrow> string \<Rightarrow> string \<Rightarrow> PermissionManager \<Rightarrow> goerr option \<times> PermissionManager" where
  "AuthorizeToolByName clk ts ctxAgent agentID toolName m =
     (let name = TrimSpace toolName in
      if name = [] then (Some (Err ''tool name required''), m)
      else case handleUndeclaredTool clk ctxAgent agentID name [''tool permissions unknown''] m of
        (Some err, m) \<Rightarrow> (Some err, m)
      | (None, m) \<Rightarrow> (auditLog m ts agentID (toolDescriptor name agentID) ''tool_allowed'' [], m))"

section \<open>What each call can change\<close>

lemma putGrant_shape: "\<exists>g. putGrant now key v m = m\<lparr>pm_grants := g\<rparr>"
  by (auto simp: putGrant_def sweepExpiredGrants_def Let_def)

lemma takeGrant_shape: "\<exists>g. snd (takeGrant clk key m) = m\<lparr>pm_grants := g\<rparr>"
  by (auto simp: takeGrant_def split: prod.split)

lemma askHITL_shape: "\<exists>g. snd (askHITL now ag key req m) = m\<lparr>pm_grants := g\<rparr>"
proof -
  have "\<exists>g. m = m\<lparr>pm_grants := g\<rparr>" by (rule exI [of _ "pm_grants m"]) simp
  then show ?thesis using putGrant_shape by (auto simp: askHITL_def split: option.split sum.split)
qed

lemma ensureGrant_shape: "\<exists>g. snd (ensureGrant clk ag d m) = m\<lparr>pm_grants := g\<rparr>"
proof -
  obtain b g where t: "takeGrant clk (permissionKey d) m = (b, m\<lparr>pm_grants := g\<rparr>)"
    using takeGrant_shape [of clk "permissionKey d" m] by (metis prod.collapse)
  obtain g' where "snd (requestGrant clk ag d (m\<lparr>pm_grants := g\<rparr>)) = (m\<lparr>pm_grants := g\<rparr>)\<lparr>pm_grants := g'\<rparr>"
    using askHITL_shape unfolding requestGrant_def by metis
  then show ?thesis using t by (auto simp: ensureGrant_def)
qed

lemma checkHITLRateLimit_shape: "\<exists>r. snd (checkHITLRateLimit now cnow key m) = m\<lparr>pm_hitlRateLimits := r\<rparr>"
  by (auto simp: checkHITLRateLimit_def Let_def split: prod.split option.split)

lemma RequireApproval_shape: "\<exists>g r. snd (RequireApproval clk ag d j s ri du m) = m\<lparr>pm_grants := g, pm_hitlRateLimits := r\<rparr>"
proof -
  let ?key = "permissionKey d"
  obtain g where g: "snd (takeGrant clk ?key m) = m\<lparr>pm_grants := g\<rparr>" using takeGrant_shape by blast
  obtain r where r: "snd (checkHITLRateLimit (clk 3) (clk 4) ?key (m\<lparr>pm_grants := g\<rparr>)) = m\<lparr>pm_grants := g, pm_hitlRateLimits := r\<rparr>"
    using checkHITLRateLimit_shape by blast
  let ?ask = "askHITL (clk 5) ag ?key (newRequest (d\<lparr>dp_RequiresHITL := True\<rparr>) j (if s = [] then GrantScopeOneTime else s) du
    (if ri = [] then RiskLevelMedium else ri)) (m\<lparr>pm_grants := g, pm_hitlRateLimits := r\<rparr>)"
  obtain g' where g': "snd ?ask = (m\<lparr>pm_grants := g, pm_hitlRateLimits := r\<rparr>)\<lparr>pm_grants := g'\<rparr>" using askHITL_shape by blast
  have "snd (RequireApproval clk ag d j s ri du m) \<in>
      {m\<lparr>pm_grants := g\<rparr>, m\<lparr>pm_grants := g, pm_hitlRateLimits := r\<rparr>, snd ?ask}"
    unfolding RequireApproval_unfold g r by (auto split: option.split)
  moreover have "m\<lparr>pm_grants := g\<rparr> = m\<lparr>pm_grants := g, pm_hitlRateLimits := pm_hitlRateLimits m\<rparr>"
    "(m\<lparr>pm_grants := g, pm_hitlRateLimits := r\<rparr>)\<lparr>pm_grants := g'\<rparr> = m\<lparr>pm_grants := g', pm_hitlRateLimits := r\<rparr>" by simp_all
  ultimately show ?thesis unfolding g' by (elim insertE emptyE) metis+
qed

section \<open>The manager's invariant\<close>

definition execEntry :: "PermissionManager \<Rightarrow> string \<Rightarrow> ExecutablePermission option \<Rightarrow> bool" where
  "execEntry m key perm \<longleftrightarrow>
     (\<exists>binary. key = TrimSpace binary \<and> perm = find (\<lambda>p. xp_Binary p = binary) (ps_Executables (pm_declared m)))"

definition exec_ok :: "PermissionManager \<Rightarrow> bool" where
  "exec_ok m \<longleftrightarrow> memo_ok execPermCacheCap (execEntry m) (pm_execPermCache m)"

definition manager_ok :: "PermissionManager \<Rightarrow> bool" where
  "manager_ok m \<longleftrightarrow> grants_ok m \<and> fs_ok m \<and> exec_ok m"

text \<open>What the three parts read of the state.\<close>

lemma grants_ok_cong: "pm_grants m' = pm_grants m \<Longrightarrow> pm_defaultDecision m' = pm_defaultDecision m \<Longrightarrow> grants_ok m' = grants_ok m"
  by (simp add: grants_ok_def)

lemma fs_ok_cong:
  "pm_fsPermCache m' = pm_fsPermCache m \<Longrightarrow> pm_declared m' = pm_declared m \<Longrightarrow> pm_fsProtectedRoots m' = pm_fsProtectedRoots m \<Longrightarrow>
   pm_fsExcludedRoots m' = pm_fsExcludedRoots m \<Longrightarrow> fs_ok m' = fs_ok m"
  using fsEntry_cong [of m' m] by (simp add: fs_ok_def filesystemGuardRootsSnapshot_def)

lemma exec_ok_cong:
  "pm_execPermCache m' = pm_execPermCache m \<Longrightarrow> pm_declared m' = pm_declared m \<Longrightarrow> exec_ok m' = exec_ok m"
  by (simp add: exec_ok_def execEntry_def [abs_def])

lemma manager_ok_cong:
  "pm_grants m' = pm_grants m \<Longrightarrow> pm_defaultDecision m' = pm_defaultDecision m \<Longrightarrow> pm_fsPermCache m' = pm_fsPermCache m \<Longrightarrow>
   pm_declared m' = pm_declared m \<Longrightarrow> pm_fsProtectedRoots m' = pm_fsProtectedRoots m \<Longrightarrow>
   pm_fsExcludedRoots m' = pm_fsExcludedRoots m \<Longrightarrow> pm_execPermCache m' = pm_execPermCache m \<Longrightarrow> manager_ok m' = manager_ok m"
  using grants_ok_cong [of m' m] fs_ok_cong [of m' m] exec_ok_cong [of m' m] by (simp add: manager_ok_def)

lemma manager_ok_frame [simp]:
  "manager_ok (m\<lparr>pm_netPolicy := n\<rparr>) = manager_ok m" "manager_ok (m\<lparr>pm_runtime := rt\<rparr>) = manager_ok m"
  "manager_ok (m\<lparr>pm_runtimePolicyErr := e\<rparr>) = manager_ok m" "manager_ok (m\<lparr>pm_taskGrants := tg\<rparr>) = manager_ok m"
  "manager_ok (m\<lparr>pm_hitlRateLimits := r\<rparr>) = manager_ok m"
  by (rule manager_ok_cong; simp)+

lemma fs_ok_grants [simp]: "fs_ok (m\<lparr>pm_grants := g\<rparr>) = fs_ok m" "fs_ok (m\<lparr>pm_grants := g, pm_hitlRateLimits := r\<rparr>) = fs_ok m"
    "fs_ok (m\<lparr>pm_execPermCache := c\<rparr>) = fs_ok m" "fs_ok (m\<lparr>pm_defaultDecision := d\<rparr>) = fs_ok m"
  by (rule fs_ok_cong; simp)+

lemma exec_ok_grants [simp]: "exec_ok (m\<lparr>pm_grants := g\<rparr>) = exec_ok m" "exec_ok (m\<lparr>pm_grants := g, pm_hitlRateLimits := r\<rparr>) = exec_ok m"
    "exec_ok (m\<lparr>pm_fsPermCache := c'\<rparr>) = exec_ok m" "exec_ok (m\<lparr>pm_defaultDecision := d\<rparr>) = exec_ok m"
  by (rule exec_ok_cong; simp)+

lemma grants_ok_caches [simp]: "grants_ok (m\<lparr>pm_fsPermCache := c\<rparr>) = grants_ok m" "grants_ok (m\<lparr>pm_execPermCache := c'\<rparr>) = grants_ok m"
  by (rule grants_ok_cong; simp)+

lemma manager_ok_ensureGrant: "manager_ok m \<Longrightarrow> manager_ok (snd (ensureGrant clk ag d m))"
  using ensureGrant_shape [of clk ag d m] grants_ok_ensureGrant [of m clk ag d] by (auto simp: manager_ok_def)

lemma manager_ok_RequireApproval: "manager_ok m \<Longrightarrow> manager_ok (snd (RequireApproval clk ag d j s ri du m))"
  using RequireApproval_shape [of clk ag d j s ri du m] grants_ok_RequireApproval [of m clk ag d j s ri du] by (auto simp: manager_ok_def)

lemma manager_ok_putGrant: "manager_ok m \<Longrightarrow> manager_ok (putGrant now key g m)"
  using putGrant_shape [of now key g m] grants_ok_put [of m now key g] by (auto simp: manager_ok_def)

lemma manager_ok_undeclared: "manager_ok m \<Longrightarrow> manager_ok (snd (undeclared clk ag d reason m))"
  by (simp add: undeclared_def manager_ok_ensureGrant)

lemma manager_ok_find_fs:
  "manager_ok m \<Longrightarrow> action \<in> set fileActions \<Longrightarrow> manager_ok (snd (findFilesystemPermission now action path m))"
  using find_fs_spec [of m action now path] by (auto simp: manager_ok_def)

lemma find_exec_spec:
  assumes "exec_ok m"
  shows "\<exists>c. snd (findExecutablePermission now binary m) = m\<lparr>pm_execPermCache := c\<rparr>"
    and "exec_ok (snd (findExecutablePermission now binary m))"
    and "fst (findExecutablePermission now binary m) = Some perm \<Longrightarrow>
      perm \<in> set (ps_Executables (pm_declared m)) \<and> TrimSpace (xp_Binary perm) = TrimSpace binary"
proof -
  let ?key = "TrimSpace binary" and ?v = "find (\<lambda>p. xp_Binary p = binary) (ps_Executables (pm_declared m))"
  have memo: "memo_ok execPermCacheCap (execEntry m) (pm_execPermCache m)" using assms by (simp add: exec_ok_def)
  have entry: "execEntry m ?key ?v" unfolding execEntry_def by blast
  have eq: "findExecutablePermission now binary m =
      (case cacheValue (pm_execPermCache m) ?key of
         Some perm \<Rightarrow> (perm, m)
       | None \<Rightarrow> (?v, m\<lparr>pm_execPermCache := cache_Put now ?key ?v (pm_execPermCache m)\<rparr>))"
    by (simp add: findExecutablePermission_def Let_def memo_get [OF memo] split: option.split)
  have same: "\<exists>c. m = m\<lparr>pm_execPermCache := c\<rparr>" by (rule exI [of _ "pm_execPermCache m"]) simp
  show "\<exists>c. snd (findExecutablePermission now binary m) = m\<lparr>pm_execPermCache := c\<rparr>"
    unfolding eq using same by (auto split: option.split)
  show "exec_ok (snd (findExecutablePermission now binary m))"
    using assms memo_put [OF memo entry, of now] by (auto simp: eq exec_ok_def execEntry_def [abs_def] split: option.split)
  show "perm \<in> set (ps_Executables (pm_declared m)) \<and> TrimSpace (xp_Binary perm) = TrimSpace binary"
    if "fst (findExecutablePermission now binary m) = Some perm"
  proof -
    have "execEntry m ?key (Some perm)" using that memo_hit [OF memo, of ?key] entry by (auto simp: eq split: option.splits)
    then show ?thesis by (auto simp: execEntry_def find_Some_iff2 in_set_conv_nth)
  qed
qed

lemma manager_ok_find_exec: "manager_ok m \<Longrightarrow> manager_ok (snd (findExecutablePermission now binary m))"
  using find_exec_spec [of m now binary] by (auto simp: manager_ok_def)


text \<open>The three gates that the checks share: the default decision, the approval a permission asks for, and the
  audit record.\<close>

lemma undeclared_iff:
  "grants_ok m \<Longrightarrow> fst (undeclared clk ag d reason m) = None \<longleftrightarrow>
   effectiveDefaultDecision m \<noteq> DecisionDeny \<and> approved clk (d\<lparr>dp_RequiresHITL := True\<rparr>) m"
  by (simp add: undeclared_def ensureGrant_iff)

lemma gate_spec:
  assumes "(if asks then ensureGrant clk ag d m else (None, m)) = (err, m')" and "grants_ok m"
  shows "err = None \<longleftrightarrow> (asks \<longrightarrow> approved clk d m)" and "\<exists>g. m' = m\<lparr>pm_grants := g\<rparr>"
proof -
  show "err = None \<longleftrightarrow> (asks \<longrightarrow> approved clk d m)"
    using assms(1) ensureGrant_iff [OF assms(2), of clk ag d] by (auto split: if_splits)
  have "\<exists>g. m = m\<lparr>pm_grants := g\<rparr>" by (rule exI [of _ "pm_grants m"]) simp
  then show "\<exists>g. m' = m\<lparr>pm_grants := g\<rparr>"
    using assms(1) ensureGrant_shape [of clk ag d m] by (auto split: if_splits)
qed

lemma recorded_grants [simp]: "recorded (m\<lparr>pm_grants := g\<rparr>) r = recorded m r" "recorded (m\<lparr>pm_execPermCache := c\<rparr>) r = recorded m r"
  by (simp_all add: recorded_def)

lemma approved_caches [simp]: "approved clk d (m\<lparr>pm_execPermCache := c\<rparr>) = approved clk d m"
  by (rule approved_cong) simp_all

lemma default_caches [simp]: "effectiveDefaultDecision (m\<lparr>pm_execPermCache := c\<rparr>) = effectiveDefaultDecision m"
  by (simp add: effectiveDefaultDecision_def)

section \<open>Who may run what\<close>

definition execGranted ::
  "(nat \<Rightarrow> time) \<Rightarrow> time \<Rightarrow> string \<Rightarrow> string \<Rightarrow> string list \<Rightarrow> string list \<Rightarrow> ExecutablePermission option \<Rightarrow> PermissionManager \<Rightarrow> bool" where
  "execGranted clk ts agentID binary args env found m =
     (case found of
        None \<Rightarrow> effectiveDefaultDecision m \<noteq> DecisionDeny \<and>
          approved clk (descriptor PermissionTypeExecutable (''exec:binary:'' @ binary) binary True) m
      | Some perm \<Rightarrow>
          matchArgs (xp_Args perm) args \<and> matchEnv (xp_Env perm) env \<and>
          (xp_HITLRequired perm \<longrightarrow> approved clk (descriptor PermissionTypeExecutable (''exec:binary:'' @ binary) binary True) m) \<and>
          recorded m (auditRecord ts agentID (descriptor PermissionTypeExecutable (''exec:'' @ binary) binary False) ''granted''
            [(''args'', AStrings (RedactStrings args)), (''env'', AStrings (RedactEnvPairs env))]))"

lemma CheckExecutable_iff:
  assumes "manager_ok m"
  shows "fst (CheckExecutable clk now ts ag agentID binary args env m) = None \<longleftrightarrow>
    execGranted clk ts agentID binary args env (fst (findExecutablePermission now binary m)) m"
proof -
  from assms have ok: "grants_ok m" "exec_ok m" by (simp_all add: manager_ok_def)
  obtain c where "snd (findExecutablePermission now binary m) = m\<lparr>pm_execPermCache := c\<rparr>"
    using find_exec_spec(1) [OF ok(2)] by blast
  then obtain found where found: "findExecutablePermission now binary m = (found, m\<lparr>pm_execPermCache := c\<rparr>)" by (metis prod.collapse)
  let ?m = "m\<lparr>pm_execPermCache := c\<rparr>"
  have gok: "grants_ok ?m" using ok by simp
  show ?thesis
  proof (cases found)
    case None
    then show ?thesis using undeclared_iff [OF gok] found by (simp add: CheckExecutable_def execGranted_def descriptor_def)
  next
    case (Some perm)
    let ?d = "descriptor PermissionTypeExecutable (''exec:binary:'' @ binary) binary True"
    obtain err m2 where gate: "(if xp_HITLRequired perm then ensureGrant clk ag ?d ?m else (None, ?m)) = (err, m2)" by fastforce
    have args: "xp_Args perm \<noteq> [] \<and> \<not> matchArgs (xp_Args perm) args \<longleftrightarrow> \<not> matchArgs (xp_Args perm) args"
      "xp_Env perm \<noteq> [] \<and> \<not> matchEnv (xp_Env perm) env \<longleftrightarrow> \<not> matchEnv (xp_Env perm) env"
      by (auto simp: matchArgs_def matchEnv_def)
    have err: "err = None \<longleftrightarrow> (xp_HITLRequired perm \<longrightarrow> approved clk ?d m)" using gate_spec(1) [OF gate gok] by simp
    have rec: "recorded m2 r = recorded m r" for r using gate_spec(2) [OF gate gok] by auto
    show ?thesis
      using err rec unfolding CheckExecutable_def execGranted_def found Some prod.case option.case args fst_conv gate
      by (cases err) (simp_all add: auditLog_None)
  qed
qed

text \<open>
  A program runs only if the manifest declares its name, up to blanks around it, its arguments and
  environment match the declared patterns, a human approved where the permission asks for that, and
  the audit trail took the record; or it is not declared, the default decision is not to deny and a
  human approved.
\<close>

theorem exec_access_sound:
  assumes "manager_ok m" and "fst (CheckExecutable clk now ts ag agentID binary args env m) = None"
  shows "\<exists>found. execGranted clk ts agentID binary args env found m \<and>
    (case found of None \<Rightarrow> True
     | Some perm \<Rightarrow> perm \<in> set (ps_Executables (pm_declared m)) \<and> TrimSpace (xp_Binary perm) = TrimSpace binary)"
proof -
  let ?found = "fst (findExecutablePermission now binary m)"
  have "execGranted clk ts agentID binary args env ?found m" using assms CheckExecutable_iff by blast
  moreover have "exec_ok m" using assms(1) by (simp add: manager_ok_def)
  ultimately show ?thesis using find_exec_spec(3) by (intro exI [of _ ?found]) (auto split: option.split)
qed


text \<open>
  The verdict cache confuses spellings that differ in blanks: the entry is stored under the trimmed name but
  the manifest is compared with the name as given. A query with a blank makes a declared program
  undeclared, and a query for the declared program makes the blank spelling declared.
\<close>

definition wExecs :: PermissionManager where
  "wExecs = newManager ''/w'' (noPermissions\<lparr>ps_Executables :=
     [\<lparr>xp_Binary = ''git'', xp_Args = [], xp_Env = [], xp_Checksum = [], xp_HITLRequired = False, xp_ProxyRequired = False\<rparr>]\<rparr>) None None"

lemma exec_cache_confuses:
  "fst (findExecutablePermission 7 ''git'' wExecs) \<noteq> None"
  "fst (findExecutablePermission 7 ''git'' (snd (findExecutablePermission 7 '' git'' wExecs))) = None"
  "fst (findExecutablePermission 7 '' git'' wExecs) = None"
  "fst (findExecutablePermission 7 '' git'' (snd (findExecutablePermission 7 ''git'' wExecs))) \<noteq> None"
proof -
  have put: "cache_Put 7 k v (NewCache execPermCacheCap 0 False) =
      (NewCache execPermCacheCap 0 False)\<lparr>c_entries := [(k, \<lparr>ce_value = v, ce_insertedAt = 7\<rparr>)], c_order := [k]\<rparr>"
    for k :: string and v :: "ExecutablePermission option"
    by (simp add: cache_Put_def NewCache_def execPermCacheCap_def evictOldest.simps)
  have get: "cache_Get 7 k (NewCache execPermCacheCap 0 False) = (None, NewCache execPermCacheCap 0 False)"
    for k :: string by (simp add: cache_Get_def NewCache_def)
  have trim: "TrimSpace ''git'' = ''git''" "TrimSpace '' git'' = ''git''" by code_simp+
  show "fst (findExecutablePermission 7 ''git'' wExecs) \<noteq> None"
    and "fst (findExecutablePermission 7 ''git'' (snd (findExecutablePermission 7 '' git'' wExecs))) = None"
    and "fst (findExecutablePermission 7 '' git'' wExecs) = None"
    and "fst (findExecutablePermission 7 '' git'' (snd (findExecutablePermission 7 ''git'' wExecs))) \<noteq> None"
    by (simp_all add: findExecutablePermission_def trim wExecs_def newManager_def inflateScopes_def Let_def noPermissions_def get put)
      (simp_all add: cache_Get_def NewCache_def expiredLocked_def)
qed


text \<open>One argument against one pattern: anything, a long option with a free end, or the text itself.\<close>

definition argMatches :: "string \<Rightarrow> string \<Rightarrow> bool" where
  "argMatches pattern arg \<longleftrightarrow>
     (if pattern = ''*'' then True
      else if prefix ''--'' pattern \<and> suffix ''*'' pattern then prefix (butlast pattern) arg
      else pattern = arg)"

lemma TrimSuffix_star: "suffix ''*'' pattern \<Longrightarrow> TrimSuffix pattern ''*'' = butlast pattern"
  by (simp add: TrimSuffix_def butlast_conv_take)

lemma matchArgsLoop_Cons:
  "matchArgsLoop wild (p # ps) (a # args) \<longleftrightarrow> wild \<and> ps = [] \<or> argMatches p a \<and> matchArgsLoop wild ps args"
  by (auto simp: argMatches_def TrimSuffix_star)

lemma matchArgsLoop_exact: "length ps = length args \<Longrightarrow> matchArgsLoop False ps args \<longleftrightarrow> list_all2 argMatches ps args"
  by (induction ps args rule: list_induct2) (simp_all add: matchArgsLoop_Cons del: matchArgsLoop.simps(3))

lemma matchArgsLoop_wild:
  "length ms \<le> length args \<Longrightarrow> matchArgsLoop True (ms @ [w]) args \<longleftrightarrow> list_all2 argMatches ms (take (length ms) args)"
proof (induction ms arbitrary: args)
  case Nil
  then show ?case by (cases args) simp_all
next
  case (Cons p ms)
  then obtain a args' where "args = a # args'" by (cases args) auto
  with Cons show ?case by (simp add: matchArgsLoop_Cons del: matchArgsLoop.simps(3))
qed

text \<open>
  The argument patterns mean what they say: no patterns accept everything; without a final star the
  arguments are exactly as many as the patterns and match them one by one; with a final star the
  patterns before it match the first arguments one by one and any arguments may follow.
\<close>

theorem matchArgs_meaning:
  "matchArgs patterns args \<longleftrightarrow>
     patterns = [] \<or>
     (if last patterns = ''*''
      then length patterns - 1 \<le> length args \<and>
           list_all2 argMatches (butlast patterns) (take (length patterns - 1) args)
      else list_all2 argMatches patterns args)"
proof (cases patterns rule: rev_cases)
  case Nil
  then show ?thesis by (simp add: matchArgs_def)
next
  case (snoc ms w)
  show ?thesis
  proof (cases "w = ''*''")
    case True
    with snoc matchArgsLoop_wild [of ms args w] show ?thesis by (auto simp: matchArgs_def)
  next
    case False
    have "list_all2 argMatches (ms @ [w]) args \<longrightarrow> length (ms @ [w]) = length args" by (metis list_all2_lengthD)
    with False snoc matchArgsLoop_exact [of "ms @ [w]" args] show ?thesis by (auto simp: matchArgs_def)
  qed
qed

section \<open>Who may reach the network\<close>

definition networkGranted ::
  "(nat \<Rightarrow> time) \<Rightarrow> time \<Rightarrow> string \<Rightarrow> string \<Rightarrow> string \<Rightarrow> string \<Rightarrow> int \<Rightarrow> PermissionManager \<Rightarrow> bool" where
  "networkGranted clk ts agentID direction protocol host port m =
     (case findNetworkPermission direction protocol host port m of
        None \<Rightarrow> effectiveDefaultDecision m \<noteq> DecisionDeny \<and>
          approved clk ((networkDescriptor direction protocol host port)\<lparr>dp_RequiresHITL := True\<rparr>) m
      | Some perm \<Rightarrow>
          (np_HITLRequired perm \<longrightarrow>
             approved clk (descriptor PermissionTypeNetwork (''net:'' @ direction @ '':'' @ protocol) (host @ '':'' @ fmtInt port) True) m) \<and>
          recorded m (auditRecord ts agentID
            (descriptor PermissionTypeNetwork (''net:'' @ direction) (host @ '':'' @ fmtInt port) False) ''granted'' []))"

lemma recordNetworkRule_sel [simp]:
  "pm_netPolicy (recordNetworkRule dir proto host port m) =
     pm_netPolicy m @ [\<lparr>nr_Direction = dir, nr_Protocol = proto, nr_Host = host, nr_Port = port, nr_Description = []\<rparr>]"
  by (simp add: recordNetworkRule_def applyRuntimePolicyLocked_def split: option.split)

lemma CheckNetwork_spec:
  assumes "grants_ok m"
  shows "fst (CheckNetwork clk ts ag agentID dir proto target port m) = None \<longleftrightarrow>
      tg_Class target = ClassPublic \<and> networkGranted clk ts agentID dir proto (tg_Token target) port m"
    and "pm_netPolicy (snd (CheckNetwork clk ts ag agentID dir proto target port m)) = pm_netPolicy m @
      (if fst (CheckNetwork clk ts ag agentID dir proto target port m) = None \<and>
          findNetworkPermission dir proto (tg_Token target) port m \<noteq> None
       then [\<lparr>nr_Direction = dir, nr_Protocol = proto, nr_Host = tg_Token target, nr_Port = port, nr_Description = []\<rparr>] else [])"
proof -
  let ?host = "tg_Token target"
  let ?d = "descriptor PermissionTypeNetwork (''net:'' @ dir @ '':'' @ proto) (?host @ '':'' @ fmtInt port) True"
  let ?r = "descriptor PermissionTypeNetwork (''net:'' @ dir) (?host @ '':'' @ fmtInt port) False"
  let ?out = "CheckNetwork clk ts ag agentID dir proto target port m"
  have "(fst ?out = None \<longleftrightarrow> tg_Class target = ClassPublic \<and> networkGranted clk ts agentID dir proto ?host port m) \<and>
    pm_netPolicy (snd ?out) = pm_netPolicy m @
      (if fst ?out = None \<and> findNetworkPermission dir proto ?host port m \<noteq> None
       then [\<lparr>nr_Direction = dir, nr_Protocol = proto, nr_Host = ?host, nr_Port = port, nr_Description = []\<rparr>] else [])"
  proof (cases "findNetworkPermission dir proto ?host port m")
    case None
    obtain g where "snd (ensureGrant clk ag ((networkDescriptor dir proto ?host port)\<lparr>dp_RequiresHITL := True\<rparr>) m) = m\<lparr>pm_grants := g\<rparr>"
      using ensureGrant_shape by blast
    then show ?thesis
      using None undeclared_iff [OF assms] by (simp add: CheckNetwork_def networkGranted_def Let_def) (simp add: undeclared_def)
  next
    case (Some perm)
    obtain err m2 where gate: "(if np_HITLRequired perm then ensureGrant clk ag ?d m else (None, m)) = (err, m2)" by fastforce
    obtain g where m2: "m2 = m\<lparr>pm_grants := g\<rparr>" using gate_spec(2) [OF gate assms] by blast
    have out: "?out = (if tg_Class target \<noteq> ClassPublic then (Some (Err (networkBlockReason (tg_Class target))), m)
        else case err of Some e \<Rightarrow> (Some e, m2)
        | None \<Rightarrow> (case auditLog m2 ts agentID ?r ''granted'' [] of
            Some e \<Rightarrow> (Some e, m2) | None \<Rightarrow> (None, recordNetworkRule dir proto ?host port m2)))"
      unfolding CheckNetwork_def Let_def Some option.case gate prod.case by (simp split: option.split)
    have rec: "auditLog m2 ts agentID ?r ''granted'' [] = None \<longleftrightarrow> recorded m (auditRecord ts agentID ?r ''granted'' [])"
      by (simp add: auditLog_None m2)
    show ?thesis
      using gate_spec(1) [OF gate assms] rec unfolding out networkGranted_def Some option.case
      by (cases err) (auto simp: m2 split: option.split)
  qed
  then show "fst ?out = None \<longleftrightarrow> tg_Class target = ClassPublic \<and> networkGranted clk ts agentID dir proto ?host port m"
    and "pm_netPolicy (snd ?out) = pm_netPolicy m @
      (if fst ?out = None \<and> findNetworkPermission dir proto ?host port m \<noteq> None
       then [\<lparr>nr_Direction = dir, nr_Protocol = proto, nr_Host = ?host, nr_Port = port, nr_Description = []\<rparr>] else [])" by blast+
qed

text \<open>
  \<^bold>\<open>C6.\<close> A network access passes only to a public target: a target of any other class is refused whatever the
  manifest, the approver and the grants say. A public one passes exactly if a declared permission covers it,
  with approval where asked and the record accepted, or nothing declared covers it, the default is not to
  deny, and a human approved. The rules handed to the sandbox grow by exactly the declared accesses.
\<close>

theorem network_access_iff:
  assumes "grants_ok m"
  shows "(fst (CheckNetwork clk ts ag agentID dir proto target port m) = None \<longleftrightarrow>
      tg_Class target = ClassPublic \<and> networkGranted clk ts agentID dir proto (tg_Token target) port m) \<and>
    pm_netPolicy (snd (CheckNetwork clk ts ag agentID dir proto target port m)) = pm_netPolicy m @
      (if fst (CheckNetwork clk ts ag agentID dir proto target port m) = None \<and>
          findNetworkPermission dir proto (tg_Token target) port m \<noteq> None
       then [\<lparr>nr_Direction = dir, nr_Protocol = proto, nr_Host = tg_Token target, nr_Port = port, nr_Description = []\<rparr>] else [])"
  using CheckNetwork_spec [OF assms] by blast

definition wNets :: PermissionManager where
  "wNets = newManager ''/w'' (noPermissions\<lparr>ps_Network := [\<lparr>np_Direction = ''egress'', np_Protocol = ''https'', np_Host = ''**'',
     np_Port = 0, np_Description = [], np_HITLRequired = False\<rparr>]\<rparr>) None None"

theorem network_access_iff_witness:
  "fst (CheckNetwork (\<lambda>_. 7) 7 ''a'' ''a'' ''egress'' ''https'' \<lparr>tg_Token = ''example.org'', tg_Class = ClassPublic, tg_Literal = False\<rparr> 443 wNets) = None \<and>
   fst (CheckNetwork (\<lambda>_. 7) 7 ''a'' ''a'' ''egress'' ''https'' \<lparr>tg_Token = ''example.org'', tg_Class = ClassPrivate, tg_Literal = False\<rparr> 443 wNets) \<noteq> None"
proof -
  have ok: "grants_ok wNets" by (simp add: wNets_def grants_ok_New)
  have "networkGranted (\<lambda>_. 7) 7 ''a'' ''egress'' ''https'' ''example.org'' 443 wNets"
    by (simp add: networkGranted_def findNetworkPermission_def netApplies_def wNets_def newManager_def inflateScopes_def Let_def
        noPermissions_def permissionMatchAll_def recorded_def)
  then show ?thesis using network_access_iff [OF ok] by simp
qed


section \<open>Who may use a tool\<close>

lemma fsVerdict_cache [simp]: "fsVerdict (m\<lparr>pm_fsPermCache := c\<rparr>) = fsVerdict m"
  by (simp add: fsVerdict_def fun_eq_iff isFilesystemProtectedPath_def)

lemma undeclaredFiles_spec:
  assumes "manager_ok m" and "\<forall>perm \<in> set perms. fp_Action perm \<in> set fileActions"
  shows "\<exists>c. snd (undeclaredFiles now perms m) = m\<lparr>pm_fsPermCache := c\<rparr>"
    and "manager_ok (snd (undeclaredFiles now perms m))"
    and "fst (undeclaredFiles now perms m) = [] \<longleftrightarrow> (\<forall>perm \<in> set perms. fsVerdict m (fp_Action perm) (fp_Path perm) \<noteq> None)"
proof -
  have "(\<exists>c. snd (undeclaredFiles now perms m) = m\<lparr>pm_fsPermCache := c\<rparr>) \<and> manager_ok (snd (undeclaredFiles now perms m)) \<and>
    (fst (undeclaredFiles now perms m) = [] \<longleftrightarrow> (\<forall>perm \<in> set perms. fsVerdict m (fp_Action perm) (fp_Path perm) \<noteq> None))"
    using assms
  proof (induction perms arbitrary: m)
    case Nil
    have "m = m\<lparr>pm_fsPermCache := pm_fsPermCache m\<rparr>" by simp
    then have "\<exists>c. m = m\<lparr>pm_fsPermCache := c\<rparr>" by blast
    with Nil show ?case by simp
  next
    case (Cons perm perms)
    then have act: "fp_Action perm \<in> set fileActions" and fs: "fs_ok m" by (simp_all add: manager_ok_def)
    obtain c where f: "findFilesystemPermission now (fp_Action perm) (fp_Path perm) m =
        (fsVerdict m (fp_Action perm) (fp_Path perm), m\<lparr>pm_fsPermCache := c\<rparr>)"
      using find_fs_spec(1,2) [OF fs act] by (metis prod.collapse)
    have "manager_ok (m\<lparr>pm_fsPermCache := c\<rparr>)" using manager_ok_find_fs [OF Cons.prems(1) act, of now "fp_Path perm"] f by simp
    from Cons.IH [OF this] Cons.prems(2) show ?case by (auto simp: f split: prod.split)
  qed
  then show "\<exists>c. snd (undeclaredFiles now perms m) = m\<lparr>pm_fsPermCache := c\<rparr>"
    and "manager_ok (snd (undeclaredFiles now perms m))"
    and "fst (undeclaredFiles now perms m) = [] \<longleftrightarrow> (\<forall>perm \<in> set perms. fsVerdict m (fp_Action perm) (fp_Path perm) \<noteq> None)" by blast+
qed

definition execDeclared :: "PermissionManager \<Rightarrow> string \<Rightarrow> bool" where
  "execDeclared m binary \<longleftrightarrow> (\<exists>perm \<in> set (ps_Executables (pm_declared m)). TrimSpace (xp_Binary perm) = TrimSpace binary)"

lemma undeclaredExecs_spec:
  assumes "manager_ok m"
  shows "\<exists>c. snd (undeclaredExecs now execs m) = m\<lparr>pm_execPermCache := c\<rparr>"
    and "manager_ok (snd (undeclaredExecs now execs m))"
    and "fst (undeclaredExecs now execs m) = [] \<Longrightarrow> \<forall>exec \<in> set execs. execDeclared m (xp_Binary exec)"
proof -
  have "(\<exists>c. snd (undeclaredExecs now execs m) = m\<lparr>pm_execPermCache := c\<rparr>) \<and> manager_ok (snd (undeclaredExecs now execs m)) \<and>
    (fst (undeclaredExecs now execs m) = [] \<longrightarrow> (\<forall>exec \<in> set execs. execDeclared m (xp_Binary exec)))"
    using assms
  proof (induction execs arbitrary: m)
    case Nil
    have "m = m\<lparr>pm_execPermCache := pm_execPermCache m\<rparr>" by simp
    then have "\<exists>c. m = m\<lparr>pm_execPermCache := c\<rparr>" by blast
    with Nil show ?case by simp
  next
    case (Cons exec execs)
    then have ok: "exec_ok m" by (simp add: manager_ok_def)
    obtain c found where f: "findExecutablePermission now (xp_Binary exec) m = (found, m\<lparr>pm_execPermCache := c\<rparr>)"
      using find_exec_spec(1) [OF ok] by (metis prod.collapse)
    have "manager_ok (m\<lparr>pm_execPermCache := c\<rparr>)" using manager_ok_find_exec [OF Cons.prems, of now "xp_Binary exec"] f by simp
    note ih = Cons.IH [OF this]
    have "execDeclared m (xp_Binary exec)" if "found \<noteq> None"
      using that find_exec_spec(3) [OF ok, of now "xp_Binary exec"] f by (auto simp: execDeclared_def)
    with ih show ?case by (auto simp: f execDeclared_def split: prod.splits if_splits)
  qed
  then show "\<exists>c. snd (undeclaredExecs now execs m) = m\<lparr>pm_execPermCache := c\<rparr>"
    and "manager_ok (snd (undeclaredExecs now execs m))"
    and "fst (undeclaredExecs now execs m) = [] \<Longrightarrow> \<forall>exec \<in> set execs. execDeclared m (xp_Binary exec)" by blast+
qed

text \<open>The requirements of a tool lie within the manifest.\<close>

definition toolDeclared :: "PermissionManager \<Rightarrow> PermissionSet \<Rightarrow> bool" where
  "toolDeclared m req \<longleftrightarrow>
     (\<forall>perm \<in> set (ps_FileSystem req). fsVerdict m (fp_Action perm) (fp_Path perm) \<noteq> None) \<and>
     (\<forall>exec \<in> set (ps_Executables req). execDeclared m (xp_Binary exec)) \<and>
     (\<forall>net \<in> set (ps_Network req). findNetworkPermission (np_Direction net) (np_Protocol net) (np_Host net) (np_Port net) m \<noteq> None)"

lemma collectUndeclared_spec:
  assumes "manager_ok m" and "\<forall>perm \<in> set (ps_FileSystem req). fp_Action perm \<in> set fileActions"
  shows "\<exists>c c'. snd (collectUndeclared now req m) = m\<lparr>pm_fsPermCache := c, pm_execPermCache := c'\<rparr>"
    and "manager_ok (snd (collectUndeclared now req m))"
    and "fst (collectUndeclared now req m) = [] \<Longrightarrow> toolDeclared m req"
proof -
  obtain files c where f: "undeclaredFiles now (ps_FileSystem req) m = (files, m\<lparr>pm_fsPermCache := c\<rparr>)"
    using undeclaredFiles_spec(1) [OF assms] by (metis prod.collapse)
  let ?m = "m\<lparr>pm_fsPermCache := c\<rparr>"
  have ok: "manager_ok ?m" using undeclaredFiles_spec(2) [OF assms, of now] f by simp
  obtain execs c' where x: "undeclaredExecs now (ps_Executables req) ?m = (execs, ?m\<lparr>pm_execPermCache := c'\<rparr>)"
    using undeclaredExecs_spec(1) [OF ok] by (metis prod.collapse)
  have eq: "collectUndeclared now req m =
      (files @ execs @ undeclaredNets (ps_Network req) m, m\<lparr>pm_fsPermCache := c, pm_execPermCache := c'\<rparr>)"
    by (simp add: collectUndeclared_def f x undeclaredNets_def findNetworkPermission_def)
  show "\<exists>c c'. snd (collectUndeclared now req m) = m\<lparr>pm_fsPermCache := c, pm_execPermCache := c'\<rparr>" unfolding eq by auto
  show "manager_ok (snd (collectUndeclared now req m))" using undeclaredExecs_spec(2) [OF ok, of now "ps_Executables req"] x eq by simp
  show "toolDeclared m req" if "fst (collectUndeclared now req m) = []"
    using that undeclaredFiles_spec(3) [OF assms, of now] undeclaredExecs_spec(3) [OF ok, of now "ps_Executables req"]
    unfolding toolDeclared_def by (auto simp: eq f x undeclaredNets_def filter_empty_conv execDeclared_def)
qed

text \<open>
  A human said yes to a request: a grant that has not expired is cached under the key of its permission, or
  the approver, asked exactly this request, grants it. Keys are the texts \<open>action:resource\<close>; different
  permissions can share one (\<open>tool_grant_shared\<close>).
\<close>

definition humanApproved :: "(nat \<Rightarrow> time) \<Rightarrow> PermissionRequest \<Rightarrow> PermissionManager \<Rightarrow> bool" where
  "humanApproved clk req m \<longleftrightarrow>
     (\<exists>g. cachedGrant m (permissionKey (pq_Permission req)) = Some g \<and> \<not> grant_Expired g (clk 2)) \<or>
     (\<exists>hitl g. pm_hitl m = Some hitl \<and> hitl req = Inr g)"

lemma RequireApproval_sound:
  assumes "grants_ok m" and "fst (RequireApproval clk ag d j s ri du m) = None" and "s \<noteq> []" and "ri \<noteq> []"
  shows "humanApproved clk (newRequest (d\<lparr>dp_RequiresHITL := True\<rparr>) j s du ri) m"
proof -
  have key: "permissionKey (pq_Permission (newRequest (d\<lparr>dp_RequiresHITL := True\<rparr>) j s du ri)) = permissionKey d"
    by (simp add: newRequest_def permissionKey_def)
  show ?thesis
  proof (cases "fst (takeGrant clk (permissionKey d) m)")
    case True
    then show ?thesis using takeGrant_spec(1) [OF assms(1)] by (auto simp: humanApproved_def key)
  next
    case False
    with assms(2-4) have "fst (askHITL (clk 5) ag (permissionKey d) (newRequest (d\<lparr>dp_RequiresHITL := True\<rparr>) j s du ri)
        (snd (checkHITLRateLimit (clk 3) (clk 4) (permissionKey d) (snd (takeGrant clk (permissionKey d) m))))) = None"
      by (auto simp: RequireApproval_unfold split: option.splits)
    then show ?thesis
      using takeGrant_spec(4) [OF assms(1)] unfolding humanApproved_def by (auto simp: askHITL_def split: option.splits sum.splits)
  qed
qed

lemma humanApproved_cong:
  "pm_grants m' = pm_grants m \<Longrightarrow> pm_hitl m' = pm_hitl m \<Longrightarrow> humanApproved clk req m' = humanApproved clk req m"
  by (simp add: humanApproved_def)

text \<open>The request that a tool beyond its manifest puts to the approver.\<close>

definition toolRequest :: "string \<Rightarrow> string \<Rightarrow> string list \<Rightarrow> PermissionRequest" where
  "toolRequest name agentID missing =
     newRequest ((toolDescriptor name agentID)\<lparr>dp_RequiresHITL := True\<rparr>)
       (''tool '' @ name @ '' requires: '' @ joinWith '', '' missing) GrantScopeSession 0 RiskLevelMedium"

lemma handleUndeclaredTool_sound:
  assumes "grants_ok m" and "fst (handleUndeclaredTool clk ag agentID name missing m) = None"
  shows "effectiveDefaultDecision m \<noteq> DecisionDeny \<and> humanApproved clk (toolRequest name agentID missing) m"
proof -
  have "effectiveDefaultDecision m \<noteq> DecisionDeny" and
    r: "fst (RequireApproval clk ag ((toolDescriptor name agentID)\<lparr>dp_RequiresHITL := True\<rparr>)
             (''tool '' @ name @ '' requires: '' @ joinWith '', '' missing) GrantScopeSession RiskLevelMedium 0 m) = None"
    using assms(2) by (auto simp: handleUndeclaredTool_def split: if_splits)
  with RequireApproval_sound [OF assms(1) r] show ?thesis by (simp add: toolRequest_def)
qed

text \<open>A grant for one tool and agent serves another pair whose names join to the same text.\<close>

lemma tool_grant_shared:
  "permissionKey (toolDescriptor ''deploy'' ''prod:ci'') = permissionKey (toolDescriptor ''deploy:prod'' ''ci'')"
  by (simp add: permissionKey_def toolDescriptor_def descriptor_def)

lemma handleUndeclaredTool_shape:
  "\<exists>g r. snd (handleUndeclaredTool clk ag agentID name missing m) = m\<lparr>pm_grants := g, pm_hitlRateLimits := r\<rparr>"
proof -
  have "m = m\<lparr>pm_grants := pm_grants m, pm_hitlRateLimits := pm_hitlRateLimits m\<rparr>" by simp
  then have "\<exists>g r. m = m\<lparr>pm_grants := g, pm_hitlRateLimits := r\<rparr>" by blast
  then show ?thesis using RequireApproval_shape by (simp add: handleUndeclaredTool_def)
qed

text \<open>
  \<^bold>\<open>C10.\<close> A tool is used only with cause: a task grant registered for the calling run carries one of its tags;
  or its requirements are well-formed and all of them lie within the manifest; or they are
  well-formed and exceed it, the default decision is not to deny, and either a live grant is cached under the
  permission key of this tool and agent, or the approver, shown this tool with exactly what it lacks, granted it. In
  every case the audit trail took the record.
\<close>

theorem tool_use_sound:
  assumes "manager_ok m" and "\<forall>req. tv_Permissions t = Some req \<longrightarrow> (\<forall>perm \<in> set (ps_FileSystem req). fp_Action perm \<in> set fileActions)"
    and "fst (AuthorizeTool clk now ts ag agentID t m) = None"
  shows "(toolAllowedByTaskGrant ag (tv_Tags t) m \<and>
          recorded m (auditRecord ts agentID (toolDescriptor (tv_Name t) agentID) ''tool_allowed_task_grant'' [(''tags'', AStrings (tv_Tags t))])) \<or>
         ((\<exists>req. tv_Permissions t = Some req \<and> ValidatePermissionSet (Some req) = None \<and>
            (toolDeclared m req \<or>
             effectiveDefaultDecision m \<noteq> DecisionDeny \<and>
             humanApproved clk (toolRequest (tv_Name t) agentID (fst (collectUndeclared now req m))) m)) \<and>
          recorded m (auditRecord ts agentID (toolDescriptor (tv_Name t) agentID) ''tool_allowed'' []))"
proof (cases "toolAllowedByTaskGrant ag (tv_Tags t) m")
  case True
  with assms(3) show ?thesis by (simp add: AuthorizeTool_def auditLog_None)
next
  case False
  from False assms(3) obtain req where req: "tv_Permissions t = Some req" "ValidatePermissionSet (Some req) = None"
    by (auto simp: AuthorizeTool_def ToolPermissions_Validate_def split: option.splits)
  from assms(2) req(1) have act: "\<forall>perm \<in> set (ps_FileSystem req). fp_Action perm \<in> set fileActions" by blast
  note col = collectUndeclared_spec [OF assms(1) act, of now]
  obtain missing m1 where c: "collectUndeclared now req m = (missing, m1)" by fastforce
  have ok1: "grants_ok m1" using col(2) c by (simp add: manager_ok_def)
  have same: "pm_grants m1 = pm_grants m" "pm_hitl m1 = pm_hitl m" "pm_audit m1 = pm_audit m" "pm_defaultDecision m1 = pm_defaultDecision m"
    using col(1) c by auto
  obtain err m2 where h: "(if missing \<noteq> [] then handleUndeclaredTool clk ag agentID (tv_Name t) missing m1 else (None, m1)) = (err, m2)" by fastforce
  have "pm_audit m2 = pm_audit m1"
    using h handleUndeclaredTool_shape [of clk ag agentID "tv_Name t" missing m1] by (auto split: if_splits)
  then have rec: "recorded m2 r = recorded m r" for r using same(3) by (simp add: recorded_def)
  have out: "AuthorizeTool clk now ts ag agentID t m =
      (case err of Some e \<Rightarrow> (Some e, m2) | None \<Rightarrow> (auditLog m2 ts agentID (toolDescriptor (tv_Name t) agentID) ''tool_allowed'' [], m2))"
    using False req by (simp add: AuthorizeTool_def ToolPermissions_Validate_def c h)
  with assms(3) have err: "err = None" and "recorded m (auditRecord ts agentID (toolDescriptor (tv_Name t) agentID) ''tool_allowed'' [])"
    by (auto simp: auditLog_None rec split: option.splits)
  moreover have "toolDeclared m req \<or> effectiveDefaultDecision m \<noteq> DecisionDeny \<and>
      humanApproved clk (toolRequest (tv_Name t) agentID (fst (collectUndeclared now req m))) m"
  proof (cases "missing = []")
    case True
    then show ?thesis using col(3) c by simp
  next
    case False
    with h err have "fst (handleUndeclaredTool clk ag agentID (tv_Name t) missing m1) = None" by simp
    from handleUndeclaredTool_sound [OF ok1 this] show ?thesis
      using same humanApproved_cong [of m1 m] by (auto simp: effectiveDefaultDecision_def c split: if_splits)
  qed
  ultimately show ?thesis using req by blast
qed

definition wTool :: toolView where
  "wTool = \<lparr>tv_Name = ''fetch'', tv_Tags = [], tv_Permissions = Some (noPermissions\<lparr>ps_Network := [\<lparr>np_Direction = ''egress'',
     np_Protocol = ''https'', np_Host = ''example.org'', np_Port = 443, np_Description = [], np_HITLRequired = False\<rparr>]\<rparr>)\<rparr>"

lemma manager_ok_New: "manager_ok (newManager bp ps au h)"
  by (simp add: manager_ok_def grants_ok_New fs_ok_New) (simp add: exec_ok_def newManager_def memo_new execPermCacheCap_def)

theorem tool_use_sound_witness: "fst (AuthorizeTool (\<lambda>_. 7) 7 7 ''a'' ''a'' wTool wNets) = None \<and> toolDeclared wNets (the (tv_Permissions wTool))"
proof -
  have pass: "fst (AuthorizeTool (\<lambda>_. 7) 7 7 ''a'' ''a'' wTool wNets) = None"
    by (simp add: AuthorizeTool_def toolAllowedByTaskGrant_def wNets_def newManager_def wTool_def ToolPermissions_Validate_def
        ValidatePermissionSet_def noPermissions_def collectUndeclared_def undeclaredNets_def findNetworkPermission_def netApplies_def
        inflateScopes_def Let_def permissionMatchAll_def auditLog_def)
  have ok: "manager_ok wNets" by (simp add: wNets_def manager_ok_New)
  have "\<not> humanApproved (\<lambda>_. 7) d wNets" "\<not> toolAllowedByTaskGrant ''a'' [] wNets" for d
    by (simp_all add: humanApproved_def wNets_def newManager_def NewCache_def cacheValue_def toolAllowedByTaskGrant_def)
  then have "toolDeclared wNets (the (tv_Permissions wTool))"
    using tool_use_sound [OF ok _ pass] by (auto simp: wTool_def noPermissions_def)
  with pass show ?thesis by simp
qed


section \<open>The invariant under every call\<close>

datatype checkOp =
    ManagerOp managerOp
  | GuardOp "string option" "string list" "string list"
  | FileOp evalSymlinks "nat \<Rightarrow> time" time time string string string string
  | StaticOp evalSymlinks time string string
  | MatrixOp "nat \<Rightarrow> time" string string string string AgentFileMatrix
  | ExecOp "nat \<Rightarrow> time" time time string string string "string list" "string list"
  | NetOp "nat \<Rightarrow> time" time string string string string Target int
  | RuntimeOp "SandboxRuntime option"
  | IPCOp "nat \<Rightarrow> time" time string string string string
  | ToolOp "nat \<Rightarrow> time" time time string string toolView
  | ToolNameOp "nat \<Rightarrow> time" time string string string

fun checkStep :: "checkOp \<Rightarrow> PermissionManager \<Rightarrow> PermissionManager" where
  "checkStep (ManagerOp op) m = managerStep op m"
| "checkStep (GuardOp cwd prot excl) m = SetFilesystemGuardRoots cwd prot excl m"
| "checkStep (FileOp ev clk now ts ag agentID action path) m = snd (CheckFileAccess ev clk now ts ag agentID action path m)"
| "checkStep (StaticOp ev now action path) m = snd (StaticallyAllowsFileAccess ev now action path m)"
| "checkStep (MatrixOp clk ag base action path matrix) m =
     (case snd (CheckFilePermission clk ag base action path matrix (Some m)) of None \<Rightarrow> m | Some m \<Rightarrow> m)"
| "checkStep (ExecOp clk now ts ag agentID binary args env) m = snd (CheckExecutable clk now ts ag agentID binary args env m)"
| "checkStep (NetOp clk ts ag agentID dir proto target port) m = snd (CheckNetwork clk ts ag agentID dir proto target port m)"
| "checkStep (RuntimeOp rt) m = AttachRuntime rt m"
| "checkStep (IPCOp clk ts ag agentID kind target) m = snd (CheckIPC clk ts ag agentID kind target m)"
| "checkStep (ToolOp clk now ts ag agentID t) m = snd (AuthorizeTool clk now ts ag agentID t m)"
| "checkStep (ToolNameOp clk ts ag agentID name) m = snd (AuthorizeToolByName clk ts ag agentID name m)"

text \<open>The file actions of a call are those the vocabulary names.\<close>

fun legalOp :: "checkOp \<Rightarrow> bool" where
  "legalOp (FileOp ev clk now ts ag agentID action path) \<longleftrightarrow> action \<in> set fileActions"
| "legalOp (StaticOp ev now action path) \<longleftrightarrow> action \<in> set fileActions"
| "legalOp (ToolOp clk now ts ag agentID t) \<longleftrightarrow>
     (case tv_Permissions t of None \<Rightarrow> True | Some req \<Rightarrow> list_all (\<lambda>perm. fp_Action perm \<in> set fileActions) (ps_FileSystem req))"
| "legalOp _ \<longleftrightarrow> True"

lemma manager_ok_managerStep:
  assumes "manager_ok m"
  shows "manager_ok (managerStep op m)"
proof -
  have "grants_ok (managerStep op m)" using assms by (simp add: manager_ok_def grants_ok_step)
  moreover have "fs_ok (managerStep op m) = fs_ok m \<and> exec_ok (managerStep op m) = exec_ok m"
  proof (cases op)
    case (RequireOp clk ag d j s r du)
    then show ?thesis using RequireApproval_shape [of clk ag d j s r du m] by auto
  next
    case (EnsureOp clk ag d)
    then show ?thesis using ensureGrant_shape [of clk ag d m] by auto
  next
    case (GrantOp clk d who s du)
    then show ?thesis using putGrant_shape [of "clk 3" "permissionKey d" "GrantManual clk d who s du" m] by (auto simp: GrantPermission_def)
  next
    case (RegisterOp run tags)
    then show ?thesis
      using fs_ok_cong [of "m\<lparr>pm_taskGrants := x\<rparr>" m for x] exec_ok_cong [of "m\<lparr>pm_taskGrants := x\<rparr>" m for x]
      by (simp add: RegisterTaskGrant_def Let_def split: sum.split)
  next
    case (RevokeOp run)
    then show ?thesis
      using fs_ok_cong [of "m\<lparr>pm_taskGrants := x\<rparr>" m for x] exec_ok_cong [of "m\<lparr>pm_taskGrants := x\<rparr>" m for x]
      by (simp add: RevokeTaskGrant_def)
  qed (simp_all add: ReleaseSession_def Let_def SetDefaultDecision_def split: sum.split)
  ultimately show ?thesis using assms by (simp add: manager_ok_def)
qed

lemma manager_ok_gate: "(if asks then ensureGrant clk ag d m else (None, m)) = (err, m') \<Longrightarrow> manager_ok m \<Longrightarrow> manager_ok m'"
  using manager_ok_ensureGrant [of m clk ag d] by (auto split: if_splits)

lemma manager_ok_guard: "manager_ok m \<Longrightarrow> manager_ok (SetFilesystemGuardRoots cwd prot excl m)"
  using grants_ok_cong [of "SetFilesystemGuardRoots cwd prot excl m" m] exec_ok_cong [of "SetFilesystemGuardRoots cwd prot excl m" m]
  by (auto simp: manager_ok_def SetFilesystemGuardRoots_def fs_ok_def intro: memo_reset)

lemma manager_ok_runtime [simp]: "manager_ok (applyRuntimePolicyLocked m) = manager_ok m"
  by (simp add: applyRuntimePolicyLocked_def split: option.split)

lemma manager_ok_handle: "manager_ok m \<Longrightarrow> manager_ok (snd (handleUndeclaredTool clk ag agentID name missing m))"
  by (simp add: handleUndeclaredTool_def manager_ok_RequireApproval)


text \<open>The shape all the checks end with: an error passes, success is followed by the audit record.\<close>

lemma snd_audited [simp]: "snd (case p of (Some e, m) \<Rightarrow> (Some e, m) | (None, m) \<Rightarrow> (f m, m)) = snd p"
  by (auto split: prod.split option.split)

lemma manager_ok_gated: "manager_ok m \<Longrightarrow> manager_ok (snd (if asks then ensureGrant clk ag d m else (None, m)))"
  by (simp add: manager_ok_ensureGrant)

lemma manager_ok_file:
  assumes "manager_ok m" and "action \<in> set fileActions"
  shows "manager_ok (snd (CheckFileAccess ev clk now ts ag agentID action path m))"
proof (cases "normalizePath ev m path")
  case (Inr clean)
  obtain found m' where f: "findFilesystemPermission now action clean m = (found, m')" by fastforce
  then have "manager_ok m'" using manager_ok_find_fs [OF assms, of now clean] by simp
  then show ?thesis by (simp add: CheckFileAccess_def Inr f manager_ok_undeclared manager_ok_gated split: option.split)
qed (simp add: CheckFileAccess_def assms)

lemma manager_ok_static:
  assumes "manager_ok m" and "action \<in> set fileActions"
  shows "manager_ok (snd (StaticallyAllowsFileAccess ev now action path m))"
proof (cases "normalizePath ev m path")
  case (Inr clean)
  obtain found m' where f: "findFilesystemPermission now action clean m = (found, m')" by fastforce
  then have "manager_ok m'" using manager_ok_find_fs [OF assms, of now clean] by simp
  then show ?thesis by (simp add: StaticallyAllowsFileAccess_def Inr f split: option.split)
qed (simp add: StaticallyAllowsFileAccess_def assms)

lemma manager_ok_exec:
  assumes "manager_ok m"
  shows "manager_ok (snd (CheckExecutable clk now ts ag agentID binary args env m))"
proof -
  obtain found m' where f: "findExecutablePermission now binary m = (found, m')" by fastforce
  then have "manager_ok m'" using manager_ok_find_exec [OF assms, of now binary] by simp
  then show ?thesis by (simp add: CheckExecutable_def f manager_ok_undeclared manager_ok_gated split: option.split)
qed

lemma manager_ok_net:
  assumes "manager_ok m"
  shows "manager_ok (snd (CheckNetwork clk ts ag agentID dir proto target port m))"
proof (cases "findNetworkPermission dir proto (tg_Token target) port m")
  case (Some perm)
  let ?d = "descriptor PermissionTypeNetwork (''net:'' @ dir @ '':'' @ proto) (tg_Token target @ '':'' @ fmtInt port) True"
  obtain err m' where g: "(if np_HITLRequired perm then ensureGrant clk ag ?d m else (None, m)) = (err, m')" by fastforce
  then have "manager_ok m'" using manager_ok_gate assms by blast
  then show ?thesis using assms unfolding CheckNetwork_def Let_def Some option.case g
    by (simp add: recordNetworkRule_def split: option.split)
qed (simp add: CheckNetwork_def Let_def assms manager_ok_undeclared)

lemma manager_ok_matrix:
  "manager_ok m \<Longrightarrow>
   manager_ok (case snd (CheckFilePermission clk ag base action path matrix (Some m)) of None \<Rightarrow> m | Some m \<Rightarrow> m)"
  using manager_ok_RequireApproval by (simp add: CheckFilePermission_def Let_def case_prod_unfold)

lemma manager_ok_tool:
  assumes "manager_ok m" and "legalOp (ToolOp clk now ts ag agentID t)"
  shows "manager_ok (snd (AuthorizeTool clk now ts ag agentID t m))"
proof (cases "tv_Permissions t")
  case None
  then show ?thesis using assms(1) by (simp add: AuthorizeTool_def ToolPermissions_Validate_def)
next
  case (Some req)
  with assms(2) have act: "\<forall>perm \<in> set (ps_FileSystem req). fp_Action perm \<in> set fileActions" by (simp add: list_all_iff)
  obtain missing m' where c: "collectUndeclared now req m = (missing, m')" by fastforce
  then have "manager_ok m'" using collectUndeclared_spec(2) [OF assms(1) act, of now] by simp
  then show ?thesis using assms(1) by (simp add: AuthorizeTool_def Some c manager_ok_handle split: option.split)
qed

lemma manager_ok_checkStep: "manager_ok m \<Longrightarrow> legalOp op \<Longrightarrow> manager_ok (checkStep op m)"
  by (cases op)
    (simp_all add: manager_ok_managerStep manager_ok_guard manager_ok_file manager_ok_static manager_ok_matrix manager_ok_exec
      manager_ok_net AttachRuntime_def CheckIPC_def manager_ok_gated manager_ok_tool AuthorizeToolByName_def Let_def manager_ok_handle
      split: option.split)


text \<open>What no call changes: the workspace, the declared permissions, the audit logger and the approval provider.\<close>

definition staticPart :: "PermissionManager \<Rightarrow> string \<times> PermissionSet \<times> AuditLogger option \<times> HITLProvider option" where
  "staticPart m = (pm_basePath m, pm_declared m, pm_audit m, pm_hitl m)"

lemma static_frame [simp]:
  "staticPart (m\<lparr>pm_grants := g\<rparr>) = staticPart m" "staticPart (m\<lparr>pm_hitlRateLimits := r\<rparr>) = staticPart m"
  "staticPart (m\<lparr>pm_taskGrants := tg\<rparr>) = staticPart m" "staticPart (m\<lparr>pm_defaultDecision := d\<rparr>) = staticPart m"
  "staticPart (m\<lparr>pm_fsPermCache := fc\<rparr>) = staticPart m" "staticPart (m\<lparr>pm_execPermCache := xc\<rparr>) = staticPart m"
  "staticPart (m\<lparr>pm_netPolicy := n\<rparr>) = staticPart m" "staticPart (m\<lparr>pm_runtime := rt\<rparr>) = staticPart m"
  "staticPart (m\<lparr>pm_runtimePolicyErr := e\<rparr>) = staticPart m" "staticPart (m\<lparr>pm_fsProtectedRoots := p\<rparr>) = staticPart m"
  "staticPart (m\<lparr>pm_fsExcludedRoots := x\<rparr>) = staticPart m"
  by (simp_all add: staticPart_def)

lemma static_ensure [simp]: "staticPart (snd (ensureGrant clk ag d m)) = staticPart m"
  using ensureGrant_shape [of clk ag d m] by auto

lemma static_require [simp]: "staticPart (snd (RequireApproval clk ag d j s ri du m)) = staticPart m"
  using RequireApproval_shape [of clk ag d j s ri du m] by auto

lemma static_put [simp]: "staticPart (putGrant now key g m) = staticPart m"
  using putGrant_shape [of now key g m] by auto

lemma static_undeclared [simp]: "staticPart (snd (undeclared clk ag d reason m)) = staticPart m"
  by (simp add: undeclared_def)

lemma static_gated [simp]: "staticPart (snd (if asks then ensureGrant clk ag d m else (None, m))) = staticPart m"
  by simp

lemma static_handle [simp]: "staticPart (snd (handleUndeclaredTool clk ag agentID name missing m)) = staticPart m"
  by (simp add: handleUndeclaredTool_def)

lemma static_runtime [simp]: "staticPart (applyRuntimePolicyLocked m) = staticPart m"
  by (simp add: applyRuntimePolicyLocked_def split: option.split)

lemma static_find_fs: "findFilesystemPermission now action path m = (found, m') \<Longrightarrow> staticPart m' = staticPart m"
  by (auto simp: findFilesystemPermission_def Let_def split: if_splits prod.splits option.splits)

lemma static_find_exec: "findExecutablePermission now binary m = (found, m') \<Longrightarrow> staticPart m' = staticPart m"
  by (auto simp: findExecutablePermission_def Let_def split: prod.splits option.splits)

lemma static_files: "undeclaredFiles now perms m = (missing, m') \<Longrightarrow> staticPart m' = staticPart m"
  by (induction now perms m arbitrary: missing m' rule: undeclaredFiles.induct) (auto dest: static_find_fs split: prod.splits)

lemma static_execs: "undeclaredExecs now execs m = (missing, m') \<Longrightarrow> staticPart m' = staticPart m"
  by (induction now execs m arbitrary: missing m' rule: undeclaredExecs.induct) (auto dest: static_find_exec split: prod.splits)

lemma static_collect: "collectUndeclared now req m = (missing, m') \<Longrightarrow> staticPart m' = staticPart m"
  by (auto simp: collectUndeclared_def dest!: static_files static_execs split: prod.splits)

lemma static_file: "staticPart (snd (CheckFileAccess ev clk now ts ag agentID action path m)) = staticPart m"
proof (cases "normalizePath ev m path")
  case (Inr clean)
  obtain found m' where f: "findFilesystemPermission now action clean m = (found, m')" by fastforce
  from static_find_fs [OF f] show ?thesis by (simp add: CheckFileAccess_def Inr f split: option.split)
qed (simp add: CheckFileAccess_def)

lemma static_static: "staticPart (snd (StaticallyAllowsFileAccess ev now action path m)) = staticPart m"
  by (auto simp: StaticallyAllowsFileAccess_def dest: static_find_fs split: sum.split prod.split option.split)

lemma static_exec: "staticPart (snd (CheckExecutable clk now ts ag agentID binary args env m)) = staticPart m"
proof -
  obtain found m' where f: "findExecutablePermission now binary m = (found, m')" by fastforce
  from static_find_exec [OF f] show ?thesis by (simp add: CheckExecutable_def f split: option.split)
qed

lemma static_net: "staticPart (snd (CheckNetwork clk ts ag agentID dir proto target port m)) = staticPart m"
proof (cases "findNetworkPermission dir proto (tg_Token target) port m")
  case (Some perm)
  let ?d = "descriptor PermissionTypeNetwork (''net:'' @ dir @ '':'' @ proto) (tg_Token target @ '':'' @ fmtInt port) True"
  obtain err m' where g: "(if np_HITLRequired perm then ensureGrant clk ag ?d m else (None, m)) = (err, m')" by fastforce
  then have "staticPart m' = staticPart m" using static_gated [of "np_HITLRequired perm" clk ag ?d m] by simp
  then show ?thesis unfolding CheckNetwork_def Let_def Some option.case g
    by (simp add: recordNetworkRule_def split: option.split)
qed (simp add: CheckNetwork_def Let_def)

lemma static_tool: "staticPart (snd (AuthorizeTool clk now ts ag agentID t m)) = staticPart m"
proof -
  obtain missing m' where c: "collectUndeclared now (the (tv_Permissions t)) m = (missing, m')" by fastforce
  from static_collect [OF c] show ?thesis by (simp add: AuthorizeTool_def c split: option.split)
qed

lemma static_managerStep: "staticPart (managerStep op m) = staticPart m"
  by (cases op) (simp_all add: GrantPermission_def RegisterTaskGrant_def RevokeTaskGrant_def ReleaseSession_def SetDefaultDecision_def
      Let_def split: sum.split)

lemma static_checkStep: "staticPart (checkStep op m) = staticPart m"
  by (cases op)
    (simp_all add: static_managerStep SetFilesystemGuardRoots_def static_file static_static static_exec static_net static_tool
      CheckFilePermission_def case_prod_unfold AttachRuntime_def CheckIPC_def AuthorizeToolByName_def Let_def split: option.split)

lemma liveCache_bound: "liveCache n c \<Longrightarrow> int (cache_Len c) \<le> n"
  by (simp add: liveCache_Len) (simp add: liveCache_def)

lemma manager_ok_run: "list_all legalOp ops \<Longrightarrow> manager_ok m \<Longrightarrow> manager_ok (fold checkStep ops m)"
  by (induction ops arbitrary: m) (simp_all add: manager_ok_checkStep)

lemma static_run: "staticPart (fold checkStep ops m) = staticPart m"
  by (induction ops arbitrary: m) (simp_all add: static_checkStep)

text \<open>
  \<^bold>\<open>C9.\<close> Whatever the history of checks, grants and reconfigurations on a permission manager, the declared
  permissions and the workspace are those it was built with, its default decision is never allow, the
  three caches stay within their capacities, and the answer to a file lookup is the one the declared
  permissions and the guard roots give, whatever the verdict cache has seen.
\<close>

theorem checks_invariant:
  assumes "list_all legalOp ops" and "m = fold checkStep ops (newManager bp ps au h)"
  shows "pm_declared m = inflateScopes bp ps \<and> pm_basePath m = bp \<and> pm_audit m = au \<and> effectiveDefaultDecision m \<noteq> DecisionAllow \<and>
         int (cache_Len (pm_grants m)) \<le> grantsCacheCap \<and>
         int (cache_Len (pm_fsPermCache m)) \<le> fsPermCacheCap \<and>
         int (cache_Len (pm_execPermCache m)) \<le> execPermCacheCap \<and>
         (action \<in> set fileActions \<longrightarrow> fst (findFilesystemPermission now action path m) = fsVerdict m action path)"
proof -
  have ok: "manager_ok m" using assms manager_ok_run manager_ok_New by blast
  have "staticPart m = staticPart (newManager bp ps au h)" using assms(2) static_run by simp
  then have "pm_declared m = inflateScopes bp ps" "pm_basePath m = bp" "pm_audit m = au" by (simp_all add: staticPart_def newManager_def)
  then show ?thesis using ok find_fs_spec(1) [of m action now path]
    by (auto simp: manager_ok_def grants_ok_def effectiveDefaultDecision_def fs_ok_def exec_ok_def memo_ok_def intro: liveCache_bound)
qed

theorem checks_invariant_witness:
  "list_all legalOp [StaticOp (\<lambda>_. None) 5 ''fs:read'' ''a'', RuntimeOp None] \<and>
   pm_declared (fold checkStep [StaticOp (\<lambda>_. None) 5 ''fs:read'' ''a'', RuntimeOp None] (newManager ''/w'' noPermissions None None)) =
     inflateScopes ''/w'' noPermissions"
proof
  show legal: "list_all legalOp [StaticOp (\<lambda>_. None) 5 ''fs:read'' ''a'', RuntimeOp None]" by (simp add: fileActions_def)
  show "pm_declared (fold checkStep [StaticOp (\<lambda>_. None) 5 ''fs:read'' ''a'', RuntimeOp None] (newManager ''/w'' noPermissions None None)) =
     inflateScopes ''/w'' noPermissions"
    by (rule checks_invariant [OF legal refl, THEN conjunct1])
qed

text \<open>A declared program runs, and rests on its declaration.\<close>

theorem exec_access_sound_witness:
  "fst (CheckExecutable (\<lambda>_. 7) 7 7 ''a'' ''a'' ''git'' [''status''] [] wExecs) = None \<and>
   (\<exists>found. execGranted (\<lambda>_. 7) 7 ''a'' ''git'' [''status''] [] found wExecs)"
proof -
  have ok: "manager_ok wExecs" by (simp add: wExecs_def manager_ok_New)
  have trim: "TrimSpace ''git'' = ''git''" by code_simp
  have get: "cache_Get 7 k (NewCache execPermCacheCap 0 False) = (None, NewCache execPermCacheCap 0 False)"
    for k :: string by (simp add: cache_Get_def NewCache_def)
  have run: "fst (CheckExecutable (\<lambda>_. 7) 7 7 ''a'' ''a'' ''git'' [''status''] [] wExecs) = None"
    by (simp add: CheckExecutable_def findExecutablePermission_def wExecs_def newManager_def trim get inflateScopes_def Let_def
        noPermissions_def auditLog_def)
  from exec_access_sound [OF ok run] show ?thesis using run by auto
qed

end
