(* ===== verification/CommandLift.thy ===== *)
theory CommandLift
  imports Declared
begin

text \<open>
  Static lifting of commands to the permissions they need
  (\<open>governance/authorization/command_semantics.go\<close>).

  The shell parser is a package outside the repository. A parser is an argument \<open>P\<close>: for a command
  string it gives the parse error, or the nodes that \<open>syntax.Walk\<close> visits, in its order. Nothing is
  assumed of it. The node kinds the code distinguishes are constructors, every other kind is
  \<open>OtherNode\<close>, and likewise for the parts of a word and the redirection operators.
\<close>

section \<open>Data\<close>

datatype wordPart =
    WLit string
  | SglQuoted bool string
  | DblQuoted "wordPart list"
  | OtherPart

datatype redirOp = RdrOut | AppOut | RdrIn | OtherRedir

datatype shNode =
    CmdSubst
  | CallExpr "wordPart list list"
  | Redirect redirOp "wordPart list option"
  | OtherNode

type_synonym shParser = "string \<Rightarrow> goerr + shNode list"

record LiftedPermissions =
  lp_FileSystem :: "FileSystemPermission list"
  lp_Executables :: "ExecutablePermission list"
  lp_Network :: "NetworkPermission list"
  lp_HasDynamic :: bool

definition noLifted :: LiftedPermissions where
  "noLifted = \<lparr>lp_FileSystem = [], lp_Executables = [], lp_Network = [], lp_HasDynamic = False\<rparr>"

definition merge :: "LiftedPermissions \<Rightarrow> LiftedPermissions \<Rightarrow> LiftedPermissions" where
  "merge res other =
     \<lparr>lp_FileSystem = lp_FileSystem res @ lp_FileSystem other,
      lp_Executables = lp_Executables res @ lp_Executables other,
      lp_Network = lp_Network res @ lp_Network other,
      lp_HasDynamic = (lp_HasDynamic res \<or> lp_HasDynamic other)\<rparr>"

record UnwrapStep =
  us_Wrapper :: string
  us_Depth :: nat

definition maxUnwrapDepth :: nat where
  "maxUnwrapDepth = 5"

abbreviation FileSystemRead :: string where "FileSystemRead \<equiv> ''fs:read''"
abbreviation FileSystemWrite :: string where "FileSystemWrite \<equiv> ''fs:write''"
abbreviation FileSystemDelete :: string where "FileSystemDelete \<equiv> ''fs:delete''"

definition fsPerm :: "string \<Rightarrow> string \<Rightarrow> FileSystemPermission" where
  "fsPerm action path =
     \<lparr>fp_Action = action, fp_Path = path, fp_Justification = [], fp_HITLRequired = False, fp_ReadOnlyMount = False\<rparr>"

definition execPerm :: "string \<Rightarrow> string list \<Rightarrow> ExecutablePermission" where
  "execPerm binary args =
     \<lparr>xp_Binary = binary, xp_Args = args, xp_Env = [], xp_Checksum = [], xp_HITLRequired = False, xp_ProxyRequired = False\<rparr>"

definition addFs :: "string \<Rightarrow> string list \<Rightarrow> LiftedPermissions \<Rightarrow> LiftedPermissions" where
  "addFs action paths res = res\<lparr>lp_FileSystem := lp_FileSystem res @ map (fsPerm action) paths\<rparr>"

abbreviation addReads :: "string list \<Rightarrow> LiftedPermissions \<Rightarrow> LiftedPermissions" where "addReads \<equiv> addFs FileSystemRead"
abbreviation addWrites :: "string list \<Rightarrow> LiftedPermissions \<Rightarrow> LiftedPermissions" where "addWrites \<equiv> addFs FileSystemWrite"
abbreviation addDeletes :: "string list \<Rightarrow> LiftedPermissions \<Rightarrow> LiftedPermissions" where "addDeletes \<equiv> addFs FileSystemDelete"

definition addExec :: "string \<Rightarrow> string list \<Rightarrow> LiftedPermissions \<Rightarrow> LiftedPermissions" where
  "addExec binary args res = res\<lparr>lp_Executables := lp_Executables res @ [execPerm binary args]\<rparr>"

section \<open>Words and arguments\<close>

fun literalPart :: "wordPart \<Rightarrow> string option" where
  "literalPart (WLit v) = Some v"
| "literalPart (SglQuoted dollar v) = (if dollar then None else Some v)"
| "literalPart (DblQuoted parts) =
     foldr (\<lambda>inner acc. case inner of WLit v \<Rightarrow> map_option (\<lambda>s. v @ s) acc | _ \<Rightarrow> None) parts (Some [])"
| "literalPart OtherPart = None"

fun literalParts :: "wordPart list \<Rightarrow> string option" where
  "literalParts [] = Some []"
| "literalParts (p # ps) =
     (case literalPart p of
        None \<Rightarrow> None
      | Some v \<Rightarrow> map_option (\<lambda>s. v @ s) (literalParts ps))"

definition literalWord :: "wordPart list option \<Rightarrow> string option" where
  "literalWord w = (case w of None \<Rightarrow> Some [] | Some parts \<Rightarrow> literalParts parts)"

fun literalWords :: "wordPart list list \<Rightarrow> string list option" where
  "literalWords [] = Some []"
| "literalWords (w # ws) =
     (case literalWord (Some w) of
        None \<Rightarrow> None
      | Some v \<Rightarrow> map_option (\<lambda>vs. v # vs) (literalWords ws))"

definition literalPaths :: "string list \<Rightarrow> string list" where
  "literalPaths args = filter (\<lambda>arg. arg \<noteq> [] \<and> \<not> prefix ''-'' arg) args"

definition outputFlag :: "string \<Rightarrow> bool" where
  "outputFlag arg \<longleftrightarrow> arg \<in> {''-o'', ''--output'', ''-O'', ''--output-document''}"

definition outputInlineFlag :: "string \<Rightarrow> bool" where
  "outputInlineFlag arg \<longleftrightarrow>
     prefix ''--output='' arg \<or> prefix ''--output-document='' arg \<or>
     prefix ''-o'' arg \<and> length arg > 2 \<and> \<not> prefix ''--'' arg \<or>
     prefix ''-O'' arg \<and> length arg > 2 \<and> \<not> prefix ''--'' arg"

fun firstNetworkArg :: "string list \<Rightarrow> string" where
  "firstNetworkArg [] = []"
| "firstNetworkArg (arg # args) =
     (if outputFlag arg then firstNetworkArg (drop 1 args)
      else if outputInlineFlag arg then firstNetworkArg args
      else if arg \<noteq> [] \<and> \<not> prefix ''-'' arg then arg
      else firstNetworkArg args)"

fun flagValue :: "string list \<Rightarrow> string \<Rightarrow> string \<Rightarrow> string option" where
  "flagValue [] short long = None"
| "flagValue (arg # args) short long =
     (if arg = short \<or> arg = long then (case args of [] \<Rightarrow> None | v # _ \<Rightarrow> Some v)
      else if long \<noteq> [] \<and> prefix (long @ ''='') arg then Some (TrimPrefix arg (long @ ''=''))
      else if short \<noteq> [] \<and> length arg > length short \<and> prefix short arg \<and> \<not> prefix ''--'' arg then Some (drop (length short) arg)
      else flagValue args short long)"

text \<open>The text after the first occurrence of a separator, if it occurs.\<close>

fun afterFirst :: "string \<Rightarrow> string \<Rightarrow> string option" where
  "afterFirst sep [] = (if sep = [] then Some [] else None)"
| "afterFirst sep (c # s) = (if prefix sep (c # s) then Some (drop (length sep) (c # s)) else afterFirst sep s)"

definition extractHostFromURL :: "string \<Rightarrow> string" where
  "extractHostFromURL rawURL =
     (let rawURL = TrimSpace rawURL in
      if rawURL = [] then []
      else
        let rawURL = (case afterFirst ''://'' rawURL of Some rest \<Rightarrow> rest | None \<Rightarrow> rawURL);
            rawURL = takeWhile (\<lambda>c. c \<noteq> CHR ''/'') rawURL
        in takeWhile (\<lambda>c. c \<noteq> CHR '':'') rawURL)"

definition commandBase :: "string \<Rightarrow> string" where
  "commandBase binary = ToLower (Base (TrimSpace binary))"

definition isShellBinary :: "string \<Rightarrow> bool" where
  "isShellBinary binary \<longleftrightarrow> binary \<in> {''sh'', ''bash'', ''zsh'', ''dash''}"

text \<open>The argument after the first cluster of short flags that contains a \<open>c\<close>.\<close>

fun shellCommandString :: "string list \<Rightarrow> string option" where
  "shellCommandString [] = None"
| "shellCommandString (arg # args) =
     (if length arg < 2 \<or> hd arg \<noteq> CHR ''-'' \<or> arg = ''--'' then shellCommandString args
      else if prefix ''--'' arg then shellCommandString args
      else if CHR ''c'' \<notin> set (tl arg) then shellCommandString args
      else (case args of [] \<Rightarrow> None | v # _ \<Rightarrow> Some v))"

definition isOpaqueConstructor :: "string \<Rightarrow> string list \<Rightarrow> bool" where
  "isOpaqueConstructor binary args \<longleftrightarrow>
     (if binary \<in> {''xargs'', ''sudo'', ''doas'', ''su'', ''watch''} then True
      else if binary = ''find'' then list_ex (\<lambda>arg. arg \<in> {''-exec'', ''-execdir'', ''-ok'', ''-okdir''}) args
      else if binary \<in> {''awk'', ''gawk'', ''mawk''} then list_ex (\<lambda>arg. strContains arg ''system('') args
      else if binary = ''perl'' then
        list_ex (\<lambda>arg. arg = ''-e'' \<or> arg = ''-E'' \<or> arg = ''--eval'' \<or> (prefix ''-e'' arg \<and> length arg > 2)) args
      else if binary \<in> {''python'', ''python2'', ''python3'', ''node'', ''nodejs'', ''ruby'', ''php''} then
        list_ex (\<lambda>arg. arg \<in> {''-c'', ''-e'', ''--eval'', ''-p'', ''-r''}) args
      else False)"

section \<open>Wrappers\<close>

definition allDigits :: "string \<Rightarrow> bool" where
  "allDigits s \<longleftrightarrow> s \<noteq> [] \<and> list_all is_digit s"

definition envFlag :: "string \<Rightarrow> bool" where
  "envFlag arg \<longleftrightarrow> arg \<in> {''-i'', ''--ignore-environment'', ''-0'', ''--null''}"

definition envValueFlag :: "string \<Rightarrow> bool" where
  "envValueFlag arg \<longleftrightarrow> arg \<in> {''-u'', ''--unset'', ''-C'', ''--chdir'', ''-S'', ''--split-string''}"

definition envInlineFlag :: "string \<Rightarrow> bool" where
  "envInlineFlag arg \<longleftrightarrow> prefix ''--unset='' arg \<or> prefix ''--chdir='' arg \<or> prefix ''--split-string='' arg"

fun stripEnv :: "string list \<Rightarrow> string list" where
  "stripEnv [] = []"
| "stripEnv (arg # args) =
     (if arg = ''--'' then args
      else if envFlag arg then stripEnv args
      else if envValueFlag arg then stripEnv (drop 1 args)
      else if envInlineFlag arg then stripEnv args
      else if prefix ''-'' arg \<and> arg \<noteq> ''-'' then stripEnv args
      else if strContains arg ''='' \<and> \<not> prefix ''='' arg then stripEnv args
      else arg # args)"

fun stripNice :: "string list \<Rightarrow> string list" where
  "stripNice [] = []"
| "stripNice (arg # args) =
     (if arg = ''-n'' \<or> arg = ''--adjustment'' then stripNice (drop 1 args)
      else if prefix ''--adjustment='' arg then stripNice args
      else if length arg > 1 \<and> hd arg = CHR ''-'' \<and> allDigits (tl arg) then stripNice args
      else arg # args)"

definition timeoutValueFlag :: "string \<Rightarrow> bool" where
  "timeoutValueFlag arg \<longleftrightarrow> arg \<in> {''-s'', ''--signal'', ''-k'', ''--kill-after''}"

fun skipTimeoutFlags :: "string list \<Rightarrow> string list" where
  "skipTimeoutFlags [] = []"
| "skipTimeoutFlags (arg # args) =
     (if prefix ''-'' arg then
        (if timeoutValueFlag arg then skipTimeoutFlags (drop 1 args) else skipTimeoutFlags args)
      else arg # args)"

text \<open>The duration token is skipped too.\<close>

definition stripTimeout :: "string list \<Rightarrow> string list" where
  "stripTimeout args = drop 1 (skipTimeoutFlags args)"

fun stripStdbuf :: "string list \<Rightarrow> string list" where
  "stripStdbuf [] = []"
| "stripStdbuf (arg # args) =
     (if arg = ''--'' then args
      else if prefix ''--'' arg then stripStdbuf args
      else if length arg \<ge> 2 \<and> hd arg = CHR ''-'' \<and> arg ! 1 \<in> {CHR ''i'', CHR ''o'', CHR ''e''} then
        (if length arg = 2 then stripStdbuf (drop 1 args) else stripStdbuf args)
      else arg # args)"

fun skipLeadingFlags :: "string list \<Rightarrow> string list" where
  "skipLeadingFlags [] = []"
| "skipLeadingFlags (arg # args) =
     (if prefix ''-'' arg then (if arg = ''--'' then args else skipLeadingFlags args) else arg # args)"

definition stripArgvWrapper :: "string \<Rightarrow> string list \<Rightarrow> string list option" where
  "stripArgvWrapper binary args =
     (let out = (if binary = ''env'' then Some (stripEnv args)
                 else if binary = ''nice'' then Some (stripNice args)
                 else if binary = ''timeout'' then Some (stripTimeout args)
                 else if binary = ''stdbuf'' then Some (stripStdbuf args)
                 else if binary = ''nohup'' \<or> binary = ''setsid'' then Some (skipLeadingFlags args)
                 else None)
      in case out of None \<Rightarrow> None | Some out \<Rightarrow> if out = [] then None else Some out)"

section \<open>Plain commands\<close>

definition carrierWrite :: "string \<Rightarrow> LiftedPermissions \<Rightarrow> LiftedPermissions" where
  "carrierWrite path res =
     (let path = TrimSpace path in if path = [] \<or> prefix ''-'' path then res else addWrites [path] res)"

definition liftOutputCarriers :: "string \<Rightarrow> string list \<Rightarrow> LiftedPermissions \<Rightarrow> LiftedPermissions" where
  "liftOutputCarriers binary args res =
     (if binary = ''curl'' then
        (case flagValue args ''-o'' ''--output'' of Some v \<Rightarrow> carrierWrite v res | None \<Rightarrow> res)
      else if binary = ''wget'' then
        (case flagValue args ''-O'' ''--output-document'' of Some v \<Rightarrow> carrierWrite v res | None \<Rightarrow> res)
      else if binary = ''dd'' then
        fold (\<lambda>arg res. if prefix ''of='' arg then carrierWrite (TrimPrefix arg ''of='') res else res) args res
      else if binary = ''install'' then
        (let paths = literalPaths args in if paths \<noteq> [] then carrierWrite (last paths) res else res)
      else if binary = ''truncate'' then fold carrierWrite (literalPaths args) res
      else res)"

definition sedInPlace :: "string \<Rightarrow> bool" where
  "sedInPlace arg \<longleftrightarrow> arg = ''-i'' \<or> arg = ''--in-place'' \<or> prefix ''-i'' arg"

text \<open>The switch of \<open>liftPlain\<close>.\<close>

definition liftEffects :: "string \<Rightarrow> string list \<Rightarrow> LiftedPermissions \<Rightarrow> LiftedPermissions" where
  "liftEffects binary args res =
     (let paths = literalPaths args in
      if binary = ''eval'' then res\<lparr>lp_HasDynamic := True\<rparr>
      else if binary \<in> {''cat'', ''head'', ''tail'', ''less'', ''more'', ''bat''} then addReads paths res
      else if binary \<in> {''rm'', ''rmdir'', ''shred'', ''unlink''} then addDeletes paths res
      else if binary \<in> {''cp'', ''mv''} then
        (if paths \<noteq> [] then addWrites [last paths] (addReads (butlast paths) res) else res)
      else if binary = ''sed'' then
        (let paths = filter (\<lambda>arg. arg \<noteq> [] \<and> \<not> sedInPlace arg \<and> \<not> prefix ''-'' arg) args in
         if paths \<noteq> [] then
           (if list_ex (\<lambda>arg. arg \<noteq> [] \<and> sedInPlace arg) args then addWrites [last paths] res else addReads [last paths] res)
         else res)
      else if binary = ''tee'' then addWrites paths res
      else if binary \<in> {''touch'', ''mkdir''} then addWrites paths res
      else if binary \<in> {''curl'', ''wget''} then
        (let host = firstNetworkArg args in
         if host \<noteq> [] then
           (let h = extractHostFromURL host in
            if h \<noteq> [] then
              res\<lparr>lp_Network := lp_Network res @
                [\<lparr>np_Direction = ''egress'', np_Protocol = ''tcp'', np_Host = h, np_Port = 0, np_Description = [],
                  np_HITLRequired = False\<rparr>]\<rparr>
            else res)
         else res)
      else res)"

definition liftPlain :: "string \<Rightarrow> string list \<Rightarrow> LiftedPermissions \<Rightarrow> LiftedPermissions" where
  "liftPlain binary args res = addExec binary args (liftEffects binary args (liftOutputCarriers binary args res))"

section \<open>Lifting\<close>

definition dynamic :: "LiftedPermissions \<Rightarrow> LiftedPermissions" where
  "dynamic res = res\<lparr>lp_HasDynamic := True\<rparr>"

definition liftRedirect :: "redirOp \<Rightarrow> wordPart list option \<Rightarrow> LiftedPermissions \<Rightarrow> LiftedPermissions" where
  "liftRedirect op w res =
     (case literalWord w of
        None \<Rightarrow> res
      | Some target \<Rightarrow>
          if target = [] then res
          else case op of
            RdrOut \<Rightarrow> addWrites [target] res
          | AppOut \<Rightarrow> addWrites [target] res
          | RdrIn \<Rightarrow> addReads [target] res
          | OtherRedir \<Rightarrow> res)"

text \<open>
  The four functions recurse through one another: a command string through its nodes, a node through
  the command it calls, a command through the string or the command it wraps, one level deeper. The
  error of a nested command is dropped by \<open>liftCallExpr\<close>.
\<close>

function liftShellString :: "shParser \<Rightarrow> string \<Rightarrow> LiftedPermissions \<Rightarrow> nat \<Rightarrow> goerr option \<times> LiftedPermissions"
  and liftNodes :: "shParser \<Rightarrow> shNode list \<Rightarrow> LiftedPermissions \<Rightarrow> nat \<Rightarrow> LiftedPermissions"
  and liftCallExpr :: "shParser \<Rightarrow> wordPart list list \<Rightarrow> LiftedPermissions \<Rightarrow> nat \<Rightarrow> LiftedPermissions"
  and liftCommand :: "shParser \<Rightarrow> string list \<Rightarrow> LiftedPermissions \<Rightarrow> nat \<Rightarrow> goerr option \<times> LiftedPermissions" where
  "liftShellString P cmdStr res depth =
     (if TrimSpace cmdStr = [] then (None, res)
      else if depth > maxUnwrapDepth then (None, dynamic res)
      else case P (TrimSpace cmdStr) of
        Inl err \<Rightarrow> (Some err, res)
      | Inr nodes \<Rightarrow> (None, liftNodes P nodes res depth))"
| "liftNodes P [] res depth = res"
| "liftNodes P (node # nodes) res depth =
     liftNodes P nodes
       (case node of
          CmdSubst \<Rightarrow> dynamic res
        | CallExpr words \<Rightarrow> liftCallExpr P words res depth
        | Redirect op w \<Rightarrow> liftRedirect op w res
        | OtherNode \<Rightarrow> res) depth"
| "liftCallExpr P words res depth =
     (if words = [] then res
      else case literalWords words of
        None \<Rightarrow> dynamic res
      | Some argv \<Rightarrow> if hd argv = [] then dynamic res else snd (liftCommand P argv res depth))"
| "liftCommand P argv res depth =
     (if argv = [] then (None, res)
      else if depth > maxUnwrapDepth then (None, dynamic res)
      else if isOpaqueConstructor (commandBase (hd argv)) (tl argv)
      then (None, addExec (commandBase (hd argv)) (tl argv) (dynamic res))
      else case (if isShellBinary (commandBase (hd argv)) then shellCommandString (tl argv) else None) of
        Some cmdStr \<Rightarrow> liftShellString P cmdStr (addExec (commandBase (hd argv)) (tl argv) res) (depth + 1)
      | None \<Rightarrow>
          (case stripArgvWrapper (commandBase (hd argv)) (tl argv) of
             Some inner \<Rightarrow> liftCommand P inner (addExec (commandBase (hd argv)) (tl argv) res) (depth + 1)
           | None \<Rightarrow> (None, liftPlain (commandBase (hd argv)) (tl argv) res)))"
  by pat_completeness auto
termination
proof (relation "measures
    [\<lambda>x. case x of Inl (Inl (P, s, r, d)) \<Rightarrow> 7 - d | Inl (Inr (P, ns, r, d)) \<Rightarrow> 7 - d
                 | Inr (Inl (P, ws, r, d)) \<Rightarrow> 7 - d | Inr (Inr (P, a, r, d)) \<Rightarrow> 7 - d,
     \<lambda>x. case x of Inl (Inl _) \<Rightarrow> 3 | Inl (Inr _) \<Rightarrow> 2 | Inr (Inl _) \<Rightarrow> 1 | Inr (Inr _) \<Rightarrow> 0,
     \<lambda>x. case x of Inl (Inr (P, ns, r, d)) \<Rightarrow> length ns | _ \<Rightarrow> 0]")
qed (auto simp: maxUnwrapDepth_def)

declare liftShellString.simps [simp del] liftCallExpr.simps [simp del] liftCommand.simps [simp del]

definition LiftShellCommand :: "shParser \<Rightarrow> string \<Rightarrow> goerr + LiftedPermissions" where
  "LiftShellCommand P cmdStr =
     (case liftShellString P cmdStr noLifted 0 of (Some err, res) \<Rightarrow> Inl err | (None, res) \<Rightarrow> Inr res)"

section \<open>Unwrapping\<close>

text \<open>The loop of \<open>UnwrapCommand\<close>; the depth grows with every round and the loop stops at \<open>maxUnwrapDepth\<close>.\<close>

function unwrapLoop ::
  "string list \<Rightarrow> nat \<Rightarrow> string list list \<Rightarrow> UnwrapStep list \<Rightarrow> string list list \<times> UnwrapStep list \<times> bool" where
  "unwrapLoop cur depth inner steps =
     (if cur = [] then (inner, steps, False)
      else if depth \<ge> maxUnwrapDepth then (inner, steps, True)
      else if isOpaqueConstructor (commandBase (hd cur)) (tl cur) then (inner, steps, True)
      else if isShellBinary (commandBase (hd cur)) then
        (case shellCommandString (tl cur) of
           Some _ \<Rightarrow> (inner @ [cur], steps @ [\<lparr>us_Wrapper = commandBase (hd cur), us_Depth = depth\<rparr>], False)
         | None \<Rightarrow> (inner, steps, False))
      else case stripArgvWrapper (commandBase (hd cur)) (tl cur) of
        None \<Rightarrow> (inner, steps, False)
      | Some nxt \<Rightarrow>
          unwrapLoop nxt (depth + 1) (inner @ [nxt]) (steps @ [\<lparr>us_Wrapper = commandBase (hd cur), us_Depth = depth\<rparr>]))"
  by pat_completeness auto
termination by (relation "measure (\<lambda>(cur, depth, inner, steps). maxUnwrapDepth - depth)") auto

declare unwrapLoop.simps [simp del]

definition UnwrapCommand :: "string list \<Rightarrow> string list list \<times> UnwrapStep list \<times> bool" where
  "UnwrapCommand argv = unwrapLoop argv 0 [] []"


section \<open>Lifting only adds\<close>

lemma merge_simps [simp]:
  "merge noLifted r = r" "merge r noLifted = r" "merge (merge a b) c = merge a (merge b c)"
  by (simp_all add: merge_def noLifted_def)

lemma merge_sel [simp]:
  "lp_FileSystem (merge a b) = lp_FileSystem a @ lp_FileSystem b"
  "lp_Executables (merge a b) = lp_Executables a @ lp_Executables b"
  "lp_Network (merge a b) = lp_Network a @ lp_Network b"
  "lp_HasDynamic (merge a b) \<longleftrightarrow> lp_HasDynamic a \<or> lp_HasDynamic b"
  by (simp_all add: merge_def)

text \<open>An operation on the lifted permissions that appends to what is there, whatever it is.\<close>

definition additive :: "(LiftedPermissions \<Rightarrow> LiftedPermissions) \<Rightarrow> bool" where
  "additive f \<longleftrightarrow> (\<forall>res. f res = merge res (f noLifted))"

named_theorems additives

lemma additiveD: "additive f \<Longrightarrow> f res = merge res (f noLifted)"
  unfolding additive_def by blast

lemma additive_id [additives]: "additive (\<lambda>res. res)"
  by (simp add: additive_def)

lemma additive_comp: "additive f \<Longrightarrow> additive g \<Longrightarrow> additive (\<lambda>res. f (g res))"
  unfolding additive_def by (metis merge_simps(3))

lemma additive_if [additives]: "additive f \<Longrightarrow> additive g \<Longrightarrow> additive (\<lambda>res. if b then f res else g res)"
  by (cases b) simp_all

lemma additive_option [additives]:
  "additive f \<Longrightarrow> (\<And>v. additive (g v)) \<Longrightarrow> additive (\<lambda>res. case x of None \<Rightarrow> f res | Some v \<Rightarrow> g v res)"
  by (cases x) simp_all

lemma additive_fold [additives]: "(\<And>x. additive (f x)) \<Longrightarrow> additive (\<lambda>res. fold f xs res)"
proof (induction xs)
  case (Cons x xs)
  then show ?case using additive_comp [of "fold f xs" "f x"] by simp
qed (simp add: additive_id id_def)

lemma additive_atoms [additives]:
  "additive dynamic" "additive (addFs action paths)" "additive (addExec binary args)" "additive (\<lambda>res. res\<lparr>lp_HasDynamic := True\<rparr>)"
  "additive (\<lambda>res. res\<lparr>lp_Network := lp_Network res @ ns\<rparr>)"
  by (simp_all add: additive_def dynamic_def addFs_def addExec_def merge_def noLifted_def)

lemma additive_carrier [additives]: "additive (carrierWrite path)"
  unfolding carrierWrite_def Let_def by (rule additive_if additives)+

lemma additive_carriers: "additive (liftOutputCarriers binary args)"
  unfolding liftOutputCarriers_def Let_def by (rule additive_if additives)+

lemma additive_effects: "additive (liftEffects binary args)"
  unfolding liftEffects_def Let_def by (rule additive_if additive_atoms additive_id additive_comp [of "addFs FileSystemWrite _" "addFs FileSystemRead _"])+

lemma additive_plain: "additive (liftPlain binary args)"
  unfolding liftPlain_def
  by (rule additive_comp [OF additive_atoms(3) additive_comp [OF additive_effects additive_carriers]])

lemma additive_redirect: "additive (liftRedirect op w)"
  unfolding liftRedirect_def by (cases op) (simp_all add: additive_option additive_if additive_atoms additive_id)


lemma lift_additive:
  "liftShellString P cmdStr res depth = map_prod id (merge res) (liftShellString P cmdStr noLifted depth)"
  "liftNodes P nodes res depth = merge res (liftNodes P nodes noLifted depth)"
  "liftCallExpr P ws res depth = merge res (liftCallExpr P ws noLifted depth)"
  "liftCommand P argv res depth = map_prod id (merge res) (liftCommand P argv noLifted depth)"
proof -
  let ?S = "\<lambda>P s (r :: LiftedPermissions) d. \<forall>res. liftShellString P s res d = map_prod id (merge res) (liftShellString P s noLifted d)"
  let ?N = "\<lambda>P ns (r :: LiftedPermissions) d. \<forall>res. liftNodes P ns res d = merge res (liftNodes P ns noLifted d)"
  let ?E = "\<lambda>P ws (r :: LiftedPermissions) d. \<forall>res. liftCallExpr P ws res d = merge res (liftCallExpr P ws noLifted d)"
  let ?C = "\<lambda>P a (r :: LiftedPermissions) d. \<forall>res. liftCommand P a res d = map_prod id (merge res) (liftCommand P a noLifted d)"
  have dyn: "dynamic res = merge res (dynamic noLifted)" for res by (rule additiveD [OF additive_atoms(1)])
  have "?S P cmdStr res depth" and "?N P nodes res depth" and "?E P ws res depth" and "?C P argv res depth"
  proof (induction P cmdStr res depth and P nodes res depth and P ws res depth and P argv res depth
      rule: liftShellString_liftNodes_liftCallExpr_liftCommand.induct)
    case (1 P cmdStr r depth)
    show ?case
    proof (cases "TrimSpace cmdStr = [] \<or> depth > maxUnwrapDepth")
      case True
      then show ?thesis by (auto simp: liftShellString.simps intro: dyn)
    next
      case False
      show ?thesis
      proof (cases "P (TrimSpace cmdStr)")
        case (Inr nodes)
        have "liftShellString P cmdStr res depth = (None, liftNodes P nodes res depth)" for res
          using False Inr by (simp add: liftShellString.simps)
        moreover have "?N P nodes r depth" using 1 False Inr by blast
        ultimately show ?thesis by (metis id_apply map_prod_simp)
      qed (use False in \<open>simp add: liftShellString.simps\<close>)
    qed
  next
    case (2 P r depth)
    show ?case by simp
  next
    case (3 P node nodes r depth)
    define f where "f = (\<lambda>res. case node of CmdSubst \<Rightarrow> dynamic res | CallExpr ws \<Rightarrow> liftCallExpr P ws res depth
      | Redirect op w \<Rightarrow> liftRedirect op w res | OtherNode \<Rightarrow> res)"
    have f: "f res = merge res (f noLifted)" for res
    proof (cases node)
      case (CallExpr ws)
      show ?thesis unfolding f_def CallExpr shNode.case using 3(1) [OF CallExpr] by (rule spec)
    next
      case (Redirect op w)
      show ?thesis unfolding f_def Redirect shNode.case by (rule additiveD [OF additive_redirect])
    qed (auto simp: f_def intro: dyn)
    have "liftNodes P (node # nodes) res depth = liftNodes P nodes (f res) depth" for res by (simp add: f_def)
    then show ?case using 3(2) f by (metis merge_simps(3))
  next
    case (4 P ws r depth)
    show ?case
    proof (cases "ws = [] \<or> literalWords ws = None \<or> hd (the (literalWords ws)) = []")
      case True
      then show ?thesis by (auto simp: liftCallExpr.simps intro: dyn split: option.splits)
    next
      case False
      then obtain argv where lit: "literalWords ws = Some argv" "hd argv \<noteq> []" and ne: "ws \<noteq> []" by auto
      then have "liftCallExpr P ws res depth = snd (liftCommand P argv res depth)" for res by (simp add: liftCallExpr.simps)
      then show ?thesis using 4 [OF ne lit] by (metis snd_map_prod)
    qed
  next
    case (5 P argv r depth)
    let ?b = "commandBase (hd argv)" and ?a = "tl argv"
    have ax: "addExec ?b ?a res = merge res (addExec ?b ?a noLifted)" for res by (rule additiveD [OF additive_atoms(3)])
    have pass: "map_prod id (merge (addExec ?b ?a res)) p = map_prod id (merge res) (map_prod id (merge (addExec ?b ?a noLifted)) p)"
      for res and p :: "goerr option \<times> LiftedPermissions" using ax [of res] by (cases p) simp
    consider "argv = []" | "argv \<noteq> []" "depth > maxUnwrapDepth"
      | "argv \<noteq> []" "\<not> depth > maxUnwrapDepth" "isOpaqueConstructor ?b ?a"
      | s where "argv \<noteq> []" "\<not> depth > maxUnwrapDepth" "\<not> isOpaqueConstructor ?b ?a"
          "(if isShellBinary ?b then shellCommandString ?a else None) = Some s"
      | inner where "argv \<noteq> []" "\<not> depth > maxUnwrapDepth" "\<not> isOpaqueConstructor ?b ?a"
          "(if isShellBinary ?b then shellCommandString ?a else None) = None" "stripArgvWrapper ?b ?a = Some inner"
      | "argv \<noteq> []" "\<not> depth > maxUnwrapDepth" "\<not> isOpaqueConstructor ?b ?a"
          "(if isShellBinary ?b then shellCommandString ?a else None) = None" "stripArgvWrapper ?b ?a = None"
      by (metis not_None_eq)
    then show ?case
    proof cases
      case 1
      then show ?thesis by (simp add: liftCommand.simps)
    next
      case 2
      then show ?thesis by (auto simp: liftCommand.simps intro: dyn)
    next
      case 3
      have "liftCommand P argv res depth = (None, addExec ?b ?a (dynamic res))" for res using 3 by (simp add: liftCommand.simps)
      then show ?thesis using additiveD [OF additive_comp [OF additive_atoms(3) additive_atoms(1)]] by (metis id_apply map_prod_simp)
    next
      case 4
      have "liftCommand P argv res depth = liftShellString P s (addExec ?b ?a res) (depth + 1)" for res
        using 4 by (simp add: liftCommand.simps)
      then show ?thesis using "5.IH"(2) [OF 4] pass by metis
    next
      case 5
      have "liftCommand P argv res depth = liftCommand P inner (addExec ?b ?a res) (depth + 1)" for res
        using 5 by (simp add: liftCommand.simps [of P argv])
      then show ?thesis using "5.IH"(1) [OF 5] pass by metis
    next
      case 6
      have "liftCommand P argv res depth = (None, liftPlain ?b ?a res)" for res using 6 by (simp add: liftCommand.simps)
      then show ?thesis using additiveD [OF additive_plain] by (metis id_apply map_prod_simp)
    qed
  qed
  then show
    "liftShellString P cmdStr res depth = map_prod id (merge res) (liftShellString P cmdStr noLifted depth)"
    "liftNodes P nodes res depth = merge res (liftNodes P nodes noLifted depth)"
    "liftCallExpr P ws res depth = merge res (liftCallExpr P ws noLifted depth)"
    "liftCommand P argv res depth = map_prod id (merge res) (liftCommand P argv noLifted depth)" by blast+
qed


section \<open>No command is hidden\<close>

abbreviation ownPerms :: "string list \<Rightarrow> LiftedPermissions" where
  "ownPerms argv \<equiv> liftPlain (commandBase (hd argv)) (tl argv) noLifted"

text \<open>
  The levels of a command as the code unwraps them, with the permissions of each: what the program itself
  needs, what the command behind a wrapper does, and what the commands and the redirections of the
  string given to a shell do; \<open>n\<close> counts the levels in between. The theory \<open>CommandSpec\<close> states what command lines do
  without the functions of the code and relates the two.
\<close>

inductive performs :: "shParser \<Rightarrow> nat \<Rightarrow> string list \<Rightarrow> LiftedPermissions \<Rightarrow> bool" for P where
  performs_self: "argv \<noteq> [] \<Longrightarrow> performs P 0 argv (ownPerms argv)"
| performs_wrapped: "stripArgvWrapper (commandBase (hd argv)) (tl argv) = Some inner \<Longrightarrow> argv \<noteq> [] \<Longrightarrow>
    performs P n inner own \<Longrightarrow> performs P (Suc n) argv own"
| performs_shell: "isShellBinary (commandBase (hd argv)) \<Longrightarrow> shellCommandString (tl argv) = Some s \<Longrightarrow> argv \<noteq> [] \<Longrightarrow>
    TrimSpace s \<noteq> [] \<Longrightarrow> P (TrimSpace s) = Inr nodes \<Longrightarrow> CallExpr ws \<in> set nodes \<Longrightarrow> literalWords ws = Some inner \<Longrightarrow>
    performs P n inner own \<Longrightarrow> performs P (Suc n) argv own"
| performs_redirect: "isShellBinary (commandBase (hd argv)) \<Longrightarrow> shellCommandString (tl argv) = Some s \<Longrightarrow> argv \<noteq> [] \<Longrightarrow>
    TrimSpace s \<noteq> [] \<Longrightarrow> P (TrimSpace s) = Inr nodes \<Longrightarrow> Redirect op w \<in> set nodes \<Longrightarrow>
    performs P 1 argv (liftRedirect op w noLifted)"

text \<open>What is lifted covers a command: it holds all the permissions of the command itself, or the command is marked dynamic.\<close>

definition covers :: "LiftedPermissions \<Rightarrow> LiftedPermissions \<Rightarrow> bool" where
  "covers lifted own \<longleftrightarrow> lp_HasDynamic lifted \<or>
     set (lp_FileSystem own) \<subseteq> set (lp_FileSystem lifted) \<and> set (lp_Network own) \<subseteq> set (lp_Network lifted) \<and>
     set (lp_Executables own) \<subseteq> set (lp_Executables lifted)"

lemma covers_merge: "covers a own \<or> covers b own \<Longrightarrow> covers (merge a b) own"
  by (auto simp: covers_def)

lemma covers_dynamic [simp]: "lp_HasDynamic a \<Longrightarrow> covers a own"
  by (simp add: covers_def)

lemma covers_self [simp]: "covers a a"
  by (simp add: covers_def)

lemma dynamic_sel [simp]: "lp_HasDynamic (dynamic r)" "lp_HasDynamic (addExec b a r) = lp_HasDynamic r"
  by (simp_all add: dynamic_def addExec_def)

lemma plain_other:
  assumes "binary \<in> {''env'', ''nice'', ''timeout'', ''stdbuf'', ''nohup'', ''setsid'', ''sh'', ''bash'', ''zsh'', ''dash''}"
  shows "liftPlain binary args res = addExec binary args res"
  using assms unfolding liftPlain_def liftEffects_def liftOutputCarriers_def Let_def by (elim insertE emptyE) simp_all

lemma stripArgvWrapper_binary:
  "stripArgvWrapper binary args = Some inner \<Longrightarrow> binary \<in> {''env'', ''nice'', ''timeout'', ''stdbuf'', ''nohup'', ''setsid''}"
  unfolding stripArgvWrapper_def Let_def by (simp split: if_splits option.splits)

lemma wrapper_plain: "stripArgvWrapper binary args = Some inner \<Longrightarrow> liftPlain binary args res = addExec binary args res"
  using stripArgvWrapper_binary plain_other by blast

lemma shell_plain: "isShellBinary binary \<Longrightarrow> liftPlain binary args res = addExec binary args res"
  unfolding isShellBinary_def using plain_other by blast

lemma shell_not_wrapper: "isShellBinary binary \<Longrightarrow> stripArgvWrapper binary args = None"
  unfolding isShellBinary_def stripArgvWrapper_def Let_def by (elim insertE emptyE) simp_all

lemma stripArgvWrapper_ne: "stripArgvWrapper binary args = Some inner \<Longrightarrow> inner \<noteq> []"
  by (auto simp: stripArgvWrapper_def Let_def split: option.splits if_splits)

text \<open>The three outcomes of lifting one command at an admissible depth.\<close>

lemma liftCommand_wrapped:
  assumes "stripArgvWrapper (commandBase (hd argv)) (tl argv) = Some inner" and "argv \<noteq> []" and "\<not> depth > maxUnwrapDepth"
    and "\<not> isOpaqueConstructor (commandBase (hd argv)) (tl argv)"
  shows "snd (liftCommand P argv noLifted depth) = merge (ownPerms argv) (snd (liftCommand P inner noLifted (depth + 1)))"
proof -
  have "\<not> isShellBinary (commandBase (hd argv))" using assms(1) shell_not_wrapper by fastforce
  then show ?thesis
    using assms lift_additive(4) [of P inner "ownPerms argv" "depth + 1"] wrapper_plain [OF assms(1)]
    by (subst liftCommand.simps) simp
qed

lemma liftCommand_shell:
  assumes "isShellBinary (commandBase (hd argv))" and "shellCommandString (tl argv) = Some s" and "argv \<noteq> []" and "\<not> depth > maxUnwrapDepth"
    and "\<not> isOpaqueConstructor (commandBase (hd argv)) (tl argv)"
  shows "snd (liftCommand P argv noLifted depth) = merge (ownPerms argv) (snd (liftShellString P s noLifted (depth + 1)))"
  using assms lift_additive(1) [of P s "ownPerms argv" "depth + 1"] shell_plain [OF assms(1)]
  by (subst liftCommand.simps) simp

lemma liftCommand_self: "argv \<noteq> [] \<Longrightarrow> covers (snd (liftCommand P argv noLifted depth)) (ownPerms argv)"
proof -
  assume ne: "argv \<noteq> []"
  let ?b = "commandBase (hd argv)" and ?a = "tl argv"
  consider "depth > maxUnwrapDepth \<or> isOpaqueConstructor ?b ?a"
    | inner where "\<not> depth > maxUnwrapDepth" "\<not> isOpaqueConstructor ?b ?a" "stripArgvWrapper ?b ?a = Some inner"
    | s where "\<not> depth > maxUnwrapDepth" "\<not> isOpaqueConstructor ?b ?a" "isShellBinary ?b" "shellCommandString ?a = Some s"
    | "\<not> depth > maxUnwrapDepth" "\<not> isOpaqueConstructor ?b ?a" "stripArgvWrapper ?b ?a = None"
        "(if isShellBinary ?b then shellCommandString ?a else None) = None"
    by (metis not_None_eq)
  then show ?thesis
  proof cases
    case 1
    then show ?thesis using ne by (auto simp: liftCommand.simps)
  next
    case 2
    then show ?thesis using liftCommand_wrapped [OF 2(3) ne 2(1,2)] by (simp add: covers_merge)
  next
    case 3
    then show ?thesis using liftCommand_shell [OF 3(3,4) ne 3(1,2)] by (simp add: covers_merge)
  next
    case 4
    then show ?thesis using ne by (simp add: liftCommand.simps)
  qed
qed

lemma liftNodes_Cons:
  "liftNodes P (n # nodes) noLifted depth = merge (liftNodes P [n] noLifted depth) (liftNodes P nodes noLifted depth)"
  using lift_additive(2) [of P nodes "liftNodes P [n] noLifted depth" depth] by simp

lemma liftNodes_covers:
  "node \<in> set nodes \<Longrightarrow> covers (liftNodes P [node] noLifted depth) own \<Longrightarrow> covers (liftNodes P nodes noLifted depth) own"
  by (induction nodes) (metis empty_iff list.set(1), metis covers_merge liftNodes_Cons set_ConsD)

lemma liftNodes_dynamic:
  "node \<in> set nodes \<Longrightarrow> lp_HasDynamic (liftNodes P [node] noLifted depth) \<Longrightarrow> lp_HasDynamic (liftNodes P nodes noLifted depth)"
  by (induction nodes) (metis empty_iff list.set(1), metis merge_sel(4) liftNodes_Cons set_ConsD)

lemma performs_ne: "performs P n argv own \<Longrightarrow> argv \<noteq> []"
  by (induction rule: performs.induct)

lemma liftNodes_call:
  assumes "literalWords ws = Some inner" and "inner \<noteq> []"
  shows "liftNodes P [CallExpr ws] noLifted depth = (if hd inner = [] then dynamic noLifted else snd (liftCommand P inner noLifted depth))"
  using assms by (cases ws) (auto simp: liftCallExpr.simps)

lemma liftShellString_node:
  assumes "TrimSpace s \<noteq> []" and "P (TrimSpace s) = Inr nodes" and "node \<in> set nodes"
  shows "covers (liftNodes P [node] noLifted depth) own \<Longrightarrow> covers (snd (liftShellString P s noLifted depth)) own"
    and "depth > maxUnwrapDepth \<or> lp_HasDynamic (liftNodes P [node] noLifted depth) \<Longrightarrow>
      lp_HasDynamic (snd (liftShellString P s noLifted depth))"
  using assms liftNodes_covers [OF assms(3)] liftNodes_dynamic [OF assms(3)] by (auto simp: liftShellString.simps)

text \<open>A command that the depth or the constructor makes opaque is dynamic.\<close>

lemma liftCommand_opaque:
  "argv \<noteq> [] \<Longrightarrow> depth > maxUnwrapDepth \<or> isOpaqueConstructor (commandBase (hd argv)) (tl argv) \<Longrightarrow>
   lp_HasDynamic (snd (liftCommand P argv noLifted depth))"
  by (auto simp: liftCommand.simps)

lemma liftCommand_string:
  assumes "isShellBinary (commandBase (hd argv))" and "shellCommandString (tl argv) = Some s" and "argv \<noteq> []"
  shows "covers (snd (liftShellString P s noLifted (depth + 1))) own \<Longrightarrow> covers (snd (liftCommand P argv noLifted depth)) own"
    and "lp_HasDynamic (snd (liftShellString P s noLifted (depth + 1))) \<Longrightarrow> lp_HasDynamic (snd (liftCommand P argv noLifted depth))"
  using liftCommand_opaque [OF assms(3), of depth P] liftCommand_shell [OF assms, of depth P] covers_merge by fastforce+

lemma lift_covers:
  "performs P n argv own \<Longrightarrow> covers (snd (liftCommand P argv noLifted depth)) own \<and>
    (depth + n > maxUnwrapDepth \<longrightarrow> lp_HasDynamic (snd (liftCommand P argv noLifted depth)))"
proof (induction arbitrary: depth rule: performs.induct)
  case (performs_self argv)
  then show ?case by (simp add: liftCommand_self) (simp add: liftCommand.simps)
next
  case (performs_wrapped argv inner n own)
  show ?case
  proof (cases "depth > maxUnwrapDepth \<or> isOpaqueConstructor (commandBase (hd argv)) (tl argv)")
    case True
    then show ?thesis using performs_wrapped.hyps(2) liftCommand_opaque by simp
  next
    case False
    then show ?thesis using liftCommand_wrapped [OF performs_wrapped.hyps(1,2), of depth P] performs_wrapped.IH [of "depth + 1"]
      by (simp add: covers_merge)
  qed
next
  case (performs_shell argv s nodes ws inner n own)
  note one = liftNodes_call [OF performs_shell.hyps(7) performs_ne [OF performs_shell.hyps(8)], of P "depth + 1"]
  note node = liftShellString_node [of s P nodes "CallExpr ws" "depth + 1", OF performs_shell.hyps(4-6)]
  show ?case using liftCommand_string [OF performs_shell.hyps(1-3)] node one performs_shell.IH [of "depth + 1"]
    by (auto split: if_splits)
next
  case (performs_redirect argv s nodes op w)
  note node = liftShellString_node [of s P nodes "Redirect op w" "depth + 1", OF performs_redirect.hyps(4-6)]
  show ?case using liftCommand_string [OF performs_redirect.hyps(1-3)] node by simp
qed

section \<open>Unwrapping ends\<close>

lemma unwrapLoop_steps:
  assumes "unwrapLoop cur depth inner steps = (inner', steps', dyn)" and "map us_Depth steps = [0..<depth]" and "depth \<le> maxUnwrapDepth"
  shows "map us_Depth steps' = [0..<length steps'] \<and> length steps' \<le> maxUnwrapDepth"
proof -
  have len: "length steps = depth" if "map us_Depth steps = [0..<depth]" for steps :: "UnwrapStep list" and depth
    using arg_cong [OF that, of length] by simp
  from assms show ?thesis
  proof (induction cur depth inner steps rule: unwrapLoop.induct)
    case (1 cur depth inner steps)
    let ?b = "commandBase (hd cur)" and ?a = "tl cur"
    let ?steps = "steps @ [\<lparr>us_Wrapper = ?b, us_Depth = depth\<rparr>]"
    note l = len [OF "1.prems"(2)]
    have more: "map us_Depth ?steps = [0..<Suc depth]" using "1.prems"(2) by simp
    show ?case
    proof (cases "cur \<noteq> [] \<and> depth < maxUnwrapDepth \<and> \<not> isOpaqueConstructor ?b ?a \<and> \<not> isShellBinary ?b \<and> stripArgvWrapper ?b ?a \<noteq> None")
      case True
      then obtain nxt where nxt: "stripArgvWrapper ?b ?a = Some nxt" by blast
      have "unwrapLoop nxt (depth + 1) (inner @ [nxt]) ?steps = (inner', steps', dyn)"
        using "1.prems"(1) True nxt by (subst (asm) unwrapLoop.simps) simp
      then show ?thesis using "1.IH" True nxt more by simp
    next
      case False
      then have "steps' = steps \<or> depth < maxUnwrapDepth \<and> steps' = ?steps"
        using "1.prems"(1) by (subst (asm) unwrapLoop.simps) (auto split: if_splits option.splits)
      then show ?thesis using "1.prems"(2,3) l more by auto
    qed
  qed
qed

text \<open>
  Unwrapping ends after at most \<open>maxUnwrapDepth\<close> wrappers for every command, and the steps it reports are
  numbered consecutively from the outermost wrapper.
\<close>

theorem unwrap_bounded:
  "length (fst (snd (UnwrapCommand argv))) \<le> maxUnwrapDepth \<and>
   map us_Depth (fst (snd (UnwrapCommand argv))) = [0..<length (fst (snd (UnwrapCommand argv)))]"
proof -
  obtain inner steps dyn where u: "UnwrapCommand argv = (inner, steps, dyn)" by (rule prod_cases3)
  then show ?thesis using unwrapLoop_steps [of argv 0 "[]" "[]" inner steps dyn] by (simp add: UnwrapCommand_def)
qed

section \<open>Gaps\<close>

text \<open>The parse error of a shell string inside another shell string is dropped: nothing of the inner string is lifted and nothing escalates.\<close>

lemma nested_parse_error_dropped:
  assumes "P ''sh -c x'' = Inr [CallExpr [[WLit ''sh''], [WLit ''-c''], [WLit ''x'']]]" and "P ''x'' = Inl err"
  shows "liftCommand P [''sh'', ''-c'', ''sh -c x''] noLifted 0 =
    (None, noLifted\<lparr>lp_Executables := [execPerm ''sh'' [''-c'', ''sh -c x''], execPerm ''sh'' [''-c'', ''x'']]\<rparr>)"
proof -
  have e: "commandBase ''sh'' = ''sh''" "isShellBinary ''sh''" "shellCommandString [''-c'', s] = Some s" "\<not> isOpaqueConstructor ''sh'' args"
    "TrimSpace ''sh -c x'' = ''sh -c x''" "TrimSpace ''x'' = ''x''" for s args
  proof -
    show "commandBase ''sh'' = ''sh''" by code_simp
    show "isShellBinary ''sh''" by code_simp
    show "shellCommandString [''-c'', s] = Some s" by simp
    show "\<not> isOpaqueConstructor ''sh'' args" by (simp add: isOpaqueConstructor_def)
    show "TrimSpace ''sh -c x'' = ''sh -c x''" by code_simp
    show "TrimSpace ''x'' = ''x''" by code_simp
  qed
  have inner: "liftCommand P [''sh'', ''-c'', ''x''] res 1 = (Some err, addExec ''sh'' [''-c'', ''x''] res)" for res
    using assms(2) by (subst liftCommand.simps) (simp add: e liftShellString.simps maxUnwrapDepth_def del: shellCommandString.simps)
  show ?thesis
    using assms(1) inner
    by (subst liftCommand.simps)
      (simp add: e liftShellString.simps maxUnwrapDepth_def liftCallExpr.simps literalWord_def addExec_def noLifted_def
        del: shellCommandString.simps)
qed

text \<open>A redirection to a target that is not literal is neither lifted nor marked dynamic.\<close>

lemma dynamic_redirect_ignored: "liftRedirect op (Some [OtherPart]) res = res" "liftRedirect OtherRedir w res = res"
  by (simp_all add: liftRedirect_def literalWord_def split: option.split)

text \<open>The string that \<open>env -S\<close> splits and runs is skipped as the value of a flag.\<close>

lemma env_split_string_ignored: "liftCommand P [''env'', ''-S'', s] noLifted 0 = (None, noLifted\<lparr>lp_Executables := [execPerm ''env'' [''-S'', s]]\<rparr>)"
proof -
  have "commandBase ''env'' = ''env''" by code_simp
  moreover have "\<not> isShellBinary ''env''" by code_simp
  moreover have "stripArgvWrapper ''env'' [''-S'', s] = None" by (simp add: stripArgvWrapper_def envFlag_def envValueFlag_def)
  moreover have "\<not> isOpaqueConstructor ''env'' args" for args by (simp add: isOpaqueConstructor_def)
  ultimately show ?thesis using plain_other [of "''env''"] by (subst liftCommand.simps) (simp add: addExec_def noLifted_def)
qed

end
