(* ===== verification/CommandSpec.thy ===== *)
theory CommandSpec
  imports CommandLift
begin

text \<open>
  What command lines do, stated apart from the code that lifts them: how the usual wrappers, shells and file and
  network commands read their arguments, as far as a line is literal. The relation is limited to the forms it
  lists. Forms of the same commands that it leaves out, and for which the lifting of
  \<open>governance/authorization/command_semantics.go\<close> misses something, are the lemmas of the last section.
\<close>

section \<open>Names, words and arguments\<close>

datatype cmdEffect = Runs string "string list" | Reads string | Writes string | Deletes string | Contacts string

definition nameChar :: "char \<Rightarrow> bool" where
  "nameChar c \<longleftrightarrow> c \<in> set ''abcdefghijklmnopqrstuvwxyz0123456789._+-''"

text \<open>A program is called by its name or by an absolute path to it.\<close>

definition names :: "string \<Rightarrow> string \<Rightarrow> bool" where
  "names b prog \<longleftrightarrow> prog \<noteq> [] \<and> list_all nameChar prog \<and> (b = prog \<or> (\<exists>d. b = CHR ''/'' # d @ prog \<and> (d = [] \<or> last d = CHR ''/'')))"

definition operand :: "string \<Rightarrow> bool" where
  "operand a \<longleftrightarrow> a \<noteq> [] \<and> hd a \<noteq> CHR ''-''"

text \<open>
  The text a word of a shell line stands for: unquoted text without escapes, patterns, tildes and braces,
  single quotes, and double quotes around text without escapes.
\<close>

inductive partMeans :: "wordPart \<Rightarrow> string \<Rightarrow> bool" where
  "set v \<inter> {CHR 0x5C, CHR ''*'', CHR ''?'', CHR ''['', CHR ''~'', CHR ''{''} = {} \<Longrightarrow> partMeans (WLit v) v"
| "partMeans (SglQuoted False v) v"
| "\<forall>v \<in> set vs. CHR 0x5C \<notin> set v \<Longrightarrow> partMeans (DblQuoted (map WLit vs)) (concat vs)"

definition wordMeans :: "wordPart list \<Rightarrow> string \<Rightarrow> bool" where
  "wordMeans w s \<longleftrightarrow> (\<exists>vs. list_all2 partMeans w vs \<and> s = concat vs)"

definition lineMeans :: "wordPart list list \<Rightarrow> string list \<Rightarrow> bool" where
  "lineMeans ws argv \<longleftrightarrow> list_all2 wordMeans ws argv"

section \<open>Wrappers and shells\<close>

inductive envArgs :: "string list \<Rightarrow> bool" where
  "envArgs []"
| "envArgs as \<Longrightarrow> a \<in> {''-i'', ''--ignore-environment''} \<Longrightarrow> envArgs (a # as)"
| "envArgs as \<Longrightarrow> a \<in> {''-u'', ''--unset'', ''-C'', ''--chdir''} \<Longrightarrow> envArgs (a # v # as)"
| "envArgs as \<Longrightarrow> operand a \<Longrightarrow> CHR ''='' \<in> set a \<Longrightarrow> hd a \<noteq> CHR ''='' \<Longrightarrow> envArgs (a # as)"

inductive niceArgs :: "string list \<Rightarrow> bool" where
  "niceArgs []"
| "niceArgs [''-n'', k]"
| "niceArgs [''--adjustment='' @ k]"
| "ds \<noteq> [] \<Longrightarrow> list_all is_digit ds \<Longrightarrow> niceArgs [''-'' @ ds]"

inductive timeoutArgs :: "string list \<Rightarrow> bool" where
  "timeoutArgs []"
| "timeoutArgs as \<Longrightarrow> a \<in> {''-s'', ''--signal'', ''-k'', ''--kill-after''} \<Longrightarrow> timeoutArgs (a # v # as)"
| "timeoutArgs as \<Longrightarrow> a \<in> {''--foreground'', ''--preserve-status'', ''-v''} \<Longrightarrow> timeoutArgs (a # as)"

inductive stdbufArgs :: "string list \<Rightarrow> bool" where
  "stdbufArgs []"
| "stdbufArgs as \<Longrightarrow> x \<in> set ''ioe'' \<Longrightarrow> stdbufArgs ([CHR ''-'', x] # v # as)"
| "stdbufArgs as \<Longrightarrow> x \<in> set ''ioe'' \<Longrightarrow> v \<noteq> [] \<Longrightarrow> stdbufArgs ((CHR ''-'' # x # v) # as)"

inductive wraps :: "string list \<Rightarrow> string list \<Rightarrow> bool" where
  "names b ''env'' \<Longrightarrow> envArgs pre \<Longrightarrow> operand cmd \<Longrightarrow> CHR ''='' \<notin> set cmd \<Longrightarrow> wraps (b # pre @ cmd # args) (cmd # args)"
| "names b ''nice'' \<Longrightarrow> niceArgs pre \<Longrightarrow> operand cmd \<Longrightarrow> wraps (b # pre @ cmd # args) (cmd # args)"
| "names b ''timeout'' \<Longrightarrow> timeoutArgs pre \<Longrightarrow> operand dur \<Longrightarrow> wraps (b # pre @ dur # cmd # args) (cmd # args)"
| "names b ''stdbuf'' \<Longrightarrow> stdbufArgs pre \<Longrightarrow> operand cmd \<Longrightarrow> wraps (b # pre @ cmd # args) (cmd # args)"
| "names b ''nohup'' \<Longrightarrow> operand cmd \<Longrightarrow> wraps (b # cmd # args) (cmd # args)"
| "names b ''setsid'' \<Longrightarrow> list_all (\<lambda>a. a \<in> {''-c'', ''-f'', ''-w''}) pre \<Longrightarrow> operand cmd \<Longrightarrow> wraps (b # pre @ cmd # args) (cmd # args)"

text \<open>A shell runs the string after the cluster of short options that holds a \<open>c\<close>.\<close>

definition shellSwitch :: "string \<Rightarrow> bool" where
  "shellSwitch a \<longleftrightarrow> a \<in> {''--norc'', ''--noprofile'', ''--posix'', ''--login''} \<or>
     length a \<ge> 2 \<and> hd a = CHR ''-'' \<and> set (tl a) \<inter> set ''-co'' = {}"

definition shellString :: "string list \<Rightarrow> string \<Rightarrow> bool" where
  "shellString argv s \<longleftrightarrow>
     (\<exists>b prog opts f rest. argv = b # opts @ f # s # rest \<and> names b prog \<and> prog \<in> {''sh'', ''bash'', ''zsh'', ''dash''} \<and>
        list_all shellSwitch opts \<and> length f \<ge> 2 \<and> hd f = CHR ''-'' \<and> f ! 1 \<noteq> CHR ''-'' \<and> CHR ''c'' \<in> set (tl f) \<and> CHR ''o'' \<notin> set (tl f) \<and> operand s)"

section \<open>Programs\<close>

definition fetchSwitch :: "string \<Rightarrow> bool" where
  "fetchSwitch a \<longleftrightarrow> a \<in> {''-s'', ''-S'', ''-L'', ''-f'', ''-sS'', ''-sSL'', ''-fsSL'', ''-q'', ''--silent'', ''--location'', ''--fail'', ''--quiet''}"

definition hostChar :: "char \<Rightarrow> bool" where
  "hostChar c \<longleftrightarrow> alnum c \<or> c \<in> set ''.-''"

text \<open>\<open>scheme://host\<close> with a port and a path, without user information.\<close>

definition urlHost :: "string \<Rightarrow> string \<Rightarrow> bool" where
  "urlHost u h \<longleftrightarrow>
     (\<exists>sch rest. u = sch @ ''://'' @ h @ rest \<and> sch \<noteq> [] \<and> list_all alnum sch \<and> h \<noteq> [] \<and> list_all hostChar h \<and>
        (rest = [] \<or> hd rest \<in> set ''/:'') \<and> CHR ''@'' \<notin> set (takeWhile (\<lambda>c. c \<noteq> CHR ''/'') rest) \<and> (rest = [] \<or> \<not> is_space (last rest)))"

definition targetOption :: "string list \<Rightarrow> bool" where
  "targetOption args \<longleftrightarrow> list_ex (\<lambda>a. prefix ''-'' a \<and> CHR ''t'' \<in> set a) args"

inductive acts :: "string list \<Rightarrow> cmdEffect \<Rightarrow> bool" where
  runs: "names b prog \<Longrightarrow> acts (b # args) (Runs prog args)"
| reads: "names b p \<Longrightarrow> p \<in> {''cat'', ''head'', ''tail'', ''less'', ''more'', ''bat''} \<Longrightarrow> f \<in> set args \<Longrightarrow> operand f \<Longrightarrow> acts (b # args) (Reads f)"
| deletes: "names b p \<Longrightarrow> p \<in> {''rm'', ''rmdir'', ''shred'', ''unlink''} \<Longrightarrow> f \<in> set args \<Longrightarrow> operand f \<Longrightarrow> acts (b # args) (Deletes f)"
| writes: "names b p \<Longrightarrow> p \<in> {''tee'', ''touch'', ''mkdir''} \<Longrightarrow> f \<in> set args \<Longrightarrow> operand f \<Longrightarrow> acts (b # args) (Writes f)"
| truncates: "names b ''truncate'' \<Longrightarrow> f \<in> set args \<Longrightarrow> operand f \<Longrightarrow> TrimSpace f = f \<Longrightarrow> acts (b # args) (Writes f)"
| copies_from: "names b p \<Longrightarrow> p \<in> {''cp'', ''mv''} \<Longrightarrow> \<not> targetOption args \<Longrightarrow> filter operand args = srcs @ [dst] \<Longrightarrow> f \<in> set srcs \<Longrightarrow> acts (b # args) (Reads f)"
| copies_to: "names b p \<Longrightarrow> p \<in> {''cp'', ''mv''} \<Longrightarrow> \<not> targetOption args \<Longrightarrow> filter operand args = srcs @ [dst] \<Longrightarrow> acts (b # args) (Writes dst)"
| installs: "names b ''install'' \<Longrightarrow> \<not> targetOption args \<Longrightarrow> filter operand args = srcs @ [dst] \<Longrightarrow> TrimSpace dst = dst \<Longrightarrow> acts (b # args) (Writes dst)"
| sed_edits: "names b ''sed'' \<Longrightarrow> ''-i'' \<in> set args \<Longrightarrow> filter operand args = [script, f] \<Longrightarrow> acts (b # args) (Writes f)"
| sed_reads: "names b ''sed'' \<Longrightarrow> list_all (\<lambda>a. \<not> prefix ''-i'' a \<and> \<not> prefix ''--i'' a) args \<Longrightarrow> filter operand args = [script, f] \<Longrightarrow> acts (b # args) (Reads f)"
| dd: "names b ''dd'' \<Longrightarrow> ''of='' @ f \<in> set args \<Longrightarrow> operand f \<Longrightarrow> TrimSpace f = f \<Longrightarrow> acts (b # args) (Writes f)"
| fetches: "names b p \<Longrightarrow> (p, out) \<in> {(''curl'', ''-o''), (''wget'', ''-O'')} \<Longrightarrow> list_all fetchSwitch sw \<Longrightarrow> args \<in> {sw @ [u], sw @ [out, f, u], sw @ [u, out, f]} \<Longrightarrow>
    urlHost u h \<Longrightarrow> acts (b # args) (Contacts h)"
| saves: "names b p \<Longrightarrow> (p, out) \<in> {(''curl'', ''-o''), (''wget'', ''-O'')} \<Longrightarrow> list_all fetchSwitch sw \<Longrightarrow> args \<in> {sw @ [out, f, u], sw @ [u, out, f]} \<Longrightarrow>
    operand u \<Longrightarrow> operand f \<Longrightarrow> TrimSpace f = f \<Longrightarrow> acts (b # args) (Writes f)"

text \<open>What a line does through \<open>n\<close> levels of wrappers and shell strings; the parser \<open>P\<close> gives the nodes of a string.\<close>

inductive does :: "shParser \<Rightarrow> nat \<Rightarrow> string list \<Rightarrow> cmdEffect \<Rightarrow> bool" for P where
  itself: "acts argv e \<Longrightarrow> does P 0 argv e"
| wrapped: "wraps argv inner \<Longrightarrow> does P n inner e \<Longrightarrow> does P (Suc n) argv e"
| shell: "shellString argv s \<Longrightarrow> TrimSpace s \<noteq> [] \<Longrightarrow> P (TrimSpace s) = Inr nodes \<Longrightarrow> CallExpr ws \<in> set nodes \<Longrightarrow> lineMeans ws inner \<Longrightarrow>
    does P n inner e \<Longrightarrow> does P (Suc n) argv e"
| redirect_out: "shellString argv s \<Longrightarrow> TrimSpace s \<noteq> [] \<Longrightarrow> P (TrimSpace s) = Inr nodes \<Longrightarrow> Redirect op (Some w) \<in> set nodes \<Longrightarrow>
    op \<in> {RdrOut, AppOut} \<Longrightarrow> wordMeans w f \<Longrightarrow> f \<noteq> [] \<Longrightarrow> does P 1 argv (Writes f)"
| redirect_in: "shellString argv s \<Longrightarrow> TrimSpace s \<noteq> [] \<Longrightarrow> P (TrimSpace s) = Inr nodes \<Longrightarrow> Redirect RdrIn (Some w) \<in> set nodes \<Longrightarrow>
    wordMeans w f \<Longrightarrow> f \<noteq> [] \<Longrightarrow> does P 1 argv (Reads f)"

section \<open>What is lifted\<close>

definition liftedEffects :: "LiftedPermissions \<Rightarrow> cmdEffect set" where
  "liftedEffects r =
     {Reads p | p. fsPerm FileSystemRead p \<in> set (lp_FileSystem r)} \<union> {Writes p | p. fsPerm FileSystemWrite p \<in> set (lp_FileSystem r)} \<union>
     {Deletes p | p. fsPerm FileSystemDelete p \<in> set (lp_FileSystem r)} \<union> {Runs b args | b args. execPerm b args \<in> set (lp_Executables r)} \<union>
     {Contacts h | h. \<exists>net \<in> set (lp_Network r). np_Host net = h \<and> np_Direction net = ''egress'' \<and> np_Protocol net = ''tcp'' \<and> np_Port net = 0}"

lemma covers_effect: "covers lifted own \<Longrightarrow> e \<in> liftedEffects own \<Longrightarrow> lp_HasDynamic lifted \<or> e \<in> liftedEffects lifted"
  by (auto simp: covers_def liftedEffects_def)


lemma nameChar_facts: "nameChar c \<Longrightarrow> lower_char c = c \<and> \<not> is_space c \<and> c \<noteq> CHR ''/''"
  by (auto simp: nameChar_def lower_char_def is_space_def)

lemma takeWhile_all: "(\<And>x. x \<in> set xs \<Longrightarrow> P x) \<Longrightarrow> takeWhile P (xs @ ys) = xs @ takeWhile P ys"
  by (induction xs) auto

lemma Base_name:
  assumes "prog \<noteq> []" and "CHR ''/'' \<notin> set prog" and "d = [] \<or> last d = CHR ''/''"
  shows "Base (d @ prog) = prog"
proof -
  have "last prog \<noteq> CHR ''/''" using assms(1,2) last_in_set by metis
  then have "dropWhile (\<lambda>c. c = CHR ''/'') (rev (d @ prog)) = rev (d @ prog)" using assms(1) by (cases prog rule: rev_cases) auto
  moreover have "takeWhile (\<lambda>c. c \<noteq> CHR ''/'') (rev prog @ rev d) = rev prog"
    using assms(2,3) by (subst takeWhile_all) (auto simp: takeWhile_eq_Nil_iff hd_rev)
  ultimately show ?thesis using assms(1) by (simp add: Base_def Let_def)
qed

lemma commandBase_names: "names b prog \<Longrightarrow> commandBase b = prog"
proof -
  assume n: "names b prog"
  then have p: "prog \<noteq> []" "list_all nameChar prog" by (simp_all add: names_def)
  have low: "ToLower prog = prog" using p(2) nameChar_facts by (auto simp: ToLower_def list_all_iff intro!: map_idI)
  have slash: "CHR ''/'' \<notin> set prog" using p(2) nameChar_facts by (auto simp: list_all_iff)
  obtain d where d: "b = d @ prog" "d = [] \<or> hd d = CHR ''/'' \<and> last d = CHR ''/''"
  proof -
    have "(b = [] @ prog) \<or> (\<exists>d. b = (CHR ''/'' # d) @ prog \<and> last (CHR ''/'' # d) = CHR ''/'')" using n by (auto simp: names_def)
    then show thesis using that by fastforce
  qed
  have "\<not> is_space (last prog)" "\<not> is_space (hd prog)" using p nameChar_facts last_in_set [OF p(1)] hd_in_set [OF p(1)] by (auto simp: list_all_iff)
  then have "TrimSpace b = b" using d p(1) by (intro TrimSpace_fixed) (cases d, auto simp: is_space_def)
  then show ?thesis using Base_name [OF p(1) slash, of d] d low by (auto simp: commandBase_def)
qed

lemma operand_prefix: "\<not> prefix ''-'' a \<and> a \<noteq> [] \<longleftrightarrow> operand a"
  by (cases a) (auto simp: operand_def)

lemma literalPaths_operand: "literalPaths args = filter operand args"
  unfolding literalPaths_def by (rule filter_cong) (auto simp: operand_prefix [symmetric])

lemma operandD: "operand a \<Longrightarrow> \<not> prefix ''-'' a" "operand a \<Longrightarrow> a \<noteq> []" "operand a \<Longrightarrow> prefix ''-'' a = False"
  by (simp_all add: operand_prefix [symmetric])

lemma operand_neq [simp]: "operand a \<Longrightarrow> a = CHR ''-'' # r \<longleftrightarrow> False" "operand a \<Longrightarrow> prefix (CHR ''-'' # r) a \<longleftrightarrow> False"
  by (cases a; auto simp: operand_def)+

lemma strContains_char: "strContains a [c] \<longleftrightarrow> c \<in> set a"
  by (simp add: strContains_def sublist_def in_set_conv_decomp)

lemma stripEnv_operand: "operand a \<Longrightarrow> stripEnv (a # as) = (if CHR ''='' \<in> set a \<and> hd a \<noteq> CHR ''='' then stripEnv as else a # as)"
proof -
  assume op: "operand a"
  then have "prefix ''='' a \<longleftrightarrow> hd a = CHR ''=''" by (cases a) (auto simp: operand_def)
  with op show ?thesis by (simp add: envFlag_def envValueFlag_def envInlineFlag_def strContains_char)
qed

lemma stripEnv_spec: "envArgs pre \<Longrightarrow> operand cmd \<Longrightarrow> CHR ''='' \<notin> set cmd \<Longrightarrow> stripEnv (pre @ cmd # args) = cmd # args"
  by (induction pre rule: envArgs.induct) (auto simp: stripEnv_operand envFlag_def envValueFlag_def simp del: stripEnv.simps(2) intro: stripEnv.simps(2) [THEN trans])

lemma stripNice_spec:
  assumes "niceArgs pre" and "operand cmd" shows "stripNice (pre @ cmd # args) = cmd # args"
proof -
  have base: "stripNice (cmd # args) = cmd # args"
    using assms(2) by (simp add: operand_def [of cmd, THEN iffD1])
  show ?thesis using assms(1)
  proof (cases rule: niceArgs.cases)
    case (4 ds)
    then have "ds \<noteq> ''n''" "ds \<noteq> ''-adjustment''" "\<not> prefix ''-adjustment='' ds"
      by (auto simp: is_digit_def prefix_def)
    with 4 base show ?thesis by (simp add: allDigits_def)
  qed (use base in simp_all)
qed

lemma stripTimeout_spec: "timeoutArgs pre \<Longrightarrow> operand dur \<Longrightarrow> skipTimeoutFlags (pre @ dur # args) = dur # args"
proof (induction pre rule: timeoutArgs.induct)
  case 1
  then show ?case by simp
next
  case (2 as a v)
  then have "prefix ''-'' a" "timeoutValueFlag a" by (auto simp: timeoutValueFlag_def)
  with 2 show ?case by simp
next
  case (3 as a)
  then have "prefix ''-'' a" "\<not> timeoutValueFlag a" by (auto simp: timeoutValueFlag_def)
  with 3 show ?case by simp
qed

lemma stripStdbuf_spec: "stdbufArgs pre \<Longrightarrow> operand cmd \<Longrightarrow> stripStdbuf (pre @ cmd # args) = cmd # args"
proof (induction pre rule: stdbufArgs.induct)
  case 1
  then show ?case by (simp add: operand_def [of cmd, THEN iffD1])
next
  case (2 as x v)
  then show ?case by auto
next
  case (3 as x v)
  then show ?case by (cases v) auto
qed

lemma skipLeading_spec: "list_all (\<lambda>a. a \<in> {''-c'', ''-f'', ''-w''}) pre \<Longrightarrow> operand cmd \<Longrightarrow> skipLeadingFlags (pre @ cmd # args) = cmd # args"
  by (induction pre) (auto simp: operandD)

lemma wraps_strip: "wraps argv inner \<Longrightarrow> argv \<noteq> [] \<and> stripArgvWrapper (commandBase (hd argv)) (tl argv) = Some inner"
proof (cases rule: wraps.cases)
  assume "wraps argv inner" then show "wraps argv inner" .
qed (auto simp: stripArgvWrapper_def commandBase_names stripEnv_spec stripNice_spec stripTimeout_spec stripTimeout_def stripStdbuf_spec
    skipLeading_spec skipLeading_spec [of "[]", simplified])


section \<open>The lifting reads what the line means\<close>

lemma dblQuoted_literal:
  "foldr (\<lambda>inner acc. case inner of WLit v \<Rightarrow> map_option (\<lambda>s. v @ s) acc | _ \<Rightarrow> None) (map WLit vs) (Some []) = Some (concat vs)"
  by (induction vs) simp_all

lemma literalPart_means: "partMeans p v \<Longrightarrow> literalPart p = Some v"
  by (cases rule: partMeans.cases) (auto simp: dblQuoted_literal)

lemma literalParts_means: "list_all2 partMeans w vs \<Longrightarrow> literalParts w = Some (concat vs)"
  by (induction rule: list_all2_induct) (simp_all add: literalPart_means)

lemma literalWord_means: "wordMeans w s \<Longrightarrow> literalWord (Some w) = Some s"
  by (auto simp: wordMeans_def literalWord_def literalParts_means)

lemma literalWords_means: "lineMeans ws argv \<Longrightarrow> literalWords ws = Some argv"
  unfolding lineMeans_def by (induction rule: list_all2_induct) (simp_all add: literalWord_means)

lemma shellSwitch_skipped: "shellSwitch a \<Longrightarrow> shellCommandString (a # args) = shellCommandString args"
  by (cases a) (auto simp: shellSwitch_def)

lemma shellCommandString_spec:
  "list_all shellSwitch opts \<Longrightarrow> length f \<ge> 2 \<Longrightarrow> hd f = CHR ''-'' \<Longrightarrow> f ! 1 \<noteq> CHR ''-'' \<Longrightarrow> CHR ''c'' \<in> set (tl f) \<Longrightarrow>
   shellCommandString (opts @ f # s # rest) = Some s"
proof (induction opts)
  case Nil
  then obtain x r where "f = CHR ''-'' # x # r" by (cases f; cases "tl f") auto
  with Nil show ?case by auto
next
  case (Cons a opts)
  then show ?case using shellSwitch_skipped by simp
qed

lemma shellString_read:
  assumes "shellString argv s"
  shows "argv \<noteq> []" and "isShellBinary (commandBase (hd argv))" and "shellCommandString (tl argv) = Some s"
  using assms shellCommandString_spec by (auto simp: shellString_def isShellBinary_def commandBase_names)


section \<open>Programs are lifted\<close>

lemma liftedEffects_simps [simp]:
  "liftedEffects (merge r s) = liftedEffects r \<union> liftedEffects s"
  "liftedEffects noLifted = {}"
  "liftedEffects (addExec p args r) = insert (Runs p args) (liftedEffects r)"
  "liftedEffects (addReads paths r) = Reads ` set paths \<union> liftedEffects r"
  "liftedEffects (addWrites paths r) = Writes ` set paths \<union> liftedEffects r"
  "liftedEffects (addDeletes paths r) = Deletes ` set paths \<union> liftedEffects r"
  by (auto simp: liftedEffects_def addExec_def addFs_def noLifted_def execPerm_def fsPerm_def)

lemma ownPerms_effects:
  assumes "names b p"
  shows "liftedEffects (liftPlain (commandBase b) args noLifted) =
    insert (Runs p args) (liftedEffects (liftEffects p args noLifted) \<union> liftedEffects (liftOutputCarriers p args noLifted))"
  using additiveD [OF additive_effects [of p args], of "liftOutputCarriers p args noLifted"] commandBase_names [OF assms]
  by (auto simp: liftPlain_def)

lemma liftedEffects_fold:
  assumes "\<And>x. additive (f x)" and "x \<in> set xs" and "e \<in> liftedEffects (f x noLifted)"
  shows "e \<in> liftedEffects (fold f xs res)"
  using assms(2)
proof (induction xs arbitrary: res)
  case (Cons y ys)
  show ?case
  proof (cases "x = y")
    case True
    have "fold f ys (f x res) = merge (f x res) (fold f ys noLifted)" by (rule additiveD [OF additive_fold [OF assms(1)]])
    then show ?thesis using True additiveD [OF assms(1), of x res] assms(3) by simp
  next
    case False
    then show ?thesis using Cons by simp
  qed
qed simp

lemma carrier_effect: "operand f \<Longrightarrow> TrimSpace f = f \<Longrightarrow> carrierWrite f res = addWrites [f] res"
  by (simp add: carrierWrite_def operandD)

lemma sed_operands: "filter (\<lambda>arg. arg \<noteq> [] \<and> \<not> sedInPlace arg \<and> \<not> prefix ''-'' arg) args = filter operand args"
  by (rule filter_cong) (auto simp: operand_prefix [symmetric] sedInPlace_def)

lemma fetchSwitch_facts: "fetchSwitch a \<Longrightarrow> prefix ''-'' a \<and> \<not> outputFlag a \<and> \<not> outputInlineFlag a"
  by (auto simp: fetchSwitch_def outputFlag_def outputInlineFlag_def)

lemma firstNetworkArg_switches: "list_all fetchSwitch sw \<Longrightarrow> firstNetworkArg (sw @ args) = firstNetworkArg args"
  using fetchSwitch_facts by (induction sw) auto

lemma firstNetworkArg_operand: "operand u \<Longrightarrow> firstNetworkArg (u # args) = u"
  by (simp add: outputFlag_def outputInlineFlag_def operandD)

lemma flagValue_switches:
  "list_all fetchSwitch sw \<Longrightarrow> (out, long) \<in> {(''-o'', ''--output''), (''-O'', ''--output-document'')} \<Longrightarrow> flagValue (sw @ args) out long = flagValue args out long"
proof (induction sw)
  case (Cons a sw)
  have "a \<noteq> out" "a \<noteq> long" "\<not> prefix (long @ ''='') a" "\<not> prefix out a"
    using Cons.prems unfolding fetchSwitch_def by auto
  then show ?case using Cons by simp
qed simp

lemma flagValue_operand:
  "operand u \<Longrightarrow> (out, long) \<in> {(''-o'', ''--output''), (''-O'', ''--output-document'')} \<Longrightarrow> flagValue (u # args) out long = flagValue args out long"
  by (auto simp: operand_def)

lemma alnum_facts: "alnum c \<Longrightarrow> c \<noteq> CHR '':'' \<and> c \<noteq> CHR ''/'' \<and> c \<noteq> CHR ''-'' \<and> \<not> is_space c"
  by (auto simp: alnum_def upper_def between_def is_space_def less_eq_char_def)

lemma hostChar_facts: "hostChar c \<Longrightarrow> c \<noteq> CHR '':'' \<and> c \<noteq> CHR ''/'' \<and> \<not> is_space c"
  by (auto simp: hostChar_def is_space_def dest: alnum_facts)

lemma afterFirst_scheme: "list_all alnum sch \<Longrightarrow> afterFirst ''://'' (sch @ ''://'' @ rest) = Some rest"
  by (induction sch) (auto dest: alnum_facts)

lemma extractHost_spec: "urlHost u h \<Longrightarrow> operand u \<and> extractHostFromURL u = h \<and> h \<noteq> []"
proof -
  assume "urlHost u h"
  then obtain sch rest where u: "u = sch @ ''://'' @ h @ rest" and s: "sch \<noteq> []" "list_all alnum sch" and h: "h \<noteq> []" "list_all hostChar h"
    and r: "rest = [] \<or> hd rest \<in> set ''/:''" "rest = [] \<or> \<not> is_space (last rest)"
    unfolding urlHost_def by blast
  have hd: "alnum (hd sch)" using s by (cases sch) auto
  have last: "hostChar (last h)" using h by (auto simp: list_all_iff)
  have "hd u = hd sch" "last u = last (if rest = [] then h else rest)" using s(1) h(1) by (simp_all add: u)
  then have "\<not> is_space (hd u)" "\<not> is_space (last u)" using alnum_facts [OF hd] hostChar_facts [OF last] r(2) by auto
  then have trim: "TrimSpace u = u" by (simp add: TrimSpace_fixed)
  have host: "c \<noteq> CHR ''/'' \<and> c \<noteq> CHR '':''" if "c \<in> set h" for c
    using that h(2) hostChar_facts by (auto simp: list_all_iff)
  have slash: "takeWhile (\<lambda>c. c \<noteq> CHR ''/'') (h @ rest) = h @ takeWhile (\<lambda>c. c \<noteq> CHR ''/'') rest"
    using host by (intro takeWhile_all) simp
  have colon: "takeWhile (\<lambda>c. c \<noteq> CHR '':'') (h @ takeWhile (\<lambda>c. c \<noteq> CHR ''/'') rest) = h"
    using host r(1) by (subst takeWhile_all) (cases rest; auto)+
  have "operand u" using alnum_facts [OF hd] s(1) unfolding u by (cases sch) (auto simp: operand_def)
  moreover have "extractHostFromURL u = h"
    using trim afterFirst_scheme [OF s(2), of "h @ rest"] slash colon s(1) by (simp add: extractHostFromURL_def u)
  ultimately show ?thesis using h(1) by simp
qed

lemma fetch_lifted:
  assumes "(p, out) \<in> {(''curl'', ''-o''), (''wget'', ''-O'')}" and "list_all fetchSwitch sw"
  shows "args \<in> {sw @ [u], sw @ [out, f, u], sw @ [u, out, f]} \<Longrightarrow> urlHost u h \<Longrightarrow> Contacts h \<in> liftedEffects (liftEffects p args noLifted)"
    and "args \<in> {sw @ [out, f, u], sw @ [u, out, f]} \<Longrightarrow> operand u \<Longrightarrow> operand f \<Longrightarrow> TrimSpace f = f \<Longrightarrow>
      Writes f \<in> liftedEffects (liftOutputCarriers p args noLifted)"
proof -
  have flag: "outputFlag out" using assms(1) by (auto simp: outputFlag_def)
  assume u: "args \<in> {sw @ [u], sw @ [out, f, u], sw @ [u, out, f]}" "urlHost u h"
  then have "firstNetworkArg args = u"
    using firstNetworkArg_switches [OF assms(2)] firstNetworkArg_operand [of u] extractHost_spec [OF u(2)] flag
    by (elim insertE emptyE) (simp_all del: firstNetworkArg.simps(2) add: firstNetworkArg.simps(2) [of out])
  moreover have "u \<noteq> []" "extractHostFromURL u = h" "h \<noteq> []" using extractHost_spec [OF u(2)] by (auto dest: operandD)
  ultimately show "Contacts h \<in> liftedEffects (liftEffects p args noLifted)"
    using assms(1) by (auto simp: liftEffects_def liftedEffects_def)
next
  assume u: "args \<in> {sw @ [out, f, u], sw @ [u, out, f]}" and f: "operand u" "operand f" "TrimSpace f = f"
  define long where "long = (if p = ''curl'' then ''--output'' else ''--output-document'')"
  then have long: "(out, long) \<in> {(''-o'', ''--output''), (''-O'', ''--output-document'')}" using assms(1) by auto
  have "flagValue args out long = Some f"
    using u flagValue_switches [OF assms(2) long] flagValue_operand [OF f(1) long]
    by (elim insertE emptyE) (simp_all del: flagValue.simps(2) add: flagValue.simps(2) [of out])
  then show "Writes f \<in> liftedEffects (liftOutputCarriers p args noLifted)"
    using assms(1) carrier_effect [OF f(2,3)] by (elim insertE emptyE) (simp_all add: liftOutputCarriers_def long_def)
qed

lemma file_commands:
  "p \<in> {''cat'', ''head'', ''tail'', ''less'', ''more'', ''bat''} \<Longrightarrow> liftEffects p args res = addReads (literalPaths args) res"
  "p \<in> {''rm'', ''rmdir'', ''shred'', ''unlink''} \<Longrightarrow> liftEffects p args res = addDeletes (literalPaths args) res"
  "p \<in> {''tee'', ''touch'', ''mkdir''} \<Longrightarrow> liftEffects p args res = addWrites (literalPaths args) res"
  "p \<in> {''cp'', ''mv''} \<Longrightarrow> liftEffects p args res =
     (let paths = literalPaths args in if paths \<noteq> [] then addWrites [last paths] (addReads (butlast paths) res) else res)"
  unfolding liftEffects_def by (elim insertE emptyE; simp)+

lemma acts_lifted: "acts argv e \<Longrightarrow> argv \<noteq> [] \<and> e \<in> liftedEffects (ownPerms argv)"
proof (induction rule: acts.induct)
  case (truncates b f args)
  then have "f \<in> set (literalPaths args)" by (simp add: literalPaths_operand)
  from liftedEffects_fold [where f = carrierWrite, OF additive_carrier this] show ?case
    using truncates by (simp add: ownPerms_effects liftOutputCarriers_def carrier_effect)
next
  case (dd b f args)
  have add: "additive (\<lambda>res. if prefix ''of='' arg then carrierWrite (TrimPrefix arg ''of='') res else res)" for arg
    by (rule additive_if additives)+
  have "carrierWrite (TrimPrefix (''of='' @ f) ''of='') noLifted = addWrites [f] noLifted" using dd by (simp add: TrimPrefix_def carrier_effect)
  then show ?case using dd liftedEffects_fold [where f = "\<lambda>arg res. if prefix ''of='' arg then carrierWrite (TrimPrefix arg ''of='') res else res",
      OF add dd(2), of "Writes f" noLifted]
    by (simp add: ownPerms_effects liftOutputCarriers_def)
next
  case (installs b args srcs dst)
  then have "dst \<in> set (filter operand args)" by simp
  then have "operand dst" by simp
  then show ?case using installs by (simp add: ownPerms_effects liftOutputCarriers_def literalPaths_operand carrier_effect)
next
  case (fetches b p out sw args u f h)
  then show ?case using fetch_lifted(1) by (simp add: ownPerms_effects)
next
  case (saves b p out sw args f u)
  then show ?case using fetch_lifted(2) by (simp add: ownPerms_effects)
next
  case (sed_edits b args script f)
  then have "list_ex (\<lambda>arg. arg \<noteq> [] \<and> sedInPlace arg) args" by (auto simp: list_ex_iff sedInPlace_def)
  then show ?case using sed_edits by (simp add: ownPerms_effects liftEffects_def sed_operands)
next
  case (sed_reads b args script f)
  then have "\<not> list_ex (\<lambda>arg. arg \<noteq> [] \<and> sedInPlace arg) args" by (auto simp: list_ex_iff list_all_iff sedInPlace_def)
  then show ?case using sed_reads by (simp add: ownPerms_effects liftEffects_def sed_operands)
qed (simp_all add: ownPerms_effects file_commands literalPaths_operand)

section \<open>No listed effect is hidden\<close>

lemma acts_performs: "acts argv e \<Longrightarrow> \<exists>own. performs P 0 argv own \<and> e \<in> liftedEffects own"
  using acts_lifted performs_self by blast

lemma redirect_lifted:
  "wordMeans w f \<Longrightarrow> f \<noteq> [] \<Longrightarrow> op \<in> {RdrOut, AppOut} \<Longrightarrow> Writes f \<in> liftedEffects (liftRedirect op (Some w) noLifted)"
  "wordMeans w f \<Longrightarrow> f \<noteq> [] \<Longrightarrow> Reads f \<in> liftedEffects (liftRedirect RdrIn (Some w) noLifted)"
  by (auto simp: liftRedirect_def literalWord_means)

lemma does_performs: "does P n argv e \<Longrightarrow> \<exists>own. performs P n argv own \<and> e \<in> liftedEffects own"
proof (induction rule: does.induct)
  case (wrapped argv inner n e)
  then show ?case using wraps_strip [OF wrapped(1)] performs_wrapped by blast
next
  case (shell argv s nodes ws inner n e)
  then show ?case using shellString_read [OF shell(1)] performs_shell literalWords_means [OF shell(5)] by blast
next
  case (redirect_out argv s nodes op w f)
  then show ?case using shellString_read [OF redirect_out(1)] performs_redirect redirect_lifted(1) by blast
next
  case (redirect_in argv s nodes w f)
  then show ?case using shellString_read [OF redirect_in(1)] performs_redirect redirect_lifted(2) by blast
qed (rule acts_performs)

lemma plain_word: "set v \<inter> {CHR 0x5C, CHR ''*'', CHR ''?'', CHR ''['', CHR ''~'', CHR ''{''} = {} \<Longrightarrow> wordMeans [WLit v] v"
  unfolding wordMeans_def by (rule exI [of _ "[v]"]) (simp add: partMeans.intros(1))

text \<open>A parser of one shell line, for the examples.\<close>

definition wParser :: shParser where
  "wParser s = (if s = ''rm a'' then Inr [CallExpr [[WLit ''rm''], [WLit ''a'']]] else Inl (Err ''syntax''))"




section \<open>Gaps\<close>

text \<open>
  Lines with an effect that the lifting misses and does not mark dynamic. The command string of a shell is its first
  operand after the options, so options may stand between \<open>-c\<close> and it; \<open>env -\<close> clears the environment.
\<close>

lemma shell_option_after_c: "shellCommandString [''-c'', ''-e'', ''rm x''] = Some ''-e''"
  by code_simp

lemma env_dash_hides_command: "stripArgvWrapper ''env'' [''-'', ''rm'', ''x''] = Some [''-'', ''rm'', ''x'']"
  by code_simp

text \<open>The value of an option that is not an output option is taken for the address; after \<open>curl -O\<close>, which has no value, the address is skipped; a second address is not lifted.\<close>

lemma curl_option_value_as_host:
  "map np_Host (lp_Network (ownPerms [''curl'', ''-X'', ''POST'', ''http://10.0.0.1/''])) = [''POST'']"
  "lp_Network (ownPerms [''curl'', ''-O'', ''http://10.0.0.1/'']) = []"
  "map np_Host (lp_Network (ownPerms [''curl'', ''http://a.org/'', ''http://10.0.0.1/''])) = [''a.org'']"
  by code_simp+

text \<open>The user information of an address is taken for its host.\<close>

lemma userinfo_as_host: "extractHostFromURL ''http://a.org:x@10.0.0.1/'' = ''a.org''"
  by code_simp

text \<open>Unquoted text is taken as it is written: a home directory, a pattern or an escape stays unexpanded.\<close>

lemma unexpanded_word: "literalWord (Some [WLit ''~/.ssh/id_rsa'']) = Some ''~/.ssh/id_rsa''"
  by code_simp

text \<open>
  The source of a move is lifted as a read; of several files edited in place only the last is lifted; the in-place
  option with a suffix in its long form is not seen; a target directory given as an option is not seen.
\<close>

lemma file_effects_missed:
  "map fp_Action (lp_FileSystem (ownPerms [''mv'', ''a'', ''b''])) = [FileSystemRead, FileSystemWrite]"
  "lp_FileSystem (ownPerms [''sed'', ''-i'', ''s/x/y/'', ''a'', ''b'']) = [fsPerm FileSystemWrite ''b'']"
  "lp_FileSystem (ownPerms [''sed'', ''--in-place=.o'', ''s/x/y/'', ''a'']) = [fsPerm FileSystemRead ''a'']"
  "lp_FileSystem (ownPerms [''cp'', ''-t'', ''d'', ''a'']) = [fsPerm FileSystemRead ''d'', fsPerm FileSystemWrite ''a'']"
  by code_simp+

end
