(* ===== verification/CommandAuth.thy ===== *)
theory CommandAuth
  imports PermChecks CommandSpec
begin

text \<open>
  Authorization of commands (\<open>governance/authorization/command_authorization.go\<close> and
  \<open>command_policy.go\<close>): unwrapping, lifting, the checks of every lifted permission, and the pattern
  decision over the text of the command.

  The permission manager and the process-wide cache of resolved hosts are the state. The \<open>i\<close>-th check
  of a call sees the environment \<open>E i\<close>: the file system, the clock and the resolver at that moment.
  The events that a manager emits are part of the result.
\<close>

section \<open>Data\<close>

record callEnv =
  ce_ev :: evalSymlinks
  ce_clk :: "nat \<Rightarrow> time"
  ce_now :: time
  ce_ts :: time
  ce_net :: netEnv

record BashConfig =
  bc_AllowPatterns :: "string list"
  bc_DenyPatterns :: "string list"
  bc_Default :: Decision

record CommandAuthorizationRequest =
  cq_Command :: "string list"
  cq_Env :: "string list"
  cq_Source :: string

record CommandEvent =
  ev_Kind :: string
  ev_Command :: string
  ev_Wrapper :: string
  ev_Depth :: nat
  ev_Reason :: string
  ev_Actor :: string

fun resolveErr :: "ResolveError \<Rightarrow> goerr" where
  "resolveErr ErrUnresolved = Err ''host did not resolve''"
| "resolveErr (ErrUnresolvedLookup token err) = Err (''host did not resolve: '' @ quote token @ '': '' @ err)"
| "resolveErr (ErrUnresolvedNoRecords token) = Err (''host did not resolve: '' @ quote token @ '': no records'')"
| "resolveErr ErrPrivateResolved = Err ''host resolved to a non-public address''"

section \<open>The checks of the lifted permissions\<close>

fun checkFiles ::
  "(nat \<Rightarrow> callEnv) \<Rightarrow> nat \<Rightarrow> string \<Rightarrow> string \<Rightarrow> FileSystemPermission list \<Rightarrow> PermissionManager \<Rightarrow>
   goerr option \<times> nat \<times> PermissionManager" where
  "checkFiles E i ctxAgent agentID [] m = (None, i, m)"
| "checkFiles E i ctxAgent agentID (perm # perms) m =
     (case CheckFileAccess (ce_ev (E i)) (ce_clk (E i)) (ce_now (E i)) (ce_ts (E i)) ctxAgent agentID (fp_Action perm) (fp_Path perm) m of
        (Some err, m) \<Rightarrow> (Some (Wrap ''semantic filesystem check denied: '' err), i, m)
      | (None, m) \<Rightarrow> checkFiles E (Suc i) ctxAgent agentID perms m)"

fun checkNets ::
  "(nat \<Rightarrow> callEnv) \<Rightarrow> nat \<Rightarrow> string \<Rightarrow> string \<Rightarrow> NetworkPermission list \<Rightarrow> PermissionManager \<Rightarrow> hostCache \<Rightarrow>
   goerr option \<times> nat \<times> PermissionManager \<times> hostCache" where
  "checkNets E i ctxAgent agentID [] m hosts = (None, i, m, hosts)"
| "checkNets E i ctxAgent agentID (net # nets) m hosts =
     (case ResolveTarget (ce_net (E i)) (np_Host net) DefaultResolveOptions hosts of
        (Inl err, hosts) \<Rightarrow> (Some (Wrap ''semantic network check denied: '' (resolveErr err)), i, m, hosts)
      | (Inr target, hosts) \<Rightarrow>
          (case CheckNetwork (ce_clk (E i)) (ce_ts (E i)) ctxAgent agentID (np_Direction net) (np_Protocol net) target (np_Port net) m of
             (Some err, m) \<Rightarrow> (Some (Wrap ''semantic network check denied: '' err), i, m, hosts)
           | (None, m) \<Rightarrow> checkNets E (Suc i) ctxAgent agentID nets m hosts))"

definition execKey :: "string \<Rightarrow> string list \<Rightarrow> string" where
  "execKey binary args = binary @ [CHR 0x00] @ joinWith [CHR 0x00] args"

text \<open>The loop over the executables: a repeated key is skipped, and the base binary is checked with the arguments of the request.\<close>

fun checkExecs ::
  "(nat \<Rightarrow> callEnv) \<Rightarrow> nat \<Rightarrow> string \<Rightarrow> string \<Rightarrow> string \<Rightarrow> string list \<Rightarrow> string list \<Rightarrow> string list \<Rightarrow> ExecutablePermission list \<Rightarrow>
   PermissionManager \<Rightarrow> goerr option \<times> nat \<times> string list \<times> PermissionManager" where
  "checkExecs E i ctxAgent agentID baseBinary baseArgs baseEnv seen [] m = (None, i, seen, m)"
| "checkExecs E i ctxAgent agentID baseBinary baseArgs baseEnv seen (exec # execs) m =
     (let key = execKey (xp_Binary exec) (xp_Args exec) in
      if key \<in> set seen then checkExecs E i ctxAgent agentID baseBinary baseArgs baseEnv seen execs m
      else
        let args = (if xp_Binary exec = baseBinary then baseArgs else xp_Args exec);
            env = (if xp_Binary exec = baseBinary then baseEnv else [])
        in case CheckExecutable (ce_clk (E i)) (ce_now (E i)) (ce_ts (E i)) ctxAgent agentID (xp_Binary exec) args env m of
             (Some err, m) \<Rightarrow> (Some (Wrap ''semantic executable check denied: '' err), i, key # seen, m)
           | (None, m) \<Rightarrow> checkExecs E (Suc i) ctxAgent agentID baseBinary baseArgs baseEnv (key # seen) execs m)"

definition checkLifted ::
  "(nat \<Rightarrow> callEnv) \<Rightarrow> string \<Rightarrow> string \<Rightarrow> string \<Rightarrow> string list \<Rightarrow> string list \<Rightarrow> LiftedPermissions \<Rightarrow> PermissionManager \<Rightarrow>
   hostCache \<Rightarrow> goerr option \<times> PermissionManager \<times> hostCache" where
  "checkLifted E ctxAgent agentID baseBinary baseArgs baseEnv lifted m hosts =
     (case checkFiles E 0 ctxAgent agentID (lp_FileSystem lifted) m of
        (Some err, _, m) \<Rightarrow> (Some err, m, hosts)
      | (None, i, m) \<Rightarrow>
          (case checkNets E i ctxAgent agentID (lp_Network lifted) m hosts of
             (Some err, _, m, hosts) \<Rightarrow> (Some err, m, hosts)
           | (None, i, m, hosts) \<Rightarrow>
               (case checkExecs E i ctxAgent agentID baseBinary baseArgs baseEnv [] (lp_Executables lifted) m of
                  (Some err, _, _, m) \<Rightarrow> (Some err, m, hosts)
                | (None, i, seen, m) \<Rightarrow>
                    if execKey baseBinary baseArgs \<in> set seen then (None, m, hosts)
                    else
                      (case CheckExecutable (ce_clk (E i)) (ce_now (E i)) (ce_ts (E i)) ctxAgent agentID baseBinary baseArgs baseEnv m of
                         (err, m) \<Rightarrow> (err, m, hosts)))))"

section \<open>Escalation\<close>

definition commandApprovalAction :: string where
  "commandApprovalAction = ''command:exec''"

definition commandDescriptor :: "CommandAuthorizationRequest \<Rightarrow> string \<Rightarrow> string \<Rightarrow> PermissionDescriptor" where
  "commandDescriptor req reason commandString =
     \<lparr>dp_Type = PermissionTypeHITL, dp_Action = commandApprovalAction, dp_Resource = commandString,
      dp_Metadata = (''reason'', reason) # (if TrimSpace (cq_Source req) \<noteq> [] then [(''source'', TrimSpace (cq_Source req))] else []),
      dp_RequiresHITL = True\<rparr>"

definition requireCommandApproval ::
  "(nat \<Rightarrow> time) \<Rightarrow> string \<Rightarrow> CommandAuthorizationRequest \<Rightarrow> string \<Rightarrow> string \<Rightarrow> string \<Rightarrow> PermissionManager option \<Rightarrow>
   goerr option \<times> PermissionManager option" where
  "requireCommandApproval clk ctxAgent req reason commandString justification manager =
     (case manager of
        None \<Rightarrow> (Some (Err ''command blocked: approval required but permission manager missing''), None)
      | Some m \<Rightarrow>
          (case RequireApproval clk ctxAgent (commandDescriptor req reason commandString) justification GrantScopeOneTime RiskLevelMedium 0 m of
             (err, m) \<Rightarrow> (err, Some m)))"

definition classifyParseError :: "string \<Rightarrow> string" where
  "classifyParseError text =
     (let msg = ToLower text in
      if strContains msg ''depth'' \<or> strContains msg ''too deep'' then ''depth''
      else if strContains msg ''lexer'' \<or> strContains msg ''invalid'' then ''lexer''
      else ''syntax'')"

definition commandEvent :: "string \<Rightarrow> string \<Rightarrow> string \<Rightarrow> nat \<Rightarrow> string \<Rightarrow> string \<Rightarrow> CommandEvent" where
  "commandEvent kind command wrapper depth reason actor =
     \<lparr>ev_Kind = kind, ev_Command = command, ev_Wrapper = wrapper, ev_Depth = depth, ev_Reason = reason, ev_Actor = actor\<rparr>"

definition emitUnwrapSteps :: "PermissionManager option \<Rightarrow> string \<Rightarrow> string \<Rightarrow> UnwrapStep list \<Rightarrow> CommandEvent list" where
  "emitUnwrapSteps manager agentID command steps =
     (case manager of
        None \<Rightarrow> []
      | Some _ \<Rightarrow> map (\<lambda>step. commandEvent ''wrapper_unwrapped'' command (us_Wrapper step) (us_Depth step) [] agentID) steps)"

definition emitCommandEvent :: "PermissionManager option \<Rightarrow> CommandEvent \<Rightarrow> CommandEvent list" where
  "emitCommandEvent manager event = (case manager of None \<Rightarrow> [] | Some _ \<Rightarrow> [event])"

section \<open>Authorization\<close>

type_synonym authState = "PermissionManager option \<times> hostCache"

text \<open>The last step: the decision of the patterns over the text of the command.\<close>

definition decideCommand ::
  "(nat \<Rightarrow> time) \<Rightarrow> string \<Rightarrow> BashConfig option \<Rightarrow> CommandAuthorizationRequest \<Rightarrow> string \<Rightarrow> PermissionManager option \<Rightarrow>
   goerr option \<times> PermissionManager option" where
  "decideCommand clk ctxAgent bashCfg req commandString manager =
     (case bashCfg of
        None \<Rightarrow> (None, manager)
      | Some cfg \<Rightarrow>
          let decision = DecideCommandByPatterns commandString (bc_AllowPatterns cfg) (bc_DenyPatterns cfg) (bc_Default cfg) in
          if cd_Decision decision = DecisionDeny then (Some (Err ''command blocked: denied by bash_permissions''), manager)
          else if cd_Decision decision = DecisionAsk
          then requireCommandApproval clk ctxAgent req (cd_Reason decision) commandString ''bash permission policy'' manager
          else (None, manager))"

definition commandText :: "CommandAuthorizationRequest \<Rightarrow> string" where
  "commandText req = TrimSpace (joinWith '' '' (cq_Command req))"

text \<open>\<open>errText\<close> is the text of a parser error.\<close>

definition AuthorizeCommand ::
  "shParser \<Rightarrow> (goerr \<Rightarrow> string) \<Rightarrow> (nat \<Rightarrow> callEnv) \<Rightarrow> (nat \<Rightarrow> time) \<Rightarrow> string \<Rightarrow> string \<Rightarrow> BashConfig option \<Rightarrow>
   CommandAuthorizationRequest \<Rightarrow> authState \<Rightarrow> goerr option \<times> authState \<times> CommandEvent list" where
  "AuthorizeCommand P errText E clk ctxAgent agentID bashCfg req s =
     (case s of (manager, hosts) \<Rightarrow>
      if cq_Command req = [] then (Some (Err ''command empty''), s, [])
      else
        let binary = hd (cq_Command req); args = tl (cq_Command req); commandString = commandText req in
        case UnwrapCommand (cq_Command req) of
          (_, steps, unwrapDynamic) \<Rightarrow>
            let unwrapped = emitUnwrapSteps manager agentID commandString steps in
            (case liftCommand P (cq_Command req) noLifted 0 of
               (Some err, _) \<Rightarrow>
                 (case requireCommandApproval clk ctxAgent req ''parse_failed'' commandString
                         (''command could not be statically analyzed '' @ [CHR 0xE2, CHR 0x80, CHR 0x94] @ '' approve to run unreviewed'') manager of
                    (out, manager') \<Rightarrow>
                      (out, (manager', hosts), unwrapped @
                        emitCommandEvent manager (commandEvent ''parse_failed'' commandString [] 0 (classifyParseError (errText err)) agentID)))
             | (None, lifted) \<Rightarrow>
                 if unwrapDynamic \<or> lp_HasDynamic lifted then
                   (case requireCommandApproval clk ctxAgent req ''opaque_wrapper'' commandString
                           ''Command contains dynamic or opaque execution syntax (eval, command substitution, or a code-bearing wrapper)'' manager of
                      (out, manager') \<Rightarrow>
                        (out, (manager', hosts), unwrapped @
                          emitCommandEvent manager (commandEvent ''opaque_constructor'' commandString [] 0 [] agentID)))
                 else
                   (case (case manager of
                            None \<Rightarrow> (None, None, hosts)
                          | Some m \<Rightarrow>
                              (case checkLifted E ctxAgent agentID (commandBase binary) args (cq_Env req) lifted m hosts of
                                 (err, m, hosts) \<Rightarrow> (err, Some m, hosts))) of
                      (Some err, manager, hosts) \<Rightarrow> (Some err, (manager, hosts), unwrapped)
                    | (None, manager, hosts) \<Rightarrow>
                        (case decideCommand clk ctxAgent bashCfg req commandString manager of
                           (out, manager) \<Rightarrow> (out, (manager, hosts), unwrapped)))))"

section \<open>The sandbox policy adapter\<close>

record CommandAuthorizationPolicy =
  ca_agentID :: string
  ca_bashCfg :: "BashConfig option"
  ca_source :: string

definition NewCommandAuthorizationPolicy :: "string \<Rightarrow> BashConfig option \<Rightarrow> string \<Rightarrow> CommandAuthorizationPolicy" where
  "NewCommandAuthorizationPolicy agentID bashCfg source = \<lparr>ca_agentID = agentID, ca_bashCfg = bashCfg, ca_source = source\<rparr>"

definition CheckCommand ::
  "shParser \<Rightarrow> (goerr \<Rightarrow> string) \<Rightarrow> (nat \<Rightarrow> callEnv) \<Rightarrow> (nat \<Rightarrow> time) \<Rightarrow> string \<Rightarrow> CommandAuthorizationPolicy \<Rightarrow> string list \<Rightarrow>
   string list \<Rightarrow> authState \<Rightarrow> goerr option \<times> authState \<times> CommandEvent list" where
  "CheckCommand P errText E clk ctxAgent p args env s =
     AuthorizeCommand P errText E clk ctxAgent (ca_agentID p) (ca_bashCfg p)
       \<lparr>cq_Command = args, cq_Env = env, cq_Source = TrimSpace (ca_source p)\<rparr> s"


section \<open>What the checks keep\<close>

definition confPart where
  "confPart m = (staticPart m, pm_defaultDecision m, pm_fsProtectedRoots m, pm_fsExcludedRoots m)"

lemma conf_frame [simp]:
  "confPart (m\<lparr>pm_grants := g\<rparr>) = confPart m" "confPart (m\<lparr>pm_fsPermCache := fc\<rparr>) = confPart m"
  "confPart (m\<lparr>pm_execPermCache := xc\<rparr>) = confPart m" "confPart (m\<lparr>pm_netPolicy := n\<rparr>) = confPart m"
  "confPart (m\<lparr>pm_runtimePolicyErr := e\<rparr>) = confPart m"
  by (simp_all add: confPart_def)

lemma conf_ensure [simp]: "confPart (snd (ensureGrant clk ag d m)) = confPart m"
  using ensureGrant_shape [of clk ag d m] by auto

lemma conf_undeclared [simp]: "confPart (snd (undeclared clk ag d reason m)) = confPart m"
  by (simp add: undeclared_def)

lemma conf_gated [simp]: "confPart (snd (if asks then ensureGrant clk ag d m else (None, m))) = confPart m"
  by simp

lemma conf_find_fs: "findFilesystemPermission now action path m = (found, m') \<Longrightarrow> confPart m' = confPart m"
  by (auto simp: findFilesystemPermission_def Let_def split: if_splits prod.splits option.splits)

lemma conf_find_exec: "findExecutablePermission now binary m = (found, m') \<Longrightarrow> confPart m' = confPart m"
  by (auto simp: findExecutablePermission_def Let_def split: prod.splits option.splits)

lemma conf_file: "confPart (snd (CheckFileAccess ev clk now ts ag agentID action path m)) = confPart m"
proof (cases "normalizePath ev m path")
  case (Inr clean)
  obtain found m' where f: "findFilesystemPermission now action clean m = (found, m')" by fastforce
  from conf_find_fs [OF f] show ?thesis by (simp add: CheckFileAccess_def Inr f split: option.split)
qed (simp add: CheckFileAccess_def)

lemma conf_exec: "confPart (snd (CheckExecutable clk now ts ag agentID binary args env m)) = confPart m"
proof -
  obtain found m' where f: "findExecutablePermission now binary m = (found, m')" by fastforce
  from conf_find_exec [OF f] show ?thesis by (simp add: CheckExecutable_def f split: option.split)
qed

lemma conf_net: "confPart (snd (CheckNetwork clk ts ag agentID dir proto target port m)) = confPart m"
proof (cases "findNetworkPermission dir proto (tg_Token target) port m")
  case (Some perm)
  let ?d = "descriptor PermissionTypeNetwork (''net:'' @ dir @ '':'' @ proto) (tg_Token target @ '':'' @ fmtInt port) True"
  obtain err m' where g: "(if np_HITLRequired perm then ensureGrant clk ag ?d m else (None, m)) = (err, m')" by fastforce
  then have "confPart m' = confPart m" using conf_gated [of "np_HITLRequired perm" clk ag ?d m] by simp
  then show ?thesis unfolding CheckNetwork_def Let_def Some option.case g
    by (simp add: recordNetworkRule_def applyRuntimePolicyLocked_def split: option.split)
qed (simp add: CheckNetwork_def Let_def)

lemma confD:
  assumes "confPart m' = confPart m"
  shows "pm_basePath m' = pm_basePath m" "pm_declared m' = pm_declared m" "effectiveDefaultDecision m' = effectiveDefaultDecision m"
    "normalizePath ev m' path = normalizePath ev m path" "fsVerdict m' action path = fsVerdict m action path"
    "execDeclared m' binary = execDeclared m binary"
    "findNetworkPermission dir proto host port m' = findNetworkPermission dir proto host port m"
proof -
  from assms have eq: "pm_basePath m' = pm_basePath m" "pm_declared m' = pm_declared m" "pm_defaultDecision m' = pm_defaultDecision m"
    "pm_fsProtectedRoots m' = pm_fsProtectedRoots m" "pm_fsExcludedRoots m' = pm_fsExcludedRoots m"
    by (simp_all add: confPart_def staticPart_def)
  then show "pm_basePath m' = pm_basePath m" "pm_declared m' = pm_declared m" "effectiveDefaultDecision m' = effectiveDefaultDecision m"
    "normalizePath ev m' path = normalizePath ev m path" "fsVerdict m' action path = fsVerdict m action path"
    "execDeclared m' binary = execDeclared m binary"
    "findNetworkPermission dir proto host port m' = findNetworkPermission dir proto host port m"
    by (simp_all add: effectiveDefaultDecision_def normalizePath_def fsVerdict_def isFilesystemProtectedPath_def
        filesystemGuardRootsSnapshot_def execDeclared_def findNetworkPermission_def)
qed

section \<open>What a passed check shows\<close>

text \<open>Under a default that denies, a passed check rests on a declaration.\<close>

abbreviation denies :: "PermissionManager \<Rightarrow> bool" where
  "denies m \<equiv> effectiveDefaultDecision m = DecisionDeny"

text \<open>Some check of the call, the \<open>k\<close>-th of \<open>K\<close>, found the path in the workspace.\<close>

definition fileOk :: "(nat \<Rightarrow> callEnv) \<Rightarrow> nat \<Rightarrow> PermissionManager \<Rightarrow> string \<Rightarrow> string \<Rightarrow> bool" where
  "fileOk E K m action path \<longleftrightarrow>
     (\<exists>k p. k < K \<and> p = linkResolved (ce_ev (E k)) (namedPath (pm_basePath m) path) \<and> inWorkspace (pm_basePath m) p \<and>
        (denies m \<longrightarrow> fsVerdict m action p \<noteq> None))"

text \<open>
  A host is public at the \<open>k\<close>-th check: it is a literal public address, or the resolver gave only public addresses
  for it, in this call or in one of the \<open>calls\<close> before it, and the answer had not expired at that check.
\<close>

definition publicAt :: "(nat \<Rightarrow> callEnv) \<Rightarrow> resolveCall list \<Rightarrow> nat \<Rightarrow> string \<Rightarrow> bool" where
  "publicAt E calls k host \<longleftrightarrow>
     (\<exists>ip. ParseHostToken (TrimSpace host) = Some ip \<and> ClassifyIP ip = ClassPublic) \<or>
     (\<exists>call ips expiry. (call \<in> set calls \<or> (\<exists>j h. j \<le> k \<and> call = (ce_net (E j), h, DefaultResolveOptions))) \<and>
        answered call (ToLower (TrimSpace host)) ips expiry \<and> env_Now (ce_net (E k)) < expiry \<and> (\<forall>ip \<in> set ips. ClassifyIP ip = ClassPublic))"

definition netOk :: "(nat \<Rightarrow> callEnv) \<Rightarrow> nat \<Rightarrow> resolveCall list \<Rightarrow> PermissionManager \<Rightarrow> NetworkPermission \<Rightarrow> bool" where
  "netOk E K calls m net \<longleftrightarrow>
     (\<exists>k < K. publicAt E calls k (np_Host net) \<and>
        (denies m \<longrightarrow> findNetworkPermission (np_Direction net) (np_Protocol net) (TrimSpace (np_Host net)) (np_Port net) m \<noteq> None))"

definition execOk :: "PermissionManager \<Rightarrow> string \<Rightarrow> bool" where
  "execOk m binary \<longleftrightarrow> (denies m \<longrightarrow> execDeclared m binary)"

lemma ok_conf:
  assumes "confPart m' = confPart m"
  shows "fileOk E K m' action path = fileOk E K m action path" "netOk E K calls m' net = netOk E K calls m net" "execOk m' binary = execOk m binary"
  by (simp_all add: fileOk_def netOk_def execOk_def confD [OF assms])

lemma ok_mono: "fileOk E K m action path \<Longrightarrow> K \<le> K' \<Longrightarrow> fileOk E K' m action path" "netOk E K calls m net \<Longrightarrow> K \<le> K' \<Longrightarrow> netOk E K' calls m net"
  unfolding fileOk_def netOk_def using less_le_trans by blast+

lemma checked_file:
  assumes "manager_ok m" and "fp_Action perm \<in> set fileActions" and "IsAbs (pm_basePath m)"
    and "fst (CheckFileAccess (ce_ev (E i)) clk now ts ag agentID (fp_Action perm) (fp_Path perm) m) = None"
  shows "fileOk E (Suc i) m (fp_Action perm) (fp_Path perm)"
proof (cases "normalizePath (ce_ev (E i)) m (fp_Path perm)")
  case (Inl err)
  with assms(4) show ?thesis by (simp add: CheckFileAccess_def)
next
  case (Inr clean)
  have "fileGranted clk ts agentID (fp_Action perm) clean m"
    using CheckFileAccess_iff [OF _ _ assms(2) Inr] assms by (simp add: manager_ok_def)
  then have "denies m \<longrightarrow> fsVerdict m (fp_Action perm) clean \<noteq> None" by (auto simp: fileGranted_def split: option.splits)
  with Inr show ?thesis using normalizePath_spec [OF assms(3)] unfolding fileOk_def by blast
qed

text \<open>The host cache rests on the calls made before the \<open>i\<close>-th check.\<close>

definition cacheFrom :: "(nat \<Rightarrow> callEnv) \<Rightarrow> resolveCall list \<Rightarrow> nat \<Rightarrow> hostCache \<Rightarrow> bool" where
  "cacheFrom E calls i hosts \<longleftrightarrow>
     (\<exists>cs. entriesFrom cs hosts \<and> (\<forall>call \<in> set cs. call \<in> set calls \<or> (\<exists>j h. j < i \<and> call = (ce_net (E j), h, DefaultResolveOptions))))"

lemma cacheFrom_start: "cacheFrom E calls i (resolveAll calls [])"
  unfolding cacheFrom_def by (rule exI [of _ "rev calls"]) (use entriesFrom_all [of "[]" "[]" calls] in \<open>simp add: entriesFrom_def\<close>)

lemma cacheFrom_step: "cacheFrom E calls i hosts \<Longrightarrow> cacheFrom E calls (Suc i) (snd (ResolveTarget (ce_net (E i)) h DefaultResolveOptions hosts))"
  unfolding cacheFrom_def
proof (elim exE conjE)
  fix cs
  assume cs: "entriesFrom cs hosts" "\<forall>call \<in> set cs. call \<in> set calls \<or> (\<exists>j h. j < i \<and> call = (ce_net (E j), h, DefaultResolveOptions))"
  show "\<exists>cs. entriesFrom cs (snd (ResolveTarget (ce_net (E i)) h DefaultResolveOptions hosts)) \<and>
      (\<forall>call \<in> set cs. call \<in> set calls \<or> (\<exists>j h. j < Suc i \<and> call = (ce_net (E j), h, DefaultResolveOptions)))"
    using entriesFrom_step [OF cs(1), of "ce_net (E i)" h DefaultResolveOptions] cs(2)
    by (intro exI [of _ "(ce_net (E i), h, DefaultResolveOptions) # cs"]) (metis less_Suc_eq set_ConsD)
qed

lemma resolved_public:
  assumes "cacheFrom E calls i hosts" and "fst (ResolveTarget (ce_net (E i)) host DefaultResolveOptions hosts) = Inr target"
    and "tg_Class target = ClassPublic"
  shows "publicAt E calls i host \<and> tg_Token target = TrimSpace host"
proof -
  have tok: "tg_Token target = TrimSpace host"
    using assms(2) by (auto simp: ResolveTarget_def Let_def split: option.splits prod.splits if_splits)
  have now: "the (ro_Now (norm env DefaultResolveOptions)) = env_Now env" for env
    by (simp add: norm_def DefaultResolveOptions_def second_def Let_def)
  show ?thesis
  proof (cases "tg_Literal target")
    case True
    then show ?thesis using assms(2,3) tok
      by (auto simp: publicAt_def ResolveTarget_def Let_def split: option.splits prod.splits if_splits)
  next
    case False
    obtain cs where cs: "entriesFrom cs hosts" "\<forall>call \<in> set cs. call \<in> set calls \<or> (\<exists>j h. j < i \<and> call = (ce_net (E j), h, DefaultResolveOptions))"
      using assms(1) unfolding cacheFrom_def by blast
    obtain call ips expiry where a: "call \<in> set ((ce_net (E i), host, DefaultResolveOptions) # cs)" "answered call (ToLower (TrimSpace host)) ips expiry"
        "env_Now (ce_net (E i)) < expiry" "\<forall>ip \<in> set ips. ClassifyIP ip = ClassPublic"
      using public_answer [OF cs(1) assms(2,3) False] by (auto simp only: now)
    have "call \<in> set calls \<or> (\<exists>j h. j \<le> i \<and> call = (ce_net (E j), h, DefaultResolveOptions))"
      using a(1) cs(2) less_imp_le by (metis le_refl set_ConsD)
    with a(2-4) tok show ?thesis unfolding publicAt_def by blast
  qed
qed

lemma checked_net:
  assumes "manager_ok m" and "cacheFrom E calls i hosts"
    and "ResolveTarget (ce_net (E i)) (np_Host net) DefaultResolveOptions hosts = (Inr target, hosts')"
    and "fst (CheckNetwork clk ts ag agentID (np_Direction net) (np_Protocol net) target (np_Port net) m) = None"
  shows "netOk E (Suc i) calls m net"
proof -
  have pub: "tg_Class target = ClassPublic" and g: "networkGranted clk ts agentID (np_Direction net) (np_Protocol net) (tg_Token target) (np_Port net) m"
    using assms CheckNetwork_spec(1) by (auto simp: manager_ok_def)
  note r = resolved_public [OF assms(2) _ pub, of "np_Host net"]
  show ?thesis using r assms(3) g unfolding netOk_def networkGranted_def
    by (intro exI [of _ i]) (auto split: option.splits)
qed

lemma checked_exec:
  assumes "manager_ok m" and "fst (CheckExecutable clk now ts ag agentID binary args env m) = None"
  shows "execOk m binary"
proof -
  have "execGranted clk ts agentID binary args env (fst (findExecutablePermission now binary m)) m"
    using assms CheckExecutable_iff by blast
  moreover have "exec_ok m" using assms(1) by (simp add: manager_ok_def)
  ultimately show ?thesis using find_exec_spec(3) [of m now binary]
    by (auto simp: execOk_def execDeclared_def execGranted_def split: option.splits)
qed


section \<open>Passed sequences of checks\<close>

lemma checkFiles_sound:
  "checkFiles E i ag agentID perms m = (None, j, m') \<Longrightarrow> manager_ok m \<Longrightarrow> IsAbs (pm_basePath m) \<Longrightarrow>
   \<forall>perm \<in> set perms. fp_Action perm \<in> set fileActions \<Longrightarrow>
   manager_ok m' \<and> confPart m' = confPart m \<and> j = i + length perms \<and> (\<forall>perm \<in> set perms. fileOk E j m (fp_Action perm) (fp_Path perm))"
proof (induction E i ag agentID perms m rule: checkFiles.induct)
  case (2 E i ag agentID perm perms m)
  let ?c = "CheckFileAccess (ce_ev (E i)) (ce_clk (E i)) (ce_now (E i)) (ce_ts (E i)) ag agentID (fp_Action perm) (fp_Path perm) m"
  obtain m1 where c: "?c = (None, m1)" and rest: "checkFiles E (Suc i) ag agentID perms m1 = (None, j, m')"
    using "2.prems"(1) by (auto split: prod.splits option.splits)
  have ok: "manager_ok m1" using manager_ok_file [OF "2.prems"(2)] "2.prems"(4) c by (metis list.set_intros(1) snd_conv)
  have same: "confPart m1 = confPart m" using conf_file c by (metis snd_conv)
  have base: "IsAbs (pm_basePath m1)" using confD(1) [OF same] "2.prems"(3) by simp
  have f: "fileOk E (Suc i) m (fp_Action perm) (fp_Path perm)"
    using checked_file [OF "2.prems"(2) _ "2.prems"(3), of perm E i] c "2.prems"(4) by (metis fst_conv list.set_intros(1))
  have "manager_ok m' \<and> confPart m' = confPart m1 \<and> j = Suc i + length perms \<and> (\<forall>perm \<in> set perms. fileOk E j m1 (fp_Action perm) (fp_Path perm))"
    using "2.IH" [OF c [symmetric] refl rest ok base] "2.prems"(4) by auto
  then show ?case using same ok_conf(1) [OF same] ok_mono(1) [OF f, of j] by auto
qed simp

lemma checkNets_sound:
  "checkNets E i ag agentID nets m hosts = (None, j, m', hosts') \<Longrightarrow> manager_ok m \<Longrightarrow> cacheFrom E calls i hosts \<Longrightarrow>
   manager_ok m' \<and> confPart m' = confPart m \<and> j = i + length nets \<and> (\<forall>net \<in> set nets. netOk E j calls m net)"
proof (induction E i ag agentID nets m hosts rule: checkNets.induct)
  case (2 E i ag agentID net nets m hosts)
  obtain target hosts1 where r: "ResolveTarget (ce_net (E i)) (np_Host net) DefaultResolveOptions hosts = (Inr target, hosts1)"
    using "2.prems"(1) by (auto split: prod.splits sum.splits)
  let ?c = "CheckNetwork (ce_clk (E i)) (ce_ts (E i)) ag agentID (np_Direction net) (np_Protocol net) target (np_Port net) m"
  obtain m1 where c: "?c = (None, m1)" and rest: "checkNets E (Suc i) ag agentID nets m1 hosts1 = (None, j, m', hosts')"
    using "2.prems"(1) r by (auto split: prod.splits option.splits)
  have ok: "manager_ok m1" using manager_ok_net [OF "2.prems"(2)] c by (metis snd_conv)
  have same: "confPart m1 = confPart m" using conf_net c by (metis snd_conv)
  have n: "netOk E (Suc i) calls m net" using checked_net [OF "2.prems"(2,3) r] c by (metis fst_conv)
  have from1: "cacheFrom E calls (Suc i) hosts1" using cacheFrom_step [OF "2.prems"(3), of "np_Host net"] r by simp
  have "manager_ok m' \<and> confPart m' = confPart m1 \<and> j = Suc i + length nets \<and> (\<forall>net \<in> set nets. netOk E j calls m1 net)"
    using "2.IH" [OF r [symmetric] refl c [symmetric] refl rest ok from1] .
  then show ?case using same ok_conf(2) [OF same] ok_mono(2) [OF n, of j] by auto
qed simp

text \<open>A key determines its binary when no binary holds a zero byte.\<close>

abbreviation nulFree :: "ExecutablePermission \<Rightarrow> bool" where
  "nulFree x \<equiv> CHR 0x00 \<notin> set (xp_Binary x)"

lemma execKey_binary: "CHR 0x00 \<notin> set binary \<Longrightarrow> takeWhile (\<lambda>c. c \<noteq> CHR 0x00) (execKey binary args) = binary"
  unfolding execKey_def by (subst takeWhile_append2) auto

definition keyOk :: "PermissionManager \<Rightarrow> string \<Rightarrow> bool" where
  "keyOk m key \<longleftrightarrow> execOk m (takeWhile (\<lambda>c. c \<noteq> CHR 0x00) key)"

lemma checkExecs_sound:
  "checkExecs E i ag agentID bb ba be seen execs m = (None, j, seen', m') \<Longrightarrow> manager_ok m \<Longrightarrow> \<forall>x \<in> set execs. nulFree x \<Longrightarrow>
   \<forall>key \<in> set seen. keyOk m key \<Longrightarrow>
   manager_ok m' \<and> confPart m' = confPart m \<and> (\<forall>x \<in> set execs. execOk m (xp_Binary x))"
proof (induction E i ag agentID bb ba be seen execs m rule: checkExecs.induct)
  case (2 E i ag agentID bb ba be seen exec execs m)
  let ?key = "execKey (xp_Binary exec) (xp_Args exec)"
  have key: "keyOk m ?key = execOk m (xp_Binary exec)" using "2.prems"(3) by (simp add: keyOk_def execKey_binary)
  show ?case
  proof (cases "?key \<in> set seen")
    case True
    then have "checkExecs E i ag agentID bb ba be seen execs m = (None, j, seen', m')" using "2.prems"(1) by (simp add: Let_def)
    then show ?thesis using "2.IH"(1) [OF refl True] "2.prems"(2-4) key True by auto
  next
    case False
    let ?args = "if xp_Binary exec = bb then ba else xp_Args exec" and ?env = "if xp_Binary exec = bb then be else []"
    let ?c = "CheckExecutable (ce_clk (E i)) (ce_now (E i)) (ce_ts (E i)) ag agentID (xp_Binary exec) ?args ?env m"
    obtain m1 where c: "?c = (None, m1)" and rest: "checkExecs E (Suc i) ag agentID bb ba be (?key # seen) execs m1 = (None, j, seen', m')"
      using "2.prems"(1) False by (auto simp: Let_def split: prod.splits option.splits)
    have ok: "manager_ok m1" using manager_ok_exec [OF "2.prems"(2)] c by (metis snd_conv)
    have same: "confPart m1 = confPart m" using conf_exec c by (metis snd_conv)
    have this_ok: "execOk m (xp_Binary exec)" using checked_exec [OF "2.prems"(2)] c by (metis fst_conv)
    have "\<forall>key \<in> set (?key # seen). keyOk m1 key" using this_ok key "2.prems"(4) ok_conf(3) [OF same] by (simp add: keyOk_def)
    then show ?thesis
      using "2.IH"(2) [OF refl False refl refl c [symmetric] refl rest ok] "2.prems"(3) same this_ok ok_conf(3) [OF same] by simp
  qed
qed simp

definition confined :: "(nat \<Rightarrow> callEnv) \<Rightarrow> nat \<Rightarrow> resolveCall list \<Rightarrow> PermissionManager \<Rightarrow> LiftedPermissions \<Rightarrow> bool" where
  "confined E K calls m own \<longleftrightarrow>
     (\<forall>perm \<in> set (lp_FileSystem own). fileOk E K m (fp_Action perm) (fp_Path perm)) \<and> (\<forall>net \<in> set (lp_Network own). netOk E K calls m net) \<and>
     (\<forall>x \<in> set (lp_Executables own). execOk m (xp_Binary x))"

lemma checkLifted_sound:
  assumes "checkLifted E ag agentID bb ba be lifted m (resolveAll calls []) = (None, m', hosts')" and "manager_ok m" and "IsAbs (pm_basePath m)"
    and "\<forall>perm \<in> set (lp_FileSystem lifted). fp_Action perm \<in> set fileActions" and "\<forall>x \<in> set (lp_Executables lifted). nulFree x"
  shows "confined E (length (lp_FileSystem lifted) + length (lp_Network lifted)) calls m lifted \<and> manager_ok m'"
proof -
  obtain i m1 where f: "checkFiles E 0 ag agentID (lp_FileSystem lifted) m = (None, i, m1)"
    using assms(1) by (auto simp: checkLifted_def split: prod.splits option.splits)
  note files = checkFiles_sound [OF f assms(2-4)]
  obtain j m2 hosts2 where n: "checkNets E i ag agentID (lp_Network lifted) m1 (resolveAll calls []) = (None, j, m2, hosts2)"
    using assms(1) f by (auto simp: checkLifted_def split: prod.splits option.splits)
  note nets = checkNets_sound [OF n _ cacheFrom_start]
  obtain k seen m3 where x: "checkExecs E j ag agentID bb ba be [] (lp_Executables lifted) m2 = (None, k, seen, m3)"
    using assms(1) f n by (auto simp: checkLifted_def split: prod.splits option.splits)
  note execs = checkExecs_sound [OF x]
  have same: "confPart m1 = confPart m" "confPart m2 = confPart m" using files nets by auto
  have m3: "manager_ok m3" using files nets execs assms(5) by simp
  have "m' \<in> {m3, snd (CheckExecutable (ce_clk (E k)) (ce_now (E k)) (ce_ts (E k)) ag agentID bb ba be m3)}"
    using assms(1) f n x by (auto simp: checkLifted_def split: if_splits prod.splits)
  then have "manager_ok m'" using m3 manager_ok_exec by blast
  moreover have "fileOk E (length (lp_FileSystem lifted) + length (lp_Network lifted)) m (fp_Action perm) (fp_Path perm)"
    if "perm \<in> set (lp_FileSystem lifted)" for perm using files that ok_mono(1) by auto
  ultimately show ?thesis using files nets execs assms(5) ok_conf [OF same(1)] ok_conf [OF same(2)] by (auto simp: confined_def)
qed

text \<open>Every lifted file permission carries an action of the vocabulary.\<close>

definition knownActions :: "LiftedPermissions \<Rightarrow> bool" where
  "knownActions r \<longleftrightarrow> (\<forall>perm \<in> set (lp_FileSystem r). fp_Action perm \<in> set fileActions)"

lemma known_atoms [simp]:
  "knownActions noLifted" "knownActions (dynamic r) = knownActions r" "knownActions (addExec b args r) = knownActions r"
  "knownActions (r\<lparr>lp_HasDynamic := d\<rparr>) = knownActions r" "knownActions (r\<lparr>lp_Network := n\<rparr>) = knownActions r"
  "action \<in> set fileActions \<Longrightarrow> knownActions (addFs action paths r) = knownActions r"
  by (auto simp: knownActions_def noLifted_def dynamic_def addExec_def addFs_def fsPerm_def)

lemma known_file_actions [simp]: "FileSystemRead \<in> set fileActions" "FileSystemWrite \<in> set fileActions" "FileSystemDelete \<in> set fileActions"
  by (simp_all add: fileActions_def)

lemma known_carrier: "knownActions r \<Longrightarrow> knownActions (carrierWrite path r)"
  by (simp add: carrierWrite_def Let_def)

lemma known_fold: "(\<And>x r. knownActions r \<Longrightarrow> knownActions (f x r)) \<Longrightarrow> knownActions r \<Longrightarrow> knownActions (fold f xs r)"
  by (induction xs arbitrary: r) simp_all

lemma known_cases:
  "knownActions x \<Longrightarrow> knownActions y \<Longrightarrow> knownActions (if b then x else y)"
  "knownActions x \<Longrightarrow> (\<And>v. knownActions (g v)) \<Longrightarrow> knownActions (case o' of None \<Rightarrow> x | Some v \<Rightarrow> g v)"
  by (simp_all split: option.split)

lemma known_effects: "knownActions r \<Longrightarrow> knownActions (liftEffects binary args r)"
  unfolding liftEffects_def Let_def by (intro known_cases) simp_all

lemma known_plain: "knownActions r \<Longrightarrow> knownActions (liftPlain binary args r)"
proof -
  assume r: "knownActions r"
  have "knownActions (liftOutputCarriers binary args r)"
    unfolding liftOutputCarriers_def Let_def
    by (intro known_cases known_fold known_carrier r)
  then show ?thesis unfolding liftPlain_def by (simp add: known_effects)
qed

lemma known_redirect: "knownActions r \<Longrightarrow> knownActions (liftRedirect op w r)"
  by (cases op) (simp_all add: liftRedirect_def split: option.split)

lemma known_lift:
  "knownActions res \<Longrightarrow> knownActions (snd (liftShellString P cmdStr res depth))"
  "knownActions res \<Longrightarrow> knownActions (liftNodes P nodes res depth)"
  "knownActions res \<Longrightarrow> knownActions (liftCallExpr P ws res depth)"
  "knownActions res \<Longrightarrow> knownActions (snd (liftCommand P argv res depth))"
proof (induction P cmdStr res depth and P nodes res depth and P ws res depth and P argv res depth
    rule: liftShellString_liftNodes_liftCallExpr_liftCommand.induct)
  case (1 P cmdStr res depth)
  then show ?case by (auto simp: liftShellString.simps split: sum.splits)
next
  case (3 P node nodes res depth)
  then show ?case by (cases node) (simp_all add: known_redirect)
next
  case (4 P ws res depth)
  then show ?case by (auto simp: liftCallExpr.simps split: option.splits)
next
  case (5 P argv res depth)
  let ?shell = "if isShellBinary (commandBase (hd argv)) then shellCommandString (tl argv) else None"
  show ?case
  proof (cases "argv = [] \<or> depth > maxUnwrapDepth \<or> isOpaqueConstructor (commandBase (hd argv)) (tl argv)")
    case True
    then show ?thesis using "5.prems" by (auto simp: liftCommand.simps)
  next
    case False
    then have no: "argv \<noteq> []" "\<not> maxUnwrapDepth < depth" "\<not> isOpaqueConstructor (commandBase (hd argv)) (tl argv)" by auto
    show ?thesis
    proof (cases ?shell)
      case (Some s)
      have "liftCommand P argv res depth = liftShellString P s (addExec (commandBase (hd argv)) (tl argv) res) (depth + 1)"
        by (subst liftCommand.simps) (simp only: no Some if_False option.case)
      then show ?thesis using "5.IH"(2) [OF no Some] "5.prems" by simp
    next
      case None
      show ?thesis
      proof (cases "stripArgvWrapper (commandBase (hd argv)) (tl argv)")
        case None
        have "liftCommand P argv res depth = (None, liftPlain (commandBase (hd argv)) (tl argv) res)"
          by (subst liftCommand.simps) (simp only: no None \<open>?shell = None\<close> if_False option.case)
        then show ?thesis using "5.prems" by (simp add: known_plain)
      next
        case (Some inner)
        have "liftCommand P argv res depth = liftCommand P inner (addExec (commandBase (hd argv)) (tl argv) res) (depth + 1)"
          by (subst liftCommand.simps) (simp only: no Some \<open>?shell = None\<close> if_False option.case)
        then show ?thesis using "5.IH"(1) [OF no \<open>?shell = None\<close> Some] "5.prems" by simp
      qed
    qed
  qed
qed simp

section \<open>A command that passes\<close>


section \<open>A command that passes\<close>

text \<open>What the passed checks of a call show of an effect.\<close>

fun effectOk :: "(nat \<Rightarrow> callEnv) \<Rightarrow> nat \<Rightarrow> resolveCall list \<Rightarrow> PermissionManager \<Rightarrow> cmdEffect \<Rightarrow> bool" where
  "effectOk E K calls m (Runs prog args) = (denies m \<longrightarrow> execDeclared m prog)"
| "effectOk E K calls m (Reads path) = fileOk E K m FileSystemRead path"
| "effectOk E K calls m (Writes path) = fileOk E K m FileSystemWrite path"
| "effectOk E K calls m (Deletes path) = fileOk E K m FileSystemDelete path"
| "effectOk E K calls m (Contacts host) =
     (\<exists>k < K. publicAt E calls k host \<and> (denies m \<longrightarrow> findNetworkPermission ''egress'' ''tcp'' (TrimSpace host) 0 m \<noteq> None))"

lemma confined_effect: "confined E K calls m r \<Longrightarrow> e \<in> liftedEffects r \<Longrightarrow> effectOk E K calls m e"
  by (cases e) (fastforce simp: confined_def liftedEffects_def fsPerm_def execPerm_def execOk_def netOk_def)+

text \<open>The escalations of a command that cannot be analysed: the reason and the justification put to the approver.\<close>

definition escalations :: "(string \<times> string) list" where
  "escalations =
     [(''parse_failed'', ''command could not be statically analyzed '' @ [CHR 0xE2, CHR 0x80, CHR 0x94] @ '' approve to run unreviewed''),
      (''opaque_wrapper'', ''Command contains dynamic or opaque execution syntax (eval, command substitution, or a code-bearing wrapper)'')]"

definition commandRequest :: "CommandAuthorizationRequest \<Rightarrow> string \<Rightarrow> string \<Rightarrow> PermissionRequest" where
  "commandRequest req reason justification =
     newRequest (commandDescriptor req reason (commandText req)) justification GrantScopeOneTime 0 RiskLevelMedium"

lemma requireCommandApproval_sound:
  assumes "grants_ok m" and "fst (requireCommandApproval clk ag req reason (commandText req) j (Some m)) = None"
  shows "humanApproved clk (commandRequest req reason j) m"
proof -
  have "fst (RequireApproval clk ag (commandDescriptor req reason (commandText req)) j GrantScopeOneTime RiskLevelMedium 0 m) = None"
    using assms(2) by (auto simp: requireCommandApproval_def split: prod.splits)
  from RequireApproval_sound [OF assms(1) this] show ?thesis by (simp add: commandRequest_def commandDescriptor_def)
qed

text \<open>What authorization comes down to: approval of the escalation, or the checks and the pattern decision.\<close>

lemma AuthorizeCommand_cases:
  assumes "fst (AuthorizeCommand P errText E clk ag agentID cfg req (Some m, hosts)) = None" and "manager_ok m"
  obtains (escalated) reason j where "(reason, j) \<in> set escalations" "humanApproved clk (commandRequest req reason j) m"
  | (checked) lifted m' hosts' where "liftCommand P (cq_Command req) noLifted 0 = (None, lifted)" "\<not> lp_HasDynamic lifted"
      "checkLifted E ag agentID (commandBase (hd (cq_Command req))) (tl (cq_Command req)) (cq_Env req) lifted m hosts = (None, m', hosts')"
      "fst (decideCommand clk ag cfg req (commandText req) (Some m')) = None"
proof -
  have g: "grants_ok m" using assms(2) by (simp add: manager_ok_def)
  have ne: "cq_Command req \<noteq> []" using assms(1) by (auto simp: AuthorizeCommand_def)
  obtain inner steps dyn where u: "UnwrapCommand (cq_Command req) = (inner, steps, dyn)" by (rule prod_cases3)
  obtain err lifted where l: "liftCommand P (cq_Command req) noLifted 0 = (err, lifted)" by fastforce
  note a = assms(1) [unfolded AuthorizeCommand_def prod.case Let_def u l]
  show thesis
  proof (cases err)
    case (Some e)
    with a ne have "fst (requireCommandApproval clk ag req ''parse_failed'' (commandText req)
       (''command could not be statically analyzed '' @ [CHR 0xE2, CHR 0x80, CHR 0x94] @ '' approve to run unreviewed'') (Some m)) = None"
      by (auto split: prod.splits)
    from requireCommandApproval_sound [OF g this] show ?thesis by (rule escalated [rotated]) (simp add: escalations_def)
  next
    case None
    show ?thesis
    proof (cases "dyn \<or> lp_HasDynamic lifted")
      case True
      with a ne None have "fst (requireCommandApproval clk ag req ''opaque_wrapper'' (commandText req)
         ''Command contains dynamic or opaque execution syntax (eval, command substitution, or a code-bearing wrapper)'' (Some m)) = None"
        by (auto split: prod.splits)
      from requireCommandApproval_sound [OF g this] show ?thesis by (rule escalated [rotated]) (simp add: escalations_def)
    next
      case False
      obtain e' m' hosts' where c: "checkLifted E ag agentID (commandBase (hd (cq_Command req))) (tl (cq_Command req)) (cq_Env req) lifted m hosts =
        (e', m', hosts')" by (rule prod_cases3)
      have "e' = None" "fst (decideCommand clk ag cfg req (commandText req) (Some m')) = None"
        using a ne None False by (auto simp: c split: prod.splits option.splits)
      then show ?thesis using checked l None False c by blast
    qed
  qed
qed

lemma decideCommand_sound:
  assumes "manager_ok m" and "fst (decideCommand clk ag (Some c) req (commandText req) (Some m)) = None"
  defines "dcn \<equiv> DecideCommandByPatterns (commandText req) (bc_AllowPatterns c) (bc_DenyPatterns c) (bc_Default c)"
  shows "cd_Decision dcn \<noteq> DecisionDeny \<and>
    (cd_Decision dcn = DecisionAsk \<longrightarrow> humanApproved clk (commandRequest req (cd_Reason dcn) ''bash permission policy'') m)"
  using assms requireCommandApproval_sound [of m clk ag req "cd_Reason dcn" "''bash permission policy''"]
  by (auto simp: decideCommand_def Let_def manager_ok_def split: if_splits)

text \<open>The checks that authorization makes of the files and hosts of a command, and the manager after all checks.\<close>

definition checksOf :: "shParser \<Rightarrow> CommandAuthorizationRequest \<Rightarrow> nat" where
  "checksOf P req = (let lifted = snd (liftCommand P (cq_Command req) noLifted 0) in length (lp_FileSystem lifted) + length (lp_Network lifted))"

definition managerAfter ::
  "shParser \<Rightarrow> (nat \<Rightarrow> callEnv) \<Rightarrow> string \<Rightarrow> string \<Rightarrow> CommandAuthorizationRequest \<Rightarrow> PermissionManager \<Rightarrow> hostCache \<Rightarrow> PermissionManager" where
  "managerAfter P E ag agentID req m hosts =
     fst (snd (checkLifted E ag agentID (commandBase (hd (cq_Command req))) (tl (cq_Command req)) (cq_Env req)
       (snd (liftCommand P (cq_Command req) noLifted 0)) m hosts))"


definition wReq :: CommandAuthorizationRequest where
  "wReq = \<lparr>cq_Command = [''git'', ''status''], cq_Env = [], cq_Source = []\<rparr>"

definition wCallEnv :: callEnv where
  "wCallEnv = \<lparr>ce_ev = \<lambda>_. None, ce_clk = \<lambda>_. 7, ce_now = 7, ce_ts = 7,
     ce_net = \<lparr>env_Now = 7, env_DefaultResolver = \<lambda>_. Inl []\<rparr>\<rparr>"

lemma wExecs_runs: "fst (CheckExecutable (\<lambda>_. 7) 7 7 ''a'' ''a'' ''git'' [''status''] [] wExecs) = None"
proof -
  have trim: "TrimSpace ''git'' = ''git''" by code_simp
  have get: "cache_Get 7 k (NewCache execPermCacheCap 0 False) = (None, NewCache execPermCacheCap 0 False)"
    for k :: string by (simp add: cache_Get_def NewCache_def)
  show ?thesis
    by (simp add: CheckExecutable_def findExecutablePermission_def wExecs_def newManager_def trim get inflateScopes_def Let_def
        noPermissions_def auditLog_def)
qed

lemma wReq_lift: "liftCommand wParser [''git'', ''status''] noLifted 0 =
    (None, \<lparr>lp_FileSystem = [], lp_Executables = [execPerm ''git'' [''status'']], lp_Network = [], lp_HasDynamic = False\<rparr>)" by code_simp

lemma wReq_passes: "fst (AuthorizeCommand wParser (\<lambda>_. []) (\<lambda>_. wCallEnv) (\<lambda>_. 7) ''a'' ''a'' None wReq (Some wExecs, [])) = None"
proof -
  obtain m' where run: "CheckExecutable (\<lambda>_. 7) 7 7 ''a'' ''a'' ''git'' [''status''] [] wExecs = (None, m')"
    using wExecs_runs by (metis prod.collapse)
  have e: "commandBase ''git'' = ''git''" "snd (snd (UnwrapCommand [''git'', ''status''])) = False" by code_simp+
  then obtain inner steps where "UnwrapCommand [''git'', ''status''] = (inner, steps, False)" by (metis prod.collapse)
  then show ?thesis
    by (simp add: AuthorizeCommand_def wReq_def wReq_lift e checkLifted_def Let_def wCallEnv_def execPerm_def
        run decideCommand_def)
qed



text \<open>A nested command that runs the base binary is checked with the arguments of the request in place of its own.\<close>

lemma inner_args_unchecked:
  "fst (checkExecs E i ag agentID b ba be [] [execPerm b args] m) = fst (checkExecs E i ag agentID b ba be [] [execPerm b args'] m)"
  by (simp add: execPerm_def Let_def split: prod.split option.split)


end
