(* ===== verification/AuditChain.thy ===== *)
theory AuditChain
  imports Grants
begin

text \<open>
  The file-backed audit chain (\<open>governance/policy/chain_logger.go\<close>, with the types of
  \<open>governance/policy/audit.go\<close>): enqueueing of records, the single writer that appends hash-linked
  entries and rotates files, the head anchor, replay, verification and boot.

  A chain file is a list of lines. The encoding of entries, their length in bytes and the hash function
  come with a \<open>chainCodec\<close>, whose laws are stated where they are used; the hash is an arbitrary
  function. Outcomes of the file system and of a \<open>select\<close> are arguments of a step. A write that fails
  leaves the file as it was; torn lines appear as arbitrary lines that boot and verification meet.
  The directory is readable and can be created, and a file name is \<open>head.json\<close> or that of a regular file.
\<close>

section \<open>Data\<close>

record AuditChainEntry =
  en_Sequence :: int
  en_Record :: AuditRecord
  en_PreviousHash :: string
  en_RecordHash :: string
  en_SignatureAlgorithm :: string
  en_Signature :: string

record AuditQuery =
  aq_AgentID :: string
  aq_Action :: string
  aq_Type :: string
  aq_TimeStart :: time
  aq_TimeEnd :: time
  aq_Permission :: string
  aq_Result :: string

record AuditChainFilter =
  af_Query :: AuditQuery
  af_Correlation :: string
  af_LineageID :: string
  af_Limit :: int

record AuditChainVerification =
  av_Verified :: bool
  av_EntryCount :: nat
  av_LastSequence :: int
  av_LastHash :: string
  av_Failure :: string

record FileChainOptions =
  fo_QueueSize :: int
  fo_BatchFlush :: int
  fo_MaxFileBytes :: int
  fo_Enqueue :: int
  fo_Drain :: int
  fo_BestEffort :: bool
  fo_StrictActions :: "(string \<times> bool) list option"

record auditChainHead =
  ah_Sequence :: int
  ah_Hash :: string
  ah_File :: string

datatype chainRequest = ReqRecord AuditRecord | ReqSync

record 'l chainCodec =
  cc_marshal :: "AuditChainEntry \<Rightarrow> 'l option"
  cc_unmarshal :: "'l \<Rightarrow> AuditChainEntry option"
  cc_blank :: "'l \<Rightarrow> bool"
  cc_len :: "'l \<Rightarrow> nat"
  cc_canonical :: "AuditRecord \<Rightarrow> string"
  cc_sha256 :: "string \<Rightarrow> string"

text \<open>The logger with its directory: the regular files in the order of their creation, the head anchor if it can be
  read, the queue, and the state of the writer.\<close>

record 'l FileChainAuditLogger =
  fl_dir :: string
  fl_opts :: FileChainOptions
  fl_files :: "(string \<times> 'l list) list"
  fl_head :: "auditChainHead option"
  fl_queue :: "chainRequest list"
  fl_closed :: bool
  fl_dropped :: nat
  fl_open :: bool
  fl_file :: string
  fl_dateKey :: string
  fl_seq :: int
  fl_lastHash :: string
  fl_lastAnchorFile :: string
  fl_bytes :: int
  fl_genesis :: "AuditRecord option"
  fl_tamper :: "(time \<times> string) option"

definition auditChainMaxFileBytes :: int where
  "auditChainMaxFileBytes = 67108864"

definition auditChainGenesisHash :: string where
  "auditChainGenesisHash = replicate 64 (CHR ''0'')"

definition maxScanToken :: int where
  "maxScanToken = 4194304"

definition ParseAuditEnforcement :: "string \<Rightarrow> goerr + bool" where
  "ParseAuditEnforcement s =
     (let s' = ToLower (TrimSpace s) in
      if s' = [] \<or> s' = ''strict'' then Inr False
      else if s' = ''best_effort'' \<or> s' = ''best-effort'' then Inr True
      else Inl (Err (''invalid audit.enforcement '' @ [CHR 0x22] @ s @ [CHR 0x22] @ '' (want strict or best_effort)'')))"

definition applyFileChainDefaults :: "FileChainOptions \<Rightarrow> FileChainOptions" where
  "applyFileChainDefaults opts =
     (let opts = (if fo_QueueSize opts \<le> 0 then opts\<lparr>fo_QueueSize := 1024\<rparr> else opts);
          opts = (if fo_QueueSize opts < 128 then opts\<lparr>fo_QueueSize := 128\<rparr> else opts);
          opts = (if fo_BatchFlush opts \<le> 0 then opts\<lparr>fo_BatchFlush := 100000000\<rparr> else opts);
          opts = (if fo_MaxFileBytes opts \<le> 0 then opts\<lparr>fo_MaxFileBytes := auditChainMaxFileBytes\<rparr> else opts);
          opts = (if fo_Enqueue opts \<le> 0 then opts\<lparr>fo_Enqueue := 2000000000\<rparr> else opts);
          opts = (if fo_Drain opts \<le> 0 then opts\<lparr>fo_Drain := 5000000000\<rparr> else opts)
      in opts)"

section \<open>Classes of records\<close>

definition auditActionForRecord :: "AuditRecord \<Rightarrow> string" where
  "auditActionForRecord record =
     (if au_Type record = PermissionTypeFilesystem then ''file_access''
      else if au_Type record = PermissionTypeExecutable then ''exec''
      else if au_Type record = PermissionTypeNetwork then ''network''
      else if au_Type record = PermissionTypeCapability then ''capability''
      else if au_Type record = PermissionTypeIPC then ''ipc''
      else if au_Type record = PermissionTypeHITL then ''permission_request''
      else ''permission_request'')"

definition metaString :: "string \<Rightarrow> AuditRecord \<Rightarrow> string" where
  "metaString key record = (case map_of (au_Metadata record) key of Some (AString s) \<Rightarrow> s | _ \<Rightarrow> [])"

definition mutatingFsAction :: "AuditRecord \<Rightarrow> bool" where
  "mutatingFsAction record \<longleftrightarrow>
     ToLower (TrimSpace (metaString ''fs_action'' record)) \<in>
       {''write'', ''edit'', ''execute'', ''delete'', ''rename'', ''move'',
        ''fs:write'', ''fs:execute'', ''fs:delete'', ''fs:rename'', ''fs:move''}"

definition enforce :: "FileChainOptions \<Rightarrow> AuditRecord \<Rightarrow> bool" where
  "enforce opts record =
     (if fo_BestEffort opts then False
      else
        let action = auditActionForRecord record in
        if action = ''file_access'' then mutatingFsAction record
        else case fo_StrictActions opts of
          Some strict \<Rightarrow> (case map_of strict action of None \<Rightarrow> False | Some b \<Rightarrow> b)
        | None \<Rightarrow> action \<in> {''exec'', ''network'', ''capability'', ''ipc'', ''permission_request''})"

section \<open>Enqueueing\<close>

text \<open>Which case of the \<open>select\<close> in \<open>Log\<close> fires.\<close>

datatype logOutcome = Sent | CtxDone string | TimedOut | StopClosed

definition ErrAuditUnavailable :: string where
  "ErrAuditUnavailable = ''audit unavailable '' @ [CHR 0xE2, CHR 0x80, CHR 0x94] @ '' action not performed''"

definition Log ::
  "logOutcome \<Rightarrow> time \<Rightarrow> AuditRecord \<Rightarrow> 'l FileChainAuditLogger \<Rightarrow> goerr option \<times> 'l FileChainAuditLogger" where
  "Log out now record l =
     (if fl_closed l then (Some (Err ''audit logger closed: log refused''), l)
      else if \<not> enforce (fl_opts l) record then (None, l\<lparr>fl_dropped := fl_dropped l + 1\<rparr>)
      else
        let record = (if IsZero (au_Timestamp record) then record\<lparr>au_Timestamp := now\<rparr> else record) in
        case out of
          Sent \<Rightarrow> (None, l\<lparr>fl_queue := fl_queue l @ [ReqRecord record]\<rparr>)
        | CtxDone err \<Rightarrow> (Some (Err (ErrAuditUnavailable @ '': '' @ err)), l)
        | TimedOut \<Rightarrow> (Some (Err ErrAuditUnavailable), l)
        | StopClosed \<Rightarrow> (Some (Err ''audit logger closed: log refused''), l))"

section \<open>Hashing\<close>

definition chainRecordHash :: "'l chainCodec \<Rightarrow> string \<Rightarrow> AuditRecord \<Rightarrow> string" where
  "chainRecordHash C prevHash record = cc_sha256 C (prevHash @ cc_canonical C record)"

section \<open>File names\<close>

text \<open>The civil date of a UTC time, days counted from the first of January of year 1, as \<open>YYYYMMDD\<close>.\<close>

definition leapYear :: "int \<Rightarrow> bool" where
  "leapYear y \<longleftrightarrow> y mod 4 = 0 \<and> (y mod 100 \<noteq> 0 \<or> y mod 400 = 0)"

definition yearDay :: "int \<Rightarrow> int \<times> int" where
  "yearDay d =
     (let n400 = d div 146097; d = d mod 146097;
          n100 = min 3 (d div 36524); d = d - 36524 * n100;
          n4 = d div 1461; d = d mod 1461;
          n1 = min 3 (d div 365); d = d - 365 * n1
      in (400 * n400 + 100 * n100 + 4 * n4 + n1 + 1, d))"

definition monthLengths :: "int \<Rightarrow> int list" where
  "monthLengths y = [31, if leapYear y then 29 else 28, 31, 30, 31, 30, 31, 31, 30, 31, 30, 31]"

fun monthDay :: "int \<Rightarrow> int list \<Rightarrow> int \<Rightarrow> int \<times> int" where
  "monthDay m [] d = (m, d + 1)"
| "monthDay m (k # ks) d = (if d < k then (m, d + 1) else monthDay (m + 1) ks (d - k))"

definition dayKey :: "time \<Rightarrow> string" where
  "dayKey ts =
     (case yearDay (ts div 86400000000000) of
        (y, d) \<Rightarrow> (case monthDay 1 (monthLengths y) d of (m, day) \<Rightarrow> decPad 4 (nat y) @ decPad 2 (nat m) @ decPad 2 (nat day)))"

definition chainName :: "string \<Rightarrow> string" where
  "chainName today = ''chain-'' @ today @ ''.jsonl''"

definition rotationName :: "string \<Rightarrow> nat \<Rightarrow> string" where
  "rotationName today n = ''chain-'' @ today @ ''.r'' @ decPad 2 n @ ''.jsonl''"

lemma numeral_value: "foldl (\<lambda>v c. 10 * v + (of_char c - 48)) 0 (dec n) = n"
proof (induction n rule: dec.induct)
  case (1 n)
  have digit: "of_char (digit k) = 48 + k" if "k < 10" for k :: nat using that by (simp add: digit_def)
  show ?case using 1 digit [of n] digit [of "n mod 10"] by (subst dec.simps) auto
qed

lemma decPad_eq: "decPad w n = decPad w m \<longleftrightarrow> n = m"
proof
  let ?v = "foldl (\<lambda>v c. 10 * v + (of_char c - 48)) (0 :: nat)"
  have zeros: "?v (replicate k (digit 0)) = 0" for k by (induction k) (simp_all add: digit_def)
  have "?v (decPad w k) = k" for k by (simp add: decPad_def zeros numeral_value)
  then show "decPad w n = decPad w m \<Longrightarrow> n = m" by metis
qed simp

lemma rotationName_inj: "rotationName today n = rotationName today k \<longleftrightarrow> n = k"
  by (simp add: rotationName_def decPad_eq)

text \<open>\<open>nextRotationNameLocked\<close>: the least number whose name is free. Only finitely many names are taken.\<close>

lemma taken_finite: "finite {k. rotationName today k \<in> set (gokeys files)}"
proof -
  have "inj (rotationName today)" by (auto simp: inj_def rotationName_inj)
  then show ?thesis using finite_vimageI [of "set (gokeys files)" "rotationName today"] by (simp add: vimage_def)
qed

function nextRotation :: "string \<Rightarrow> (string \<times> 'l list) list \<Rightarrow> nat \<Rightarrow> nat" where
  "nextRotation today files n =
     (if rotationName today n \<in> set (gokeys files) then nextRotation today files (n + 1) else n)"
  by pat_completeness auto
termination
proof (relation "measure (\<lambda>(today, files, n). card {k. n \<le> k \<and> rotationName today k \<in> set (gokeys files)})")
  fix today :: string and files :: "(string \<times> 'l list) list" and n :: nat
  assume taken: "rotationName today n \<in> set (gokeys files)"
  let ?S = "\<lambda>n. {k. n \<le> k \<and> rotationName today k \<in> set (gokeys files)}"
  have "finite (?S n)" by (rule finite_subset [OF _ taken_finite [of today files]]) auto
  moreover have "?S (n + 1) \<subset> ?S n"
  proof (rule psubsetI)
    show "?S (n + 1) \<subseteq> ?S n" by auto
    have "n \<in> ?S n" "n \<notin> ?S (n + 1)" using taken by simp_all
    then show "?S (n + 1) \<noteq> ?S n" by blast
  qed
  ultimately have "card (?S (n + 1)) < card (?S n)" by (rule psubset_card_mono)
  then show "((today, files, n + 1), today, files, n) 
    \<in> measure (\<lambda>(today, files, n). card {k. n \<le> k \<and> rotationName today k \<in> set (gokeys files)})" by simp
qed simp

declare nextRotation.simps [simp del]

section \<open>The writer\<close>

text \<open>What the file system answers to one step.\<close>

record chainIO =
  io_open :: bool
  io_write :: bool
  io_head :: bool

definition fileBytes :: "'l chainCodec \<Rightarrow> 'l list \<Rightarrow> int" where
  "fileBytes C lines = (\<Sum>line \<leftarrow> lines. int (cc_len C line) + 1)"

definition fileLines :: "string \<Rightarrow> (string \<times> 'l list) list \<Rightarrow> 'l list" where
  "fileLines name files = (case map_of files name of Some lines \<Rightarrow> lines | None \<Rightarrow> [])"

definition openFileLocked ::
  "'l chainCodec \<Rightarrow> chainIO \<Rightarrow> string \<Rightarrow> string \<Rightarrow> 'l FileChainAuditLogger \<Rightarrow> bool \<times> 'l FileChainAuditLogger" where
  "openFileLocked C io name dateKey l =
     (if \<not> io_open io then (False, l)
      else
        let files = (if name \<in> set (gokeys (fl_files l)) then fl_files l else fl_files l @ [(name, [])])
        in (True, l\<lparr>fl_files := files, fl_open := True, fl_file := name, fl_dateKey := dateKey,
                    fl_bytes := fileBytes C (fileLines name files)\<rparr>))"

definition rotateLocked ::
  "'l chainCodec \<Rightarrow> chainIO \<Rightarrow> string \<Rightarrow> 'l FileChainAuditLogger \<Rightarrow> bool \<times> 'l FileChainAuditLogger" where
  "rotateLocked C io today l =
     (let l = l\<lparr>fl_open := False\<rparr>
      in openFileLocked C io (rotationName today (nextRotation today (fl_files l) 1)) today l)"

definition ensureWriterFileLocked ::
  "'l chainCodec \<Rightarrow> chainIO \<Rightarrow> time \<Rightarrow> time \<Rightarrow> bool \<Rightarrow> 'l FileChainAuditLogger \<Rightarrow> bool \<times> 'l FileChainAuditLogger" where
  "ensureWriterFileLocked C io now ts rotatingAfterTamper l =
     (let ts = (if IsZero ts then now else ts);
          today = dayKey ts;
          fresh = (\<lambda>l. openFileLocked C io
                     (if rotatingAfterTamper then rotationName today (nextRotation today (fl_files l) 1) else chainName today) today l)
      in if fl_open l then
           (if today > fl_dateKey l then fresh (l\<lparr>fl_open := False\<rparr>)
            else if fl_bytes l \<ge> fo_MaxFileBytes (fl_opts l) then rotateLocked C io (fl_dateKey l) l
            else (True, l))
         else fresh l)"

definition appendLocked ::
  "'l chainCodec \<Rightarrow> chainIO \<Rightarrow> time \<Rightarrow> AuditRecord \<Rightarrow> 'l FileChainAuditLogger \<Rightarrow> 'l FileChainAuditLogger" where
  "appendLocked C io now record l =
     (let rotatingAfterTamper = (fl_genesis l \<noteq> None) in
      case ensureWriterFileLocked C io now (au_Timestamp record) rotatingAfterTamper l of
        (False, l) \<Rightarrow> l\<lparr>fl_dropped := fl_dropped l + 1\<rparr>
      | (True, l) \<Rightarrow>
          let l = l\<lparr>fl_seq := fl_seq l + 1\<rparr>;
              prev = fl_lastHash l;
              entry = \<lparr>en_Sequence = fl_seq l, en_Record = record, en_PreviousHash = prev,
                       en_RecordHash = chainRecordHash C prev record, en_SignatureAlgorithm = [], en_Signature = []\<rparr>
          in case cc_marshal C entry of
               None \<Rightarrow> l\<lparr>fl_dropped := fl_dropped l + 1\<rparr>
             | Some line \<Rightarrow>
                 if \<not> io_write io then l\<lparr>fl_dropped := fl_dropped l + 1\<rparr>
                 else l\<lparr>fl_files := map (\<lambda>(name, lines). (name, if name = fl_file l then lines @ [line] else lines)) (fl_files l),
                        fl_lastHash := en_RecordHash entry,
                        fl_bytes := fl_bytes l + int (cc_len C line) + 1,
                        fl_genesis := None\<rparr>)"

definition writeHeadLocked :: "chainIO \<Rightarrow> 'l FileChainAuditLogger \<Rightarrow> 'l FileChainAuditLogger" where
  "writeHeadLocked io l =
     (if \<not> fl_open l \<or> fl_seq l = 0 then l
      else if \<not> io_head io then l
      else l\<lparr>fl_head := Some \<lparr>ah_Sequence = fl_seq l, ah_Hash = fl_lastHash l, ah_File = fl_file l\<rparr>\<rparr>)"

text \<open>The cases of the writer's \<open>select\<close>: a request, a tick, and the stop signal, which drains the queue.\<close>

definition runRequest :: "'l chainCodec \<Rightarrow> chainIO \<Rightarrow> time \<Rightarrow> 'l FileChainAuditLogger \<Rightarrow> 'l FileChainAuditLogger" where
  "runRequest C io now l =
     (case fl_queue l of
        [] \<Rightarrow> l
      | ReqSync # q \<Rightarrow> writeHeadLocked io (l\<lparr>fl_queue := q\<rparr>)
      | ReqRecord record # q \<Rightarrow> appendLocked C io now record (l\<lparr>fl_queue := q\<rparr>))"

fun drain :: "'l chainCodec \<Rightarrow> (nat \<Rightarrow> chainIO) \<Rightarrow> time \<Rightarrow> chainRequest list \<Rightarrow> 'l FileChainAuditLogger \<Rightarrow> 'l FileChainAuditLogger" where
  "drain C ios now [] l = l"
| "drain C ios now (ReqSync # q) l = drain C (\<lambda>i. ios (Suc i)) now q l"
| "drain C ios now (ReqRecord record # q) l = drain C (\<lambda>i. ios (Suc i)) now q (appendLocked C (ios 0) now record l)"

definition runStop ::
  "'l chainCodec \<Rightarrow> (nat \<Rightarrow> chainIO) \<Rightarrow> chainIO \<Rightarrow> time \<Rightarrow> 'l FileChainAuditLogger \<Rightarrow> 'l FileChainAuditLogger" where
  "runStop C ios io now l =
     (let l = drain C ios now (fl_queue l) (l\<lparr>fl_queue := []\<rparr>)
      in (writeHeadLocked io l)\<lparr>fl_open := False\<rparr>)"

text \<open>\<open>Close\<close> sets the flag and waits for the writer's reaction to the stop signal; a second call does nothing.\<close>

definition Close ::
  "'l chainCodec \<Rightarrow> (nat \<Rightarrow> chainIO) \<Rightarrow> chainIO \<Rightarrow> time \<Rightarrow> 'l FileChainAuditLogger \<Rightarrow> 'l FileChainAuditLogger" where
  "Close C ios io now l = (if fl_closed l then l else runStop C ios io now (l\<lparr>fl_closed := True\<rparr>))"


section \<open>Reading\<close>

text \<open>\<open>readChainEntries\<close>: the entries before the first line that is too long for the scanner or does not decode, and the error.\<close>

fun readEntries :: "'l chainCodec \<Rightarrow> nat \<Rightarrow> 'l list \<Rightarrow> AuditChainEntry list \<times> goerr option" where
  "readEntries C n [] = ([], None)"
| "readEntries C n (line # lines) =
     (if int (cc_len C line) \<ge> maxScanToken then ([], Some (Err ''bufio.Scanner: token too long''))
      else if cc_blank C line then readEntries C (n + 1) lines
      else case cc_unmarshal C line of
        None \<Rightarrow> ([], Some (Err (''chain line '' @ dec n)))
      | Some e \<Rightarrow> (case readEntries C (n + 1) lines of (es, err) \<Rightarrow> (e # es, err)))"

abbreviation readChainEntries :: "'l chainCodec \<Rightarrow> 'l list \<Rightarrow> AuditChainEntry list \<times> goerr option" where
  "readChainEntries C lines \<equiv> readEntries C 1 lines"

definition isChainFile :: "string \<Rightarrow> bool" where
  "isChainFile name \<longleftrightarrow> prefix ''chain-'' name \<and> suffix ''.jsonl'' name"

text \<open>The chain files with their full paths, sorted by path.\<close>

definition chainFilesIn :: "string \<Rightarrow> (string \<times> 'l list) list \<Rightarrow> (string \<times> 'l list) list" where
  "chainFilesIn dir files = sort_key fst (map (\<lambda>(name, lines). (Join [dir, name], lines)) (filter (\<lambda>(name, lines). isChainFile name) files))"

text \<open>\<open>tailLastEntry\<close>: the last line that is not empty, read from the trailing window. Without one the file has no
  entry; a line cut by the window does not decode.\<close>

definition auditChainTailWindow :: int where
  "auditChainTailWindow = 1048576"

definition tailLastEntry :: "'l chainCodec \<Rightarrow> 'l list \<Rightarrow> AuditChainEntry option" where
  "tailLastEntry C lines =
     (let lines = rev (dropWhile (\<lambda>line. cc_len C line = 0) (rev lines)) in
      if lines = [] then None
      else if cc_blank C (last lines) then None
      else if int (cc_len C (last lines)) + 1 > auditChainTailWindow then None
      else cc_unmarshal C (last lines))"

text \<open>The entry that a head anchor names: the file is looked up under the directory joined with the recorded name.\<close>

definition anchoredEntry :: "'l chainCodec \<Rightarrow> string \<Rightarrow> (string \<times> 'l list) list \<Rightarrow> auditChainHead option \<Rightarrow> AuditChainEntry option" where
  "anchoredEntry C dir files head =
     (case head of
        None \<Rightarrow> None
      | Some h \<Rightarrow>
          if ah_File h = [] then None
          else case find (\<lambda>(name, lines). Join [dir, name] = Join [dir, ah_File h]) files of
            None \<Rightarrow> None
          | Some (name, lines) \<Rightarrow>
              (case tailLastEntry C lines of
                 None \<Rightarrow> None
               | Some e \<Rightarrow> if en_Sequence e = ah_Sequence h \<and> en_RecordHash e = ah_Hash h then Some e else None))"

section \<open>Replay and verification\<close>

text \<open>The state of a replay: the last sequence, hash and file of the valid prefix. The previous hash is the last hash.\<close>

type_synonym replayState = "int \<times> string \<times> string"

fun replayEntries :: "'l chainCodec \<Rightarrow> string \<Rightarrow> AuditChainEntry list \<Rightarrow> replayState \<Rightarrow> bool \<times> replayState" where
  "replayEntries C file [] st = (False, st)"
| "replayEntries C file (e # es) (lastSeq, lastHash, lastFile) =
     (if en_Sequence e \<noteq> lastSeq + 1 then (True, (lastSeq, lastHash, lastFile))
      else if en_PreviousHash e \<noteq> lastHash then (True, (lastSeq, lastHash, lastFile))
      else if en_RecordHash e \<noteq> chainRecordHash C lastHash (en_Record e) then (True, (lastSeq, lastHash, lastFile))
      else replayEntries C file es (en_Sequence e, en_RecordHash e, file))"

fun replayFiles :: "'l chainCodec \<Rightarrow> (string \<times> 'l list) list \<Rightarrow> replayState \<Rightarrow> bool \<times> replayState" where
  "replayFiles C [] st = (False, st)"
| "replayFiles C ((file, lines) # files) st =
     (case readChainEntries C lines of
        (es, Some err) \<Rightarrow> (True, st)
      | (es, None) \<Rightarrow>
          (case replayEntries C file es st of
             (True, st) \<Rightarrow> (True, st)
           | (False, st) \<Rightarrow> replayFiles C files st))"

definition replayChain :: "'l chainCodec \<Rightarrow> (string \<times> 'l list) list \<Rightarrow> bool \<times> replayState" where
  "replayChain C files = replayFiles C files (0, auditChainGenesisHash, [])"

definition matchAuditQuery :: "AuditRecord \<Rightarrow> AuditQuery \<Rightarrow> bool" where
  "matchAuditQuery rec f \<longleftrightarrow>
     (aq_AgentID f = [] \<or> au_AgentID rec = aq_AgentID f) \<and>
     (aq_Type f = [] \<or> au_Type rec = aq_Type f) \<and>
     (aq_Action f = [] \<or> au_Action rec = aq_Action f) \<and>
     (aq_Permission f = [] \<or> au_Permission rec = aq_Permission f) \<and>
     (aq_Result f = [] \<or> au_Result rec = aq_Result f) \<and>
     (IsZero (aq_TimeStart f) \<or> \<not> au_Timestamp rec < aq_TimeStart f) \<and>
     (IsZero (aq_TimeEnd f) \<or> \<not> au_Timestamp rec > aq_TimeEnd f)"

definition matchAuditChainFilter :: "AuditChainEntry \<Rightarrow> AuditChainFilter \<Rightarrow> bool" where
  "matchAuditChainFilter entry f \<longleftrightarrow>
     matchAuditQuery (en_Record entry) (af_Query f) \<and>
     (af_Correlation f = [] \<or> au_Correlation (en_Record entry) = af_Correlation f) \<and>
     (af_LineageID f = [] \<or> metaString ''lineage_id'' (en_Record entry) = af_LineageID f)"

text \<open>The loops of \<open>verifyChainDir\<close>: the count of matching entries, the last sequence and the last hash, and the failure.\<close>

type_synonym verifyState = "nat \<times> int \<times> string"

fun verifyEntries :: "'l chainCodec \<Rightarrow> AuditChainFilter \<Rightarrow> AuditChainEntry list \<Rightarrow> verifyState \<Rightarrow> string option \<times> verifyState" where
  "verifyEntries C filt [] st = (None, st)"
| "verifyEntries C filt (e # es) (matched, lastSeq, lastHash) =
     (if en_Sequence e \<noteq> lastSeq + 1
      then (Some (''non-monotonic sequence: got '' @ fmtInt (en_Sequence e) @ '' want '' @ fmtInt (lastSeq + 1)), (matched, lastSeq, lastHash))
      else if en_PreviousHash e \<noteq> lastHash
      then (Some (''hash link broken at sequence '' @ fmtInt (en_Sequence e)), (matched, lastSeq, lastHash))
      else if en_RecordHash e \<noteq> chainRecordHash C lastHash (en_Record e)
      then (Some (''record hash mismatch at sequence '' @ fmtInt (en_Sequence e)), (matched, lastSeq, lastHash))
      else verifyEntries C filt es
             (if matchAuditChainFilter e filt then matched + 1 else matched, en_Sequence e, en_RecordHash e))"

fun verifyFiles ::
  "'l chainCodec \<Rightarrow> (goerr \<Rightarrow> string) \<Rightarrow> AuditChainFilter \<Rightarrow> (string \<times> 'l list) list \<Rightarrow> verifyState \<Rightarrow> string option \<times> verifyState" where
  "verifyFiles C errText filt [] st = (None, st)"
| "verifyFiles C errText filt ((file, lines) # files) st =
     (case readChainEntries C lines of
        (es, Some err) \<Rightarrow> (Some (''chain file '' @ Base file @ '' corrupt: '' @ errText err), st)
      | (es, None) \<Rightarrow>
          (case verifyEntries C filt es st of
             (Some failure, st) \<Rightarrow> (Some failure, st)
           | (None, st) \<Rightarrow> verifyFiles C errText filt files st))"

definition verifyChainDir ::
  "'l chainCodec \<Rightarrow> (goerr \<Rightarrow> string) \<Rightarrow> string \<Rightarrow> (string \<times> 'l list) list \<Rightarrow> AuditChainFilter \<Rightarrow> AuditChainVerification" where
  "verifyChainDir C errText dir files filt =
     (let chain = chainFilesIn dir files in
      if chain = [] then
        \<lparr>av_Verified = True, av_EntryCount = 0, av_LastSequence = 0, av_LastHash = auditChainGenesisHash, av_Failure = []\<rparr>
      else case verifyFiles C errText filt chain (0, 0, auditChainGenesisHash) of
        (Some failure, (matched, lastSeq, lastHash)) \<Rightarrow>
          \<lparr>av_Verified = False, av_EntryCount = 0, av_LastSequence = lastSeq, av_LastHash = lastHash, av_Failure = failure\<rparr>
      | (None, (matched, lastSeq, lastHash)) \<Rightarrow>
          \<lparr>av_Verified = True, av_EntryCount = matched, av_LastSequence = lastSeq, av_LastHash = lastHash, av_Failure = []\<rparr>)"

definition anyEntry :: AuditChainFilter where
  "anyEntry =
     \<lparr>af_Query = \<lparr>aq_AgentID = [], aq_Action = [], aq_Type = [], aq_TimeStart = 0, aq_TimeEnd = 0, aq_Permission = [], aq_Result = []\<rparr>,
      af_Correlation = [], af_LineageID = [], af_Limit = 0\<rparr>"

definition verifyHeadDir ::
  "'l chainCodec \<Rightarrow> (goerr \<Rightarrow> string) \<Rightarrow> string \<Rightarrow> (string \<times> 'l list) list \<Rightarrow> auditChainHead option \<Rightarrow> AuditChainVerification" where
  "verifyHeadDir C errText dir files head =
     (case anchoredEntry C dir files head of
        Some e \<Rightarrow>
          \<lparr>av_Verified = True, av_EntryCount = 0, av_LastSequence = ah_Sequence (the head), av_LastHash = ah_Hash (the head), av_Failure = []\<rparr>
      | None \<Rightarrow>
          if chainFilesIn dir files = [] then
            \<lparr>av_Verified = True, av_EntryCount = 0, av_LastSequence = 0, av_LastHash = auditChainGenesisHash, av_Failure = []\<rparr>
          else
            let v = verifyChainDir C errText dir files anyEntry in
            if av_Verified v
            then v\<lparr>av_Failure := ''head anchor missing or stale (chain replays clean '' @ [CHR 0xE2, CHR 0x80, CHR 0x94] @ '' boot rebuilds)''\<rparr>
            else v)"

section \<open>Queries\<close>

fun queryFiles :: "'l chainCodec \<Rightarrow> (AuditChainEntry \<Rightarrow> bool) \<Rightarrow> (string \<times> 'l list) list \<Rightarrow> goerr + AuditChainEntry list" where
  "queryFiles C keep [] = Inr []"
| "queryFiles C keep ((file, lines) # files) =
     (case readChainEntries C lines of
        (es, Some err) \<Rightarrow> Inl (Wrap (''read audit chain '' @ Base file @ '': '') err)
      | (es, None) \<Rightarrow>
          (case queryFiles C keep files of
             Inl err \<Rightarrow> Inl err
           | Inr out \<Rightarrow> Inr (filter keep es @ out)))"

text \<open>\<open>Query\<close> after its flush barrier.\<close>

definition Query :: "'l chainCodec \<Rightarrow> AuditQuery \<Rightarrow> 'l FileChainAuditLogger \<Rightarrow> goerr + AuditRecord list" where
  "Query C filt l =
     (case queryFiles C (\<lambda>e. matchAuditQuery (en_Record e) filt) (chainFilesIn (fl_dir l) (fl_files l)) of
        Inl err \<Rightarrow> Inl err
      | Inr out \<Rightarrow> Inr (map en_Record out))"

section \<open>Boot\<close>

record bootResult =
  br_seq :: int
  br_hash :: string
  br_file :: string
  br_tampered :: bool
  br_head :: "auditChainHead option"

definition bootValidate ::
  "'l chainCodec \<Rightarrow> bool \<Rightarrow> string \<Rightarrow> (string \<times> 'l list) list \<Rightarrow> auditChainHead option \<Rightarrow> goerr + bootResult" where
  "bootValidate C headWritable dir files head =
     (let chain = chainFilesIn dir files in
      if chain = [] then
        Inr \<lparr>br_seq = 0, br_hash = auditChainGenesisHash, br_file = [], br_tampered = False, br_head = head\<rparr>
      else case anchoredEntry C dir files head of
        Some e \<Rightarrow>
          Inr \<lparr>br_seq = ah_Sequence (the head), br_hash = ah_Hash (the head), br_file = ah_File (the head), br_tampered = False, br_head = head\<rparr>
      | None \<Rightarrow>
          (case replayChain C chain of
             (broken, (lastSeq, lastHash, lastFile)) \<Rightarrow>
               if lastSeq = 0 \<and> broken
               then Inr \<lparr>br_seq = 0, br_hash = auditChainGenesisHash, br_file = [], br_tampered = True, br_head = head\<rparr>
               else if broken \<or> head = None \<or> ah_File (the head) = [] then
                 (if \<not> headWritable then Inl (Err ''write head anchor'')
                  else Inr \<lparr>br_seq = lastSeq, br_hash = lastHash, br_file = lastFile, br_tampered = broken,
                            br_head = Some \<lparr>ah_Sequence = lastSeq, ah_Hash = lastHash, ah_File = lastFile\<rparr>\<rparr>)
               else Inr \<lparr>br_seq = lastSeq, br_hash = lastHash, br_file = lastFile, br_tampered = broken, br_head = head\<rparr>))"

text \<open>The record that marks a broken chain; \<open>fmtTime\<close> is the RFC 3339 text of a time.\<close>

definition tamperRecord :: "(time \<Rightarrow> string) \<Rightarrow> string \<Rightarrow> time \<Rightarrow> string \<Rightarrow> AuditRecord" where
  "tamperRecord fmtTime dir now anchorHash =
     \<lparr>au_Timestamp = now, au_AgentID = Base dir, au_Action = ''chain_integrity'', au_Type = ''audit'', au_Permission = ''hash_chain'',
      au_Result = ''tamper_rotation'',
      au_Metadata = [(''previous_valid_hash'', AString anchorHash), (''tamper_detected_at'', AString (fmtTime now))],
      au_User = [], au_Correlation = []\<rparr>"

definition NewFileChainAuditLogger ::
  "'l chainCodec \<Rightarrow> (time \<Rightarrow> string) \<Rightarrow> bool \<Rightarrow> time \<Rightarrow> string \<Rightarrow> FileChainOptions \<Rightarrow> (string \<times> 'l list) list \<Rightarrow> auditChainHead option \<Rightarrow>
   goerr + 'l FileChainAuditLogger" where
  "NewFileChainAuditLogger C fmtTime headWritable now dir opts files head =
     (if TrimSpace dir = [] then Inl (Err ''audit chain dir required'')
      else case bootValidate C headWritable dir files head of
        Inl err \<Rightarrow> Inl (Wrap ''audit chain boot validation: '' err)
      | Inr b \<Rightarrow>
          let genesis = (if br_tampered b then Some (tamperRecord fmtTime dir now (br_hash b)) else None)
          in Inr \<lparr>fl_dir = dir, fl_opts = applyFileChainDefaults opts, fl_files = files, fl_head = br_head b,
                  fl_queue = (case genesis of None \<Rightarrow> [] | Some g \<Rightarrow> [ReqRecord g]),
                  fl_closed = False, fl_dropped = 0, fl_open = False, fl_file = [], fl_dateKey = [],
                  fl_seq = br_seq b, fl_lastHash = br_hash b, fl_lastAnchorFile = br_file b, fl_bytes = 0,
                  fl_genesis = genesis, fl_tamper = (if br_tampered b then Some (now, br_hash b) else None)\<rparr>)"

section \<open>The readiness probe\<close>

record ChainProbe =
  cp_Present :: bool
  cp_LastSeq :: int
  cp_LastHash :: string
  cp_Broken :: bool
  cp_Failure :: string

text \<open>The files of the directory, or \<open>None\<close> if it does not exist.\<close>

definition ProbeChainDir :: "'l chainCodec \<Rightarrow> (goerr \<Rightarrow> string) \<Rightarrow> string \<Rightarrow> (string \<times> 'l list) list option \<Rightarrow> ChainProbe" where
  "ProbeChainDir C errText dir files =
     (let absent = \<lparr>cp_Present = False, cp_LastSeq = 0, cp_LastHash = [], cp_Broken = False, cp_Failure = []\<rparr> in
      case files of
        None \<Rightarrow> absent
      | Some files \<Rightarrow>
          if chainFilesIn dir files = [] then absent
          else
            let v = verifyChainDir C errText dir files anyEntry
            in \<lparr>cp_Present = True, cp_LastSeq = av_LastSequence v, cp_LastHash = av_LastHash v,
                cp_Broken = (\<not> av_Verified v), cp_Failure = av_Failure v\<rparr>)"


section \<open>Verification and replay agree\<close>

lemma verifyEntries_replay:
  "(fst (verifyEntries C filt es (k, q, h)) = None \<longleftrightarrow> \<not> fst (replayEntries C fn es (q, h, f))) \<and>
   snd (snd (verifyEntries C filt es (k, q, h))) =
     (fst (snd (replayEntries C fn es (q, h, f))), fst (snd (snd (replayEntries C fn es (q, h, f)))))"
  by (induction C fn es "(q, h, f)" arbitrary: k q h f rule: replayEntries.induct) auto

lemma verifyFiles_replay:
  "(fst (verifyFiles C errText filt files (k, q, h)) = None \<longleftrightarrow> \<not> fst (replayFiles C files (q, h, f))) \<and>
   snd (snd (verifyFiles C errText filt files (k, q, h))) =
     (fst (snd (replayFiles C files (q, h, f))), fst (snd (snd (replayFiles C files (q, h, f)))))"
proof (induction files arbitrary: k q h f)
  case (Cons a files)
  obtain fn lines where a: "a = (fn, lines)" by fastforce
  obtain es err where r: "readEntries C (Suc 0) lines = (es, err)" by fastforce
  show ?case
  proof (cases err)
    case None
    obtain b q' h' f' where re: "replayEntries C fn es (q, h, f) = (b, q', h', f')" by (metis prod_cases4)
    obtain fail k' q'' h'' where ve: "verifyEntries C filt es (k, q, h) = (fail, k', q'', h'')" by (metis prod_cases4)
    have "(fail = None) = (\<not> b)" "q'' = q'" "h'' = h'" using verifyEntries_replay [of C filt es k q h fn f] re ve by simp_all
    then show ?thesis using Cons [of k' q' h' f'] a r None re ve by (cases b; cases fail) simp_all
  qed (simp add: a r)
qed simp

text \<open>
  The verification of the doctor and of \<open>VerifyChain\<close> and the replay of a boot are two loops over the same
  directory: they agree on whether the chain is broken, and on the last sequence and hash of the valid
  prefix.
\<close>

theorem verify_iff_replay:
  "(av_Verified (verifyChainDir C errText dir files filt) \<longleftrightarrow> \<not> fst (replayChain C (chainFilesIn dir files))) \<and>
   av_LastSequence (verifyChainDir C errText dir files filt) = fst (snd (replayChain C (chainFilesIn dir files))) \<and>
   av_LastHash (verifyChainDir C errText dir files filt) = fst (snd (snd (replayChain C (chainFilesIn dir files))))"
proof -
  let ?chain = "chainFilesIn dir files"
  obtain fail k q h where vf: "verifyFiles C errText filt ?chain (0, 0, auditChainGenesisHash) = (fail, k, q, h)" by (metis prod_cases4)
  then show ?thesis
    using verifyFiles_replay [of C errText filt ?chain 0 0 auditChainGenesisHash "[]"]
    by (cases fail) (auto simp: verifyChainDir_def replayChain_def Let_def)
qed

section \<open>Tampering changes the last hash\<close>

text \<open>Entries that continue a chain from a sequence number and a hash.\<close>

fun linked :: "'l chainCodec \<Rightarrow> int \<Rightarrow> string \<Rightarrow> AuditChainEntry list \<Rightarrow> bool" where
  "linked C q h [] \<longleftrightarrow> True"
| "linked C q h (e # es) \<longleftrightarrow>
     en_Sequence e = q + 1 \<and> en_PreviousHash e = h \<and> en_RecordHash e = chainRecordHash C h (en_Record e) \<and>
     linked C (q + 1) (en_RecordHash e) es"

definition endHash :: "string \<Rightarrow> AuditChainEntry list \<Rightarrow> string" where
  "endHash h es = (if es = [] then h else en_RecordHash (last es))"

lemma endHash_Cons [simp]: "endHash h [] = h" "endHash h (e # es) = endHash (en_RecordHash e) es" "endHash h (es @ [e]) = en_RecordHash e"
  by (simp_all add: endHash_def)

lemma linked_snoc:
  "linked C q h (es @ [e]) \<longleftrightarrow>
   linked C q h es \<and> en_Sequence e = q + int (length es) + 1 \<and> en_PreviousHash e = endHash h es \<and>
   en_RecordHash e = chainRecordHash C (endHash h es) (en_Record e)"
  by (induction es arbitrary: q h) (auto simp: algebra_simps)

lemma linked_append:
  "linked C q h (xs @ ys) \<longleftrightarrow> linked C q h xs \<and> linked C (q + int (length xs)) (endHash h xs) ys"
  by (induction xs arbitrary: q h) (auto simp: algebra_simps)

lemma replayEntries_linked:
  "\<not> fst (replayEntries C fn es (q, h, f)) \<longleftrightarrow> linked C q h es"
  "linked C q h es \<Longrightarrow> snd (replayEntries C fn es (q, h, f)) = (q + int (length es), endHash h es, if es = [] then f else fn)"
  by (induction C fn es "(q, h, f)" arbitrary: q h f rule: replayEntries.induct) auto

text \<open>All entries of a list of files, and whether every file can be read to its end.\<close>

definition chainEntries :: "'l chainCodec \<Rightarrow> (string \<times> 'l list) list \<Rightarrow> AuditChainEntry list" where
  "chainEntries C files = concat (map (\<lambda>(file, lines). fst (readChainEntries C lines)) files)"

definition readable :: "'l chainCodec \<Rightarrow> (string \<times> 'l list) list \<Rightarrow> bool" where
  "readable C files \<longleftrightarrow> (\<forall>(file, lines) \<in> set files. snd (readChainEntries C lines) = None)"

lemma replayFiles_linked:
  "(\<not> fst (replayFiles C files (q, h, f)) \<longleftrightarrow> readable C files \<and> linked C q h (chainEntries C files)) \<and>
   (\<not> fst (replayFiles C files (q, h, f)) \<longrightarrow>
      fst (snd (replayFiles C files (q, h, f))) = q + int (length (chainEntries C files)) \<and>
      fst (snd (snd (replayFiles C files (q, h, f)))) = endHash h (chainEntries C files))"
proof (induction files arbitrary: q h f)
  case (Cons a files)
  obtain fn lines where a: "a = (fn, lines)" by fastforce
  obtain es err where r: "readEntries C (Suc 0) lines = (es, err)" by fastforce
  show ?case
  proof (cases err)
    case None
    have split: "chainEntries C (a # files) = es @ chainEntries C files" by (simp add: chainEntries_def a r)
    have read: "readable C (a # files) = readable C files" by (simp add: readable_def a r None)
    have join: "endHash h (es @ xs) = endHash (endHash h es) xs" for xs by (cases xs) (simp_all add: endHash_def)
    show ?thesis
    proof (cases "linked C q h es")
      case True
      then have re: "replayEntries C fn es (q, h, f) = (False, q + int (length es), endHash h es, if es = [] then f else fn)"
        using replayEntries_linked(1) [of C fn es q h f] replayEntries_linked(2) [OF True, of fn f] by (metis prod.collapse)
      have "replayFiles C (a # files) (q, h, f) = replayFiles C files (q + int (length es), endHash h es, if es = [] then f else fn)"
        by (simp add: a r None re)
      then show ?thesis
        using Cons [of "q + int (length es)" "endHash h es" "if es = [] then f else fn"] True
        by (simp add: split read linked_append join algebra_simps)
    next
      case False
      then obtain st where "replayEntries C fn es (q, h, f) = (True, st)"
        using replayEntries_linked(1) [of C fn es q h f] by (metis prod.collapse)
      then show ?thesis using False by (simp add: a [symmetric] split linked_append) (simp add: a r None)
    qed
  qed (simp add: a r readable_def)
qed (simp add: chainEntries_def readable_def)

text \<open>The strings that a chain hashes.\<close>

fun hashedTexts :: "'l chainCodec \<Rightarrow> string \<Rightarrow> AuditChainEntry list \<Rightarrow> string list" where
  "hashedTexts C h [] = []"
| "hashedTexts C h (e # es) = (h @ cc_canonical C (en_Record e)) # hashedTexts C (en_RecordHash e) es"

lemma hashedTexts_snoc: "hashedTexts C h (es @ [e]) = hashedTexts C h es @ [endHash h es @ cc_canonical C (en_Record e)]"
  by (induction es arbitrary: h) simp_all

lemma linked_endHash_length:
  "linked C q h es \<Longrightarrow> \<forall>x. length (cc_sha256 C x) = n \<Longrightarrow> length h = n \<Longrightarrow> length (endHash h es) = n"
  by (induction es arbitrary: q h) (auto simp: chainRecordHash_def)

lemma same_end_same_records:
  assumes "linked C q h es" and "linked C q' h es'" and "length es = length es'" and "endHash h es = endHash h es'"
    and "\<forall>x. length (cc_sha256 C x) = n" and "length h = n"
  shows "map (\<lambda>e. cc_canonical C (en_Record e)) es = map (\<lambda>e. cc_canonical C (en_Record e)) es' \<or>
    (\<exists>x \<in> set (hashedTexts C h es). \<exists>y \<in> set (hashedTexts C h es'). x \<noteq> y \<and> cc_sha256 C x = cc_sha256 C y)"
  using assms(3,1,2,4)
proof (induction es arbitrary: es' rule: rev_induct)
  case Nil
  then show ?case by simp
next
  case (snoc e es)
  then obtain e' es0 where es': "es' = es0 @ [e']" by (cases es' rule: rev_cases) auto
  let ?x = "endHash h es @ cc_canonical C (en_Record e)" and ?y = "endHash h es0 @ cc_canonical C (en_Record e')"
  have l: "linked C q h es" "linked C q' h es0" and eq: "cc_sha256 C ?x = cc_sha256 C ?y"
    using snoc.prems by (auto simp: es' linked_snoc chainRecordHash_def)
  show ?case
  proof (cases "?x = ?y")
    case True
    have "length (endHash h es) = length (endHash h es0)" using linked_endHash_length [OF l(1) assms(5,6)] linked_endHash_length [OF l(2) assms(5,6)] by simp
    with True have same: "endHash h es = endHash h es0" "cc_canonical C (en_Record e) = cc_canonical C (en_Record e')" by auto
    have "length es = length es0" using snoc.prems(1) es' by simp
    from snoc.IH [OF this l same(1)] show ?thesis using same(2) by (auto simp: hashedTexts_snoc es')
  next
    case False
    then show ?thesis using eq by (auto simp: hashedTexts_snoc es')
  qed
qed

lemma verified_chain:
  "av_Verified (verifyChainDir C errText dir files filt) \<longleftrightarrow>
     readable C (chainFilesIn dir files) \<and> linked C 0 auditChainGenesisHash (chainEntries C (chainFilesIn dir files))"
  "av_Verified (verifyChainDir C errText dir files filt) \<Longrightarrow>
     av_LastSequence (verifyChainDir C errText dir files filt) = int (length (chainEntries C (chainFilesIn dir files))) \<and>
     av_LastHash (verifyChainDir C errText dir files filt) = endHash auditChainGenesisHash (chainEntries C (chainFilesIn dir files))"
proof -
  let ?chain = "chainFilesIn dir files"
  obtain fail k q h where vf: "verifyFiles C errText filt ?chain (0, 0, auditChainGenesisHash) = (fail, k, q, h)" by (metis prod_cases4)
  note v = verifyFiles_replay [of C errText filt ?chain 0 0 auditChainGenesisHash "[]"]
  note r = replayFiles_linked [of C ?chain 0 auditChainGenesisHash "[]"]
  show "av_Verified (verifyChainDir C errText dir files filt) \<longleftrightarrow>
     readable C ?chain \<and> linked C 0 auditChainGenesisHash (chainEntries C ?chain)"
    using v r vf by (cases fail) (auto simp: verifyChainDir_def Let_def)
  show "av_Verified (verifyChainDir C errText dir files filt) \<Longrightarrow>
     av_LastSequence (verifyChainDir C errText dir files filt) = int (length (chainEntries C ?chain)) \<and>
     av_LastHash (verifyChainDir C errText dir files filt) = endHash auditChainGenesisHash (chainEntries C ?chain)"
    using v r vf by (cases fail) (auto simp: verifyChainDir_def Let_def)
qed

text \<open>
  \<^bold>\<open>C11.\<close> Tampering is evident in the last hash: two directories that verify with the same number of entries and
  the same last hash hold the same records in the same order, up to their canonical text, or two texts
  hashed in them collide.
\<close>

theorem tamper_evident:
  assumes "\<forall>x. length (cc_sha256 C x) = 64"
    and "av_Verified (verifyChainDir C errText dir files filt)" and "av_Verified (verifyChainDir C errText dir' files' filt)"
    and "av_LastSequence (verifyChainDir C errText dir files filt) = av_LastSequence (verifyChainDir C errText dir' files' filt)"
    and "av_LastHash (verifyChainDir C errText dir files filt) = av_LastHash (verifyChainDir C errText dir' files' filt)"
  shows "map (\<lambda>e. cc_canonical C (en_Record e)) (chainEntries C (chainFilesIn dir files)) =
         map (\<lambda>e. cc_canonical C (en_Record e)) (chainEntries C (chainFilesIn dir' files')) \<or>
    (\<exists>x \<in> set (hashedTexts C auditChainGenesisHash (chainEntries C (chainFilesIn dir files))).
     \<exists>y \<in> set (hashedTexts C auditChainGenesisHash (chainEntries C (chainFilesIn dir' files'))).
       x \<noteq> y \<and> cc_sha256 C x = cc_sha256 C y)"
proof -
  have "length auditChainGenesisHash = 64" by (simp add: auditChainGenesisHash_def)
  then show ?thesis
    using verified_chain(1) [of C errText dir files filt] verified_chain(1) [of C errText dir' files' filt]
      verified_chain(2) [OF assms(2)] verified_chain(2) [OF assms(3)] assms
    by (intro same_end_same_records [where q = 0 and q' = 0 and n = 64]) auto
qed

definition wCodec :: "AuditChainEntry chainCodec" where
  "wCodec = \<lparr>cc_marshal = Some, cc_unmarshal = Some, cc_blank = \<lambda>_. False, cc_len = \<lambda>_. 1, cc_canonical = au_Action,
     cc_sha256 = \<lambda>x. take 64 (drop 1 x @ replicate 64 (CHR ''f''))\<rparr>"

definition wEntry :: "int \<Rightarrow> string \<Rightarrow> string \<Rightarrow> AuditChainEntry" where
  "wEntry q h action = (let r = \<lparr>au_Timestamp = 1, au_AgentID = [], au_Action = action, au_Type = [], au_Permission = [], au_Result = [],
       au_Metadata = [], au_User = [], au_Correlation = []\<rparr>
     in \<lparr>en_Sequence = q, en_Record = r, en_PreviousHash = h, en_RecordHash = chainRecordHash wCodec h r,
        en_SignatureAlgorithm = [], en_Signature = []\<rparr>)"

definition wDir :: "(string \<times> AuditChainEntry list) list" where
  "wDir = [(''chain-20260101.jsonl'', [wEntry 1 auditChainGenesisHash ''a'']),
           (''head.tmp'', [])]"

theorem tamper_evident_witness:
  "av_Verified (verifyChainDir wCodec (\<lambda>_. []) ''/d'' wDir anyEntry) \<and>
   (map (\<lambda>e. cc_canonical wCodec (en_Record e)) (chainEntries wCodec (chainFilesIn ''/d'' wDir)) =
    map (\<lambda>e. cc_canonical wCodec (en_Record e)) (chainEntries wCodec (chainFilesIn ''/e'' wDir)) \<or>
    (\<exists>x \<in> set (hashedTexts wCodec auditChainGenesisHash (chainEntries wCodec (chainFilesIn ''/d'' wDir))).
     \<exists>y \<in> set (hashedTexts wCodec auditChainGenesisHash (chainEntries wCodec (chainFilesIn ''/e'' wDir))).
       x \<noteq> y \<and> cc_sha256 wCodec x = cc_sha256 wCodec y))"
proof -
  have len: "\<forall>x. length (cc_sha256 wCodec x) = 64" by (auto simp: wCodec_def min_def)
  have ok: "av_Verified (verifyChainDir wCodec (\<lambda>_. []) ''/d'' wDir anyEntry)" by code_simp
  have copy: "av_Verified (verifyChainDir wCodec (\<lambda>_. []) ''/e'' wDir anyEntry)" by code_simp
  have same: "av_LastSequence (verifyChainDir wCodec (\<lambda>_. []) ''/d'' wDir anyEntry) = av_LastSequence (verifyChainDir wCodec (\<lambda>_. []) ''/e'' wDir anyEntry)"
    "av_LastHash (verifyChainDir wCodec (\<lambda>_. []) ''/d'' wDir anyEntry) = av_LastHash (verifyChainDir wCodec (\<lambda>_. []) ''/e'' wDir anyEntry)"
    by code_simp+
  show ?thesis using ok tamper_evident [OF len ok copy same] by blast
qed

end
