(* ===== verification/AuditWriter.thy ===== *)
theory AuditWriter
  imports AuditChain
begin

text \<open>
  Runs of the audit chain writer (\<open>FileChainAuditLogger\<close> in \<open>governance/policy/chain_logger.go\<close>) on a fresh
  directory: what is accepted is written, once, in order, into files whose replay order is the order of
  writing, so that the chain verifies at every moment.
\<close>

section \<open>Steps\<close>

datatype chainStep =
    StepLog logOutcome time AuditRecord
  | StepBarrier
  | StepRequest chainIO time
  | StepTick chainIO
  | StepClose "nat \<Rightarrow> chainIO" chainIO time

text \<open>\<open>flushToDisk\<close> enqueues its barrier unless the logger is closed.\<close>

fun chainRun1 :: "'l chainCodec \<Rightarrow> chainStep \<Rightarrow> 'l FileChainAuditLogger \<Rightarrow> 'l FileChainAuditLogger" where
  "chainRun1 C (StepLog out now record) l = snd (Log out now record l)"
| "chainRun1 C StepBarrier l = (if fl_closed l then l else l\<lparr>fl_queue := fl_queue l @ [ReqSync]\<rparr>)"
| "chainRun1 C (StepRequest io now) l = runRequest C io now l"
| "chainRun1 C (StepTick io) l = writeHeadLocked io l"
| "chainRun1 C (StepClose ios io now) l = Close C ios io now l"

definition stamped :: "time \<Rightarrow> AuditRecord \<Rightarrow> AuditRecord" where
  "stamped now record = (if IsZero (au_Timestamp record) then record\<lparr>au_Timestamp := now\<rparr> else record)"

text \<open>The records that \<open>Log\<close> accepts for writing, in the order of the calls.\<close>

fun accepts :: "chainStep \<Rightarrow> 'l FileChainAuditLogger \<Rightarrow> AuditRecord list" where
  "accepts (StepLog out now record) l =
     (if fst (Log out now record l) = None \<and> enforce (fl_opts l) record then [stamped now record] else [])"
| "accepts _ l = []"

fun accepted :: "'l chainCodec \<Rightarrow> chainStep list \<Rightarrow> 'l FileChainAuditLogger \<Rightarrow> AuditRecord list" where
  "accepted C [] l = []"
| "accepted C (s # ss) l = accepts s l @ accepted C ss (chainRun1 C s l)"

section \<open>Conditions on a run\<close>

text \<open>
  The entries the writer makes of a record: unsigned, with a sequence number that an \<open>int64\<close> holds, linked to the
  genesis hash or to a digest, and with the digest of the link and the record. A record is encodable if the codec
  keeps these entries, on one line that the scanner takes.
\<close>

definition maxSequence :: int where
  "maxSequence = 2 ^ 63 - 1"

definition writerEntry :: "'l chainCodec \<Rightarrow> AuditRecord \<Rightarrow> AuditChainEntry \<Rightarrow> bool" where
  "writerEntry C record e \<longleftrightarrow>
     en_Record e = record \<and> 1 \<le> en_Sequence e \<and> en_Sequence e \<le> maxSequence \<and>
     (en_PreviousHash e = auditChainGenesisHash \<or> en_PreviousHash e \<in> range (cc_sha256 C)) \<and>
     en_RecordHash e = chainRecordHash C (en_PreviousHash e) record \<and> en_SignatureAlgorithm e = [] \<and> en_Signature e = []"

definition encodable :: "'l chainCodec \<Rightarrow> AuditRecord \<Rightarrow> bool" where
  "encodable C record \<longleftrightarrow>
     (\<forall>e. writerEntry C record e \<longrightarrow>
        (\<exists>line. cc_marshal C e = Some line \<and> cc_unmarshal C line = Some e \<and> \<not> cc_blank C line \<and> int (cc_len C line) < maxScanToken))"

definition legalRecord :: "'l chainCodec \<Rightarrow> AuditRecord \<Rightarrow> bool" where
  "legalRecord C record \<longleftrightarrow> encodable C record \<and> \<not> IsZero (au_Timestamp record) \<and> length (dayKey (au_Timestamp record)) = 8"

abbreviation goodIO :: "chainIO \<Rightarrow> bool" where
  "goodIO io \<equiv> io_open io \<and> io_write io"

fun legalStep :: "'l chainCodec \<Rightarrow> chainStep \<Rightarrow> bool" where
  "legalStep C (StepLog out now record) \<longleftrightarrow> legalRecord C (stamped now record)"
| "legalStep C (StepRequest io now) \<longleftrightarrow> goodIO io"
| "legalStep C (StepClose ios io now) \<longleftrightarrow> (\<forall>i. goodIO (ios i))"
| "legalStep C _ \<longleftrightarrow> True"

section \<open>Names in the order of writing\<close>

definition genName :: "string \<Rightarrow> nat \<Rightarrow> string" where
  "genName d n = (if n = 0 then chainName d else rotationName d n)"

lemma genName_less:
  assumes "length d = length d'" and "d < d' \<or> d = d' \<and> n < n'" and "n' < 100"
  shows "genName d n < genName d' n'"
proof -
  define tail where "tail = (\<lambda>n :: nat. if n = 0 then ''.jsonl'' else ''.r'' @ decPad 2 n @ ''.jsonl'')"
  have name: "genName d n = ''chain-'' @ d @ tail n" for d n by (simp add: genName_def chainName_def rotationName_def tail_def)
  have "tail n < tail n'" if "n < n'" using that assms(3) by (auto simp: tail_def less_append_same_length length_decPad decPad_less)
  then show ?thesis using assms(1,2) by (auto simp: name less_append_same_length)
qed

lemma genName_chain: "isChainFile (genName d n)"
  by (simp add: isChainFile_def genName_def chainName_def rotationName_def suffix_def)

lemma cleanComps_last:
  "n \<noteq> [] \<Longrightarrow> n \<noteq> ''.'' \<Longrightarrow> n \<noteq> ''..'' \<Longrightarrow> cleanComps rooted (cs @ [n]) acc = cleanComps rooted cs acc @ [n]"
proof (induction rooted cs acc rule: cleanComps.induct)
  case (2 rooted c cs acc)
  then show ?case by (cases acc) auto
qed simp

definition dirPrefix :: "string \<Rightarrow> string" where
  "dirPrefix dir = (if IsAbs dir then ''/'' else []) @ (if pathComps dir = [] then [] else joinWith ''/'' (pathComps dir) @ ''/'')"

lemma Join_name:
  assumes "dir \<noteq> []" and "n \<noteq> []" and "n \<noteq> ''.''" and "n \<noteq> ''..''" and "CHR ''/'' \<notin> set n"
  shows "Join [dir, n] = dirPrefix dir @ n"
proof -
  have abs: "IsAbs (dir @ ''/'' @ n) = IsAbs dir" using assms(1) by (cases dir) (simp_all add: IsAbs_def)
  have "splitOn CHR ''/'' (dir @ ''/'' @ n) = splitOn CHR ''/'' dir @ [n]" using splitOn_append [of "CHR ''/''" dir n] splitOn_none assms(5) by simp
  then have "pathComps (dir @ ''/'' @ n) = pathComps dir @ [n]"
    unfolding pathComps_def abs using cleanComps_last assms(2-4) by simp
  then show ?thesis using assms(1) abs joinWith_append [of "pathComps dir" "[n]" "''/''"]
    by (auto simp: Clean_def dirPrefix_def)
qed

text \<open>Names that the writer gives: a day of eight characters without a slash, and the number of the rotation.\<close>

definition dayOk :: "string \<Rightarrow> bool" where
  "dayOk d \<longleftrightarrow> length d = 8 \<and> CHR ''/'' \<notin> set d"

lemma decPad_no_slash: "CHR ''/'' \<notin> set (decPad w n)"
proof -
  have "CHR ''/'' \<noteq> digit 0" by code_simp
  moreover have "\<not> is_digit (CHR ''/'')" by code_simp
  ultimately show ?thesis using dec_in_digits by (auto simp: decPad_def)
qed

lemma dayKey_no_slash: "CHR ''/'' \<notin> set (dayKey ts)"
  by (simp add: dayKey_def decPad_no_slash split: prod.split)

lemma Join_genName:
  assumes "dir \<noteq> []" and "dayOk d"
  shows "Join [dir, genName d n] = dirPrefix dir @ genName d n"
proof (rule Join_name [OF assms(1)])
  show "CHR ''/'' \<notin> set (genName d n)"
    using assms(2) decPad_no_slash by (auto simp: genName_def chainName_def rotationName_def dayOk_def)
qed (simp_all add: genName_def chainName_def rotationName_def)

text \<open>No day is rotated a hundred times: the hundredth rotation would sort before the eleventh.\<close>

definition fewRotations :: "(string \<times> 'l list) list \<Rightarrow> bool" where
  "fewRotations files \<longleftrightarrow> (\<forall>d. dayOk d \<longrightarrow> genName d 100 \<notin> set (gokeys files))"

lemma fewRotations_mono: "fewRotations files' \<Longrightarrow> set (gokeys files) \<subseteq> set (gokeys files') \<Longrightarrow> fewRotations files"
  unfolding fewRotations_def by blast

definition namesSorted :: "(string \<times> 'l list) list \<Rightarrow> bool" where
  "namesSorted files \<longleftrightarrow> sorted_wrt (<) (gokeys files) \<and> (\<forall>name \<in> set (gokeys files). \<exists>d n. name = genName d n \<and> dayOk d)"

text \<open>Files whose names grow are replayed in the order of their creation.\<close>

lemma chainFilesIn_sorted:
  assumes "namesSorted files" and "dir \<noteq> []"
  shows "chainFilesIn dir files = map (\<lambda>(name, lines). (dirPrefix dir @ name, lines)) files"
proof -
  have gen: "isChainFile name \<and> Join [dir, name] = dirPrefix dir @ name" if "(name, lines) \<in> set files" for name lines
    using assms that Join_genName genName_chain unfolding namesSorted_def by (metis fst_conv image_eqI list.set_map)
  have "filter (\<lambda>(name, lines). isChainFile name) files = files" using gen by (auto simp: filter_id_conv)
  moreover have "map (\<lambda>(name, lines). (Join [dir, name], lines)) files = map (\<lambda>(name, lines). (dirPrefix dir @ name, lines)) files"
    using gen by auto
  moreover have "sorted (map fst (map (\<lambda>(name, lines). (dirPrefix dir @ name, lines)) files))"
  proof -
    have "sorted_wrt (<) (gokeys files)" using assms(1) by (simp add: namesSorted_def)
    then have "sorted_wrt (\<lambda>a b. dirPrefix dir @ fst a \<le> dirPrefix dir @ fst b) files"
      by (auto simp: sorted_wrt_map less_append_same_length intro!: less_imp_le elim!: sorted_wrt_mono_rel [rotated])
    then show ?thesis by (simp add: sorted_wrt_map case_prod_beta)
  qed
  ultimately show ?thesis unfolding chainFilesIn_def using sorted_sort_id sort_key_id_if_sorted by metis
qed

lemma chainEntries_paths: "chainEntries C (map (\<lambda>(name, lines). (f name, lines)) files) = chainEntries C files"
  "readable C (map (\<lambda>(name, lines). (f name, lines)) files) = readable C files"
  by (auto simp: chainEntries_def readable_def case_prod_unfold comp_def)

section \<open>The invariant\<close>

text \<open>The open file is the last one, and the rotations of its day are numbered without gaps.\<close>

definition currentOk :: "'l FileChainAuditLogger \<Rightarrow> bool" where
  "currentOk l \<longleftrightarrow>
     (\<exists>k. fl_file l = genName (fl_dateKey l) k \<and> gokeys (fl_files l) \<noteq> [] \<and> last (gokeys (fl_files l)) = fl_file l \<and> dayOk (fl_dateKey l) \<and>
        (\<forall>n. genName (fl_dateKey l) n \<in> set (gokeys (fl_files l)) \<longleftrightarrow> n \<le> k) \<and>
        (\<forall>d n. dayOk d \<and> genName d n \<in> set (gokeys (fl_files l)) \<longrightarrow> d \<le> fl_dateKey l))"

definition contentOk :: "'l chainCodec \<Rightarrow> 'l FileChainAuditLogger \<Rightarrow> bool" where
  "contentOk C l \<longleftrightarrow>
     readable C (fl_files l) \<and> linked C 0 auditChainGenesisHash (chainEntries C (fl_files l)) \<and>
     fl_seq l = int (length (chainEntries C (fl_files l))) \<and> fl_lastHash l = endHash auditChainGenesisHash (chainEntries C (fl_files l))"

definition chainInv :: "'l chainCodec \<Rightarrow> 'l FileChainAuditLogger \<Rightarrow> bool" where
  "chainInv C l \<longleftrightarrow>
     fl_genesis l = None \<and> namesSorted (fl_files l) \<and> contentOk C l \<and>
     (fl_open l \<longrightarrow> currentOk l) \<and> (\<not> fl_open l \<longrightarrow> fl_files l = [] \<or> fl_closed l \<and> fl_queue l = []) \<and>
     (\<forall>r. ReqRecord r \<in> set (fl_queue l) \<longrightarrow> legalRecord C r)"

fun requestRecords :: "chainRequest list \<Rightarrow> AuditRecord list" where
  "requestRecords [] = []"
| "requestRecords (ReqRecord r # q) = r # requestRecords q"
| "requestRecords (ReqSync # q) = requestRecords q"

text \<open>What is written, and what is still to be written.\<close>

definition history :: "'l chainCodec \<Rightarrow> 'l FileChainAuditLogger \<Rightarrow> AuditRecord list" where
  "history C l = map en_Record (chainEntries C (fl_files l)) @ requestRecords (fl_queue l)"

lemma requestRecords_append [simp]: "requestRecords (p @ q) = requestRecords p @ requestRecords q"
  by (induction p rule: requestRecords.induct) simp_all

lemma readEntries_snoc:
  assumes "snd (readEntries C n lines) = None" and "int (cc_len C line) < maxScanToken" and "\<not> cc_blank C line" and "cc_unmarshal C line = Some e"
  shows "readEntries C n (lines @ [line]) = (fst (readEntries C n lines) @ [e], None)"
  using assms
proof (induction C n lines rule: readEntries.induct)
  case (2 C n l lines)
  then show ?case by (auto split: if_splits option.splits prod.splits)
qed simp

lemma chainEntries_snoc [simp]:
  "chainEntries C (files @ [(name, lines)]) = chainEntries C files @ fst (readChainEntries C lines)"
  "readable C (files @ [(name, lines)]) \<longleftrightarrow> readable C files \<and> snd (readChainEntries C lines) = None"
  by (auto simp: chainEntries_def readable_def)

section \<open>The writer keeps it\<close>

lemma nextRotation_least:
  "(\<forall>m. 1 \<le> m \<and> m < n \<longrightarrow> rotationName today m \<in> set (gokeys files)) \<Longrightarrow> 1 \<le> n \<Longrightarrow>
   rotationName today (nextRotation today files n) \<notin> set (gokeys files) \<and> 1 \<le> nextRotation today files n \<and>
   (\<forall>m. 1 \<le> m \<and> m < nextRotation today files n \<longrightarrow> rotationName today m \<in> set (gokeys files))"
proof (induction today files n rule: nextRotation.induct)
  case (1 today files n)
  show ?case
  proof (cases "rotationName today n \<in> set (gokeys files)")
    case True
    then have "nextRotation today files n = nextRotation today files (n + 1)" by (subst nextRotation.simps) simp
    moreover have "\<forall>m. 1 \<le> m \<and> m < n + 1 \<longrightarrow> rotationName today m \<in> set (gokeys files)" using "1.prems" True by (auto simp: less_Suc_eq)
    ultimately show ?thesis using "1.IH" [OF True] by simp
  next
    case False
    then have "nextRotation today files n = n" by (subst nextRotation.simps) simp
    then show ?thesis using False "1.prems" by simp
  qed
qed

lemma genName_eq: "dayOk d \<Longrightarrow> dayOk d' \<Longrightarrow> genName d n = genName d' n' \<longleftrightarrow> d = d' \<and> n = n'"
proof -
  assume "dayOk d" "dayOk d'"
  then have "length d = length d'" by (simp add: dayOk_def)
  then show ?thesis by (auto simp: genName_def chainName_def rotationName_def decPad_eq)
qed

text \<open>The name of the next rotation after the \<open>k\<close>-th is the next number.\<close>

lemma nextRotation_current:
  assumes "\<forall>n. genName d n \<in> set (gokeys files) \<longleftrightarrow> n \<le> k"
  shows "rotationName d (nextRotation d files 1) = genName d (Suc k)"
proof -
  have r: "rotationName d n \<in> set (gokeys files) \<longleftrightarrow> n \<le> k" if "1 \<le> n" for n
    using assms [rule_format, of n] that by (simp add: genName_def)
  note l = nextRotation_least [of 1 d files]
  have "\<not> nextRotation d files 1 \<le> k" using l r [of "nextRotation d files 1"] by simp
  moreover have "\<not> Suc k < nextRotation d files 1" using l r [of "Suc k"] by auto
  ultimately have "nextRotation d files 1 = Suc k" by simp
  then show ?thesis by (simp add: genName_def)
qed

text \<open>A file whose name exceeds all names is opened at the end of the list.\<close>

definition freshFile :: "string \<Rightarrow> nat \<Rightarrow> 'l FileChainAuditLogger \<Rightarrow> bool" where
  "freshFile d k l \<longleftrightarrow> dayOk d \<and> k < 100 \<and> (\<forall>n. genName d n \<in> set (gokeys (fl_files l)) \<longleftrightarrow> n < k) \<and>
     (\<forall>d' n. dayOk d' \<and> genName d' n \<in> set (gokeys (fl_files l)) \<longrightarrow> d' \<le> d)"

lemma openFile_fresh:
  assumes "freshFile d k l" and "namesSorted (fl_files l)" and "contentOk C l" and "io_open io"
  defines "l' \<equiv> snd (openFileLocked C io (genName d k) d l)"
  shows "fst (openFileLocked C io (genName d k) d l)" and "namesSorted (fl_files l')" and "currentOk l'" and "contentOk C l'"
    and "fl_files l' = fl_files l @ [(genName d k, [])]" and "fl_open l'" and "fl_queue l' = fl_queue l" and "fl_closed l' = fl_closed l"
    and "fl_genesis l' = fl_genesis l" and "fl_opts l' = fl_opts l" and "fl_dir l' = fl_dir l"
proof -
  have new: "genName d k \<notin> set (gokeys (fl_files l))" using assms(1) by (simp add: freshFile_def)
  then have l': "l' = l\<lparr>fl_files := fl_files l @ [(genName d k, [])], fl_open := True, fl_file := genName d k, fl_dateKey := d,
      fl_bytes := fileBytes C (fileLines (genName d k) (fl_files l @ [(genName d k, [])]))\<rparr>"
    using assms(4) by (simp add: l'_def openFileLocked_def Let_def)
  then show files: "fl_files l' = fl_files l @ [(genName d k, [])]" and "fl_open l'" and "fl_queue l' = fl_queue l" and "fl_closed l' = fl_closed l"
    and "fl_genesis l' = fl_genesis l" and "fl_opts l' = fl_opts l" and "fl_dir l' = fl_dir l" by simp_all
  show "fst (openFileLocked C io (genName d k) d l)" using assms(4) by (simp add: openFileLocked_def Let_def)
  have d: "dayOk d" and k: "k < 100" using assms(1) by (simp_all add: freshFile_def)
  have less: "name < genName d k" if p: "name \<in> set (gokeys (fl_files l))" for name
  proof -
    obtain d' n where n: "name = genName d' n" "dayOk d'" using assms(2) p unfolding namesSorted_def by blast
    then have "d' < d \<or> d' = d \<and> n < k" using assms(1) p by (metis freshFile_def le_less)
    then show ?thesis using genName_less [of d' d n k] n d k by (simp add: dayOk_def)
  qed
  then show "namesSorted (fl_files l')" using assms(2) d by (auto simp: files namesSorted_def sorted_wrt_append)
  show "contentOk C l'" using assms(3) unfolding contentOk_def files by (simp add: l')
  have "\<forall>n. genName d n \<in> set (gokeys (fl_files l')) \<longleftrightarrow> n \<le> k"
    using assms(1) genName_eq [OF d d] by (auto simp: files freshFile_def)
  moreover have "\<forall>d' n. dayOk d' \<and> genName d' n \<in> set (gokeys (fl_files l')) \<longrightarrow> d' \<le> d"
  proof (intro allI impI)
    fix d' n
    assume g: "dayOk d' \<and> genName d' n \<in> set (gokeys (fl_files l'))"
    then have "genName d' n = genName d k \<or> genName d' n \<in> set (gokeys (fl_files l))" by (auto simp: files)
    then show "d' \<le> d" using g assms(1) genName_eq [of d' d n k] d unfolding freshFile_def by blast
  qed
  ultimately show "currentOk l'" unfolding currentOk_def using d by (intro exI [of _ k]) (simp add: l')
qed

lemma currentOk_cong:
  "currentOk l \<Longrightarrow> gokeys (fl_files l') = gokeys (fl_files l) \<Longrightarrow> fl_file l' = fl_file l \<Longrightarrow> fl_dateKey l' = fl_dateKey l \<Longrightarrow> currentOk l'"
  by (simp add: currentOk_def del: set_map)

text \<open>Before an append the writer has a current file; whatever it had to open is empty and comes last.\<close>

lemma ensureWriter_ok:
  assumes "chainInv C l" and "fl_open l \<or> fl_files l = []" and "goodIO io" and "dayOk (dayKey ts)" and "\<not> IsZero ts"
    and "fewRotations (fl_files (snd (ensureWriterFileLocked C io now ts False l)))"
  defines "l' \<equiv> snd (ensureWriterFileLocked C io now ts False l)"
  shows "fst (ensureWriterFileLocked C io now ts False l) \<and> namesSorted (fl_files l') \<and> currentOk l' \<and> contentOk C l' \<and> fl_open l' \<and>
    chainEntries C (fl_files l') = chainEntries C (fl_files l) \<and> fl_queue l' = fl_queue l \<and> fl_closed l' = fl_closed l \<and>
    fl_genesis l' = None \<and> fl_dir l' = fl_dir l"
proof -
  let ?today = "dayKey ts"
  have inv: "namesSorted (fl_files l)" "contentOk C l" "fl_genesis l = None" using assms(1) by (simp_all add: chainInv_def)
  have fresh: ?thesis if o: "ensureWriterFileLocked C io now ts False l = openFileLocked C io (genName d k) d (l\<lparr>fl_open := False\<rparr>)"
    and f: "freshFile d k (l\<lparr>fl_open := False\<rparr>)" for d k
  proof -
    have "namesSorted (fl_files (l\<lparr>fl_open := False\<rparr>))" "contentOk C (l\<lparr>fl_open := False\<rparr>)" using inv by (simp_all add: contentOk_def)
    note opened = openFile_fresh [OF f this, of io]
    then show ?thesis using assms(3) inv(3) unfolding l'_def o by simp
  qed
  show ?thesis
  proof (cases "fl_open l")
    case False
    then have files: "fl_files l = []" using assms(2) by simp
    have eq: "l\<lparr>fl_open := False\<rparr> = l" using False by simp
    have "ensureWriterFileLocked C io now ts False l = openFileLocked C io (genName ?today 0) ?today (l\<lparr>fl_open := False\<rparr>)"
      unfolding eq using False assms(5) by (simp add: ensureWriterFileLocked_def Let_def genName_def)
    then show ?thesis using fresh assms(4) files by (simp add: freshFile_def)
  next
    case True
    then obtain k where cur: "dayOk (fl_dateKey l)" "\<forall>n. genName (fl_dateKey l) n \<in> set (gokeys (fl_files l)) \<longleftrightarrow> n \<le> k"
        "\<forall>d n. dayOk d \<and> genName d n \<in> set (gokeys (fl_files l)) \<longrightarrow> d \<le> fl_dateKey l" and c: "currentOk l"
      using assms(1) unfolding chainInv_def currentOk_def by blast
    show ?thesis
    proof (cases "?today > fl_dateKey l")
      case True
      have "ensureWriterFileLocked C io now ts False l = openFileLocked C io (genName ?today 0) ?today (l\<lparr>fl_open := False\<rparr>)"
        using \<open>fl_open l\<close> True assms(5) by (simp add: ensureWriterFileLocked_def Let_def genName_def)
      moreover have "freshFile ?today 0 (l\<lparr>fl_open := False\<rparr>)"
        using cur(3) True assms(4) unfolding freshFile_def by (simp del: set_map) (meson leD less_imp_le order_trans)
      ultimately show ?thesis using fresh by blast
    next
      case later: False
      show ?thesis
      proof (cases "fl_bytes l \<ge> fo_MaxFileBytes (fl_opts l)")
        case True
        have o: "ensureWriterFileLocked C io now ts False l = openFileLocked C io (genName (fl_dateKey l) (Suc k)) (fl_dateKey l) (l\<lparr>fl_open := False\<rparr>)"
          using \<open>fl_open l\<close> later True assms(5) nextRotation_current [OF cur(2)]
          by (simp add: ensureWriterFileLocked_def rotateLocked_def Let_def)
        have "genName (fl_dateKey l) (Suc k) \<notin> set (gokeys (fl_files l))" using cur(2) by simp
        then have "set (gokeys (fl_files (snd (ensureWriterFileLocked C io now ts False l)))) =
            insert (genName (fl_dateKey l) (Suc k)) (set (gokeys (fl_files l)))"
          using assms(3) by (simp add: o openFileLocked_def Let_def)
        then have "genName (fl_dateKey l) 100 \<notin> insert (genName (fl_dateKey l) (Suc k)) (set (gokeys (fl_files l)))"
          using assms(6) cur(1) unfolding fewRotations_def by metis
        then have "Suc k \<noteq> 100" "\<not> 100 \<le> k" using cur(2) by auto
        then have "Suc k < 100" by simp
        then have "freshFile (fl_dateKey l) (Suc k) (l\<lparr>fl_open := False\<rparr>)"
          using cur unfolding freshFile_def by (simp add: less_Suc_eq_le del: set_map)
        then show ?thesis using fresh o by blast
      next
        case False
        then have "ensureWriterFileLocked C io now ts False l = (True, l)"
          using \<open>fl_open l\<close> later assms(5) by (simp add: ensureWriterFileLocked_def Let_def)
        then show ?thesis using inv c \<open>fl_open l\<close> by (simp add: l'_def)
      qed
    qed
  qed
qed

lemma append_last:
  assumes "namesSorted files" and "files \<noteq> []" and "last (gokeys files) = name"
  obtains init lines where "files = init @ [(name, lines)]"
    and "map (\<lambda>(n, ls). (n, if n = name then ls @ [line] else ls)) files = init @ [(name, lines @ [line])]"
proof -
  obtain init x where x: "files = init @ [x]" using assms(2) by (cases files rule: rev_cases) auto
  obtain lines where last: "x = (name, lines)" using assms(3) x by (cases x) simp
  have "n \<noteq> name" if "(n, ls) \<in> set init" for n ls
    using assms(1) that unfolding namesSorted_def x last by (auto simp: sorted_wrt_append)
  then have "map (\<lambda>(n, ls). (n, if n = name then ls @ [line] else ls)) init = init" by (auto intro!: map_idI)
  then show thesis using that [of init lines] x last by simp
qed

lemma ensure_frame:
  assumes "ensureWriterFileLocked C io now ts b l = (ok, l1)"
  shows "fl_seq l1 = fl_seq l" and "fl_lastHash l1 = fl_lastHash l"
proof -
  have o: "fl_seq (snd (openFileLocked C io name d l)) = fl_seq l" "fl_lastHash (snd (openFileLocked C io name d l)) = fl_lastHash l"
    for name d and l :: "'a FileChainAuditLogger" by (simp_all add: openFileLocked_def Let_def)
  have "l1 = snd (ensureWriterFileLocked C io now ts b l)" using assms by simp
  then show "fl_seq l1 = fl_seq l" "fl_lastHash l1 = fl_lastHash l"
    by (simp_all add: ensureWriterFileLocked_def rotateLocked_def Let_def o)
qed

lemma endHash_digest: "linked C q h es \<Longrightarrow> endHash h es = h \<or> endHash h es \<in> range (cc_sha256 C)"
  by (cases es rule: rev_cases) (auto simp: linked_snoc chainRecordHash_def)

text \<open>An append adds exactly the record, keeps the chain linked and leaves the queue alone.\<close>

lemma appendLocked_ok:
  assumes "chainInv C l" and "fl_open l \<or> fl_files l = []" and "goodIO io" and "legalRecord C r"
    and "fewRotations (fl_files (appendLocked C io now r l))" and "fl_seq l < maxSequence"
  shows "chainInv C (appendLocked C io now r l)" and "fl_open (appendLocked C io now r l)"
    and "map en_Record (chainEntries C (fl_files (appendLocked C io now r l))) = map en_Record (chainEntries C (fl_files l)) @ [r]"
    and "fl_queue (appendLocked C io now r l) = fl_queue l" and "fl_closed (appendLocked C io now r l) = fl_closed l"
    and "fl_dir (appendLocked C io now r l) = fl_dir l"
proof -
  have r: "encodable C r" "\<not> IsZero (au_Timestamp r)" "dayOk (dayKey (au_Timestamp r))"
    using assms(4) dayKey_no_slash by (auto simp: legalRecord_def dayOk_def)
  have gen: "fl_genesis l = None" using assms(1) by (simp add: chainInv_def)
  obtain ok l1 where e: "ensureWriterFileLocked C io now (au_Timestamp r) False l = (ok, l1)" by fastforce
  let ?entry = "\<lparr>en_Sequence = fl_seq l1 + 1, en_Record = r, en_PreviousHash = fl_lastHash l1,
     en_RecordHash = chainRecordHash C (fl_lastHash l1) r, en_SignatureAlgorithm = [], en_Signature = []\<rparr>"
  have "fl_seq l \<ge> 0" "fl_lastHash l = auditChainGenesisHash \<or> fl_lastHash l \<in> range (cc_sha256 C)"
    using assms(1) endHash_digest by (auto simp: chainInv_def contentOk_def)
  then have "writerEntry C r ?entry" using assms(6) ensure_frame [OF e] by (simp add: writerEntry_def)
  then obtain line where line: "cc_marshal C ?entry = Some line" "cc_unmarshal C line = Some ?entry" "\<not> cc_blank C line" "int (cc_len C line) < maxScanToken"
    using r(1) unfolding encodable_def by blast
  have app: "appendLocked C io now r l =
      (if ok then l1\<lparr>fl_seq := fl_seq l1 + 1,
         fl_files := map (\<lambda>(n, ls). (n, if n = fl_file l1 then ls @ [line] else ls)) (fl_files l1),
         fl_lastHash := chainRecordHash C (fl_lastHash l1) r, fl_bytes := fl_bytes l1 + int (cc_len C line) + 1, fl_genesis := None\<rparr>
       else l1\<lparr>fl_dropped := fl_dropped l1 + 1\<rparr>)"
    using line(1) assms(3) gen by (simp add: appendLocked_def e Let_def)
  have "fewRotations (fl_files l1)" using assms(5) unfolding app fewRotations_def by (cases ok) (simp_all add: case_prod_unfold comp_def)
  then have l1: ok "namesSorted (fl_files l1)" "currentOk l1" "contentOk C l1" "fl_open l1" "chainEntries C (fl_files l1) = chainEntries C (fl_files l)"
      "fl_queue l1 = fl_queue l" "fl_closed l1 = fl_closed l" "fl_dir l1 = fl_dir l"
    using ensureWriter_ok [OF assms(1-3) r(3,2), of now] by (simp_all add: e)
  have ne: "fl_files l1 \<noteq> []" "last (gokeys (fl_files l1)) = fl_file l1" using l1(3) by (auto simp: currentOk_def)
  obtain init lines where files: "fl_files l1 = init @ [(fl_file l1, lines)]"
      "map (\<lambda>(n, ls). (n, if n = fl_file l1 then ls @ [line] else ls)) (fl_files l1) = init @ [(fl_file l1, lines @ [line])]"
    by (rule append_last [OF l1(2) ne])
  let ?l = "appendLocked C io now r l"
  have l: "fl_files ?l = init @ [(fl_file l1, lines @ [line])]" "fl_seq ?l = fl_seq l1 + 1" "fl_lastHash ?l = en_RecordHash ?entry"
    "fl_file ?l = fl_file l1" "fl_dateKey ?l = fl_dateKey l1" "fl_genesis ?l = None"
    unfolding app using l1(1) files(2) by simp_all
  show "fl_open ?l" "fl_queue ?l = fl_queue l" "fl_closed ?l = fl_closed l" "fl_dir ?l = fl_dir l" unfolding app using l1 by simp_all
  have c1: "readable C init" "snd (readChainEntries C lines) = None" "linked C 0 auditChainGenesisHash (chainEntries C (fl_files l1))"
      "fl_seq l1 = int (length (chainEntries C (fl_files l1)))" "fl_lastHash l1 = endHash auditChainGenesisHash (chainEntries C (fl_files l1))"
    using l1(4) by (simp_all add: contentOk_def files(1))
  have read: "readChainEntries C (lines @ [line]) = (fst (readChainEntries C lines) @ [?entry], None)"
    using readEntries_snoc [OF c1(2) line(4,3,2)] .
  have ents: "chainEntries C (fl_files ?l) = chainEntries C (fl_files l1) @ [?entry]" unfolding l(1) files(1) by (simp add: read [simplified])
  then show "map en_Record (chainEntries C (fl_files ?l)) = map en_Record (chainEntries C (fl_files l)) @ [r]" using l1(6) by simp
  have names: "gokeys (fl_files ?l) = gokeys (fl_files l1)" by (simp add: l(1) files(1))
  have "contentOk C ?l"
    unfolding contentOk_def ents using c1 l by (simp add: linked_snoc) (simp add: read [simplified])
  moreover have "namesSorted (fl_files ?l)" using l1(2) names by (simp add: namesSorted_def del: set_map)
  moreover have "currentOk ?l" using currentOk_cong [OF l1(3) names l(4,5)] .
  ultimately show "chainInv C ?l"
    using assms(1) \<open>fl_open ?l\<close> \<open>fl_queue ?l = fl_queue l\<close> l(6) by (simp add: chainInv_def)
qed


section \<open>Steps of a run\<close>

lemma head_frame [simp]:
  "chainInv C (l\<lparr>fl_head := h\<rparr>) = chainInv C l" "history C (l\<lparr>fl_head := h\<rparr>) = history C l"
  by (simp_all add: chainInv_def contentOk_def currentOk_def history_def)

lemma writeHead_ok: "chainInv C (writeHeadLocked io l) = chainInv C l" "history C (writeHeadLocked io l) = history C l"
    "fl_files (writeHeadLocked io l) = fl_files l" "fl_dir (writeHeadLocked io l) = fl_dir l" "fl_queue (writeHeadLocked io l) = fl_queue l"
    "fl_closed (writeHeadLocked io l) = fl_closed l"
  by (simp_all add: writeHeadLocked_def)

lemma queue_ok:
  assumes "chainInv C l" and "fl_open l \<or> fl_files l = []" and "\<forall>r. ReqRecord r \<in> set q \<longrightarrow> legalRecord C r"
  shows "chainInv C (l\<lparr>fl_queue := q\<rparr>)"
  using assms by (auto simp: chainInv_def contentOk_def currentOk_def)

lemma openFile_files: "set (gokeys (fl_files l)) \<subseteq> set (gokeys (fl_files (snd (openFileLocked C io name d l))))"
  by (auto simp: openFileLocked_def Let_def)

lemma ensure_files: "set (gokeys (fl_files l)) \<subseteq> set (gokeys (fl_files (snd (ensureWriterFileLocked C io now ts b l))))"
  using openFile_files [of "l\<lparr>fl_open := False\<rparr>" C io] openFile_files [of l C io]
  by (simp add: ensureWriterFileLocked_def rotateLocked_def Let_def)

lemma appendLocked_files: "set (gokeys (fl_files l)) \<subseteq> set (gokeys (fl_files (appendLocked C io now r l)))"
proof -
  obtain ok l1 where e: "ensureWriterFileLocked C io now (au_Timestamp r) (fl_genesis l \<noteq> None) l = (ok, l1)" by fastforce
  have "set (gokeys (fl_files l)) \<subseteq> set (gokeys (fl_files l1))" using ensure_files [of l C io now "au_Timestamp r" "fl_genesis l \<noteq> None"] unfolding e by simp
  then show ?thesis unfolding appendLocked_def Let_def e by (cases ok) (simp_all add: case_prod_unfold comp_def image_image split: option.split)
qed

lemma drain_files: "set (gokeys (fl_files l)) \<subseteq> set (gokeys (fl_files (drain C ios now q l)))"
proof (induction C ios now q l rule: drain.induct)
  case (3 C ios now r q l)
  show ?case unfolding drain.simps by (rule subset_trans [OF appendLocked_files 3])
qed simp_all

lemma step_files: "set (gokeys (fl_files l)) \<subseteq> set (gokeys (fl_files (chainRun1 C s l)))"
proof (cases s)
  case (StepRequest io now)
  have "set (gokeys (fl_files l)) \<subseteq> set (gokeys (fl_files (appendLocked C io now r (l\<lparr>fl_queue := q\<rparr>))))" for r q
    using appendLocked_files [of "l\<lparr>fl_queue := q\<rparr>"] by simp
  then show ?thesis using StepRequest by (simp add: runRequest_def writeHead_ok split: list.split chainRequest.split)
next
  case (StepClose ios io now)
  have "set (gokeys (fl_files l)) \<subseteq> set (gokeys (fl_files (drain C ios now q (l\<lparr>fl_closed := True, fl_queue := []\<rparr>))))" for q
    using drain_files [of "l\<lparr>fl_closed := True, fl_queue := []\<rparr>"] by simp
  then show ?thesis using StepClose by (simp add: Close_def runStop_def Let_def writeHead_ok)
qed (simp_all add: Log_def Let_def writeHead_ok split: logOutcome.split)

lemma drain_ok:
  "chainInv C l \<Longrightarrow> fl_open l \<or> fl_files l = [] \<Longrightarrow> fl_queue l = [] \<Longrightarrow> \<forall>r. ReqRecord r \<in> set q \<longrightarrow> legalRecord C r \<Longrightarrow>
   \<forall>i. goodIO (ios i) \<Longrightarrow> fewRotations (fl_files (drain C ios now q l)) \<Longrightarrow> fl_seq l + int (length (requestRecords q)) \<le> maxSequence \<Longrightarrow>
   chainInv C (drain C ios now q l) \<and>
   map en_Record (chainEntries C (fl_files (drain C ios now q l))) = map en_Record (chainEntries C (fl_files l)) @ requestRecords q \<and>
   fl_queue (drain C ios now q l) = [] \<and> fl_closed (drain C ios now q l) = fl_closed l \<and> fl_dir (drain C ios now q l) = fl_dir l"
proof (induction C ios now q l rule: drain.induct)
  case (3 C ios now r q l)
  let ?l = "appendLocked C (ios 0) now r l"
  have few: "fewRotations (fl_files ?l)"
    using fewRotations_mono [OF _ drain_files [of ?l C "\<lambda>i. ios (Suc i)" now q]] "3.prems"(6) by simp
  have seq: "fl_seq l < maxSequence" using "3.prems"(7) by simp
  have "goodIO (ios 0)" "legalRecord C r" using "3.prems" by auto
  note a = appendLocked_ok [OF "3.prems"(1,2) this few seq]
  have "fl_seq ?l = fl_seq l + 1" using a(1,3) "3.prems"(1) by (auto simp: chainInv_def contentOk_def dest: arg_cong [where f = length])
  then show ?case using "3.IH" [OF a(1)] a(2-6) "3.prems"(3-7) by simp
qed simp_all

lemma step_ok:
  assumes "chainInv C l" and "legalStep C s" and "fewRotations (fl_files (chainRun1 C s l))" and "int (length (history C l)) \<le> maxSequence"
  shows "chainInv C (chainRun1 C s l) \<and> history C (chainRun1 C s l) = history C l @ accepts s l \<and> fl_dir (chainRun1 C s l) = fl_dir l"
proof (cases s)
  case (StepLog out now r)
  have ok: "chainInv C (l\<lparr>fl_queue := fl_queue l @ [ReqRecord (stamped now r)]\<rparr>)" if "\<not> fl_closed l"
    using assms(1,2) that StepLog by (intro queue_ok) (auto simp: chainInv_def)
  have drop: "chainInv C (l\<lparr>fl_dropped := n\<rparr>)" for n using assms(1) by (simp add: chainInv_def contentOk_def currentOk_def)
  show ?thesis
    using ok drop assms(1) StepLog
    by (cases out) (auto simp: Log_def Let_def history_def stamped_def)
next
  case StepBarrier
  have ok: "chainInv C (l\<lparr>fl_queue := fl_queue l @ [ReqSync]\<rparr>)" if "\<not> fl_closed l"
    using assms(1) that by (intro queue_ok) (auto simp: chainInv_def)
  then show ?thesis using assms(1) StepBarrier by (auto simp: history_def)
next
  case (StepRequest io now)
  show ?thesis
  proof (cases "fl_queue l")
    case Nil
    then show ?thesis using assms(1) StepRequest by (simp add: runRequest_def)
  next
    case (Cons req q)
    have open': "fl_open l \<or> fl_files l = []" using assms(1) Cons by (auto simp: chainInv_def)
    have q: "chainInv C (l\<lparr>fl_queue := q\<rparr>)" using assms(1) Cons by (intro queue_ok [OF _ open']) (auto simp: chainInv_def)
    show ?thesis
    proof (cases req)
      case ReqSync
      then show ?thesis using q StepRequest Cons by (simp add: runRequest_def writeHead_ok history_def)
    next
      case (ReqRecord r)
      have legal: "legalRecord C r" using assms(1) Cons ReqRecord by (simp add: chainInv_def)
      have "fewRotations (fl_files (appendLocked C io now r (l\<lparr>fl_queue := q\<rparr>)))"
        using assms(3) StepRequest Cons ReqRecord by (simp add: runRequest_def)
      moreover have "fl_seq (l\<lparr>fl_queue := q\<rparr>) < maxSequence"
        using assms(1,4) Cons ReqRecord by (simp add: chainInv_def contentOk_def history_def)
      ultimately show ?thesis
        using appendLocked_ok [OF q _ _ legal, of io now] open' assms(2) StepRequest Cons ReqRecord
        by (simp add: runRequest_def history_def)
    qed
  qed
next
  case (StepTick io)
  then show ?thesis using assms(1) by (simp add: writeHead_ok)
next
  case (StepClose ios io now)
  show ?thesis
  proof (cases "fl_closed l")
    case True
    then show ?thesis using assms(1) StepClose by (simp add: Close_def)
  next
    case False
    let ?l = "l\<lparr>fl_closed := True, fl_queue := []\<rparr>"
    let ?d = "drain C ios now (fl_queue l) ?l"
    have open': "fl_open l \<or> fl_files l = []" using assms(1) False by (auto simp: chainInv_def)
    have step: "chainRun1 C s l = (writeHeadLocked io ?d)\<lparr>fl_open := False\<rparr>"
      using StepClose False by (simp add: Close_def runStop_def Let_def)
    have inv: "chainInv C ?l" using assms(1) open' by (auto simp: chainInv_def contentOk_def currentOk_def)
    have legal: "\<forall>r. ReqRecord r \<in> set (fl_queue l) \<longrightarrow> legalRecord C r" using assms(1) by (simp add: chainInv_def)
    have "fewRotations (fl_files ?d)" using assms(3) by (simp add: step writeHead_ok)
    moreover have "fl_seq ?l + int (length (requestRecords (fl_queue l))) \<le> maxSequence"
      using assms(1,4) by (simp add: chainInv_def contentOk_def history_def)
    ultimately have d: "chainInv C ?d" "map en_Record (chainEntries C (fl_files ?d)) = map en_Record (chainEntries C (fl_files l)) @ requestRecords (fl_queue l)"
        "fl_queue ?d = []" "fl_closed ?d" "fl_dir ?d = fl_dir l"
      using drain_ok [OF inv, of "fl_queue l" ios now] open' legal assms(2) StepClose by simp_all
    have "chainInv C (writeHeadLocked io ?d)" using d(1) by (simp add: writeHead_ok)
    then have "chainInv C ((writeHeadLocked io ?d)\<lparr>fl_open := False\<rparr>)"
      using d(3,4) by (auto simp: chainInv_def contentOk_def currentOk_def writeHead_ok)
    moreover have "accepts s l = []" using StepClose by simp
    ultimately show ?thesis unfolding step using d by (simp add: history_def writeHead_ok)
  qed
qed

lemma run_files: "set (gokeys (fl_files l)) \<subseteq> set (gokeys (fl_files (fold (chainRun1 C) ss l)))"
proof (induction ss arbitrary: l)
  case (Cons s ss)
  show ?case unfolding fold_simps comp_def by (rule subset_trans [OF step_files Cons.IH])
qed simp

lemma run_ok:
  "chainInv C l \<Longrightarrow> list_all (legalStep C) ss \<Longrightarrow> fewRotations (fl_files (fold (chainRun1 C) ss l)) \<Longrightarrow>
   int (length (history C l @ accepted C ss l)) \<le> maxSequence \<Longrightarrow>
   chainInv C (fold (chainRun1 C) ss l) \<and> history C (fold (chainRun1 C) ss l) = history C l @ accepted C ss l \<and>
   fl_dir (fold (chainRun1 C) ss l) = fl_dir l"
proof (induction ss arbitrary: l)
  case (Cons s ss)
  have "fewRotations (fl_files (chainRun1 C s l))" using Cons.prems(3) fewRotations_mono [OF _ run_files] by simp
  then have one: "chainInv C (chainRun1 C s l) \<and> history C (chainRun1 C s l) = history C l @ accepts s l \<and> fl_dir (chainRun1 C s l) = fl_dir l"
    using step_ok [OF Cons.prems(1)] Cons.prems(2,4) by simp
  then show ?case using Cons.IH [of "chainRun1 C s l"] Cons.prems(2-4) by simp
qed simp


section \<open>What the log holds\<close>

lemma appendLocked_queue: "fl_queue (appendLocked C io now r l) = fl_queue l"
proof -
  have o: "fl_queue (snd (openFileLocked C io name d l)) = fl_queue l" for name d and l :: "'a FileChainAuditLogger"
    by (simp add: openFileLocked_def Let_def)
  obtain ok l1 where e: "ensureWriterFileLocked C io now (au_Timestamp r) (fl_genesis l \<noteq> None) l = (ok, l1)" by fastforce
  then have "fl_queue l1 = fl_queue (snd (ensureWriterFileLocked C io now (au_Timestamp r) (fl_genesis l \<noteq> None) l))" by simp
  also have "\<dots> = fl_queue l" by (simp add: ensureWriterFileLocked_def rotateLocked_def Let_def o)
  finally show ?thesis unfolding appendLocked_def Let_def e by (cases ok) (simp_all split: option.split)
qed

lemma drain_queue: "fl_queue (drain C ios now q l) = fl_queue l"
  by (induction C ios now q l rule: drain.induct) (simp_all add: appendLocked_queue)

lemma closed_empty: "(fl_closed l \<longrightarrow> fl_queue l = []) \<Longrightarrow> fl_closed (chainRun1 C s l) \<longrightarrow> fl_queue (chainRun1 C s l) = []"
proof (cases s)
  case (StepRequest io now)
  have c: "fl_closed (appendLocked C io now r l) = fl_closed l" for r and l :: "'a FileChainAuditLogger"
  proof -
    have o: "fl_closed (snd (openFileLocked C io name d l)) = fl_closed l" for name d and l :: "'a FileChainAuditLogger"
      by (simp add: openFileLocked_def Let_def)
    obtain ok l1 where e: "ensureWriterFileLocked C io now (au_Timestamp r) (fl_genesis l \<noteq> None) l = (ok, l1)" by fastforce
    then have "fl_closed l1 = fl_closed (snd (ensureWriterFileLocked C io now (au_Timestamp r) (fl_genesis l \<noteq> None) l))" by simp
    also have "\<dots> = fl_closed l" by (simp add: ensureWriterFileLocked_def rotateLocked_def Let_def o)
    finally show ?thesis unfolding appendLocked_def Let_def e by (cases ok) (simp_all split: option.split)
  qed
  assume "fl_closed l \<longrightarrow> fl_queue l = []"
  then show ?thesis using StepRequest
    by (cases "fl_queue l") (auto simp: runRequest_def writeHead_ok c appendLocked_queue split: chainRequest.split)
qed (auto simp: Log_def Let_def writeHead_ok Close_def runStop_def drain_queue split: logOutcome.split)

lemma closed_run: "(fl_closed l \<longrightarrow> fl_queue l = []) \<Longrightarrow> fl_closed (fold (chainRun1 C) ss l) \<longrightarrow> fl_queue (fold (chainRun1 C) ss l) = []"
proof (induction ss arbitrary: l)
  case (Cons s ss)
  then show ?case using closed_empty [OF Cons.prems, of C s] by simp
qed simp

lemma queryFiles_readable: "readable C files \<Longrightarrow> queryFiles C keep files = Inr (filter keep (chainEntries C files))"
proof (induction files)
  case (Cons a files)
  obtain fn lines where a: "a = (fn, lines)" by fastforce
  obtain es err where r: "readEntries C (Suc 0) lines = (es, err)" by fastforce
  have "err = None" "readable C files" using Cons.prems by (auto simp: readable_def a r)
  then show ?case using Cons.IH by (simp add: a r chainEntries_def)
qed (simp add: chainEntries_def)

lemma boot_fresh:
  assumes "NewFileChainAuditLogger C fmtTime hw now dir opts [] head = Inr l"
  shows "chainInv C l" and "history C l = []" and "fl_dir l = dir" and "dir \<noteq> []" and "fl_closed l \<longrightarrow> fl_queue l = []"
  using assms
  by (auto simp: NewFileChainAuditLogger_def bootValidate_def chainFilesIn_def Let_def chainInv_def contentOk_def currentOk_def namesSorted_def
      history_def readable_def chainEntries_def TrimSpace_def split: if_splits)

definition anyRecord :: AuditQuery where
  "anyRecord = af_Query anyEntry"


definition wRecord :: "string \<Rightarrow> AuditRecord" where
  "wRecord action = \<lparr>au_Timestamp = 0, au_AgentID = ''a'', au_Action = action, au_Type = PermissionTypeExecutable, au_Permission = [],
     au_Result = ''granted'', au_Metadata = [], au_User = [], au_Correlation = []\<rparr>"

definition wOptions :: "int \<Rightarrow> FileChainOptions" where
  "wOptions maxBytes = \<lparr>fo_QueueSize = 0, fo_BatchFlush = 0, fo_MaxFileBytes = maxBytes, fo_Enqueue = 0, fo_Drain = 0,
     fo_BestEffort = False, fo_StrictActions = None\<rparr>"

definition wIO :: chainIO where
  "wIO = \<lparr>io_open = True, io_write = True, io_head = True\<rparr>"

definition wBoot :: "(string \<times> AuditChainEntry list) list \<Rightarrow> auditChainHead option \<Rightarrow> AuditChainEntry FileChainAuditLogger" where
  "wBoot files head =
     (case NewFileChainAuditLogger wCodec (\<lambda>_. []) True 5 ''/d'' (wOptions 2) files head of Inr l \<Rightarrow> l | Inl _ \<Rightarrow> undefined)"

definition wSteps :: "string list \<Rightarrow> chainStep list" where
  "wSteps actions = concat (map (\<lambda>a. [StepLog Sent 5 (wRecord a), StepRequest wIO 5]) actions) @ [StepClose (\<lambda>_. wIO) wIO 5]"

lemma genName_100: "dayOk d \<Longrightarrow> length (genName d 100) = 25"
proof -
  have "length (decPad 2 100) = 3" by code_simp
  then show "dayOk d \<Longrightarrow> ?thesis" by (simp add: genName_def rotationName_def dayOk_def)
qed


section \<open>Restarts and failures\<close>

text \<open>
  After a rotation and a restart on the same day the writer continues in the first file of the day, which
  replays before the rotated one: the chain it continues correctly no longer verifies, although nothing
  was tampered with.
\<close>

lemma restart_after_rotation_breaks:
  "let l1 = fold (chainRun1 wCodec) (wSteps [''x'', ''y'']) (wBoot [] None);
       l2 = fold (chainRun1 wCodec) (wSteps [''z'']) (wBoot (fl_files l1) (fl_head l1))
   in av_Verified (verifyChainDir wCodec (\<lambda>_. []) ''/d'' (fl_files l1) anyEntry) \<and>
      \<not> av_Verified (verifyChainDir wCodec (\<lambda>_. []) ''/d'' (fl_files l2) anyEntry)"
  by code_simp

text \<open>A head anchor that boot rebuilds holds the full path, so the next boot does not find its file.\<close>

lemma rebuilt_anchor_stale:
  "case bootValidate wCodec True ''/d'' wDir None of
     Inl err \<Rightarrow> False
   | Inr b \<Rightarrow> \<not> br_tampered b \<and> br_head b \<noteq> None \<and> anchoredEntry wCodec ''/d'' wDir (br_head b) = None"
  by code_simp

text \<open>A write that fails still uses up a sequence number, so the next entry breaks the chain.\<close>

lemma failed_write_breaks:
  "\<not> av_Verified (verifyChainDir wCodec (\<lambda>_. []) ''/d'' (fl_files
      (fold (chainRun1 wCodec) [StepLog Sent 5 (wRecord ''x''), StepLog Sent 5 (wRecord ''y''), StepRequest (wIO\<lparr>io_write := False\<rparr>) 5,
         StepRequest wIO 5] (wBoot [] None))) anyEntry)"
  by code_simp

end
