(* ===== verification/Hitl.thy ===== *)
theory Hitl
  imports Grants
begin

text \<open>
  The broker between agents and the human approver (\<open>governance/authorization/hitl.go\<close>).

  Calls of \<open>RequestPermission\<close> block in a \<open>select\<close> while other goroutines resolve, expire or submit
  requests, so the broker is a transition system whose steps are the critical sections of the
  code. A request is a shared object: the call, the registry and the resolver hold the same
  pointer. Objects are therefore numbered, in the order of registration, and the maps
  \<open>requests\<close> and \<open>waiters\<close> lead from identifiers to these numbers; the channel of a blocking call
  has room for one decision and lives with its object. Events are broadcast to bounded
  subscriber channels. Telemetry, which the steps only emit, is not part of the state.
\<close>

section \<open>State\<close>

record PermissionDecision =
  dc_RequestID :: string
  dc_Approved :: bool
  dc_ApprovedBy :: string
  dc_Scope :: string
  dc_ExpiresAt :: time
  dc_Reason :: string
  dc_Conditions :: "(string \<times> string) list"

abbreviation HITLTimeoutBehaviorFail :: string where "HITLTimeoutBehaviorFail \<equiv> ''fail''"
abbreviation HITLTimeoutBehaviorSkip :: string where "HITLTimeoutBehaviorSkip \<equiv> ''skip''"

datatype HITLEventType = HITLEventRequested | HITLEventResolved | HITLEventExpired

record HITLEvent =
  he_Type :: HITLEventType
  he_Request :: PermissionRequest
  he_Decision :: "PermissionDecision option"
  he_Error :: string

text \<open>A registered request: an asynchronous one, or one whose call waits or has returned.\<close>

datatype callState = Async | Waiting | Returned "goerr + PermissionGrant"

record hitlCall =
  hc_req :: PermissionRequest
  hc_chan :: "PermissionDecision option"
  hc_state :: callState

record hitlSub =
  su_cap :: nat
  su_buf :: "HITLEvent list"

text \<open>\<open>hb_resolving\<close> are the asynchronous requests between the two critical sections of \<open>resolve\<close>;
  \<open>hb_audit\<close> are the calls of \<open>onAutoApprove\<close>.\<close>

record HITLBroker =
  hb_timeout :: int
  hb_autoApprove :: bool
  hb_objs :: "hitlCall list"
  hb_requests :: "(string \<times> nat) list"
  hb_waiters :: "(string \<times> nat) list"
  hb_resolving :: "string list"
  hb_subs :: "(nat \<times> hitlSub) list"
  hb_subSeq :: nat
  hb_audit :: "(PermissionRequest \<times> PermissionDecision) list"

definition NewHITLBroker :: "int \<Rightarrow> HITLBroker" where
  "NewHITLBroker timeout =
     \<lparr>hb_timeout = (if timeout = 0 then 5 * 60 * 1000000000 else timeout), hb_autoApprove = False,
      hb_objs = [], hb_requests = [], hb_waiters = [], hb_resolving = [], hb_subs = [], hb_subSeq = 0, hb_audit = []\<rparr>"

definition NewAutoApprovingHITLBroker :: "int \<Rightarrow> HITLBroker" where
  "NewAutoApprovingHITLBroker timeout = (NewHITLBroker timeout)\<lparr>hb_autoApprove := True\<rparr>"

section \<open>Subscribers\<close>

text \<open>A subscriber with a full buffer misses the event: sending never blocks.\<close>

definition broadcast :: "HITLEvent \<Rightarrow> HITLBroker \<Rightarrow> HITLBroker" where
  "broadcast ev h = h\<lparr>hb_subs := map (\<lambda>(i, s). (i, if length (su_buf s) < su_cap s then s\<lparr>su_buf := su_buf s @ [ev]\<rparr> else s)) (hb_subs h)\<rparr>"

definition Subscribe :: "int \<Rightarrow> HITLBroker \<Rightarrow> nat \<times> HITLBroker" where
  "Subscribe buffer h =
     (let buffer = (if buffer \<le> 0 then 16 else buffer); sid = hb_subSeq h in
      (sid, h\<lparr>hb_subSeq := sid + 1, hb_subs := AList.update sid \<lparr>su_cap = nat buffer, su_buf = []\<rparr> (hb_subs h)\<rparr>))"

definition Unsubscribe :: "nat \<Rightarrow> HITLBroker \<Rightarrow> HITLBroker" where
  "Unsubscribe sid h = h\<lparr>hb_subs := AList.delete sid (hb_subs h)\<rparr>"

section \<open>Requests\<close>

definition reqObj :: "nat \<Rightarrow> HITLBroker \<Rightarrow> PermissionRequest" where
  "reqObj n h = hc_req (hb_objs h ! n)"

definition setState :: "nat \<Rightarrow> string \<Rightarrow> HITLBroker \<Rightarrow> HITLBroker" where
  "setState n s h = h\<lparr>hb_objs := (hb_objs h)[n := (hb_objs h ! n)\<lparr>hc_req := (reqObj n h)\<lparr>pq_State := s\<rparr>\<rparr>]\<rparr>"

definition returnCall :: "nat \<Rightarrow> goerr + PermissionGrant \<Rightarrow> HITLBroker \<Rightarrow> HITLBroker" where
  "returnCall n r h = h\<lparr>hb_objs := (hb_objs h)[n := (hb_objs h ! n)\<lparr>hc_state := Returned r\<rparr>]\<rparr>"

definition dropRequest :: "string \<Rightarrow> HITLBroker \<Rightarrow> HITLBroker" where
  "dropRequest rid h = h\<lparr>hb_requests := AList.delete rid (hb_requests h), hb_waiters := AList.delete rid (hb_waiters h)\<rparr>"

definition autoResolveDecision :: "PermissionRequest \<Rightarrow> PermissionDecision" where
  "autoResolveDecision req =
     \<lparr>dc_RequestID = pq_ID req, dc_Approved = True, dc_ApprovedBy = ''hitl:permissive-mode'', dc_Scope = pq_Scope req,
      dc_ExpiresAt = 0, dc_Reason = ''permissive posture (--hitl-mode permissive)'', dc_Conditions = []\<rparr>"

text \<open>The common start of \<open>RequestPermission\<close> and \<open>SubmitAsync\<close>: identity, time and state. Two clock readings.\<close>

definition stampRequest :: "(nat \<Rightarrow> time) \<Rightarrow> PermissionRequest \<Rightarrow> PermissionRequest" where
  "stampRequest clk req =
     req\<lparr>pq_ID := ''hitl-'' @ fmtInt (UnixNano (clk 0)), pq_RequestedAt := clk 1, pq_State := ''pending''\<rparr>"

definition requestEvent :: "HITLEventType \<Rightarrow> PermissionRequest \<Rightarrow> HITLEvent" where
  "requestEvent ty req = \<lparr>he_Type = ty, he_Request = req, he_Decision = None, he_Error = []\<rparr>"

text \<open>\<open>RequestPermission\<close> up to its \<open>select\<close>: it returns at once, or registers the request and waits as
  the call whose number is the answer.\<close>

datatype started = Done "goerr + PermissionGrant" | Blocked nat

definition RequestPermission :: "(nat \<Rightarrow> time) \<Rightarrow> PermissionRequest \<Rightarrow> HITLBroker \<Rightarrow> started \<times> HITLBroker" where
  "RequestPermission clk req h =
     (if dp_Action (pq_Permission req) = [] then (Done (Inl (Err ''permission request missing action'')), h)
      else
        let req = stampRequest clk req in
        if hb_autoApprove h then
          let decision = autoResolveDecision req in
          (Done (Inr \<lparr>pg_ID = dc_RequestID decision, pg_Permission = pq_Permission req, pg_Scope = dc_Scope decision,
                      pg_ExpiresAt = 0, pg_ApprovedBy = dc_ApprovedBy decision, pg_Conditions = [(''posture'', ''permissive'')],
                      pg_GrantedAt = clk 2, pg_Description = pq_Justification req, pg_SessionID = []\<rparr>),
           h\<lparr>hb_audit := hb_audit h @ [(req, decision)]\<rparr>)
        else if map_of (hb_requests h) (pq_ID req) \<noteq> None
        then (Done (Inl (Err (''request '' @ pq_ID req @ '' already registered''))), h)
        else
          let n = length (hb_objs h) in
          (Blocked n,
           broadcast (requestEvent HITLEventRequested req)
             (h\<lparr>hb_objs := hb_objs h @ [\<lparr>hc_req = req, hc_chan = None, hc_state = Waiting\<rparr>],
                hb_requests := AList.update (pq_ID req) n (hb_requests h),
                hb_waiters := AList.update (pq_ID req) n (hb_waiters h)\<rparr>)))"

text \<open>The three branches of the \<open>select\<close> of call \<open>n\<close>. The branch on a decision is ready when the channel
  holds one; its deferred cleanup runs before it returns.\<close>

definition receiveDecision :: "time \<Rightarrow> nat \<Rightarrow> HITLBroker \<Rightarrow> HITLBroker option" where
  "receiveDecision now n h =
     (case hc_chan (hb_objs h ! n) of
        None \<Rightarrow> None
      | Some decision \<Rightarrow>
          let req = reqObj n h;
              result =
                (if \<not> dc_Approved decision then Inl (Err (''permission denied: '' @ dc_Reason decision))
                 else Inr \<lparr>pg_ID = dc_RequestID decision, pg_Permission = pq_Permission req, pg_Scope = dc_Scope decision,
                           pg_ExpiresAt = dc_ExpiresAt decision, pg_ApprovedBy = dc_ApprovedBy decision,
                           pg_Conditions = dc_Conditions decision, pg_GrantedAt = now,
                           pg_Description = pq_Justification req, pg_SessionID = []\<rparr>);
              h = h\<lparr>hb_objs := (hb_objs h)[n := (hb_objs h ! n)\<lparr>hc_chan := None\<rparr>]\<rparr>;
              h = broadcast \<lparr>he_Type = HITLEventResolved, he_Request = req, he_Decision = Some decision, he_Error = []\<rparr> h
          in Some (returnCall n result (dropRequest (pq_ID req) h)))"

definition cancelCall :: "goerr \<Rightarrow> string \<Rightarrow> nat \<Rightarrow> HITLBroker \<Rightarrow> HITLBroker" where
  "cancelCall err msg n h =
     (let req = reqObj n h in
      returnCall n (Inl err)
        (broadcast ((requestEvent HITLEventExpired req)\<lparr>he_Error := msg\<rparr>) (dropRequest (pq_ID req) h)))"

definition timeoutCall :: "time \<Rightarrow> nat \<Rightarrow> HITLBroker \<Rightarrow> HITLBroker" where
  "timeoutCall now n h =
     (let req = reqObj n h;
          behavior = (if pq_TimeoutBehavior req = [] then HITLTimeoutBehaviorFail else pq_TimeoutBehavior req);
          result =
            (if behavior = HITLTimeoutBehaviorSkip
             then Inr \<lparr>pg_ID = pq_ID req @ '':timeout-skip'', pg_Permission = pq_Permission req, pg_Scope = pq_Scope req,
                       pg_ExpiresAt = 0, pg_ApprovedBy = ''timeout-skip'',
                       pg_Conditions = [(''timeout'', ''true''), (''timeout_behavior'', behavior)], pg_GrantedAt = now,
                       pg_Description = pq_Justification req, pg_SessionID = []\<rparr>
             else Inl (Err (''permission request '' @ dp_Action (pq_Permission req) @ '' timed out'')))
      in returnCall n result
           (broadcast ((requestEvent HITLEventExpired req)\<lparr>he_Error := ''timed out''\<rparr>) (dropRequest (pq_ID req) h)))"

definition SubmitAsync :: "(nat \<Rightarrow> time) \<Rightarrow> PermissionRequest \<Rightarrow> HITLBroker \<Rightarrow> (goerr + string) \<times> HITLBroker" where
  "SubmitAsync clk req h =
     (let req = stampRequest clk req in
      if hb_autoApprove h then
        let decision = autoResolveDecision req in
        (Inr (dc_RequestID decision), h\<lparr>hb_audit := hb_audit h @ [(req, decision)]\<rparr>)
      else if map_of (hb_requests h) (pq_ID req) \<noteq> None
      then (Inl (Err (''request '' @ pq_ID req @ '' already registered'')), h)
      else
        let n = length (hb_objs h) in
        (Inr (pq_ID req),
         broadcast (requestEvent HITLEventRequested req)
           (h\<lparr>hb_objs := hb_objs h @ [\<lparr>hc_req = req, hc_chan = None, hc_state = Async\<rparr>],
              hb_requests := AList.update (pq_ID req) n (hb_requests h)\<rparr>)))"

section \<open>Resolution and expiry\<close>

text \<open>The first critical section of \<open>resolve\<close> with the send on the popped waiter. An asynchronous request
  is left for the second section, \<open>finishResolve\<close>.\<close>

definition resolve :: "string \<Rightarrow> bool \<Rightarrow> PermissionDecision \<Rightarrow> HITLBroker \<Rightarrow> goerr option \<times> HITLBroker" where
  "resolve rid approved decision h =
     (case map_of (hb_requests h) rid of
        None \<Rightarrow> (Some (Err (''request '' @ rid @ '' not found or expired'')), h)
      | Some n \<Rightarrow>
          if pq_State (reqObj n h) \<noteq> ''pending''
          then (Some (Err (''request '' @ rid @ '' already '' @ pq_State (reqObj n h))), h)
          else
            let h = setState n (if approved then ''approved'' else ''denied'') h;
                decision = (if dc_Scope decision = [] \<and> approved then decision\<lparr>dc_Scope := pq_Scope (reqObj n h)\<rparr> else decision)
            in (case map_of (hb_waiters h) rid of
                  Some w \<Rightarrow>
                    (None, h\<lparr>hb_waiters := AList.delete rid (hb_waiters h),
                             hb_objs := (hb_objs h)[w := (hb_objs h ! w)\<lparr>hc_chan := Some decision\<rparr>]\<rparr>)
                | None \<Rightarrow>
                    (None, broadcast \<lparr>he_Type = HITLEventResolved, he_Request = reqObj n h, he_Decision = Some decision, he_Error = []\<rparr>
                             (h\<lparr>hb_resolving := hb_resolving h @ [rid]\<rparr>))))"

definition finishResolve :: "string \<Rightarrow> HITLBroker \<Rightarrow> HITLBroker" where
  "finishResolve rid h =
     h\<lparr>hb_requests := AList.delete rid (hb_requests h), hb_resolving := remove1 rid (hb_resolving h)\<rparr>"

definition Approve :: "PermissionDecision \<Rightarrow> HITLBroker \<Rightarrow> goerr option \<times> HITLBroker" where
  "Approve decision h = resolve (dc_RequestID decision) True decision h"

definition Deny :: "string \<Rightarrow> string \<Rightarrow> HITLBroker \<Rightarrow> goerr option \<times> HITLBroker" where
  "Deny rid reason h = resolve rid False
     \<lparr>dc_RequestID = rid, dc_Approved = False, dc_ApprovedBy = [], dc_Scope = [], dc_ExpiresAt = 0, dc_Reason = reason,
      dc_Conditions = []\<rparr> h"

definition isDue :: "time \<Rightarrow> HITLBroker \<Rightarrow> string \<times> nat \<Rightarrow> bool" where
  "isDue now h = (\<lambda>(rid, n).
     let req = reqObj n h; ttl = (if pq_Timeout req > 0 then pq_Timeout req else hb_timeout h) in
     pq_State req = ''pending'' \<and> map_of (hb_waiters h) rid = None \<and> \<not> time_Sub now (pq_RequestedAt req) < ttl)"

definition expireOne :: "string \<times> nat \<Rightarrow> HITLBroker \<Rightarrow> HITLBroker" where
  "expireOne = (\<lambda>(rid, n) h. (setState n ''expired'' h)\<lparr>hb_requests := AList.delete rid (hb_requests h)\<rparr>)"

definition expireDue :: "time \<Rightarrow> HITLBroker \<Rightarrow> HITLBroker" where
  "expireDue now h =
     (let expired = filter (isDue now h) (hb_requests h);
          h = fold expireOne expired h
      in fold (\<lambda>(rid, n) h. broadcast ((requestEvent HITLEventExpired (reqObj n h))\<lparr>he_Error := ''expired''\<rparr>) h) expired h)"

definition PendingRequests :: "HITLBroker \<Rightarrow> PermissionRequest list" where
  "PendingRequests h = filter (\<lambda>r. pq_State r = ''pending'') (map (\<lambda>(rid, n). reqObj n h) (hb_requests h))"

section \<open>The transition system\<close>

datatype hitlOp =
    RequestOp "nat \<Rightarrow> time" PermissionRequest
  | SubmitOp "nat \<Rightarrow> time" PermissionRequest
  | ReceiveOp time nat
  | CancelOp goerr string nat
  | TimeoutOp time nat
  | ApproveOp PermissionDecision
  | DenyOp string string
  | FinishOp string
  | ExpireOp time
  | SubscribeOp int
  | UnsubscribeOp nat

definition isWaiting :: "nat \<Rightarrow> HITLBroker \<Rightarrow> bool" where
  "isWaiting n h \<longleftrightarrow> n < length (hb_objs h) \<and> hc_state (hb_objs h ! n) = Waiting"

inductive hitlStep :: "HITLBroker \<Rightarrow> hitlOp \<Rightarrow> HITLBroker \<Rightarrow> bool" where
  request: "hitlStep h (RequestOp clk req) (snd (RequestPermission clk req h))"
| submit: "hitlStep h (SubmitOp clk req) (snd (SubmitAsync clk req h))"
| receive: "isWaiting n h \<Longrightarrow> receiveDecision now n h = Some h' \<Longrightarrow> hitlStep h (ReceiveOp now n) h'"
| cancel: "isWaiting n h \<Longrightarrow> hitlStep h (CancelOp err msg n) (cancelCall err msg n h)"
| timeout: "isWaiting n h \<Longrightarrow> hitlStep h (TimeoutOp now n) (timeoutCall now n h)"
| approve: "hitlStep h (ApproveOp d) (snd (Approve d h))"
| deny: "hitlStep h (DenyOp rid reason) (snd (Deny rid reason h))"
| finish: "rid \<in> set (hb_resolving h) \<Longrightarrow> hitlStep h (FinishOp rid) (finishResolve rid h)"
| expire: "hitlStep h (ExpireOp now) (expireDue now h)"
| subscribe: "hitlStep h (SubscribeOp b) (snd (Subscribe b h))"
| unsubscribe: "hitlStep h (UnsubscribeOp i) (Unsubscribe i h)"

inductive hitlRun :: "HITLBroker \<Rightarrow> hitlOp list \<Rightarrow> HITLBroker \<Rightarrow> bool" where
  nil: "hitlRun h [] h"
| snoc: "hitlRun h ops h' \<Longrightarrow> hitlStep h' op h'' \<Longrightarrow> hitlRun h (ops @ [op]) h''"

inductive_cases hitlRun_nilE: "hitlRun h [] h'"

section \<open>The registry invariant\<close>

text \<open>The registry holds exactly the requests that are not finished. A call that waits is in it, and either
  has its waiter, or has lost the waiter to the resolver that put a decision into its channel. An
  asynchronous request is pending until a resolver takes it.\<close>

definition obj_ok ::
  "nat \<Rightarrow> hitlCall \<Rightarrow> (string \<Rightarrow> nat option) \<Rightarrow> (string \<Rightarrow> nat option) \<Rightarrow> string set \<Rightarrow> bool" where
  "obj_ok n c R W rs =
     (let rid = pq_ID (hc_req c); pending = (pq_State (hc_req c) = ''pending'') in
      case hc_state c of
        Waiting \<Rightarrow> R rid = Some n \<and> rid \<notin> rs \<and>
          (W rid = Some n \<and> hc_chan c = None \<and> pending \<or> W rid = None \<and> hc_chan c \<noteq> None \<and> \<not> pending)
      | Async \<Rightarrow> W rid \<noteq> Some n \<and> (R rid = Some n \<longrightarrow> W rid = None \<and> (pending \<longleftrightarrow> rid \<notin> rs))
      | Returned r \<Rightarrow> R rid \<noteq> Some n \<and> W rid \<noteq> Some n)"

definition registry_ok ::
  "hitlCall list \<Rightarrow> (string \<Rightarrow> nat option) \<Rightarrow> (string \<Rightarrow> nat option) \<Rightarrow> string list \<Rightarrow> bool" where
  "registry_ok objs R W rs \<longleftrightarrow>
     (\<forall>n < length objs. obj_ok n (objs ! n) R W (set rs)) \<and>
     (\<forall>rid n. R rid = Some n \<longrightarrow> n < length objs \<and> pq_ID (hc_req (objs ! n)) = rid) \<and>
     (\<forall>rid n. W rid = Some n \<longrightarrow> R rid = Some n) \<and>
     (\<forall>rid \<in> set rs. R rid \<noteq> None) \<and> distinct rs"

lemma obj_ok_frame:
  assumes "obj_ok m c R W rs" and "m \<noteq> n" and "R rid \<in> {None, Some n}" and "W rid \<in> {None, Some n}"
    and "x \<in> {None, Some n}" and "y \<in> {None, Some n}" and "\<And>i. i \<noteq> rid \<Longrightarrow> i \<in> rs' \<longleftrightarrow> i \<in> rs"
  shows "obj_ok m c (R(rid := x)) (W(rid := y)) rs'"
proof (cases "pq_ID (hc_req c) = rid")
  case True
  with assms(1-3) have "hc_state c \<noteq> Waiting" by (auto simp: obj_ok_def)
  with True assms(1,2,5,6) show ?thesis by (auto simp: obj_ok_def Let_def split: callState.splits)
next
  case False
  with assms(1,7) show ?thesis by (simp add: obj_ok_def Let_def split: callState.splits)
qed

lemma registry_append:
  assumes "registry_ok objs R W rs" and "R rid = None" and "pq_ID (hc_req c) = rid" and "n = length objs"
    and "y \<in> {None, Some n}" and "obj_ok n c (R(rid \<mapsto> n)) (W(rid := y)) (set rs)"
  shows "registry_ok (objs @ [c]) (R(rid \<mapsto> n)) (W(rid := y)) rs"
proof -
  have W: "W rid = None" using assms(1,2) unfolding registry_ok_def by (cases "W rid") auto
  have "obj_ok m (objs ! m) (R(rid \<mapsto> n)) (W(rid := y)) (set rs)" if "m < length objs" for m
    using assms that W by (intro obj_ok_frame [where R = R and W = W and n = n and rs = "set rs"]) (auto simp: registry_ok_def)
  then have "\<forall>m < length (objs @ [c]). obj_ok m ((objs @ [c]) ! m) (R(rid \<mapsto> n)) (W(rid := y)) (set rs)"
    using assms(4,6) by (auto simp: nth_append less_Suc_eq)
  then show ?thesis using assms(1-5) W unfolding registry_ok_def by (auto simp: nth_append less_Suc_eq)
qed

lemma registry_update:
  assumes "registry_ok objs R W rs" and "R rid = Some n"
    and "pq_ID (hc_req c) = rid" and "x \<in> {None, Some n}" and "y \<in> {None, x}"
    and "obj_ok n c (R(rid := x)) (W(rid := y)) (set rs')" and "\<And>i. i \<noteq> rid \<Longrightarrow> i \<in> set rs' \<longleftrightarrow> i \<in> set rs"
    and "rid \<in> set rs' \<Longrightarrow> x \<noteq> None" and "distinct rs'"
  shows "registry_ok (objs[n := c]) (R(rid := x)) (W(rid := y)) rs'"
proof -
  have n: "n < length objs" "pq_ID (hc_req (objs ! n)) = rid" using assms(1,2) by (auto simp: registry_ok_def)
  have W: "W rid \<in> {None, Some n}" using assms(1,2) unfolding registry_ok_def by (cases "W rid") auto
  have "obj_ok m (objs ! m) (R(rid := x)) (W(rid := y)) (set rs')" if "m < length objs" "m \<noteq> n" for m
    using assms that W by (intro obj_ok_frame [where R = R and W = W and n = n and rs = "set rs"]) (auto simp: registry_ok_def)
  then have "\<forall>m < length (objs[n := c]). obj_ok m (objs[n := c] ! m) (R(rid := x)) (W(rid := y)) (set rs')"
    using assms(6) n(1) by (auto simp: nth_list_update)
  moreover have "m < length (objs[n := c]) \<and> pq_ID (hc_req (objs[n := c] ! m)) = i" if "(R(rid := x)) i = Some m" for i m
  proof (cases "i = rid")
    case True
    with that assms(3,4) n show ?thesis by auto
  next
    case False
    with that assms(1) have m: "m < length objs" "pq_ID (hc_req (objs ! m)) = i" by (auto simp: registry_ok_def)
    with False n have "m \<noteq> n" by auto
    with m show ?thesis by simp
  qed
  moreover have "(R(rid := x)) i = Some m" if "(W(rid := y)) i = Some m" for i m
    using that assms(1,5) by (auto simp: registry_ok_def split: if_splits)
  moreover have "(R(rid := x)) i \<noteq> None" if "i \<in> set rs'" for i
    using that assms(1,7,8) by (auto simp: registry_ok_def)
  ultimately show ?thesis using assms(9) unfolding registry_ok_def by blast
qed

definition broker_ok :: "HITLBroker \<Rightarrow> bool" where
  "broker_ok h \<longleftrightarrow>
     registry_ok (hb_objs h) (map_of (hb_requests h)) (map_of (hb_waiters h)) (hb_resolving h) \<and> distinct (gokeys (hb_requests h))"

lemma broadcast_frame [simp]:
  "hb_objs (broadcast ev h) = hb_objs h" "hb_requests (broadcast ev h) = hb_requests h"
  "hb_waiters (broadcast ev h) = hb_waiters h" "hb_resolving (broadcast ev h) = hb_resolving h"
  "hb_autoApprove (broadcast ev h) = hb_autoApprove h" "hb_timeout (broadcast ev h) = hb_timeout h"
  "reqObj n (broadcast ev h) = reqObj n h"
  by (simp_all add: broadcast_def reqObj_def)

lemma broker_ok_cong:
  "broker_ok h \<Longrightarrow> hb_objs h' = hb_objs h \<Longrightarrow> hb_requests h' = hb_requests h \<Longrightarrow> hb_waiters h' = hb_waiters h \<Longrightarrow>
   hb_resolving h' = hb_resolving h \<Longrightarrow> broker_ok h'"
  by (simp add: broker_ok_def)

lemma map_of_update_fun: "map_of (AList.update k v m) = (map_of m)(k \<mapsto> v)"
  by (rule ext) simp

lemma map_of_delete_fun: "map_of (AList.delete k m) = (map_of m)(k := None)"
  by (rule ext) simp

lemma stampRequest_sel [simp]:
  "pq_State (stampRequest clk req) = ''pending''" "pq_Permission (stampRequest clk req) = pq_Permission req"
  by (simp_all add: stampRequest_def)

lemma broker_ok_request: "broker_ok h \<Longrightarrow> broker_ok (snd (RequestPermission clk req h))"
proof -
  assume ok: "broker_ok h"
  let ?req = "stampRequest clk req" and ?n = "length (hb_objs h)"
  show ?thesis
  proof (cases "dp_Action (pq_Permission req) = [] \<or> hb_autoApprove h \<or> map_of (hb_requests h) (pq_ID ?req) \<noteq> None")
    case True
    with ok show ?thesis by (auto simp: RequestPermission_def Let_def intro: broker_ok_cong)
  next
    case False
    then have "registry_ok (hb_objs h @ [\<lparr>hc_req = ?req, hc_chan = None, hc_state = Waiting\<rparr>])
        ((map_of (hb_requests h))(pq_ID ?req \<mapsto> ?n)) ((map_of (hb_waiters h))(pq_ID ?req \<mapsto> ?n)) (hb_resolving h)"
      using ok by (intro registry_append) (auto simp: broker_ok_def registry_ok_def obj_ok_def)
    with False ok show ?thesis
      by (simp add: RequestPermission_def Let_def broker_ok_def map_of_update_fun distinct_update)
  qed
qed

lemma broker_ok_submit: "broker_ok h \<Longrightarrow> broker_ok (snd (SubmitAsync clk req h))"
proof -
  assume ok: "broker_ok h"
  let ?req = "stampRequest clk req" and ?n = "length (hb_objs h)"
  show ?thesis
  proof (cases "hb_autoApprove h \<or> map_of (hb_requests h) (pq_ID ?req) \<noteq> None")
    case True
    with ok show ?thesis by (auto simp: SubmitAsync_def Let_def intro: broker_ok_cong)
  next
    case False
    have "map_of (hb_waiters h) (pq_ID ?req) = None"
      using ok False by (cases "map_of (hb_waiters h) (pq_ID ?req)") (auto simp: broker_ok_def registry_ok_def)
    then have W: "map_of (hb_waiters h) = (map_of (hb_waiters h))(pq_ID ?req := None)" by auto
    have "registry_ok (hb_objs h @ [\<lparr>hc_req = ?req, hc_chan = None, hc_state = Async\<rparr>])
        ((map_of (hb_requests h))(pq_ID ?req \<mapsto> ?n)) ((map_of (hb_waiters h))(pq_ID ?req := None)) (hb_resolving h)"
      using ok False by (intro registry_append) (auto simp: broker_ok_def registry_ok_def obj_ok_def)
    with False ok W show ?thesis
      by (simp add: SubmitAsync_def Let_def broker_ok_def map_of_update_fun distinct_update)
  qed
qed

text \<open>A call that returns takes its request out of the registry.\<close>

lemma waiting_registered:
  assumes "broker_ok h" and "isWaiting n h"
  shows "map_of (hb_requests h) (pq_ID (reqObj n h)) = Some n"
  using assms by (auto simp: broker_ok_def registry_ok_def isWaiting_def obj_ok_def Let_def reqObj_def)

lemma broker_ok_return:
  assumes "broker_ok h" and "isWaiting n h" and "hb_objs h' = (hb_objs h)[n := (hb_objs h ! n)\<lparr>hc_chan := ch\<rparr>] \<or> hb_objs h' = hb_objs h"
    and "hb_requests h' = hb_requests h" and "hb_waiters h' = hb_waiters h" and "hb_resolving h' = hb_resolving h"
  shows "broker_ok (returnCall n r (dropRequest (pq_ID (reqObj n h)) h'))"
proof -
  let ?rid = "pq_ID (reqObj n h)"
  have n: "n < length (hb_objs h)" using assms(2) by (simp add: isWaiting_def)
  have objs: "\<exists>c. hb_objs (returnCall n r (dropRequest ?rid h')) = (hb_objs h)[n := c] \<and> pq_ID (hc_req c) = ?rid \<and> hc_state c = Returned r"
    using assms(3) n by (auto simp: returnCall_def dropRequest_def reqObj_def)
  then obtain c where c: "hb_objs (returnCall n r (dropRequest ?rid h')) = (hb_objs h)[n := c]" "pq_ID (hc_req c) = ?rid" "hc_state c = Returned r"
    by blast
  have "?rid \<notin> set (hb_resolving h)"
    using assms(1,2) by (auto simp: broker_ok_def registry_ok_def isWaiting_def obj_ok_def Let_def reqObj_def)
  then have "registry_ok ((hb_objs h)[n := c]) ((map_of (hb_requests h))(?rid := None)) ((map_of (hb_waiters h))(?rid := None)) (hb_resolving h)"
    using assms(1) c waiting_registered [OF assms(1,2)]
    by (intro registry_update) (auto simp: broker_ok_def obj_ok_def registry_ok_def)
  with c(1) assms(1,4-6) show ?thesis
    by (simp add: broker_ok_def returnCall_def dropRequest_def map_of_delete_fun distinct_delete)
qed

lemma broker_ok_receive: "broker_ok h \<Longrightarrow> isWaiting n h \<Longrightarrow> receiveDecision now n h = Some h' \<Longrightarrow> broker_ok h'"
  by (auto simp: receiveDecision_def Let_def split: option.splits intro!: broker_ok_return)

lemma broker_ok_drop:
  assumes "broker_ok h" and "isWaiting n h"
  shows "broker_ok (returnCall n r (broadcast ev (dropRequest (pq_ID (reqObj n h)) h)))"
  by (rule broker_ok_cong [OF broker_ok_return [OF assms, of h None r]]) (simp_all add: returnCall_def)

lemma broker_ok_cancel: "broker_ok h \<Longrightarrow> isWaiting n h \<Longrightarrow> broker_ok (cancelCall err msg n h)"
  by (simp add: cancelCall_def Let_def broker_ok_drop)

lemma broker_ok_timeout: "broker_ok h \<Longrightarrow> isWaiting n h \<Longrightarrow> broker_ok (timeoutCall now n h)"
  by (simp add: timeoutCall_def Let_def broker_ok_drop)

text \<open>What \<open>resolve\<close> does to a pending request.\<close>

definition resolvedObj :: "bool \<Rightarrow> PermissionDecision option \<Rightarrow> hitlCall \<Rightarrow> hitlCall" where
  "resolvedObj approved ch c = c\<lparr>hc_req := (hc_req c)\<lparr>pq_State := (if approved then ''approved'' else ''denied'')\<rparr>, hc_chan := ch\<rparr>"

definition scopedDecision :: "bool \<Rightarrow> PermissionRequest \<Rightarrow> PermissionDecision \<Rightarrow> PermissionDecision" where
  "scopedDecision approved req d = (if dc_Scope d = [] \<and> approved then d\<lparr>dc_Scope := pq_Scope req\<rparr> else d)"

lemma resolve_cases:
  assumes "broker_ok h"
  obtains (missing) e where "resolve rid approved d h = (Some e, h)"
      "\<forall>n. map_of (hb_requests h) rid = Some n \<longrightarrow> pq_State (reqObj n h) \<noteq> ''pending''"
  | (waiter) n where "map_of (hb_requests h) rid = Some n" "n < length (hb_objs h)" "hc_state (hb_objs h ! n) = Waiting"
      "hc_chan (hb_objs h ! n) = None" "pq_State (reqObj n h) = ''pending''" "map_of (hb_waiters h) rid = Some n"
      "resolve rid approved d h = (None, h\<lparr>hb_waiters := AList.delete rid (hb_waiters h),
         hb_objs := (hb_objs h)[n := resolvedObj approved (Some (scopedDecision approved (reqObj n h) d)) (hb_objs h ! n)]\<rparr>)"
  | (async) n ev where "map_of (hb_requests h) rid = Some n" "n < length (hb_objs h)" "hc_state (hb_objs h ! n) = Async"
      "pq_State (reqObj n h) = ''pending''" "map_of (hb_waiters h) rid = None"
      "resolve rid approved d h = (None, broadcast ev (h\<lparr>
         hb_objs := (hb_objs h)[n := resolvedObj approved (hc_chan (hb_objs h ! n)) (hb_objs h ! n)],
         hb_resolving := hb_resolving h @ [rid]\<rparr>))"
proof (cases "map_of (hb_requests h) rid")
  case None
  then show ?thesis by (intro missing) (auto simp: resolve_def)
next
  case (Some n)
  show ?thesis
  proof (cases "pq_State (reqObj n h) = ''pending''")
    case False
    with Some show ?thesis by (intro missing) (auto simp: resolve_def)
  next
    case True
    have n: "n < length (hb_objs h)" "pq_ID (reqObj n h) = rid" and obj: "obj_ok n (hb_objs h ! n) (map_of (hb_requests h)) (map_of (hb_waiters h)) (set (hb_resolving h))"
      using assms Some by (auto simp: broker_ok_def registry_ok_def reqObj_def)
    show ?thesis
    proof (cases "map_of (hb_waiters h) rid")
      case None
      then have st: "hc_state (hb_objs h ! n) = Async" using obj Some n True by (auto simp: obj_ok_def Let_def reqObj_def split: callState.splits)
      have eq: "resolve rid approved d h = (None, broadcast
          \<lparr>he_Type = HITLEventResolved, he_Request = reqObj n (setState n (if approved then ''approved'' else ''denied'') h),
           he_Decision = Some (scopedDecision approved (reqObj n (setState n (if approved then ''approved'' else ''denied'') h)) d),
           he_Error = []\<rparr>
          (h\<lparr>hb_objs := (hb_objs h)[n := resolvedObj approved (hc_chan (hb_objs h ! n)) (hb_objs h ! n)],
             hb_resolving := hb_resolving h @ [rid]\<rparr>))"
        using None Some True by (simp add: resolve_def Let_def scopedDecision_def) (simp add: setState_def reqObj_def resolvedObj_def)
      show ?thesis by (rule async [OF Some n(1) st True None eq])
    next
      case w: (Some w)
      then have "map_of (hb_requests h) rid = Some w" using assms unfolding broker_ok_def registry_ok_def by blast
      then have w: "map_of (hb_waiters h) rid = Some n" using w Some by simp
      with obj n(2) have st: "hc_state (hb_objs h ! n) = Waiting" "hc_chan (hb_objs h ! n) = None"
        by (auto simp: obj_ok_def Let_def reqObj_def split: callState.splits)
      have eq: "resolve rid approved d h = (None, h\<lparr>hb_waiters := AList.delete rid (hb_waiters h),
         hb_objs := (hb_objs h)[n := resolvedObj approved (Some (scopedDecision approved (reqObj n h) d)) (hb_objs h ! n)]\<rparr>)"
        using w Some True n(1) by (simp add: resolve_def setState_def Let_def reqObj_def resolvedObj_def scopedDecision_def)
      show ?thesis by (rule waiter [OF Some n(1) st True w eq])
    qed
  qed
qed

lemma resolvedObj_sel [simp]:
  "pq_ID (hc_req (resolvedObj a ch c)) = pq_ID (hc_req c)" "hc_state (resolvedObj a ch c) = hc_state c"
  "hc_chan (resolvedObj a ch c) = ch" "pq_State (hc_req (resolvedObj a ch c)) = (if a then ''approved'' else ''denied'')"
  "pq_Permission (hc_req (resolvedObj a ch c)) = pq_Permission (hc_req c)"
  "pq_TimeoutBehavior (hc_req (resolvedObj a ch c)) = pq_TimeoutBehavior (hc_req c)"
  by (simp_all add: resolvedObj_def)

lemma broker_ok_obj:
  "broker_ok h \<Longrightarrow> map_of (hb_requests h) rid = Some n \<Longrightarrow>
   n < length (hb_objs h) \<and> pq_ID (reqObj n h) = rid \<and>
   obj_ok n (hb_objs h ! n) (map_of (hb_requests h)) (map_of (hb_waiters h)) (set (hb_resolving h))"
  by (auto simp: broker_ok_def registry_ok_def reqObj_def)

lemma fun_upd_Some_id: "m k = Some v \<Longrightarrow> m(k \<mapsto> v) = m"
  by (simp add: fun_upd_idem)

lemma broker_ok_resolve: "broker_ok h \<Longrightarrow> broker_ok (snd (resolve rid approved d h))"
proof -
  assume ok: "broker_ok h"
  let ?R = "map_of (hb_requests h)" and ?W = "map_of (hb_waiters h)"
  from ok show ?thesis
  proof (cases rule: resolve_cases [where rid = rid and approved = approved and d = d])
    case (waiter n)
    note obj = broker_ok_obj [OF ok waiter(1)]
    let ?c = "resolvedObj approved (Some (scopedDecision approved (reqObj n h) d)) (hb_objs h ! n)"
    have "rid \<notin> set (hb_resolving h)" using obj waiter(3) by (auto simp: obj_ok_def Let_def reqObj_def)
    then have "registry_ok ((hb_objs h)[n := ?c]) (?R(rid := Some n)) (?W(rid := None)) (hb_resolving h)"
      using ok obj waiter(1,3)
      by (intro registry_update) (auto simp: broker_ok_def registry_ok_def obj_ok_def Let_def reqObj_def)
    with ok waiter(1,7) show ?thesis by (simp add: broker_ok_def map_of_delete_fun fun_upd_Some_id)
  next
    case (async n ev)
    note obj = broker_ok_obj [OF ok async(1)]
    let ?c = "resolvedObj approved (hc_chan (hb_objs h ! n)) (hb_objs h ! n)"
    have "rid \<notin> set (hb_resolving h)" using obj async(1,3,4) by (auto simp: obj_ok_def Let_def reqObj_def)
    then have "registry_ok ((hb_objs h)[n := ?c]) (?R(rid := Some n)) (?W(rid := None)) (hb_resolving h @ [rid])"
      using ok obj async(1,3)
      by (intro registry_update) (auto simp: broker_ok_def registry_ok_def obj_ok_def Let_def reqObj_def)
    with ok async(1,5,6) show ?thesis by (simp add: broker_ok_def fun_upd_idem)
  qed (simp add: ok)
qed

lemma broker_ok_finish: "broker_ok h \<Longrightarrow> rid \<in> set (hb_resolving h) \<Longrightarrow> broker_ok (finishResolve rid h)"
proof -
  assume ok: "broker_ok h" and rid: "rid \<in> set (hb_resolving h)"
  then obtain n where n: "map_of (hb_requests h) rid = Some n" by (auto simp: broker_ok_def registry_ok_def)
  note obj = broker_ok_obj [OF ok n]
  have st: "hc_state (hb_objs h ! n) = Async" using obj n rid by (auto simp: obj_ok_def Let_def reqObj_def split: callState.splits)
  then have W: "map_of (hb_waiters h) rid = None" using obj n by (auto simp: obj_ok_def Let_def reqObj_def)
  have d: "distinct (hb_resolving h)" using ok by (simp add: broker_ok_def registry_ok_def)
  have "registry_ok ((hb_objs h)[n := hb_objs h ! n]) ((map_of (hb_requests h))(rid := None)) ((map_of (hb_waiters h))(rid := None))
      (remove1 rid (hb_resolving h))"
    using ok obj n st d by (intro registry_update) (auto simp: broker_ok_def obj_ok_def Let_def reqObj_def set_remove1_eq)
  with ok W show ?thesis by (simp add: finishResolve_def broker_ok_def map_of_delete_fun distinct_delete fun_upd_idem)
qed

text \<open>A request that the sweeper may take: registered, pending and without a waiter.\<close>

definition expirable :: "HITLBroker \<Rightarrow> string \<times> nat \<Rightarrow> bool" where
  "expirable h = (\<lambda>(rid, n). map_of (hb_requests h) rid = Some n \<and> map_of (hb_waiters h) rid = None \<and> pq_State (reqObj n h) = ''pending'')"

lemma broker_ok_expireOne:
  assumes ok: "broker_ok h" and "expirable h (rid, n)"
  shows "broker_ok (expireOne (rid, n) h)"
proof -
  have n: "map_of (hb_requests h) rid = Some n" "map_of (hb_waiters h) rid = None" "pq_State (reqObj n h) = ''pending''"
    using assms(2) by (auto simp: expirable_def)
  note obj = broker_ok_obj [OF ok n(1)]
  have st: "hc_state (hb_objs h ! n) = Async" "rid \<notin> set (hb_resolving h)"
    using obj n by (auto simp: obj_ok_def Let_def reqObj_def split: callState.splits)
  let ?c = "(hb_objs h ! n)\<lparr>hc_req := (reqObj n h)\<lparr>pq_State := ''expired''\<rparr>\<rparr>"
  have "registry_ok ((hb_objs h)[n := ?c]) ((map_of (hb_requests h))(rid := None)) ((map_of (hb_waiters h))(rid := None)) (hb_resolving h)"
    using ok obj n(1) st by (intro registry_update) (auto simp: broker_ok_def registry_ok_def obj_ok_def Let_def reqObj_def)
  with ok n(2) show ?thesis
    by (simp add: expireOne_def setState_def broker_ok_def map_of_delete_fun distinct_delete fun_upd_idem)
qed

lemma expirable_other:
  assumes ok: "broker_ok h" and "expirable h (rid, n)" and "expirable h (rid', n')" and "rid' \<noteq> rid"
  shows "expirable (expireOne (rid, n) h) (rid', n')"
proof -
  have "pq_ID (reqObj n h) = rid" "pq_ID (reqObj n' h) = rid'" using broker_ok_obj [OF ok] assms(2,3) by (auto simp: expirable_def)
  with assms(4) have "n' \<noteq> n" by auto
  with assms(2-4) show ?thesis by (auto simp: expirable_def expireOne_def setState_def reqObj_def)
qed

lemma broker_ok_fold_expire:
  "broker_ok h \<Longrightarrow> distinct (map fst es) \<Longrightarrow> \<forall>e \<in> set es. expirable h e \<Longrightarrow> broker_ok (fold expireOne es h)"
proof (induction es arbitrary: h)
  case (Cons e es)
  obtain rid n where e: "e = (rid, n)" by (cases e)
  have "\<forall>e' \<in> set es. expirable (expireOne e h) e'"
  proof
    fix e' assume e': "e' \<in> set es"
    obtain rid' n' where eq: "e' = (rid', n')" by (cases e')
    have "rid' \<noteq> rid" using Cons.prems(2) e e' eq by force
    then show "expirable (expireOne e h) e'" using Cons.prems e e' eq expirable_other by auto
  qed
  with Cons show ?case using e broker_ok_expireOne by simp
qed simp

lemma fold_broadcast_frame:
  "hb_objs (fold (\<lambda>(rid, n) h. broadcast (f rid n h) h) es h) = hb_objs h"
  "hb_requests (fold (\<lambda>(rid, n) h. broadcast (f rid n h) h) es h) = hb_requests h"
  "hb_waiters (fold (\<lambda>(rid, n) h. broadcast (f rid n h) h) es h) = hb_waiters h"
  "hb_resolving (fold (\<lambda>(rid, n) h. broadcast (f rid n h) h) es h) = hb_resolving h"
  "hb_autoApprove (fold (\<lambda>(rid, n) h. broadcast (f rid n h) h) es h) = hb_autoApprove h"
  by (induction es arbitrary: h) (auto simp: split_def)

lemma distinct_keys_filter: "distinct (gokeys m) \<Longrightarrow> distinct (map fst (filter P m))"
  by (simp add: distinct_map_filter)

lemma due_expirable: "broker_ok h \<Longrightarrow> e \<in> set (filter (isDue now h) (hb_requests h)) \<Longrightarrow> expirable h e"
  by (auto simp: expirable_def isDue_def Let_def broker_ok_def intro: map_of_is_SomeI)

lemma broker_ok_expire: "broker_ok h \<Longrightarrow> broker_ok (expireDue now h)"
proof -
  assume ok: "broker_ok h"
  have "broker_ok (fold expireOne (filter (isDue now h) (hb_requests h)) h)"
    using ok due_expirable [OF ok] by (intro broker_ok_fold_expire) (auto simp: distinct_keys_filter broker_ok_def)
  then show ?thesis unfolding expireDue_def Let_def by (rule broker_ok_cong) (simp_all add: fold_broadcast_frame)
qed

lemma broker_ok_step: "hitlStep h op h' \<Longrightarrow> broker_ok h \<Longrightarrow> broker_ok h'"
proof (induction rule: hitlStep.induct)
  case (subscribe h b)
  then show ?case by (auto simp: Subscribe_def Let_def intro: broker_ok_cong)
next
  case (unsubscribe h i)
  then show ?case by (auto simp: Unsubscribe_def intro: broker_ok_cong)
qed (auto simp: Approve_def Deny_def intro: broker_ok_request broker_ok_submit broker_ok_receive broker_ok_cancel broker_ok_timeout
    broker_ok_resolve broker_ok_finish broker_ok_expire)

lemma broker_ok_New: "broker_ok (NewHITLBroker timeout)" "broker_ok (NewAutoApprovingHITLBroker timeout)"
  by (simp_all add: NewHITLBroker_def NewAutoApprovingHITLBroker_def broker_ok_def registry_ok_def)

lemma broker_ok_run: "hitlRun h ops h' \<Longrightarrow> broker_ok h \<Longrightarrow> broker_ok h'"
  by (induction rule: hitlRun.induct) (auto intro: broker_ok_step)

section \<open>What a step does to one request\<close>

definition sameRequest :: "hitlCall \<Rightarrow> hitlCall \<Rightarrow> bool" where
  "sameRequest c c' \<longleftrightarrow> pq_ID (hc_req c') = pq_ID (hc_req c) \<and> pq_Permission (hc_req c') = pq_Permission (hc_req c) \<and>
     pq_TimeoutBehavior (hc_req c') = pq_TimeoutBehavior (hc_req c)"

inductive objStep :: "hitlOp \<Rightarrow> nat \<Rightarrow> hitlCall \<Rightarrow> hitlCall \<Rightarrow> bool" where
  same: "sameRequest c c' \<Longrightarrow> hc_chan c' = hc_chan c \<Longrightarrow> hc_state c' = hc_state c \<Longrightarrow> objStep op n c c'"
| approved: "sameRequest c c' \<Longrightarrow> hc_state c = Waiting \<Longrightarrow> hc_state c' = Waiting \<Longrightarrow> dc_RequestID d = pq_ID (hc_req c) \<Longrightarrow>
    hc_chan c' = Some (scopedDecision True (hc_req c) d) \<Longrightarrow> objStep (ApproveOp d) n c c'"
| denied: "sameRequest c c' \<Longrightarrow> hc_state c = Waiting \<Longrightarrow> hc_state c' = Waiting \<Longrightarrow> hc_chan c' = Some d \<Longrightarrow> \<not> dc_Approved d \<Longrightarrow>
    objStep (DenyOp rid reason) n c c'"
| received: "sameRequest c c' \<Longrightarrow> hc_chan c = Some d \<Longrightarrow> hc_chan c' = None \<Longrightarrow> hc_state c' = Returned (Inr g) \<Longrightarrow> dc_Approved d \<Longrightarrow>
    pg_Permission g = pq_Permission (hc_req c) \<Longrightarrow> pg_ApprovedBy g = dc_ApprovedBy d \<Longrightarrow> objStep (ReceiveOp now n) n c c'"
| refused: "sameRequest c c' \<Longrightarrow> hc_chan c' \<in> {None, hc_chan c} \<Longrightarrow> hc_state c' = Returned (Inl e) \<Longrightarrow> objStep op n c c'"
| skipped: "sameRequest c c' \<Longrightarrow> hc_chan c' = hc_chan c \<Longrightarrow> hc_state c' = Returned (Inr g) \<Longrightarrow>
    pq_TimeoutBehavior (hc_req c) = HITLTimeoutBehaviorSkip \<Longrightarrow> pg_Permission g = pq_Permission (hc_req c) \<Longrightarrow>
    pg_ApprovedBy g = ''timeout-skip'' \<Longrightarrow> objStep (TimeoutOp now n) n c c'"

lemma sameRequest_refl [simp]: "sameRequest c c"
  by (simp add: sameRequest_def)

lemma objStep_refl [simp]: "objStep op n c c"
  by (rule objStep.same) simp_all

lemma sameRequest_resolvedObj: "sameRequest c (resolvedObj a ch c)"
  by (simp add: sameRequest_def)

lemma objStep_receive:
  assumes "receiveDecision now n h = Some h'" and "n < length (hb_objs h)"
  shows "objStep (ReceiveOp now n) n (hb_objs h ! n) (hb_objs h' ! n)"
proof -
  from assms(1) obtain d where d: "hc_chan (hb_objs h ! n) = Some d" by (auto simp: receiveDecision_def split: option.splits)
  show ?thesis
  proof (cases "dc_Approved d")
    case True
    then show ?thesis
      using assms d by (auto simp: receiveDecision_def Let_def returnCall_def dropRequest_def reqObj_def sameRequest_def
          intro!: objStep.received)
  next
    case False
    then show ?thesis
      using assms d by (auto simp: receiveDecision_def Let_def returnCall_def dropRequest_def reqObj_def sameRequest_def
          intro!: objStep.refused)
  qed
qed

lemma objStep_timeout:
  assumes "n < length (hb_objs h)"
  shows "objStep (TimeoutOp now n) n (hb_objs h ! n) (hb_objs (timeoutCall now n h) ! n)"
proof (cases "pq_TimeoutBehavior (reqObj n h) = HITLTimeoutBehaviorSkip")
  case True
  then show ?thesis using assms
    by (intro objStep.skipped) (auto simp: timeoutCall_def Let_def returnCall_def dropRequest_def reqObj_def sameRequest_def)
next
  case False
  then show ?thesis using assms
    by (intro objStep.refused) (auto simp: timeoutCall_def Let_def returnCall_def dropRequest_def reqObj_def sameRequest_def)
qed

lemma return_other: "m \<noteq> n \<Longrightarrow> hb_objs (cancelCall err msg n h) ! m = hb_objs h ! m"
  "m \<noteq> n \<Longrightarrow> hb_objs (timeoutCall now n h) ! m = hb_objs h ! m"
  "m \<noteq> n \<Longrightarrow> receiveDecision now n h = Some h' \<Longrightarrow> hb_objs h' ! m = hb_objs h ! m"
  by (auto simp: cancelCall_def timeoutCall_def receiveDecision_def Let_def returnCall_def dropRequest_def split: option.splits)

lemma return_length [simp]: "length (hb_objs (cancelCall err msg n h)) = length (hb_objs h)"
  "length (hb_objs (timeoutCall now n h)) = length (hb_objs h)"
  "receiveDecision now n h = Some h' \<Longrightarrow> length (hb_objs h') = length (hb_objs h)"
  by (auto simp: cancelCall_def timeoutCall_def receiveDecision_def Let_def returnCall_def dropRequest_def split: option.splits)

lemma objStep_cancel:
  "n < length (hb_objs h) \<Longrightarrow> objStep op n (hb_objs h ! n) (hb_objs (cancelCall err msg n h) ! n)"
  by (rule objStep.refused) (auto simp: cancelCall_def Let_def returnCall_def dropRequest_def reqObj_def sameRequest_def)

lemma objStep_resolve:
  assumes "broker_ok h" and "m < length (hb_objs h)"
  shows "objStep (ApproveOp d) m (hb_objs h ! m) (hb_objs (snd (Approve d h)) ! m)"
    and "objStep (DenyOp rid reason) m (hb_objs h ! m) (hb_objs (snd (Deny rid reason h)) ! m)"
proof -
  have same: "objStep op m (hb_objs h ! m) ((hb_objs h)[n := resolvedObj a (hc_chan (hb_objs h ! n)) (hb_objs h ! n)] ! m)" for op n a
    using assms(2) by (cases "m = n") (auto intro: objStep.same sameRequest_resolvedObj)
  show "objStep (ApproveOp d) m (hb_objs h ! m) (hb_objs (snd (Approve d h)) ! m)"
    using assms(1) unfolding Approve_def
  proof (cases rule: resolve_cases [where rid = "dc_RequestID d" and approved = True and d = d])
    case (waiter n)
    have "dc_RequestID d = pq_ID (hc_req (hb_objs h ! n))" using broker_ok_obj [OF assms(1) waiter(1)] by (simp add: reqObj_def)
    with waiter assms(2) show "objStep (ApproveOp d) m (hb_objs h ! m) (hb_objs (snd (resolve (dc_RequestID d) True d h)) ! m)"
      by (cases "m = n") (auto simp: reqObj_def intro: objStep.approved sameRequest_resolvedObj)
  qed (auto intro: same)
  let ?d = "\<lparr>dc_RequestID = rid, dc_Approved = False, dc_ApprovedBy = [], dc_Scope = [], dc_ExpiresAt = 0, dc_Reason = reason,
      dc_Conditions = []\<rparr>"
  show "objStep (DenyOp rid reason) m (hb_objs h ! m) (hb_objs (snd (Deny rid reason h)) ! m)"
    using assms(1) unfolding Deny_def
  proof (cases rule: resolve_cases [where rid = rid and approved = False and d = ?d])
    case (waiter n)
    then show "objStep (DenyOp rid reason) m (hb_objs h ! m) (hb_objs (snd (resolve rid False ?d h)) ! m)"
      using assms(2) by (cases "m = n") (auto simp: scopedDecision_def intro: objStep.denied sameRequest_resolvedObj)
  qed (auto intro: same)
qed

lemma resolve_length [simp]: "length (hb_objs (snd (resolve rid a d h))) = length (hb_objs h)"
  by (auto simp: resolve_def setState_def Let_def split: option.splits)

lemma objStep_expire:
  "m < length (hb_objs h) \<Longrightarrow> objStep op m (hb_objs h ! m) (hb_objs (expireDue now h) ! m) \<and> length (hb_objs (expireDue now h)) = length (hb_objs h)"
proof -
  have one: "sameRequest (hb_objs h ! m) (hb_objs (expireOne e h) ! m) \<and> hc_chan (hb_objs (expireOne e h) ! m) = hc_chan (hb_objs h ! m) \<and>
      hc_state (hb_objs (expireOne e h) ! m) = hc_state (hb_objs h ! m) \<and> length (hb_objs (expireOne e h)) = length (hb_objs h)"
    if "m < length (hb_objs h)" for e h
    using that by (cases e) (cases "m = snd e"; simp add: expireOne_def setState_def reqObj_def sameRequest_def)
  have "sameRequest (hb_objs h ! m) (hb_objs (fold expireOne es h) ! m) \<and> hc_chan (hb_objs (fold expireOne es h) ! m) = hc_chan (hb_objs h ! m) \<and>
      hc_state (hb_objs (fold expireOne es h) ! m) = hc_state (hb_objs h ! m) \<and> length (hb_objs (fold expireOne es h)) = length (hb_objs h)"
    if "m < length (hb_objs h)" for es h
    using that
  proof (induction es arbitrary: h)
    case (Cons e es)
    from Cons.IH [of "expireOne e h"] one [OF Cons.prems, of e] Cons.prems show ?case by (simp add: sameRequest_def)
  qed simp
  moreover assume "m < length (hb_objs h)"
  ultimately show ?thesis unfolding expireDue_def Let_def fold_broadcast_frame by (auto intro!: objStep.same)
qed

lemma expire_length [simp]: "length (hb_objs (expireDue now h)) = length (hb_objs h)"
proof -
  have "length (hb_objs (fold expireOne es h)) = length (hb_objs h)" for es h
    by (induction es arbitrary: h) (auto simp: expireOne_def setState_def split: prod.splits)
  then show ?thesis by (simp add: expireDue_def Let_def fold_broadcast_frame)
qed

lemma request_objs:
  "hb_objs (snd (RequestPermission clk req h)) = hb_objs h \<or>
   (\<exists>r. hb_objs (snd (RequestPermission clk req h)) = hb_objs h @ [\<lparr>hc_req = r, hc_chan = None, hc_state = Waiting\<rparr>])"
  "hb_objs (snd (SubmitAsync clk req h)) = hb_objs h \<or>
   (\<exists>r. hb_objs (snd (SubmitAsync clk req h)) = hb_objs h @ [\<lparr>hc_req = r, hc_chan = None, hc_state = Async\<rparr>])"
  by (auto simp: RequestPermission_def SubmitAsync_def Let_def)

lemma step_obj:
  assumes "hitlStep h op h'" and "broker_ok h" and "m < length (hb_objs h')"
  shows "m < length (hb_objs h) \<and> objStep op m (hb_objs h ! m) (hb_objs h' ! m) \<or>
         \<not> m < length (hb_objs h) \<and> hc_chan (hb_objs h' ! m) = None \<and> hc_state (hb_objs h' ! m) \<in> {Waiting, Async}"
  using assms
proof (cases rule: hitlStep.cases)
  case (request clk req)
  then show ?thesis using request_objs(1) [of clk req h] assms(3)
    by (cases "m < length (hb_objs h)") (auto simp: nth_append less_Suc_eq)
next
  case (submit clk req)
  then show ?thesis using request_objs(2) [of clk req h] assms(3)
    by (cases "m < length (hb_objs h)") (auto simp: nth_append less_Suc_eq)
next
  case (receive n now)
  then show ?thesis using assms(3) objStep_receive [OF receive(3)] return_other(3) [OF _ receive(3), of m]
    by (cases "m = n") (auto simp: isWaiting_def)
next
  case (cancel n err msg)
  then show ?thesis using assms(3) objStep_cancel [of n h] return_other(1) [of m n] by (cases "m = n") auto
next
  case (timeout n now)
  then show ?thesis using assms(3) objStep_timeout [of n h] return_other(2) [of m n] by (cases "m = n") auto
next
  case (approve d)
  then show ?thesis using assms(2,3) objStep_resolve(1) by (simp add: Approve_def)
next
  case (deny rid reason)
  then show ?thesis using assms(2,3) objStep_resolve(2) by (simp add: Deny_def)
next
  case (expire now)
  then show ?thesis using assms(3) objStep_expire [of m h] by simp
qed (use assms(3) in \<open>auto simp: finishResolve_def Subscribe_def Unsubscribe_def Let_def\<close>)

section \<open>Grants come from approvals\<close>

text \<open>The call \<open>Approve d\<close> was made while call \<open>n\<close> was waiting, and named its request.\<close>

definition approvedDuring :: "HITLBroker \<Rightarrow> hitlOp list \<Rightarrow> nat \<Rightarrow> PermissionDecision \<Rightarrow> bool" where
  "approvedDuring h0 ops n d \<longleftrightarrow>
     (\<exists>ops1 ops2 h1. ops = ops1 @ ApproveOp d # ops2 \<and> hitlRun h0 ops1 h1 \<and> isWaiting n h1 \<and> pq_ID (reqObj n h1) = dc_RequestID d)"

lemma approvedDuring_snoc: "approvedDuring h0 ops n d \<Longrightarrow> approvedDuring h0 (ops @ [op]) n d"
  unfolding approvedDuring_def by fastforce

definition provenance :: "HITLBroker \<Rightarrow> hitlOp list \<Rightarrow> nat \<Rightarrow> hitlCall \<Rightarrow> bool" where
  "provenance h0 ops n c \<longleftrightarrow>
     (\<forall>d. hc_chan c = Some d \<longrightarrow> dc_Approved d \<longrightarrow>
        (\<exists>d0. approvedDuring h0 ops n d0 \<and> dc_Approved d0 \<and> dc_ApprovedBy d = dc_ApprovedBy d0)) \<and>
     (\<forall>g. hc_state c = Returned (Inr g) \<longrightarrow> pg_Permission g = pq_Permission (hc_req c) \<and>
        ((\<exists>d0. approvedDuring h0 ops n d0 \<and> dc_Approved d0 \<and> pg_ApprovedBy g = dc_ApprovedBy d0) \<or>
         pq_TimeoutBehavior (hc_req c) = HITLTimeoutBehaviorSkip \<and> pg_ApprovedBy g = ''timeout-skip''))"

lemma provenance_snoc: "provenance h0 ops n c \<Longrightarrow> provenance h0 (ops @ [op]) n c"
  unfolding provenance_def by (meson approvedDuring_snoc)

lemma provenance_objStep:
  assumes "objStep op n c c'" and "provenance h0 ops n c" and "\<And>d. op = ApproveOp d \<Longrightarrow> hc_state c = Waiting \<Longrightarrow>
      dc_RequestID d = pq_ID (hc_req c) \<Longrightarrow> approvedDuring h0 (ops @ [op]) n d"
  shows "provenance h0 (ops @ [op]) n c'"
  using assms(1)
proof (cases rule: objStep.cases)
  case (approved d)
  then show ?thesis using assms(3) by (auto simp: provenance_def scopedDecision_def)
qed (use provenance_snoc [OF assms(2), of op] in \<open>auto simp: provenance_def sameRequest_def\<close>)

lemma run_provenance:
  assumes "hitlRun h0 ops h" and "broker_ok h0" and "hb_objs h0 = []"
  shows "hitlRun h0 ops h \<and> broker_ok h \<and> (\<forall>n < length (hb_objs h). provenance h0 ops n (hb_objs h ! n))"
  using assms
proof (induction rule: hitlRun.induct)
  case (snoc h0 ops h op h')
  then have run: "hitlRun h0 ops h" and ok: "broker_ok h" and prov: "\<forall>n < length (hb_objs h). provenance h0 ops n (hb_objs h ! n)"
    by auto
  have "provenance h0 (ops @ [op]) n (hb_objs h' ! n)" if n: "n < length (hb_objs h')" for n
    using step_obj [OF snoc(2) ok n]
  proof (elim disjE conjE)
    assume old: "n < length (hb_objs h)" and st: "objStep op n (hb_objs h ! n) (hb_objs h' ! n)"
    have "approvedDuring h0 (ops @ [op]) n d"
      if "op = ApproveOp d" "hc_state (hb_objs h ! n) = Waiting" "dc_RequestID d = pq_ID (hc_req (hb_objs h ! n))" for d
      using that run old unfolding approvedDuring_def isWaiting_def reqObj_def by fastforce
    then show ?thesis using provenance_objStep [OF st] prov old by blast
  next
    assume "hc_chan (hb_objs h' ! n) = None" "hc_state (hb_objs h' ! n) \<in> {Waiting, Async}"
    then show ?thesis by (auto simp: provenance_def)
  qed
  with snoc(2) run ok show ?case by (auto intro: hitlRun.snoc broker_ok_step)
qed (simp add: hitlRun.nil)

text \<open>
  \<^bold>\<open>C27.\<close> No permission without an approval: whatever calls, resolutions, cancellations, timeouts and sweeps
  interleave, a blocking request of a governed broker returns a grant only if an \<open>Approve\<close> call that
  named the request and said approved was made while the call waited, and the grant carries that
  approver, or if the request itself asked to be skipped on timeout and the grant is marked as such.
  The grant is for the requested permission.
\<close>

theorem grant_needs_approval:
  assumes "hitlRun (NewHITLBroker timeout) ops h" and "n < length (hb_objs h)" and "hc_state (hb_objs h ! n) = Returned (Inr g)"
  shows "pg_Permission g = pq_Permission (reqObj n h) \<and>
         ((\<exists>d. approvedDuring (NewHITLBroker timeout) ops n d \<and> dc_Approved d \<and> pg_ApprovedBy g = dc_ApprovedBy d) \<or>
          pq_TimeoutBehavior (reqObj n h) = HITLTimeoutBehaviorSkip \<and> pg_ApprovedBy g = ''timeout-skip'')"
proof -
  have "provenance (NewHITLBroker timeout) ops n (hb_objs h ! n)"
    using run_provenance [OF assms(1) broker_ok_New(1)] assms(2) by (simp add: NewHITLBroker_def)
  then show ?thesis using assms(3) by (simp add: provenance_def reqObj_def)
qed

text \<open>
  \<^bold>\<open>C17.\<close> No call waits for a request that cannot be resolved any more: in every state that a governed broker can reach, a
  waiting call either has a decision in its channel, and receiving it makes the call return, or its channel is
  empty, and the approval or denial of its request succeeds and fills the channel with the decision given.
\<close>

theorem waiting_call_resolvable:
  assumes "hitlRun (NewHITLBroker timeout) ops h" and "isWaiting n h"
  shows "(\<exists>d h'. hc_chan (hb_objs h ! n) = Some d \<and> receiveDecision now n h = Some h' \<and> (\<exists>r. hc_state (hb_objs h' ! n) = Returned r)) \<or>
         hc_chan (hb_objs h ! n) = None \<and> fst (resolve (pq_ID (reqObj n h)) approved d h) = None \<and>
         hc_chan (hb_objs (snd (resolve (pq_ID (reqObj n h)) approved d h)) ! n) = Some (scopedDecision approved (reqObj n h) d)"
proof -
  have ok: "broker_ok h" using broker_ok_run [OF assms(1) broker_ok_New(1)] .
  have n: "n < length (hb_objs h)" using assms(2) by (simp add: isWaiting_def)
  show ?thesis
  proof (cases "hc_chan (hb_objs h ! n)")
    case None
    have reg: "map_of (hb_requests h) (pq_ID (reqObj n h)) = Some n" by (rule waiting_registered [OF ok assms(2)])
    with broker_ok_obj [OF ok reg] None assms(2) have pend: "pq_State (reqObj n h) = ''pending''" "map_of (hb_waiters h) (pq_ID (reqObj n h)) = Some n"
      by (auto simp: obj_ok_def Let_def reqObj_def isWaiting_def)
    from ok None reg pend show ?thesis
    proof (cases rule: resolve_cases [where rid = "pq_ID (reqObj n h)" and approved = approved and d = d])
      case (waiter w)
      then show ?thesis using reg None by auto
    qed auto
  next
    case (Some d)
    then show ?thesis using n by (auto simp: receiveDecision_def Let_def returnCall_def dropRequest_def)
  qed
qed

section \<open>Expiry and single resolution\<close>

lemma fold_expire_requests:
  "map_of (hb_requests (fold expireOne es h)) rid = (if rid \<in> fst ` set es then None else map_of (hb_requests h) rid)"
proof (induction es arbitrary: h)
  case (Cons e es)
  have "hb_requests (expireOne e h) = AList.delete (fst e) (hb_requests h)" by (cases e) (simp add: expireOne_def setState_def)
  with Cons show ?case by simp
qed simp

lemma fold_expire_reqObj:
  "n \<notin> snd ` set es \<Longrightarrow> reqObj n (fold expireOne es h) = reqObj n h"
proof (induction es arbitrary: h)
  case (Cons e es)
  then have "reqObj n (expireOne e h) = reqObj n h" by (cases e) (auto simp: expireOne_def setState_def reqObj_def)
  with Cons show ?case by simp
qed simp

text \<open>
  The sweep expires exactly what is due: it removes from the registry exactly the pending requests
  without a waiting call whose lifetime (their own timeout, or the broker's) has passed, so that a
  late approval of one of them fails, and leaves every other request registered as it was.
\<close>

theorem expireDue_exact:
  assumes "hitlRun (NewHITLBroker timeout) ops h"
  shows "map_of (hb_requests (expireDue now h)) rid =
           (case map_of (hb_requests h) rid of None \<Rightarrow> None | Some n \<Rightarrow> if isDue now h (rid, n) then None else Some n) \<and>
         (\<forall>n. map_of (hb_requests h) rid = Some n \<longrightarrow>
            (if isDue now h (rid, n) then fst (resolve rid a d (expireDue now h)) \<noteq> None
             else reqObj n (expireDue now h) = reqObj n h))"
proof -
  have ok: "broker_ok h" using broker_ok_run [OF assms broker_ok_New(1)] .
  define es where "es = filter (isDue now h) (hb_requests h)"
  have mem: "(i, n) \<in> set (hb_requests h) \<longleftrightarrow> map_of (hb_requests h) i = Some n" for i n
    using ok by (auto simp: broker_ok_def intro: map_of_is_SomeI dest: map_of_SomeD)
  have R: "map_of (hb_requests (expireDue now h)) i = (if i \<in> fst ` set es then None else map_of (hb_requests h) i)" for i
    by (simp add: expireDue_def Let_def fold_broadcast_frame fold_expire_requests flip: es_def)
  have in_es: "i \<in> fst ` set es \<longleftrightarrow> (\<exists>n. map_of (hb_requests h) i = Some n \<and> isDue now h (i, n))" for i
    by (force simp: mem es_def)
  have obj: "reqObj n (expireDue now h) = reqObj n (fold expireOne es h)" for n
    by (simp add: expireDue_def Let_def reqObj_def fold_broadcast_frame flip: es_def)
  have fresh: "n \<notin> snd ` set es" if "map_of (hb_requests h) rid = Some n" "\<not> isDue now h (rid, n)" for n
  proof
    assume "n \<in> snd ` set es"
    then obtain i where "map_of (hb_requests h) i = Some n" "isDue now h (i, n)" by (auto simp: mem es_def)
    with that broker_ok_obj [OF ok] show False by metis
  qed
  show ?thesis
  proof (cases "map_of (hb_requests h) rid")
    case None
    then show ?thesis by (simp add: R in_es)
  next
    case (Some n)
    then show ?thesis
      using fresh [OF Some] by (cases "isDue now h (rid, n)") (simp_all add: R in_es obj fold_expire_reqObj resolve_def)
  qed
qed

definition noPending :: "string \<Rightarrow> HITLBroker \<Rightarrow> bool" where
  "noPending rid h \<longleftrightarrow> (\<forall>n. map_of (hb_requests h) rid = Some n \<longrightarrow> pq_State (reqObj n h) \<noteq> ''pending'')"

lemma noPending_resolve: "noPending rid h \<Longrightarrow> fst (resolve rid a d h) \<noteq> None"
  by (auto simp: noPending_def resolve_def split: option.splits)

text \<open>Steps that register nothing only shrink the set of pending requests.\<close>

definition shrinks :: "HITLBroker \<Rightarrow> HITLBroker \<Rightarrow> bool" where
  "shrinks h h' \<longleftrightarrow> (\<forall>i n. map_of (hb_requests h') i = Some n \<longrightarrow> map_of (hb_requests h) i = Some n) \<and>
     (\<forall>n. pq_State (reqObj n h') = ''pending'' \<longrightarrow> pq_State (reqObj n h) = ''pending'')"

lemma shrinks_noPending: "shrinks h h' \<Longrightarrow> noPending rid h \<Longrightarrow> noPending rid h'"
  by (auto simp: shrinks_def noPending_def)

lemma shrinks_refl [simp]: "shrinks h h"
  by (simp add: shrinks_def)

lemma shrinks_trans: "shrinks a b \<Longrightarrow> shrinks b c \<Longrightarrow> shrinks a c"
  by (auto simp: shrinks_def)

lemma reqObj_return [simp]: "reqObj m (returnCall n r h) = reqObj m h" "reqObj m (dropRequest i h) = reqObj m h"
  by (simp_all add: reqObj_def returnCall_def dropRequest_def nth_update_proj)

lemma shrinks_return:
  assumes "\<And>m. reqObj m h' = reqObj m h" and "hb_requests h' = hb_requests h"
  shows "shrinks h (returnCall n r (broadcast ev (dropRequest i h')))" and "shrinks h (returnCall n r (dropRequest i h'))"
  using assms by (auto simp: shrinks_def) (auto simp: returnCall_def dropRequest_def split: if_splits)

lemma setState_pending: "s \<noteq> ''pending'' \<Longrightarrow> pq_State (reqObj m (setState n s h)) = ''pending'' \<Longrightarrow> pq_State (reqObj m h) = ''pending''"
  by (cases "n < length (hb_objs h)"; cases "m = n") (auto simp: setState_def reqObj_def not_less list_update_beyond)

lemma shrinks_setState: "s \<noteq> ''pending'' \<Longrightarrow> shrinks h (setState n s h)"
  using setState_pending [of s _ n h] by (auto simp: shrinks_def) (simp add: setState_def)

lemma shrinks_cong: "shrinks h h' \<Longrightarrow> hb_requests h'' = hb_requests h' \<Longrightarrow> (\<And>n. reqObj n h'' = reqObj n h') \<Longrightarrow> shrinks h h''"
  by (simp add: shrinks_def)

lemma shrinks_resolve: "shrinks h (snd (resolve rid a d h))"
proof (cases "map_of (hb_requests h) rid")
  case (Some n)
  let ?h = "setState n (if a then ''approved'' else ''denied'') h"
  have s: "shrinks h ?h" by (rule shrinks_setState) simp
  show ?thesis
  proof (cases "pq_State (reqObj n h) = ''pending''")
    case True
    show ?thesis
      by (rule shrinks_cong [OF s]; use Some True in \<open>simp add: resolve_def Let_def split: option.split\<close>)
        (auto simp: reqObj_def nth_update_proj)
  qed (simp add: resolve_def Some)
qed (simp add: resolve_def)

lemma shrinks_expire: "shrinks h (expireDue now h)"
proof -
  have one: "shrinks h (expireOne e h)" for e h
  proof -
    obtain i n where e: "e = (i, n)" by (cases e)
    have "shrinks h (setState n ''expired'' h)" by (rule shrinks_setState) simp
    then show ?thesis by (auto simp: e expireOne_def shrinks_def reqObj_def setState_def split: if_splits)
  qed
  have "shrinks h (fold expireOne es h)" for es h
    by (induction es arbitrary: h) (auto intro: shrinks_trans one)
  then show ?thesis unfolding expireDue_def Let_def by (rule shrinks_cong) (simp_all add: fold_broadcast_frame reqObj_def)
qed

lemma shrinks_step:
  assumes "hitlStep h op h'" and "\<And>clk req. op \<noteq> RequestOp clk req" and "\<And>clk req. op \<noteq> SubmitOp clk req"
  shows "shrinks h h'"
  using assms(1)
proof (cases rule: hitlStep.cases)
  case (receive n now)
  then show ?thesis
    by (auto simp: receiveDecision_def Let_def split: option.splits intro!: shrinks_return) (simp_all add: reqObj_def nth_update_proj)
next
  case (finish rid)
  then show ?thesis by (auto simp: finishResolve_def shrinks_def reqObj_def split: if_splits)
qed (use assms(2,3) in \<open>auto simp: Approve_def Deny_def shrinks_resolve shrinks_expire cancelCall_def timeoutCall_def Let_def
    Subscribe_def Unsubscribe_def intro!: shrinks_return intro: shrinks_cong [OF shrinks_refl] simp: reqObj_def\<close>)

definition registers :: "string \<Rightarrow> hitlOp \<Rightarrow> bool" where
  "registers rid op = (case op of RequestOp clk req \<Rightarrow> pq_ID (stampRequest clk req) = rid
     | SubmitOp clk req \<Rightarrow> pq_ID (stampRequest clk req) = rid | _ \<Rightarrow> False)"

lemma noPending_register:
  assumes "broker_ok h" and "noPending rid h" and "pq_ID (stampRequest clk req) \<noteq> rid"
  shows "noPending rid (snd (RequestPermission clk req h))" and "noPending rid (snd (SubmitAsync clk req h))"
  using assms broker_ok_obj [OF assms(1), of rid]
  by (auto simp: noPending_def RequestPermission_def SubmitAsync_def Let_def reqObj_def nth_append)

lemma noPending_step:
  assumes "hitlStep h op h'" and "broker_ok h" and "noPending rid h" and "\<not> registers rid op"
  shows "noPending rid h'"
proof (cases op)
  case (RequestOp clk req)
  with assms show ?thesis by (auto simp: registers_def elim!: hitlStep.cases intro: noPending_register)
next
  case (SubmitOp clk req)
  with assms show ?thesis by (auto simp: registers_def elim!: hitlStep.cases intro: noPending_register)
qed (use assms shrinks_noPending [OF shrinks_step] in auto)

lemma noPending_run:
  "hitlRun h ops h' \<Longrightarrow> broker_ok h \<Longrightarrow> noPending rid h \<Longrightarrow> list_all (\<lambda>op. \<not> registers rid op) ops \<Longrightarrow> noPending rid h'"
  by (induction rule: hitlRun.induct) (auto intro: noPending_step broker_ok_run)

lemma noPending_resolved:
  assumes "broker_ok h"
  shows "noPending rid (snd (resolve rid a d h))"
  using assms
proof (cases rule: resolve_cases [where rid = rid and approved = a and d = d])
  case (missing e)
  then show ?thesis by (simp add: noPending_def)
qed (auto simp: noPending_def reqObj_def)

text \<open>
  A request is resolved at most once: after an \<open>Approve\<close> or \<open>Deny\<close> call for an identifier, every
  later resolution of that identifier is refused, whatever happens in between, as long as no new
  request is registered under the same identifier.
\<close>

theorem resolved_at_most_once:
  assumes "hitlRun (NewHITLBroker timeout) ops h" and "hitlRun (snd (resolve rid approved d h)) ops' h'"
    and "list_all (\<lambda>op. \<not> registers rid op) ops'"
  shows "\<exists>err. resolve rid approved' d' h' = (Some err, h')"
proof -
  have ok: "broker_ok h" using broker_ok_run [OF assms(1) broker_ok_New(1)] .
  have "noPending rid h'" by (rule noPending_run [OF assms(2) broker_ok_resolve [OF ok] noPending_resolved [OF ok] assms(3)])
  then show ?thesis by (auto simp: noPending_def resolve_def split: option.splits)
qed

section \<open>Witnesses\<close>

definition wAsk :: PermissionRequest where
  "wAsk = newRequest \<lparr>dp_Type = ''exec'', dp_Action = ''exec'', dp_Resource = ''git'', dp_Metadata = [], dp_RequiresHITL = True\<rparr>
     ''push'' GrantScopeSession 0 RiskLevelMedium"

definition wYes :: PermissionDecision where
  "wYes = \<lparr>dc_RequestID = ''hitl-7'', dc_Approved = True, dc_ApprovedBy = ''alice'', dc_Scope = [], dc_ExpiresAt = 0,
     dc_Reason = [], dc_Conditions = []\<rparr>"

definition wB1 :: HITLBroker where "wB1 = snd (RequestPermission (\<lambda>_. unixEpoch + 7) wAsk (NewHITLBroker 0))"
definition wB2 :: HITLBroker where "wB2 = snd (Approve wYes wB1)"
definition wB3 :: HITLBroker where "wB3 = the (receiveDecision 9 0 wB2)"
definition wA1 :: HITLBroker where "wA1 = snd (SubmitAsync (\<lambda>_. unixEpoch + 7) wAsk (NewHITLBroker 60))"

lemma wB_facts: "isWaiting 0 wB1" "isWaiting 0 wB2" "\<exists>h. receiveDecision 9 0 wB2 = Some h"
proof -
  show "isWaiting 0 wB1" "isWaiting 0 wB2" by code_simp+
  have "receiveDecision 9 0 wB2 \<noteq> None" by code_simp
  then show "\<exists>h. receiveDecision 9 0 wB2 = Some h" by simp
qed

lemma wB_run1: "hitlRun (NewHITLBroker 0) [RequestOp (\<lambda>_. unixEpoch + 7) wAsk] wB1"
  using hitlRun.snoc [OF hitlRun.nil hitlStep.request] by (simp add: wB1_def)

lemma wB_run2: "hitlRun (NewHITLBroker 0) [RequestOp (\<lambda>_. unixEpoch + 7) wAsk, ApproveOp wYes] wB2"
  using hitlRun.snoc [OF wB_run1 hitlStep.approve [of _ wYes]] by (simp add: wB2_def)

lemma wB_run3: "hitlRun (NewHITLBroker 0) [RequestOp (\<lambda>_. unixEpoch + 7) wAsk, ApproveOp wYes, ReceiveOp 9 0] wB3"
proof -
  have "hitlStep wB2 (ReceiveOp 9 0) wB3" using wB_facts by (auto simp: wB3_def intro: hitlStep.receive)
  from hitlRun.snoc [OF wB_run2 this] show ?thesis by simp
qed

lemma wA_run: "hitlRun (NewHITLBroker 60) [SubmitOp (\<lambda>_. unixEpoch + 7) wAsk] wA1"
  using hitlRun.snoc [OF hitlRun.nil hitlStep.submit] by (simp add: wA1_def)

theorem grant_needs_approval_witness:
  "\<exists>g. hc_state (hb_objs wB3 ! 0) = Returned (Inr g) \<and> pg_Permission g = pq_Permission wAsk \<and> pg_ApprovedBy g \<noteq> ''timeout-skip''"
proof -
  have len: "0 < length (hb_objs wB3)" and perm: "pq_Permission (reqObj 0 wB3) = pq_Permission wAsk"
    and fail: "pq_TimeoutBehavior (reqObj 0 wB3) = []" by code_simp+
  have "(case hc_state (hb_objs wB3 ! 0) of Returned (Inr g) \<Rightarrow> pg_ApprovedBy g = ''alice'' | _ \<Rightarrow> False)" by code_simp
  then obtain g where g: "hc_state (hb_objs wB3 ! 0) = Returned (Inr g)" "pg_ApprovedBy g = ''alice''"
    by (auto split: callState.splits sum.splits)
  from grant_needs_approval [OF wB_run3 len g(1)] g perm show ?thesis by auto
qed

theorem waiting_call_resolvable_witness:
  "fst (resolve (pq_ID (reqObj 0 wB1)) True wYes wB1) = None"
proof -
  have "hc_chan (hb_objs wB1 ! 0) = None" by code_simp
  with waiting_call_resolvable [OF wB_run1 wB_facts(1), of _ True wYes] show ?thesis by auto
qed

theorem expireDue_exact_witness:
  "map_of (hb_requests (expireDue (unixEpoch + 500) wA1)) ''hitl-7'' = None \<and>
   fst (resolve ''hitl-7'' True wYes (expireDue (unixEpoch + 500) wA1)) \<noteq> None"
proof -
  have "map_of (hb_requests wA1) ''hitl-7'' = Some 0" "isDue (unixEpoch + 500) wA1 (''hitl-7'', 0)" by code_simp+
  with expireDue_exact [OF wA_run, of "unixEpoch + 500" "''hitl-7''" True wYes] show ?thesis by simp
qed

theorem resolved_at_most_once_witness:
  "\<exists>err. resolve ''hitl-7'' False wYes wB2 = (Some err, wB2)"
proof -
  have "hitlRun (snd (resolve ''hitl-7'' True wYes wB1)) [] wB2" by (simp add: wB2_def Approve_def wYes_def hitlRun.nil)
  from resolved_at_most_once [OF wB_run1 this] show ?thesis by simp
qed

end
