(* ===== verification/Jobs.thy ===== *)
theory Jobs
  imports Prelude
begin

text \<open>
  Background jobs (\<open>jobs/job.go\<close>, \<open>jobs/handler.go\<close>): specifications, jobs, events and checkpoints
  with their validation, and the retry delay. A payload or checkpoint state of type \<open>any\<close> is its
  JSON text, \<open>None\<close> for nil.
\<close>

section \<open>Data\<close>

type_synonym jobState = string
type_synonym eventType = string

abbreviation StateQueued :: jobState where "StateQueued \<equiv> ''queued''"
abbreviation StateRunning :: jobState where "StateRunning \<equiv> ''running''"
abbreviation StateCompleted :: jobState where "StateCompleted \<equiv> ''completed''"
abbreviation StateFailed :: jobState where "StateFailed \<equiv> ''failed''"
abbreviation StateCancelled :: jobState where "StateCancelled \<equiv> ''cancelled''"

definition State_Valid :: "jobState \<Rightarrow> bool" where
  "State_Valid s \<longleftrightarrow> s \<in> {StateQueued, StateRunning, StateCompleted, StateFailed, StateCancelled}"

abbreviation EventFailed :: eventType where "EventFailed \<equiv> ''failed''"
abbreviation EventRetried :: eventType where "EventRetried \<equiv> ''retried''"

definition EventType_Valid :: "eventType \<Rightarrow> bool" where
  "EventType_Valid t \<longleftrightarrow>
     t \<in> {''created'', ''started'', ''checkpoint'', ''completed'', EventFailed, ''cancelled'', EventRetried}"

record JobSpec =
  js_Kind :: string
  js_Payload :: "string option"
  js_Queue :: string
  js_Priority :: int
  js_MaxAttempts :: int
  js_Backoff :: int
  js_Timeout :: int
  js_Labels :: "(string \<times> string) list"
  js_Tags :: "string list"
  js_CorrelateID :: string

record Job =
  jb_ID :: string
  jb_Spec :: JobSpec
  jb_State :: jobState
  jb_Attempt :: int
  jb_CreatedAt :: time
  jb_UpdatedAt :: time
  jb_CompletedAt :: time
  jb_NextAttemptAt :: time
  jb_LastError :: string
  jb_Labels :: "(string \<times> string) list"
  jb_Tags :: "string list"
  jb_Metadata :: "(string \<times> string) list"
  jb_ResumeToken :: string

record Event =
  ev_ID :: string
  ev_JobID :: string
  ev_Type :: eventType
  ev_State :: jobState
  ev_Occurred :: time
  ev_Message :: string
  ev_Metadata :: "(string \<times> string) list"

record Checkpoint =
  ck_ID :: string
  ck_JobID :: string
  ck_State :: "string option"
  ck_Token :: string
  ck_Created :: time

section \<open>Validation\<close>

definition dayLimit :: int where
  "dayLimit = 24 * 3600 * 1000000000"

fun labelsErr :: "(string \<times> string) list \<Rightarrow> goerr option" where
  "labelsErr [] = None"
| "labelsErr ((k, v) # m) =
     (if TrimSpace k = [] then Some (Err ''label key required'')
      else if TrimSpace v = [] then Some (Err (''label '' @ [CHR 0x22] @ k @ [CHR 0x22] @ '' value required''))
      else labelsErr m)"

definition tagsErr :: "string list \<Rightarrow> goerr option" where
  "tagsErr tags = (if list_ex (\<lambda>t. TrimSpace t = []) tags then Some (Err ''tag must not be empty'') else None)"

definition Spec_Valid :: "JobSpec \<Rightarrow> goerr option" where
  "Spec_Valid s =
     (case firstErr
        [(TrimSpace (js_Kind s) = [], Err ''kind required''),
         (js_Payload s = None, Err ''payload required''),
         (TrimSpace (js_Queue s) = [], Err ''queue required''),
         (js_MaxAttempts s < 0, Err ''max_attempts must be >= 0''),
         (js_Backoff s < 0, Err ''backoff must be >= 0''),
         (js_Backoff s > dayLimit,
          Err ''backoff must be <= 24h: an absurd backoff is a spec error, not a runtime surprise''),
         (js_Timeout s < 0, Err ''timeout must be >= 0'')] of
        Some e \<Rightarrow> Some e
      | None \<Rightarrow>
          (case labelsErr (js_Labels s) of
             Some e \<Rightarrow> Some e
           | None \<Rightarrow> tagsErr (js_Tags s)))"

definition Job_Valid :: "Job \<Rightarrow> goerr option" where
  "Job_Valid j =
     (if TrimSpace (jb_ID j) = [] then Some (Err ''id required'')
      else case Spec_Valid (jb_Spec j) of
        Some err \<Rightarrow> Some (Wrap ''spec: '' err)
      | None \<Rightarrow>
          (case firstErr
             [(\<not> State_Valid (jb_State j), Err (''state '' @ [CHR 0x22] @ jb_State j @ [CHR 0x22] @ '' invalid'')),
              (jb_Attempt j < 0, Err ''attempt must be >= 0''),
              (IsZero (jb_CreatedAt j), Err ''created_at required''),
              (\<not> IsZero (jb_UpdatedAt j) \<and> jb_UpdatedAt j < jb_CreatedAt j,
               Err ''updated_at must be after created_at''),
              (\<not> IsZero (jb_CompletedAt j) \<and> jb_CompletedAt j < jb_CreatedAt j,
               Err ''completed_at must be after created_at'')] of
             Some e \<Rightarrow> Some e
           | None \<Rightarrow>
               (case labelsErr (jb_Labels j) of
                  Some e \<Rightarrow> Some e
                | None \<Rightarrow> tagsErr (jb_Tags j))))"

definition Event_Valid :: "Event \<Rightarrow> goerr option" where
  "Event_Valid e = firstErr
     [(TrimSpace (ev_ID e) = [], Err ''event id required''),
      (TrimSpace (ev_JobID e) = [], Err ''job id required''),
      (\<not> EventType_Valid (ev_Type e), Err (''event type '' @ [CHR 0x22] @ ev_Type e @ [CHR 0x22] @ '' invalid'')),
      (IsZero (ev_Occurred e), Err ''occurred required'')]"

definition Checkpoint_Valid :: "Checkpoint \<Rightarrow> goerr option" where
  "Checkpoint_Valid c = firstErr
     [(TrimSpace (ck_ID c) = [], Err ''checkpoint id required''),
      (TrimSpace (ck_JobID c) = [], Err ''job id required''),
      (ck_State c = None, Err ''state required''),
      (IsZero (ck_Created c), Err ''created required'')]"

section \<open>The retry delay\<close>

definition maxBackoffBase :: int where
  "maxBackoffBase = 2 ^ 59 - 1"

definition backoffCap :: int where
  "backoffCap = 5 * 60 * 1000000000"

text \<open>The shift is on \<open>int64\<close>: \<open>base << shift\<close> is the wrapped product.\<close>

definition NextBackoff :: "JobSpec \<Rightarrow> int \<Rightarrow> int" where
  "NextBackoff spec attempt =
     (let base = js_Backoff spec;
          base = (if base \<le> 0 then 30 * 1000000000 else base);
          base = (if base > maxBackoffBase then maxBackoffBase else base);
          attempt = (if attempt < 1 then 1 else attempt);
          shift = nat (attempt - 1);
          shift = (if shift > 5 then 5 else shift);
          d = wrap64 (base * 2 ^ shift)
      in if d > backoffCap then backoffCap else d)"

definition maxAttempts :: "Job \<Rightarrow> int" where
  "maxAttempts j = (if js_MaxAttempts (jb_Spec j) \<le> 0 then 1 else js_MaxAttempts (jb_Spec j))"

definition backoffBase :: "JobSpec \<Rightarrow> int" where
  "backoffBase spec = (if js_Backoff spec \<le> 0 then 30 * 1000000000 else js_Backoff spec)"

lemma NextBackoff_curve:
  assumes "js_Backoff spec < 2 ^ 58"
  shows "NextBackoff spec attempt = min backoffCap (backoffBase spec * 2 ^ min (nat (attempt - 1)) 5)"
proof -
  let ?b = "backoffBase spec" and ?s = "min (nat (attempt - 1)) 5"
  have b: "0 < ?b" "?b \<le> 2 ^ 58 - 1" using assms by (auto simp: backoffBase_def)
  have "(2::int) ^ ?s \<le> 2 ^ 5" by (rule power_increasing) auto
  then have "?b * 2 ^ ?s \<le> (2 ^ 58 - 1) * 2 ^ 5" using b by (intro mult_mono) auto
  moreover have "0 < ?b * 2 ^ ?s" using b by simp
  ultimately have wrap: "wrap64 (?b * 2 ^ ?s) = ?b * 2 ^ ?s"
    by (intro wrap64_id) (simp_all add: minInt64_def maxInt64_def)
  have base: "(if (if js_Backoff spec \<le> 0 then 30 * 1000000000 else js_Backoff spec) > maxBackoffBase
      then maxBackoffBase else (if js_Backoff spec \<le> 0 then 30 * 1000000000 else js_Backoff spec)) = ?b"
    using b by (simp add: backoffBase_def maxBackoffBase_def)
  have shift: "(if nat ((if attempt < 1 then 1 else attempt) - 1) > 5 then 5
      else nat ((if attempt < 1 then 1 else attempt) - 1)) = ?s"
    by auto
  show ?thesis unfolding NextBackoff_def Let_def base shift wrap by (simp add: min_def)
qed

lemma Spec_Valid_backoff: "Spec_Valid spec = None \<Longrightarrow> js_Backoff spec \<le> dayLimit"
  by (auto simp: Spec_Valid_def split: if_splits option.splits)

text \<open>
  \<^bold>\<open>C40.\<close> For every specification that validation accepts and every attempt number, the retry delay is the
  documented curve (base doubled per attempt, at most 32 times the base, at most five minutes, 30
  seconds when no base is given) without wrap-around; it is positive and does not decrease from
  one attempt to the next.
\<close>

theorem nextBackoff_curve_bounded:
  assumes "Spec_Valid spec = None"
  shows "NextBackoff spec attempt = min backoffCap (backoffBase spec * 2 ^ min (nat (attempt - 1)) 5) \<and>
         0 < NextBackoff spec attempt \<and> NextBackoff spec attempt \<le> backoffCap \<and>
         NextBackoff spec attempt \<le> NextBackoff spec (attempt + 1)"
proof -
  have small: "js_Backoff spec < 2 ^ 58" using Spec_Valid_backoff [OF assms] by (simp add: dayLimit_def)
  have b: "0 < backoffBase spec" by (simp add: backoffBase_def)
  have "(2::int) ^ min (nat (attempt - 1)) 5 \<le> 2 ^ min (nat (attempt + 1 - 1)) 5"
    by (rule power_increasing) auto
  then have "backoffBase spec * 2 ^ min (nat (attempt - 1)) 5 \<le> backoffBase spec * 2 ^ min (nat (attempt + 1 - 1)) 5"
    using b by (intro mult_left_mono) auto
  then show ?thesis
    using b by (auto simp: NextBackoff_curve [OF small] backoffCap_def min_le_iff_disj)
qed

definition wJobSpec :: "int \<Rightarrow> JobSpec" where
  "wJobSpec backoff = \<lparr>js_Kind = ''index'', js_Payload = Some ''{}'', js_Queue = ''knowledge'', js_Priority = 5,
     js_MaxAttempts = 3, js_Backoff = backoff, js_Timeout = 0, js_Labels = [], js_Tags = [], js_CorrelateID = ''c1''\<rparr>"

theorem nextBackoff_curve_bounded_witness:
  "0 < NextBackoff (wJobSpec 7000000000) 4 \<and> NextBackoff (wJobSpec 7000000000) 4 = 56000000000"
proof -
  have "Spec_Valid (wJobSpec 7000000000) = None" by code_simp
  from nextBackoff_curve_bounded [OF this, of 4] show ?thesis
    by (simp add: backoffCap_def backoffBase_def wJobSpec_def)
qed

text \<open>
  The clamp on the base is too weak by one bit for a specification that was not validated: at the
  clamp value of \<open>2^59 - 1\<close> the delay is positive for the first five attempts and negative from the
  sixth on.
\<close>

theorem nextBackoff_clamp_wraps:
  "NextBackoff (wJobSpec maxBackoffBase) 5 = backoffCap \<and> NextBackoff (wJobSpec maxBackoffBase) 6 = - 32"
  by code_simp

end
