(* ===== verification/JobsStore.thy ===== *)
theory JobsStore
  imports Jobs
begin

text \<open>
  The durable job store (\<open>context/jobsstore/jobsstore.go\<close>) over Badger transactions.

  Badger is a library outside the repository: the operations of its read-write transaction are a
  parameter \<open>B\<close> of every definition, a record of functions on an unspecified transaction type
  \<open>'t\<close>. The predicate \<open>badger_laws\<close> states what its documentation promises, through the map
  \<open>\<alpha> t\<close> of keys to values that a transaction sees. Every operation may fail with an I/O error.

  A stored value is represented by what was marshalled into it; reading it back as another type
  is a decoding error. \<open>db.Update\<close> commits when its body returns without error and discards the
  transaction otherwise; Badger's transactions are serializable, so each attempt of
  \<open>retryTxnCtx\<close> runs its body on the state at its place in the serial order.
\<close>

section \<open>Transactions\<close>

datatype jobErr =
    ErrKeyNotFound
  | ErrNotFound
  | ErrCkptNotFound
  | ErrExists
  | ErrBadgerConflict
  | ErrCtx goerr
  | ErrOther goerr

datatype sval = JobJSON Job | EventJSON Event | CkptJSON Checkpoint | Bytes string

record 't badger =
  bg_Get :: "string \<Rightarrow> 't \<Rightarrow> jobErr + sval"
  bg_Set :: "string \<Rightarrow> sval \<Rightarrow> 't \<Rightarrow> jobErr + 't"
  bg_Delete :: "string \<Rightarrow> 't \<Rightarrow> jobErr + 't"
  bg_Scan :: "string \<Rightarrow> 't \<Rightarrow> (string \<times> sval) list"

text \<open>Sequencing of fallible steps.\<close>

definition ebind :: "'e + 'a \<Rightarrow> ('a \<Rightarrow> 'e + 'b) \<Rightarrow> 'e + 'b" where
  "ebind x f = (case x of Inl e \<Rightarrow> Inl e | Inr a \<Rightarrow> f a)"

lemma ebind_simps [simp]: "ebind (Inl e) f = Inl e" "ebind (Inr a) f = f a"
  by (simp_all add: ebind_def)

lemma ebind_Inr: "ebind x f = Inr b \<longleftrightarrow> (\<exists>a. x = Inr a \<and> f a = Inr b)"
  by (cases x) simp_all

definition errIsNotFound :: "jobErr \<Rightarrow> bool" where
  "errIsNotFound e \<longleftrightarrow> e = ErrKeyNotFound \<or> e = ErrNotFound \<or> e = ErrCkptNotFound"

section \<open>Keys\<close>

definition jobKey :: "string \<Rightarrow> string" where
  "jobKey jid = ''j:'' @ jid"

definition clampPriority :: "int \<Rightarrow> int" where
  "clampPriority pri = (let pri = (if pri < 0 then 0 else pri) in if pri > 999999 then 999999 else pri)"

definition readyIndexKey :: "Job \<Rightarrow> string" where
  "readyIndexKey j =
     ''q:'' @ js_Queue (jb_Spec j) @ '':'' @ fmtPad 6 (999999 - clampPriority (js_Priority (jb_Spec j))) @ '':'' @
     fmtPad 20 (UnixNano (jb_CreatedAt j)) @ '':'' @ jb_ID j"

definition readyIndexPrefix :: "string \<Rightarrow> string" where
  "readyIndexPrefix queue = ''q:'' @ queue @ '':''"

definition runningIndexKey :: "string \<Rightarrow> string \<Rightarrow> string" where
  "runningIndexKey worker jid = ''w:'' @ worker @ '':'' @ jid"

definition runningIndexPrefix :: string where
  "runningIndexPrefix = ''w:''"

definition eventKey :: "string \<Rightarrow> nat \<Rightarrow> string" where
  "eventKey jid seq = ''e:'' @ jid @ '':'' @ decPad 20 seq"

definition eventPrefix :: "string \<Rightarrow> string" where
  "eventPrefix jid = ''e:'' @ jid @ '':''"

definition eventSeqKey :: "string \<Rightarrow> string" where
  "eventSeqKey jid = ''n:'' @ jid"

definition correlateKey :: "string \<Rightarrow> string" where
  "correlateKey cid = ''x:'' @ cid"

definition checkpointKey :: "string \<Rightarrow> string" where
  "checkpointKey jid = ''c:'' @ jid"

definition maxConflictRetries :: nat where
  "maxConflictRetries = 50"

section \<open>Reading and writing jobs\<close>

definition loadTxn :: "'t badger \<Rightarrow> 't \<Rightarrow> string \<Rightarrow> jobErr + Job" where
  "loadTxn B t jid =
     (case bg_Get B (jobKey jid) t of
        Inl err \<Rightarrow> if errIsNotFound err then Inl ErrNotFound else Inl err
      | Inr (JobJSON job) \<Rightarrow> Inr job
      | Inr _ \<Rightarrow> Inl (ErrOther (Err ''json: cannot unmarshal'')))"

text \<open>\<open>Get\<close> used as an existence test: success is a failure of the caller's guard.\<close>

definition requireAbsent :: "'t badger \<Rightarrow> string \<Rightarrow> 't \<Rightarrow> jobErr + unit" where
  "requireAbsent B key t =
     (case bg_Get B key t of
        Inr _ \<Rightarrow> Inl ErrExists
      | Inl err \<Rightarrow> if errIsNotFound err then Inr () else Inl err)"

definition createTxn :: "'t badger \<Rightarrow> Job \<Rightarrow> 't \<Rightarrow> jobErr + 't" where
  "createTxn B job t =
     ebind (requireAbsent B (jobKey (jb_ID job)) t) (\<lambda>_.
     ebind (if js_CorrelateID (jb_Spec job) \<noteq> []
            then ebind (requireAbsent B (correlateKey (js_CorrelateID (jb_Spec job))) t) (\<lambda>_.
                 bg_Set B (correlateKey (js_CorrelateID (jb_Spec job))) (Bytes (jb_ID job)) t)
            else Inr t) (\<lambda>t.
     ebind (bg_Set B (jobKey (jb_ID job)) (JobJSON job) t) (\<lambda>t.
     if jb_State job = StateQueued then bg_Set B (readyIndexKey job) (Bytes (jb_ID job)) t else Inr t)))"

definition updateTxn :: "'t badger \<Rightarrow> Job \<Rightarrow> 't \<Rightarrow> jobErr + 't" where
  "updateTxn B job t =
     ebind (loadTxn B t (jb_ID job)) (\<lambda>old.
     ebind (bg_Set B (jobKey (jb_ID job)) (JobJSON job) t) (\<lambda>t.
     ebind (if jb_State old = StateQueued then bg_Delete B (readyIndexKey old) t else Inr t) (\<lambda>t.
     if jb_State job = StateQueued then bg_Set B (readyIndexKey job) (Bytes (jb_ID job)) t else Inr t)))"

section \<open>Claiming\<close>

text \<open>One entry of the ready index: the transaction and the claims after it.\<close>

definition claimEntry ::
  "'t badger \<Rightarrow> string \<Rightarrow> time \<Rightarrow> string \<Rightarrow> sval \<Rightarrow> 't \<Rightarrow> Job list \<Rightarrow> jobErr + 't \<times> Job list" where
  "claimEntry B worker now key v t claimed =
     (case v of
        Bytes jid \<Rightarrow>
          (case loadTxn B t jid of
             Inl err \<Rightarrow>
               if errIsNotFound err then ebind (bg_Delete B key t) (\<lambda>t. Inr (t, claimed)) else Inl err
           | Inr canonical \<Rightarrow>
               if jb_State canonical \<noteq> StateQueued then ebind (bg_Delete B key t) (\<lambda>t. Inr (t, claimed))
               else if \<not> IsZero (jb_NextAttemptAt canonical) \<and> jb_NextAttemptAt canonical > now
               then Inr (t, claimed)
               else let job = canonical\<lparr>jb_State := StateRunning, jb_Attempt := jb_Attempt canonical + 1,
                                        jb_UpdatedAt := now\<rparr> in
                 ebind (bg_Set B (jobKey (jb_ID job)) (JobJSON job) t) (\<lambda>t.
                 ebind (bg_Delete B key t) (\<lambda>t.
                 ebind (bg_Set B (runningIndexKey worker (jb_ID job)) (Bytes (jb_ID job)) t) (\<lambda>t.
                 Inr (t, claimed @ [job])))))
      | _ \<Rightarrow> Inl (ErrOther (Err ''unreadable index value'')))"

fun claimItems ::
  "'t badger \<Rightarrow> string \<Rightarrow> time \<Rightarrow> int \<Rightarrow> (string \<times> sval) list \<Rightarrow> 't \<Rightarrow> Job list \<Rightarrow> jobErr + 't \<times> Job list" where
  "claimItems B worker now limit [] t claimed = Inr (t, claimed)"
| "claimItems B worker now limit ((key, v) # items) t claimed =
     (if int (length claimed) \<ge> limit then Inr (t, claimed)
      else ebind (claimEntry B worker now key v t claimed) (\<lambda>(t, claimed).
           claimItems B worker now limit items t claimed))"

definition claimFromQueue ::
  "'t badger \<Rightarrow> string \<Rightarrow> string \<Rightarrow> time \<Rightarrow> int \<Rightarrow> 't \<Rightarrow> Job list \<Rightarrow> jobErr + 't \<times> Job list" where
  "claimFromQueue B worker queue now limit t claimed =
     claimItems B worker now limit (bg_Scan B (readyIndexPrefix queue) t) t claimed"

fun claimTxn ::
  "'t badger \<Rightarrow> string \<Rightarrow> time \<Rightarrow> int \<Rightarrow> string list \<Rightarrow> 't \<Rightarrow> Job list \<Rightarrow> jobErr + 't \<times> Job list" where
  "claimTxn B worker now limit [] t claimed = Inr (t, claimed)"
| "claimTxn B worker now limit (queue # queues) t claimed =
     (if int (length claimed) \<ge> limit then Inr (t, claimed)
      else ebind (claimFromQueue B worker queue now limit t claimed) (\<lambda>(t, claimed).
           claimTxn B worker now limit queues t claimed))"

section \<open>Events and checkpoints\<close>

text \<open>\<open>strconv.ParseUint(s, 10, 64)\<close> and \<open>FormatUint\<close>.\<close>

definition parseUint64 :: "string \<Rightarrow> nat option" where
  "parseUint64 s =
     (let n = foldl (\<lambda>v c. 10 * v + (of_char c - 48)) 0 s in
      if s \<noteq> [] \<and> list_all is_digit s \<and> n < 2 ^ 64 then Some n else None)"

definition readSeq :: "'t badger \<Rightarrow> string \<Rightarrow> 't \<Rightarrow> jobErr + nat" where
  "readSeq B jid t =
     (case bg_Get B (eventSeqKey jid) t of
        Inr (Bytes v) \<Rightarrow>
          (case parseUint64 v of Some n \<Rightarrow> Inr n | None \<Rightarrow> Inl (ErrOther (Err ''strconv.ParseUint'')))
      | Inr _ \<Rightarrow> Inl (ErrOther (Err ''strconv.ParseUint''))
      | Inl err \<Rightarrow> if errIsNotFound err then Inr 0 else Inl err)"

definition appendEventTxn :: "'t badger \<Rightarrow> Event \<Rightarrow> 't \<Rightarrow> jobErr + 't" where
  "appendEventTxn B e t =
     ebind (readSeq B (ev_JobID e) t) (\<lambda>seq.
     let seq = (seq + 1) mod 2 ^ 64 in
     ebind (bg_Set B (eventKey (ev_JobID e) seq) (EventJSON e) t) (\<lambda>t.
     bg_Set B (eventSeqKey (ev_JobID e)) (Bytes (dec seq)) t))"

definition saveCheckpointTxn :: "'t badger \<Rightarrow> Checkpoint \<Rightarrow> 't \<Rightarrow> jobErr + 't" where
  "saveCheckpointTxn B c t =
     ebind (case bg_Get B (checkpointKey (ck_JobID c)) t of
              Inr _ \<Rightarrow> bg_Delete B (checkpointKey (ck_JobID c)) t
            | Inl err \<Rightarrow> if errIsNotFound err then Inr t else Inl err) (\<lambda>t.
     bg_Set B (checkpointKey (ck_JobID c)) (CkptJSON c) t)"

definition LoadCheckpoint :: "'t badger \<Rightarrow> string \<Rightarrow> 't \<Rightarrow> jobErr + Checkpoint" where
  "LoadCheckpoint B jid t =
     (case bg_Get B (checkpointKey jid) t of
        Inl err \<Rightarrow> if errIsNotFound err then Inl ErrCkptNotFound else Inl err
      | Inr (CkptJSON c) \<Rightarrow> Inr c
      | Inr _ \<Rightarrow> Inl (ErrOther (Err ''json: cannot unmarshal'')))"

definition hasCheckpointTxn :: "'t badger \<Rightarrow> string \<Rightarrow> 't \<Rightarrow> bool" where
  "hasCheckpointTxn B jid t = (case bg_Get B (checkpointKey jid) t of Inr _ \<Rightarrow> True | Inl _ \<Rightarrow> False)"

fun decodeEvents :: "(string \<times> sval) list \<Rightarrow> jobErr + Event list" where
  "decodeEvents [] = Inr []"
| "decodeEvents ((k, EventJSON e) # items) = ebind (decodeEvents items) (\<lambda>es. Inr (e # es))"
| "decodeEvents ((k, _) # items) = Inl (ErrOther (Err ''json: cannot unmarshal''))"

definition Events :: "'t badger \<Rightarrow> string \<Rightarrow> 't \<Rightarrow> jobErr + Event list" where
  "Events B jid t = decodeEvents (bg_Scan B (eventPrefix jid) t)"

record Query =
  qu_Queue :: string
  qu_State :: string
  qu_Limit :: int

fun listItems :: "Query \<Rightarrow> (string \<times> sval) list \<Rightarrow> Job list \<Rightarrow> jobErr + Job list" where
  "listItems q [] out = Inr out"
| "listItems q ((k, JobJSON job) # items) out =
     (if qu_Queue q \<noteq> [] \<and> js_Queue (jb_Spec job) \<noteq> qu_Queue q then listItems q items out
      else if qu_State q \<noteq> [] \<and> jb_State job \<noteq> qu_State q then listItems q items out
      else let out = out @ [job] in
           if qu_Limit q > 0 \<and> int (length out) \<ge> qu_Limit q then Inr out else listItems q items out)"
| "listItems q ((k, _) # items) out = Inl (ErrOther (Err ''json: cannot unmarshal''))"

definition store_List :: "'t badger \<Rightarrow> Query \<Rightarrow> 't \<Rightarrow> jobErr + Job list" where
  "store_List B q t = listItems q (bg_Scan B ''j:'' t) []"

section \<open>Recovery\<close>

definition parseRunningIndexKey :: "string \<Rightarrow> jobErr + string \<times> string" where
  "parseRunningIndexKey key =
     (let rest = (if prefix ''w:'' key then drop 2 key else key) in
      case splitLast CHR '':'' rest of
        None \<Rightarrow> Inl (ErrOther (Err (''jobsstore: malformed running index key '' @ key)))
      | Some (worker, jid) \<Rightarrow>
          if worker = [] \<or> jid = [] then Inl (ErrOther (Err (''jobsstore: malformed running index key '' @ key)))
          else Inr (worker, jid))"

text \<open>The scan: the interrupted jobs with the worker of their key. An entry whose job does not exist
  is skipped.\<close>

fun recoverScan :: "'t badger \<Rightarrow> 't \<Rightarrow> (string \<times> sval) list \<Rightarrow> jobErr + (string \<times> Job) list" where
  "recoverScan B t [] = Inr []"
| "recoverScan B t ((key, v) # items) =
     ebind (parseRunningIndexKey key) (\<lambda>(worker, jid).
     case loadTxn B t jid of
       Inl err \<Rightarrow> if errIsNotFound err then recoverScan B t items else Inl err
     | Inr job \<Rightarrow> ebind (recoverScan B t items) (\<lambda>found. Inr ((worker, job) # found)))"

definition newEventID :: "string \<Rightarrow> string \<Rightarrow> time \<Rightarrow> string" where
  "newEventID jid tag now = jid @ '':'' @ tag @ '':'' @ fmtPad 20 (UnixNano now)"

text \<open>\<open>clk\<close> are the readings for the identifiers of the two events.\<close>

definition recoverOneTxn :: "'t badger \<Rightarrow> (nat \<Rightarrow> time) \<Rightarrow> string \<Rightarrow> Job \<Rightarrow> time \<Rightarrow> 't \<Rightarrow> jobErr + 't" where
  "recoverOneTxn B clk worker job now t =
     ebind (loadTxn B t (jb_ID job)) (\<lambda>canonical.
     ebind (bg_Delete B (runningIndexKey worker (jb_ID job)) t) (\<lambda>t.
     if jb_State canonical \<noteq> StateRunning then Inr t
     else
       let failed = canonical\<lparr>jb_State := StateFailed, jb_LastError := ''interrupted by restart'',
                              jb_CompletedAt := now, jb_UpdatedAt := now\<rparr> in
       ebind (appendEventTxn B \<lparr>ev_ID = newEventID (jb_ID failed) ''interrupted'' (clk 0), ev_JobID = jb_ID failed,
                ev_Type = EventFailed, ev_State = StateFailed, ev_Occurred = now,
                ev_Message = ''interrupted by restart'', ev_Metadata = []\<rparr> t) (\<lambda>t.
       ebind (bg_Set B (jobKey (jb_ID failed)) (JobJSON failed) t) (\<lambda>t.
       if jb_Attempt failed < max (maxAttempts failed) 1
       then
         let resumed = hasCheckpointTxn B (jb_ID failed) t;
             requeued = failed\<lparr>jb_State := StateQueued,
               jb_NextAttemptAt := now + NextBackoff (jb_Spec failed) (jb_Attempt failed),
               jb_CompletedAt := 0,
               jb_ResumeToken := (if resumed then jb_ID failed else jb_ResumeToken failed),
               jb_UpdatedAt := now\<rparr> in
         ebind (bg_Set B (jobKey (jb_ID requeued)) (JobJSON requeued) t) (\<lambda>t.
         ebind (bg_Set B (readyIndexKey requeued) (Bytes (jb_ID requeued)) t) (\<lambda>t.
         appendEventTxn B \<lparr>ev_ID = newEventID (jb_ID requeued) ''requeued'' (clk 1), ev_JobID = jb_ID requeued,
           ev_Type = EventRetried, ev_State = StateQueued, ev_Occurred = now,
           ev_Message = ''requeued after interruption'',
           ev_Metadata = [(''resumed'', if resumed then ''true'' else ''false'')]\<rparr> t))
       else Inr t))))"

section \<open>Retries\<close>

text \<open>What one attempt meets: the error of the context, the state its transaction sees, and the
  outcome of the commit.\<close>

record 't txnAttempt =
  at_ctxErr :: "goerr option"
  at_begin :: 't
  at_commit :: "jobErr option"

fun retryTxn :: "('t \<Rightarrow> jobErr + 'r) \<Rightarrow> 't txnAttempt list \<Rightarrow> jobErr + 'r" where
  "retryTxn body [] =
     Inl (ErrOther (Err (''jobsstore: transaction retried '' @ dec maxConflictRetries @ '' times, still conflicting'')))"
| "retryTxn body (a # attempts) =
     (case at_ctxErr a of
        Some err \<Rightarrow> Inl (ErrCtx err)
      | None \<Rightarrow>
          (case (case body (at_begin a) of
                   Inl err \<Rightarrow> Inl err
                 | Inr t \<Rightarrow> (case at_commit a of None \<Rightarrow> Inr t | Some err \<Rightarrow> Inl err)) of
             Inl err \<Rightarrow> if err = ErrBadgerConflict then retryTxn body attempts else Inl err
           | Inr t \<Rightarrow> Inr t))"

definition retryTxnCtx :: "('t \<Rightarrow> jobErr + 'r) \<Rightarrow> (nat \<Rightarrow> 't txnAttempt) \<Rightarrow> jobErr + 'r" where
  "retryTxnCtx body attempt = retryTxn body (map attempt [0..<maxConflictRetries])"

section \<open>The store interface\<close>

definition store_Create :: "'t badger \<Rightarrow> time \<Rightarrow> Job \<Rightarrow> (nat \<Rightarrow> 't txnAttempt) \<Rightarrow> jobErr + 't" where
  "store_Create B now job attempt =
     (case Job_Valid job of
        Some err \<Rightarrow> Inl (ErrOther (Wrap ''jobsstore: create: '' err))
      | None \<Rightarrow>
          let job = (if IsZero (jb_UpdatedAt job) then job\<lparr>jb_UpdatedAt := now\<rparr> else job)
          in retryTxnCtx (createTxn B job) attempt)"

definition store_Update :: "'t badger \<Rightarrow> Job \<Rightarrow> (nat \<Rightarrow> 't txnAttempt) \<Rightarrow> jobErr + 't" where
  "store_Update B job attempt =
     (case Job_Valid job of
        Some err \<Rightarrow> Inl (ErrOther (Wrap ''jobsstore: update: '' err))
      | None \<Rightarrow> retryTxnCtx (updateTxn B job) attempt)"

definition AppendEvent :: "'t badger \<Rightarrow> Event \<Rightarrow> (nat \<Rightarrow> 't txnAttempt) \<Rightarrow> jobErr + 't" where
  "AppendEvent B e attempt =
     (case Event_Valid e of
        Some err \<Rightarrow> Inl (ErrOther (Wrap ''jobsstore: append event: '' err))
      | None \<Rightarrow> retryTxnCtx (appendEventTxn B e) attempt)"

definition SaveCheckpoint :: "'t badger \<Rightarrow> Checkpoint \<Rightarrow> (nat \<Rightarrow> 't txnAttempt) \<Rightarrow> jobErr + 't" where
  "SaveCheckpoint B c attempt =
     (case Checkpoint_Valid c of
        Some err \<Rightarrow> Inl (ErrOther (Wrap ''jobsstore: save checkpoint: '' err))
      | None \<Rightarrow> retryTxnCtx (saveCheckpointTxn B c) attempt)"

text \<open>A claim without room does not open a transaction.\<close>

definition store_Claim ::
  "'t badger \<Rightarrow> time \<Rightarrow> string \<Rightarrow> string list \<Rightarrow> int \<Rightarrow> (nat \<Rightarrow> 't txnAttempt) \<Rightarrow> jobErr + 't option \<times> Job list" where
  "store_Claim B now worker queues limit attempt =
     (if worker = [] then Inl (ErrOther (Err ''jobsstore: claim: worker required''))
      else if limit \<le> 0 then Inr (None, [])
      else ebind (retryTxnCtx (\<lambda>t. claimTxn B worker now limit queues t []) attempt) (\<lambda>(t, claimed).
           Inr (Some t, claimed)))"

text \<open>Recovery runs when the store is opened, before any other transaction: \<open>outcome n i\<close> is the commit
  outcome of the \<open>i\<close>-th attempt for the \<open>n\<close>-th interrupted job.\<close>

fun recoverAll ::
  "'t badger \<Rightarrow> (nat \<Rightarrow> nat \<Rightarrow> time) \<Rightarrow> time \<Rightarrow> (nat \<Rightarrow> nat \<Rightarrow> jobErr option) \<Rightarrow> nat \<Rightarrow> (string \<times> Job) list \<Rightarrow> 't \<Rightarrow>
   jobErr + 't" where
  "recoverAll B clk now outcome n [] t = Inr t"
| "recoverAll B clk now outcome n ((worker, job) # found) t =
     ebind (retryTxnCtx (recoverOneTxn B (clk n) worker job now)
              (\<lambda>i. \<lparr>at_ctxErr = None, at_begin = t, at_commit = outcome n i\<rparr>)) (\<lambda>t.
     recoverAll B clk now outcome (Suc n) found t)"

definition recover ::
  "'t badger \<Rightarrow> (nat \<Rightarrow> nat \<Rightarrow> time) \<Rightarrow> time \<Rightarrow> (nat \<Rightarrow> nat \<Rightarrow> jobErr option) \<Rightarrow> 't \<Rightarrow> jobErr + 't" where
  "recover B clk now outcome t =
     ebind (recoverScan B t (bg_Scan B runningIndexPrefix t)) (\<lambda>found.
     recoverAll B clk now outcome 0 found t)"

section \<open>What Badger promises\<close>

definition badger_laws :: "'t badger \<Rightarrow> ('t \<Rightarrow> string \<Rightarrow> sval option) \<Rightarrow> bool" where
  "badger_laws B \<alpha> \<longleftrightarrow>
     (\<forall>k t. case bg_Get B k t of
              Inr v \<Rightarrow> \<alpha> t k = Some v
            | Inl e \<Rightarrow> if e = ErrKeyNotFound then \<alpha> t k = None else \<not> errIsNotFound e) \<and>
     (\<forall>k v t t'. bg_Set B k v t = Inr t' \<longrightarrow> \<alpha> t' = (\<alpha> t)(k \<mapsto> v)) \<and>
     (\<forall>k t t'. bg_Delete B k t = Inr t' \<longrightarrow> \<alpha> t' = (\<alpha> t)(k := None)) \<and>
     (\<forall>p t. sorted_wrt (<) (map fst (bg_Scan B p t)) \<and>
            (\<forall>k v. (k, v) \<in> set (bg_Scan B p t) \<longleftrightarrow> \<alpha> t k = Some v \<and> prefix p k))"

text \<open>A transaction over an association list, as Badger's in-memory mode keeps its keys, without I/O
  errors: it satisfies the laws, and evaluates.\<close>

type_synonym memtxn = "(string \<times> sval) list"

definition memB :: "memtxn badger" where
  "memB = \<lparr>bg_Get = (\<lambda>k m. case map_of m k of None \<Rightarrow> Inl ErrKeyNotFound | Some v \<Rightarrow> Inr v),
           bg_Set = (\<lambda>k v m. Inr (AList.update k v m)),
           bg_Delete = (\<lambda>k m. Inr (AList.delete k m)),
           bg_Scan = (\<lambda>p m. map (\<lambda>k. (k, the (map_of m k))) (sort (remdups (filter (prefix p) (gokeys m)))))\<rparr>"

lemma sorted_distinct_less: "sorted xs \<Longrightarrow> distinct xs \<Longrightarrow> sorted_wrt (<) xs" for xs :: "'a::linorder list"
  by (simp add: strict_sorted_iff)

lemma memB_scan: "(k, v) \<in> set (bg_Scan memB p t) \<longleftrightarrow> map_of t k = Some v \<and> prefix p k"
proof -
  have "(k, v) \<in> set (bg_Scan memB p t) \<longleftrightarrow> k \<in> set (gokeys t) \<and> prefix p k \<and> v = the (map_of t k)"
    by (auto simp: memB_def image_iff)
  also have "\<dots> \<longleftrightarrow> map_of t k = Some v \<and> prefix p k"
    by (cases "map_of t k") (auto simp: map_of_None_keys simp del: set_map dest: map_of_Some_key)
  finally show ?thesis .
qed

lemma memB_sorted: "sorted_wrt (<) (map fst (bg_Scan memB p t))"
proof -
  have "map fst (bg_Scan memB p t) = sort (remdups (filter (prefix p) (gokeys t)))"
    by (simp add: memB_def comp_def)
  then show ?thesis by (simp only: sorted_distinct_less sorted_sort distinct_sort distinct_remdups)
qed

lemma memB_laws: "badger_laws memB map_of"
  unfolding badger_laws_def
proof (intro conjI allI impI)
  show "case bg_Get memB k t of Inr v \<Rightarrow> map_of t k = Some v
    | Inl e \<Rightarrow> if e = ErrKeyNotFound then map_of t k = None else \<not> errIsNotFound e" for k t
    by (simp add: memB_def split: option.split)
qed (simp_all add: memB_scan memB_sorted del: sorted_wrt_map, simp_all add: memB_def update_conv' delete_conv' fun_upd_def fun_eq_iff)

lemma get_Found: "badger_laws B \<alpha> \<Longrightarrow> bg_Get B k t = Inr v \<Longrightarrow> \<alpha> t k = Some v"
  unfolding badger_laws_def by (elim conjE allE [of _ k] allE [of _ t]) simp

lemma get_Missing: "badger_laws B \<alpha> \<Longrightarrow> bg_Get B k t = Inl e \<Longrightarrow> errIsNotFound e \<Longrightarrow> \<alpha> t k = None"
proof -
  assume "badger_laws B \<alpha>" "bg_Get B k t = Inl e" "errIsNotFound e"
  moreover from this(1) have "case bg_Get B k t of Inr v \<Rightarrow> \<alpha> t k = Some v
      | Inl e \<Rightarrow> if e = ErrKeyNotFound then \<alpha> t k = None else \<not> errIsNotFound e"
    unfolding badger_laws_def by blast
  ultimately show ?thesis by (simp split: if_splits)
qed

lemma set_map_upd: "badger_laws B \<alpha> \<Longrightarrow> bg_Set B k v t = Inr t' \<Longrightarrow> \<alpha> t' = (\<alpha> t)(k \<mapsto> v)"
  unfolding badger_laws_def by blast

lemma delete_map_upd: "badger_laws B \<alpha> \<Longrightarrow> bg_Delete B k t = Inr t' \<Longrightarrow> \<alpha> t' = (\<alpha> t)(k := None)"
  unfolding badger_laws_def by blast

lemma scan_iff: "badger_laws B \<alpha> \<Longrightarrow> (k, v) \<in> set (bg_Scan B p t) \<longleftrightarrow> \<alpha> t k = Some v \<and> prefix p k"
  unfolding badger_laws_def by blast

lemma scan_sorted: "badger_laws B \<alpha> \<Longrightarrow> sorted_wrt (<) (map fst (bg_Scan B p t))"
  unfolding badger_laws_def by blast

lemmas badger_facts = get_Found get_Missing set_map_upd delete_map_upd

lemma loadTxn_Found: "badger_laws B \<alpha> \<Longrightarrow> loadTxn B t jid = Inr job \<Longrightarrow> \<alpha> t (jobKey jid) = Some (JobJSON job)"
  by (auto simp: loadTxn_def split: sum.splits sval.splits if_splits dest: get_Found)

section \<open>Key families\<close>

text \<open>The first byte of a key is its family; families do not meet.\<close>

lemmas key_defs = jobKey_def readyIndexKey_def runningIndexKey_def eventKey_def eventSeqKey_def correlateKey_def
  checkpointKey_def

lemma key_inj [simp]:
  "jobKey a = jobKey b \<longleftrightarrow> a = b" "correlateKey a = correlateKey b \<longleftrightarrow> a = b"
  "eventSeqKey a = eventSeqKey b \<longleftrightarrow> a = b" "checkpointKey a = checkpointKey b \<longleftrightarrow> a = b"
  by (simp_all add: key_defs)

lemma key_families [simp]:
  "jobKey a \<noteq> readyIndexKey j" "readyIndexKey j \<noteq> jobKey a"
  "jobKey a \<noteq> runningIndexKey w i" "runningIndexKey w i \<noteq> jobKey a"
  "jobKey a \<noteq> correlateKey c" "correlateKey c \<noteq> jobKey a"
  "jobKey a \<noteq> eventKey i n" "eventKey i n \<noteq> jobKey a"
  "jobKey a \<noteq> eventSeqKey i" "eventSeqKey i \<noteq> jobKey a"
  "jobKey a \<noteq> checkpointKey i" "checkpointKey i \<noteq> jobKey a"
  "readyIndexKey j \<noteq> runningIndexKey w i" "runningIndexKey w i \<noteq> readyIndexKey j"
  "readyIndexKey j \<noteq> correlateKey c" "correlateKey c \<noteq> readyIndexKey j"
  "readyIndexKey j \<noteq> eventKey i n" "eventKey i n \<noteq> readyIndexKey j"
  "readyIndexKey j \<noteq> eventSeqKey i" "eventSeqKey i \<noteq> readyIndexKey j"
  "runningIndexKey w i \<noteq> eventKey i' n" "eventKey i' n \<noteq> runningIndexKey w i"
  "runningIndexKey w i \<noteq> eventSeqKey i'" "eventSeqKey i' \<noteq> runningIndexKey w i"
  "eventKey i n \<noteq> eventSeqKey i'" "eventSeqKey i' \<noteq> eventKey i n"
  "checkpointKey c \<noteq> readyIndexKey j" "readyIndexKey j \<noteq> checkpointKey c"
  "checkpointKey c \<noteq> runningIndexKey w i" "runningIndexKey w i \<noteq> checkpointKey c"
  "checkpointKey c \<noteq> eventKey i n" "eventKey i n \<noteq> checkpointKey c"
  "checkpointKey c \<noteq> eventSeqKey i" "eventSeqKey i \<noteq> checkpointKey c"
  by (simp_all add: key_defs)

section \<open>Creation\<close>

lemma requireAbsent_ok: "badger_laws B \<alpha> \<Longrightarrow> requireAbsent B k t = Inr u \<Longrightarrow> \<alpha> t k = None"
  by (auto simp: requireAbsent_def split: sum.splits if_splits dest: get_Missing)

lemma requireAbsent_present: "badger_laws B \<alpha> \<Longrightarrow> \<alpha> t k = Some v \<Longrightarrow> \<exists>e. requireAbsent B k t = Inl e"
  using requireAbsent_ok [of B \<alpha> k t] by (cases "requireAbsent B k t") force+

text \<open>The records that a successful creation leaves: the job under its identifier, the correlate index
  and, for a queued job, the ready index.\<close>

lemma createTxn_effect:
  assumes "badger_laws B \<alpha>" and "createTxn B job t = Inr t'"
  shows "\<alpha> t (jobKey (jb_ID job)) = None"
    and "js_CorrelateID (jb_Spec job) \<noteq> [] \<Longrightarrow> \<alpha> t (correlateKey (js_CorrelateID (jb_Spec job))) = None"
    and "\<alpha> t' (jobKey (jb_ID job)) = Some (JobJSON job)"
    and "js_CorrelateID (jb_Spec job) \<noteq> [] \<Longrightarrow>
         \<alpha> t' (correlateKey (js_CorrelateID (jb_Spec job))) = Some (Bytes (jb_ID job))"
    and "jb_State job = StateQueued \<Longrightarrow> \<alpha> t' (readyIndexKey job) = Some (Bytes (jb_ID job))"
    and "jid \<noteq> jb_ID job \<Longrightarrow> \<alpha> t' (jobKey jid) = \<alpha> t (jobKey jid)"
  using assms(2)
  by (auto simp: createTxn_def ebind_Inr dest!: requireAbsent_ok [OF assms(1)] set_map_upd [OF assms(1)]
      split: if_splits)

lemma createTxn_again:
  assumes "badger_laws B \<alpha>" and "createTxn B job t = Inr t'"
    and "jb_ID job' = jb_ID job \<or>
         (js_CorrelateID (jb_Spec job') = js_CorrelateID (jb_Spec job) \<and> js_CorrelateID (jb_Spec job) \<noteq> [])"
  shows "createTxn B job' t' \<noteq> Inr t''"
proof
  assume again: "createTxn B job' t' = Inr t''"
  from createTxn_effect(1,2) [OF assms(1) again] createTxn_effect(3,4) [OF assms(1,2)] assms(3)
  show False by auto
qed

section \<open>Retries\<close>

text \<open>A successful retry loop ran its body successfully on the state of one of its attempts.\<close>

lemma retryTxn_Inr:
  "retryTxn body as = Inr r \<Longrightarrow> \<exists>a \<in> set as. at_ctxErr a = None \<and> body (at_begin a) = Inr r \<and> at_commit a = None"
proof (induction as)
  case (Cons a as)
  show ?case
  proof (cases "at_ctxErr a = None \<and> body (at_begin a) = Inr r \<and> at_commit a = None")
    case False
    with Cons.prems have "retryTxn body as = Inr r"
      by (cases "at_ctxErr a"; cases "body (at_begin a)"; cases "at_commit a") (simp_all split: if_splits)
    with Cons.IH show ?thesis by auto
  qed simp
qed simp

lemma retryTxnCtx_Inr:
  "retryTxnCtx body attempt = Inr r \<Longrightarrow> \<exists>i < maxConflictRetries. body (at_begin (attempt i)) = Inr r"
proof -
  assume "retryTxnCtx body attempt = Inr r"
  from retryTxn_Inr [OF this [unfolded retryTxnCtx_def]] obtain a
    where "a \<in> set (map attempt [0..<maxConflictRetries])" "body (at_begin a) = Inr r" by blast
  then show ?thesis by (metis (no_types, lifting) imageE atLeastLessThan_iff set_map set_upt)
qed

lemma store_Create_txn:
  assumes "store_Create B now job attempt = Inr t'"
  obtains i job' where "createTxn B job' (at_begin (attempt i)) = Inr t'" "jb_ID job' = jb_ID job" "jb_Spec job' = jb_Spec job"
    "jb_State job' = jb_State job"
proof -
  let ?job = "if IsZero (jb_UpdatedAt job) then job\<lparr>jb_UpdatedAt := now\<rparr> else job"
  have "retryTxnCtx (createTxn B ?job) attempt = Inr t'"
    using assms unfolding store_Create_def Let_def by (cases "Job_Valid job") simp_all
  from retryTxnCtx_Inr [OF this] obtain i where "createTxn B ?job (at_begin (attempt i)) = Inr t'" by blast
  then show thesis by (rule that) simp_all
qed

text \<open>
  A job is ingested at most once: after a successful \<open>Create\<close>, no later \<open>Create\<close> with the same job
  identifier, or with the same non-empty correlate identifier, succeeds on the resulting state,
  whatever else the two submissions say and however often conflicts make the store retry.
\<close>

theorem create_at_most_once:
  assumes "badger_laws B \<alpha>" and "store_Create B now job attempt = Inr t"
    and "jb_ID job' = jb_ID job \<or>
         (js_CorrelateID (jb_Spec job') = js_CorrelateID (jb_Spec job) \<and> js_CorrelateID (jb_Spec job) \<noteq> [])"
    and "\<forall>i. at_begin (attempt' i) = t"
  shows "\<exists>err. store_Create B now' job' attempt' = Inl err"
proof (cases "store_Create B now' job' attempt'")
  case (Inr t'')
  from store_Create_txn [OF assms(2)] obtain i j where
    j: "createTxn B j (at_begin (attempt i)) = Inr t" "jb_ID j = jb_ID job" "jb_Spec j = jb_Spec job" .
  from store_Create_txn [OF Inr] obtain i' j' where
    j': "createTxn B j' t = Inr t''" "jb_ID j' = jb_ID job'" "jb_Spec j' = jb_Spec job'"
    using assms(4) by metis
  have "createTxn B j' t \<noteq> Inr t''" using assms(3) j j' by (intro createTxn_again [OF assms(1) j(1)]) simp
  with j'(1) show ?thesis by simp
qed simp

section \<open>Claiming\<close>

text \<open>Every record is stored under the identifier it carries.\<close>

definition ids_ok :: "(string \<Rightarrow> sval option) \<Rightarrow> bool" where
  "ids_ok m \<longleftrightarrow> (\<forall>jid job. m (jobKey jid) = Some (JobJSON job) \<longrightarrow> jb_ID job = jid)"

lemma ids_ok_other: "ids_ok m \<Longrightarrow> \<forall>jid. k \<noteq> jobKey jid \<Longrightarrow> ids_ok (m(k := v))"
  unfolding ids_ok_def by (metis fun_upd_other)

lemma ids_ok_job: "ids_ok m \<Longrightarrow> jb_ID job = jid \<Longrightarrow> ids_ok (m(jobKey jid \<mapsto> JobJSON job))"
  unfolding ids_ok_def by (metis fun_upd_apply key_inj(1) option.inject sval.inject(1))

lemma ids_okD: "ids_ok m \<Longrightarrow> m (jobKey jid) = Some (JobJSON job) \<Longrightarrow> jb_ID job = jid"
  unfolding ids_ok_def by blast

definition claimable :: "time \<Rightarrow> Job \<Rightarrow> bool" where
  "claimable now job \<longleftrightarrow>
     jb_State job = StateQueued \<and> (IsZero (jb_NextAttemptAt job) \<or> jb_NextAttemptAt job \<le> now)"

definition claimedBy :: "time \<Rightarrow> Job \<Rightarrow> Job" where
  "claimedBy now job =
     job\<lparr>jb_State := StateRunning, jb_Attempt := jb_Attempt job + 1, jb_UpdatedAt := now\<rparr>"

lemma claimEntry_cases:
  assumes "badger_laws B \<alpha>" and "claimEntry B worker now key v t claimed = Inr (t', claimed')"
  shows "(claimed' = claimed \<and> (\<alpha> t' = \<alpha> t \<or> \<alpha> t' = (\<alpha> t)(key := None))) \<or>
         (\<exists>jid job. \<alpha> t (jobKey jid) = Some (JobJSON job) \<and> claimable now job \<and> claimed' = claimed @ [claimedBy now job] \<and>
            \<alpha> t' = (\<alpha> t)(jobKey (jb_ID job) \<mapsto> JobJSON (claimedBy now job), key := None,
                        runningIndexKey worker (jb_ID job) \<mapsto> Bytes (jb_ID job)))"
proof (cases v)
  case (Bytes jid)
  show ?thesis
  proof (cases "loadTxn B t jid")
    case (Inl err)
    then show ?thesis
      using assms(2) Bytes
      by (auto simp: claimEntry_def ebind_Inr split: if_splits dest!: delete_map_upd [OF assms(1)])
  next
    case (Inr job)
    note load = loadTxn_Found [OF assms(1) Inr]
    consider (notQueued) "jb_State job \<noteq> StateQueued"
      | (notDue) "jb_State job = StateQueued" "\<not> claimable now job" | (claim) "claimable now job"
      by (auto simp: claimable_def)
    then show ?thesis
    proof cases
      case notQueued
      then show ?thesis
        using assms(2) Bytes Inr
        by (auto simp: claimEntry_def ebind_Inr dest!: delete_map_upd [OF assms(1)])
    next
      case notDue
      then show ?thesis using assms(2) Bytes Inr by (auto simp: claimEntry_def claimable_def)
    next
      case claim
      then have "\<not> (\<not> IsZero (jb_NextAttemptAt job) \<and> jb_NextAttemptAt job > now)" "jb_State job = StateQueued"
        by (auto simp: claimable_def)
      then have "claimed' = claimed @ [claimedBy now job] \<and>
          \<alpha> t' = (\<alpha> t)(jobKey (jb_ID job) \<mapsto> JobJSON (claimedBy now job), key := None,
                      runningIndexKey worker (jb_ID job) \<mapsto> Bytes (jb_ID job))"
        using assms(2) Bytes Inr
        by (auto simp: claimEntry_def ebind_Inr Let_def claimedBy_def
            dest!: delete_map_upd [OF assms(1)] set_map_upd [OF assms(1)])
      with claim load show ?thesis by blast
    qed
  qed
qed (use assms(2) in \<open>simp_all add: claimEntry_def\<close>)

text \<open>The state of a claim that started on the records \<open>m0\<close>.\<close>

definition claim_inv ::
  "(string \<Rightarrow> sval option) \<Rightarrow> string \<Rightarrow> time \<Rightarrow> (string \<Rightarrow> sval option) \<Rightarrow> Job list \<Rightarrow> bool" where
  "claim_inv m0 worker now m claimed \<longleftrightarrow>
     ids_ok m \<and> distinct (map jb_ID claimed) \<and>
     (\<forall>j \<in> set claimed. (\<exists>old. m0 (jobKey (jb_ID old)) = Some (JobJSON old) \<and> claimable now old \<and> j = claimedBy now old) \<and>
        m (jobKey (jb_ID j)) = Some (JobJSON j) \<and> m (runningIndexKey worker (jb_ID j)) = Some (Bytes (jb_ID j))) \<and>
     (\<forall>jid. jid \<notin> jb_ID ` set claimed \<longrightarrow> m (jobKey jid) = m0 (jobKey jid))"

lemma claimedBy_sel [simp]: "jb_ID (claimedBy now job) = jb_ID job" "jb_State (claimedBy now job) = StateRunning"
  by (simp_all add: claimedBy_def)

lemma claim_inv_drop:
  assumes "claim_inv m0 worker now m claimed" and "\<forall>jid. key \<noteq> jobKey jid" and "\<forall>jid. key \<noteq> runningIndexKey worker jid"
  shows "claim_inv m0 worker now (m(key := None)) claimed"
proof -
  have eq: "(m(key := None)) (jobKey jid) = m (jobKey jid)"
    "(m(key := None)) (runningIndexKey worker jid) = m (runningIndexKey worker jid)" for jid
    using assms(2,3) by (metis fun_upd_other)+
  show ?thesis
    using assms(1) unfolding claim_inv_def ids_ok_def eq .
qed

lemma claim_inv_add:
  assumes "claim_inv m0 worker now m claimed" and "\<forall>jid. key \<noteq> jobKey jid" and "\<forall>jid. key \<noteq> runningIndexKey worker jid"
    and "m (jobKey jid) = Some (JobJSON job)" and "claimable now job"
  shows "claim_inv m0 worker now
    (m(jobKey (jb_ID job) \<mapsto> JobJSON (claimedBy now job), key := None,
       runningIndexKey worker (jb_ID job) \<mapsto> Bytes (jb_ID job))) (claimed @ [claimedBy now job])"
proof -
  have jid: "jid = jb_ID job" using assms(1,4) ids_okD unfolding claim_inv_def by metis
  have run: "\<forall>j \<in> set claimed. jb_State j = StateRunning" using assms(1) by (auto simp: claim_inv_def)
  have fresh: "jb_ID job \<notin> jb_ID ` set claimed"
  proof
    assume "jb_ID job \<in> jb_ID ` set claimed"
    then obtain j where j: "j \<in> set claimed" "jb_ID j = jb_ID job" by auto
    then have "m (jobKey (jb_ID job)) = Some (JobJSON j)" using assms(1) by (auto simp: claim_inv_def)
    then have "j = job" using assms(4) jid by simp
    with run j(1) assms(5) show False by (auto simp: claimable_def)
  qed
  then have old: "m0 (jobKey (jb_ID job)) = Some (JobJSON job)" using assms(1,4) jid by (auto simp: claim_inv_def)
  let ?m = "m(jobKey (jb_ID job) \<mapsto> JobJSON (claimedBy now job), key := None,
       runningIndexKey worker (jb_ID job) \<mapsto> Bytes (jb_ID job))"
  have inj: "runningIndexKey worker a = runningIndexKey worker b \<longleftrightarrow> a = b" for a b
    by (simp add: runningIndexKey_def)
  have keep: "?m (jobKey (jb_ID j)) = Some (JobJSON j) \<and> ?m (runningIndexKey worker (jb_ID j)) = Some (Bytes (jb_ID j))"
    if "j \<in> set claimed" for j
  proof -
    have "jb_ID j \<noteq> jb_ID job" using that fresh by (metis image_eqI)
    with that assms(1-3) show ?thesis by (auto simp: claim_inv_def inj)
  qed
  have new: "?m (jobKey (jb_ID job)) = Some (JobJSON (claimedBy now job))"
    using assms(2) by simp metis
  show ?thesis
    unfolding claim_inv_def
  proof (intro conjI ballI allI impI)
    show "ids_ok ?m"
      using assms(1,2) by (intro ids_ok_other ids_ok_job) (simp_all add: claim_inv_def)
    show "distinct (map jb_ID (claimed @ [claimedBy now job]))" using fresh assms(1) by (auto simp: claim_inv_def)
    fix j assume j: "j \<in> set (claimed @ [claimedBy now job])"
    show "\<exists>old. m0 (jobKey (jb_ID old)) = Some (JobJSON old) \<and> claimable now old \<and> j = claimedBy now old"
      using j old assms(1,5) by (auto simp: claim_inv_def)
    from j consider "j \<in> set claimed" | "j = claimedBy now job" by auto
    then show "?m (jobKey (jb_ID j)) = Some (JobJSON j)"
      by cases (use keep in blast, use new in \<open>simp only: claimedBy_sel\<close>)
    from j consider "j \<in> set claimed" | "j = claimedBy now job" by auto
    then show "?m (runningIndexKey worker (jb_ID j)) = Some (Bytes (jb_ID j))"
      by cases (use keep in blast, simp only: claimedBy_sel fun_upd_same)
  next
    fix jid' assume "jid' \<notin> jb_ID ` set (claimed @ [claimedBy now job])"
    then show "?m (jobKey jid') = m0 (jobKey jid')" using assms(1,2) by (auto simp: claim_inv_def)
  qed
qed

lemma claimEntry_inv:
  assumes "badger_laws B \<alpha>" and "prefix ''q:'' key"
    and "claim_inv m0 worker now (\<alpha> t) claimed" and "claimEntry B worker now key v t claimed = Inr (t', claimed')"
  shows "claim_inv m0 worker now (\<alpha> t') claimed'" and "length claimed' \<le> Suc (length claimed)"
proof -
  have k: "\<forall>jid. key \<noteq> jobKey jid" "\<forall>jid. key \<noteq> runningIndexKey worker jid"
    using assms(2) by (auto simp: jobKey_def runningIndexKey_def prefix_def)
  show "claim_inv m0 worker now (\<alpha> t') claimed'" "length claimed' \<le> Suc (length claimed)"
    using claimEntry_cases [OF assms(1,4)] assms(3) claim_inv_drop [OF assms(3) k] claim_inv_add [OF assms(3) k]
    by fastforce+
qed

lemma claimItems_inv:
  assumes "badger_laws B \<alpha>"
  shows "claimItems B worker now limit items t claimed = Inr (t', claimed') \<Longrightarrow>
    \<forall>(k, v) \<in> set items. prefix ''q:'' k \<Longrightarrow> claim_inv m0 worker now (\<alpha> t) claimed \<Longrightarrow> int (length claimed) \<le> limit \<Longrightarrow>
    claim_inv m0 worker now (\<alpha> t') claimed' \<and> int (length claimed') \<le> limit"
proof (induction items arbitrary: t claimed)
  case (Cons item items)
  obtain key v where item: "item = (key, v)" by (cases item)
  show ?case
  proof (cases "int (length claimed) \<ge> limit")
    case True
    then show ?thesis using Cons.prems item by simp
  next
    case False
    with Cons.prems(1) item obtain t1 c1 where one: "claimEntry B worker now key v t claimed = Inr (t1, c1)"
      and rest: "claimItems B worker now limit items t1 c1 = Inr (t', claimed')" by (auto simp: ebind_Inr)
    have "prefix ''q:'' key" using Cons.prems(2) item by simp
    note step = claimEntry_inv [OF assms this Cons.prems(3) one]
    show ?thesis using Cons.IH [OF rest _ step(1)] step(2) False Cons.prems(2) by auto
  qed
qed simp

lemma claimTxn_inv:
  assumes "badger_laws B \<alpha>"
  shows "claimTxn B worker now limit queues t claimed = Inr (t', claimed') \<Longrightarrow>
    claim_inv m0 worker now (\<alpha> t) claimed \<Longrightarrow> int (length claimed) \<le> limit \<Longrightarrow>
    claim_inv m0 worker now (\<alpha> t') claimed' \<and> int (length claimed') \<le> limit"
proof (induction queues arbitrary: t claimed)
  case (Cons queue queues)
  show ?case
  proof (cases "int (length claimed) \<ge> limit")
    case False
    with Cons.prems(1) obtain t1 c1 where
      one: "claimItems B worker now limit (bg_Scan B (readyIndexPrefix queue) t) t claimed = Inr (t1, c1)"
      and rest: "claimTxn B worker now limit queues t1 c1 = Inr (t', claimed')"
      by (auto simp: ebind_Inr claimFromQueue_def)
    have "\<forall>(k, v) \<in> set (bg_Scan B (readyIndexPrefix queue) t). prefix ''q:'' k"
      by (auto simp: scan_iff [OF assms] readyIndexPrefix_def prefix_def)
    from claimItems_inv [OF assms one this Cons.prems(2,3)] Cons.IH [OF rest] show ?thesis by blast
  qed (use Cons.prems in simp)
qed simp

lemma store_Claim_inv:
  assumes "badger_laws B \<alpha>" and "store_Claim B now worker queues limit attempt = Inr (Some t', claimed)"
    and "\<forall>i. ids_ok (\<alpha> (at_begin (attempt i)))"
  obtains i where "claim_inv (\<alpha> (at_begin (attempt i))) worker now (\<alpha> t') claimed" "int (length claimed) \<le> limit"
proof -
  have "retryTxnCtx (\<lambda>t. claimTxn B worker now limit queues t []) attempt = Inr (t', claimed)" and pos: "limit > 0"
    using assms(2) by (auto simp: store_Claim_def ebind_Inr split: if_splits)
  from retryTxnCtx_Inr [OF this(1)] obtain i where
    run: "claimTxn B worker now limit queues (at_begin (attempt i)) [] = Inr (t', claimed)" by blast
  have "claim_inv (\<alpha> (at_begin (attempt i))) worker now (\<alpha> (at_begin (attempt i))) []"
    using assms(3) by (simp add: claim_inv_def)
  from claimTxn_inv [OF assms(1) run this] pos show thesis by (intro that) auto
qed

text \<open>
  \<^bold>\<open>C30.\<close> Claims hand out every job once: two successive claims, by whatever workers and however often
  conflicts made the store retry, return pairwise different jobs, each batch no larger than its
  limit. Every job of the first batch was queued and due in the state the claim ran on, has one
  attempt more, is stored as running, and has the entry in the running index that recovery reads.
\<close>

theorem claim_exactly_once:
  assumes "badger_laws B \<alpha>"
    and "store_Claim B now worker queues limit attempt = Inr (Some t, claimed)"
    and "\<forall>i. ids_ok (\<alpha> (at_begin (attempt i)))"
    and "store_Claim B now' worker' queues' limit' attempt' = Inr (Some t', claimed')"
    and "\<forall>i. at_begin (attempt' i) = t"
  shows "distinct (map jb_ID (claimed @ claimed')) \<and>
         int (length claimed) \<le> limit \<and> int (length claimed') \<le> limit' \<and>
         (\<forall>j. j \<in> set claimed \<longrightarrow>
            (\<exists>i old. \<alpha> (at_begin (attempt i)) (jobKey (jb_ID old)) = Some (JobJSON old) \<and> claimable now old \<and>
               j = old\<lparr>jb_State := StateRunning, jb_Attempt := jb_Attempt old + 1, jb_UpdatedAt := now\<rparr>) \<and>
            \<alpha> t' (jobKey (jb_ID j)) = Some (JobJSON j) \<and>
            \<alpha> t (runningIndexKey worker (jb_ID j)) = Some (Bytes (jb_ID j)))"
proof -
  from store_Claim_inv [OF assms(1-3)] obtain i where
    c: "claim_inv (\<alpha> (at_begin (attempt i))) worker now (\<alpha> t) claimed" "int (length claimed) \<le> limit" .
  then have "\<forall>i. ids_ok (\<alpha> (at_begin (attempt' i)))" using assms(5) by (simp add: claim_inv_def)
  from store_Claim_inv [OF assms(1,4) this] assms(5) have
    c': "claim_inv (\<alpha> t) worker' now' (\<alpha> t') claimed'" "int (length claimed') \<le> limit'" by auto
  have disj: "jb_ID j \<notin> jb_ID ` set claimed'" if j: "j \<in> set claimed" for j
  proof
    assume "jb_ID j \<in> jb_ID ` set claimed'"
    then obtain j' where j': "j' \<in> set claimed'" "jb_ID j' = jb_ID j" by auto
    from j' c'(1) obtain old where "\<alpha> t (jobKey (jb_ID j)) = Some (JobJSON old)" "claimable now' old"
      by (auto simp: claim_inv_def)
    moreover from j c(1) have "\<alpha> t (jobKey (jb_ID j)) = Some (JobJSON j)" "jb_State j = StateRunning"
      by (auto simp: claim_inv_def)
    ultimately show False by (auto simp: claimable_def)
  qed
  then have "distinct (map jb_ID (claimed @ claimed'))" using c(1) c'(1) by (auto simp: claim_inv_def)
  moreover have "\<alpha> t' (jobKey (jb_ID j)) = Some (JobJSON j)" if "j \<in> set claimed" for j
    using disj [OF that] that c(1) c'(1) by (auto simp: claim_inv_def)
  moreover have "\<exists>i old. \<alpha> (at_begin (attempt i)) (jobKey (jb_ID old)) = Some (JobJSON old) \<and> claimable now old \<and>
      j = old\<lparr>jb_State := StateRunning, jb_Attempt := jb_Attempt old + 1, jb_UpdatedAt := now\<rparr>" if "j \<in> set claimed" for j
    using that c(1) unfolding claim_inv_def claimedBy_def by blast
  ultimately show ?thesis using c c'(2) by (simp add: claim_inv_def)
qed

definition wJob :: "string \<Rightarrow> string \<Rightarrow> string \<Rightarrow> Job" where
  "wJob jid queue cid = \<lparr>jb_ID = jid, jb_Spec = (wJobSpec 0)\<lparr>js_Queue := queue, js_Priority := 999999,
     js_CorrelateID := cid\<rparr>, jb_State = StateQueued,
     jb_Attempt = 0, jb_CreatedAt = unixEpoch + 5, jb_UpdatedAt = unixEpoch + 5, jb_CompletedAt = 0, jb_NextAttemptAt = 0,
     jb_LastError = [], jb_Labels = [], jb_Tags = [], jb_Metadata = [], jb_ResumeToken = []\<rparr>"

definition wAttempt :: "'t \<Rightarrow> nat \<Rightarrow> 't txnAttempt" where
  "wAttempt t i = \<lparr>at_ctxErr = None, at_begin = t, at_commit = None\<rparr>"

lemma wAttempt_begin [simp]: "at_begin (wAttempt t i) = t"
  by (simp add: wAttempt_def)

definition wStore :: "Job \<Rightarrow> memtxn" where
  "wStore job = [(jobKey (jb_ID job), JobJSON job), (readyIndexKey job, Bytes (jb_ID job))]"

definition wClaim :: "memtxn \<Rightarrow> jobErr + memtxn option \<times> Job list" where
  "wClaim t = store_Claim memB (unixEpoch + 5000) ''w1'' [''knowledge''] 4 (wAttempt t)"

definition wClaimed :: Job where
  "wClaimed = claimedBy (unixEpoch + 5000) (wJob ''j1'' ''knowledge'' ''c1'')"

lemma wClaim_runs:
  "wClaim (wStore (wJob ''j1'' ''knowledge'' ''c1'')) =
     Inr (Some [(jobKey ''j1'', JobJSON wClaimed), (runningIndexKey ''w1'' ''j1'', Bytes ''j1'')], [wClaimed])"
  "wClaim [(jobKey ''j1'', JobJSON wClaimed), (runningIndexKey ''w1'' ''j1'', Bytes ''j1'')] =
     Inr (Some [(jobKey ''j1'', JobJSON wClaimed), (runningIndexKey ''w1'' ''j1'', Bytes ''j1'')], [])"
  by code_simp+

lemma wStore_ids_ok: "ids_ok (map_of (wStore job))"
  by (auto simp: ids_ok_def wStore_def split: if_splits)

theorem claim_exactly_once_witness:
  "distinct (map jb_ID ([wClaimed] @ [])) \<and>
   map_of [(jobKey ''j1'', JobJSON wClaimed), (runningIndexKey ''w1'' ''j1'', Bytes ''j1'')] (runningIndexKey ''w1'' (jb_ID wClaimed)) =
     Some (Bytes (jb_ID wClaimed))"
proof -
  have "\<forall>i. ids_ok (map_of (at_begin (wAttempt (wStore (wJob ''j1'' ''knowledge'' ''c1'')) i)))"
    by (simp add: wStore_ids_ok)
  from claim_exactly_once [OF memB_laws wClaim_runs(1) [unfolded wClaim_def] this wClaim_runs(2) [unfolded wClaim_def]]
  show ?thesis by simp
qed

theorem create_at_most_once_witness:
  "\<exists>err. store_Create memB 7 (wJob ''j2'' ''q'' ''c1'') 
     (wAttempt ([(correlateKey ''c1'', Bytes ''j1'')] @ wStore (wJob ''j1'' ''q'' ''c1''))) = Inl err"
proof -
  let ?t = "[(correlateKey ''c1'', Bytes ''j1'')] @ wStore (wJob ''j1'' ''q'' ''c1'')"
  have first: "store_Create memB 7 (wJob ''j1'' ''q'' ''c1'') (wAttempt []) = Inr ?t" by code_simp
  have "\<exists>err. store_Create memB 7 (wJob ''j2'' ''q'' ''c1'') (wAttempt ?t) = Inl err"
    by (rule create_at_most_once [OF memB_laws first]) (simp_all add: wJob_def)
  then show ?thesis by simp
qed

end
