(* ===== verification/JobsRecovery.thy ===== *)
theory JobsRecovery
  imports JobsStore
begin

text \<open>
  The keys of the job store and its crash recovery (\<open>context/jobsstore/jobsstore.go\<close>): the ready
  index enumerates jobs in claim order, the running index can be parsed back, and \<open>recover\<close>,
  which runs when the store is opened, leaves no job in the running state.
\<close>

section \<open>Claim order\<close>

lemma clampPriority_range: "0 \<le> clampPriority p \<and> clampPriority p \<le> 999999"
  by (simp add: clampPriority_def)

lemma fmtPad_nonneg: "0 \<le> n \<Longrightarrow> fmtPad w n = decPad w (nat n)"
  by (simp add: fmtPad_def)

definition nanoRange :: "time \<Rightarrow> bool" where
  "nanoRange t \<longleftrightarrow> unixEpoch \<le> t \<and> t \<le> unixEpoch + maxInt64"

lemma UnixNano_range: "nanoRange t \<Longrightarrow> UnixNano t = t - unixEpoch"
  unfolding UnixNano_def nanoRange_def by (intro wrap64_id) (simp_all add: minInt64_def)

lemma pri_field: "decPad 6 (nat (999999 - clampPriority p)) < decPad 6 (nat (999999 - clampPriority p')) \<longleftrightarrow>
    clampPriority p' < clampPriority p"
  "decPad 6 (nat (999999 - clampPriority p)) = decPad 6 (nat (999999 - clampPriority p')) \<longleftrightarrow>
    clampPriority p' = clampPriority p"
  "length (decPad 6 (nat (999999 - clampPriority p))) = 6"
proof -
  have "nat (999999 - clampPriority q) < 10 ^ 6" for q using clampPriority_range [of q] by (simp add: nat_less_iff)
  note b = this [of p] this [of p']
  show "decPad 6 (nat (999999 - clampPriority p)) < decPad 6 (nat (999999 - clampPriority p')) \<longleftrightarrow>
      clampPriority p' < clampPriority p"
    and "decPad 6 (nat (999999 - clampPriority p)) = decPad 6 (nat (999999 - clampPriority p')) \<longleftrightarrow>
      clampPriority p' = clampPriority p"
    and "length (decPad 6 (nat (999999 - clampPriority p))) = 6"
    using clampPriority_range [of p] clampPriority_range [of p']
    by (auto simp: decPad_less [OF b] decPad_inj [OF b] length_decPad [OF b(1)])
qed

lemma nano_field:
  assumes "nanoRange c" and "nanoRange c'"
  shows "decPad 20 (nat (c - unixEpoch)) < decPad 20 (nat (c' - unixEpoch)) \<longleftrightarrow> c < c'"
    and "decPad 20 (nat (c - unixEpoch)) = decPad 20 (nat (c' - unixEpoch)) \<longleftrightarrow> c = c'"
    and "length (decPad 20 (nat (c - unixEpoch))) = 20"
proof -
  have "nat (c - unixEpoch) < 10 ^ 20" "nat (c' - unixEpoch) < 10 ^ 20"
    using assms by (simp_all add: nanoRange_def maxInt64_def nat_less_iff)
  note b = this
  show "decPad 20 (nat (c - unixEpoch)) < decPad 20 (nat (c' - unixEpoch)) \<longleftrightarrow> c < c'"
    and "decPad 20 (nat (c - unixEpoch)) = decPad 20 (nat (c' - unixEpoch)) \<longleftrightarrow> c = c'"
    and "length (decPad 20 (nat (c - unixEpoch))) = 20"
    using assms by (auto simp: decPad_less [OF b] decPad_inj [OF b] length_decPad [OF b(1)] nanoRange_def)
qed

text \<open>
  Badger enumerates keys in byte order, and the byte order of the ready index of a queue is the
  claim order the store documents: higher priority first (priorities clamped to 0..999999), then
  earlier creation, then the smaller identifier. The creation times are those that \<open>UnixNano\<close>
  represents from 1970 on.
\<close>

theorem readyIndexKey_order:
  assumes "js_Queue (jb_Spec j) = js_Queue (jb_Spec j')" and "nanoRange (jb_CreatedAt j)" and "nanoRange (jb_CreatedAt j')"
  shows "readyIndexKey j < readyIndexKey j' \<longleftrightarrow>
    (let p = clampPriority (js_Priority (jb_Spec j)); p' = clampPriority (js_Priority (jb_Spec j')) in
     p > p' \<or> (p = p' \<and> (jb_CreatedAt j < jb_CreatedAt j' \<or> (jb_CreatedAt j = jb_CreatedAt j' \<and> jb_ID j < jb_ID j'))))"
proof -
  let ?p = "clampPriority (js_Priority (jb_Spec j))" and ?p' = "clampPriority (js_Priority (jb_Spec j'))"
  have key: "readyIndexKey x = (''q:'' @ js_Queue (jb_Spec x) @ '':'') @
      decPad 6 (nat (999999 - clampPriority (js_Priority (jb_Spec x)))) @ '':'' @
      decPad 20 (nat (jb_CreatedAt x - unixEpoch)) @ '':'' @ jb_ID x"
    if "nanoRange (jb_CreatedAt x)" for x
    using clampPriority_range [of "js_Priority (jb_Spec x)"] that
    by (simp add: readyIndexKey_def UnixNano_range fmtPad_nonneg nanoRange_def)
  let ?c = "decPad 20 (nat (jb_CreatedAt j - unixEpoch))" and ?c' = "decPad 20 (nat (jb_CreatedAt j' - unixEpoch))"
  have nano: "?c @ '':'' @ jb_ID j < ?c' @ '':'' @ jb_ID j' \<longleftrightarrow>
      jb_CreatedAt j < jb_CreatedAt j' \<or> (jb_CreatedAt j = jb_CreatedAt j' \<and> jb_ID j < jb_ID j')"
    using less_append_same_length [of ?c ?c'] nano_field [OF assms(2,3)] nano_field(3) [OF assms(3,2)] by simp
  let ?q = "decPad 6 (nat (999999 - ?p))" and ?q' = "decPad 6 (nat (999999 - ?p'))"
  have "?q @ '':'' @ ?c @ '':'' @ jb_ID j < ?q' @ '':'' @ ?c' @ '':'' @ jb_ID j' \<longleftrightarrow>
      ?p' < ?p \<or> (?p' = ?p \<and> ?c @ '':'' @ jb_ID j < ?c' @ '':'' @ jb_ID j')"
    using less_append_same_length [of ?q ?q'] by (simp add: pri_field)
  then show ?thesis
    unfolding key [OF assms(2)] key [OF assms(3)] assms(1) Let_def nano
    by (subst less_append_same_length) auto
qed

theorem readyIndexKey_order_witness:
  "readyIndexKey ((wJob ''late'' ''q'' [])\<lparr>jb_CreatedAt := unixEpoch + 2000000000\<rparr>) <
   readyIndexKey ((wJob ''early'' ''q'' [])\<lparr>jb_Spec := (wJobSpec 0)\<lparr>js_Queue := ''q'', js_Priority := 999998\<rparr>\<rparr>)"
  by (subst readyIndexKey_order) (simp_all add: wJob_def wJobSpec_def nanoRange_def maxInt64_def clampPriority_def)

section \<open>The running index\<close>

lemma parse_split:
  "w \<noteq> [] \<Longrightarrow> jid \<noteq> [] \<Longrightarrow> CHR '':'' \<notin> set jid \<Longrightarrow> parseRunningIndexKey (''w:'' @ w @ '':'' @ jid) = Inr (w, jid)"
  by (simp add: parseRunningIndexKey_def splitLast_append)

text \<open>
  \<^bold>\<open>C39.\<close> The running index is read back as it was written exactly for job identifiers without a colon: a
  key of a worker and a colon-free identifier parses to both; an identifier that contains a colon
  never parses back to itself, and one that ends with a colon makes the key malformed.
\<close>

theorem parseRunningIndexKey_exact:
  assumes "worker \<noteq> []" and "jid \<noteq> []"
  shows "(parseRunningIndexKey (runningIndexKey worker jid) = Inr (worker, jid) \<longleftrightarrow> CHR '':'' \<notin> set jid) \<and>
         ((\<exists>err. parseRunningIndexKey (runningIndexKey worker jid) = Inl err) \<longleftrightarrow> last jid = CHR '':'')"
proof (cases "CHR '':'' \<in> set jid")
  case False
  then have "parseRunningIndexKey (runningIndexKey worker jid) = Inr (worker, jid)"
    using parse_split [OF assms False] by (simp add: runningIndexKey_def)
  moreover have "last jid \<noteq> CHR '':''" using False assms(2) by (metis last_in_set)
  ultimately show ?thesis using False by simp
next
  case True
  then obtain a b where jid: "jid = a @ CHR '':'' # b" "CHR '':'' \<notin> set b" by (meson split_list_last)
  have key: "runningIndexKey worker jid = ''w:'' @ (worker @ '':'' @ a) @ '':'' @ b"
    by (simp add: runningIndexKey_def jid(1))
  show ?thesis
  proof (cases "b = []")
    case True
    have "splitLast CHR '':'' ((worker @ '':'' @ a) @ '':'' @ b) = Some (worker @ '':'' @ a, b)"
      using splitLast_append [OF jid(2), of "worker @ '':'' @ a"] by simp
    with True jid show ?thesis unfolding key by (simp add: parseRunningIndexKey_def)
  next
    case False
    have "parseRunningIndexKey (runningIndexKey worker jid) = Inr (worker @ '':'' @ a, b)"
      unfolding key using False jid(2) by (intro parse_split) simp_all
    moreover have "last jid \<noteq> CHR '':''" using False jid by (metis last_appendR last_ConsR last_in_set list.distinct(1))
    ultimately show ?thesis using jid by simp
  qed
qed

theorem parseRunningIndexKey_exact_witness:
  "parseRunningIndexKey (runningIndexKey ''worker-0'' ''job-1'') = Inr (''worker-0'', ''job-1'')"
  using parseRunningIndexKey_exact [of "''worker-0''" "''job-1''"] by simp

section \<open>Recovery\<close>

text \<open>What recovery writes for an interrupted job: failed, or queued again when attempts remain.\<close>

definition interruptedJob :: "time \<Rightarrow> Job \<Rightarrow> Job" where
  "interruptedJob now job = job\<lparr>jb_State := StateFailed, jb_LastError := ''interrupted by restart'',
     jb_CompletedAt := now, jb_UpdatedAt := now\<rparr>"

definition requeuedJob :: "time \<Rightarrow> string \<Rightarrow> Job \<Rightarrow> Job" where
  "requeuedJob now token job = (interruptedJob now job)\<lparr>jb_State := StateQueued,
     jb_NextAttemptAt := now + NextBackoff (jb_Spec job) (jb_Attempt job), jb_CompletedAt := 0,
     jb_ResumeToken := token, jb_UpdatedAt := now\<rparr>"

definition recovered :: "(string \<Rightarrow> sval option) \<Rightarrow> time \<Rightarrow> Job \<Rightarrow> bool" where
  "recovered m now job \<longleftrightarrow>
     (if jb_Attempt job < maxAttempts job
      then \<exists>token. m (jobKey (jb_ID job)) = Some (JobJSON (requeuedJob now token job)) \<and>
             m (readyIndexKey (requeuedJob now token job)) = Some (Bytes (jb_ID job)) \<and>
             (token = jb_ResumeToken job \<or> (token = jb_ID job \<and> m (checkpointKey (jb_ID job)) \<noteq> None))
      else m (jobKey (jb_ID job)) = Some (JobJSON (interruptedJob now job)))"

definition resumeToken :: "'t badger \<Rightarrow> 't \<Rightarrow> Job \<Rightarrow> string" where
  "resumeToken B t job = (if hasCheckpointTxn B (jb_ID job) t then jb_ID job else jb_ResumeToken job)"

definition evInterrupted :: "(nat \<Rightarrow> time) \<Rightarrow> time \<Rightarrow> Job \<Rightarrow> Event" where
  "evInterrupted clk now job = \<lparr>ev_ID = newEventID (jb_ID job) ''interrupted'' (clk 0), ev_JobID = jb_ID job,
     ev_Type = EventFailed, ev_State = StateFailed, ev_Occurred = now, ev_Message = ''interrupted by restart'', ev_Metadata = []\<rparr>"

definition evRequeued :: "(nat \<Rightarrow> time) \<Rightarrow> time \<Rightarrow> bool \<Rightarrow> Job \<Rightarrow> Event" where
  "evRequeued clk now resumed job = \<lparr>ev_ID = newEventID (jb_ID job) ''requeued'' (clk 1), ev_JobID = jb_ID job,
     ev_Type = EventRetried, ev_State = StateQueued, ev_Occurred = now, ev_Message = ''requeued after interruption'',
     ev_Metadata = [(''resumed'', if resumed then ''true'' else ''false'')]\<rparr>"

lemma recovery_sel [simp]:
  "jb_ID (interruptedJob now c) = jb_ID c" "jb_ID (requeuedJob now tok c) = jb_ID c"
  "jb_State (interruptedJob now c) = StateFailed" "jb_State (requeuedJob now tok c) = StateQueued"
  "ev_JobID (evInterrupted clk now c) = jb_ID c" "ev_JobID (evRequeued clk now r c) = jb_ID c"
  by (simp_all add: interruptedJob_def requeuedJob_def evInterrupted_def evRequeued_def)

lemma maxAttempts_pos: "max (maxAttempts j) 1 = maxAttempts j"
  by (simp add: maxAttempts_def)

lemma maxAttempts_interrupted [simp]: "maxAttempts (interruptedJob now j) = maxAttempts j"
  by (simp add: maxAttempts_def interruptedJob_def)

lemma recovered_not_running: "recovered m now job \<Longrightarrow> \<exists>j. m (jobKey (jb_ID job)) = Some (JobJSON j) \<and> jb_State j \<noteq> StateRunning"
  by (auto simp: recovered_def requeuedJob_def interruptedJob_def split: if_splits)

lemma appendEventTxn_other:
  assumes "badger_laws B \<alpha>" and "appendEventTxn B e t = Inr t'"
    and "k \<noteq> eventSeqKey (ev_JobID e)" and "\<And>n. k \<noteq> eventKey (ev_JobID e) n"
  shows "\<alpha> t' k = \<alpha> t k"
  using assms(2-) by (auto simp: appendEventTxn_def ebind_Inr Let_def dest!: set_map_upd [OF assms(1)])

lemma hasCheckpoint_present: "badger_laws B \<alpha> \<Longrightarrow> hasCheckpointTxn B jid t \<Longrightarrow> \<alpha> t (checkpointKey jid) \<noteq> None"
  by (auto simp: hasCheckpointTxn_def split: sum.splits dest: get_Found)

text \<open>The transaction for one interrupted job, with the records and events it writes named.\<close>

lemma recoverOneTxn_eq:
  "recoverOneTxn B clk worker job now t =
     ebind (loadTxn B t (jb_ID job)) (\<lambda>c.
     ebind (bg_Delete B (runningIndexKey worker (jb_ID job)) t) (\<lambda>t.
     if jb_State c \<noteq> StateRunning then Inr t
     else ebind (appendEventTxn B (evInterrupted clk now c) t) (\<lambda>t.
       ebind (bg_Set B (jobKey (jb_ID c)) (JobJSON (interruptedJob now c)) t) (\<lambda>t.
       if jb_Attempt c < maxAttempts c
       then ebind (bg_Set B (jobKey (jb_ID c)) (JobJSON (requeuedJob now (resumeToken B t c) c)) t) (\<lambda>t'.
            ebind (bg_Set B (readyIndexKey (requeuedJob now (resumeToken B t c) c)) (Bytes (jb_ID c)) t') (\<lambda>t'.
            appendEventTxn B (evRequeued clk now (hasCheckpointTxn B (jb_ID c) t) c) t'))
       else Inr t))))"
proof -
  have m: "max (maxAttempts (c\<lparr>jb_State := s, jb_LastError := e, jb_CompletedAt := a, jb_UpdatedAt := b\<rparr>)) 1 = maxAttempts c"
    for c s e a b by (simp add: maxAttempts_def)
  show ?thesis
    unfolding recoverOneTxn_def Let_def m interruptedJob_def requeuedJob_def evInterrupted_def evRequeued_def resumeToken_def
    by (simp cong: if_cong)
qed

subsection \<open>Well-formed stores\<close>

text \<open>What the store itself writes: jobs under their identifier (here: one without a colon), decimal
  event counters, and running-index keys of a worker and an identifier.\<close>

definition val_ok :: "string \<Rightarrow> sval \<Rightarrow> bool" where
  "val_ok k v \<longleftrightarrow>
     (\<forall>jid. k = jobKey jid \<longrightarrow> jid \<noteq> [] \<and> CHR '':'' \<notin> set jid \<and> (\<exists>job. v = JobJSON job \<and> jb_ID job = jid)) \<and>
     (\<forall>jid. k = eventSeqKey jid \<longrightarrow> (\<exists>n < 2 ^ 64. v = Bytes (dec n))) \<and>
     (prefix ''w:'' k \<longrightarrow> (\<exists>w jid. w \<noteq> [] \<and> jid \<noteq> [] \<and> CHR '':'' \<notin> set jid \<and> k = runningIndexKey w jid))"

definition store_ok :: "(string \<Rightarrow> sval option) \<Rightarrow> bool" where
  "store_ok m \<longleftrightarrow> (\<forall>k v. m k = Some v \<longrightarrow> val_ok k v)"

lemma store_okD: "store_ok m \<Longrightarrow> m k = Some v \<Longrightarrow> val_ok k v"
  unfolding store_ok_def by blast

lemma store_ok_set: "store_ok m \<Longrightarrow> val_ok k v \<Longrightarrow> store_ok (m(k \<mapsto> v))"
  unfolding store_ok_def by simp

lemma store_ok_delete: "store_ok m \<Longrightarrow> store_ok (m(k := None))"
  unfolding store_ok_def by simp

lemma store_ok_job: "store_ok m \<Longrightarrow> m (jobKey jid) = Some v \<Longrightarrow> jid \<noteq> [] \<and> CHR '':'' \<notin> set jid \<and> (\<exists>job. v = JobJSON job \<and> jb_ID job = jid)"
  by (drule (1) store_okD) (simp add: val_ok_def)

lemma val_ok_job: "jb_ID job = jid \<Longrightarrow> jid \<noteq> [] \<Longrightarrow> CHR '':'' \<notin> set jid \<Longrightarrow> val_ok (jobKey jid) (JobJSON job)"
  unfolding val_ok_def by (simp add: jobKey_def eventSeqKey_def)

lemma val_ok_ready: "val_ok (readyIndexKey j) v"
  unfolding val_ok_def by (simp add: jobKey_def eventSeqKey_def readyIndexKey_def)

lemma val_ok_event: "val_ok (eventKey jid n) v"
  unfolding val_ok_def by (simp add: jobKey_def eventSeqKey_def eventKey_def)

lemma val_ok_seq: "n < 2 ^ 64 \<Longrightarrow> val_ok (eventSeqKey jid) (Bytes (dec n))"
  unfolding val_ok_def by (auto simp: jobKey_def eventSeqKey_def)

lemmas store_ok_intros = store_ok_set store_ok_delete val_ok_job val_ok_ready val_ok_event val_ok_seq

lemma foldl_dec: "foldl (\<lambda>v c. 10 * v + (of_char c - 48)) 0 (dec n) = (n :: nat)"
  by (induction n rule: dec.induct) (subst dec.simps, auto)

lemma parseUint64_dec: "n < 2 ^ 64 \<Longrightarrow> parseUint64 (dec n) = Some n"
  using dec_digits [of n] unfolding parseUint64_def Let_def foldl_dec by simp

lemma appendEventTxn_ok:
  assumes "badger_laws B \<alpha>" and "store_ok (\<alpha> t)" and "appendEventTxn B e t = Inr t'"
  shows "store_ok (\<alpha> t')"
proof -
  from assms(3) obtain n t1 where
    "bg_Set B (eventKey (ev_JobID e) (Suc n mod 2 ^ 64)) (EventJSON e) t = Inr t1"
    "bg_Set B (eventSeqKey (ev_JobID e)) (Bytes (dec (Suc n mod 2 ^ 64))) t1 = Inr t'"
    by (auto simp: appendEventTxn_def ebind_Inr Let_def)
  from this [THEN set_map_upd [OF assms(1)]] assms(2) show ?thesis by (simp add: store_ok_intros)
qed

subsection \<open>A store without I/O errors\<close>

definition io_ok :: "'t badger \<Rightarrow> bool" where
  "io_ok B \<longleftrightarrow> (\<forall>k t e. bg_Get B k t = Inl e \<longrightarrow> e = ErrKeyNotFound) \<and>
     (\<forall>k v t. \<exists>t'. bg_Set B k v t = Inr t') \<and> (\<forall>k t. \<exists>t'. bg_Delete B k t = Inr t')"

lemma memB_io_ok: "io_ok memB"
  by (simp add: io_ok_def memB_def split: option.splits)

lemma io_set: "io_ok B \<Longrightarrow> \<exists>t'. bg_Set B k v t = Inr t'"
  unfolding io_ok_def by blast

lemma io_delete: "io_ok B \<Longrightarrow> \<exists>t'. bg_Delete B k t = Inr t'"
  unfolding io_ok_def by blast

lemma io_get: "badger_laws B \<alpha> \<Longrightarrow> io_ok B \<Longrightarrow> bg_Get B k t = (case \<alpha> t k of None \<Rightarrow> Inl ErrKeyNotFound | Some v \<Rightarrow> Inr v)"
proof (cases "bg_Get B k t")
  case (Inl e)
  assume a: "badger_laws B \<alpha>" "io_ok B"
  then have "e = ErrKeyNotFound" using Inl unfolding io_ok_def by blast
  then show ?thesis using Inl get_Missing [OF a(1) Inl] by (simp add: errIsNotFound_def)
qed (simp add: get_Found)

lemma load_ok:
  assumes "badger_laws B \<alpha>" and "io_ok B" and "store_ok (\<alpha> t)"
  shows "loadTxn B t jid = (case \<alpha> t (jobKey jid) of Some (JobJSON job) \<Rightarrow> Inr job | _ \<Rightarrow> Inl ErrNotFound)"
  using store_ok_job [OF assms(3), of jid]
  by (cases "\<alpha> t (jobKey jid)") (auto simp: loadTxn_def io_get [OF assms(1,2)] errIsNotFound_def)

lemma appendEventTxn_total:
  assumes "badger_laws B \<alpha>" and "io_ok B" and "store_ok (\<alpha> t)"
  shows "\<exists>t'. appendEventTxn B e t = Inr t'"
proof -
  have "\<exists>n. readSeq B (ev_JobID e) t = Inr n"
  proof (cases "\<alpha> t (eventSeqKey (ev_JobID e))")
    case None
    then show ?thesis by (simp add: readSeq_def io_get [OF assms(1,2)] errIsNotFound_def)
  next
    case (Some v)
    with store_okD [OF assms(3) Some] obtain n where "n < 2 ^ 64" "v = Bytes (dec n)" by (auto simp: val_ok_def)
    with Some show ?thesis by (simp add: readSeq_def io_get [OF assms(1,2)] parseUint64_dec)
  qed
  then obtain n where n: "readSeq B (ev_JobID e) t = Inr n" by blast
  obtain t1 where "bg_Set B (eventKey (ev_JobID e) (Suc n mod 2 ^ 64)) (EventJSON e) t = Inr t1"
    using io_set [OF assms(2)] by blast
  moreover obtain t2 where "bg_Set B (eventSeqKey (ev_JobID e)) (Bytes (dec (Suc n mod 2 ^ 64))) t1 = Inr t2"
    using io_set [OF assms(2)] by blast
  ultimately show ?thesis using n by (simp add: appendEventTxn_def Let_def)
qed

subsection \<open>One interrupted job\<close>

lemma recoverOneTxn_running:
  assumes "badger_laws B \<alpha>" and "store_ok (\<alpha> t)" and "jb_ID c \<noteq> [] \<and> CHR '':'' \<notin> set (jb_ID c)" and "jb_State c = StateRunning"
    and "appendEventTxn B (evInterrupted clk now c) t1 = Inr t2" and "\<alpha> t1 = (\<alpha> t)(runningIndexKey worker (jb_ID c) := None)"
    and "bg_Set B (jobKey (jb_ID c)) (JobJSON (interruptedJob now c)) t2 = Inr t3"
  shows "store_ok (\<alpha> t3)" and "\<alpha> t3 (jobKey (jb_ID c)) = Some (JobJSON (interruptedJob now c))"
    and "jid \<noteq> jb_ID c \<Longrightarrow> \<alpha> t3 (jobKey jid) = \<alpha> t (jobKey jid)"
    and "\<alpha> t3 (readyIndexKey j) = \<alpha> t (readyIndexKey j)" and "\<alpha> t3 (checkpointKey jid) = \<alpha> t (checkpointKey jid)"
proof -
  have t2: "store_ok (\<alpha> t2)" using appendEventTxn_ok [OF assms(1) _ assms(5)] assms(2,6) by (simp add: store_ok_intros)
  have t3: "\<alpha> t3 = (\<alpha> t2)(jobKey (jb_ID c) \<mapsto> JobJSON (interruptedJob now c))" by (rule set_map_upd [OF assms(1,7)])
  show "store_ok (\<alpha> t3)" unfolding t3 using t2 assms(3) by (simp add: store_ok_intros)
  have frame: "\<alpha> t2 (jobKey i) = \<alpha> t (jobKey i)" "\<alpha> t2 (readyIndexKey j) = \<alpha> t (readyIndexKey j)"
    "\<alpha> t2 (checkpointKey i) = \<alpha> t (checkpointKey i)" for i j
    by (subst appendEventTxn_other [OF assms(1,5)]; simp add: assms(6))+
  show "\<alpha> t3 (jobKey (jb_ID c)) = Some (JobJSON (interruptedJob now c))"
    and "jid \<noteq> jb_ID c \<Longrightarrow> \<alpha> t3 (jobKey jid) = \<alpha> t (jobKey jid)"
    and "\<alpha> t3 (readyIndexKey j) = \<alpha> t (readyIndexKey j)" and "\<alpha> t3 (checkpointKey jid) = \<alpha> t (checkpointKey jid)"
    by (simp_all add: t3 frame)
qed

lemma readyIndexKey_id:
  "readyIndexKey j = readyIndexKey j' \<Longrightarrow> CHR '':'' \<notin> set (jb_ID j) \<Longrightarrow> CHR '':'' \<notin> set (jb_ID j') \<Longrightarrow> jb_ID j = jb_ID j'"
proof -
  assume eq: "readyIndexKey j = readyIndexKey j'" and c: "CHR '':'' \<notin> set (jb_ID j)" "CHR '':'' \<notin> set (jb_ID j')"
  let ?a = "\<lambda>j. ''q:'' @ js_Queue (jb_Spec j) @ '':'' @ fmtPad 6 (999999 - clampPriority (js_Priority (jb_Spec j))) @ '':'' @
     fmtPad 20 (UnixNano (jb_CreatedAt j))"
  have "?a j @ CHR '':'' # jb_ID j = ?a j' @ CHR '':'' # jb_ID j'" using eq by (simp add: readyIndexKey_def)
  then show ?thesis using append_sep_eq [OF c] by blast
qed

text \<open>The effect of recovering one job, on the jobs, the ready index and the checkpoints.\<close>

definition oneRecovered :: "(string \<Rightarrow> sval option) \<Rightarrow> time \<Rightarrow> string \<Rightarrow> (string \<Rightarrow> sval option) \<Rightarrow> bool" where
  "oneRecovered m now jid m' \<longleftrightarrow>
     store_ok m' \<and>
     (\<forall>i. i \<noteq> jid \<longrightarrow> m' (jobKey i) = m (jobKey i)) \<and>
     (\<forall>i. m' (checkpointKey i) = m (checkpointKey i)) \<and>
     (\<forall>j. jb_ID j \<noteq> jid \<longrightarrow> CHR '':'' \<notin> set (jb_ID j) \<longrightarrow> m' (readyIndexKey j) = m (readyIndexKey j)) \<and>
     (\<exists>c. m (jobKey jid) = Some (JobJSON c) \<and> jb_ID c = jid \<and>
        (if jb_State c = StateRunning then recovered m' now c
         else m' (jobKey jid) = m (jobKey jid) \<and> (\<forall>j. m' (readyIndexKey j) = m (readyIndexKey j))))"

lemma recoverOneTxn_effect:
  assumes "badger_laws B \<alpha>" and "store_ok (\<alpha> t)" and run: "recoverOneTxn B clk worker job now t = Inr t'"
  shows "oneRecovered (\<alpha> t) now (jb_ID job) (\<alpha> t')"
proof -
  from run obtain c t1 where load: "loadTxn B t (jb_ID job) = Inr c"
    and del: "bg_Delete B (runningIndexKey worker (jb_ID job)) t = Inr t1" by (auto simp: recoverOneTxn_eq ebind_Inr)
  note c = loadTxn_Found [OF assms(1) load] and t1 = delete_map_upd [OF assms(1) del]
  from store_ok_job [OF assms(2) c] have jid: "jb_ID c \<noteq> [] \<and> CHR '':'' \<notin> set (jb_ID c)" "jb_ID c = jb_ID job" by auto
  show ?thesis
  proof (cases "jb_State c = StateRunning")
    case False
    with run load del have "t' = t1" by (simp add: recoverOneTxn_eq)
    with False c jid assms(2) show ?thesis by (simp add: oneRecovered_def t1 store_ok_delete)
  next
    case True
    with run load del obtain t2 t3 where ev: "appendEventTxn B (evInterrupted clk now c) t1 = Inr t2"
      and set: "bg_Set B (jobKey (jb_ID c)) (JobJSON (interruptedJob now c)) t2 = Inr t3"
      and rest: "(if jb_Attempt c < maxAttempts c
        then ebind (bg_Set B (jobKey (jb_ID c)) (JobJSON (requeuedJob now (resumeToken B t3 c) c)) t3) (\<lambda>t'.
             ebind (bg_Set B (readyIndexKey (requeuedJob now (resumeToken B t3 c) c)) (Bytes (jb_ID c)) t') (\<lambda>t'.
             appendEventTxn B (evRequeued clk now (hasCheckpointTxn B (jb_ID c) t3) c) t'))
        else Inr t3) = Inr t'"
      by (auto simp: recoverOneTxn_eq ebind_Inr)
    note t3 = recoverOneTxn_running [OF assms(1,2) jid(1) True ev t1 [folded jid(2)] set]
    show ?thesis
    proof (cases "jb_Attempt c < maxAttempts c")
      case False
      with rest t3 c jid True show ?thesis by (auto simp: oneRecovered_def recovered_def)
    next
      case retry: True
      let ?q = "requeuedJob now (resumeToken B t3 c) c"
      from rest retry obtain t4 t5 e where s4: "bg_Set B (jobKey (jb_ID c)) (JobJSON ?q) t3 = Inr t4"
        and s5: "bg_Set B (readyIndexKey ?q) (Bytes (jb_ID c)) t4 = Inr t5" and s6: "appendEventTxn B e t5 = Inr t'"
        by (auto simp: ebind_Inr)
      have t5: "\<alpha> t5 = (\<alpha> t3)(jobKey (jb_ID c) \<mapsto> JobJSON ?q, readyIndexKey ?q \<mapsto> Bytes (jb_ID c))"
        using set_map_upd [OF assms(1) s4] set_map_upd [OF assms(1) s5] by simp
      then have ok: "store_ok (\<alpha> t')"
        using t3(1) jid(1) by (intro appendEventTxn_ok [OF assms(1) _ s6]) (simp add: store_ok_intros)
      have frame: "\<alpha> t' (jobKey i) = \<alpha> t5 (jobKey i)" "\<alpha> t' (readyIndexKey j) = \<alpha> t5 (readyIndexKey j)"
        "\<alpha> t' (checkpointKey i) = \<alpha> t5 (checkpointKey i)" for i j
        by (subst appendEventTxn_other [OF assms(1) s6]; simp)+
      have tok: "resumeToken B t3 c = jb_ResumeToken c \<or> (resumeToken B t3 c = jb_ID c \<and> \<alpha> t' (checkpointKey (jb_ID c)) \<noteq> None)"
        using hasCheckpoint_present [OF assms(1), of "jb_ID c" t3] by (auto simp: resumeToken_def frame t5)
      have "recovered (\<alpha> t') now c"
        using retry tok unfolding recovered_def by (auto simp: frame t5 intro!: exI [of _ "resumeToken B t3 c"])
      moreover have "\<alpha> t' (readyIndexKey j) = \<alpha> t (readyIndexKey j)" if "jb_ID j \<noteq> jb_ID c" "CHR '':'' \<notin> set (jb_ID j)" for j
      proof -
        have "readyIndexKey j \<noteq> readyIndexKey ?q" using readyIndexKey_id [of j ?q] that jid(1) by auto
        then show ?thesis by (simp add: frame t5 t3)
      qed
      ultimately show ?thesis
        using True c jid ok t3 by (auto simp: oneRecovered_def frame t5)
    qed
  qed
qed

lemma recoverOneTxn_total:
  assumes "badger_laws B \<alpha>" and "io_ok B" and "store_ok (\<alpha> t)" and "\<alpha> t (jobKey (jb_ID job)) = Some (JobJSON c)"
  shows "\<exists>t'. recoverOneTxn B clk worker job now t = Inr t'"
proof -
  have load: "loadTxn B t (jb_ID job) = Inr c" using assms(4) by (simp add: load_ok [OF assms(1-3)])
  from store_ok_job [OF assms(3,4)] have jid: "jb_ID c \<noteq> [] \<and> CHR '':'' \<notin> set (jb_ID c)" "jb_ID c = jb_ID job" by auto
  obtain t1 where t1: "bg_Delete B (runningIndexKey worker (jb_ID job)) t = Inr t1" using io_delete [OF assms(2)] by blast
  show ?thesis
  proof (cases "jb_State c = StateRunning")
    case True
    note m1 = delete_map_upd [OF assms(1) t1]
    have ok1: "store_ok (\<alpha> t1)" unfolding m1 by (rule store_ok_delete [OF assms(3)])
    obtain t2 where t2: "appendEventTxn B (evInterrupted clk now c) t1 = Inr t2"
      using appendEventTxn_total [OF assms(1,2) ok1] by blast
    obtain t3 where t3: "bg_Set B (jobKey (jb_ID c)) (JobJSON (interruptedJob now c)) t2 = Inr t3" using io_set [OF assms(2)] by blast
    have ok3: "store_ok (\<alpha> t3)" by (rule recoverOneTxn_running(1) [OF assms(1,3) jid(1) True t2 m1 [folded jid(2)] t3])
    let ?q = "requeuedJob now (resumeToken B t3 c) c"
    obtain t4 where t4: "bg_Set B (jobKey (jb_ID c)) (JobJSON ?q) t3 = Inr t4" using io_set [OF assms(2)] by blast
    obtain t5 where t5: "bg_Set B (readyIndexKey ?q) (Bytes (jb_ID c)) t4 = Inr t5" using io_set [OF assms(2)] by blast
    have "store_ok (\<alpha> t5)"
      using set_map_upd [OF assms(1) t4] set_map_upd [OF assms(1) t5] ok3 jid(1) by (simp add: store_ok_intros)
    then obtain t6 where "appendEventTxn B (evRequeued clk now (hasCheckpointTxn B (jb_ID c) t3) c) t5 = Inr t6"
      using appendEventTxn_total [OF assms(1,2)] by blast
    with True load t1 t2 t3 t4 t5 show ?thesis by (simp add: recoverOneTxn_eq)
  qed (simp add: recoverOneTxn_eq load t1)
qed

subsection \<open>All of them\<close>

text \<open>Where recovery stands when the jobs \<open>seen\<close> have been processed.\<close>

definition recovery_inv :: "(string \<Rightarrow> sval option) \<Rightarrow> time \<Rightarrow> string set \<Rightarrow> (string \<Rightarrow> sval option) \<Rightarrow> bool" where
  "recovery_inv m0 now seen m \<longleftrightarrow>
     store_ok m \<and>
     (\<forall>jid job. m0 (jobKey jid) = Some (JobJSON job) \<longrightarrow> jb_ID job = jid \<and> CHR '':'' \<notin> set jid \<and>
        (if jb_State job = StateRunning \<and> jid \<in> seen then recovered m now job else m (jobKey jid) = Some (JobJSON job)))"

lemma recovered_frame:
  "recovered m now job \<Longrightarrow> m' (jobKey (jb_ID job)) = m (jobKey (jb_ID job)) \<Longrightarrow>
   m' (checkpointKey (jb_ID job)) = m (checkpointKey (jb_ID job)) \<Longrightarrow>
   (\<And>tok. m' (readyIndexKey (requeuedJob now tok job)) = m (readyIndexKey (requeuedJob now tok job))) \<Longrightarrow>
   recovered m' now job"
  unfolding recovered_def by (simp split: if_splits)

lemma recovery_inv_step:
  assumes inv: "recovery_inv m0 now seen m" and one: "oneRecovered m now jid m'"
  shows "recovery_inv m0 now (insert jid seen) m'"
  unfolding recovery_inv_def
proof (intro conjI allI impI)
  show "store_ok m'" using one by (simp add: oneRecovered_def)
next
  fix i job assume old: "m0 (jobKey i) = Some (JobJSON job)"
  from inv old show id: "jb_ID job = i" and colon: "CHR '':'' \<notin> set i" by (auto simp: recovery_inv_def)
  from inv old have now: "if jb_State job = StateRunning \<and> i \<in> seen then recovered m now job else m (jobKey i) = Some (JobJSON job)"
    by (auto simp: recovery_inv_def)
  from one obtain c where c: "m (jobKey jid) = Some (JobJSON c)"
    "if jb_State c = StateRunning then recovered m' now c
     else m' (jobKey jid) = m (jobKey jid) \<and> (\<forall>j. m' (readyIndexKey j) = m (readyIndexKey j))"
    by (auto simp: oneRecovered_def)
  have ck: "m' (checkpointKey i) = m (checkpointKey i)" using one by (simp add: oneRecovered_def)
  show "if jb_State job = StateRunning \<and> i \<in> insert jid seen then recovered m' now job else m' (jobKey i) = Some (JobJSON job)"
  proof (cases "i = jid")
    case False
    then have "m' (jobKey i) = m (jobKey i)" "m' (readyIndexKey (requeuedJob now tok job)) = m (readyIndexKey (requeuedJob now tok job))" for tok
      using one id colon by (simp_all add: oneRecovered_def)
    with now False ck id show ?thesis by (auto intro!: recovered_frame [of m] split: if_splits)
  next
    case True
    show ?thesis
    proof (cases "jb_State job = StateRunning \<and> i \<in> seen")
      case rec: True
      with now have r: "recovered m now job" by simp
      from recovered_not_running [OF r] c(1) id True have "jb_State c \<noteq> StateRunning" by auto
      with c rec r ck id True show ?thesis by (auto intro!: recovered_frame [of m])
    qed (use now c True in auto)
  qed
qed

lemma retry_after_conflicts:
  assumes "body t = Inr r" and "k < maxConflictRetries" and "at k = None" and "\<forall>i < k. at i = Some ErrBadgerConflict"
  shows "retryTxnCtx body (\<lambda>i. \<lparr>at_ctxErr = None, at_begin = t, at_commit = at i\<rparr>) = Inr r"
proof -
  let ?a = "\<lambda>i. \<lparr>at_ctxErr = None, at_begin = t, at_commit = at i\<rparr>"
  have skip: "retryTxn body (map ?a [j..<j + n] @ as) = retryTxn body as" if "\<forall>i < j + n. at i = Some ErrBadgerConflict" for j n as
    using that by (induction n arbitrary: as) (simp_all add: assms(1))
  have "[0..<maxConflictRetries] = [0..<0 + k] @ k # [Suc k..<maxConflictRetries]"
    using assms(2) by (metis add_0 upt_conv_Cons upt_add_eq_append le_add_diff_inverse less_imp_le zero_le)
  with skip [of 0 k] assms show ?thesis by (simp add: retryTxnCtx_def)
qed

lemma recoverScan_ok:
  assumes "badger_laws B \<alpha>" and "io_ok B" and "store_ok (\<alpha> t)"
  shows "\<forall>(k, v) \<in> set items. prefix ''w:'' k \<and> \<alpha> t k = Some v \<Longrightarrow>
    \<exists>found. recoverScan B t items = Inr found \<and>
      (\<forall>(w, job) \<in> set found. \<alpha> t (jobKey (jb_ID job)) = Some (JobJSON job)) \<and>
      (\<forall>k v w jid job. (k, v) \<in> set items \<longrightarrow> k = runningIndexKey w jid \<longrightarrow> CHR '':'' \<notin> set jid \<longrightarrow>
         \<alpha> t (jobKey jid) = Some (JobJSON job) \<longrightarrow> (w, job) \<in> set found)"
proof (induction items)
  case (Cons item items)
  obtain k v where item: "item = (k, v)" by (cases item)
  from Cons.prems item have kv: "prefix ''w:'' k" "\<alpha> t k = Some v" by auto
  with store_okD [OF assms(3) kv(2)] obtain w jid where
    k: "w \<noteq> []" "jid \<noteq> []" "CHR '':'' \<notin> set jid" "k = runningIndexKey w jid" by (auto simp: val_ok_def)
  have parse: "parseRunningIndexKey k = Inr (w, jid)" using parse_split [OF k(1-3)] k(4) by (simp add: runningIndexKey_def)
  have key: "w' = w \<and> jid' = jid" if "k = runningIndexKey w' jid'" "CHR '':'' \<notin> set jid'" for w' jid'
    using that k(3,4) append_sep_eq [of "CHR '':''" jid jid' w w'] by (simp add: runningIndexKey_def)
  from Cons obtain found where found: "recoverScan B t items = Inr found"
    "\<forall>(w, job) \<in> set found. \<alpha> t (jobKey (jb_ID job)) = Some (JobJSON job)"
    "\<forall>k v w jid job. (k, v) \<in> set items \<longrightarrow> k = runningIndexKey w jid \<longrightarrow> CHR '':'' \<notin> set jid \<longrightarrow>
       \<alpha> t (jobKey jid) = Some (JobJSON job) \<longrightarrow> (w, job) \<in> set found" by auto
  show ?case
  proof (cases "\<alpha> t (jobKey jid)")
    case None
    then have "recoverScan B t (item # items) = Inr found"
      using found(1) by (simp add: item parse load_ok [OF assms] errIsNotFound_def)
    with found None key item show ?thesis by fastforce
  next
    case (Some v)
    with store_ok_job [OF assms(3) Some] obtain job where job: "\<alpha> t (jobKey jid) = Some (JobJSON job)" "jb_ID job = jid" by auto
    then have "recoverScan B t (item # items) = Inr ((w, job) # found)"
      using found(1) by (simp add: item parse load_ok [OF assms])
    with found job key item show ?thesis by fastforce
  qed
qed simp

lemma recoverAll_ok:
  assumes "badger_laws B \<alpha>" and "io_ok B"
    and "\<And>n. \<exists>k < maxConflictRetries. outcome n k = None \<and> (\<forall>i < k. outcome n i = Some ErrBadgerConflict)"
  shows "recovery_inv m0 now seen (\<alpha> t) \<Longrightarrow> \<forall>(w, job) \<in> set found. m0 (jobKey (jb_ID job)) = Some (JobJSON job) \<Longrightarrow>
    \<exists>t'. recoverAll B clk now outcome n found t = Inr t' \<and>
         recovery_inv m0 now (seen \<union> (jb_ID \<circ> snd) ` set found) (\<alpha> t')"
proof (induction found arbitrary: n seen t)
  case (Cons f found)
  obtain w job where f: "f = (w, job)" by (cases f)
  have ok: "store_ok (\<alpha> t)" using Cons.prems(1) by (simp add: recovery_inv_def)
  have "m0 (jobKey (jb_ID job)) = Some (JobJSON job)" using Cons.prems(2) f by simp
  with Cons.prems(1) have "\<exists>c. \<alpha> t (jobKey (jb_ID job)) = Some (JobJSON c)"
    unfolding recovery_inv_def using recovered_not_running by (metis (no_types))
  then obtain t1 where t1: "recoverOneTxn B (clk n) w job now t = Inr t1"
    using recoverOneTxn_total [OF assms(1,2) ok] by blast
  note step = recovery_inv_step [OF Cons.prems(1) recoverOneTxn_effect [OF assms(1) ok t1]]
  from assms(3) [of n] obtain k where "k < maxConflictRetries" "outcome n k = None" "\<forall>i < k. outcome n i = Some ErrBadgerConflict" by blast
  from retry_after_conflicts [of "recoverOneTxn B (clk n) w job now", OF t1 this]
  have "recoverAll B clk now outcome n (f # found) t = recoverAll B clk now outcome (Suc n) found t1" by (simp add: f)
  with Cons.IH [OF step] Cons.prems(2) show ?case by (auto simp: f)
qed simp

lemma recovery_inv_start: "store_ok m \<Longrightarrow> recovery_inv m now {} m"
  unfolding recovery_inv_def using store_ok_job by auto


definition wCrashed :: memtxn where
  "wCrashed = [(jobKey ''j1'', JobJSON wClaimed), (runningIndexKey ''w1'' ''j1'', Bytes ''j1'')]"

lemma wCrashed_job: "map_of wCrashed (jobKey jid) = Some v \<Longrightarrow> jid = ''j1'' \<and> v = JobJSON wClaimed"
  by (auto simp: wCrashed_def split: if_splits)

lemma wCrashed_ok: "store_ok (map_of wCrashed)"
proof -
  have "val_ok (runningIndexKey ''w1'' ''j1'') v" for v
    unfolding val_ok_def
    by (intro conjI impI exI [of _ "''w1''"] exI [of _ "''j1''"]) (simp_all add: runningIndexKey_def jobKey_def eventSeqKey_def)
  moreover have "val_ok (jobKey ''j1'') (JobJSON wClaimed)" by (rule val_ok_job) (simp_all add: wClaimed_def wJob_def)
  ultimately show ?thesis by (auto simp: store_ok_def wCrashed_def split: if_splits)
qed


text \<open>A job whose identifier contains a colon is not recovered: its running-index entry parses to another
  identifier, the scan takes it for stale, and the job stays running for good. A queue name that
  is the prefix of another, up to a colon, claims the other queue's jobs.\<close>

theorem colon_job_stays_running:
  "recover memB (\<lambda>n i. 0) (unixEpoch + 9000) (\<lambda>n i. None)
     [(jobKey ''job-a:b'', JobJSON (wClaimed\<lparr>jb_ID := ''job-a:b''\<rparr>)), (runningIndexKey ''worker-0'' ''job-a:b'', Bytes ''job-a:b'')] =
   Inr [(jobKey ''job-a:b'', JobJSON (wClaimed\<lparr>jb_ID := ''job-a:b''\<rparr>)), (runningIndexKey ''worker-0'' ''job-a:b'', Bytes ''job-a:b'')]"
  by code_simp

theorem claim_reaches_other_queue:
  "map_sum id (map (\<lambda>j. (jb_ID j, js_Queue (jb_Spec j))) \<circ> snd)
     (store_Claim memB (unixEpoch + 9000) ''w1'' [''a''] 4 (wAttempt (wStore (wJob ''j1'' ''a:b'' [])))) =
   Inr [(''j1'', ''a:b'')]"
  by code_simp

end
