(* ===== verification/Runner.thy ===== *)
theory Runner
  imports JobsRecovery
begin

text \<open>
  The job runner (\<open>ayenitd/executor.go\<close>): one attempt of a claimed job, from the choice of the handler
  to the transition that ends it.

  Handlers are an interface: a handler is the function from the job to its checkpoint and error.
  \<open>he_interrupt\<close> says whether the error wraps \<open>context.Canceled\<close> or \<open>context.DeadlineExceeded\<close>. The
  store calls of an attempt run on the state that the previous call left: the job is running and
  only its worker updates it. \<open>E k i\<close> is what the \<open>i\<close>-th try of the \<open>k\<close>-th store call meets.
  Telemetry events are not part of the state.
\<close>

section \<open>Attempts\<close>

record handlerErr =
  he_msg :: string
  he_interrupt :: bool

type_synonym jobHandler = "Job \<Rightarrow> Checkpoint \<times> handlerErr option"
type_synonym handlerRegistry = "string \<Rightarrow> jobHandler option"

type_synonym storeEnv = "nat \<Rightarrow> nat \<Rightarrow> goerr option \<times> jobErr option"

definition storeCall :: "storeEnv \<Rightarrow> nat \<Rightarrow> 't \<Rightarrow> nat \<Rightarrow> 't txnAttempt" where
  "storeCall E k t i = \<lparr>at_ctxErr = fst (E k i), at_begin = t, at_commit = snd (E k i)\<rparr>"

abbreviation EventCompleted :: eventType where "EventCompleted \<equiv> ''completed''"

text \<open>The texts of the errors of the store and of Badger.\<close>

fun goerrText :: "goerr \<Rightarrow> string" where
  "goerrText (Err s) = s"
| "goerrText (Wrap s e) = s @ goerrText e"
| "goerrText (ErrParseDuration s) = ''time: invalid duration '' @ s"
| "goerrText (ErrParseTime s) = ''parsing time '' @ s"

fun jobErrText :: "jobErr \<Rightarrow> string" where
  "jobErrText ErrKeyNotFound = ''Key not found''"
| "jobErrText ErrNotFound = ''job not found''"
| "jobErrText ErrCkptNotFound = ''checkpoint not found''"
| "jobErrText ErrExists = ''job already exists''"
| "jobErrText ErrBadgerConflict = ''Transaction Conflict. Please retry''"
| "jobErrText (ErrCtx e) = goerrText e"
| "jobErrText (ErrOther e) = goerrText e"

text \<open>The errors of \<open>AppendEvent\<close> are dropped.\<close>

definition appendBestEffort :: "'t badger \<Rightarrow> storeEnv \<Rightarrow> nat \<Rightarrow> Event \<Rightarrow> 't \<Rightarrow> 't" where
  "appendBestEffort B E k e t = (case AppendEvent B e (storeCall E k t) of Inl _ \<Rightarrow> t | Inr t' \<Rightarrow> t')"

definition failedJob :: "'t badger \<Rightarrow> time \<Rightarrow> string \<Rightarrow> bool \<Rightarrow> Job \<Rightarrow> 't \<Rightarrow> Job" where
  "failedJob B now cause retry job t =
     (let job = job\<lparr>jb_LastError := cause, jb_UpdatedAt := now\<rparr> in
      if retry
      then job\<lparr>jb_State := StateQueued, jb_NextAttemptAt := now + NextBackoff (jb_Spec job) (jb_Attempt job),
               jb_ResumeToken := (case LoadCheckpoint B (jb_ID job) t of Inr _ \<Rightarrow> jb_ID job | Inl _ \<Rightarrow> jb_ResumeToken job)\<rparr>
      else job\<lparr>jb_State := StateFailed, jb_CompletedAt := now\<rparr>)"

definition exec_fail :: "'t badger \<Rightarrow> storeEnv \<Rightarrow> nat \<Rightarrow> time \<Rightarrow> Job \<Rightarrow> string \<Rightarrow> bool \<Rightarrow> 't \<Rightarrow> 't" where
  "exec_fail B E k now job cause retry t =
     (let job = failedJob B now cause retry job t in
      case store_Update B job (storeCall E k t) of
        Inl _ \<Rightarrow> t
      | Inr t' \<Rightarrow> appendBestEffort B E (k + 1)
          \<lparr>ev_ID = jb_ID job @ ''-f-'' @ fmtInt (UnixNano now), ev_JobID = jb_ID job,
           ev_Type = (if retry then EventRetried else EventFailed), ev_State = jb_State job, ev_Occurred = now,
           ev_Message = cause, ev_Metadata = []\<rparr> t')"

definition completedJob :: "time \<Rightarrow> Job \<Rightarrow> Job" where
  "completedJob now job = job\<lparr>jb_State := StateCompleted, jb_CompletedAt := now, jb_UpdatedAt := now\<rparr>"

text \<open>The resume checkpoint that the handler is told about.\<close>

definition withResume :: "'t badger \<Rightarrow> 't \<Rightarrow> Job \<Rightarrow> Job" where
  "withResume B t job =
     (if jb_ResumeToken job \<noteq> []
      then (case LoadCheckpoint B (jb_ID job) t of
              Inr cp \<Rightarrow> job\<lparr>jb_Metadata := [(''resume_checkpoint'', ck_ID cp)]\<rparr>
            | Inl _ \<Rightarrow> job)
      else job)"

text \<open>\<open>shutdown\<close> and \<open>expired\<close> are the errors of the run context and of the attempt context when the handler
  has returned. The attempt has a context of its own only when the specification sets a timeout.\<close>

definition runAttempt ::
  "'t badger \<Rightarrow> storeEnv \<Rightarrow> handlerRegistry \<Rightarrow> bool \<Rightarrow> bool \<Rightarrow> time \<Rightarrow> Job \<Rightarrow> 't \<Rightarrow> 't" where
  "runAttempt B E handlers shutdown expired now job t =
     (case handlers (js_Kind (jb_Spec job)) of
        None \<Rightarrow> exec_fail B E 0 now job (''unknown job kind '' @ [CHR 0x22] @ js_Kind (jb_Spec job) @ [CHR 0x22]) False t
      | Some handler \<Rightarrow>
          let job = withResume B t job in
          (case handler job of
             (cp, None) \<Rightarrow>
               (case (if ck_State cp \<noteq> None then SaveCheckpoint B cp (storeCall E 0 t) else Inr t) of
                  Inl err \<Rightarrow> exec_fail B E 1 now job (''save checkpoint: '' @ jobErrText err) False t
                | Inr t \<Rightarrow>
                    let job = completedJob now job in
                    (case store_Update B job (storeCall E 1 t) of
                       Inl _ \<Rightarrow> t
                     | Inr t' \<Rightarrow> appendBestEffort B E 2
                         \<lparr>ev_ID = jb_ID job @ ''-c-'' @ fmtInt (UnixNano now), ev_JobID = jb_ID job, ev_Type = EventCompleted,
                          ev_State = StateCompleted, ev_Occurred = now, ev_Message = [], ev_Metadata = []\<rparr> t'))
           | (cp, Some err) \<Rightarrow>
               let attemptExpired = (js_Timeout (jb_Spec job) > 0 \<and> expired) in
               if shutdown \<or> (\<not> attemptExpired \<and> he_interrupt err) then t
               else
                 let t = (if ck_State cp \<noteq> None
                          then (case SaveCheckpoint B cp (storeCall E 0 t) of Inl _ \<Rightarrow> t | Inr t' \<Rightarrow> t')
                          else t);
                     retry = (jb_Attempt job < maxAttempts job)
                 in exec_fail B E 1 now job (he_msg err) retry t))"

section \<open>The effect of store calls on the jobs\<close>

lemma storeCall_begin [simp]: "at_begin (storeCall E k t i) = t"
  by (simp add: storeCall_def)

lemma retry_storeCall: "retryTxnCtx body (storeCall E k t) = Inr t' \<Longrightarrow> body t = Inr t'"
proof -
  assume "retryTxnCtx body (storeCall E k t) = Inr t'"
  from retryTxnCtx_Inr [OF this] show ?thesis by simp
qed

lemma updateTxn_effect:
  assumes "badger_laws B \<alpha>" and "updateTxn B job t = Inr t'"
  shows "\<exists>old. \<alpha> t (jobKey (jb_ID job)) = Some (JobJSON old)"
    and "\<alpha> t' (jobKey jid) = (if jid = jb_ID job then Some (JobJSON job) else \<alpha> t (jobKey jid))"
    and "jb_State job = StateQueued \<Longrightarrow> \<alpha> t' (readyIndexKey job) = Some (Bytes (jb_ID job))"
proof -
  from assms(2) obtain old t1 t2 where old: "loadTxn B t (jb_ID job) = Inr old"
    and t1: "bg_Set B (jobKey (jb_ID job)) (JobJSON job) t = Inr t1"
    and t2: "(if jb_State old = StateQueued then bg_Delete B (readyIndexKey old) t1 else Inr t1) = Inr t2"
    and t3: "(if jb_State job = StateQueued then bg_Set B (readyIndexKey job) (Bytes (jb_ID job)) t2 else Inr t2) = Inr t'"
    by (auto simp: updateTxn_def ebind_Inr)
  note m1 = set_map_upd [OF assms(1) t1]
  show "\<exists>old. \<alpha> t (jobKey (jb_ID job)) = Some (JobJSON old)" using loadTxn_Found [OF assms(1) old] by blast
  show "\<alpha> t' (jobKey jid) = (if jid = jb_ID job then Some (JobJSON job) else \<alpha> t (jobKey jid))"
    using m1 t2 t3 by (auto split: if_splits dest!: set_map_upd [OF assms(1)] delete_map_upd [OF assms(1)])
  show "jb_State job = StateQueued \<Longrightarrow> \<alpha> t' (readyIndexKey job) = Some (Bytes (jb_ID job))"
    using t3 by (auto dest!: set_map_upd [OF assms(1)])
qed

lemma store_Update_txn: "store_Update B job (storeCall E k t) = Inr t' \<Longrightarrow> updateTxn B job t = Inr t'"
  by (auto simp: store_Update_def split: option.splits intro: retry_storeCall)

lemma AppendEvent_jobs:
  assumes "badger_laws B \<alpha>" and "AppendEvent B e (storeCall E k t) = Inr t'"
  shows "\<alpha> t' (jobKey jid) = \<alpha> t (jobKey jid)" and "\<alpha> t' (readyIndexKey j) = \<alpha> t (readyIndexKey j)"
proof -
  have "appendEventTxn B e t = Inr t'" using assms(2) by (auto simp: AppendEvent_def split: option.splits intro: retry_storeCall)
  then show "\<alpha> t' (jobKey jid) = \<alpha> t (jobKey jid)" "\<alpha> t' (readyIndexKey j) = \<alpha> t (readyIndexKey j)"
    by (auto intro!: appendEventTxn_other [OF assms(1)])
qed

lemma appendBestEffort_jobs:
  assumes "badger_laws B \<alpha>"
  shows "\<alpha> (appendBestEffort B E k e t) (jobKey jid) = \<alpha> t (jobKey jid)"
    and "\<alpha> (appendBestEffort B E k e t) (readyIndexKey j) = \<alpha> t (readyIndexKey j)"
  using AppendEvent_jobs [OF assms] by (auto simp: appendBestEffort_def split: sum.split)

lemma SaveCheckpoint_jobs:
  assumes "badger_laws B \<alpha>" and "SaveCheckpoint B cp (storeCall E k t) = Inr t'"
  shows "\<alpha> t' (jobKey jid) = \<alpha> t (jobKey jid)" and "\<alpha> t' (readyIndexKey j) = \<alpha> t (readyIndexKey j)"
proof -
  have "saveCheckpointTxn B cp t = Inr t'" using assms(2) by (auto simp: SaveCheckpoint_def split: option.splits intro: retry_storeCall)
  then show "\<alpha> t' (jobKey jid) = \<alpha> t (jobKey jid)" "\<alpha> t' (readyIndexKey j) = \<alpha> t (readyIndexKey j)"
    by (auto simp: saveCheckpointTxn_def ebind_Inr split: sum.splits if_splits
        dest!: set_map_upd [OF assms(1)] delete_map_upd [OF assms(1)])
qed

section \<open>How an attempt ends\<close>

text \<open>The ways a running job may be stored when its attempt is over.\<close>

definition attemptEnds :: "handlerRegistry \<Rightarrow> time \<Rightarrow> Job \<Rightarrow> (string \<Rightarrow> sval option) \<Rightarrow> Job \<Rightarrow> bool" where
  "attemptEnds handlers now job m' job' \<longleftrightarrow>
     job' = job \<or>
     jb_ID job' = jb_ID job \<and> jb_Spec job' = jb_Spec job \<and> jb_Attempt job' = jb_Attempt job \<and> jb_UpdatedAt job' = now \<and>
     (jb_State job' = StateCompleted \<and> jb_CompletedAt job' = now \<and> handlers (js_Kind (jb_Spec job)) \<noteq> None \<or>
      jb_State job' = StateFailed \<and> jb_CompletedAt job' = now \<or>
      jb_State job' = StateQueued \<and> handlers (js_Kind (jb_Spec job)) \<noteq> None \<and> jb_Attempt job < maxAttempts job \<and>
        jb_NextAttemptAt job' = now + NextBackoff (jb_Spec job) (jb_Attempt job) \<and>
        m' (readyIndexKey job') = Some (Bytes (jb_ID job)))"

definition attemptSpec :: "handlerRegistry \<Rightarrow> time \<Rightarrow> Job \<Rightarrow> (string \<Rightarrow> sval option) \<Rightarrow> (string \<Rightarrow> sval option) \<Rightarrow> bool" where
  "attemptSpec handlers now job m m' \<longleftrightarrow>
     (\<forall>jid. jid \<noteq> jb_ID job \<longrightarrow> m' (jobKey jid) = m (jobKey jid)) \<and>
     (\<exists>job'. m' (jobKey (jb_ID job)) = Some (JobJSON job') \<and> attemptEnds handlers now job m' job')"

lemma withResume_sel [simp]:
  "jb_ID (withResume B t job) = jb_ID job" "jb_Spec (withResume B t job) = jb_Spec job"
  "jb_Attempt (withResume B t job) = jb_Attempt job" "maxAttempts (withResume B t job) = maxAttempts job"
  by (auto simp: withResume_def maxAttempts_def split: sum.split)

lemma failedJob_sel:
  "jb_ID (failedJob B now cause retry job t) = jb_ID job" "jb_Spec (failedJob B now cause retry job t) = jb_Spec job"
  "jb_Attempt (failedJob B now cause retry job t) = jb_Attempt job" "jb_UpdatedAt (failedJob B now cause retry job t) = now"
  "jb_State (failedJob B now cause retry job t) = (if retry then StateQueued else StateFailed)"
  "\<not> retry \<Longrightarrow> jb_CompletedAt (failedJob B now cause retry job t) = now"
  "retry \<Longrightarrow> jb_NextAttemptAt (failedJob B now cause retry job t) = now + NextBackoff (jb_Spec job) (jb_Attempt job)"
  by (auto simp: failedJob_def Let_def)

lemma attemptSpec_unchanged:
  "\<alpha> t (jobKey (jb_ID job)) = Some (JobJSON job) \<Longrightarrow> (\<And>jid. \<alpha> t' (jobKey jid) = \<alpha> t (jobKey jid)) \<Longrightarrow>
   attemptSpec handlers now job (\<alpha> t) (\<alpha> t')"
  by (simp add: attemptSpec_def attemptEnds_def)

lemma exec_fail_spec:
  assumes "badger_laws B \<alpha>" and "\<alpha> t (jobKey (jb_ID job)) = Some (JobJSON job)"
    and "jb_ID job1 = jb_ID job" and "jb_Spec job1 = jb_Spec job" and "jb_Attempt job1 = jb_Attempt job"
    and "\<And>jid. \<alpha> t0 (jobKey jid) = \<alpha> t (jobKey jid)"
    and "retry \<Longrightarrow> handlers (js_Kind (jb_Spec job)) \<noteq> None \<and> jb_Attempt job < maxAttempts job"
  shows "attemptSpec handlers now job (\<alpha> t) (\<alpha> (exec_fail B E k now job1 cause retry t0))"
proof (cases "store_Update B (failedJob B now cause retry job1 t0) (storeCall E k t0)")
  case (Inl e)
  then show ?thesis using assms by (intro attemptSpec_unchanged) (auto simp: exec_fail_def Let_def)
next
  case (Inr t')
  let ?j = "failedJob B now cause retry job1 t0"
  note up = updateTxn_effect [OF assms(1) store_Update_txn [OF Inr]]
  show ?thesis
    using up(2,3) assms(2-7) Inr
    by (auto simp: attemptSpec_def attemptEnds_def exec_fail_def Let_def appendBestEffort_jobs [OF assms(1)] failedJob_sel
        intro!: exI [of _ ?j])
qed

lemma attempt_spec:
  assumes "badger_laws B \<alpha>" and "\<alpha> t (jobKey (jb_ID job)) = Some (JobJSON job)"
  shows "attemptSpec handlers now job (\<alpha> t) (\<alpha> (runAttempt B E handlers shutdown expired now job t))"
proof (cases "handlers (js_Kind (jb_Spec job))")
  case None
  then show ?thesis using exec_fail_spec [OF assms, of job t False] by (simp add: runAttempt_def)
next
  case (Some handler)
  let ?job = "withResume B t job"
  obtain cp err where h: "handler ?job = (cp, err)" by (cases "handler ?job")
  show ?thesis
  proof (cases err)
    case None
    show ?thesis
    proof (cases "if ck_State cp \<noteq> None then SaveCheckpoint B cp (storeCall E 0 t) else Inr t")
      case (Inl e)
      then have "runAttempt B E handlers shutdown expired now job t = exec_fail B E 1 now ?job (''save checkpoint: '' @ jobErrText e) False t"
        using Some h None by (simp add: runAttempt_def Let_def)
      then show ?thesis using exec_fail_spec [OF assms, of ?job t False] by simp
    next
      case (Inr t1)
      have same: "\<alpha> t1 (jobKey jid) = \<alpha> t (jobKey jid)" for jid
        using Inr SaveCheckpoint_jobs [OF assms(1)] by (auto split: if_splits)
      show ?thesis
      proof (cases "store_Update B (completedJob now ?job) (storeCall E 1 t1)")
        case (Inl e)
        then have "runAttempt B E handlers shutdown expired now job t = t1"
          using Some h None Inr by (simp add: runAttempt_def Let_def)
        then show ?thesis using assms(2) same by (simp add: attemptSpec_unchanged)
      next
        case up: (Inr t2)
        note eff = updateTxn_effect(2) [OF assms(1) store_Update_txn [OF up]]
        have "runAttempt B E handlers shutdown expired now job t = appendBestEffort B E 2
            \<lparr>ev_ID = jb_ID job @ ''-c-'' @ fmtInt (UnixNano now), ev_JobID = jb_ID job, ev_Type = EventCompleted,
             ev_State = StateCompleted, ev_Occurred = now, ev_Message = [], ev_Metadata = []\<rparr> t2"
          using Some h None Inr up by (simp add: runAttempt_def Let_def completedJob_def)
        with eff same Some show ?thesis
          by (auto simp: attemptSpec_def attemptEnds_def appendBestEffort_jobs [OF assms(1)] completedJob_def)
      qed
    qed
  next
    case err: (Some e)
    let ?t = "if ck_State cp \<noteq> None then (case SaveCheckpoint B cp (storeCall E 0 t) of Inl _ \<Rightarrow> t | Inr t' \<Rightarrow> t') else t"
    have same: "\<alpha> ?t (jobKey jid) = \<alpha> t (jobKey jid)" for jid
      using SaveCheckpoint_jobs [OF assms(1)] by (auto split: sum.split)
    show ?thesis
    proof (cases "shutdown \<or> (\<not> (js_Timeout (jb_Spec job) > 0 \<and> expired) \<and> he_interrupt e)")
      case True
      then have "runAttempt B E handlers shutdown expired now job t = t" using Some h err by (auto simp: runAttempt_def Let_def)
      then show ?thesis using assms(2) by (simp add: attemptSpec_unchanged)
    next
      case False
      then have "runAttempt B E handlers shutdown expired now job t =
          exec_fail B E 1 now ?job (he_msg e) (jb_Attempt job < maxAttempts job) ?t"
        using Some h err by (auto simp: runAttempt_def Let_def)
      then show ?thesis
        using exec_fail_spec [OF assms, of ?job ?t "jb_Attempt job < maxAttempts job" handlers now E 1 "he_msg e"] Some same by simp
    qed
  qed
qed

section \<open>The outcome when the store answers\<close>

lemma retry_storeCall_quiet:
  assumes "\<forall>k i. E k i = (None, None)" and "body t \<noteq> Inl ErrBadgerConflict"
  shows "retryTxnCtx body (storeCall E k t) = body t"
proof -
  have "[0..<maxConflictRetries] = 0 # [1..<maxConflictRetries]" by (simp add: maxConflictRetries_def upt_rec)
  then show ?thesis using assms by (simp add: retryTxnCtx_def storeCall_def split: sum.split)
qed

lemma store_Update_io:
  assumes "badger_laws B \<alpha>" and "io_ok B" and "\<forall>k i. E k i = (None, None)"
    and "\<alpha> t (jobKey (jb_ID job)) = Some (JobJSON old)" and "Job_Valid job = None"
  shows "\<exists>t'. store_Update B job (storeCall E k t) = Inr t'"
proof -
  obtain t1 where t1: "bg_Set B (jobKey (jb_ID job)) (JobJSON job) t = Inr t1" using io_set [OF assms(2)] by blast
  have "\<exists>t2. (if jb_State old = StateQueued then bg_Delete B (readyIndexKey old) t1 else Inr t1) = Inr t2"
    using io_delete [OF assms(2)] by simp
  then obtain t2 where t2: "(if jb_State old = StateQueued then bg_Delete B (readyIndexKey old) t1 else Inr t1) = Inr t2" by blast
  have "\<exists>t3. (if jb_State job = StateQueued then bg_Set B (readyIndexKey job) (Bytes (jb_ID job)) t2 else Inr t2) = Inr t3"
    using io_set [OF assms(2)] by simp
  then obtain t3 where
    "(if jb_State job = StateQueued then bg_Set B (readyIndexKey job) (Bytes (jb_ID job)) t2 else Inr t2) = Inr t3" by blast
  with t1 t2 have "updateTxn B job t = Inr t3"
    by (simp add: updateTxn_def loadTxn_def io_get [OF assms(1,2)] assms(4))
  with retry_storeCall_quiet [OF assms(3), of "updateTxn B job" t k] assms(5) show ?thesis by (simp add: store_Update_def)
qed

lemma SaveCheckpoint_io:
  assumes "badger_laws B \<alpha>" and "io_ok B" and "\<forall>k i. E k i = (None, None)"
  shows "(\<exists>t'. SaveCheckpoint B cp (storeCall E k t) = Inr t') \<longleftrightarrow> Checkpoint_Valid cp = None"
proof -
  note step = io_set [OF assms(2)] io_delete [OF assms(2)]
  have "\<exists>t'. saveCheckpointTxn B cp t = Inr t'"
    using step by (auto simp: saveCheckpointTxn_def io_get [OF assms(1,2)] ebind_Inr errIsNotFound_def split: option.split) blast+
  with retry_storeCall_quiet [OF assms(3), of "saveCheckpointTxn B cp" t k] show ?thesis
    by (auto simp: SaveCheckpoint_def split: option.split)
qed

lemma Job_Valid_moved:
  assumes "Job_Valid job = None" and "jb_ID j = jb_ID job" and "jb_Spec j = jb_Spec job" and "jb_Attempt j = jb_Attempt job"
    and "jb_CreatedAt j = jb_CreatedAt job" and "jb_Labels j = jb_Labels job" and "jb_Tags j = jb_Tags job"
    and "State_Valid (jb_State j)" and "jb_CreatedAt job \<le> jb_UpdatedAt j"
    and "jb_CompletedAt j = jb_CompletedAt job \<or> jb_CreatedAt job \<le> jb_CompletedAt j"
  shows "Job_Valid j = None"
  using assms by (auto simp: Job_Valid_def split: if_splits option.splits)

text \<open>What the run decides, read off the handler's result alone.\<close>

definition attemptState :: "handlerRegistry \<Rightarrow> bool \<Rightarrow> bool \<Rightarrow> Job \<Rightarrow> Job \<Rightarrow> string" where
  "attemptState handlers shutdown expired job told =
     (case handlers (js_Kind (jb_Spec job)) of
        None \<Rightarrow> StateFailed
      | Some handler \<Rightarrow>
          (case handler told of
             (cp, None) \<Rightarrow> if ck_State cp = None \<or> Checkpoint_Valid cp = None then StateCompleted else StateFailed
           | (cp, Some err) \<Rightarrow>
               if shutdown \<or> he_interrupt err \<and> \<not> (js_Timeout (jb_Spec job) > 0 \<and> expired) then jb_State job
               else if jb_Attempt job < maxAttempts job then StateQueued else StateFailed))"

definition storedState :: "(string \<Rightarrow> sval option) \<Rightarrow> string \<Rightarrow> string \<Rightarrow> bool" where
  "storedState m jid st \<longleftrightarrow> (\<exists>job. m (jobKey jid) = Some (JobJSON job) \<and> jb_State job = st)"

lemma withResume_more [simp]:
  "jb_CreatedAt (withResume B t job) = jb_CreatedAt job" "jb_Labels (withResume B t job) = jb_Labels job"
  "jb_Tags (withResume B t job) = jb_Tags job" "jb_CompletedAt (withResume B t job) = jb_CompletedAt job"
  by (auto simp: withResume_def split: sum.split)

lemma Job_Valid_failed:
  "Job_Valid job = None \<Longrightarrow> jb_CreatedAt job \<le> now \<Longrightarrow> Job_Valid (failedJob B now cause retry (withResume B t1 job) t) = None"
  by (rule Job_Valid_moved) (auto simp: failedJob_def Let_def State_Valid_def)

lemma Job_Valid_completed:
  "Job_Valid job = None \<Longrightarrow> jb_CreatedAt job \<le> now \<Longrightarrow> Job_Valid (completedJob now (withResume B t1 job)) = None"
  by (rule Job_Valid_moved) (auto simp: completedJob_def State_Valid_def)

lemma exec_fail_state:
  assumes "badger_laws B \<alpha>" and "io_ok B" and "\<forall>k i. E k i = (None, None)" and "\<alpha> t (jobKey (jb_ID job)) = Some (JobJSON old)"
    and "Job_Valid (failedJob B now cause retry job t) = None"
  shows "storedState (\<alpha> (exec_fail B E k now job cause retry t)) (jb_ID job) (if retry then StateQueued else StateFailed)"
proof -
  let ?j = "failedJob B now cause retry job t"
  obtain t' where up: "store_Update B ?j (storeCall E k t) = Inr t'"
    using store_Update_io [OF assms(1-3) _ assms(5), of t old] assms(4) by (auto simp: failedJob_sel)
  then show ?thesis
    using updateTxn_effect(2) [OF assms(1) store_Update_txn [OF up], of "jb_ID job"]
    by (auto simp: exec_fail_def Let_def storedState_def appendBestEffort_jobs [OF assms(1)] failedJob_sel)
qed

lemma attempt_state:
  assumes "badger_laws B \<alpha>" and "io_ok B" and "\<forall>k i. E k i = (None, None)" and "\<alpha> t (jobKey (jb_ID job)) = Some (JobJSON job)"
    and "Job_Valid job = None" and "jb_CreatedAt job \<le> now"
  shows "storedState (\<alpha> (runAttempt B E handlers shutdown expired now job t)) (jb_ID job)
           (attemptState handlers shutdown expired job (withResume B t job))"
proof (cases "handlers (js_Kind (jb_Spec job))")
  case None
  have "Job_Valid (failedJob B now cause retry job t) = None" for cause retry
    by (rule Job_Valid_moved [OF assms(5)]) (use assms(6) in \<open>auto simp: failedJob_def Let_def State_Valid_def\<close>)
  then show ?thesis using exec_fail_state [OF assms(1-4), of now _ False 0] None by (simp add: runAttempt_def attemptState_def)
next
  case (Some handler)
  let ?job = "withResume B t job"
  have failed: "storedState (\<alpha> (exec_fail B E k now ?job cause retry t')) (jb_ID job) (if retry then StateQueued else StateFailed)"
    if "\<alpha> t' (jobKey (jb_ID job)) = Some (JobJSON job)" for t' cause retry k
    using exec_fail_state [OF assms(1-3) _ Job_Valid_failed [OF assms(5,6)]] that by simp
  obtain cp err where h: "handler ?job = (cp, err)" by (cases "handler ?job")
  show ?thesis
  proof (cases err)
    case None
    show ?thesis
    proof (cases "if ck_State cp \<noteq> None then SaveCheckpoint B cp (storeCall E 0 t) else Inr t")
      case (Inl e)
      then have "ck_State cp \<noteq> None" "Checkpoint_Valid cp \<noteq> None"
        using SaveCheckpoint_io [OF assms(1-3), of cp 0 t] by (auto split: if_splits)
      with Inl Some h None failed [OF assms(4), of 1 _ False] show ?thesis by (auto simp: runAttempt_def attemptState_def Let_def)
    next
      case (Inr t1)
      then have ok: "ck_State cp = None \<or> Checkpoint_Valid cp = None"
        using SaveCheckpoint_io [OF assms(1-3), of cp 0 t] by (auto split: if_splits)
      have "\<alpha> t1 (jobKey (jb_ID job)) = Some (JobJSON job)"
        using Inr SaveCheckpoint_jobs [OF assms(1)] assms(4) by (auto split: if_splits)
      then obtain t2 where up: "store_Update B (completedJob now ?job) (storeCall E 1 t1) = Inr t2"
        using store_Update_io [OF assms(1-3) _ Job_Valid_completed [OF assms(5,6)], of t1 B t job] by (auto simp: completedJob_def)
      show ?thesis
        using Some h None Inr up ok updateTxn_effect(2) [OF assms(1) store_Update_txn [OF up], of "jb_ID job"]
        by (auto simp: runAttempt_def attemptState_def Let_def storedState_def appendBestEffort_jobs [OF assms(1)] completedJob_def)
    qed
  next
    case err: (Some e)
    let ?t = "if ck_State cp \<noteq> None then (case SaveCheckpoint B cp (storeCall E 0 t) of Inl _ \<Rightarrow> t | Inr t' \<Rightarrow> t') else t"
    have "\<alpha> ?t (jobKey (jb_ID job)) = Some (JobJSON job)"
      using SaveCheckpoint_jobs [OF assms(1)] assms(4) by (auto split: sum.split)
    from failed [OF this, of 1 "he_msg e" "jb_Attempt job < maxAttempts job"] Some h err assms(4) show ?thesis
      by (auto simp: runAttempt_def attemptState_def Let_def storedState_def)
  qed
qed

text \<open>
  \<^bold>\<open>C29.\<close> How an attempt ends is decided by the handler's result when the store answers: without a handler
  the job fails; when the handler succeeds the job is completed, or failed if it returned an invalid
  checkpoint; when the handler fails the job is queued again while attempts remain and failed after
  the last one, except that a shutdown, or an interruption that is not the expiry of the attempt's
  own timeout, leaves it running for recovery. In every case no other job changes, the attempt
  count stays, and a job queued again is in the ready index, due after its back-off delay.
\<close>

theorem attempt_ends:
  assumes "badger_laws B \<alpha>" and "io_ok B" and "\<forall>k i. E k i = (None, None)"
    and "\<alpha> t (jobKey (jb_ID job)) = Some (JobJSON job)" and "Job_Valid job = None" and "jb_CreatedAt job \<le> now"
  shows "storedState (\<alpha> (runAttempt B E handlers shutdown expired now job t)) (jb_ID job)
           (attemptState handlers shutdown expired job (withResume B t job)) \<and>
         attemptSpec handlers now job (\<alpha> t) (\<alpha> (runAttempt B E handlers shutdown expired now job t))"
  using attempt_state [OF assms] attempt_spec [OF assms(1,4)] by simp

definition wFails :: handlerRegistry where
  "wFails kind = Some (\<lambda>job. (\<lparr>ck_ID = [], ck_JobID = [], ck_State = None, ck_Token = [], ck_Created = 0\<rparr>,
     Some \<lparr>he_msg = ''boom'', he_interrupt = False\<rparr>))"

theorem attempt_ends_witness:
  "storedState (map_of (runAttempt memB (\<lambda>_ _. (None, None)) wFails False False (unixEpoch + 9000) wClaimed wCrashed)) ''j1'' StateQueued"
proof -
  have "jb_ID wClaimed = ''j1''" "Job_Valid wClaimed = None"
    "attemptState wFails False False wClaimed (withResume memB wCrashed wClaimed) = StateQueued" by code_simp+
  moreover have "map_of wCrashed (jobKey ''j1'') = Some (JobJSON wClaimed)" "jb_CreatedAt wClaimed \<le> unixEpoch + 9000"
    by (simp_all add: wCrashed_def wClaimed_def claimedBy_def wJob_def)
  ultimately show ?thesis
    using attempt_ends [OF memB_laws memB_io_ok, of "\<lambda>_ _. (None, None)" wCrashed wClaimed "unixEpoch + 9000" wFails False False] by simp
qed

end
