(* ===== verification/Spool.thy ===== *)
theory Spool
  imports Runner
begin

text \<open>
  The submission edge of the runner (\<open>ayenitd/spool.go\<close>, \<open>ayenitd/spoolclient.go\<close>): files dropped into
  \<open>pending/\<close>, claimed by a rename, turned into jobs and removed.

  A directory is a map from file names to contents; \<open>os.Rename\<close> within the spool is atomic and
  replaces its target. A content is what was marshalled into it, or no decodable submission. The
  process may die between any two effects: \<open>sp_left\<close> is the number of effects it still lives
  through, and an effect without budget does not happen. The store answers as in the job store;
  \<open>E k i\<close> is what the \<open>i\<close>-th try of the \<open>k\<close>-th store call meets.
\<close>

section \<open>Files\<close>

record spoolFile =
  sf_CorrelateID :: string
  sf_SubmittedAt :: time
  sf_Producer :: string
  sf_Spec :: JobSpec
  sf_TraceID :: string

datatype fileData = SpoolJSON spoolFile | Undecodable

definition materialize :: "time \<Rightarrow> spoolFile \<Rightarrow> Job" where
  "materialize now f =
     \<lparr>jb_ID = ''job-'' @ sf_CorrelateID f, jb_Spec = (sf_Spec f)\<lparr>js_CorrelateID := sf_CorrelateID f\<rparr>, jb_State = StateQueued,
      jb_Attempt = 0, jb_CreatedAt = now, jb_UpdatedAt = now, jb_CompletedAt = 0, jb_NextAttemptAt = 0, jb_LastError = [],
      jb_Labels = [], jb_Tags = [], jb_Metadata = [], jb_ResumeToken = []\<rparr>"

record 't spool =
  sp_Pending :: "(string \<times> fileData) list"
  sp_Claimed :: "(string \<times> fileData) list"
  sp_Failed :: "(string \<times> fileData) list"
  sp_store :: 't
  sp_calls :: nat
  sp_left :: nat

text \<open>One effect, if the process is still alive.\<close>

definition effect :: "('t spool \<Rightarrow> 't spool) \<Rightarrow> 't spool \<Rightarrow> 't spool" where
  "effect f s = (if sp_left s = 0 then s else f (s\<lparr>sp_left := sp_left s - 1\<rparr>))"

definition claimFile :: "string \<Rightarrow> fileData \<Rightarrow> 't spool \<Rightarrow> 't spool" where
  "claimFile name d s = s\<lparr>sp_Pending := AList.delete name (sp_Pending s), sp_Claimed := AList.update name d (sp_Claimed s)\<rparr>"

definition spool_fail :: "string \<Rightarrow> fileData \<Rightarrow> 't spool \<Rightarrow> 't spool" where
  "spool_fail name d s = s\<lparr>sp_Claimed := AList.delete name (sp_Claimed s), sp_Failed := AList.update name d (sp_Failed s)\<rparr>"

definition removeFile :: "string \<Rightarrow> 't spool \<Rightarrow> 't spool" where
  "removeFile name s = s\<lparr>sp_Claimed := AList.delete name (sp_Claimed s)\<rparr>"

section \<open>Ingestion\<close>

text \<open>The part of \<open>ingest\<close> after the claim: the file \<open>name\<close> with content \<open>d\<close> is in \<open>claimed/\<close>. Without budget
  the process is dead before the store call.\<close>

definition ingestClaimed :: "'t badger \<Rightarrow> storeEnv \<Rightarrow> time \<Rightarrow> string \<Rightarrow> fileData \<Rightarrow> 't spool \<Rightarrow> 't spool" where
  "ingestClaimed B E now name d s =
     (case d of
        Undecodable \<Rightarrow> effect (spool_fail name d) s
      | SpoolJSON f \<Rightarrow>
          if sf_CorrelateID f = [] then effect (spool_fail name d) s
          else if Spec_Valid (sf_Spec f) \<noteq> None then effect (spool_fail name d) s
          else if sp_left s = 0 then s
          else
            let s = s\<lparr>sp_left := sp_left s - 1, sp_calls := sp_calls s + 1\<rparr> in
            (case store_Create B now (materialize now f) (storeCall E (sp_calls s) (sp_store s)) of
               Inr t \<Rightarrow> effect (removeFile name) (s\<lparr>sp_store := t\<rparr>)
             | Inl err \<Rightarrow> if err = ErrExists then effect (removeFile name) s else s))"

definition ingestPending :: "'t badger \<Rightarrow> storeEnv \<Rightarrow> time \<Rightarrow> string \<Rightarrow> 't spool \<Rightarrow> 't spool" where
  "ingestPending B E now name s =
     (case map_of (sp_Pending s) name of
        None \<Rightarrow> s
      | Some d \<Rightarrow> if sp_left s = 0 then s else ingestClaimed B E now name d (effect (claimFile name d) s))"

definition ingestAgain :: "'t badger \<Rightarrow> storeEnv \<Rightarrow> time \<Rightarrow> string \<Rightarrow> 't spool \<Rightarrow> 't spool" where
  "ingestAgain B E now name s =
     (case map_of (sp_Claimed s) name of
        None \<Rightarrow> s
      | Some d \<Rightarrow> ingestClaimed B E now name d s)"

text \<open>\<open>filepath.Ext(name) == ".json"\<close>: the extension starts at the last dot of the name.\<close>

definition isJSON :: "string \<Rightarrow> bool" where
  "isJSON name \<longleftrightarrow> suffix ''.json'' name"

fun ingestAll :: "(string \<Rightarrow> 't spool \<Rightarrow> 't spool) \<Rightarrow> (string \<Rightarrow> bool) \<Rightarrow> string list \<Rightarrow> 't spool \<Rightarrow> bool \<times> 't spool" where
  "ingestAll step cancelled [] s = (False, s)"
| "ingestAll step cancelled (name # names) s =
     (if cancelled name then (True, s) else ingestAll step cancelled names (step name s))"

text \<open>One pass; \<open>os.ReadDir\<close> lists a directory in the order of names. \<open>cancelled\<close> says at which file of a leg
  the context is found done.\<close>

definition dirNames :: "(string \<times> fileData) list \<Rightarrow> string list" where
  "dirNames d = filter isJSON (sort (remdups (gokeys d)))"

definition drainOnce :: "'t badger \<Rightarrow> storeEnv \<Rightarrow> time \<Rightarrow> (bool \<Rightarrow> string \<Rightarrow> bool) \<Rightarrow> 't spool \<Rightarrow> 't spool" where
  "drainOnce B E now cancelled s =
     (case ingestAll (ingestPending B E now) (cancelled False) (dirNames (sp_Pending s)) s of
        (True, s) \<Rightarrow> s
      | (False, s) \<Rightarrow> snd (ingestAll (ingestAgain B E now) (cancelled True) (dirNames (sp_Claimed s)) s))"

section \<open>Submission\<close>

text \<open>\<open>NewCorrelateID\<close> of a clock reading and random bytes in hexadecimal, and \<open>Submit\<close>: the file written under
  a name made of a second reading, and the accepted handle.\<close>

definition NewCorrelateID :: "time \<Rightarrow> string \<Rightarrow> string" where
  "NewCorrelateID now hex = ''turn-'' @ fmtPad 13 (UnixMilli now) @ ''-'' @ hex"

definition spoolName :: "time \<Rightarrow> spoolFile \<Rightarrow> string" where
  "spoolName now f = fmtInt (UnixNano now) @ ''-'' @ sf_CorrelateID f @ ''.job.json''"

definition Submit ::
  "(nat \<Rightarrow> time) \<Rightarrow> string \<Rightarrow> string \<Rightarrow> JobSpec \<Rightarrow> 't spool \<Rightarrow> (goerr + Job) \<times> 't spool" where
  "Submit clk hex producer spec s =
     (case Spec_Valid spec of
        Some err \<Rightarrow> (Inl (Wrap ''spoolclient: invalid spec: '' err), s)
      | None \<Rightarrow>
          let correlate = NewCorrelateID (clk 0) hex;
              f = \<lparr>sf_CorrelateID = correlate, sf_SubmittedAt = clk 1, sf_Producer = producer,
                   sf_Spec = spec\<lparr>js_CorrelateID := correlate\<rparr>, sf_TraceID = []\<rparr>
          in (Inr (materialize (clk 1) f), s\<lparr>sp_Pending := AList.update (spoolName (clk 2) f) (SpoolJSON f) (sp_Pending s)\<rparr>))"

section \<open>No submission is lost\<close>

text \<open>Badger reports its own errors, never the sentinel of the jobs package; neither does a commit.\<close>

definition badger_errs :: "'t badger \<Rightarrow> storeEnv \<Rightarrow> bool" where
  "badger_errs B E \<longleftrightarrow>
     (\<forall>k t. bg_Get B k t \<noteq> Inl ErrExists) \<and> (\<forall>k v t. bg_Set B k v t \<noteq> Inl ErrExists) \<and> (\<forall>k t. bg_Delete B k t \<noteq> Inl ErrExists) \<and>
     (\<forall>k i. snd (E k i) \<noteq> Some ErrExists)"

definition validFile :: "spoolFile \<Rightarrow> bool" where
  "validFile f \<longleftrightarrow> sf_CorrelateID f \<noteq> [] \<and> Spec_Valid (sf_Spec f) = None"

definition landed :: "('t \<Rightarrow> string \<Rightarrow> sval option) \<Rightarrow> spoolFile \<Rightarrow> 't \<Rightarrow> bool" where
  "landed \<alpha> f t \<longleftrightarrow> \<alpha> t (jobKey (''job-'' @ sf_CorrelateID f)) \<noteq> None \<or> \<alpha> t (correlateKey (sf_CorrelateID f)) \<noteq> None"

definition held :: "string \<Rightarrow> fileData \<Rightarrow> 't spool \<Rightarrow> bool" where
  "held name d s \<longleftrightarrow> map_of (sp_Pending s) name = Some d \<or> map_of (sp_Claimed s) name = Some d"

definition disjointNames :: "'t spool \<Rightarrow> bool" where
  "disjointNames s \<longleftrightarrow> (\<forall>name. map_of (sp_Pending s) name = None \<or> map_of (sp_Claimed s) name = None)"

definition safe :: "('t \<Rightarrow> string \<Rightarrow> sval option) \<Rightarrow> string \<Rightarrow> spoolFile \<Rightarrow> 't spool \<Rightarrow> bool" where
  "safe \<alpha> name f s \<longleftrightarrow> disjointNames s \<and> (held name (SpoolJSON f) s \<or> landed \<alpha> f (sp_store s))"

lemma retryTxn_Inl:
  "retryTxn body as = Inl ErrExists \<Longrightarrow> \<exists>a \<in> set as. body (at_begin a) = Inl ErrExists \<or> at_commit a = Some ErrExists"
proof (induction as)
  case (Cons a as)
  then show ?case
    by (cases "at_ctxErr a"; cases "body (at_begin a)"; cases "at_commit a") (auto split: if_splits)
qed simp

lemma retry_storeCall_exists:
  "retryTxnCtx body (storeCall E k t) = Inl ErrExists \<Longrightarrow> \<forall>k i. snd (E k i) \<noteq> Some ErrExists \<Longrightarrow> body t = Inl ErrExists"
proof -
  assume "retryTxnCtx body (storeCall E k t) = Inl ErrExists" "\<forall>k i. snd (E k i) \<noteq> Some ErrExists"
  with retryTxn_Inl [of body "map (storeCall E k t) [0..<maxConflictRetries]"] show ?thesis
    by (auto simp: retryTxnCtx_def) (auto simp: storeCall_def)
qed

lemma createTxn_exists:
  assumes "badger_laws B \<alpha>" and "badger_errs B E" and "createTxn B job t = Inl ErrExists"
  shows "\<alpha> t (jobKey (jb_ID job)) \<noteq> None \<or> \<alpha> t (correlateKey (js_CorrelateID (jb_Spec job))) \<noteq> None"
proof -
  have req: "requireAbsent B k t = Inl ErrExists \<Longrightarrow> \<alpha> t k \<noteq> None" for k
    using assms(2) get_Found [OF assms(1)] by (auto simp: requireAbsent_def badger_errs_def split: sum.splits if_splits)
  have ebind_E: "ebind x f = Inl e \<longleftrightarrow> x = Inl e \<or> (\<exists>a. x = Inr a \<and> f a = Inl e)" for x :: "jobErr + 'x" and f :: "'x \<Rightarrow> jobErr + 'y" and e
    by (cases x) auto
  show ?thesis
    using assms(2,3) req by (auto simp: createTxn_def ebind_E badger_errs_def split: if_splits)
qed

lemma createTxn_mono:
  assumes "badger_laws B \<alpha>" and "createTxn B job t = Inr t'" and "\<alpha> t k \<noteq> None"
  shows "\<alpha> t' k \<noteq> None"
  using assms(2,3)
  by (auto simp: createTxn_def ebind_Inr split: if_splits dest!: set_map_upd [OF assms(1)])

lemma landed_mono:
  assumes "badger_laws B \<alpha>" and "createTxn B job t = Inr t'" and "landed \<alpha> f t"
  shows "landed \<alpha> f t'"
  using assms(3) createTxn_mono [OF assms(1,2)] unfolding landed_def by metis

lemma store_Create_materialize:
  "store_Create B now (materialize now f) (storeCall E k t) =
     (case Job_Valid (materialize now f) of
        Some err \<Rightarrow> Inl (ErrOther (Wrap ''jobsstore: create: '' err))
      | None \<Rightarrow> retryTxnCtx (createTxn B (materialize now f)) (storeCall E k t))"
proof -
  have "(if IsZero (jb_UpdatedAt (materialize now f)) then (materialize now f)\<lparr>jb_UpdatedAt := now\<rparr> else materialize now f) = materialize now f"
    by (simp add: materialize_def)
  then show ?thesis unfolding store_Create_def Let_def by presburger
qed

lemma store_Create_call:
  assumes "store_Create B now (materialize now f) (storeCall E k t) = Inr t'"
  shows "createTxn B (materialize now f) t = Inr t'"
proof -
  have "retryTxnCtx (createTxn B (materialize now f)) (storeCall E k t) = Inr t'"
    using assms unfolding store_Create_materialize by (cases "Job_Valid (materialize now f)") simp_all
  then show ?thesis by (rule retry_storeCall)
qed

lemma store_Create_exists:
  assumes "badger_errs B E" and "store_Create B now (materialize now f) (storeCall E k t) = Inl ErrExists"
  shows "createTxn B (materialize now f) t = Inl ErrExists"
proof -
  have "retryTxnCtx (createTxn B (materialize now f)) (storeCall E k t) = Inl ErrExists"
    using assms(2) unfolding store_Create_materialize by (cases "Job_Valid (materialize now f)") simp_all
  from retry_storeCall_exists [OF this] assms(1) show ?thesis unfolding badger_errs_def by blast
qed

lemma materialize_sel [simp]: "jb_ID (materialize now f) = ''job-'' @ sf_CorrelateID f"
  "js_CorrelateID (jb_Spec (materialize now f)) = sf_CorrelateID f" "jb_State (materialize now f) = StateQueued"
  "jb_Attempt (materialize now f) = 0"
  by (simp_all add: materialize_def)

lemma spool_fail_safe:
  "safe \<alpha> name f s \<Longrightarrow> validFile f \<Longrightarrow> map_of (sp_Claimed s) n = Some d \<Longrightarrow> (\<And>g. d = SpoolJSON g \<Longrightarrow> \<not> validFile g) \<Longrightarrow>
   safe \<alpha> name f (spool_fail n d s)"
  by (auto simp: safe_def held_def disjointNames_def spool_fail_def)

lemma removeFile_safe:
  "safe \<alpha> name f s \<Longrightarrow> map_of (sp_Claimed s) n = Some (SpoolJSON g) \<Longrightarrow> landed \<alpha> g (sp_store s) \<Longrightarrow> safe \<alpha> name f (removeFile n s)"
  by (auto simp: safe_def held_def disjointNames_def removeFile_def)

lemma safe_left [simp]: "safe \<alpha> name f (s\<lparr>sp_left := l\<rparr>) = safe \<alpha> name f s"
  "safe \<alpha> name f (s\<lparr>sp_left := l, sp_calls := c\<rparr>) = safe \<alpha> name f s"
  by (simp_all add: safe_def held_def disjointNames_def)

lemma effect_safe: "safe \<alpha> name f s \<Longrightarrow> (\<And>l. safe \<alpha> name f (g (s\<lparr>sp_left := l\<rparr>))) \<Longrightarrow> safe \<alpha> name f (effect g s)"
  by (simp add: effect_def)

lemma ingestClaimed_safe:
  assumes "badger_laws B \<alpha>" and "badger_errs B E" and "safe \<alpha> name f s" and "validFile f" and "map_of (sp_Claimed s) n = Some d"
  shows "safe \<alpha> name f (ingestClaimed B E now n d s)"
proof -
  have bad: "safe \<alpha> name f (effect (spool_fail n d) s)" if "\<And>g. d = SpoolJSON g \<Longrightarrow> \<not> validFile g"
    using assms that by (intro effect_safe spool_fail_safe) auto
  show ?thesis
  proof (cases d)
    case Undecodable
    then show ?thesis using bad by (simp add: ingestClaimed_def)
  next
    case (SpoolJSON g)
    show ?thesis
    proof (cases "validFile g \<and> sp_left s \<noteq> 0")
      case False
      then show ?thesis using bad assms(3) SpoolJSON by (auto simp: ingestClaimed_def validFile_def)
    next
      case True
      define s1 where "s1 = s\<lparr>sp_left := sp_left s - 1, sp_calls := sp_calls s + 1\<rparr>"
      have s1: "safe \<alpha> name f s1" "map_of (sp_Claimed s1) n = Some (SpoolJSON g)" "sp_store s1 = sp_store s"
        using assms(3,5) SpoolJSON by (simp_all add: s1_def)
      have eq: "ingestClaimed B E now n d s = (case store_Create B now (materialize now g) (storeCall E (sp_calls s1) (sp_store s1)) of
               Inr t \<Rightarrow> effect (removeFile n) (s1\<lparr>sp_store := t\<rparr>)
             | Inl err \<Rightarrow> if err = ErrExists then effect (removeFile n) s1 else s1)"
        using True SpoolJSON unfolding s1_def ingestClaimed_def by (simp add: validFile_def Let_def cong: sum.case_cong if_cong)
      show ?thesis
      proof (cases "store_Create B now (materialize now g) (storeCall E (sp_calls s1) (sp_store s1))")
        case (Inr t)
        note txn = store_Create_call [OF Inr]
        have here: "landed \<alpha> g t" using createTxn_effect(3) [OF assms(1) txn] by (simp add: landed_def)
        have "safe \<alpha> name f (s1\<lparr>sp_store := t\<rparr>)"
          using s1(1) landed_mono [OF assms(1) txn] by (auto simp: safe_def held_def disjointNames_def)
        then have "safe \<alpha> name f (effect (removeFile n) (s1\<lparr>sp_store := t\<rparr>))"
          using s1(2) here by (intro effect_safe removeFile_safe [where g = g]) (simp_all add: safe_def held_def disjointNames_def)
        then show ?thesis using eq Inr by simp
      next
        case (Inl err)
        have "landed \<alpha> g (sp_store s1)" if "err = ErrExists"
          using createTxn_exists [OF assms(1,2) store_Create_exists [OF assms(2)], of now g _ "sp_store s1"] Inl that by (simp add: landed_def)
        then show ?thesis using eq Inl s1 by (auto intro!: effect_safe removeFile_safe [where g = g])
      qed
    qed
  qed
qed

lemma ingestPending_safe:
  assumes "badger_laws B \<alpha>" and "badger_errs B E" and "safe \<alpha> name f s" and "validFile f"
  shows "safe \<alpha> name f (ingestPending B E now n s)"
proof (cases "map_of (sp_Pending s) n = None \<or> sp_left s = 0")
  case True
  then show ?thesis using assms(3) by (auto simp: ingestPending_def split: option.split)
next
  case False
  then obtain d where d: "map_of (sp_Pending s) n = Some d" "sp_left s \<noteq> 0" by auto
  have "safe \<alpha> name f (effect (claimFile n d) s)"
    using d assms(3) spec [of "\<lambda>k. map_of (sp_Pending s) k = None \<or> map_of (sp_Claimed s) k = None" n]
    by (auto simp: effect_def claimFile_def safe_def held_def disjointNames_def)
  then have "safe \<alpha> name f (ingestClaimed B E now n d (effect (claimFile n d) s))"
    using d by (intro ingestClaimed_safe [OF assms(1,2) _ assms(4)]) (simp_all add: effect_def claimFile_def)
  then show ?thesis using d by (simp add: ingestPending_def)
qed

lemma ingestAgain_safe:
  assumes "badger_laws B \<alpha>" and "badger_errs B E" and "safe \<alpha> name f s" and "validFile f"
  shows "safe \<alpha> name f (ingestAgain B E now n s)"
  using assms ingestClaimed_safe [OF assms] by (auto simp: ingestAgain_def split: option.split)

lemma ingestAll_inv: "P s \<Longrightarrow> (\<And>n s. P s \<Longrightarrow> P (step n s)) \<Longrightarrow> P (snd (ingestAll step c names s))"
  by (induction names arbitrary: s) auto

lemma drain_safe:
  assumes "badger_laws B \<alpha>" and "badger_errs B E" and "disjointNames s" and "held name (SpoolJSON f) s" and "validFile f"
  shows "held name (SpoolJSON f) (drainOnce B E now cancelled s) \<or> landed \<alpha> f (sp_store (drainOnce B E now cancelled s))"
proof -
  have "safe \<alpha> name f s" using assms(3,4) by (simp add: safe_def)
  then have one: "safe \<alpha> name f (snd (ingestAll (ingestPending B E now) (cancelled False) (dirNames (sp_Pending s)) s))"
    by (rule ingestAll_inv) (rule ingestPending_safe [OF assms(1,2) _ assms(5)])
  have two: "safe \<alpha> name f (snd (ingestAll (ingestAgain B E now) c names s'))" if "safe \<alpha> name f s'" for c names s'
    using that by (rule ingestAll_inv) (rule ingestAgain_safe [OF assms(1,2) _ assms(5)])
  obtain b s' where pass: "ingestAll (ingestPending B E now) (cancelled False) (dirNames (sp_Pending s)) s = (b, s')"
    by (cases "ingestAll (ingestPending B E now) (cancelled False) (dirNames (sp_Pending s)) s")
  have "safe \<alpha> name f (drainOnce B E now cancelled s)"
    using one two [of s'] pass by (cases b) (simp_all add: drainOnce_def)
  then show ?thesis by (simp add: safe_def)
qed

text \<open>
  \<^bold>\<open>C28.\<close> No valid submission is lost, wherever the runner dies: as long as no name occurs in both
  directories, a decodable file with a correlate identifier and a valid specification that lies in
  \<open>pending/\<close> or \<open>claimed/\<close> before a pass lies there after it, or a job with its identity is in the store.
  This holds for every point at which the process may stop and every answer of the store.
\<close>

theorem submission_not_lost:
  assumes "badger_laws B \<alpha>" and "badger_errs B E" and "disjointNames s" and "held name (SpoolJSON f) s" and "validFile f"
  shows "held name (SpoolJSON f) (drainOnce B E now cancelled s) \<or> landed \<alpha> f (sp_store (drainOnce B E now cancelled s))"
  by (rule drain_safe [OF assms])

section \<open>A complete pass empties the spool\<close>

lemma io_createTxn:
  assumes "badger_laws B \<alpha>" and "io_ok B"
  shows "(\<exists>t'. createTxn B job t = Inr t') \<or> createTxn B job t = Inl ErrExists"
proof -
  have req: "requireAbsent B k t = (if \<alpha> t k = None then Inr () else Inl ErrExists)" for k
    by (simp add: requireAbsent_def io_get [OF assms] errIsNotFound_def split: option.split)
  have step: "\<exists>t'. bg_Set B k v t = Inr t'" for k v t by (rule io_set [OF assms(2)])
  obtain t1 where t1: "bg_Set B (correlateKey (js_CorrelateID (jb_Spec job))) (Bytes (jb_ID job)) t = Inr t1" using step by blast
  define t1' where "t1' = (if js_CorrelateID (jb_Spec job) \<noteq> [] then t1 else t)"
  obtain t2 where t2: "bg_Set B (jobKey (jb_ID job)) (JobJSON job) t1' = Inr t2" using step by blast
  obtain t3 where t3: "bg_Set B (readyIndexKey job) (Bytes (jb_ID job)) t2 = Inr t3" using step by blast
  show ?thesis using t1 t2 t3 by (auto simp: createTxn_def req t1'_def split: if_splits)
qed

lemma Spec_Valid_correlate: "Spec_Valid (s\<lparr>js_CorrelateID := c\<rparr>) = Spec_Valid s"
  by (simp add: Spec_Valid_def cong: option.case_cong)

lemma TrimSpace_job: "TrimSpace (''job-'' @ c) \<noteq> []"
proof
  assume "TrimSpace (''job-'' @ c) = []"
  from TrimSpace_blank [OF this, of "CHR ''j''"] show False by (simp add: is_space_def)
qed

lemma Job_Valid_materialize: "validFile f \<Longrightarrow> \<not> IsZero now \<Longrightarrow> Job_Valid (materialize now f) = None"
  using TrimSpace_job [of "sf_CorrelateID f"]
  by (simp add: Job_Valid_def materialize_def validFile_def Spec_Valid_correlate State_Valid_def tagsErr_def IsZero_def)

lemma store_Create_io:
  assumes "badger_laws B \<alpha>" and "io_ok B" and "validFile f" and "\<not> IsZero now" and "\<forall>k i. E k i = (None, None)"
  shows "(\<exists>t'. store_Create B now (materialize now f) (storeCall E k t) = Inr t') \<or>
         store_Create B now (materialize now f) (storeCall E k t) = Inl ErrExists"
proof -
  have "createTxn B (materialize now f) t \<noteq> Inl ErrBadgerConflict" using io_createTxn [OF assms(1,2), of "materialize now f" t] by auto
  from retry_storeCall_quiet [OF assms(5), of "createTxn B (materialize now f)", OF this, of k] io_createTxn [OF assms(1,2), of "materialize now f" t] show ?thesis
    unfolding store_Create_materialize Job_Valid_materialize [OF assms(3,4)] by auto
qed

definition fileGone :: "string \<Rightarrow> nat \<Rightarrow> 't spool \<Rightarrow> 't spool \<Rightarrow> bool" where
  "fileGone n c s s' \<longleftrightarrow> map_of (sp_Pending s') = (map_of (sp_Pending s))(n := None) \<and>
     map_of (sp_Claimed s') = (map_of (sp_Claimed s))(n := None) \<and> sp_left s \<le> sp_left s' + c"

lemma ingestClaimed_gone:
  assumes "badger_laws B \<alpha>" and "io_ok B" and "\<not> IsZero now" and "\<forall>k i. E k i = (None, None)"
    and "2 \<le> sp_left s" and "map_of (sp_Pending s) n = None"
  shows "fileGone n 2 s (ingestClaimed B E now n d s)"
proof -
  have bad: "fileGone n 2 s (effect (spool_fail n d) s)"
    using assms(5,6) by (auto simp: fileGone_def effect_def spool_fail_def fun_eq_iff)
  show ?thesis
  proof (cases "\<exists>f. d = SpoolJSON f \<and> validFile f")
    case False
    then show ?thesis using bad by (cases d) (auto simp: ingestClaimed_def validFile_def)
  next
    case True
    then obtain f where f: "d = SpoolJSON f" "validFile f" by blast
    from store_Create_io [OF assms(1,2) f(2) assms(3,4), of "sp_calls s + 1" "sp_store s"]
    have "\<exists>t. ingestClaimed B E now n d s = effect (removeFile n) (s\<lparr>sp_left := sp_left s - 1, sp_calls := sp_calls s + 1, sp_store := t\<rparr>)"
    proof
      assume "store_Create B now (materialize now f) (storeCall E (sp_calls s + 1) (sp_store s)) = Inl ErrExists"
      then show ?thesis using f assms(5) by (intro exI [of _ "sp_store s"]) (simp add: ingestClaimed_def validFile_def Let_def)
    next
      assume "\<exists>t'. store_Create B now (materialize now f) (storeCall E (sp_calls s + 1) (sp_store s)) = Inr t'"
      then show ?thesis using f assms(5) by (auto simp: ingestClaimed_def validFile_def Let_def)
    qed
    then show ?thesis using assms(5,6) by (auto simp: fileGone_def effect_def removeFile_def fun_eq_iff)
  qed
qed

lemma ingestPending_gone:
  assumes "badger_laws B \<alpha>" and "io_ok B" and "\<not> IsZero now" and "\<forall>k i. E k i = (None, None)"
    and "3 \<le> sp_left s" and "map_of (sp_Pending s) n = Some d"
  shows "fileGone n 3 s (ingestPending B E now n s)"
proof -
  let ?s = "effect (claimFile n d) s"
  have "fileGone n 2 ?s (ingestClaimed B E now n d ?s)"
    using assms(5,6) by (intro ingestClaimed_gone [OF assms(1-4)]) (simp_all add: effect_def claimFile_def)
  moreover have "ingestPending B E now n s = ingestClaimed B E now n d ?s" using assms(5,6) by (simp add: ingestPending_def)
  ultimately show ?thesis using assms(5) by (auto simp: fileGone_def effect_def claimFile_def fun_upd_def fun_eq_iff)
qed

lemma ingestAll_gone:
  assumes "\<And>n s. P s \<Longrightarrow> Q n s \<Longrightarrow> c \<le> sp_left s \<Longrightarrow> fileGone n c s (step n s) \<and> P (step n s)"
    and "\<And>n m s s'. n \<noteq> m \<Longrightarrow> fileGone m c s s' \<Longrightarrow> Q n s \<Longrightarrow> Q n s'"
  shows "distinct names \<Longrightarrow> P s \<Longrightarrow> \<forall>n \<in> set names. Q n s \<Longrightarrow> c * length names \<le> sp_left s \<Longrightarrow>
    fst (ingestAll step (\<lambda>_. False) names s) = False \<and>
    map_of (sp_Pending (snd (ingestAll step (\<lambda>_. False) names s))) = (\<lambda>n. if n \<in> set names then None else map_of (sp_Pending s) n) \<and>
    map_of (sp_Claimed (snd (ingestAll step (\<lambda>_. False) names s))) = (\<lambda>n. if n \<in> set names then None else map_of (sp_Claimed s) n) \<and>
    sp_left s \<le> sp_left (snd (ingestAll step (\<lambda>_. False) names s)) + c * length names \<and> P (snd (ingestAll step (\<lambda>_. False) names s))"
proof (induction names arbitrary: s)
  case (Cons n names)
  have one: "fileGone n c s (step n s)" "P (step n s)" using assms(1) Cons.prems by simp_all
  have "\<forall>m \<in> set names. Q m (step n s)"
  proof
    fix m assume m: "m \<in> set names"
    then have "m \<noteq> n" using Cons.prems(1) by auto
    with m assms(2) [OF _ one(1)] Cons.prems(3) show "Q m (step n s)" by auto
  qed
  moreover have "c * length names \<le> sp_left (step n s)" using one(1) Cons.prems(4) by (simp add: fileGone_def)
  ultimately have "fst (ingestAll step (\<lambda>_. False) names (step n s)) = False \<and>
    map_of (sp_Pending (snd (ingestAll step (\<lambda>_. False) names (step n s)))) = (\<lambda>k. if k \<in> set names then None else map_of (sp_Pending (step n s)) k) \<and>
    map_of (sp_Claimed (snd (ingestAll step (\<lambda>_. False) names (step n s)))) = (\<lambda>k. if k \<in> set names then None else map_of (sp_Claimed (step n s)) k) \<and>
    sp_left (step n s) \<le> sp_left (snd (ingestAll step (\<lambda>_. False) names (step n s))) + c * length names \<and> P (snd (ingestAll step (\<lambda>_. False) names (step n s)))"
    using Cons.IH Cons.prems(1) one(2) by simp
  then show ?case using one(1) by (auto simp: fileGone_def fun_eq_iff)
qed simp

lemma dirNames_set: "set (dirNames d) = {n. isJSON n \<and> map_of d n \<noteq> None}" "distinct (dirNames d)"
proof -
  show "set (dirNames d) = {n. isJSON n \<and> map_of d n \<noteq> None}"
    by (auto simp: dirNames_def map_of_eq_None_iff)
qed (simp add: dirNames_def)

lemma dirNames_length: "length (dirNames d) \<le> length d"
proof -
  have "length (dirNames d) \<le> length (remdups (gokeys d))" unfolding dirNames_def by (metis length_filter_le length_sort)
  also have "\<dots> \<le> length d" by (metis length_map length_remdups_leq)
  finally show ?thesis .
qed

text \<open>
  \<^bold>\<open>C33.\<close> A pass that lives to its end, with a working store and a context that is not cancelled, empties the
  spool: no submission file is left in \<open>pending/\<close> or \<open>claimed/\<close>, and every valid file that lay there has
  its job in the store. Three effects per pending file and two per claimed file are enough.
\<close>

theorem drain_complete:
  assumes "badger_laws B \<alpha>" and "io_ok B" and "badger_errs B E" and "\<forall>k i. E k i = (None, None)" and "\<not> IsZero now"
    and "disjointNames s" and "3 * length (sp_Pending s) + 2 * length (sp_Claimed s) \<le> sp_left s" and "isJSON name"
  shows "map_of (sp_Pending (drainOnce B E now (\<lambda>_ _. False) s)) name = None \<and>
         map_of (sp_Claimed (drainOnce B E now (\<lambda>_ _. False) s)) name = None \<and>
         (\<forall>f. held name (SpoolJSON f) s \<longrightarrow> validFile f \<longrightarrow> landed \<alpha> f (sp_store (drainOnce B E now (\<lambda>_ _. False) s)))"
proof -
  let ?N = "dirNames (sp_Pending s)"
  define s1 where "s1 = snd (ingestAll (ingestPending B E now) (\<lambda>_. False) ?N s)"
  have bound: "3 * length ?N \<le> sp_left s" using dirNames_length [of "sp_Pending s"] assms(7) by linarith
  have leg1: "fst (ingestAll (ingestPending B E now) (\<lambda>_. False) ?N s) = False \<and>
      map_of (sp_Pending s1) = (\<lambda>n. if n \<in> set ?N then None else map_of (sp_Pending s) n) \<and>
      map_of (sp_Claimed s1) = (\<lambda>n. if n \<in> set ?N then None else map_of (sp_Claimed s) n) \<and>
      sp_left s \<le> sp_left s1 + 3 * length ?N \<and> True"
    unfolding s1_def
    by (rule ingestAll_gone [where P = "\<lambda>_. True" and Q = "\<lambda>n s. map_of (sp_Pending s) n \<noteq> None"])
      (use ingestPending_gone [OF assms(1,2,5,4)] bound in \<open>auto simp: dirNames_set fileGone_def\<close>)
  have gone1: "isJSON n \<Longrightarrow> map_of (sp_Pending s1) n = None" for n using leg1 by (auto simp: dirNames_set)
  let ?M = "dirNames (sp_Claimed s1)"
  define s2 where "s2 = snd (ingestAll (ingestAgain B E now) (\<lambda>_. False) ?M s1)"
  have "set ?M \<subseteq> set (dirNames (sp_Claimed s))" using leg1 by (auto simp: dirNames_set split: if_splits)
  then have "length ?M \<le> length (sp_Claimed s)"
    using distinct_subset_length [OF dirNames_set(2)] dirNames_length le_trans by blast
  then have bound2: "2 * length ?M \<le> sp_left s1"
    using leg1 assms(7) dirNames_length [of "sp_Pending s"] by linarith
  have again: "fileGone n 2 s' (ingestAgain B E now n s')"
    if "map_of (sp_Pending s') n = None" "map_of (sp_Claimed s') n \<noteq> None" "2 \<le> sp_left s'" for n s'
    using that ingestClaimed_gone [OF assms(1,2,5,4) that(3,1)] by (auto simp: ingestAgain_def)
  have leg2: "fst (ingestAll (ingestAgain B E now) (\<lambda>_. False) ?M s1) = False \<and>
      map_of (sp_Pending s2) = (\<lambda>n. if n \<in> set ?M then None else map_of (sp_Pending s1) n) \<and>
      map_of (sp_Claimed s2) = (\<lambda>n. if n \<in> set ?M then None else map_of (sp_Claimed s1) n) \<and>
      sp_left s1 \<le> sp_left s2 + 2 * length ?M \<and> True"
    unfolding s2_def
    by (rule ingestAll_gone [where P = "\<lambda>_. True" and Q = "\<lambda>n s. map_of (sp_Pending s) n = None \<and> map_of (sp_Claimed s) n \<noteq> None"])
      (use again bound2 gone1 in \<open>auto simp: dirNames_set fileGone_def\<close>)
  have "drainOnce B E now (\<lambda>_ _. False) s = s2"
    using leg1 by (cases "ingestAll (ingestPending B E now) (\<lambda>_. False) ?N s") (auto simp: drainOnce_def s1_def s2_def)
  moreover have "map_of (sp_Pending s2) name = None" "map_of (sp_Claimed s2) name = None"
    using leg2 gone1 assms(8) by (auto simp: dirNames_set)
  moreover have "held name (SpoolJSON f) s2 \<or> landed \<alpha> f (sp_store s2)" if "held name (SpoolJSON f) s" "validFile f" for f
    using safe_def that assms(6) \<open>drainOnce B E now (\<lambda>_ _. False) s = s2\<close> drain_safe [OF assms(1,3,6) that] by metis
  ultimately show ?thesis by (auto simp: held_def)
qed

definition wFile :: spoolFile where
  "wFile = \<lparr>sf_CorrelateID = ''turn-1'', sf_SubmittedAt = 1, sf_Producer = ''app'', sf_Spec = wJobSpec 0, sf_TraceID = []\<rparr>"

definition wSpool :: "nat \<Rightarrow> memtxn spool" where
  "wSpool left = \<lparr>sp_Pending = [(''1-turn-1.job.json'', SpoolJSON wFile)], sp_Claimed = [], sp_Failed = [], sp_store = [],
     sp_calls = 0, sp_left = left\<rparr>"

lemma memB_errs: "badger_errs memB (\<lambda>_ _. (None, None))"
  by (simp add: badger_errs_def memB_def split: option.split)

lemma wSpool_facts: "disjointNames (wSpool l)" "held ''1-turn-1.job.json'' (SpoolJSON wFile) (wSpool l)" "validFile wFile"
proof -
  show "validFile wFile" by code_simp
qed (simp_all add: disjointNames_def held_def wSpool_def)

theorem submission_not_lost_witness:
  "let s = drainOnce memB (\<lambda>_ _. (None, None)) 9 (\<lambda>_ _. False) (wSpool 1) in
   held ''1-turn-1.job.json'' (SpoolJSON wFile) s \<or> landed map_of wFile (sp_store s)"
  unfolding Let_def by (rule submission_not_lost [OF memB_laws memB_errs wSpool_facts])

theorem drain_complete_witness:
  "landed map_of wFile (sp_store (drainOnce memB (\<lambda>_ _. (None, None)) 9 (\<lambda>_ _. False) (wSpool 3)))"
proof -
  have "3 * length (sp_Pending (wSpool 3)) + 2 * length (sp_Claimed (wSpool 3)) \<le> sp_left (wSpool 3)" by (simp add: wSpool_def)
  moreover have "isJSON ''1-turn-1.job.json''" by code_simp
  ultimately show ?thesis
    using drain_complete [OF memB_laws memB_io_ok memB_errs _ _ wSpool_facts(1), of 9 3 "''1-turn-1.job.json''"] wSpool_facts
    by (simp add: IsZero_def)
qed

end
