(* ===== verification/JobSystem.thy ===== *)
theory JobSystem
  imports Spool
begin

text \<open>
  The job subsystem as a whole: ingestion, claims, attempts and recovery interleave on one store.
  Whatever the interleaving, no job exceeds its attempt budget. On job identifiers without a colon every operation
  keeps the store well-formed in the sense that recovery relies on.
\<close>

section \<open>Every operation keeps the store well-formed\<close>

lemma val_ok_correlate: "val_ok (correlateKey c) v"
  unfolding val_ok_def by (simp add: jobKey_def eventSeqKey_def correlateKey_def)

lemma val_ok_checkpoint: "val_ok (checkpointKey c) v"
  unfolding val_ok_def by (simp add: jobKey_def eventSeqKey_def checkpointKey_def)

lemma val_ok_running: "w \<noteq> [] \<Longrightarrow> jid \<noteq> [] \<Longrightarrow> CHR '':'' \<notin> set jid \<Longrightarrow> val_ok (runningIndexKey w jid) v"
  unfolding val_ok_def by (auto simp: jobKey_def eventSeqKey_def runningIndexKey_def)

lemmas store_ok_steps = store_ok_intros val_ok_correlate val_ok_checkpoint val_ok_running

lemma createTxn_ok:
  assumes "badger_laws B \<alpha>" and "store_ok (\<alpha> t)" and "createTxn B job t = Inr t'" and "jb_ID job \<noteq> []" and "CHR '':'' \<notin> set (jb_ID job)"
  shows "store_ok (\<alpha> t')"
proof -
  from assms(3) obtain t1 t2 where
    "(if js_CorrelateID (jb_Spec job) \<noteq> [] then bg_Set B (correlateKey (js_CorrelateID (jb_Spec job))) (Bytes (jb_ID job)) t else Inr t) = Inr t1"
    "bg_Set B (jobKey (jb_ID job)) (JobJSON job) t1 = Inr t2"
    "(if jb_State job = StateQueued then bg_Set B (readyIndexKey job) (Bytes (jb_ID job)) t2 else Inr t2) = Inr t'"
    by (auto simp: createTxn_def ebind_Inr split: if_splits)
  moreover from this(1) have "store_ok (\<alpha> t1)"
    using assms(2) by (auto split: if_splits simp: store_ok_steps dest!: set_map_upd [OF assms(1)])
  moreover from calculation have "store_ok (\<alpha> t2)"
    using assms(4,5) by (auto simp: store_ok_steps dest!: set_map_upd [OF assms(1)])
  ultimately show ?thesis by (auto split: if_splits simp: store_ok_steps dest!: set_map_upd [OF assms(1)])
qed

lemma updateTxn_ok:
  assumes "badger_laws B \<alpha>" and "store_ok (\<alpha> t)" and "updateTxn B job t = Inr t'"
  shows "store_ok (\<alpha> t')"
proof -
  from updateTxn_effect(1) [OF assms(1,3)] store_ok_job [OF assms(2)] have jid: "jb_ID job \<noteq> []" "CHR '':'' \<notin> set (jb_ID job)" by auto
  from assms(3) obtain old t1 t2 where "bg_Set B (jobKey (jb_ID job)) (JobJSON job) t = Inr t1"
    "(if jb_State old = StateQueued then bg_Delete B (readyIndexKey old) t1 else Inr t1) = Inr t2"
    "(if jb_State job = StateQueued then bg_Set B (readyIndexKey job) (Bytes (jb_ID job)) t2 else Inr t2) = Inr t'"
    by (auto simp: updateTxn_def ebind_Inr)
  moreover from this(1) have "store_ok (\<alpha> t1)" using assms(2) jid by (auto simp: store_ok_steps dest!: set_map_upd [OF assms(1)])
  moreover from calculation have "store_ok (\<alpha> t2)" by (auto split: if_splits simp: store_ok_steps dest!: delete_map_upd [OF assms(1)])
  ultimately show ?thesis by (auto split: if_splits simp: store_ok_steps dest!: set_map_upd [OF assms(1)])
qed

lemma saveCheckpointTxn_ok:
  "badger_laws B \<alpha> \<Longrightarrow> store_ok (\<alpha> t) \<Longrightarrow> saveCheckpointTxn B cp t = Inr t' \<Longrightarrow> store_ok (\<alpha> t')"
proof -
  assume laws: "badger_laws B \<alpha>" and ok: "store_ok (\<alpha> t)" and "saveCheckpointTxn B cp t = Inr t'"
  then obtain t1 where "\<alpha> t1 = \<alpha> t \<or> \<alpha> t1 = (\<alpha> t)(checkpointKey (ck_JobID cp) := None)"
    "bg_Set B (checkpointKey (ck_JobID cp)) (CkptJSON cp) t1 = Inr t'"
    by (auto simp: saveCheckpointTxn_def ebind_Inr split: sum.splits if_splits dest!: delete_map_upd [OF laws])
  with ok show ?thesis by (auto simp: store_ok_steps dest!: set_map_upd [OF laws])
qed

lemma claimEntry_ok:
  assumes "badger_laws B \<alpha>" and "worker \<noteq> []" and "store_ok (\<alpha> t)" and "claimEntry B worker now key v t claimed = Inr (t', claimed')"
  shows "store_ok (\<alpha> t')"
  using claimEntry_cases [OF assms(1,4)]
proof (elim disjE exE conjE)
  fix jid job assume job: "\<alpha> t (jobKey jid) = Some (JobJSON job)"
    and upd: "\<alpha> t' = (\<alpha> t)(jobKey (jb_ID job) \<mapsto> JobJSON (claimedBy now job), key := None,
      runningIndexKey worker (jb_ID job) \<mapsto> Bytes (jb_ID job))"
  from store_ok_job [OF assms(3) job] show ?thesis
    unfolding upd using assms(2,3) by (intro store_ok_steps) auto
qed (simp_all add: assms(3) store_ok_delete)

lemma claimItems_ok:
  assumes "badger_laws B \<alpha>" and "worker \<noteq> []"
  shows "claimItems B worker now limit items t claimed = Inr (t', claimed') \<Longrightarrow> store_ok (\<alpha> t) \<Longrightarrow> store_ok (\<alpha> t')"
proof (induction items arbitrary: t claimed)
  case (Cons item items)
  obtain key v where "item = (key, v)" by (cases item)
  with Cons show ?case using claimEntry_ok [OF assms] by (auto simp: ebind_Inr split: if_splits)
qed simp

lemma claimTxn_ok:
  assumes "badger_laws B \<alpha>" and "worker \<noteq> []"
  shows "claimTxn B worker now limit queues t claimed = Inr (t', claimed') \<Longrightarrow> store_ok (\<alpha> t) \<Longrightarrow> store_ok (\<alpha> t')"
proof (induction queues arbitrary: t claimed)
  case (Cons queue queues)
  then show ?case using claimItems_ok [OF assms] by (auto simp: ebind_Inr claimFromQueue_def split: if_splits)
qed simp

lemma appendBestEffort_ok:
  assumes "badger_laws B \<alpha>" and "store_ok (\<alpha> t)"
  shows "store_ok (\<alpha> (appendBestEffort B E k e t))"
proof (cases "AppendEvent B e (storeCall E k t)")
  case (Inr t')
  then have "retryTxnCtx (appendEventTxn B e) (storeCall E k t) = Inr t'" by (auto simp: AppendEvent_def split: option.splits)
  from appendEventTxn_ok [OF assms retry_storeCall [OF this]] Inr show ?thesis by (simp add: appendBestEffort_def)
qed (simp add: appendBestEffort_def assms(2))

lemma exec_fail_ok:
  assumes "badger_laws B \<alpha>" and "store_ok (\<alpha> t)"
  shows "store_ok (\<alpha> (exec_fail B E k now job cause retry t))"
proof (cases "store_Update B (failedJob B now cause retry job t) (storeCall E k t)")
  case (Inr t')
  then show ?thesis
    using appendBestEffort_ok [OF assms(1) updateTxn_ok [OF assms store_Update_txn [OF Inr]]] by (simp add: exec_fail_def Let_def)
qed (simp add: exec_fail_def Let_def assms(2))

lemma SaveCheckpoint_ok:
  assumes "badger_laws B \<alpha>" and "store_ok (\<alpha> t)" and "SaveCheckpoint B cp (storeCall E k t) = Inr t'"
  shows "store_ok (\<alpha> t')"
proof -
  have "retryTxnCtx (saveCheckpointTxn B cp) (storeCall E k t) = Inr t'" using assms(3) by (auto simp: SaveCheckpoint_def split: option.splits)
  from saveCheckpointTxn_ok [OF assms(1,2) retry_storeCall [OF this]] show ?thesis .
qed

lemma runAttempt_ok:
  assumes "badger_laws B \<alpha>" and "store_ok (\<alpha> t)"
  shows "store_ok (\<alpha> (runAttempt B E handlers shutdown expired now job t))"
proof -
  have upd: "store_ok (\<alpha> (appendBestEffort B E l e t'))" if "store_Update B j (storeCall E k t) = Inr t'" "store_ok (\<alpha> t)" for t t' j e k l
    by (rule appendBestEffort_ok [OF assms(1) updateTxn_ok [OF assms(1) that(2) store_Update_txn [OF that(1)]]])
  show ?thesis
    unfolding runAttempt_def Let_def
    using assms(2) by (auto split: option.split sum.split prod.split intro!: exec_fail_ok [OF assms(1)] intro: upd SaveCheckpoint_ok [OF assms])
qed

section \<open>The attempt budget\<close>

definition attempts_ok :: "(string \<Rightarrow> sval option) \<Rightarrow> bool" where
  "attempts_ok m \<longleftrightarrow> (\<forall>jid job. m (jobKey jid) = Some (JobJSON job) \<longrightarrow>
     jb_Attempt job \<le> maxAttempts job \<and> (jb_State job = StateQueued \<longrightarrow> jb_Attempt job < maxAttempts job))"

lemma attempts_okD: "attempts_ok m \<Longrightarrow> m (jobKey jid) = Some (JobJSON job) \<Longrightarrow>
    jb_Attempt job \<le> maxAttempts job \<and> (jb_State job = StateQueued \<longrightarrow> jb_Attempt job < maxAttempts job)"
  unfolding attempts_ok_def by blast

lemma maxAttempts_ge1: "1 \<le> maxAttempts job"
  by (simp add: maxAttempts_def)

text \<open>The steps of the subsystem. \<open>\<alpha>\<close> reads a state of the store.\<close>

inductive jobsStep :: "'t badger \<Rightarrow> ('t \<Rightarrow> string \<Rightarrow> sval option) \<Rightarrow> handlerRegistry \<Rightarrow> 't \<Rightarrow> 't \<Rightarrow> bool"
  for B \<alpha> handlers where
  ingest: "store_Create B now (materialize now f) (storeCall E k t) = Inr t' \<Longrightarrow> jobsStep B \<alpha> handlers t t'"
| claim: "store_Claim B now worker queues limit (storeCall E k t) = Inr (Some t', claimed) \<Longrightarrow> jobsStep B \<alpha> handlers t t'"
| attempt: "\<alpha> t (jobKey (jb_ID job)) = Some (JobJSON job) \<Longrightarrow> jb_State job = StateRunning \<Longrightarrow>
    jobsStep B \<alpha> handlers t (runAttempt B E handlers shutdown expired now job t)"
| recovery: "recoverOneTxn B clk worker job now t = Inr t' \<Longrightarrow> jobsStep B \<alpha> handlers t t'"

inductive jobsReach :: "'t badger \<Rightarrow> ('t \<Rightarrow> string \<Rightarrow> sval option) \<Rightarrow> handlerRegistry \<Rightarrow> 't \<Rightarrow> 't \<Rightarrow> bool"
  for B \<alpha> handlers where
  refl: "jobsReach B \<alpha> handlers t t"
| step: "jobsReach B \<alpha> handlers t t' \<Longrightarrow> jobsStep B \<alpha> handlers t' t'' \<Longrightarrow> jobsReach B \<alpha> handlers t t''"

lemma ingest_attempts:
  assumes "badger_laws B \<alpha>" and "attempts_ok (\<alpha> t)" and "createTxn B (materialize now f) t = Inr t'"
  shows "attempts_ok (\<alpha> t')"
  unfolding attempts_ok_def
proof (intro allI impI)
  fix jid job assume "\<alpha> t' (jobKey jid) = Some (JobJSON job)"
  then have "job = materialize now f \<or> \<alpha> t (jobKey jid) = Some (JobJSON job)"
    using createTxn_effect(3,6) [OF assms(1,3)] by (cases "jid = jb_ID (materialize now f)") auto
  then show "jb_Attempt job \<le> maxAttempts job \<and> (jb_State job = StateQueued \<longrightarrow> jb_Attempt job < maxAttempts job)"
    using attempts_okD [OF assms(2)] maxAttempts_ge1 [of "materialize now f"] by auto
qed

lemma claim_attempts:
  assumes "claim_inv m0 worker now m claimed" and "attempts_ok m0"
  shows "attempts_ok m"
  unfolding attempts_ok_def
proof (intro allI impI)
  fix jid job assume job: "m (jobKey jid) = Some (JobJSON job)"
  show "jb_Attempt job \<le> maxAttempts job \<and> (jb_State job = StateQueued \<longrightarrow> jb_Attempt job < maxAttempts job)"
  proof (cases "jid \<in> jb_ID ` set claimed")
    case True
    then obtain j where j: "j \<in> set claimed" "jb_ID j = jid" by auto
    with assms(1) job have "j = job" by (auto simp: claim_inv_def)
    with j assms(1) obtain old where old: "m0 (jobKey (jb_ID old)) = Some (JobJSON old)" "claimable now old" "job = claimedBy now old"
      by (auto simp: claim_inv_def)
    with attempts_okD [OF assms(2) old(1)] show ?thesis by (auto simp: claimable_def claimedBy_def maxAttempts_def)
  next
    case False
    with assms(1) job have "m0 (jobKey jid) = Some (JobJSON job)" by (auto simp: claim_inv_def)
    from attempts_okD [OF assms(2) this] show ?thesis .
  qed
qed

lemma attempt_attempts:
  assumes "attemptSpec handlers now job m m'" and "m (jobKey (jb_ID job)) = Some (JobJSON job)" and "attempts_ok m"
  shows "attempts_ok m'"
  unfolding attempts_ok_def
proof (intro allI impI)
  fix jid j assume j: "m' (jobKey jid) = Some (JobJSON j)"
  show "jb_Attempt j \<le> maxAttempts j \<and> (jb_State j = StateQueued \<longrightarrow> jb_Attempt j < maxAttempts j)"
  proof (cases "jid = jb_ID job")
    case True
    with assms(1) j have "attemptEnds handlers now job m' j" by (auto simp: attemptSpec_def)
    moreover have "maxAttempts j = maxAttempts job" if "jb_Spec j = jb_Spec job" using that by (simp add: maxAttempts_def)
    ultimately show ?thesis using attempts_okD [OF assms(3,2)] by (auto simp: attemptEnds_def)
  next
    case False
    with assms(1) j have "m (jobKey jid) = Some (JobJSON j)" by (auto simp: attemptSpec_def)
    from attempts_okD [OF assms(3) this] show ?thesis .
  qed
qed

text \<open>What recovery makes of a stored job, whatever identifier it looked for.\<close>

lemma recovery_jobs:
  assumes "badger_laws B \<alpha>" and "ids_ok (\<alpha> t)" and run: "recoverOneTxn B clk worker job now t = Inr t'" and "\<alpha> t' (jobKey jid) = Some (JobJSON j)"
  shows "\<alpha> t (jobKey jid) = Some (JobJSON j) \<or>
    (\<exists>c tok. \<alpha> t (jobKey jid) = Some (JobJSON c) \<and> (j = interruptedJob now c \<or> jb_Attempt c < maxAttempts c \<and> j = requeuedJob now tok c))"
proof -
  from run obtain c t1 where load: "loadTxn B t (jb_ID job) = Inr c"
    and del: "bg_Delete B (runningIndexKey worker (jb_ID job)) t = Inr t1" by (auto simp: recoverOneTxn_eq ebind_Inr)
  note c = loadTxn_Found [OF assms(1) load] and t1 = delete_map_upd [OF assms(1) del]
  have jid: "jb_ID c = jb_ID job" using ids_okD [OF assms(2) c] .
  show ?thesis
  proof (cases "jb_State c = StateRunning")
    case False
    with run load del have "t' = t1" by (simp add: recoverOneTxn_eq)
    with assms(4) show ?thesis by (simp add: t1)
  next
    case True
    with run load del obtain t2 t3 where ev: "appendEventTxn B (evInterrupted clk now c) t1 = Inr t2"
      and set: "bg_Set B (jobKey (jb_ID c)) (JobJSON (interruptedJob now c)) t2 = Inr t3"
      and rest: "(if jb_Attempt c < maxAttempts c
        then ebind (bg_Set B (jobKey (jb_ID c)) (JobJSON (requeuedJob now (resumeToken B t3 c) c)) t3) (\<lambda>t'.
             ebind (bg_Set B (readyIndexKey (requeuedJob now (resumeToken B t3 c) c)) (Bytes (jb_ID c)) t') (\<lambda>t'.
             appendEventTxn B (evRequeued clk now (hasCheckpointTxn B (jb_ID c) t3) c) t'))
        else Inr t3) = Inr t'"
      by (auto simp: recoverOneTxn_eq ebind_Inr)
    have t3: "\<alpha> t3 (jobKey i) = (if i = jb_ID c then Some (JobJSON (interruptedJob now c)) else \<alpha> t (jobKey i))" for i
      using set_map_upd [OF assms(1) set] appendEventTxn_other [OF assms(1) ev, of "jobKey i"] by (simp add: t1)
    show ?thesis
    proof (cases "jb_Attempt c < maxAttempts c")
      case False
      with rest have "t' = t3" by simp
      with assms(4) c jid show ?thesis by (auto simp: t3 split: if_splits)
    next
      case retry: True
      let ?q = "requeuedJob now (resumeToken B t3 c) c"
      from rest retry obtain t4 t5 e where s4: "bg_Set B (jobKey (jb_ID c)) (JobJSON ?q) t3 = Inr t4"
        and s5: "bg_Set B (readyIndexKey ?q) (Bytes (jb_ID c)) t4 = Inr t5" and s6: "appendEventTxn B e t5 = Inr t'"
        by (auto simp: ebind_Inr)
      have "\<alpha> t' (jobKey jid) = (if jid = jb_ID c then Some (JobJSON ?q) else \<alpha> t (jobKey jid))"
        using set_map_upd [OF assms(1) s4] set_map_upd [OF assms(1) s5] appendEventTxn_other [OF assms(1) s6, of "jobKey jid"] by (simp add: t3)
      with assms(4) c jid retry show ?thesis by (auto split: if_splits)
    qed
  qed
qed

lemma recovery_inv:
  assumes "badger_laws B \<alpha>" and "ids_ok (\<alpha> t)" and "attempts_ok (\<alpha> t)" and "recoverOneTxn B clk worker job now t = Inr t'"
  shows "ids_ok (\<alpha> t') \<and> attempts_ok (\<alpha> t')"
proof -
  note jobs = recovery_jobs [OF assms(1,2,4)]
  have "jb_ID j = jid" if "\<alpha> t' (jobKey jid) = Some (JobJSON j)" for jid j
    using jobs [OF that] ids_okD [OF assms(2), of jid] by (auto simp: interruptedJob_def requeuedJob_def)
  moreover have "jb_Attempt j \<le> maxAttempts j \<and> (jb_State j = StateQueued \<longrightarrow> jb_Attempt j < maxAttempts j)"
    if "\<alpha> t' (jobKey jid) = Some (JobJSON j)" for jid j
    using jobs [OF that] attempts_okD [OF assms(3), of jid] by (auto simp: interruptedJob_def requeuedJob_def maxAttempts_def)
  ultimately show ?thesis unfolding ids_ok_def attempts_ok_def by blast
qed

lemma jobsStep_inv:
  assumes laws: "badger_laws B \<alpha>" and step: "jobsStep B \<alpha> handlers t t'" and ok: "ids_ok (\<alpha> t)" and att: "attempts_ok (\<alpha> t)"
  shows "ids_ok (\<alpha> t') \<and> attempts_ok (\<alpha> t')"
  using step
proof (cases rule: jobsStep.cases)
  case (ingest now f E k)
  note txn = store_Create_call [OF ingest]
  have "ids_ok (\<alpha> t')"
    unfolding ids_ok_def
  proof (intro allI impI)
    fix jid j assume j: "\<alpha> t' (jobKey jid) = Some (JobJSON j)"
    show "jb_ID j = jid"
      using createTxn_effect(3,6) [OF laws txn] ids_okD [OF ok] j by (cases "jid = jb_ID (materialize now f)") auto
  qed
  then show ?thesis using ingest_attempts [OF laws att txn] by simp
next
  case (claim now worker queues limit E k claimed)
  have "\<forall>i. ids_ok (\<alpha> (at_begin (storeCall E k t i)))" using ok by simp
  from store_Claim_inv [OF laws claim this] obtain i where
    inv: "claim_inv (\<alpha> (at_begin (storeCall E k t i))) worker now (\<alpha> t') claimed" .
  then show ?thesis using claim_attempts [OF inv] att by (simp add: claim_inv_def)
next
  case (attempt job E shutdown expired now)
  have spec: "attemptSpec handlers now job (\<alpha> t) (\<alpha> t')" unfolding attempt(1) by (rule attempt_spec [OF laws attempt(2)])
  have "ids_ok (\<alpha> t')"
    unfolding ids_ok_def
  proof (intro allI impI)
    fix jid j assume j: "\<alpha> t' (jobKey jid) = Some (JobJSON j)"
    show "jb_ID j = jid"
      using spec j ids_okD [OF ok] by (cases "jid = jb_ID job") (auto simp: attemptSpec_def attemptEnds_def)
  qed
  then show ?thesis using attempt_attempts [OF spec attempt(2) att] by simp
next
  case (recovery clk worker job now)
  from recovery_inv [OF laws ok att recovery] show ?thesis .
qed

lemma jobsReach_inv:
  assumes "badger_laws B \<alpha>" and "jobsReach B \<alpha> handlers t t'" and "ids_ok (\<alpha> t)" and "attempts_ok (\<alpha> t)"
  shows "ids_ok (\<alpha> t') \<and> attempts_ok (\<alpha> t')"
  using assms(2-4) by (induction rule: jobsReach.induct) (use jobsStep_inv [OF assms(1)] in blast)+

text \<open>
  \<^bold>\<open>C26.\<close> No job runs more often than its specification allows: starting from an empty store, after any
  interleaving of ingestions, claims by any workers, attempts with any handler behaviour and store
  failures, and recoveries after restarts, the number of attempts of every stored job is at most its
  budget (one when none is given), and a queued job has attempts left.
\<close>

theorem attempts_bounded:
  assumes "badger_laws B \<alpha>" and "jobsReach B \<alpha> handlers t0 t" and "\<alpha> t0 = Map.empty" and "\<alpha> t (jobKey jid) = Some (JobJSON job)"
  shows "jb_Attempt job \<le> max 1 (js_MaxAttempts (jb_Spec job)) \<and>
         (jb_State job = StateQueued \<longrightarrow> jb_Attempt job < max 1 (js_MaxAttempts (jb_Spec job)))"
proof -
  have "ids_ok (\<alpha> t0)" "attempts_ok (\<alpha> t0)" using assms(3) by (simp_all add: ids_ok_def attempts_ok_def)
  from jobsReach_inv [OF assms(1,2) this] assms(4) have
    "jb_Attempt job \<le> maxAttempts job \<and> (jb_State job = StateQueued \<longrightarrow> jb_Attempt job < maxAttempts job)"
    by (auto dest: attempts_okD)
  moreover have "maxAttempts job = max 1 (js_MaxAttempts (jb_Spec job))" by (simp add: maxAttempts_def)
  ultimately show ?thesis by simp
qed

definition wQueued :: memtxn where
  "wQueued = (case createTxn memB (materialize (unixEpoch + 5) (wFile\<lparr>sf_Spec := (wJobSpec 0)\<lparr>js_Priority := 999999\<rparr>\<rparr>)) [] of Inr t \<Rightarrow> t | Inl _ \<Rightarrow> [])"

theorem attempts_bounded_witness:
  "\<exists>t job. jobsReach memB map_of wFails [] t \<and> map_of t (jobKey ''job-turn-1'') = Some (JobJSON job) \<and>
     jb_State job = StateRunning \<and> 1 \<le> jb_Attempt job \<and> jb_Attempt job \<le> 3"
proof -
  let ?E = "\<lambda>_ _. (None, None)" and ?f = "wFile\<lparr>sf_Spec := (wJobSpec 0)\<lparr>js_Priority := 999999\<rparr>\<rparr>"
  let ?claim = "store_Claim memB (unixEpoch + 9000) ''w1'' [''knowledge''] 4 (storeCall ?E 0 wQueued)"
  define t where "t = (case ?claim of Inr (Some t, _) \<Rightarrow> t | _ \<Rightarrow> [])"
  define job where "job = (case map_of t (jobKey ''job-turn-1'') of Some (JobJSON j) \<Rightarrow> j | _ \<Rightarrow> materialize 0 wFile)"
  have "store_Create memB (unixEpoch + 5) (materialize (unixEpoch + 5) ?f) (storeCall ?E 0 []) = Inr wQueued" by code_simp
  then have "jobsStep memB map_of wFails [] wQueued" by (rule jobsStep.ingest)
  moreover have "?claim = Inr (Some t, snd (projr ?claim))" unfolding t_def by code_simp
  then have "jobsStep memB map_of wFails wQueued t" by (rule jobsStep.claim)
  ultimately have reach: "jobsReach memB map_of wFails [] t" by (blast intro: jobsReach.intros)
  have stored: "map_of t (jobKey ''job-turn-1'') = Some (JobJSON job)" "jb_State job = StateRunning" "1 \<le> jb_Attempt job"
      "js_MaxAttempts (jb_Spec job) = 3"
    unfolding job_def t_def by code_simp+
  have "jb_Attempt job \<le> max 1 (js_MaxAttempts (jb_Spec job))"
    using attempts_bounded [of memB map_of wFails "[]" t "''job-turn-1''" job] memB_laws reach stored(1) by simp
  then have "jb_Attempt job \<le> 3" by (simp add: stored(4))
  with reach stored(1-3) show ?thesis by blast
qed

end
