(* ===== verification/ContextData.thy ===== *)
theory ContextData
  imports Prelude "HOL-Library.AList"
begin

text \<open>
  The envelope that carries an execution's state between graph nodes (\<open>context/contextdata\<close>): working
  data with the origin of each value, four tiers of references, the delta of a branch relative to its
  parent and the merge of branch deltas. A Go map is an association list with distinct keys in an
  arbitrary order. Every method runs under the envelope's mutex and is one step; \<open>now\<close> is its reading
  of the clock.
\<close>

section \<open>Values and origins\<close>

text \<open>
  A value of type \<open>any\<close>. \<open>GOther\<close> stands for a value of any other type by its printed form. The integer
  types are kept apart since \<open>NextSequence\<close> distinguishes them; equality is \<open>reflect.DeepEqual\<close>.
\<close>

datatype goval =
    GString string
  | GBool bool
  | GInt int
  | GInt64 int
  | GUint int
  | GUint64 int
  | GStrings "string list"
  | GList "goval list"
  | GMap "(string \<times> goval) list"
  | GMaps "(string \<times> goval) list list"
  | GModelUsage int int int
  | GOther string

abbreviation OriginUser :: string where "OriginUser \<equiv> ''user''"
abbreviation OriginTool :: string where "OriginTool \<equiv> ''tool''"
abbreviation OriginLLM :: string where "OriginLLM \<equiv> ''llm''"

definition originRestrictiveness :: "string \<Rightarrow> int" where
  "originRestrictiveness o' = (if o' = OriginUser then 1 else if o' = OriginTool then 2 else 3)"

definition MostRestrictive :: "string \<Rightarrow> string \<Rightarrow> string" where
  "MostRestrictive a b = (if originRestrictiveness a \<ge> originRestrictiveness b then a else b)"

abbreviation MemoryClassEphemeral :: string where "MemoryClassEphemeral \<equiv> ''ephemeral''"
abbreviation MemoryClassSession :: string where "MemoryClassSession \<equiv> ''session''"
abbreviation MemoryClassTask :: string where "MemoryClassTask \<equiv> ''task''"

section \<open>References\<close>

record ChunkReference =
  ck_ChunkID :: string
  ck_Source :: string
  ck_Rank :: int
  ck_IsSummary :: bool
  ck_OriginalChunk :: string
  ck_TokenCount :: int
  ck_RetrievedAt :: time

record WorkingMemoryReference =
  wr_TaskID :: string
  wr_Key :: string
  wr_Class :: string
  wr_CreatedAt :: time
  wr_UpdatedAt :: time
  wr_ValueHash :: string

record RetrievalReference =
  rr_QueryID :: string
  rr_QueryText :: string
  rr_Scope :: string
  rr_ChunkIDs :: "string list"
  rr_TotalFound :: int
  rr_FilteredOut :: int
  rr_RetrievedAt :: time
  rr_Duration :: int

record CheckpointReference =
  cr_CheckpointID :: string
  cr_SequenceNum :: int
  cr_RequestedBy :: string
  cr_CreatedAt :: time
  cr_WorkingMemoryKeys :: "string list"

record ReferenceBundle =
  rb_StreamedContext :: "ChunkReference list"
  rb_WorkingMemory :: "WorkingMemoryReference list"
  rb_Retrieval :: "RetrievalReference list"
  rb_Checkpoints :: "CheckpointReference list"

definition noReferences :: ReferenceBundle where
  "noReferences = \<lparr>rb_StreamedContext = [], rb_WorkingMemory = [], rb_Retrieval = [], rb_Checkpoints = []\<rparr>"

definition bundle_IsEmpty :: "ReferenceBundle \<Rightarrow> bool" where
  "bundle_IsEmpty b \<longleftrightarrow> rb_StreamedContext b = [] \<and> rb_WorkingMemory b = [] \<and> rb_Retrieval b = [] \<and> rb_Checkpoints b = []"

definition GetWorkingMemoryRef :: "ReferenceBundle \<Rightarrow> string \<Rightarrow> string \<Rightarrow> WorkingMemoryReference option" where
  "GetWorkingMemoryRef b taskID key = find (\<lambda>ref. wr_TaskID ref = taskID \<and> wr_Key ref = key) (rb_WorkingMemory b)"

definition HasWorkingMemoryKey :: "ReferenceBundle \<Rightarrow> string \<Rightarrow> string \<Rightarrow> bool" where
  "HasWorkingMemoryKey b taskID key = list_ex (\<lambda>ref. wr_TaskID ref = taskID \<and> wr_Key ref = key) (rb_WorkingMemory b)"

section \<open>The envelope\<close>

record CheckpointRequest =
  cq_RequestedBy :: string
  cq_Reason :: string
  cq_Priority :: int
  cq_EvictWorkingMemory :: bool
  cq_RequestedAt :: time

record AssemblyMeta =
  am_CompilationID :: string
  am_EventLogSeq :: int
  am_BudgetTokens :: int
  am_ShortfallTokens :: int
  am_AssembledAt :: time
  am_EpochID :: int
  am_RunID :: string

record StreamedChunk =
  sc_ChunkID :: string
  sc_ContentHash :: string
  sc_Body :: string
  sc_TokenEstimate :: int
  sc_TrustClass :: string
  sc_IsSummary :: bool
  sc_ArtifactKey :: string
  sc_ObservedAt :: time

record StreamedSlice =
  sl_RequestID :: string
  sl_Epoch :: int
  sl_CompiledAt :: time
  sl_BudgetTokens :: int
  sl_FinalTokens :: int
  sl_Chunks :: "StreamedChunk list"
  sl_GapMessages :: "string list"
  sl_CacheHit :: bool

record SliceStamp =
  st_RequestID :: string
  st_Epoch :: int
  st_ChunkIDs :: "string list"
  st_ChunkHashes :: "string list"
  st_FinalTokens :: int
  st_CacheHit :: bool

text \<open>\<open>ev_WorkingData\<close> is \<open>None\<close> for the nil map of an envelope that was not made by \<open>NewEnvelope\<close>.\<close>

record Envelope =
  ev_TaskID :: string
  ev_SessionID :: string
  ev_NodeID :: string
  ev_References :: ReferenceBundle
  ev_WorkingData :: "(string \<times> goval) list option"
  ev_Origins :: "(string \<times> string) list"
  ev_CheckpointRequest :: "CheckpointRequest option"
  ev_AssemblyMetadata :: AssemblyMeta
  ev_streamed :: "StreamedSlice option"
  ev_streamHistory :: "SliceStamp list"
  ev_createdAt :: time

definition zeroAssembly :: AssemblyMeta where
  "zeroAssembly = \<lparr>am_CompilationID = [], am_EventLogSeq = 0, am_BudgetTokens = 0, am_ShortfallTokens = 0,
     am_AssembledAt = 0, am_EpochID = 0, am_RunID = []\<rparr>"

definition NewEnvelope :: "time \<Rightarrow> string \<Rightarrow> string \<Rightarrow> Envelope" where
  "NewEnvelope now taskID sessionID =
     \<lparr>ev_TaskID = taskID, ev_SessionID = sessionID, ev_NodeID = [], ev_References = noReferences,
      ev_WorkingData = Some [], ev_Origins = [], ev_CheckpointRequest = None, ev_AssemblyMetadata = zeroAssembly,
      ev_streamed = None, ev_streamHistory = [], ev_createdAt = now\<rparr>"

text \<open>The working data as it reads: a nil map reads as an empty one.\<close>

definition dataOf :: "Envelope \<Rightarrow> (string \<times> goval) list" where
  "dataOf e = (case ev_WorkingData e of None \<Rightarrow> [] | Some d \<Rightarrow> d)"

definition getWorkingValue :: "Envelope \<Rightarrow> string \<Rightarrow> goval option" where
  "getWorkingValue e key = map_of (dataOf e) key"

definition envelope_IsEmpty :: "Envelope \<Rightarrow> bool" where
  "envelope_IsEmpty e \<longleftrightarrow> dataOf e = [] \<and> bundle_IsEmpty (ev_References e)"

section \<open>Working data\<close>

text \<open>The first reference of the envelope's own task to a key is touched, or a new one is appended.\<close>

fun touchRef :: "string \<Rightarrow> string \<Rightarrow> (WorkingMemoryReference \<Rightarrow> WorkingMemoryReference) \<Rightarrow> WorkingMemoryReference \<Rightarrow>
    WorkingMemoryReference list \<Rightarrow> WorkingMemoryReference list" where
  "touchRef taskID key f fresh [] = [fresh]"
| "touchRef taskID key f fresh (ref # refs) =
     (if wr_TaskID ref = taskID \<and> wr_Key ref = key then f ref # refs else ref # touchRef taskID key f fresh refs)"

definition freshRef :: "string \<Rightarrow> string \<Rightarrow> string \<Rightarrow> time \<Rightarrow> WorkingMemoryReference" where
  "freshRef taskID key cls now =
     \<lparr>wr_TaskID = taskID, wr_Key = key, wr_Class = cls, wr_CreatedAt = now, wr_UpdatedAt = now, wr_ValueHash = []\<rparr>"

definition SetWorkingValueWithOrigin :: "time \<Rightarrow> string \<Rightarrow> goval \<Rightarrow> string \<Rightarrow> string \<Rightarrow> Envelope \<Rightarrow> Envelope" where
  "SetWorkingValueWithOrigin now key v cls origin e =
     e\<lparr>ev_WorkingData := Some (AList.update key v (dataOf e)),
       ev_Origins := AList.update key origin (ev_Origins e),
       ev_References := (ev_References e)\<lparr>rb_WorkingMemory :=
         touchRef (ev_TaskID e) key (\<lambda>ref. ref\<lparr>wr_UpdatedAt := now, wr_Class := cls\<rparr>) (freshRef (ev_TaskID e) key cls now)
           (rb_WorkingMemory (ev_References e))\<rparr>\<rparr>"

definition SetWorkingValueWithClass :: "time \<Rightarrow> string \<Rightarrow> goval \<Rightarrow> string \<Rightarrow> Envelope \<Rightarrow> Envelope" where
  "SetWorkingValueWithClass now key v cls e = SetWorkingValueWithOrigin now key v cls OriginLLM e"

definition SetWorkingValue :: "time \<Rightarrow> string \<Rightarrow> goval \<Rightarrow> Envelope \<Rightarrow> Envelope" where
  "SetWorkingValue now key v e = SetWorkingValueWithClass now key v MemoryClassTask e"

text \<open>\<open>NextSequence\<close>: an unsigned 64-bit counter under a key; a value of another type counts as zero.\<close>

definition wrapU64 :: "int \<Rightarrow> int" where
  "wrapU64 x = x mod 2 ^ 64"

definition sequenceOf :: "goval option \<Rightarrow> int" where
  "sequenceOf v =
     (case v of
        Some (GUint64 n) \<Rightarrow> n
      | Some (GUint n) \<Rightarrow> n
      | Some (GInt n) \<Rightarrow> if n > 0 then n else 0
      | Some (GInt64 n) \<Rightarrow> if n > 0 then n else 0
      | _ \<Rightarrow> 0)"

definition NextSequence :: "time \<Rightarrow> string \<Rightarrow> Envelope \<Rightarrow> int \<times> Envelope" where
  "NextSequence now key e =
     (let current = wrapU64 (sequenceOf (map_of (dataOf e) key) + 1) in
      (current,
       e\<lparr>ev_WorkingData := Some (AList.update key (GUint64 current) (dataOf e)),
         ev_Origins := AList.update key OriginLLM (ev_Origins e),
         ev_References := (ev_References e)\<lparr>rb_WorkingMemory :=
           touchRef (ev_TaskID e) key (\<lambda>ref. ref\<lparr>wr_UpdatedAt := now\<rparr>) (freshRef (ev_TaskID e) key MemoryClassTask now)
             (rb_WorkingMemory (ev_References e))\<rparr>\<rparr>))"

definition OriginOf :: "Envelope \<Rightarrow> string \<Rightarrow> string" where
  "OriginOf e key = (case map_of (ev_Origins e) key of Some origin \<Rightarrow> origin | None \<Rightarrow> OriginLLM)"

definition DeleteWorkingValue :: "string \<Rightarrow> Envelope \<Rightarrow> Envelope" where
  "DeleteWorkingValue key e =
     (case ev_WorkingData e of
        None \<Rightarrow> e
      | Some d \<Rightarrow>
          e\<lparr>ev_WorkingData := Some (AList.delete key d),
            ev_Origins := AList.delete key (ev_Origins e),
            ev_References := (ev_References e)\<lparr>rb_WorkingMemory :=
              filter (\<lambda>ref. wr_TaskID ref \<noteq> ev_TaskID e \<or> wr_Key ref \<noteq> key) (rb_WorkingMemory (ev_References e))\<rparr>\<rparr>)"

definition WorkingMemoryKeys :: "Envelope \<Rightarrow> string list" where
  "WorkingMemoryKeys e = map wr_Key (filter (\<lambda>ref. wr_TaskID ref = ev_TaskID e) (rb_WorkingMemory (ev_References e)))"

definition ClearWorkingData :: "Envelope \<Rightarrow> Envelope" where
  "ClearWorkingData e =
     (case ev_WorkingData e of
        None \<Rightarrow> e
      | Some d \<Rightarrow>
          e\<lparr>ev_WorkingData := Some (fold AList.delete (WorkingMemoryKeys e) d),
            ev_Origins := fold AList.delete (WorkingMemoryKeys e) (ev_Origins e),
            ev_References := (ev_References e)\<lparr>rb_WorkingMemory :=
              filter (\<lambda>ref. wr_TaskID ref \<noteq> ev_TaskID e) (rb_WorkingMemory (ev_References e))\<rparr>\<rparr>)"

definition StringSliceFromContext :: "string \<Rightarrow> Envelope \<Rightarrow> string list" where
  "StringSliceFromContext key e =
     (case getWorkingValue e key of
        Some (GStrings xs) \<Rightarrow> xs
      | Some (GList vs) \<Rightarrow> concat (map (\<lambda>v. case v of GString s \<Rightarrow> [s] | _ \<Rightarrow> []) vs)
      | _ \<Rightarrow> [])"

definition SetExecutionPhase :: "time \<Rightarrow> string \<Rightarrow> Envelope \<Rightarrow> Envelope" where
  "SetExecutionPhase now phase e = SetWorkingValueWithClass now ''_execution_phase'' (GString phase) MemoryClassTask e"

definition GetExecutionPhase :: "Envelope \<Rightarrow> string" where
  "GetExecutionPhase e = (case getWorkingValue e ''_execution_phase'' of Some (GString s) \<Rightarrow> s | _ \<Rightarrow> [])"

definition GetInteractions :: "Envelope \<Rightarrow> (string \<times> goval) list list" where
  "GetInteractions e = (case getWorkingValue e ''_interactions'' of Some (GMaps ms) \<Rightarrow> ms | _ \<Rightarrow> [])"

definition AddInteraction :: "time \<Rightarrow> (string \<times> goval) list \<Rightarrow> Envelope \<Rightarrow> Envelope" where
  "AddInteraction now interaction e =
     SetWorkingValueWithClass now ''_interactions'' (GMaps (GetInteractions e @ [interaction])) MemoryClassTask e"

definition modelUsageKey :: string where
  "modelUsageKey = ''euclo.run.model_usage''"

definition ModelUsageFromEnv :: "Envelope \<Rightarrow> int \<times> int \<times> int" where
  "ModelUsageFromEnv e = (case map_of (dataOf e) modelUsageKey of Some (GModelUsage c p q) \<Rightarrow> (c, p, q) | _ \<Rightarrow> (0, 0, 0))"

definition RecordModelUsage :: "time \<Rightarrow> int \<Rightarrow> int \<Rightarrow> Envelope \<Rightarrow> Envelope" where
  "RecordModelUsage now prompt completion e =
     (case ModelUsageFromEnv e of
        (c, p, q) \<Rightarrow> SetWorkingValue now modelUsageKey (GModelUsage (wrap64 (c + 1)) (wrap64 (p + prompt)) (wrap64 (q + completion))) e)"

section \<open>Checkpoints, streamed slices, cloning\<close>

definition RequestCheckpoint :: "time \<Rightarrow> string \<Rightarrow> int \<Rightarrow> bool \<Rightarrow> Envelope \<Rightarrow> Envelope" where
  "RequestCheckpoint now reason priority evict e =
     e\<lparr>ev_CheckpointRequest := Some \<lparr>cq_RequestedBy = ev_NodeID e, cq_Reason = reason, cq_Priority = priority,
         cq_EvictWorkingMemory = evict, cq_RequestedAt = now\<rparr>\<rparr>"

definition ClearCheckpointRequest :: "Envelope \<Rightarrow> Envelope" where
  "ClearCheckpointRequest e = e\<lparr>ev_CheckpointRequest := None\<rparr>"

definition AddCheckpointReference :: "CheckpointReference \<Rightarrow> Envelope \<Rightarrow> Envelope" where
  "AddCheckpointReference ref e =
     e\<lparr>ev_References := (ev_References e)\<lparr>rb_Checkpoints := rb_Checkpoints (ev_References e) @ [ref]\<rparr>\<rparr>"

definition AddRetrievalReference :: "RetrievalReference \<Rightarrow> Envelope \<Rightarrow> Envelope" where
  "AddRetrievalReference ref e =
     e\<lparr>ev_References := (ev_References e)\<lparr>rb_Retrieval := rb_Retrieval (ev_References e) @ [ref]\<rparr>\<rparr>"

definition AddStreamedContextReference :: "ChunkReference \<Rightarrow> Envelope \<Rightarrow> Envelope" where
  "AddStreamedContextReference ref e =
     e\<lparr>ev_References := (ev_References e)\<lparr>rb_StreamedContext := rb_StreamedContext (ev_References e) @ [ref]\<rparr>\<rparr>"

definition stamp :: "StreamedSlice \<Rightarrow> SliceStamp" where
  "stamp s = \<lparr>st_RequestID = sl_RequestID s, st_Epoch = sl_Epoch s, st_ChunkIDs = map sc_ChunkID (sl_Chunks s),
     st_ChunkHashes = map sc_ContentHash (sl_Chunks s), st_FinalTokens = sl_FinalTokens s, st_CacheHit = sl_CacheHit s\<rparr>"

definition SetStreamedSlice :: "StreamedSlice option \<Rightarrow> Envelope \<Rightarrow> Envelope" where
  "SetStreamedSlice s e =
     e\<lparr>ev_streamed := s,
       ev_streamHistory := ev_streamHistory e @ (case s of None \<Rightarrow> [] | Some sl \<Rightarrow> [stamp sl])\<rparr>"

text \<open>A clone has neither the pending checkpoint request nor the slice history.\<close>

definition Clone :: "Envelope \<Rightarrow> Envelope" where
  "Clone e = e\<lparr>ev_CheckpointRequest := None, ev_streamHistory := []\<rparr>"

section \<open>Handoff\<close>

record HandoffPolicy =
  hp_PreserveWorkingMemory :: bool
  hp_WorkingKeys :: "string list"
  hp_WorkingPrefixes :: "string list"
  hp_PreserveStreamedContext :: bool
  hp_PreserveRetrieval :: bool
  hp_PreserveCheckpoints :: bool
  hp_PreserveAssemblyMetadata :: bool
  hp_PreserveNodeID :: bool

definition DefaultHandoffPolicy :: HandoffPolicy where
  "DefaultHandoffPolicy =
     \<lparr>hp_PreserveWorkingMemory = True, hp_WorkingKeys = [], hp_WorkingPrefixes = [], hp_PreserveStreamedContext = True,
      hp_PreserveRetrieval = True, hp_PreserveCheckpoints = True, hp_PreserveAssemblyMetadata = True, hp_PreserveNodeID = True\<rparr>"

definition hasWorkingPrefix :: "string \<Rightarrow> string list \<Rightarrow> bool" where
  "hasWorkingPrefix key prefixList = list_ex (\<lambda>p. prefix p key) prefixList"

text \<open>The key filter that \<open>cloneWorkingDataForHandoff\<close> and \<open>cloneWorkingMemoryRefsForHandoff\<close> both spell out.\<close>

definition handoffKeeps :: "HandoffPolicy \<Rightarrow> string \<Rightarrow> bool" where
  "handoffKeeps policy key =
     (let keys = filter (\<lambda>k. k \<noteq> []) (map TrimSpace (hp_WorkingKeys policy));
          prefixList = filter (\<lambda>p. p \<noteq> []) (map TrimSpace (hp_WorkingPrefixes policy))
      in if keys \<noteq> [] then key \<in> set keys \<or> hasWorkingPrefix key prefixList
         else prefixList = [] \<or> hasWorkingPrefix key prefixList)"

definition cloneWorkingDataForHandoff :: "(string \<times> goval) list \<Rightarrow> HandoffPolicy \<Rightarrow> (string \<times> goval) list" where
  "cloneWorkingDataForHandoff d policy = filter (\<lambda>(key, v). handoffKeeps policy key) d"

definition cloneWorkingMemoryRefsForHandoff ::
  "WorkingMemoryReference list \<Rightarrow> string \<Rightarrow> HandoffPolicy \<Rightarrow> WorkingMemoryReference list" where
  "cloneWorkingMemoryRefsForHandoff refs taskID policy =
     filter (\<lambda>ref. wr_TaskID ref = taskID \<and> handoffKeeps policy (wr_Key ref)) refs"

definition HandoffSnapshot :: "HandoffPolicy \<Rightarrow> Envelope \<Rightarrow> Envelope" where
  "HandoffSnapshot policy e =
     (let refs = ev_References e;
          kept = cloneWorkingDataForHandoff (dataOf e) policy
      in \<lparr>ev_TaskID = ev_TaskID e, ev_SessionID = ev_SessionID e,
          ev_NodeID = (if hp_PreserveNodeID policy then ev_NodeID e else []),
          ev_References =
            \<lparr>rb_StreamedContext = (if hp_PreserveStreamedContext policy then rb_StreamedContext refs else []),
             rb_WorkingMemory =
               (if hp_PreserveWorkingMemory policy
                then cloneWorkingMemoryRefsForHandoff (rb_WorkingMemory refs) (ev_TaskID e) policy else []),
             rb_Retrieval = (if hp_PreserveRetrieval policy then rb_Retrieval refs else []),
             rb_Checkpoints = (if hp_PreserveCheckpoints policy then rb_Checkpoints refs else [])\<rparr>,
          ev_WorkingData = Some (if hp_PreserveWorkingMemory policy then kept else []),
          ev_Origins =
            (if hp_PreserveWorkingMemory policy then filter (\<lambda>(key, origin). key \<in> set (gokeys kept)) (ev_Origins e) else []),
          ev_CheckpointRequest = None,
          ev_AssemblyMetadata = (if hp_PreserveAssemblyMetadata policy then ev_AssemblyMetadata e else zeroAssembly),
          ev_streamed = None, ev_streamHistory = [], ev_createdAt = ev_createdAt e\<rparr>)"

section \<open>Merging another envelope\<close>

definition mergeOrigin :: "(string \<times> string) list \<Rightarrow> string \<Rightarrow> (string \<times> string) list \<Rightarrow> (string \<times> string) list" where
  "mergeOrigin others k os = (case map_of others k of Some origin \<Rightarrow> AList.update k origin os | None \<Rightarrow> AList.delete k os)"

definition mergeRef :: "WorkingMemoryReference \<Rightarrow> WorkingMemoryReference list \<Rightarrow> WorkingMemoryReference list" where
  "mergeRef ref refs = touchRef (wr_TaskID ref) (wr_Key ref) (\<lambda>_. ref) ref refs"

definition Envelope_Merge :: "Envelope \<Rightarrow> Envelope \<Rightarrow> Envelope" where
  "Envelope_Merge other e =
     (if dataOf other = [] \<and> rb_WorkingMemory (ev_References other) = [] then e
      else e\<lparr>ev_WorkingData := Some (fold (\<lambda>(k, v). AList.update k v) (dataOf other) (dataOf e)),
             ev_Origins := fold (mergeOrigin (ev_Origins other)) (gokeys (dataOf other)) (ev_Origins e),
             ev_References := (ev_References e)\<lparr>rb_WorkingMemory :=
               fold mergeRef (rb_WorkingMemory (ev_References other)) (rb_WorkingMemory (ev_References e))\<rparr>\<rparr>)"

section \<open>Branch deltas\<close>

record BranchDelta =
  bd_WorkingMemoryAdded :: "string list"
  bd_WorkingMemoryModified :: "string list"
  bd_WorkingMemoryDeleted :: "string list"
  bd_RetrievalPerformed :: "string list"

definition ComputeBranchDelta :: "Envelope \<Rightarrow> Envelope \<Rightarrow> BranchDelta" where
  "ComputeBranchDelta parent child =
     \<lparr>bd_WorkingMemoryAdded = filter (\<lambda>k. map_of (dataOf parent) k = None) (gokeys (dataOf child)),
      bd_WorkingMemoryModified =
        map fst (filter (\<lambda>(k, v). case map_of (dataOf parent) k of None \<Rightarrow> False | Some old \<Rightarrow> old \<noteq> v) (dataOf child)),
      bd_WorkingMemoryDeleted = filter (\<lambda>k. k \<notin> set (gokeys (dataOf child))) (gokeys (dataOf parent)),
      bd_RetrievalPerformed =
        filter (\<lambda>q. q \<notin> rr_QueryID ` set (rb_Retrieval (ev_References parent)))
          (map rr_QueryID (rb_Retrieval (ev_References child)))\<rparr>"

fun taskMismatch :: "string \<Rightarrow> nat \<Rightarrow> Envelope list \<Rightarrow> goerr option" where
  "taskMismatch taskID i [] = None"
| "taskMismatch taskID i (e # es) =
     (if i = 0 then taskMismatch (ev_TaskID e) 1 es
      else if ev_TaskID e \<noteq> taskID
      then Some (Err (''branch merge error: task_mismatch (envelope '' @ dec i @ '' has task '' @ ev_TaskID e @ '', expected '' @ taskID @ '')''))
      else taskMismatch taskID (Suc i) es)"

definition ValidateBranchMerge :: "Envelope list \<Rightarrow> goerr option" where
  "ValidateBranchMerge envelopes = (if length envelopes < 2 then None else taskMismatch [] 0 envelopes)"

section \<open>Branch merges\<close>

record BranchMergeUnit =
  bu_Index :: int
  bu_ID :: string
  bu_Delta :: BranchDelta
  bu_Env :: "Envelope option"

record MergeStats =
  ms_UnitsApplied :: nat
  ms_KeysWritten :: nat
  ms_KeysDeleted :: nat
  ms_KeysSkipped :: nat
  ms_Conflicts :: "string list"
  ms_RefsStreamed :: nat
  ms_RefsRetrieval :: nat

definition ErrBranchOrder :: goerr where
  "ErrBranchOrder = Err ''contextdata: branch merge units must be in strictly ascending index order''"

fun validateBranchOrder :: "nat \<Rightarrow> BranchMergeUnit list \<Rightarrow> goerr option" where
  "validateBranchOrder i (u # v # us) =
     (if bu_Index v \<le> bu_Index u
      then Some (Wrap (''units['' @ dec i @ ''].Index='' @ fmtInt (bu_Index v)) ErrBranchOrder)
      else validateBranchOrder (Suc i) (v # us))"
| "validateBranchOrder i us = None"

definition workingMemoryReferenceKey :: "WorkingMemoryReference \<Rightarrow> string" where
  "workingMemoryReferenceKey ref = wr_TaskID ref @ ''/'' @ wr_Key ref"

definition sortedUniqueStrings :: "string list \<Rightarrow> string list" where
  "sortedUniqueStrings values = sort (remdups (filter (\<lambda>v. v \<noteq> []) values))"

fun addStrings :: "string list \<Rightarrow> string list \<Rightarrow> string list" where
  "addStrings [] out = out"
| "addStrings (v # vs) out =
     (if TrimSpace v = [] \<or> TrimSpace v \<in> set out then addStrings vs out else addStrings vs (out @ [TrimSpace v]))"

definition mergeStringSets :: "string list \<Rightarrow> string list \<Rightarrow> string list" where
  "mergeStringSets base extra = addStrings extra (addStrings base [])"

definition dedupeStrings :: "string list \<Rightarrow> string list" where
  "dedupeStrings values = mergeStringSets [] values"

text \<open>The write and delete sets that the units resolve to, before the receiver's lock is taken.\<close>

record mergeSets =
  mx_writes :: "(string \<times> goval) list"
  mx_originWrites :: "(string \<times> string) list"
  mx_deletes :: "string list"
  mx_touched :: "(string \<times> nat) list"
  mx_skipped :: nat

definition noMerge :: mergeSets where
  "noMerge = \<lparr>mx_writes = [], mx_originWrites = [], mx_deletes = [], mx_touched = [], mx_skipped = 0\<rparr>"

definition touchKey :: "string \<Rightarrow> (string \<times> nat) list \<Rightarrow> (string \<times> nat) list" where
  "touchKey k t = AList.update k (Suc (case map_of t k of None \<Rightarrow> 0 | Some n \<Rightarrow> n)) t"

definition mergeDelete :: "string \<Rightarrow> mergeSets \<Rightarrow> mergeSets" where
  "mergeDelete k s =
     s\<lparr>mx_deletes := List.insert k (mx_deletes s), mx_writes := AList.delete k (mx_writes s),
       mx_originWrites := AList.delete k (mx_originWrites s), mx_touched := touchKey k (mx_touched s)\<rparr>"

definition mergeWrite :: "(string \<times> goval) list \<Rightarrow> (string \<times> string) list \<Rightarrow> string \<Rightarrow> mergeSets \<Rightarrow> mergeSets" where
  "mergeWrite values origins k s =
     (case map_of values k of
        None \<Rightarrow> s\<lparr>mx_skipped := Suc (mx_skipped s)\<rparr>
      | Some v \<Rightarrow>
          let origin = (case map_of origins k of Some o' \<Rightarrow> o' | None \<Rightarrow> OriginLLM) in
          s\<lparr>mx_writes := AList.update k v (mx_writes s), mx_deletes := removeAll k (mx_deletes s),
            mx_touched := touchKey k (mx_touched s),
            mx_originWrites := AList.update k
              (case map_of (mx_originWrites s) k of Some existing \<Rightarrow> MostRestrictive existing origin | None \<Rightarrow> origin)
              (mx_originWrites s)\<rparr>)"

definition mergeUnit :: "BranchMergeUnit \<Rightarrow> mergeSets \<Rightarrow> mergeSets" where
  "mergeUnit u s =
     (let s = fold mergeDelete (sortedUniqueStrings (bd_WorkingMemoryDeleted (bu_Delta u))) s;
          writeKeys = sortedUniqueStrings (bd_WorkingMemoryAdded (bu_Delta u) @ bd_WorkingMemoryModified (bu_Delta u))
      in case bu_Env u of
           None \<Rightarrow> s
         | Some e \<Rightarrow>
             (case ev_WorkingData e of
                None \<Rightarrow> s
              | Some values \<Rightarrow> fold (mergeWrite values (ev_Origins e)) writeKeys s))"

text \<open>
  The union of the references: \<open>seen\<close> of \<open>mergeBranchReferencesLocked\<close> is, for chunks, retrievals and checkpoints,
  the set of identifiers of the list so far, and is kept apart for working memory, where deletions drop
  entries.
\<close>

definition unionChunks :: "ChunkReference list \<Rightarrow> ChunkReference list \<Rightarrow> ChunkReference list" where
  "unionChunks refs = fold (\<lambda>ref out. if ck_ChunkID ref \<in> ck_ChunkID ` set out then out else out @ [ref]) refs"

definition unionRetrievals :: "RetrievalReference list \<Rightarrow> RetrievalReference list \<Rightarrow> RetrievalReference list" where
  "unionRetrievals refs = fold (\<lambda>ref out. if rr_QueryID ref \<in> rr_QueryID ` set out then out else out @ [ref]) refs"

fun updateFirstCheckpoint :: "CheckpointReference \<Rightarrow> CheckpointReference list \<Rightarrow> CheckpointReference list option" where
  "updateFirstCheckpoint ref [] = None"
| "updateFirstCheckpoint ref (c # cs) =
     (if cr_CheckpointID c = cr_CheckpointID ref
      then Some (c\<lparr>cr_WorkingMemoryKeys := mergeStringSets (cr_WorkingMemoryKeys c) (cr_WorkingMemoryKeys ref)\<rparr> # cs)
      else map_option ((#) c) (updateFirstCheckpoint ref cs))"

definition unionCheckpoints :: "CheckpointReference list \<Rightarrow> CheckpointReference list \<Rightarrow> CheckpointReference list" where
  "unionCheckpoints refs =
     fold (\<lambda>ref out. case updateFirstCheckpoint ref (rev out) of Some out' \<Rightarrow> rev out' | None \<Rightarrow> out @ [ref]) refs"

definition unionWorkingStep ::
  "string \<Rightarrow> string list \<Rightarrow> WorkingMemoryReference \<Rightarrow> WorkingMemoryReference list \<times> string list \<Rightarrow>
   WorkingMemoryReference list \<times> string list" where
  "unionWorkingStep taskID deletes ref st =
     (case st of (out, seen) \<Rightarrow>
        if wr_TaskID ref = taskID \<and> wr_Key ref \<in> set deletes then (out, seen)
        else if workingMemoryReferenceKey ref \<in> set seen then (out, seen)
        else (out @ [ref], workingMemoryReferenceKey ref # seen))"

definition dropWorkingRefs :: "string \<Rightarrow> string list \<Rightarrow> WorkingMemoryReference list \<Rightarrow> WorkingMemoryReference list \<times> string list" where
  "dropWorkingRefs taskID deletes refs =
     (let gone = (\<lambda>ref. wr_TaskID ref = taskID \<and> wr_Key ref \<in> set deletes) in
      (filter (\<lambda>ref. \<not> gone ref) refs,
       filter (\<lambda>k. k \<notin> workingMemoryReferenceKey ` set (filter gone refs)) (map workingMemoryReferenceKey refs)))"

definition unitRefs :: "BranchMergeUnit \<Rightarrow> ReferenceBundle" where
  "unitRefs u = (case bu_Env u of None \<Rightarrow> noReferences | Some e \<Rightarrow> ev_References e)"

definition mergeBranchReferencesLocked :: "BranchMergeUnit list \<Rightarrow> string list \<Rightarrow> string \<Rightarrow> ReferenceBundle \<Rightarrow> ReferenceBundle" where
  "mergeBranchReferencesLocked units deletes taskID b =
     \<lparr>rb_StreamedContext = sort_key ck_Rank (fold (\<lambda>u. unionChunks (rb_StreamedContext (unitRefs u))) units (rb_StreamedContext b)),
      rb_WorkingMemory =
        fst (fold (\<lambda>u. fold (unionWorkingStep taskID deletes) (rb_WorkingMemory (unitRefs u))) units
               (dropWorkingRefs taskID deletes (rb_WorkingMemory b))),
      rb_Retrieval = fold (\<lambda>u. unionRetrievals (rb_Retrieval (unitRefs u))) units (rb_Retrieval b),
      rb_Checkpoints =
        map (\<lambda>c. c\<lparr>cr_WorkingMemoryKeys := dedupeStrings (cr_WorkingMemoryKeys c)\<rparr>)
          (fold (\<lambda>u. unionCheckpoints (rb_Checkpoints (unitRefs u))) units (rb_Checkpoints b))\<rparr>"

definition installData :: "mergeSets \<Rightarrow> (string \<times> goval) list option \<Rightarrow> (string \<times> goval) list option" where
  "installData s d =
     (let writes = fold (\<lambda>(k, v). AList.update k v) (mx_writes s) in
      case d of
        None \<Rightarrow> if mx_writes s = [] then None else Some (writes [])
      | Some d \<Rightarrow> Some (writes (fold AList.delete (mx_deletes s) d)))"

definition installOrigins :: "mergeSets \<Rightarrow> (string \<times> string) list \<Rightarrow> (string \<times> string) list" where
  "installOrigins s os =
     fold (\<lambda>(k, v). AList.update k (case map_of (mx_originWrites s) k of Some o' \<Rightarrow> o' | None \<Rightarrow> []))
       (mx_writes s) (fold AList.delete (mx_deletes s) os)"

definition mergeStats :: "BranchMergeUnit list \<Rightarrow> mergeSets \<Rightarrow> Envelope \<Rightarrow> ReferenceBundle \<Rightarrow> MergeStats" where
  "mergeStats units s e refs =
     \<lparr>ms_UnitsApplied = length units,
      ms_KeysWritten = length (mx_writes s),
      ms_KeysDeleted = length (filter (\<lambda>k. map_of (dataOf e) k \<noteq> None) (mx_deletes s)),
      ms_KeysSkipped = mx_skipped s,
      ms_Conflicts = sort (map fst (filter (\<lambda>(k, n). n > 1) (mx_touched s))),
      ms_RefsStreamed = length (rb_StreamedContext refs) - length (rb_StreamedContext (ev_References e)),
      ms_RefsRetrieval = length (rb_Retrieval refs) - length (rb_Retrieval (ev_References e))\<rparr>"

definition noStats :: MergeStats where
  "noStats = \<lparr>ms_UnitsApplied = 0, ms_KeysWritten = 0, ms_KeysDeleted = 0, ms_KeysSkipped = 0, ms_Conflicts = [],
     ms_RefsStreamed = 0, ms_RefsRetrieval = 0\<rparr>"

definition ApplyBranchMerges :: "BranchMergeUnit list \<Rightarrow> Envelope \<Rightarrow> (goerr + MergeStats) \<times> Envelope" where
  "ApplyBranchMerges units e =
     (case validateBranchOrder 1 units of
        Some err \<Rightarrow> (Inl err, e)
      | None \<Rightarrow>
          if units = [] then (Inr noStats, e)
          else
            let s = fold mergeUnit units noMerge;
                refs = mergeBranchReferencesLocked units (mx_deletes s) (ev_TaskID e) (ev_References e)
            in (Inr (mergeStats units s e refs),
                e\<lparr>ev_WorkingData := installData s (ev_WorkingData e),
                  ev_Origins := installOrigins s (ev_Origins e), ev_References := refs\<rparr>))"

text \<open>\<open>DeduplicateChunkReferences\<close>: the best-ranked reference of each chunk, by rank; \<open>ord\<close> is the order in which the map is walked.\<close>

definition bestRefs :: "ChunkReference list \<Rightarrow> (string \<times> ChunkReference) list" where
  "bestRefs refs =
     fold (\<lambda>ref best. case map_of best (ck_ChunkID ref) of
             Some existing \<Rightarrow> if ck_Rank ref < ck_Rank existing then AList.update (ck_ChunkID ref) ref best else best
           | None \<Rightarrow> AList.update (ck_ChunkID ref) ref best) refs []"

definition DeduplicateChunkReferences ::
  "((string \<times> ChunkReference) list \<Rightarrow> (string \<times> ChunkReference) list) \<Rightarrow> ChunkReference list \<Rightarrow> ChunkReference list" where
  "DeduplicateChunkReferences ord refs = sort_key ck_Rank (map snd (ord (bestRefs refs)))"


section \<open>What a merge does to a key\<close>

text \<open>
  A unit says one of three things about a key: nothing, that the branch deleted it, or the value and
  origin the branch left.
\<close>

datatype keyEffect = KDelete | KWrite goval string

definition unitValues :: "BranchMergeUnit \<Rightarrow> (string \<times> goval) list" where
  "unitValues u = (case bu_Env u of None \<Rightarrow> [] | Some e \<Rightarrow> dataOf e)"

definition unitOrigin :: "BranchMergeUnit \<Rightarrow> string \<Rightarrow> string" where
  "unitOrigin u k = (case bu_Env u of None \<Rightarrow> OriginLLM | Some e \<Rightarrow> OriginOf e k)"

definition unitEffect :: "BranchMergeUnit \<Rightarrow> string \<Rightarrow> keyEffect option" where
  "unitEffect u k =
     (if k = [] then None
      else case (if k \<in> set (bd_WorkingMemoryAdded (bu_Delta u) @ bd_WorkingMemoryModified (bu_Delta u))
                 then map_of (unitValues u) k else None) of
        Some v \<Rightarrow> Some (KWrite v (unitOrigin u k))
      | None \<Rightarrow> if k \<in> set (bd_WorkingMemoryDeleted (bu_Delta u)) then Some KDelete else None)"

definition resolves :: "mergeSets \<Rightarrow> string \<Rightarrow> keyEffect option \<Rightarrow> bool" where
  "resolves s k eff \<longleftrightarrow>
     (case eff of
        None \<Rightarrow> map_of (mx_writes s) k = None \<and> k \<notin> set (mx_deletes s) \<and> map_of (mx_originWrites s) k = None
      | Some KDelete \<Rightarrow> map_of (mx_writes s) k = None \<and> k \<in> set (mx_deletes s) \<and> map_of (mx_originWrites s) k = None
      | Some (KWrite v origin) \<Rightarrow>
          map_of (mx_writes s) k = Some v \<and> k \<notin> set (mx_deletes s) \<and>
          (\<exists>o'. map_of (mx_originWrites s) k = Some o' \<and> originRestrictiveness origin \<le> originRestrictiveness o'))"

lemma set_sortedUniqueStrings [simp]: "set (sortedUniqueStrings vs) = set vs - {[]}"
  by (auto simp: sortedUniqueStrings_def)

lemma MostRestrictive_ge [simp]:
  "originRestrictiveness a \<le> originRestrictiveness (MostRestrictive a b)"
  "originRestrictiveness b \<le> originRestrictiveness (MostRestrictive a b)"
  by (auto simp: MostRestrictive_def)

lemma resolves_mergeDelete:
  "resolves s k eff \<Longrightarrow> resolves (fold mergeDelete ks s) k (if k \<in> set ks then Some KDelete else eff)"
proof (induction ks arbitrary: s eff)
  case (Cons a ks)
  have "resolves (mergeDelete a s) k (if k = a then Some KDelete else eff)"
    using Cons.prems by (auto simp: resolves_def mergeDelete_def split: option.splits keyEffect.splits)
  from Cons.IH [OF this] show ?case by (auto split: if_splits)
qed simp

lemma resolves_mergeWrite1:
  assumes "resolves s k eff"
  shows "resolves (mergeWrite vs os a s) k
    (if k = a then (case map_of vs k of Some v \<Rightarrow> Some (KWrite v (case map_of os k of Some o' \<Rightarrow> o' | None \<Rightarrow> OriginLLM)) | None \<Rightarrow> eff) else eff)"
  using assms by (auto simp: resolves_def mergeWrite_def Let_def split: option.splits keyEffect.splits)

lemma resolves_mergeWrite:
  "resolves s k eff \<Longrightarrow> resolves (fold (mergeWrite vs os) ks s) k
     (if k \<in> set ks then (case map_of vs k of Some v \<Rightarrow> Some (KWrite v (case map_of os k of Some o' \<Rightarrow> o' | None \<Rightarrow> OriginLLM)) | None \<Rightarrow> eff) else eff)"
proof (induction ks arbitrary: s eff)
  case (Cons a ks)
  from Cons.IH [OF resolves_mergeWrite1 [OF Cons.prems, of vs os a]] show ?case
    by (cases "k = a"; cases "map_of vs k"; cases "k \<in> set ks") simp_all
qed simp

lemma resolves_mergeUnit:
  assumes "resolves s k eff"
  shows "resolves (mergeUnit u s) k (case unitEffect u k of None \<Rightarrow> eff | Some x \<Rightarrow> Some x)"
proof -
  let ?ds = "sortedUniqueStrings (bd_WorkingMemoryDeleted (bu_Delta u))"
  let ?ws = "sortedUniqueStrings (bd_WorkingMemoryAdded (bu_Delta u) @ bd_WorkingMemoryModified (bu_Delta u))"
  let ?s = "fold mergeDelete ?ds s"
  have d: "resolves ?s k (if k \<in> set ?ds then Some KDelete else eff)"
    by (rule resolves_mergeDelete [OF assms])
  show ?thesis
  proof (cases "bu_Env u")
    case None
    with d show ?thesis by (auto simp: mergeUnit_def unitEffect_def unitValues_def split: if_splits)
  next
    case (Some e)
    show ?thesis
    proof (cases "ev_WorkingData e")
      case None
      with d Some show ?thesis by (auto simp: mergeUnit_def unitEffect_def unitValues_def dataOf_def split: if_splits)
    next
      case (Some vs)
      from resolves_mergeWrite [OF d, of vs "ev_Origins e" ?ws] \<open>bu_Env u = Some e\<close> Some show ?thesis
        by (auto simp: mergeUnit_def unitEffect_def unitValues_def unitOrigin_def OriginOf_def dataOf_def split: if_splits option.splits)
    qed
  qed
qed

definition lastEffect :: "BranchMergeUnit list \<Rightarrow> string \<Rightarrow> keyEffect option" where
  "lastEffect us k = fold (\<lambda>u acc. case unitEffect u k of None \<Rightarrow> acc | Some x \<Rightarrow> Some x) us None"

lemma resolves_units: "resolves (fold mergeUnit us noMerge) k (lastEffect us k)"
proof (induction us rule: rev_induct)
  case Nil
  show ?case by (simp add: resolves_def noMerge_def lastEffect_def)
next
  case (snoc u us)
  from resolves_mergeUnit [OF snoc, of u] show ?case unfolding lastEffect_def by simp
qed

lemma distinct_mergeUnit: "distinct (gokeys (mx_writes s)) \<Longrightarrow> distinct (gokeys (mx_writes (mergeUnit u s)))"
proof -
  have d: "distinct (gokeys (mx_writes s)) \<Longrightarrow> distinct (gokeys (mx_writes (fold mergeDelete ks s)))" for ks s
    by (induction ks arbitrary: s) (auto simp: mergeDelete_def distinct_delete)
  have w: "distinct (gokeys (mx_writes s)) \<Longrightarrow> distinct (gokeys (mx_writes (fold (mergeWrite vs os) ks s)))" for ks vs os s
    by (induction ks arbitrary: s) (auto simp: mergeWrite_def Let_def distinct_update split: option.splits)
  assume "distinct (gokeys (mx_writes s))"
  then show ?thesis by (simp add: mergeUnit_def Let_def d w split: option.splits)
qed

lemma distinct_writes: "distinct (gokeys (mx_writes (fold mergeUnit us noMerge)))"
  by (induction us rule: rev_induct) (auto simp: noMerge_def distinct_mergeUnit)

lemma map_of_fold_update:
  "distinct (gokeys ws) \<Longrightarrow> map_of (fold (\<lambda>(k, v). AList.update k (f k v)) ws d) k =
     (case map_of ws k of Some v \<Rightarrow> Some (f k v) | None \<Rightarrow> map_of d k)"
proof (induction ws arbitrary: d)
  case (Cons w ws)
  then show ?case by (cases w) (auto split: option.splits dest: map_of_Some_key)
qed simp

lemma map_of_fold_delete: "map_of (fold AList.delete ks d) k = (if k \<in> set ks then None else map_of d k)"
  by (induction ks arbitrary: d) auto

lemma lookup_installData:
  assumes "distinct (gokeys (mx_writes s))"
  shows "map_of (case installData s d of None \<Rightarrow> [] | Some d \<Rightarrow> d) k =
    (case map_of (mx_writes s) k of Some v \<Rightarrow> Some v
     | None \<Rightarrow> if k \<in> set (mx_deletes s) then None else map_of (case d of None \<Rightarrow> [] | Some d \<Rightarrow> d) k)"
  using map_of_fold_update [OF assms, of "\<lambda>k v. v"]
  by (auto simp: installData_def Let_def map_of_fold_delete split: option.splits)


section \<open>Fork and join\<close>

text \<open>The units of a fan-out: the branches in declaration order, each with its delta relative to the parent.\<close>

definition forkUnits :: "Envelope \<Rightarrow> (string \<times> Envelope) list \<Rightarrow> BranchMergeUnit list" where
  "forkUnits p cs =
     map (\<lambda>(i, bid, c). \<lparr>bu_Index = int i, bu_ID = bid, bu_Delta = ComputeBranchDelta p c, bu_Env = Some c\<rparr>) (enumerate 0 cs)"

text \<open>The keys of a Go map are distinct.\<close>

definition keys_ok :: "Envelope \<Rightarrow> bool" where
  "keys_ok e \<longleftrightarrow> distinct (gokeys (dataOf e)) \<and> distinct (gokeys (ev_Origins e))"

lemma ordered_units: "sorted_wrt (<) (map bu_Index us) \<Longrightarrow> validateBranchOrder i us = None"
  by (induction i us rule: validateBranchOrder.induct) auto

lemma forkUnits_snoc:
  "forkUnits p (cs @ [(bid, c)]) =
     forkUnits p cs @ [\<lparr>bu_Index = int (length cs), bu_ID = bid, bu_Delta = ComputeBranchDelta p c, bu_Env = Some c\<rparr>]"
  by (simp add: forkUnits_def enumerate_append_eq)

lemma forkUnits_index: "map bu_Index (forkUnits p cs) = map int [0..<length cs]"
  by (induction cs rule: rev_induct) (auto simp: forkUnits_snoc, simp add: forkUnits_def)

lemma forkUnits_ordered: "validateBranchOrder i (forkUnits p cs) = None"
  by (rule ordered_units) (simp add: forkUnits_index sorted_wrt_map)

lemma effect_fork:
  assumes "distinct (gokeys (dataOf c))"
  shows "unitEffect \<lparr>bu_Index = i, bu_ID = bid, bu_Delta = ComputeBranchDelta p c, bu_Env = Some c\<rparr> k =
    (if k = [] \<or> getWorkingValue c k = getWorkingValue p k then None
     else case getWorkingValue c k of Some v \<Rightarrow> Some (KWrite v (OriginOf c k)) | None \<Rightarrow> Some KDelete)"
proof -
  have in_keys: "k \<in> set (gokeys m) \<longleftrightarrow> (\<exists>v. map_of m k = Some v)" for m :: "(string \<times> goval) list"
    by (metis map_of_None_keys not_Some_eq)
  have pair: "(k, v) \<in> set (dataOf c) \<longleftrightarrow> map_of (dataOf c) k = Some v" for v
    using map_of_eq_Some_iff [OF assms, of k v] by auto
  let ?d = "ComputeBranchDelta p c"
  have a: "k \<in> set (bd_WorkingMemoryAdded ?d) \<longleftrightarrow> map_of (dataOf p) k = None \<and> (\<exists>v. map_of (dataOf c) k = Some v)"
    using in_keys [of "dataOf c"] by (simp add: ComputeBranchDelta_def) blast
  have m: "k \<in> set (bd_WorkingMemoryModified ?d) \<longleftrightarrow>
      (\<exists>old v. map_of (dataOf p) k = Some old \<and> map_of (dataOf c) k = Some v \<and> old \<noteq> v)"
    using pair by (auto simp: ComputeBranchDelta_def image_iff split: option.splits)
  have d: "k \<in> set (bd_WorkingMemoryDeleted ?d) \<longleftrightarrow> map_of (dataOf c) k = None \<and> (\<exists>v. map_of (dataOf p) k = Some v)"
    using in_keys [of "dataOf c"] in_keys [of "dataOf p"] by (simp add: ComputeBranchDelta_def) (metis not_Some_eq)
  show ?thesis
    by (cases "map_of (dataOf c) k"; cases "map_of (dataOf p) k")
      (simp_all add: unitEffect_def a m d unitValues_def unitOrigin_def getWorkingValue_def)
qed

text \<open>The last branch, in declaration order, that left the key different from the parent; what branches do to the empty key is not merged.\<close>

definition lastChange :: "Envelope \<Rightarrow> (string \<times> Envelope) list \<Rightarrow> string \<Rightarrow> Envelope option" where
  "lastChange p cs k = (if k = [] then None else find (\<lambda>c. getWorkingValue c k \<noteq> getWorkingValue p k) (rev (map snd cs)))"

lemma lastEffect_fork:
  assumes "\<forall>(bid, c) \<in> set cs. keys_ok c"
  shows "lastEffect (forkUnits p cs) k =
    (case lastChange p cs k of
       None \<Rightarrow> None
     | Some c \<Rightarrow> (case getWorkingValue c k of Some v \<Rightarrow> Some (KWrite v (OriginOf c k)) | None \<Rightarrow> Some KDelete))"
  using assms
proof (induction cs rule: rev_induct)
  case Nil
  show ?case by (simp add: lastEffect_def forkUnits_def lastChange_def)
next
  case (snoc x cs)
  obtain bid c where x: "x = (bid, c)" by (cases x)
  with snoc.prems have "distinct (gokeys (dataOf c))" by (simp add: keys_ok_def)
  from effect_fork [OF this] snoc x show ?case
    by (auto simp: lastEffect_def forkUnits_snoc lastChange_def split: option.splits)
qed

lemma ApplyBranchMerges_fork:
  "snd (ApplyBranchMerges (forkUnits p cs) p) =
     (if cs = [] then p
      else let s = fold mergeUnit (forkUnits p cs) noMerge in
        p\<lparr>ev_WorkingData := installData s (ev_WorkingData p), ev_Origins := installOrigins s (ev_Origins p),
          ev_References := mergeBranchReferencesLocked (forkUnits p cs) (mx_deletes s) (ev_TaskID p) (ev_References p)\<rparr>)"
  "\<exists>stats. fst (ApplyBranchMerges (forkUnits p cs) p) = Inr stats"
proof -
  have "forkUnits p cs = [] \<longleftrightarrow> cs = []"
    by (cases cs rule: rev_cases) (auto simp: forkUnits_snoc, simp add: forkUnits_def)
  then show "snd (ApplyBranchMerges (forkUnits p cs) p) =
     (if cs = [] then p
      else let s = fold mergeUnit (forkUnits p cs) noMerge in
        p\<lparr>ev_WorkingData := installData s (ev_WorkingData p), ev_Origins := installOrigins s (ev_Origins p),
          ev_References := mergeBranchReferencesLocked (forkUnits p cs) (mx_deletes s) (ev_TaskID p) (ev_References p)\<rparr>)"
    "\<exists>stats. fst (ApplyBranchMerges (forkUnits p cs) p) = Inr stats"
    by (auto simp: ApplyBranchMerges_def forkUnits_ordered Let_def)
qed

lemma dataOf_update: "dataOf (e\<lparr>ev_WorkingData := d, ev_Origins := os, ev_References := rs\<rparr>) = (case d of None \<Rightarrow> [] | Some d \<Rightarrow> d)"
  by (simp add: dataOf_def)

lemma fork_value:
  assumes "\<forall>(bid, c) \<in> set cs. keys_ok c"
  shows "getWorkingValue (snd (ApplyBranchMerges (forkUnits p cs) p)) k =
    (case lastChange p cs k of None \<Rightarrow> getWorkingValue p k | Some c \<Rightarrow> getWorkingValue c k)"
proof (cases "cs = []")
  case False
  let ?s = "fold mergeUnit (forkUnits p cs) noMerge"
  from resolves_units [of "forkUnits p cs" k] have r: "resolves ?s k (lastEffect (forkUnits p cs) k)" .
  from False show ?thesis
    using r unfolding lastEffect_fork [OF assms]
    by (auto simp: ApplyBranchMerges_fork getWorkingValue_def Let_def dataOf_update lookup_installData [OF distinct_writes] resolves_def
        dataOf_def [symmetric] split: option.splits)
qed (simp add: ApplyBranchMerges_fork lastChange_def)

lemma fork_origin:
  assumes "\<forall>(bid, c) \<in> set cs. keys_ok c" and "lastChange p cs k = Some c" and "getWorkingValue c k \<noteq> None"
  shows "originRestrictiveness (OriginOf c k) \<le> originRestrictiveness (OriginOf (snd (ApplyBranchMerges (forkUnits p cs) p)) k)"
proof -
  let ?s = "fold mergeUnit (forkUnits p cs) noMerge"
  from assms(3) obtain v where v: "getWorkingValue c k = Some v" by blast
  from resolves_units [of "forkUnits p cs" k] assms(2) v
  have r: "map_of (mx_writes ?s) k = Some v" "\<exists>o'. map_of (mx_originWrites ?s) k = Some o' \<and> originRestrictiveness (OriginOf c k) \<le> originRestrictiveness o'"
    unfolding lastEffect_fork [OF assms(1)] by (auto simp: resolves_def)
  from assms(2) have "cs \<noteq> []" by (auto simp: lastChange_def split: if_splits)
  with r map_of_fold_update [OF distinct_writes, of "\<lambda>k v. case map_of (mx_originWrites ?s) k of Some o' \<Rightarrow> o' | None \<Rightarrow> []" "forkUnits p cs"]
  show ?thesis by (auto simp: ApplyBranchMerges_fork Let_def OriginOf_def installOrigins_def)
qed


section \<open>Coherence of data, origins and references\<close>

text \<open>
  The reference tier is coherent with the working data: every reference is to the envelope's own
  task, there is exactly one per key, and keys, origins and references speak of the same keys.
\<close>

definition refKeys :: "Envelope \<Rightarrow> string list" where
  "refKeys e = map wr_Key (rb_WorkingMemory (ev_References e))"

definition coherent :: "Envelope \<Rightarrow> bool" where
  "coherent e \<longleftrightarrow> keys_ok e \<and> (\<forall>ref \<in> set (rb_WorkingMemory (ev_References e)). wr_TaskID ref = ev_TaskID e) \<and>
     distinct (refKeys e) \<and> set (refKeys e) = set (gokeys (dataOf e)) \<and>
     set (gokeys (ev_Origins e)) = set (gokeys (dataOf e)) \<and> [] \<notin> set (gokeys (dataOf e))"

lemma image_delete [simp]: "fst ` set (AList.delete k d) = fst ` set d - {k}"
  using set_gokeys_delete [of k d] by simp

lemma image_update [simp]: "fst ` set (AList.update k v d) = insert k (fst ` set d)"
  using set_gokeys_update [of k v d] by simp

lemma touchRef_spec:
  assumes "\<forall>ref \<in> set refs. wr_TaskID ref = t" and "distinct (map wr_Key refs)"
    and "\<And>ref. ref \<in> set refs \<Longrightarrow> wr_TaskID ref = t \<Longrightarrow> wr_Key ref = k \<Longrightarrow> wr_TaskID (f ref) = t \<and> wr_Key (f ref) = k"
    and "wr_TaskID fresh = t" and "wr_Key fresh = k"
  shows "(\<forall>ref \<in> set (touchRef t k f fresh refs). wr_TaskID ref = t) \<and> distinct (map wr_Key (touchRef t k f fresh refs)) \<and>
    set (map wr_Key (touchRef t k f fresh refs)) = insert k (set (map wr_Key refs))"
  using assms by (induction refs) auto

lemma coherent_install:
  assumes "coherent e" and "k \<noteq> []"
    and "\<And>ref. wr_TaskID (f ref) = wr_TaskID ref \<and> wr_Key (f ref) = wr_Key ref"
  shows "coherent (e\<lparr>ev_WorkingData := Some (AList.update k v (dataOf e)), ev_Origins := AList.update k origin (ev_Origins e),
    ev_References := (ev_References e)\<lparr>rb_WorkingMemory :=
      touchRef (ev_TaskID e) k f (freshRef (ev_TaskID e) k cls now) (rb_WorkingMemory (ev_References e))\<rparr>\<rparr>)"
proof -
  have "(\<forall>ref \<in> set (touchRef (ev_TaskID e) k f (freshRef (ev_TaskID e) k cls now) (rb_WorkingMemory (ev_References e))).
        wr_TaskID ref = ev_TaskID e) \<and>
      distinct (map wr_Key (touchRef (ev_TaskID e) k f (freshRef (ev_TaskID e) k cls now) (rb_WorkingMemory (ev_References e)))) \<and>
      set (map wr_Key (touchRef (ev_TaskID e) k f (freshRef (ev_TaskID e) k cls now) (rb_WorkingMemory (ev_References e)))) =
        insert k (set (map wr_Key (rb_WorkingMemory (ev_References e))))"
    using assms by (intro touchRef_spec) (auto simp: coherent_def refKeys_def freshRef_def)
  then show ?thesis
    using assms by (auto simp: coherent_def refKeys_def keys_ok_def dataOf_def distinct_update gomap)
qed

lemma coherent_Set: "coherent e \<Longrightarrow> k \<noteq> [] \<Longrightarrow> coherent (SetWorkingValueWithOrigin now k v cls origin e)"
  by (simp add: SetWorkingValueWithOrigin_def coherent_install)

lemma coherent_Next: "coherent e \<Longrightarrow> k \<noteq> [] \<Longrightarrow> coherent (snd (NextSequence now k e))"
  by (simp add: NextSequence_def Let_def coherent_install)

lemma distinct_map_filter_key: "distinct (map f xs) \<Longrightarrow> distinct (map f (filter P xs))"
  by (induction xs) auto

lemma coherent_Delete: "coherent e \<Longrightarrow> coherent (DeleteWorkingValue k e)"
  by (auto simp: DeleteWorkingValue_def coherent_def keys_ok_def refKeys_def dataOf_def distinct_delete gomap distinct_map_filter_key
      split: option.splits)

lemma coherent_Clone: "coherent e \<Longrightarrow> coherent (Clone e)"
  by (simp add: Clone_def coherent_def keys_ok_def refKeys_def dataOf_def)

lemma set_fold_delete: "fst ` set (fold AList.delete ks d) = fst ` set d - set ks"
  by (induction ks arbitrary: d) auto

lemma fold_delete_all: "fst ` set d \<subseteq> set ks \<Longrightarrow> fold AList.delete ks d = []"
  by (metis Diff_eq_empty_iff image_is_empty set_empty set_fold_delete)

lemma distinct_fold_delete: "distinct (gokeys d) \<Longrightarrow> distinct (gokeys (fold AList.delete ks d))"
  by (induction ks arbitrary: d) (auto simp: distinct_delete)

lemma coherent_Clear: "coherent e \<Longrightarrow> coherent (ClearWorkingData e)"
proof -
  assume c: "coherent e"
  then have "WorkingMemoryKeys e = refKeys e"
    by (auto simp: WorkingMemoryKeys_def coherent_def refKeys_def intro!: arg_cong [where f = "map wr_Key"] filter_True)
  with c show ?thesis
    by (auto simp: ClearWorkingData_def coherent_def keys_ok_def refKeys_def dataOf_def set_fold_delete fold_delete_all distinct_fold_delete distinct_map_filter_key
        split: option.splits)
qed

lemma filter_keys: "fst ` {x \<in> M. case x of (k, v) \<Rightarrow> P k} = {k \<in> fst ` M. P k}"
  by force

lemma Handoff_sel:
  "ev_WorkingData (HandoffSnapshot policy e) = Some (if hp_PreserveWorkingMemory policy then filter (\<lambda>(k, v). handoffKeeps policy k) (dataOf e) else [])"
  "ev_Origins (HandoffSnapshot policy e) =
     (if hp_PreserveWorkingMemory policy
      then filter (\<lambda>(k, o'). k \<in> fst ` set (filter (\<lambda>(k, v). handoffKeeps policy k) (dataOf e))) (ev_Origins e) else [])"
  "rb_WorkingMemory (ev_References (HandoffSnapshot policy e)) =
     (if hp_PreserveWorkingMemory policy
      then filter (\<lambda>ref. wr_TaskID ref = ev_TaskID e \<and> handoffKeeps policy (wr_Key ref)) (rb_WorkingMemory (ev_References e)) else [])"
  "ev_TaskID (HandoffSnapshot policy e) = ev_TaskID e"
  by (simp_all add: HandoffSnapshot_def Let_def cloneWorkingDataForHandoff_def
      cloneWorkingMemoryRefsForHandoff_def)

lemma coherent_Handoff:
  assumes "coherent e"
  shows "coherent (HandoffSnapshot policy e)"
proof -
  have "wr_Key ` {ref \<in> set (rb_WorkingMemory (ev_References e)). wr_TaskID ref = ev_TaskID e \<and> handoffKeeps policy (wr_Key ref)} =
      {k \<in> fst ` set (dataOf e). handoffKeeps policy k}"
  proof -
    have "wr_Key ` {ref \<in> set (rb_WorkingMemory (ev_References e)). handoffKeeps policy (wr_Key ref)} =
        {k \<in> wr_Key ` set (rb_WorkingMemory (ev_References e)). handoffKeeps policy k}" by auto
    moreover have "{ref \<in> set (rb_WorkingMemory (ev_References e)). wr_TaskID ref = ev_TaskID e \<and> handoffKeeps policy (wr_Key ref)} =
        {ref \<in> set (rb_WorkingMemory (ev_References e)). handoffKeeps policy (wr_Key ref)}"
      using assms by (auto simp: coherent_def)
    ultimately show ?thesis using assms by (simp add: coherent_def refKeys_def)
  qed
  with assms show ?thesis
    by (auto simp: coherent_def keys_ok_def refKeys_def Handoff_sel dataOf_def [of "HandoffSnapshot policy e"] filter_keys distinct_map_filter_key)
qed


lemma image_fold_update: "fst ` set (fold (\<lambda>(k, v). AList.update k (f k v)) ws d) = fst ` set d \<union> fst ` set ws"
  by (induction ws arbitrary: d) (auto simp: split_beta)

lemma distinct_fold_update: "distinct (gokeys d) \<Longrightarrow> distinct (gokeys (fold (\<lambda>(k, v). AList.update k (f k v)) ws d))"
  by (induction ws arbitrary: d) (auto simp: split_beta distinct_update)

lemma image_fold_mergeOrigin:
  "set ks \<subseteq> fst ` set others \<Longrightarrow> fst ` set (fold (mergeOrigin others) ks os) = fst ` set os \<union> set ks"
proof (induction ks arbitrary: os)
  case (Cons k ks)
  then obtain origin where "map_of others k = Some origin"
    by (metis list.set_intros(1) map_of_None_keys not_Some_eq set_map subsetD)
  with Cons show ?case by (simp add: mergeOrigin_def)
qed simp

lemma distinct_fold_mergeOrigin: "distinct (gokeys os) \<Longrightarrow> distinct (gokeys (fold (mergeOrigin others) ks os))"
  by (induction ks arbitrary: os) (auto simp: mergeOrigin_def distinct_update distinct_delete split: option.splits)

lemma fold_mergeRef:
  assumes "\<forall>ref \<in> set rs. wr_TaskID ref = t" and "\<forall>ref \<in> set refs. wr_TaskID ref = t" and "distinct (map wr_Key refs)"
  shows "(\<forall>ref \<in> set (fold mergeRef rs refs). wr_TaskID ref = t) \<and> distinct (map wr_Key (fold mergeRef rs refs)) \<and>
    set (map wr_Key (fold mergeRef rs refs)) = set (map wr_Key refs) \<union> set (map wr_Key rs)"
  using assms
proof (induction rs arbitrary: refs)
  case (Cons r rs)
  have "(\<forall>ref \<in> set (mergeRef r refs). wr_TaskID ref = t) \<and> distinct (map wr_Key (mergeRef r refs)) \<and>
      set (map wr_Key (mergeRef r refs)) = insert (wr_Key r) (set (map wr_Key refs))"
    (is ?s) using Cons.prems unfolding mergeRef_def by (simp only: list.set_intros(1)) (intro touchRef_spec; simp)
  then have "(\<forall>ref \<in> set (fold mergeRef rs (mergeRef r refs)). wr_TaskID ref = t) \<and> distinct (map wr_Key (fold mergeRef rs (mergeRef r refs))) \<and>
      set (map wr_Key (fold mergeRef rs (mergeRef r refs))) = set (map wr_Key (mergeRef r refs)) \<union> set (map wr_Key rs)"
    using Cons.prems by (intro Cons.IH) auto
  with \<open>?s\<close> show ?case by auto
qed simp

lemma coherent_Merge:
  assumes "coherent e" and "coherent other" and "ev_TaskID other = ev_TaskID e"
  shows "coherent (Envelope_Merge other e)"
proof -
  have "(\<forall>ref \<in> set (fold mergeRef (rb_WorkingMemory (ev_References other)) (rb_WorkingMemory (ev_References e))). wr_TaskID ref = ev_TaskID e) \<and>
    distinct (map wr_Key (fold mergeRef (rb_WorkingMemory (ev_References other)) (rb_WorkingMemory (ev_References e)))) \<and>
    set (map wr_Key (fold mergeRef (rb_WorkingMemory (ev_References other)) (rb_WorkingMemory (ev_References e)))) =
      set (map wr_Key (rb_WorkingMemory (ev_References e))) \<union> set (map wr_Key (rb_WorkingMemory (ev_References other)))"
    using assms by (intro fold_mergeRef) (auto simp: coherent_def refKeys_def)
  moreover have "distinct (gokeys (fold (\<lambda>(k, v). AList.update k v) (dataOf other) (dataOf e)))"
    "fst ` set (fold (\<lambda>(k, v). AList.update k v) (dataOf other) (dataOf e)) = fst ` set (dataOf e) \<union> fst ` set (dataOf other)"
    using assms distinct_fold_update [of "dataOf e" "\<lambda>k v. v"] image_fold_update [of "\<lambda>k v. v" "dataOf other" "dataOf e"]
    by (auto simp: coherent_def keys_ok_def)
  moreover have "distinct (gokeys (fold (mergeOrigin (ev_Origins other)) (gokeys (dataOf other)) (ev_Origins e)))"
    "fst ` set (fold (mergeOrigin (ev_Origins other)) (gokeys (dataOf other)) (ev_Origins e)) = fst ` set (ev_Origins e) \<union> fst ` set (dataOf other)"
    using assms by (auto simp: coherent_def keys_ok_def image_fold_mergeOrigin distinct_fold_mergeOrigin)
  ultimately show ?thesis
    using assms by (simp add: Envelope_Merge_def coherent_def keys_ok_def refKeys_def dataOf_update)
qed

lemma unionWorking_fold:
  assumes "\<forall>ref \<in> set rs. wr_TaskID ref = t" and "\<forall>ref \<in> set out. wr_TaskID ref = t" and "distinct (map wr_Key out)"
    and "set seen = workingMemoryReferenceKey ` set out" and "fold (unionWorkingStep t ds) rs (out, seen) = (out', seen')"
  shows "(\<forall>ref \<in> set out'. wr_TaskID ref = t) \<and> distinct (map wr_Key out') \<and>
    set (map wr_Key out') = set (map wr_Key out) \<union> (set (map wr_Key rs) - set ds)"
  using assms
proof (induction rs arbitrary: out seen)
  case (Cons r rs)
  have key: "workingMemoryReferenceKey r \<in> set seen \<longleftrightarrow> wr_Key r \<in> set (map wr_Key out)"
    using Cons.prems by (auto simp: workingMemoryReferenceKey_def image_iff)
  show ?case
  proof (cases "wr_Key r \<in> set ds \<or> wr_Key r \<in> set (map wr_Key out)")
    case True
    with Cons.prems key have "unionWorkingStep t ds r (out, seen) = (out, seen)" by (auto simp: unionWorkingStep_def)
    with Cons.IH [of out seen] Cons.prems True show ?thesis by auto
  next
    case False
    with Cons.prems key have "unionWorkingStep t ds r (out, seen) = (out @ [r], workingMemoryReferenceKey r # seen)"
      by (auto simp: unionWorkingStep_def)
    with Cons.IH [of "out @ [r]" "workingMemoryReferenceKey r # seen"] Cons.prems False show ?thesis by auto
  qed
qed simp

lemma fold_fold_concat: "fold (\<lambda>u. fold f (g u)) us st = fold f (concat (map g us)) st"
  by (induction us arbitrary: st) simp_all

lemma unitRefs_fork: "concat (map (\<lambda>u. rb_WorkingMemory (unitRefs u)) (forkUnits p cs)) = concat (map (\<lambda>(bid, c). rb_WorkingMemory (ev_References c)) cs)"
  by (induction cs rule: rev_induct) (auto simp: forkUnits_snoc unitRefs_def, simp add: forkUnits_def)


lemma distinct_fold_install: "distinct (gokeys d) \<Longrightarrow> distinct (gokeys (fold (\<lambda>(k, v). AList.update k v) ws d))"
  using distinct_fold_update [of d "\<lambda>k v. v"] by simp

lemma image_fold_install: "fst ` set (fold (\<lambda>(k, v). AList.update k v) ws d) = fst ` set d \<union> fst ` set ws"
  using image_fold_update [of "\<lambda>k v. v"] by simp

lemma image_key_diff: "f ` {x \<in> R. f x \<notin> D} = f ` R - D"
  by auto

lemma all_ref_keys:
  "\<forall>(bid, c) \<in> set cs. coherent c \<Longrightarrow>
     set (map wr_Key (concat (map (\<lambda>(bid, c). rb_WorkingMemory (ev_References c)) cs))) = (\<Union>(bid, c) \<in> set cs. set (gokeys (dataOf c)))"
proof (induction cs)
  case (Cons x cs)
  then have "set (map wr_Key (rb_WorkingMemory (ev_References (snd x)))) = set (gokeys (dataOf (snd x)))"
    by (auto simp: coherent_def refKeys_def split_beta)
  with Cons show ?case by (simp add: split_beta image_Un)
qed simp

lemma fork_refs:
  assumes "coherent p" and "\<forall>(bid, c) \<in> set cs. coherent c \<and> ev_TaskID c = ev_TaskID p"
    and "b = mergeBranchReferencesLocked (forkUnits p cs) ds (ev_TaskID p) (ev_References p)"
  shows "(\<forall>ref \<in> set (rb_WorkingMemory b). wr_TaskID ref = ev_TaskID p) \<and> distinct (map wr_Key (rb_WorkingMemory b)) \<and>
    set (map wr_Key (rb_WorkingMemory b)) =
      (set (gokeys (dataOf p)) - set ds) \<union> ((\<Union>(bid, c) \<in> set cs. set (gokeys (dataOf c))) - set ds)"
proof -
  let ?rs = "rb_WorkingMemory (ev_References p)" and ?t = "ev_TaskID p"
  let ?all = "concat (map (\<lambda>(bid, c). rb_WorkingMemory (ev_References c)) cs)"
  have task: "\<forall>ref \<in> set ?rs. wr_TaskID ref = ?t" using assms(1) by (simp add: coherent_def)
  have drop: "dropWorkingRefs ?t ds ?rs =
      (filter (\<lambda>ref. wr_Key ref \<notin> set ds) ?rs, snd (dropWorkingRefs ?t ds ?rs))"
    using task by (auto simp: dropWorkingRefs_def Let_def intro!: filter_cong)
  have seen: "set (snd (dropWorkingRefs ?t ds ?rs)) = workingMemoryReferenceKey ` set (filter (\<lambda>ref. wr_Key ref \<notin> set ds) ?rs)"
    using task by (auto simp: dropWorkingRefs_def Let_def workingMemoryReferenceKey_def image_iff)
  obtain out' seen' where f: "fold (unionWorkingStep ?t ds) ?all
      (filter (\<lambda>ref. wr_Key ref \<notin> set ds) ?rs, snd (dropWorkingRefs ?t ds ?rs)) = (out', seen')" by force
  have "(\<forall>ref \<in> set out'. wr_TaskID ref = ?t) \<and> distinct (map wr_Key out') \<and>
      set (map wr_Key out') = set (map wr_Key (filter (\<lambda>ref. wr_Key ref \<notin> set ds) ?rs)) \<union> (set (map wr_Key ?all) - set ds)"
    using assms(1,2) task seen f
    by (intro unionWorking_fold) (auto simp: coherent_def refKeys_def distinct_map_filter_key)
  moreover have "rb_WorkingMemory b = out'"
    using f drop by (simp add: assms(3) mergeBranchReferencesLocked_def fold_fold_concat unitRefs_fork)
  moreover have "set (map wr_Key (filter (\<lambda>ref. wr_Key ref \<notin> set ds) ?rs)) = set (gokeys (dataOf p)) - set ds"
    using assms(1) by (simp add: coherent_def refKeys_def image_key_diff)
  moreover have "set (map wr_Key ?all) = (\<Union>(bid, c) \<in> set cs. set (gokeys (dataOf c)))"
    using assms(2) by (intro all_ref_keys) auto
  ultimately show ?thesis by simp
qed

lemma in_keys_value: "k \<in> fst ` set (dataOf e) \<longleftrightarrow> getWorkingValue e k \<noteq> None"
  using map_of_None_keys [of "dataOf e" k] by (simp add: getWorkingValue_def)

lemma install_keys:
  assumes "distinct (gokeys (dataOf p))" and "distinct (gokeys (ev_Origins p))" and "set (gokeys (ev_Origins p)) = set (gokeys (dataOf p))"
  shows "distinct (gokeys (case installData s (ev_WorkingData p) of None \<Rightarrow> [] | Some d \<Rightarrow> d))"
    and "distinct (gokeys (installOrigins s (ev_Origins p)))"
    and "set (gokeys (case installData s (ev_WorkingData p) of None \<Rightarrow> [] | Some d \<Rightarrow> d)) =
      (set (gokeys (dataOf p)) - set (mx_deletes s)) \<union> set (gokeys (mx_writes s))"
    and "set (gokeys (installOrigins s (ev_Origins p))) = (set (gokeys (dataOf p)) - set (mx_deletes s)) \<union> set (gokeys (mx_writes s))"
proof -
  show "distinct (gokeys (case installData s (ev_WorkingData p) of None \<Rightarrow> [] | Some d \<Rightarrow> d))"
    using assms(1) by (auto simp: installData_def Let_def dataOf_def distinct_fold_delete distinct_fold_install split: option.splits)
  show "distinct (gokeys (installOrigins s (ev_Origins p)))"
    unfolding installOrigins_def using assms(2) by (intro distinct_fold_update distinct_fold_delete)
  show "set (gokeys (case installData s (ev_WorkingData p) of None \<Rightarrow> [] | Some d \<Rightarrow> d)) =
      (set (gokeys (dataOf p)) - set (mx_deletes s)) \<union> set (gokeys (mx_writes s))"
    by (auto simp: installData_def Let_def dataOf_def set_fold_delete image_fold_install split: option.splits)
  show "set (gokeys (installOrigins s (ev_Origins p))) = (set (gokeys (dataOf p)) - set (mx_deletes s)) \<union> set (gokeys (mx_writes s))"
    using assms(3) by (simp add: installOrigins_def image_fold_update set_fold_delete)
qed

text \<open>The keys a fork writes: the new keys of the branches are written or deleted again, and nothing else is written.\<close>

lemma fork_writes:
  assumes "\<forall>(bid, c) \<in> set cs. coherent c" and "k \<noteq> []"
    and "s = fold mergeUnit (forkUnits p cs) noMerge"
  shows "k \<in> set (gokeys (mx_writes s)) \<Longrightarrow> k \<notin> set (mx_deletes s) \<and> (\<exists>(bid, c) \<in> set cs. k \<in> set (gokeys (dataOf c)))"
    and "(bid, c) \<in> set cs \<Longrightarrow> k \<in> set (gokeys (dataOf c)) \<Longrightarrow> k \<notin> set (gokeys (dataOf p)) \<Longrightarrow> k \<in> set (gokeys (mx_writes s))"
proof -
  have ok: "\<forall>(bid, c) \<in> set cs. keys_ok c" using assms(1) by (auto simp: coherent_def)
  from resolves_units [of "forkUnits p cs" k]
  have r: "resolves s k (case lastChange p cs k of None \<Rightarrow> None
      | Some c \<Rightarrow> (case getWorkingValue c k of Some v \<Rightarrow> Some (KWrite v (OriginOf c k)) | None \<Rightarrow> Some KDelete))"
    unfolding assms(3) lastEffect_fork [OF ok] .
  have w: "k \<in> set (gokeys (mx_writes s)) \<longleftrightarrow> map_of (mx_writes s) k \<noteq> None" by (simp add: map_of_None_keys)
  have mem: "lastChange p cs k = Some c \<Longrightarrow> \<exists>bid. (bid, c) \<in> set cs" for c
    by (auto simp: lastChange_def find_Some_iff split: if_splits) (metis imageE nth_mem prod.collapse set_map set_rev length_map length_rev)
  show "k \<in> set (gokeys (mx_writes s)) \<Longrightarrow> k \<notin> set (mx_deletes s) \<and> (\<exists>(bid, c) \<in> set cs. k \<in> set (gokeys (dataOf c)))"
    using r w mem by (auto simp: resolves_def in_keys_value split: option.splits intro: bexI [of _ "(_, _)"])
  assume c: "(bid, c) \<in> set cs" "k \<in> set (gokeys (dataOf c))" "k \<notin> set (gokeys (dataOf p))"
  then have "lastChange p cs k \<noteq> None"
    using in_keys_value [of k c] in_keys_value [of k p] assms(2) by (auto simp: lastChange_def find_None_iff intro!: bexI [of _ "(bid, c)"])
  then obtain c' where c': "lastChange p cs k = Some c'" by blast
  then have "getWorkingValue c' k \<noteq> getWorkingValue p k" by (auto simp: lastChange_def find_Some_iff split: if_splits)
  with c' r w c(3) show "k \<in> set (gokeys (mx_writes s))"
    by (auto simp: resolves_def in_keys_value)
qed

lemma writes_nonempty: "[] \<notin> set (gokeys (mx_writes (fold mergeUnit us noMerge)))" "[] \<notin> set (mx_deletes (fold mergeUnit us noMerge))"
proof -
  have "unitEffect u [] = None" for u by (simp add: unitEffect_def)
  then have "lastEffect us [] = None" by (induction us rule: rev_induct) (simp_all add: lastEffect_def)
  with resolves_units [of us "[]"]
  show "[] \<notin> set (gokeys (mx_writes (fold mergeUnit us noMerge)))" "[] \<notin> set (mx_deletes (fold mergeUnit us noMerge))"
    by (simp_all add: resolves_def map_of_None_keys)
qed


lemma coherent_fork:
  assumes p: "coherent p" and cs: "\<forall>(bid, c) \<in> set cs. coherent c \<and> ev_TaskID c = ev_TaskID p"
  shows "coherent (snd (ApplyBranchMerges (forkUnits p cs) p))"
proof (cases "cs = []")
  case False
  define s where "s = fold mergeUnit (forkUnits p cs) noMerge"
  define b where "b = mergeBranchReferencesLocked (forkUnits p cs) (mx_deletes s) (ev_TaskID p) (ev_References p)"
  let ?d = "case installData s (ev_WorkingData p) of None \<Rightarrow> [] | Some d \<Rightarrow> d"
  have co: "\<forall>(bid, c) \<in> set cs. coherent c" using cs by auto
  have ne: "[] \<notin> set (gokeys (dataOf c))" if "(bid, c) \<in> set cs" for bid c
    using that co by (auto simp: coherent_def)
  from p have ok: "distinct (gokeys (dataOf p))" "distinct (gokeys (ev_Origins p))" "set (gokeys (ev_Origins p)) = set (gokeys (dataOf p))"
    "[] \<notin> set (gokeys (dataOf p))" by (auto simp: coherent_def keys_ok_def)
  have eq: "(set (gokeys (dataOf p)) - set (mx_deletes s)) \<union> ((\<Union>(bid, c) \<in> set cs. set (gokeys (dataOf c))) - set (mx_deletes s)) =
      (set (gokeys (dataOf p)) - set (mx_deletes s)) \<union> set (gokeys (mx_writes s))" (is "?l = ?r")
  proof
    show "?l \<subseteq> ?r"
    proof
      fix k assume k: "k \<in> ?l"
      show "k \<in> ?r"
      proof (cases "k \<in> set (gokeys (dataOf p))")
        case False
        with k obtain bid c where c: "(bid, c) \<in> set cs" "k \<in> set (gokeys (dataOf c))" by auto
        with ne have "k \<noteq> []" by blast
        with fork_writes(2) [OF co _ s_def c] False show ?thesis by blast
      qed (use k in auto)
    qed
    show "?r \<subseteq> ?l"
    proof
      fix k assume k: "k \<in> ?r"
      show "k \<in> ?l"
      proof (cases "k \<in> set (gokeys (mx_writes s))")
        case True
        then have "k \<noteq> []" using writes_nonempty(1) s_def by blast
        from fork_writes(1) [OF co this s_def True] show ?thesis by blast
      qed (use k in auto)
    qed
  qed
  have "[] \<notin> ?r" using ok(4) writes_nonempty(1) [of "forkUnits p cs"] unfolding s_def by blast
  moreover have "snd (ApplyBranchMerges (forkUnits p cs) p) =
      p\<lparr>ev_WorkingData := installData s (ev_WorkingData p), ev_Origins := installOrigins s (ev_Origins p), ev_References := b\<rparr>"
    using False by (simp add: ApplyBranchMerges_fork Let_def s_def b_def)
  ultimately show ?thesis
    using fork_refs [OF p cs b_def] install_keys [OF ok(1-3), of s] unfolding eq
    by (simp add: coherent_def keys_ok_def refKeys_def dataOf_update)
qed (use p in \<open>simp add: ApplyBranchMerges_fork\<close>)

lemma merge_task: "ev_TaskID (snd (ApplyBranchMerges us e)) = ev_TaskID e"
  by (auto simp: ApplyBranchMerges_def Let_def split: option.splits)

section \<open>Histories of an envelope\<close>

text \<open>
  What agents do to an envelope: writes, counters, deletions, clones, handoffs, the merge of a
  sub-agent's envelope of the same task, and fan-outs whose branches work on clones and are merged
  back in declaration order, to any depth.
\<close>

datatype envOp =
    OpSet time string goval string string
  | OpNext time string
  | OpDelete string
  | OpClear
  | OpClone
  | OpHandoff HandoffPolicy
  | OpMerge time "envOp list"
  | OpFork "(string \<times> envOp list) list"

fun applyOp :: "envOp \<Rightarrow> Envelope \<Rightarrow> Envelope" where
  "applyOp (OpSet now k v cls origin) e = SetWorkingValueWithOrigin now k v cls origin e"
| "applyOp (OpNext now k) e = snd (NextSequence now k e)"
| "applyOp (OpDelete k) e = DeleteWorkingValue k e"
| "applyOp OpClear e = ClearWorkingData e"
| "applyOp OpClone e = Clone e"
| "applyOp (OpHandoff policy) e = HandoffSnapshot policy e"
| "applyOp (OpMerge now ops) e = Envelope_Merge (fold applyOp ops (NewEnvelope now (ev_TaskID e) [])) e"
| "applyOp (OpFork bs) e =
     snd (ApplyBranchMerges (forkUnits e (map (\<lambda>(bid, ops). (bid, fold applyOp ops (Clone e))) bs)) e)"

fun keyedOp :: "envOp \<Rightarrow> bool" where
  "keyedOp (OpSet now k v cls origin) = (k \<noteq> [])"
| "keyedOp (OpNext now k) = (k \<noteq> [])"
| "keyedOp (OpMerge now ops) = list_all keyedOp ops"
| "keyedOp (OpFork bs) = list_all (\<lambda>(bid, ops). list_all keyedOp ops) bs"
| "keyedOp _ = True"

lemma fold_invariant: "P e \<Longrightarrow> (\<And>x e. x \<in> set xs \<Longrightarrow> P e \<Longrightarrow> P (f x e)) \<Longrightarrow> P (fold f xs e)"
  by (induction xs arbitrary: e) auto

lemma applyOp_ok:
  "coherent e \<Longrightarrow> keyedOp x \<Longrightarrow> coherent (applyOp x e) \<and> ev_TaskID (applyOp x e) = ev_TaskID e"
proof (induction x e rule: applyOp.induct)
  case (7 now ops e)
  have "coherent (NewEnvelope now (ev_TaskID e) [])"
    by (simp add: NewEnvelope_def coherent_def keys_ok_def refKeys_def dataOf_def noReferences_def)
  then have "coherent (fold applyOp ops (NewEnvelope now (ev_TaskID e) [])) \<and>
      ev_TaskID (fold applyOp ops (NewEnvelope now (ev_TaskID e) [])) = ev_TaskID e"
    using 7 by (intro fold_invariant [where P = "\<lambda>e'. coherent e' \<and> ev_TaskID e' = ev_TaskID e"]) (auto simp: NewEnvelope_def list_all_iff)
  with 7 coherent_Merge show ?case by (simp add: Envelope_Merge_def)
next
  case (8 bs e)
  have "coherent (fold applyOp ops (Clone e)) \<and> ev_TaskID (fold applyOp ops (Clone e)) = ev_TaskID e" if "(bid, ops) \<in> set bs" for bid ops
    using 8 that coherent_Clone [of e]
    by (intro fold_invariant [where P = "\<lambda>e'. coherent e' \<and> ev_TaskID e' = ev_TaskID e"]) (fastforce simp: Clone_def list_all_iff)+
  then have "coherent (snd (ApplyBranchMerges (forkUnits e (map (\<lambda>(bid, ops). (bid, fold applyOp ops (Clone e))) bs)) e))"
    using 8(2) by (intro coherent_fork) auto
  then show ?case by (simp add: merge_task)
qed (simp_all add: coherent_Set coherent_Next coherent_Delete coherent_Clear coherent_Clone coherent_Handoff Handoff_sel,
    simp_all add: SetWorkingValueWithOrigin_def NextSequence_def Let_def DeleteWorkingValue_def ClearWorkingData_def Clone_def
      split: option.splits)


lemma find_Some_in: "find P xs = Some x \<Longrightarrow> x \<in> set xs \<and> P x"
  by (induction xs) (auto split: if_splits)

section \<open>Properties\<close>

text \<open>
  \<^bold>\<open>C14.\<close> A fan-out followed by the merge is exact: every non-empty key ends with what the last branch, in
  declaration order, left for it among the branches that changed it, a deletion included; a key no branch changed
  keeps the parent's value, and the empty key does so whatever the branches did to it. The merge never fails, and the
  origin of a merged value is at least as restrictive as the one the winning branch recorded.
\<close>

theorem fork_join_exact:
  assumes "\<forall>(bid, c) \<in> set cs. keys_ok c"
  shows "(\<exists>stats. fst (ApplyBranchMerges (forkUnits p cs) p) = Inr stats) \<and>
    getWorkingValue (snd (ApplyBranchMerges (forkUnits p cs) p)) k =
      (case lastChange p cs k of None \<Rightarrow> getWorkingValue p k | Some c \<Rightarrow> getWorkingValue c k) \<and>
    (\<forall>c. lastChange p cs k = Some c \<longrightarrow> getWorkingValue c k \<noteq> None \<longrightarrow>
       originRestrictiveness (OriginOf c k) \<le> originRestrictiveness (OriginOf (snd (ApplyBranchMerges (forkUnits p cs) p)) k))"
  using ApplyBranchMerges_fork(2) fork_value [OF assms] fork_origin [OF assms] by blast

definition wParent :: Envelope where
  "wParent = SetWorkingValueWithOrigin 1 ''a'' (GInt 1) MemoryClassTask OriginUser
     (SetWorkingValueWithOrigin 1 ''b'' (GInt 2) MemoryClassTask OriginUser (NewEnvelope 0 ''t'' ''s''))"

definition wBranches :: "(string \<times> Envelope) list" where
  "wBranches =
     [(''x'', SetWorkingValueWithOrigin 2 ''a'' (GInt 10) MemoryClassTask OriginTool (Clone wParent)),
      (''y'', DeleteWorkingValue ''b'' (Clone wParent)),
      (''z'', SetWorkingValueWithOrigin 3 ''a'' (GInt 11) MemoryClassTask OriginUser (Clone wParent))]"

theorem fork_join_exact_witness:
  "getWorkingValue (snd (ApplyBranchMerges (forkUnits wParent wBranches) wParent)) ''a'' = Some (GInt 11)"
proof -
  have ok: "\<forall>(bid, c) \<in> set wBranches. keys_ok c" by code_simp
  have "lastChange wParent wBranches ''a'' = Some (snd (wBranches ! 2))" by code_simp
  moreover have "getWorkingValue (snd (wBranches ! 2)) ''a'' = Some (GInt 11)" by code_simp
  ultimately show ?thesis using fork_join_exact [OF ok, of wParent "''a''"] by simp
qed

text \<open>
  \<^bold>\<open>C23.\<close> Working data, origins and references stay coherent through every history of an envelope that uses non-empty keys:
  after any sequence of writes, counters, deletions, clones, handoffs, merges of envelopes of the same task and nested
  fan-outs there is exactly one reference per key, every key has an origin, and no reference points to a key that is
  gone.
\<close>

theorem references_coherent:
  assumes "list_all keyedOp ops" and "e = fold applyOp ops (NewEnvelope now taskID sessionID)"
  shows "distinct (WorkingMemoryKeys e) \<and> set (WorkingMemoryKeys e) = set (gokeys (dataOf e)) \<and>
    set (gokeys (ev_Origins e)) = set (gokeys (dataOf e)) \<and>
    (\<forall>k. HasWorkingMemoryKey (ev_References e) (ev_TaskID e) k \<longleftrightarrow> getWorkingValue e k \<noteq> None)"
proof -
  have "coherent (NewEnvelope now taskID sessionID)"
    by (simp add: NewEnvelope_def coherent_def keys_ok_def refKeys_def dataOf_def noReferences_def)
  with assms have c: "coherent e"
    using fold_invariant [of coherent "NewEnvelope now taskID sessionID" ops applyOp] applyOp_ok by (auto simp: list_all_iff)
  then have "WorkingMemoryKeys e = refKeys e"
    by (auto simp: WorkingMemoryKeys_def coherent_def refKeys_def intro!: arg_cong [where f = "map wr_Key"] filter_True)
  moreover have "HasWorkingMemoryKey (ev_References e) (ev_TaskID e) k \<longleftrightarrow> k \<in> set (refKeys e)" for k
  proof -
    have "\<forall>ref \<in> set (rb_WorkingMemory (ev_References e)). wr_TaskID ref = ev_TaskID e" using c by (simp add: coherent_def)
    then show ?thesis by (auto simp: HasWorkingMemoryKey_def list_ex_iff refKeys_def)
  qed
  ultimately show ?thesis using c in_keys_value [of _ e] by (simp add: coherent_def)
qed

theorem references_coherent_witness:
  "set (WorkingMemoryKeys (fold applyOp [OpSet 1 ''a'' (GInt 1) ''task'' ''user'', OpFork [(''x'', [OpDelete ''a'']), (''y'', [OpNext 2 ''n''])]]
     (NewEnvelope 0 ''t'' ''s''))) = {''n''}"
proof -
  let ?ops = "[OpSet 1 ''a'' (GInt 1) ''task'' ''user'', OpFork [(''x'', [OpDelete ''a'']), (''y'', [OpNext 2 ''n''])]]"
  have "list_all keyedOp ?ops" by code_simp
  from references_coherent [OF this refl, of 0 "''t''" "''s''"]
  have "set (WorkingMemoryKeys (fold applyOp ?ops (NewEnvelope 0 ''t'' ''s''))) = set (gokeys (dataOf (fold applyOp ?ops (NewEnvelope 0 ''t'' ''s''))))"
    by blast
  also have "\<dots> = {''n''}" by code_simp
  finally show ?thesis .
qed

text \<open>
  Branches that change different keys may be declared in any order: if no key is changed by two of
  them, any two arrangements of the same branches merge to the same values.
\<close>

theorem disjoint_branches_commute:
  assumes "set cs = set cs'" and "\<forall>(bid, c) \<in> set cs. keys_ok c"
    and "\<forall>c \<in> snd ` set cs. \<forall>c' \<in> snd ` set cs.
      getWorkingValue c k \<noteq> getWorkingValue p k \<longrightarrow> getWorkingValue c' k \<noteq> getWorkingValue p k \<longrightarrow> c = c'"
  shows "getWorkingValue (snd (ApplyBranchMerges (forkUnits p cs) p)) k = getWorkingValue (snd (ApplyBranchMerges (forkUnits p cs') p)) k"
proof -
  have same: "set cs = set cs'" using assms(1) .
  have "lastChange p cs k = lastChange p cs' k"
  proof (cases "k \<noteq> [] \<and> (\<exists>c \<in> snd ` set cs. getWorkingValue c k \<noteq> getWorkingValue p k)")
    case True
    then have ne: "k \<noteq> []" by simp
    obtain c where c: "c \<in> snd ` set cs" "getWorkingValue c k \<noteq> getWorkingValue p k" using True by blast
    have "lastChange p ds k = Some c" if "set ds = set cs" for ds
    proof (cases "lastChange p ds k")
      case None
      with c that show ?thesis using ne by (auto simp: lastChange_def find_None_iff)
    next
      case (Some d)
      then have "d \<in> set (rev (map snd ds))" "getWorkingValue d k \<noteq> getWorkingValue p k"
        using find_Some_in [OF Some [unfolded lastChange_def if_not_P [OF ne]]] by auto
      then have "d \<in> snd ` set cs" using that by simp
      with assms(3) c \<open>getWorkingValue d k \<noteq> getWorkingValue p k\<close> have "d = c" by blast
      with Some show ?thesis by simp
    qed
    from this [of cs] this [of cs'] same show ?thesis by simp
  next
    case False
    then have "lastChange p ds k = None" if "set ds = set cs" for ds
      using that by (auto simp: lastChange_def find_None_iff)
    from this [of cs] this [of cs'] same show ?thesis by simp
  qed
  moreover have "\<forall>(bid, c) \<in> set cs'. keys_ok c" using assms(2) same by simp
  ultimately show ?thesis using fork_value [OF assms(2)] fork_value [of cs' p k] by simp
qed

definition wDisjoint :: "(string \<times> Envelope) list" where
  "wDisjoint =
     [(''x'', SetWorkingValue 2 ''a'' (GInt 10) (Clone wParent)), (''y'', DeleteWorkingValue ''b'' (Clone wParent))]"

theorem disjoint_branches_commute_witness:
  "getWorkingValue (snd (ApplyBranchMerges (forkUnits wParent wDisjoint) wParent)) ''a'' =
   getWorkingValue (snd (ApplyBranchMerges (forkUnits wParent (rev wDisjoint)) wParent)) ''a''"
proof -
  have ok: "\<forall>(bid, c) \<in> set wDisjoint. keys_ok c" by code_simp
  have one: "\<forall>c \<in> snd ` set wDisjoint. \<forall>c' \<in> snd ` set wDisjoint.
      getWorkingValue c ''a'' \<noteq> getWorkingValue wParent ''a'' \<longrightarrow> getWorkingValue c' ''a'' \<noteq> getWorkingValue wParent ''a'' \<longrightarrow> c = c'"
    by code_simp
  show ?thesis using disjoint_branches_commute [OF _ ok one, of "rev wDisjoint"] by simp
qed

text \<open>A value under the empty key does not survive a merge although its reference does.\<close>

lemma empty_key_lost:
  "let p = NewEnvelope 0 ''t'' ''s''; c = SetWorkingValue 1 [] (GInt 1) (Clone p);
       p' = snd (ApplyBranchMerges (forkUnits p [(''x'', c)]) p)
   in getWorkingValue p' [] = None \<and> HasWorkingMemoryKey (ev_References p') ''t'' []"
  by code_simp

end
