(* ===== verification/ContextStream.thy ===== *)
theory ContextStream
  imports ContextData
begin

text \<open>
  Applying a compiled context to an envelope and rendering it for a prompt (\<open>context/contextstream/envelope.go\<close>,
  \<open>render.go\<close>, \<open>summary.go\<close>, \<open>trigger.go\<close>). The compiler is an external service; what it returns is arbitrary here.
\<close>

section \<open>Requests and results\<close>

record CompilationRecord =
  cd_ID :: string
  cd_OriginalBudget :: int
  cd_FinalTokens :: int
  cd_CacheHit :: bool

text \<open>A \<open>StreamedChunkView\<close> has the fields of the \<open>StreamedChunk\<close> it becomes.\<close>

record CompilationResult =
  cm_StreamedChunks :: "StreamedChunk list"
  cm_ShortfallTokens :: int
  cm_StreamedRefs :: "string list"
  cm_SkippedStaleChunks :: "string list"
  cm_Substitutions :: "(string \<times> string \<times> string) list"
  cm_Record :: CompilationRecord

record StreamRequest =
  rq_ID :: string
  rq_Text :: string
  rq_MaxTokens :: int
  rq_EventLogSeq :: int
  rq_EpochID :: int
  rq_RunID :: string
  rq_Mode :: string
  rq_Metadata :: "(string \<times> goval) list"
  rq_RequestedAt :: time

record TrimMetadata =
  tm_BudgetTokens :: int
  tm_ShortfallTokens :: int
  tm_Substitutions :: "(string \<times> string \<times> string) list"

record StreamResult =
  sr_Request :: StreamRequest
  sr_Compilation :: "CompilationResult option"
  sr_Record :: "CompilationRecord option"
  sr_Trim :: TrimMetadata
  sr_Err :: "goerr option"

definition trimMetadataFromCompilation :: "StreamRequest \<Rightarrow> CompilationResult option \<Rightarrow> TrimMetadata" where
  "trimMetadataFromCompilation req compilation =
     (case compilation of
        None \<Rightarrow> \<lparr>tm_BudgetTokens = 0, tm_ShortfallTokens = 0, tm_Substitutions = []\<rparr>
      | Some c \<Rightarrow> \<lparr>tm_BudgetTokens = rq_MaxTokens req, tm_ShortfallTokens = cm_ShortfallTokens c, tm_Substitutions = cm_Substitutions c\<rparr>)"

text \<open>\<open>compile\<close> is the compiler, absent for a trigger without one.\<close>

definition RequestBlocking ::
  "(StreamRequest \<Rightarrow> CompilationResult option \<times> goerr option) option \<Rightarrow> StreamRequest \<Rightarrow> StreamResult option \<times> goerr option" where
  "RequestBlocking compiler req =
     (case compiler of
        None \<Rightarrow> (None, Some (Err ''contextstream: missing compiler''))
      | Some compile \<Rightarrow>
          (case compile req of (compilation, err) \<Rightarrow>
             (Some \<lparr>sr_Request = req, sr_Compilation = compilation, sr_Record = map_option cm_Record compilation,
                sr_Trim = trimMetadataFromCompilation req compilation, sr_Err = err\<rparr>,
              map_option (Wrap (''contextstream: compile request '' @ [CHR 0x22] @ rq_ID req @ [CHR 0x22] @ '': '')) err)))"

definition SummaryOf :: "StreamResult \<Rightarrow> (string \<times> goval) list" where
  "SummaryOf r =
     [(''request_id'', GString (rq_ID (sr_Request r))), (''epoch'', GUint64 (rq_EpochID (sr_Request r)))] @
     (case sr_Compilation r of
        None \<Rightarrow> []
      | Some c \<Rightarrow> [(''chunks'', GInt (int (length (cm_StreamedChunks c)))), (''tokens'', GInt (cd_FinalTokens (cm_Record c)))])"

section \<open>One view per artifact\<close>

text \<open>The index of the newest view of each artifact, the first of equally old ones.\<close>

fun newestViews :: "StreamedChunk list \<Rightarrow> nat \<Rightarrow> StreamedChunk list \<Rightarrow> (string \<times> nat) list \<Rightarrow> (string \<times> nat) list" where
  "newestViews chunks i [] newest = newest"
| "newestViews chunks i (c # cs) newest =
     newestViews chunks (Suc i) cs
       (if sc_ArtifactKey c = [] then newest
        else case map_of newest (sc_ArtifactKey c) of
               Some j \<Rightarrow> if sc_ObservedAt c > sc_ObservedAt (chunks ! j) then AList.update (sc_ArtifactKey c) i newest else newest
             | None \<Rightarrow> AList.update (sc_ArtifactKey c) i newest)"

definition authoritative :: "(string \<times> nat) list \<Rightarrow> nat \<times> StreamedChunk \<Rightarrow> bool" where
  "authoritative newest = (\<lambda>(i, c). sc_ArtifactKey c = [] \<or> map_of newest (sc_ArtifactKey c) = Some i)"

definition artifactAuthoritativeChunks :: "StreamedChunk list \<Rightarrow> StreamedChunk list \<times> string list" where
  "artifactAuthoritativeChunks chunks =
     (let newest = newestViews chunks 0 chunks [] in
      (map snd (filter (authoritative newest) (enumerate 0 chunks)),
       map (\<lambda>(i, c). ''superseded view of '' @ sc_ArtifactKey c @ '' elided '' @ [CHR 0xE2, CHR 0x80, CHR 0x94] @
              '' a newer observation of this artifact is in this slice'')
         (filter (\<lambda>x. \<not> authoritative newest x) (enumerate 0 chunks))))"

section \<open>Applying a result\<close>

datatype applyErr =
    ErrStaleApplyDropped int int string
  | ApplyFailed goerr

definition streamedSlice :: "time \<Rightarrow> CompilationResult \<Rightarrow> int \<Rightarrow> StreamedSlice" where
  "streamedSlice now c epoch =
     (case artifactAuthoritativeChunks (cm_StreamedChunks c) of (authored, elided) \<Rightarrow>
        \<lparr>sl_RequestID = cd_ID (cm_Record c), sl_Epoch = epoch, sl_CompiledAt = now, sl_BudgetTokens = cd_OriginalBudget (cm_Record c),
         sl_FinalTokens = cd_FinalTokens (cm_Record c), sl_Chunks = authored, sl_GapMessages = cm_SkippedStaleChunks c @ elided,
         sl_CacheHit = cd_CacheHit (cm_Record c)\<rparr>)"

text \<open>The value of a Go \<open>int\<close> of 64 bits, and the sum of the byte loop, which wraps.\<close>

definition goInt :: "int \<Rightarrow> int" where
  "goInt x = signed_take_bit 63 x"

definition byteEstimate :: "StreamedChunk list \<Rightarrow> int" where
  "byteEstimate chunks = fold (\<lambda>ch n. goInt (n + goInt (sc_TokenEstimate ch * 4))) chunks 0"

definition applyStreamedSlice :: "time \<Rightarrow> CompilationResult \<Rightarrow> int \<Rightarrow> Envelope \<Rightarrow> goerr option \<times> Envelope" where
  "applyStreamedSlice now c epoch env =
     (let s = streamedSlice now c epoch;
          bytes = byteEstimate (sl_Chunks s);
          limit = goInt (goInt (2 * sl_BudgetTokens s) * 4)
      in if sl_BudgetTokens s > 0 \<and> bytes > limit
         then (Some (Err (''contextstream: streamed slice exceeds 2x budget: '' @ fmtInt bytes @ '' bytes > '' @ fmtInt limit @
                 '' (budget '' @ fmtInt (sl_BudgetTokens s) @ '' tokens)'')), env)
         else (None, SetStreamedSlice (Some s) env))"

definition ApplyStaleGaps :: "time \<Rightarrow> CompilationResult \<Rightarrow> Envelope \<Rightarrow> Envelope" where
  "ApplyStaleGaps now c env =
     (let ids = filter (\<lambda>i. i \<noteq> []) (cm_SkippedStaleChunks c) in
      if ids = [] then env
      else SetWorkingValueWithClass now ''contextstream.skipped_stale_chunks'' (GStrings ids) MemoryClassTask env)"

definition staleFloor :: "Envelope \<Rightarrow> int" where
  "staleFloor env =
     (let floor = am_EpochID (ev_AssemblyMetadata env) in
      case ev_streamed env of Some current \<Rightarrow> if sl_Epoch current > floor then sl_Epoch current else floor | None \<Rightarrow> floor)"

definition chunkRef :: "string \<Rightarrow> ChunkReference" where
  "chunkRef i = \<lparr>ck_ChunkID = i, ck_Source = [], ck_Rank = 0, ck_IsSummary = False, ck_OriginalChunk = [], ck_TokenCount = 0, ck_RetrievedAt = 0\<rparr>"

fun addStreamedRefs :: "string list \<Rightarrow> string set \<Rightarrow> Envelope \<Rightarrow> Envelope" where
  "addStreamedRefs [] seen env = env"
| "addStreamedRefs (i # ids) seen env =
     (if i = [] \<or> i \<in> seen then addStreamedRefs ids seen env
      else addStreamedRefs ids (insert i seen) (AddStreamedContextReference (chunkRef i) env))"

definition applyMetadata :: "StreamResult \<Rightarrow> int \<Rightarrow> Envelope \<Rightarrow> Envelope" where
  "applyMetadata r epoch env =
     (case sr_Record r of
        None \<Rightarrow> env
      | Some record' \<Rightarrow>
          let meta = (ev_AssemblyMetadata env)\<lparr>am_CompilationID := cd_ID record'\<rparr>
          in env\<lparr>ev_AssemblyMetadata := (if epoch > am_EpochID meta then meta\<lparr>am_EpochID := epoch\<rparr> else meta)\<rparr>)"

text \<open>\<open>msg\<close> is the message of an error.\<close>

definition applyNotes :: "(goerr \<Rightarrow> string) \<Rightarrow> time \<Rightarrow> StreamResult \<Rightarrow> Envelope \<Rightarrow> Envelope" where
  "applyNotes msg now r env =
     (let put = (\<lambda>key v. SetWorkingValueWithClass now (''contextstream.'' @ key) v MemoryClassTask);
          env = (if tm_ShortfallTokens (sr_Trim r) > 0 \<or> tm_Substitutions (sr_Trim r) \<noteq> []
                 then put ''shortfall_tokens'' (GInt (tm_ShortfallTokens (sr_Trim r))) (put ''trimmed'' (GBool True) env) else env);
          env = (if rq_ID (sr_Request r) \<noteq> [] then put ''request_id'' (GString (rq_ID (sr_Request r))) env else env)
      in case sr_Err r of None \<Rightarrow> env | Some err \<Rightarrow> put ''error'' (GString (msg err)) env)"

definition ApplyResult :: "(goerr \<Rightarrow> string) \<Rightarrow> time \<Rightarrow> StreamResult \<Rightarrow> int \<Rightarrow> Envelope \<Rightarrow> applyErr option \<times> Envelope" where
  "ApplyResult msg now r epoch env =
     (let rest = (\<lambda>env. (None, applyNotes msg now r (applyMetadata r epoch env))) in
      case sr_Compilation r of
        None \<Rightarrow> rest env
      | Some c \<Rightarrow>
          if epoch < staleFloor env
          then (Some (ErrStaleApplyDropped (staleFloor env) epoch (rq_ID (sr_Request r))), env)
          else
            let env = addStreamedRefs (cm_StreamedRefs c) (ck_ChunkID ` set (rb_StreamedContext (ev_References env))) env;
                env = ApplyStaleGaps now c env
            in case applyStreamedSlice now c epoch env of
                 (Some err, env) \<Rightarrow> (Some (ApplyFailed err), env)
               | (None, env) \<Rightarrow> rest env)"

text \<open>\<open>rfc\<close> formats a time as RFC 3339.\<close>

definition ApplyRequestMetadata :: "(time \<Rightarrow> string) \<Rightarrow> time \<Rightarrow> StreamRequest \<Rightarrow> Envelope \<Rightarrow> Envelope" where
  "ApplyRequestMetadata rfc now req env =
     (let put = (\<lambda>key v. SetWorkingValueWithClass now (''contextstream.'' @ key) v MemoryClassTask);
          env = (if rq_ID req \<noteq> [] then put ''request_id'' (GString (rq_ID req)) env else env);
          env = (if rq_Mode req \<noteq> [] then put ''mode'' (GString (rq_Mode req)) env else env);
          env = (if rq_MaxTokens req > 0 then put ''max_tokens'' (GInt (rq_MaxTokens req)) env else env);
          env = (if rq_EventLogSeq req > 0 then put ''event_log_seq'' (GUint64 (rq_EventLogSeq req)) env else env);
          env = (if rq_Metadata req \<noteq> [] then put ''request_metadata'' (GMap (rq_Metadata req)) env else env)
      in put ''requested_at'' (GString (if rq_RequestedAt req = 0 then [] else rfc (rq_RequestedAt req))) env)"

section \<open>Rendering\<close>

record RenderStats =
  rn_Chunks :: nat
  rn_Tokens :: int
  rn_Bytes :: nat
  rn_CacheHit :: bool
  rn_Epoch :: int

definition cacheLabel :: "bool \<Rightarrow> string" where
  "cacheLabel hit = (if hit then ''hit'' else ''miss'')"

datatype renderErr =
    ErrSliceBodyMissing string nat
  | ErrSliceTokenMismatch int int

abbreviation newline :: string where "newline \<equiv> [CHR 0x0A]"

definition renderChunk :: "nat \<Rightarrow> StreamedChunk \<Rightarrow> string" where
  "renderChunk i c =
     (if sc_IsSummary c
      then ''#'' @ dec (Suc i) @ '' (summary of '' @ sc_ChunkID c @ '', original elided under budget) ('' @ fmtInt (sc_TokenEstimate c) @ '' tok)'' @ newline
      else ''#'' @ dec (Suc i) @ '' [trust:'' @ (if sc_TrustClass c = [] then ''unset'' else sc_TrustClass c) @ ''] '' @ sc_ChunkID c @
             '' ('' @ fmtInt (sc_TokenEstimate c) @ '' tok)'' @ newline) @
     ''<chunk-body>'' @ newline @ sc_Body c @ (if suffix newline (sc_Body c) then [] else newline) @ ''</chunk-body>'' @ newline"

fun renderChunks :: "nat \<Rightarrow> StreamedChunk list \<Rightarrow> renderErr + string" where
  "renderChunks i [] = Inr []"
| "renderChunks i (c # cs) =
     (if TrimSpace (sc_Body c) = [] then Inl (ErrSliceBodyMissing (sc_ChunkID c) (Suc i))
      else case renderChunks (Suc i) cs of Inl err \<Rightarrow> Inl err | Inr s \<Rightarrow> Inr (renderChunk i c @ s))"

definition tokensOf :: "StreamedChunk list \<Rightarrow> int" where
  "tokensOf cs = (\<Sum>c \<leftarrow> cs. sc_TokenEstimate c)"

text \<open>
  The tolerance of a tenth is compared in exact arithmetic; the floating-point comparison of the source
  agrees with it for token counts below \<open>2 ^ 50\<close>. \<open>q\<close> is \<open>strconv.Quote\<close>.
\<close>

definition RenderStreamedSection :: "(string \<Rightarrow> string) \<Rightarrow> Envelope \<Rightarrow> renderErr + string \<times> RenderStats" where
  "RenderStreamedSection q env =
     (case ev_streamed env of
        None \<Rightarrow> Inr ([], \<lparr>rn_Chunks = 0, rn_Tokens = 0, rn_Bytes = 0, rn_CacheHit = False, rn_Epoch = 0\<rparr>)
      | Some s \<Rightarrow>
          if sl_Chunks s = [] then Inr ([], \<lparr>rn_Chunks = 0, rn_Tokens = 0, rn_Bytes = 0, rn_CacheHit = False, rn_Epoch = 0\<rparr>)
          else
            (case renderChunks 0 (sl_Chunks s) of
               Inl err \<Rightarrow> Inl err
             | Inr body \<Rightarrow>
                 let total = tokensOf (sl_Chunks s);
                     out = ''<streamed-context v=1 request='' @ q (sl_RequestID s) @ '' epoch='' @ fmtInt (sl_Epoch s) @ '' budget='' @
                       fmtInt (sl_BudgetTokens s) @ '' tokens='' @ fmtInt (sl_FinalTokens s) @ '' chunks='' @ dec (length (sl_Chunks s)) @
                       '' cache='' @ q (cacheLabel (sl_CacheHit s)) @ ''>'' @ newline @ body @
                       concat (map (\<lambda>gap. ''(gap: chunk '' @ gap @ '' skipped stale)'' @ newline) (filter (\<lambda>g. TrimSpace g \<noteq> []) (sl_GapMessages s))) @
                       ''</streamed-context>'' @ newline
                 in if sl_FinalTokens s > 0 \<and> 10 * \<bar>total - sl_FinalTokens s\<bar> > sl_FinalTokens s
                    then Inl (ErrSliceTokenMismatch total (sl_FinalTokens s))
                    else Inr (out, \<lparr>rn_Chunks = length (sl_Chunks s), rn_Tokens = total, rn_Bytes = length out,
                                    rn_CacheHit = sl_CacheHit s, rn_Epoch = sl_Epoch s\<rparr>)))"

section \<open>The newest view\<close>

definition newestAt :: "StreamedChunk list \<Rightarrow> nat \<Rightarrow> string \<Rightarrow> nat \<Rightarrow> bool" where
  "newestAt chunks n k j \<longleftrightarrow> j < n \<and> sc_ArtifactKey (chunks ! j) = k \<and>
     (\<forall>m<n. sc_ArtifactKey (chunks ! m) = k \<longrightarrow> sc_ObservedAt (chunks ! m) \<le> sc_ObservedAt (chunks ! j))"

definition newestUpTo :: "StreamedChunk list \<Rightarrow> nat \<Rightarrow> (string \<times> nat) list \<Rightarrow> bool" where
  "newestUpTo chunks n newest \<longleftrightarrow>
     (\<forall>k. k \<noteq> [] \<longrightarrow> (case map_of newest k of None \<Rightarrow> \<forall>m<n. sc_ArtifactKey (chunks ! m) \<noteq> k | Some j \<Rightarrow> newestAt chunks n k j))"

lemma newestUpTo_step:
  assumes "newestUpTo chunks i newest" and "c = chunks ! i"
  shows "newestUpTo chunks (Suc i)
    (if sc_ArtifactKey c = [] then newest
     else case map_of newest (sc_ArtifactKey c) of
            Some j \<Rightarrow> if sc_ObservedAt c > sc_ObservedAt (chunks ! j) then AList.update (sc_ArtifactKey c) i newest else newest
          | None \<Rightarrow> AList.update (sc_ArtifactKey c) i newest)"
proof -
  have old: "case map_of newest k of None \<Rightarrow> \<forall>m<i. sc_ArtifactKey (chunks ! m) \<noteq> k | Some j \<Rightarrow> newestAt chunks i k j" if "k \<noteq> []" for k
    using assms(1) that by (simp add: newestUpTo_def)
  have other: "case map_of newest k of None \<Rightarrow> \<forall>m<Suc i. sc_ArtifactKey (chunks ! m) \<noteq> k | Some j \<Rightarrow> newestAt chunks (Suc i) k j"
    if "k \<noteq> []" "k \<noteq> sc_ArtifactKey c" for k
    using old [OF that(1)] that(2) assms(2) by (cases "map_of newest k") (auto simp: newestAt_def less_Suc_eq)
  show ?thesis
  proof (cases "sc_ArtifactKey c = []")
    case True
    with other show ?thesis unfolding newestUpTo_def by simp
  next
    case False
    note o = old [OF False]
    show ?thesis
    proof (cases "map_of newest (sc_ArtifactKey c)")
      case None
      with o False other show ?thesis
        by (auto simp: newestUpTo_def update_conv' newestAt_def assms(2) [symmetric] less_Suc_eq)
    next
      case (Some j)
      with o have j: "newestAt chunks i (sc_ArtifactKey c) j" by simp
      show ?thesis
      proof (cases "sc_ObservedAt c > sc_ObservedAt (chunks ! j)")
        case True
        then have "newestAt chunks (Suc i) (sc_ArtifactKey c) i"
          using j unfolding newestAt_def assms(2) by (auto simp: less_Suc_eq intro: order_trans less_imp_le)
        with True Some False other show ?thesis by (simp add: newestUpTo_def update_conv')
      next
        case no: False
        then have "newestAt chunks (Suc i) (sc_ArtifactKey c) j" using j unfolding newestAt_def assms(2) by (auto simp: less_Suc_eq)
        then have all: "case map_of newest k of None \<Rightarrow> \<forall>m<Suc i. sc_ArtifactKey (chunks ! m) \<noteq> k | Some j \<Rightarrow> newestAt chunks (Suc i) k j"
          if "k \<noteq> []" for k using other [OF that] Some by (cases "k = sc_ArtifactKey c") auto
        from no Some False show ?thesis using all by (simp add: newestUpTo_def)
      qed
    qed
  qed
qed

lemma newestViews_correct:
  assumes "newestUpTo chunks i newest" and "cs = drop i chunks" and "i \<le> length chunks"
  shows "newestUpTo chunks (length chunks) (newestViews chunks i cs newest)"
  using assms
proof (induction cs arbitrary: i newest)
  case (Cons c cs)
  then have i: "i < length chunks" by (metis drop_eq_Nil le_eq_less_or_eq list.discI order_refl)
  then have "c = chunks ! i" "cs = drop (Suc i) chunks" using Cons.prems(2) Cons_nth_drop_Suc [OF i] by (metis list.inject)+
  with newestUpTo_step [OF Cons.prems(1)] i show ?case unfolding newestViews.simps by (intro Cons.IH) auto
qed (simp add: newestUpTo_def)

lemma newestViews_all: "newestUpTo chunks (length chunks) (newestViews chunks 0 chunks [])"
  by (rule newestViews_correct) (auto simp: newestUpTo_def)

lemma filter_enumerate_at: "j < length xs \<Longrightarrow> filter (\<lambda>(i, x). i = j) (enumerate n xs) = (if n \<le> j then [(j, xs ! (j - n))] else [])" if "n = 0"
  using that
proof (induction xs arbitrary: j rule: rev_induct)
  case (snoc x xs)
  have "filter (\<lambda>(i, x). i = j) (enumerate 0 xs) = []" if "length xs \<le> j"
    using that by (auto simp: filter_empty_conv in_set_enumerate_eq)
  with snoc show ?case by (cases "j < length xs") (auto simp: enumerate_append_eq nth_append)
qed simp

text \<open>
  The slice holds one view of every artifact that was observed, the newest one, and every chunk that is no
  view of an artifact, in the order of the compiler; each other chunk is named by a gap message.
\<close>

theorem one_view_per_artifact:
  fixes chunks
  defines "out \<equiv> fst (artifactAuthoritativeChunks chunks)"
  shows "length out + length (snd (artifactAuthoritativeChunks chunks)) = length chunks \<and> subseq out chunks \<and>
    (\<forall>c \<in> set chunks. sc_ArtifactKey c = [] \<longrightarrow> c \<in> set out) \<and>
    (\<forall>a \<in> set chunks. sc_ArtifactKey a \<noteq> [] \<longrightarrow>
       (\<exists>c. filter (\<lambda>c. sc_ArtifactKey c = sc_ArtifactKey a) out = [c] \<and>
          (\<forall>c' \<in> set chunks. sc_ArtifactKey c' = sc_ArtifactKey a \<longrightarrow> sc_ObservedAt c' \<le> sc_ObservedAt c)))"
proof (intro conjI ballI impI)
  let ?newest = "newestViews chunks 0 chunks []"
  have out: "out = map snd (filter (authoritative ?newest) (enumerate 0 chunks))"
    by (simp add: out_def artifactAuthoritativeChunks_def Let_def)
  show "length out + length (snd (artifactAuthoritativeChunks chunks)) = length chunks"
    using sum_length_filter_compl [of "authoritative ?newest" "enumerate 0 chunks"] by (simp add: out artifactAuthoritativeChunks_def Let_def)
  have "subseq (map snd (filter (authoritative ?newest) (enumerate 0 chunks))) (map snd (enumerate 0 chunks))"
    by (intro subseq_map subseq_filter_left)
  then show "subseq out chunks" by (simp add: out)
  show "c \<in> set out" if "c \<in> set chunks" "sc_ArtifactKey c = []" for c
  proof -
    from that(1) obtain i where "i < length chunks" "chunks ! i = c" by (metis in_set_conv_nth)
    then have "(i, c) \<in> set (enumerate 0 chunks)" by (auto simp: in_set_enumerate_eq)
    then show ?thesis using that(2) unfolding out by (force simp: authoritative_def)
  qed
  fix a assume a: "a \<in> set chunks" "sc_ArtifactKey a \<noteq> []"
  let ?k = "sc_ArtifactKey a"
  from a(1) obtain m where m: "m < length chunks" "sc_ArtifactKey (chunks ! m) = ?k" by (metis in_set_conv_nth)
  have "case map_of ?newest ?k of None \<Rightarrow> \<forall>m<length chunks. sc_ArtifactKey (chunks ! m) \<noteq> ?k | Some j \<Rightarrow> newestAt chunks (length chunks) ?k j"
    using newestViews_all [of chunks] a(2) by (simp add: newestUpTo_def)
  with m obtain j where j: "map_of ?newest ?k = Some j" "newestAt chunks (length chunks) ?k j"
    by (cases "map_of ?newest ?k") auto
  have "filter (\<lambda>c. sc_ArtifactKey c = ?k) out = map snd (filter (\<lambda>(i, c). i = j) (enumerate 0 chunks))"
    using j a(2) unfolding out filter_map filter_filter
    by (intro arg_cong [of _ _ "map snd"] filter_cong) (auto simp: authoritative_def newestAt_def in_set_enumerate_eq)
  also have "\<dots> = [chunks ! j]" using j(2) by (simp add: filter_enumerate_at newestAt_def)
  finally show "\<exists>c. filter (\<lambda>c. sc_ArtifactKey c = ?k) out = [c] \<and>
      (\<forall>c' \<in> set chunks. sc_ArtifactKey c' = ?k \<longrightarrow> sc_ObservedAt c' \<le> sc_ObservedAt c)"
    using j(2) unfolding newestAt_def by (metis in_set_conv_nth)
qed


section \<open>The stale guard\<close>

lemma unread_fields [simp]:
  "ev_AssemblyMetadata (SetWorkingValueWithClass now k v m env) = ev_AssemblyMetadata env"
  "ev_streamed (SetWorkingValueWithClass now k v m env) = ev_streamed env"
  "ev_AssemblyMetadata (AddStreamedContextReference ref env) = ev_AssemblyMetadata env"
  "ev_streamed (AddStreamedContextReference ref env) = ev_streamed env"
  "ev_AssemblyMetadata (SetStreamedSlice s env) = ev_AssemblyMetadata env"
  "ev_streamed (SetStreamedSlice s env) = s"
  by (simp_all add: SetWorkingValueWithClass_def SetWorkingValueWithOrigin_def AddStreamedContextReference_def SetStreamedSlice_def Let_def)

lemma addStreamedRefs_fields [simp]:
  "ev_AssemblyMetadata (addStreamedRefs ids seen env) = ev_AssemblyMetadata env" "ev_streamed (addStreamedRefs ids seen env) = ev_streamed env"
  by (induction ids seen env rule: addStreamedRefs.induct) simp_all

lemma notes_fields [simp]:
  "ev_AssemblyMetadata (ApplyStaleGaps now c env) = ev_AssemblyMetadata env" "ev_streamed (ApplyStaleGaps now c env) = ev_streamed env"
  "ev_AssemblyMetadata (applyNotes msg now r env) = ev_AssemblyMetadata env" "ev_streamed (applyNotes msg now r env) = ev_streamed env"
  "ev_streamed (applyMetadata r epoch env) = ev_streamed env"
  by (simp_all add: ApplyStaleGaps_def applyNotes_def applyMetadata_def Let_def split: option.split)

lemma applyMetadata_epoch:
  "am_EpochID (ev_AssemblyMetadata env) \<le> am_EpochID (ev_AssemblyMetadata (applyMetadata r epoch env))"
  "am_EpochID (ev_AssemblyMetadata (applyMetadata r epoch env)) \<le> max epoch (am_EpochID (ev_AssemblyMetadata env))"
  by (auto simp: applyMetadata_def Let_def split: option.split)

lemma staleFloor_le:
  "am_EpochID (ev_AssemblyMetadata env) \<le> staleFloor env" "ev_streamed env = Some s \<Longrightarrow> sl_Epoch s \<le> staleFloor env"
  by (auto simp: staleFloor_def Let_def split: option.split)

lemma staleFloor_max: "staleFloor env \<le> e \<longleftrightarrow> am_EpochID (ev_AssemblyMetadata env) \<le> e \<and> (\<forall>s. ev_streamed env = Some s \<longrightarrow> sl_Epoch s \<le> e)"
  by (auto simp: staleFloor_def Let_def split: option.split)

text \<open>The byte test within the range of a Go \<open>int\<close>.\<close>

definition fitsInt :: "int \<Rightarrow> bool" where
  "fitsInt x \<longleftrightarrow> - (2 ^ 63) \<le> x \<and> x < 2 ^ 63"

definition overBudget :: "CompilationResult \<Rightarrow> bool" where
  "overBudget c \<longleftrightarrow>
     cd_OriginalBudget (cm_Record c) > 0 \<and> tokensOf (fst (artifactAuthoritativeChunks (cm_StreamedChunks c))) > 2 * cd_OriginalBudget (cm_Record c)"

lemma goInt_fits: "fitsInt x \<Longrightarrow> goInt x = x"
  by (simp add: fitsInt_def goInt_def signed_take_bit_int_eq_self)

lemma goInt_add: "goInt (goInt x + goInt y) = goInt (x + y)" "goInt (x + goInt y) = goInt (x + y)" "goInt (goInt x * 4) = goInt (x * 4)"
    "goInt (goInt x + y) = goInt (x + y)"
proof -
  show "goInt (goInt x + goInt y) = goInt (x + y)" by (simp add: goInt_def signed_take_bit_add)
  show "goInt (x + goInt y) = goInt (x + y)" unfolding goInt_def by (metis signed_take_bit_add signed_take_bit_signed_take_bit min.idem)
  show "goInt (goInt x * 4) = goInt (x * 4)" unfolding goInt_def by (metis signed_take_bit_mult signed_take_bit_signed_take_bit min.idem)
  show "goInt (goInt x + y) = goInt (x + y)" unfolding goInt_def by (metis signed_take_bit_add signed_take_bit_signed_take_bit min.idem)
qed

lemma byteEstimate_sum: "byteEstimate chunks = goInt (4 * tokensOf chunks)"
proof -
  have "fold (\<lambda>ch n. goInt (n + goInt (sc_TokenEstimate ch * 4))) chunks (goInt n) = goInt (n + 4 * tokensOf chunks)" for n
  proof (induction chunks arbitrary: n)
    case (Cons ch chunks)
    show ?case using Cons [of "n + sc_TokenEstimate ch * 4"] by (simp add: goInt_add tokensOf_def algebra_simps)
  qed (simp add: tokensOf_def)
  from this [of 0] show ?thesis by (simp add: byteEstimate_def goInt_def)
qed

lemma applyStreamedSlice_exact:
  assumes "fitsInt (4 * tokensOf (fst (artifactAuthoritativeChunks (cm_StreamedChunks c))))" and "fitsInt (8 * cd_OriginalBudget (cm_Record c))"
  shows "fst (applyStreamedSlice now c epoch env) = None \<longleftrightarrow> \<not> overBudget c"
    and "snd (applyStreamedSlice now c epoch env) = (if overBudget c then env else SetStreamedSlice (Some (streamedSlice now c epoch)) env)"
proof -
  have s: "sl_BudgetTokens (streamedSlice now c epoch) = cd_OriginalBudget (cm_Record c)"
      "sl_Chunks (streamedSlice now c epoch) = fst (artifactAuthoritativeChunks (cm_StreamedChunks c))"
    by (simp_all add: streamedSlice_def split: prod.split)
  have limit: "goInt (goInt (2 * cd_OriginalBudget (cm_Record c)) * 4) = 8 * cd_OriginalBudget (cm_Record c)"
    using goInt_fits [OF assms(2)] by (simp add: goInt_add(3))
  show "fst (applyStreamedSlice now c epoch env) = None \<longleftrightarrow> \<not> overBudget c"
    and "snd (applyStreamedSlice now c epoch env) = (if overBudget c then env else SetStreamedSlice (Some (streamedSlice now c epoch)) env)"
    unfolding applyStreamedSlice_def Let_def s limit byteEstimate_sum goInt_fits [OF assms(1)] overBudget_def by auto
qed

text \<open>
  \<^bold>\<open>C19.\<close> A compiled result older than the memory order of the envelope is dropped and changes nothing. A current
  one, whose token counts stay in the range of an \<open>int\<close>, is refused exactly if its chunks exceed twice a positive
  budget, and then leaves the slice and the memory order as they were; otherwise it becomes the slice of the envelope
  with its epoch. The memory order of the envelope never goes back.
\<close>

theorem stale_apply_guarded:
  assumes "sr_Compilation r = Some c"
    and "fitsInt (4 * tokensOf (fst (artifactAuthoritativeChunks (cm_StreamedChunks c))))" and "fitsInt (8 * cd_OriginalBudget (cm_Record c))"
  shows "(epoch < staleFloor env \<longrightarrow>
       ApplyResult msg now r epoch env = (Some (ErrStaleApplyDropped (staleFloor env) epoch (rq_ID (sr_Request r))), env)) \<and>
    (staleFloor env \<le> epoch \<and> overBudget c \<longrightarrow>
       (\<exists>err. fst (ApplyResult msg now r epoch env) = Some (ApplyFailed err)) \<and>
       ev_streamed (snd (ApplyResult msg now r epoch env)) = ev_streamed env \<and>
       ev_AssemblyMetadata (snd (ApplyResult msg now r epoch env)) = ev_AssemblyMetadata env) \<and>
    (staleFloor env \<le> epoch \<and> \<not> overBudget c \<longrightarrow>
       fst (ApplyResult msg now r epoch env) = None \<and>
       ev_streamed (snd (ApplyResult msg now r epoch env)) = Some (streamedSlice now c epoch)) \<and>
    staleFloor env \<le> staleFloor (snd (ApplyResult msg now r epoch env)) \<and>
    am_EpochID (ev_AssemblyMetadata env) \<le> am_EpochID (ev_AssemblyMetadata (snd (ApplyResult msg now r epoch env)))"
proof (cases "epoch < staleFloor env")
  case False
  let ?env = "ApplyStaleGaps now c (addStreamedRefs (cm_StreamedRefs c) (ck_ChunkID ` set (rb_StreamedContext (ev_References env))) env)"
  obtain err env2 where s: "applyStreamedSlice now c epoch ?env = (err, env2)" by force
  note exact = applyStreamedSlice_exact [OF assms(2,3), of now epoch ?env, unfolded s fst_conv snd_conv]
  have e: "ApplyResult msg now r epoch env =
      (case err of Some err \<Rightarrow> (Some (ApplyFailed err), env2) | None \<Rightarrow> (None, applyNotes msg now r (applyMetadata r epoch env2)))"
    using assms(1) False s by (simp add: ApplyResult_def Let_def split: option.split)
  have sl: "sl_Epoch (streamedSlice now c epoch) = epoch" by (simp add: streamedSlice_def split: prod.split)
  show ?thesis
  proof (cases err)
    case None
    then have e2: "\<not> overBudget c" "env2 = SetStreamedSlice (Some (streamedSlice now c epoch)) ?env" using exact by simp_all
    let ?out = "applyNotes msg now r (applyMetadata r epoch env2)"
    have out: "ApplyResult msg now r epoch env = (None, ?out)" using e None by simp
    have "ev_streamed ?out = Some (streamedSlice now c epoch)" using e2 by simp
    moreover from staleFloor_le(2) [OF this] have "epoch \<le> staleFloor ?out" by (simp add: sl)
    moreover have "am_EpochID (ev_AssemblyMetadata env) \<le> am_EpochID (ev_AssemblyMetadata ?out)"
      using applyMetadata_epoch(1) [of env2 r epoch] e2 by simp
    ultimately show ?thesis using False e2(1) unfolding out by auto
  next
    case (Some e')
    then have "overBudget c" "env2 = ?env" using exact by (auto split: if_splits)
    moreover from this have "ev_streamed env2 = ev_streamed env" "ev_AssemblyMetadata env2 = ev_AssemblyMetadata env" by simp_all
    moreover from this have "staleFloor env2 = staleFloor env" by (simp add: staleFloor_def)
    ultimately show ?thesis using False e Some by simp
  qed
qed (use assms(1) in \<open>simp add: ApplyResult_def\<close>)

text \<open>Beyond that range the limit wraps: a budget of \<open>2 ^ 60\<close> tokens refuses every chunk.\<close>

lemma budget_limit_wraps: "goInt (goInt (2 * 2 ^ 60) * 4) = - (2 ^ 63)"
  by code_simp

section \<open>What renders\<close>

lemma renderChunks_ok: "(\<exists>s. renderChunks i cs = Inr s) \<longleftrightarrow> (\<forall>c \<in> set cs. TrimSpace (sc_Body c) \<noteq> [])"
proof (induction cs arbitrary: i)
  case (Cons c cs)
  from Cons [of "Suc i"] show ?case by (cases "renderChunks (Suc i) cs") auto
qed simp

lemma render_iff:
  assumes "ev_streamed env = Some s" and "sl_Chunks s \<noteq> []"
  shows "(\<exists>out. RenderStreamedSection q env = Inr out) \<longleftrightarrow>
    (\<forall>c \<in> set (sl_Chunks s). TrimSpace (sc_Body c) \<noteq> []) \<and>
    (sl_FinalTokens s > 0 \<longrightarrow> 10 * \<bar>tokensOf (sl_Chunks s) - sl_FinalTokens s\<bar> \<le> sl_FinalTokens s)"
  unfolding renderChunks_ok [of 0, symmetric]
  using assms by (cases "renderChunks 0 (sl_Chunks s)") (auto simp: RenderStreamedSection_def Let_def)

definition exChunk :: "string \<Rightarrow> time \<Rightarrow> StreamedChunk" where
  "exChunk i at = \<lparr>sc_ChunkID = i, sc_ContentHash = i, sc_Body = ''text'', sc_TokenEstimate = 100, sc_TrustClass = [], sc_IsSummary = False,
     sc_ArtifactKey = ''file.go'', sc_ObservedAt = at\<rparr>"

definition exCompilation :: CompilationResult where
  "exCompilation = \<lparr>cm_StreamedChunks = [exChunk ''c1'' 1, exChunk ''c2'' 2], cm_ShortfallTokens = 0, cm_StreamedRefs = [''c1'', ''c2''],
     cm_SkippedStaleChunks = [], cm_Substitutions = [],
     cm_Record = \<lparr>cd_ID = ''r'', cd_OriginalBudget = 400, cd_FinalTokens = 200, cd_CacheHit = False\<rparr>\<rparr>"

definition exResult :: StreamResult where
  "exResult = \<lparr>sr_Request = \<lparr>rq_ID = ''q'', rq_Text = [], rq_MaxTokens = 400, rq_EventLogSeq = 0, rq_EpochID = 1, rq_RunID = [], rq_Mode = ''blocking'',
       rq_Metadata = [], rq_RequestedAt = 0\<rparr>,
     sr_Compilation = Some exCompilation, sr_Record = Some (cm_Record exCompilation),
     sr_Trim = \<lparr>tm_BudgetTokens = 400, tm_ShortfallTokens = 0, tm_Substitutions = []\<rparr>, sr_Err = None\<rparr>"

theorem stale_apply_guarded_witness:
  "ApplyResult (\<lambda>_. []) 0 exResult 0 ((NewEnvelope 0 ''t'' ''s'')\<lparr>ev_AssemblyMetadata := zeroAssembly\<lparr>am_EpochID := 3\<rparr>\<rparr>) =
     (Some (ErrStaleApplyDropped 3 0 ''q''), (NewEnvelope 0 ''t'' ''s'')\<lparr>ev_AssemblyMetadata := zeroAssembly\<lparr>am_EpochID := 3\<rparr>\<rparr>) \<and>
   fst (ApplyResult (\<lambda>_. []) 0 exResult 1 (NewEnvelope 0 ''t'' ''s'')) = None"
proof -
  let ?env = "(NewEnvelope 0 ''t'' ''s'')\<lparr>ev_AssemblyMetadata := zeroAssembly\<lparr>am_EpochID := 3\<rparr>\<rparr>"
  have floor: "staleFloor ?env = 3" "staleFloor (NewEnvelope 0 ''t'' ''s'') \<le> 1" by code_simp+
  have r: "sr_Compilation exResult = Some exCompilation" "rq_ID (sr_Request exResult) = ''q''" by (simp_all add: exResult_def)
  have "tokensOf (fst (artifactAuthoritativeChunks (cm_StreamedChunks exCompilation))) = 100" "cd_OriginalBudget (cm_Record exCompilation) = 400"
    by code_simp+
  then have fits: "fitsInt (4 * tokensOf (fst (artifactAuthoritativeChunks (cm_StreamedChunks exCompilation))))"
      "fitsInt (8 * cd_OriginalBudget (cm_Record exCompilation))" "\<not> overBudget exCompilation" by (simp_all add: fitsInt_def overBudget_def)
  show ?thesis
    using stale_apply_guarded [OF r(1) fits(1,2), of 0 ?env] stale_apply_guarded [OF r(1) fits(1,2), of 1 "NewEnvelope 0 ''t'' ''s''"] floor r(2) fits(3)
    by simp
qed

theorem one_view_per_artifact_witness:
  "\<exists>c. filter (\<lambda>c. sc_ArtifactKey c = ''file.go'') (fst (artifactAuthoritativeChunks [exChunk ''c1'' 1, exChunk ''c2'' 2])) = [c]"
proof -
  have "exChunk ''c1'' 1 \<in> set [exChunk ''c1'' 1, exChunk ''c2'' 2]" "sc_ArtifactKey (exChunk ''c1'' 1) = ''file.go''" by (simp_all add: exChunk_def)
  with one_view_per_artifact [of "[exChunk ''c1'' 1, exChunk ''c2'' 2]"] show ?thesis by (metis list.discI)
qed

text \<open>
  A compilation whose token accounting is exact and that holds two views of one file: the older view is
  left out of the slice, its tokens stay in the count, and the slice does not render.
\<close>

lemma elided_view_breaks_render:
  "tokensOf (cm_StreamedChunks exCompilation) = cd_FinalTokens (cm_Record exCompilation)"
  "fst (ApplyResult (\<lambda>_. []) 0 exResult 1 (NewEnvelope 0 ''t'' ''s'')) = None"
  "RenderStreamedSection (\<lambda>s. s) (snd (ApplyResult (\<lambda>_. []) 0 exResult 1 (NewEnvelope 0 ''t'' ''s''))) = Inl (ErrSliceTokenMismatch 100 200)"
  by code_simp+

end
