(* ===== verification/Epoch.thy ===== *)
theory Epoch
  imports ContextStream
begin

text \<open>
  The epoch coordinator of a graph run (\<open>execution/agentgraph/epoch.go\<close>): captures are queued as nodes run, a
  barrier takes the queue, grounds it through the durable store, lands the background stream jobs and
  opens the next epoch. Every critical section is a step, so captures and jobs arrive between any two of
  them. The grounder and the fate of the jobs are arbitrary. Epochs are counted without the wrap at
  \<open>2 ^ 64\<close>: each barrier adds one.
\<close>

section \<open>The coordinator\<close>

record GroundingItem =
  gi_Body :: string
  gi_Epoch :: int

record EpochCoordinator =
  ec_epoch :: int
  ec_inFlush :: bool
  ec_items :: "GroundingItem list"
  ec_jobs :: "string list"
  ec_finalized :: bool
  ec_runID :: string

text \<open>A fresh coordinator adopts the epoch of an envelope that has already been through barriers.\<close>

definition NewEpochCoordinator :: "string \<Rightarrow> Envelope \<Rightarrow> EpochCoordinator \<times> Envelope" where
  "NewEpochCoordinator runID env =
     (let adopted = am_EpochID (ev_AssemblyMetadata env);
          epoch = (if adopted > 1 then adopted else 1)
      in (\<lparr>ec_epoch = epoch, ec_inFlush = False, ec_items = [], ec_jobs = [], ec_finalized = False, ec_runID = runID\<rparr>,
          env\<lparr>ev_AssemblyMetadata := (ev_AssemblyMetadata env)\<lparr>am_EpochID := epoch, am_RunID := runID\<rparr>\<rparr>))"

definition EnqueueCapture :: "GroundingItem \<Rightarrow> EpochCoordinator \<Rightarrow> EpochCoordinator" where
  "EnqueueCapture item c =
     c\<lparr>ec_items := ec_items c @ [item\<lparr>gi_Epoch := (if ec_inFlush c then ec_epoch c + 1 else ec_epoch c)\<rparr>]\<rparr>"

definition TrackStreamJob :: "string \<Rightarrow> EpochCoordinator \<Rightarrow> EpochCoordinator" where
  "TrackStreamJob job c = c\<lparr>ec_jobs := ec_jobs c @ [job]\<rparr>"

definition Pending :: "EpochCoordinator \<Rightarrow> nat \<times> nat" where
  "Pending c = (length (ec_items c), length (ec_jobs c))"

text \<open>The first critical section of a barrier: what it takes, if anything.\<close>

definition barrierTake :: "bool \<Rightarrow> EpochCoordinator \<Rightarrow> (EpochCoordinator \<times> int \<times> GroundingItem list \<times> string list) option" where
  "barrierTake unconditional c =
     (if \<not> unconditional \<and> ec_items c = [] \<and> ec_jobs c = [] then None
      else if ec_finalized c then None
      else Some (c\<lparr>ec_finalized := (if unconditional then True else ec_finalized c), ec_items := [], ec_jobs := [], ec_inFlush := True\<rparr>,
                 ec_epoch c, ec_items c, ec_jobs c))"

text \<open>Its last one.\<close>

definition barrierEnd :: "int \<Rightarrow> goerr option \<Rightarrow> EpochCoordinator \<Rightarrow> EpochCoordinator" where
  "barrierEnd epoch err c =
     (let c = c\<lparr>ec_inFlush := False\<rparr> in if err = None then c\<lparr>ec_epoch := epoch + 1\<rparr> else c)"

text \<open>
  The grounding of a batch: one attempt, and a second after the backoff unless the run ends meanwhile.
  The result is the error that aborts the barrier.
\<close>

definition groundEpoch :: "int \<Rightarrow> GroundingItem list \<Rightarrow> goerr option \<Rightarrow> bool \<Rightarrow> goerr option \<Rightarrow> goerr option" where
  "groundEpoch epoch items first cancelled second =
     (let wrap = (\<lambda>err. Wrap (''epoch '' @ fmtInt epoch @ '' grounding: '') err) in
      if items = [] then None
      else case first of
             None \<Rightarrow> None
           | Some err \<Rightarrow> if cancelled then Some (wrap err) else map_option wrap second)"

datatype jobFate =
    JobDone "StreamResult option" "goerr option"
  | JobAbandoned

text \<open>\<open>canceled\<close> recognizes \<open>context.Canceled\<close>; a stale result is dropped without an error.\<close>

definition awaitJob ::
  "(goerr \<Rightarrow> string) \<Rightarrow> (goerr \<Rightarrow> bool) \<Rightarrow> time \<Rightarrow> int \<Rightarrow> jobFate \<Rightarrow> goerr option \<times> Envelope \<Rightarrow> goerr option \<times> Envelope" where
  "awaitJob msg canceled now epoch fate st =
     (case st of (earlier, env) \<Rightarrow>
        case fate of
          JobAbandoned \<Rightarrow> (earlier, env)
        | JobDone res err \<Rightarrow>
            let earlier = (case err of Some e \<Rightarrow> if \<not> canceled e \<and> earlier = None then Some e else earlier | None \<Rightarrow> earlier);
                (earlier, env) =
                  (case res of
                     None \<Rightarrow> (earlier, env)
                   | Some r \<Rightarrow>
                       (case ApplyResult msg now r epoch env of
                          (Some (ApplyFailed e), env) \<Rightarrow> (if earlier = None then Some e else earlier, env)
                        | (_, env) \<Rightarrow> (earlier, env)))
            in (earlier,
                case err of
                  None \<Rightarrow> env
                | Some e \<Rightarrow> SetWorkingValueWithClass now ''contextstream.background_error'' (GString (msg e)) MemoryClassTask env))"

definition awaitJobs ::
  "(goerr \<Rightarrow> string) \<Rightarrow> (goerr \<Rightarrow> bool) \<Rightarrow> time \<Rightarrow> int \<Rightarrow> jobFate list \<Rightarrow> Envelope \<Rightarrow> goerr option \<times> Envelope" where
  "awaitJobs msg canceled now epoch fates env = fold (awaitJob msg canceled now epoch) fates (None, env)"

definition mirrorEpoch :: "int \<Rightarrow> Envelope \<Rightarrow> Envelope" where
  "mirrorEpoch epoch env = env\<lparr>ev_AssemblyMetadata := (ev_AssemblyMetadata env)\<lparr>am_EpochID := epoch\<rparr>\<rparr>"

section \<open>A run\<close>

text \<open>
  The barrier that holds \<open>barrierMu\<close>, by what it has done: taken a batch, grounded it, awaited the jobs,
  advanced the counter, or only its last critical section to go. The log of a run has for each batch the
  epoch that took it, whether it was grounded, and its captures.
\<close>

datatype phase =
    Idle
  | Flushing int "GroundingItem list" "string list"
  | Grounded int "string list"
  | Awaited int "goerr option"
  | Closing int "goerr option"
  | Ending int "goerr option"

record epochRun =
  er_coord :: EpochCoordinator
  er_env :: Envelope
  er_phase :: phase
  er_batches :: "(int \<times> bool \<times> GroundingItem list) list"
  er_captured :: "string list"

definition startRun :: "string \<Rightarrow> Envelope \<Rightarrow> epochRun" where
  "startRun runID env =
     (case NewEpochCoordinator runID env of (c, env) \<Rightarrow>
        \<lparr>er_coord = c, er_env = env, er_phase = Idle, er_batches = [], er_captured = []\<rparr>)"

text \<open>Nodes work on the envelope between the steps; they leave its epoch alone.\<close>

inductive epochStep :: "(goerr \<Rightarrow> string) \<Rightarrow> (goerr \<Rightarrow> bool) \<Rightarrow> epochRun \<Rightarrow> epochRun \<Rightarrow> bool"
  for msg canceled where
  capture: "epochStep msg canceled s
      (s\<lparr>er_coord := EnqueueCapture item (er_coord s), er_captured := er_captured s @ [gi_Body item]\<rparr>)"
| track: "epochStep msg canceled s (s\<lparr>er_coord := TrackStreamJob job (er_coord s)\<rparr>)"
| node: "am_EpochID (ev_AssemblyMetadata env) = am_EpochID (ev_AssemblyMetadata (er_env s)) \<Longrightarrow>
    epochStep msg canceled s (s\<lparr>er_env := env\<rparr>)"
| take: "er_phase s = Idle \<Longrightarrow> barrierTake unconditional (er_coord s) = Some (c, epoch, items, jobs) \<Longrightarrow>
    epochStep msg canceled s (s\<lparr>er_coord := c, er_phase := Flushing epoch items jobs\<rparr>)"
| ground: "er_phase s = Flushing epoch items jobs \<Longrightarrow> groundEpoch epoch items first cancelled second = None \<Longrightarrow>
    epochStep msg canceled s (s\<lparr>er_phase := Grounded epoch jobs, er_batches := er_batches s @ [(epoch, True, items)]\<rparr>)"
| fail: "er_phase s = Flushing epoch items jobs \<Longrightarrow> groundEpoch epoch items first cancelled second = Some err \<Longrightarrow>
    epochStep msg canceled s (s\<lparr>er_phase := Ending epoch (Some err), er_batches := er_batches s @ [(epoch, False, items)]\<rparr>)"
| await: "er_phase s = Grounded epoch jobs \<Longrightarrow> length fates = length jobs \<Longrightarrow>
    awaitJobs msg canceled now epoch fates (er_env s) = (err, env) \<Longrightarrow>
    epochStep msg canceled s (s\<lparr>er_env := env, er_phase := Awaited epoch err\<rparr>)"
| close: "er_phase s = Awaited epoch err \<Longrightarrow>
    epochStep msg canceled s (s\<lparr>er_coord := (er_coord s)\<lparr>ec_epoch := epoch + 1\<rparr>, er_phase := Closing epoch err\<rparr>)"
| mirror: "er_phase s = Closing epoch err \<Longrightarrow>
    epochStep msg canceled s (s\<lparr>er_env := mirrorEpoch (epoch + 1) (er_env s), er_phase := Ending epoch err\<rparr>)"
| finish: "er_phase s = Ending epoch err \<Longrightarrow>
    epochStep msg canceled s (s\<lparr>er_coord := barrierEnd epoch err (er_coord s), er_phase := Idle\<rparr>)"

inductive reachable :: "(goerr \<Rightarrow> string) \<Rightarrow> (goerr \<Rightarrow> bool) \<Rightarrow> epochRun \<Rightarrow> epochRun \<Rightarrow> bool"
  for msg canceled s0 where
  init: "reachable msg canceled s0 s0"
| step: "reachable msg canceled s0 s \<Longrightarrow> epochStep msg canceled s s' \<Longrightarrow> reachable msg canceled s0 s'"

section \<open>Invariant\<close>

fun inFlight :: "phase \<Rightarrow> GroundingItem list" where
  "inFlight (Flushing e items jobs) = items"
| "inFlight _ = []"

text \<open>The counter and the epoch of the envelope in each phase, and whether the pending captures were all queued during the flush.\<close>

fun phaseOk :: "phase \<Rightarrow> bool \<Rightarrow> int \<Rightarrow> int \<Rightarrow> bool" where
  "phaseOk Idle flush n m \<longleftrightarrow> \<not> flush \<and> m = n"
| "phaseOk (Flushing e items jobs) flush n m \<longleftrightarrow> flush \<and> n = e \<and> m = e"
| "phaseOk (Grounded e jobs) flush n m \<longleftrightarrow> flush \<and> n = e \<and> m = e"
| "phaseOk (Awaited e err) flush n m \<longleftrightarrow> flush \<and> n = e \<and> m = e"
| "phaseOk (Closing e err) flush n m \<longleftrightarrow> flush \<and> n = e + 1 \<and> m = e"
| "phaseOk (Ending e err) flush n m \<longleftrightarrow> flush \<and> m = n \<and> (n = e + 1 \<or> n = e \<and> err \<noteq> None)"

fun beforeClose :: "phase \<Rightarrow> bool" where
  "beforeClose (Flushing e items jobs) = True"
| "beforeClose (Grounded e jobs) = True"
| "beforeClose (Awaited e err) = True"
| "beforeClose _ = False"

fun groundedNow :: "phase \<Rightarrow> bool" where
  "groundedNow (Grounded e jobs) = True"
| "groundedNow (Awaited e err) = True"
| "groundedNow _ = False"

definition stampsOk :: "phase \<Rightarrow> int \<Rightarrow> GroundingItem list \<Rightarrow> bool" where
  "stampsOk ph n items \<longleftrightarrow> (\<forall>i \<in> set items. if beforeClose ph then gi_Epoch i = n + 1 else n \<le> gi_Epoch i \<and> gi_Epoch i \<le> n + 1)"

definition batchOk :: "int \<times> bool \<times> GroundingItem list \<Rightarrow> bool" where
  "batchOk b = (case b of (e, ok, items) \<Rightarrow> \<forall>i \<in> set items. e \<le> gi_Epoch i \<and> gi_Epoch i \<le> e + 1)"

definition groundedEpochs :: "(int \<times> bool \<times> GroundingItem list) list \<Rightarrow> int list" where
  "groundedEpochs bs = map fst (filter (\<lambda>b. fst (snd b)) bs)"

definition epochInv :: "epochRun \<Rightarrow> bool" where
  "epochInv s \<longleftrightarrow>
     phaseOk (er_phase s) (ec_inFlush (er_coord s)) (ec_epoch (er_coord s)) (am_EpochID (ev_AssemblyMetadata (er_env s))) \<and>
     er_captured s = map gi_Body (concat (map (snd \<circ> snd) (er_batches s)) @ inFlight (er_phase s) @ ec_items (er_coord s)) \<and>
     stampsOk (er_phase s) (ec_epoch (er_coord s)) (ec_items (er_coord s)) \<and>
     (\<forall>i \<in> set (inFlight (er_phase s)). ec_epoch (er_coord s) \<le> gi_Epoch i \<and> gi_Epoch i \<le> ec_epoch (er_coord s) + 1) \<and>
     (\<forall>b \<in> set (er_batches s). batchOk b) \<and>
     sorted_wrt (<) (groundedEpochs (er_batches s)) \<and>
     (\<forall>e \<in> set (groundedEpochs (er_batches s)). e < ec_epoch (er_coord s) + (if groundedNow (er_phase s) then 1 else 0))"

text \<open>
  What a barrier lands keeps the epoch of the envelope, which is the one it closes, and touches the slice only if the
  slice is not ahead of it.
\<close>

lemma ApplyResult_landed:
  assumes "am_EpochID (ev_AssemblyMetadata env) = e"
  shows "am_EpochID (ev_AssemblyMetadata (snd (ApplyResult msg now r e env))) = e \<and>
    (e < staleFloor env \<longrightarrow> ev_streamed (snd (ApplyResult msg now r e env)) = ev_streamed env)"
proof -
  have meta: "am_EpochID (ev_AssemblyMetadata (applyMetadata r e env')) = e" if "am_EpochID (ev_AssemblyMetadata env') = e" for env'
    using applyMetadata_epoch [where env = env' and r = r and epoch = e] that by simp
  show ?thesis
    using assms by (auto simp: ApplyResult_def applyStreamedSlice_def Let_def meta split: option.splits if_splits prod.splits)
qed

lemma awaitJob_landed:
  assumes "am_EpochID (ev_AssemblyMetadata env) = e" and "awaitJob msg canceled now e fate (earlier, env) = (err, env')"
  shows "am_EpochID (ev_AssemblyMetadata env') = e \<and> (e < staleFloor env \<longrightarrow> ev_streamed env' = ev_streamed env)"
proof (cases fate)
  case (JobDone res jerr)
  show ?thesis
  proof (cases res)
    case None
    with JobDone assms show ?thesis by (auto simp: awaitJob_def Let_def split: option.splits)
  next
    case (Some r)
    obtain a env1 where "ApplyResult msg now r e env = (a, env1)" by force
    with ApplyResult_landed [OF assms(1), of msg now r] JobDone Some assms(2) show ?thesis
      by (auto simp: awaitJob_def Let_def split: option.splits applyErr.splits)
  qed
qed (use assms in \<open>simp add: awaitJob_def\<close>)

lemma awaitJobs_landed:
  assumes "am_EpochID (ev_AssemblyMetadata env) = e" and "awaitJobs msg canceled now e fates env = (err, env')"
  shows "am_EpochID (ev_AssemblyMetadata env') = e \<and> (e < staleFloor env \<longrightarrow> ev_streamed env' = ev_streamed env)"
proof -
  have floor: "staleFloor env' = staleFloor env" if "am_EpochID (ev_AssemblyMetadata env') = am_EpochID (ev_AssemblyMetadata env)"
      "ev_streamed env' = ev_streamed env" for env' env using that by (simp add: staleFloor_def)
  have "am_EpochID (ev_AssemblyMetadata (snd (fold (awaitJob msg canceled now e) fates st))) = e \<and>
      (e < staleFloor (snd st) \<longrightarrow> ev_streamed (snd (fold (awaitJob msg canceled now e) fates st)) = ev_streamed (snd st))"
    if "am_EpochID (ev_AssemblyMetadata (snd st)) = e" for st
    using that
  proof (induction fates arbitrary: st)
    case (Cons f fs)
    obtain err' env' where f: "awaitJob msg canceled now e f st = (err', env')" by force
    then have "am_EpochID (ev_AssemblyMetadata env') = e \<and> (e < staleFloor (snd st) \<longrightarrow> ev_streamed env' = ev_streamed (snd st))"
      using awaitJob_landed [of "snd st" e msg canceled now f "fst st" err' env'] Cons.prems by simp
    with Cons.IH [of "(err', env')"] Cons.prems floor [of env' "snd st"] f show ?case by auto
  qed simp
  from this [of "(None, env)"] assms show ?thesis by (simp add: awaitJobs_def)
qed


lemma stampsOk_snoc: "stampsOk ph n (items @ [i]) \<longleftrightarrow> stampsOk ph n items \<and> stampsOk ph n [i]"
  by (auto simp: stampsOk_def)

lemma EnqueueCapture_stamp:
  assumes "phaseOk ph (ec_inFlush c) (ec_epoch c) m"
  shows "stampsOk ph (ec_epoch c) [item\<lparr>gi_Epoch := (if ec_inFlush c then ec_epoch c + 1 else ec_epoch c)\<rparr>]"
  using assms by (cases ph) (auto simp: stampsOk_def)

lemma sorted_snoc_int: "sorted_wrt (<) (xs @ [x :: int]) \<longleftrightarrow> sorted_wrt (<) xs \<and> (\<forall>y \<in> set xs. y < x)"
  by (simp add: sorted_wrt_append)

lemma groundedEpochs_snoc: "groundedEpochs (bs @ [(e, ok, items)]) = groundedEpochs bs @ (if ok then [e] else [])"
  by (simp add: groundedEpochs_def)

lemma barrierTake_Some:
  assumes "barrierTake u c = Some (c', e, items, jobs)"
  shows "ec_epoch c' = ec_epoch c" "ec_inFlush c'" "ec_items c' = []" "e = ec_epoch c" "items = ec_items c" "\<not> ec_finalized c"
  using assms by (auto simp: barrierTake_def split: if_splits)

lemma epochInv_step:
  assumes "epochStep msg canceled s s'" and inv: "epochInv s"
  shows "epochInv s'"
  using assms(1)
proof cases
  case (capture item)
  from inv have "stampsOk (er_phase s) (ec_epoch (er_coord s))
      [item\<lparr>gi_Epoch := (if ec_inFlush (er_coord s) then ec_epoch (er_coord s) + 1 else ec_epoch (er_coord s))\<rparr>]"
    unfolding epochInv_def by (intro EnqueueCapture_stamp [of _ _ "am_EpochID (ev_AssemblyMetadata (er_env s))"]) simp
  with inv show ?thesis unfolding capture epochInv_def EnqueueCapture_def by (simp add: stampsOk_snoc)
next
  case (track job)
  with inv show ?thesis by (simp add: epochInv_def TrackStreamJob_def)
next
  case (node env)
  with inv show ?thesis by (simp add: epochInv_def)
next
  case (take unconditional c epoch items jobs)
  note t = barrierTake_Some [OF take(3)]
  from inv take(2) t show ?thesis unfolding take(1) epochInv_def by (auto simp: stampsOk_def)
next
  case (ground epoch items jobs first cancelled second)
  from inv ground(2) have "\<forall>e \<in> set (groundedEpochs (er_batches s)). e < epoch" "ec_epoch (er_coord s) = epoch" by (auto simp: epochInv_def)
  with inv ground(2) show ?thesis
    unfolding ground(1) epochInv_def by (auto simp: groundedEpochs_snoc sorted_snoc_int batchOk_def stampsOk_def)
next
  case (fail epoch items jobs first cancelled second err)
  with inv show ?thesis
    unfolding fail(1) epochInv_def by (auto simp: groundedEpochs_snoc batchOk_def stampsOk_def)
next
  case (await epoch jobs fates now err env)
  have "am_EpochID (ev_AssemblyMetadata env) = epoch"
    using awaitJobs_landed [OF _ await(4)] inv await(2) by (auto simp: epochInv_def)
  with inv await(2) show ?thesis unfolding await(1) epochInv_def by (auto simp: stampsOk_def)
next
  case (close epoch err)
  with inv show ?thesis unfolding close(1) epochInv_def by (auto simp: stampsOk_def)
next
  case (mirror epoch err)
  from inv mirror(2) show ?thesis unfolding mirror(1) epochInv_def by (auto simp: stampsOk_def mirrorEpoch_def)
next
  case (finish epoch err)
  with inv show ?thesis unfolding finish(1) epochInv_def by (auto simp: stampsOk_def barrierEnd_def Let_def)
qed

lemma epochInv_start: "epochInv (startRun runID env)"
  by (auto simp: startRun_def NewEpochCoordinator_def Let_def epochInv_def stampsOk_def groundedEpochs_def)

lemma reachable_inv: "reachable msg canceled s0 s \<Longrightarrow> epochInv s0 \<Longrightarrow> epochInv s"
  by (induction rule: reachable.induct) (auto intro: epochInv_step)

text \<open>
  \<^bold>\<open>C18.\<close> In every interleaving of captures, background jobs and barriers with nodes that leave the epoch of the envelope alone
  the captures are conserved in order: those the barriers took, grounded or lost to a failed grounding, then the batch
  in flight, then the queue. Grounded batches have increasing epochs, a capture is stamped with the epoch that takes it
  or the one after it, and between barriers the epoch of the envelope is the counter. Whatever jobs a barrier
  waits for, a slice that is ahead of the epoch it closes stays in place.
\<close>

theorem epoch_order:
  assumes "reachable msg canceled (startRun runID env) s"
  shows "er_captured s = map gi_Body (concat (map (snd \<circ> snd) (er_batches s)) @ inFlight (er_phase s) @ ec_items (er_coord s)) \<and>
    sorted_wrt (<) (groundedEpochs (er_batches s)) \<and>
    (\<forall>(e, ok, items) \<in> set (er_batches s). \<forall>i \<in> set items. gi_Epoch i \<in> {e, e + 1}) \<and>
    (er_phase s = Idle \<longrightarrow> am_EpochID (ev_AssemblyMetadata (er_env s)) = ec_epoch (er_coord s)) \<and>
    (\<forall>epoch jobs fates now. er_phase s = Grounded epoch jobs \<and> epoch < staleFloor (er_env s) \<longrightarrow>
       ev_streamed (snd (awaitJobs msg canceled now epoch fates (er_env s))) = ev_streamed (er_env s))"
proof -
  have inv: "epochInv s" using reachable_inv [OF assms epochInv_start] .
  have "gi_Epoch i \<in> {e, e + 1}" if "(e, ok, items) \<in> set (er_batches s)" "i \<in> set items" for e ok items i
    using inv that unfolding epochInv_def batchOk_def by fastforce
  moreover have "ev_streamed (snd (awaitJobs msg canceled now epoch fates (er_env s))) = ev_streamed (er_env s)"
    if "er_phase s = Grounded epoch jobs" "epoch < staleFloor (er_env s)" for epoch jobs fates now
  proof -
    have "am_EpochID (ev_AssemblyMetadata (er_env s)) = epoch" using inv that(1) by (simp add: epochInv_def)
    from awaitJobs_landed [OF this prod.collapse [symmetric]] that(2) show ?thesis by blast
  qed
  ultimately show ?thesis using inv unfolding epochInv_def by auto
qed

text \<open>After the final barrier no barrier takes anything: what is captured later stays in the queue.\<close>

lemma finalized_takes_nothing: "ec_finalized c \<Longrightarrow> barrierTake u c = None"
  by (simp add: barrierTake_def)

section \<open>A late stamp\<close>

definition exRun :: epochRun where
  "exRun = startRun ''run'' (NewEnvelope 0 ''t'' ''s'')"

definition exItem :: "string \<Rightarrow> GroundingItem" where
  "exItem b = \<lparr>gi_Body = b, gi_Epoch = 0\<rparr>"

text \<open>
  The first epoch is closed with one capture; a second capture arrives after the counter has advanced and
  before the barrier has ended. It is stamped with epoch 3, and the next barrier, which closes epoch 2,
  takes it.
\<close>

definition lateRun :: epochRun where
  "lateRun =
     \<lparr>er_coord = \<lparr>ec_epoch = 2, ec_inFlush = True, ec_items = [], ec_jobs = [], ec_finalized = False, ec_runID = ''run''\<rparr>,
      er_env = mirrorEpoch 2 (er_env exRun), er_phase = Grounded 2 [],
      er_batches = [(1, True, [\<lparr>gi_Body = ''a'', gi_Epoch = 1\<rparr>]), (2, True, [\<lparr>gi_Body = ''b'', gi_Epoch = 3\<rparr>])], er_captured = [''a'', ''b'']\<rparr>"

lemma late_capture_stamped_ahead: "reachable msg canceled exRun lateRun"
proof -
  let ?c = "\<lparr>ec_epoch = 1, ec_inFlush = True, ec_items = [], ec_jobs = [], ec_finalized = False, ec_runID = ''run''\<rparr>"
  let ?a = "\<lparr>gi_Body = ''a'', gi_Epoch = 1\<rparr>" let ?b = "\<lparr>gi_Body = ''b'', gi_Epoch = 3\<rparr>"
  define E where "E = er_env exRun"
  define mk where "mk c env ph bs cs = \<lparr>er_coord = c, er_env = env, er_phase = ph, er_batches = bs, er_captured = cs\<rparr>" for c env ph bs cs
  have s0: "exRun = mk (?c\<lparr>ec_inFlush := False\<rparr>) E Idle [] []"
    by (simp add: mk_def E_def exRun_def startRun_def NewEpochCoordinator_def NewEnvelope_def zeroAssembly_def Let_def)
  have r1: "reachable msg canceled exRun (mk (?c\<lparr>ec_inFlush := False, ec_items := [?a]\<rparr>) E Idle [] [''a''])"
    using reachable.step [OF reachable.init epochStep.capture [of msg canceled exRun "exItem ''a''"]]
    unfolding s0 by (simp add: mk_def EnqueueCapture_def exItem_def)
  have r2: "reachable msg canceled exRun (mk ?c E (Flushing 1 [?a] []) [] [''a''])"
    using reachable.step [OF r1 epochStep.take [where unconditional = False and c = ?c and epoch = 1 and items = "[?a]" and jobs = "[]"]]
    by (simp add: mk_def barrierTake_def)
  have r3: "reachable msg canceled exRun (mk ?c E (Grounded 1 []) [(1, True, [?a])] [''a''])"
    using reachable.step [OF r2 epochStep.ground [where epoch = 1 and items = "[?a]" and jobs = "[]" and first = None and cancelled = False and second = None]]
    by (simp add: mk_def groundEpoch_def)
  have r4: "reachable msg canceled exRun (mk ?c E (Awaited 1 None) [(1, True, [?a])] [''a''])"
    using reachable.step [OF r3 epochStep.await [where epoch = 1 and jobs = "[]" and fates = "[]" and now = 0 and err = None and env = E]]
    by (simp add: mk_def awaitJobs_def)
  have r5: "reachable msg canceled exRun (mk (?c\<lparr>ec_epoch := 2\<rparr>) E (Closing 1 None) [(1, True, [?a])] [''a''])"
    using reachable.step [OF r4 epochStep.close [where epoch = 1 and err = None]] by (simp add: mk_def)
  have r6: "reachable msg canceled exRun (mk (?c\<lparr>ec_epoch := 2, ec_items := [?b]\<rparr>) E (Closing 1 None) [(1, True, [?a])] [''a'', ''b''])"
    using reachable.step [OF r5 epochStep.capture [where item = "exItem ''b''"]] by (simp add: mk_def EnqueueCapture_def exItem_def)
  have r7: "reachable msg canceled exRun (mk (?c\<lparr>ec_epoch := 2, ec_items := [?b]\<rparr>) (mirrorEpoch 2 E) (Ending 1 None) [(1, True, [?a])] [''a'', ''b''])"
    using reachable.step [OF r6 epochStep.mirror [where epoch = 1 and err = None]] by (simp add: mk_def)
  have r8: "reachable msg canceled exRun (mk (?c\<lparr>ec_epoch := 2, ec_items := [?b], ec_inFlush := False\<rparr>) (mirrorEpoch 2 E) Idle [(1, True, [?a])] [''a'', ''b''])"
    using reachable.step [OF r7 epochStep.finish [where epoch = 1 and err = None]] by (simp add: mk_def barrierEnd_def)
  have r9: "reachable msg canceled exRun (mk (?c\<lparr>ec_epoch := 2\<rparr>) (mirrorEpoch 2 E) (Flushing 2 [?b] []) [(1, True, [?a])] [''a'', ''b''])"
    using reachable.step [OF r8 epochStep.take [where unconditional = False and c = "?c\<lparr>ec_epoch := 2\<rparr>" and epoch = 2 and items = "[?b]" and jobs = "[]"]]
    by (simp add: mk_def barrierTake_def)
  show ?thesis
    using reachable.step [OF r9 epochStep.ground [where epoch = 2 and items = "[?b]" and jobs = "[]" and first = None and cancelled = False and second = None]]
    by (simp add: mk_def groundEpoch_def lateRun_def E_def)
qed

theorem epoch_order_witness: "sorted_wrt (<) (groundedEpochs (er_batches lateRun)) \<and> er_captured lateRun = [''a'', ''b'']"
proof -
  from epoch_order [OF late_capture_stamped_ahead [unfolded exRun_def, of "\<lambda>_. []" "\<lambda>_. False"]]
  have "sorted_wrt (<) (groundedEpochs (er_batches lateRun))" by blast
  then show ?thesis by (simp add: lateRun_def)
qed

end
