(* ===== verification/Selectors.thy ===== *)
theory Selectors
  imports Risk "HOL-Library.AList"
begin

text \<open>
  Capability descriptors and the selectors of the capability registry (\<open>capability/registry\<close>,
  \<open>capability/descriptor\<close>): the reference matcher, the compiled matcher that the registry runs, the
  policies it combines over matching selectors and labels, and the insertion decision for a
  capability's output. Go enumerations of strings stay strings.
\<close>

section \<open>Descriptors and selectors\<close>

record CapabilitySource =
  csrc_ProviderID :: string
  csrc_Scope :: CapabilityScope
  csrc_SessionID :: string

text \<open>\<open>EnabledState\<close>: 0 unset, 1 enabled, 2 disabled.\<close>

record CoordinationTargetMetadata =
  co_Target :: bool
  co_Role :: string
  co_TaskTypes :: "string list"
  co_ExecutionModes :: "string list"
  co_LongRunning :: int
  co_DirectInsertionAllowed :: int

record CapabilityDescriptor =
  cap_ID :: string
  cap_Kind :: string
  cap_RuntimeFamily :: string
  cap_Name :: string
  cap_Tags :: "string list"
  cap_Source :: CapabilitySource
  cap_TrustClass :: string
  cap_EffectClasses :: "EffectClass list"
  cap_SessionAffinity :: string
  cap_Coordination :: "CoordinationTargetMetadata option"

record CapabilitySelector =
  sel_ID :: string
  sel_Name :: string
  sel_Kind :: string
  sel_RuntimeFamilies :: "string list"
  sel_Tags :: "string list"
  sel_ExcludeTags :: "string list"
  sel_SourceScopes :: "CapabilityScope list"
  sel_TrustClasses :: "string list"
  sel_RiskClasses :: "RiskClass list"
  sel_EffectClasses :: "EffectClass list"
  sel_CoordinationRoles :: "string list"
  sel_CoordinationTaskTypes :: "string list"
  sel_CoordinationExecutionModes :: "string list"
  sel_CoordinationLongRunning :: int
  sel_CoordinationDirectInsertion :: int

abbreviation descRisks :: "CapabilityDescriptor \<Rightarrow> RiskClass list" where
  "descRisks d \<equiv> Classify (cap_EffectClasses d) (csrc_Scope (cap_Source d))"

section \<open>Validation\<close>

definition knownScopes :: "string list" where
  "knownScopes = [CapabilityScopeBuiltin, CapabilityScopeWorkspace, CapabilityScopeProvider, CapabilityScopeRemote]"

definition knownFamilies :: "string list" where
  "knownFamilies = [''local-tool'', ''provider'', ''relurpic'']"

definition knownTrust :: "string list" where
  "knownTrust = [''builtin-trusted'', ''workspace-trusted'', ''llm-generated'', ''tool-result'', ''provider-local-untrusted'',
     ''remote-declared-untrusted'', ''remote-approved'']"

definition knownRisks :: "string list" where
  "knownRisks = [RiskClassReadOnly, RiskClassDestructive, RiskClassExecute, RiskClassNetwork, RiskClassCredentialed,
     RiskClassExfiltration, RiskClassSessioned]"

definition knownEffects :: "string list" where
  "knownEffects = [EffectClassFilesystemMutation, EffectClassProcessSpawn, EffectClassNetworkEgress, EffectClassCredentialUse,
     EffectClassExternalState, EffectClassSessionCreation, EffectClassContextInsertion]"

definition knownRoles :: "string list" where
  "knownRoles = [''planner'', ''architect'', ''reviewer'', ''verifier'', ''executor'', ''domain-pack'', ''background-agent'']"

definition knownModes :: "string list" where
  "knownModes = [''sync'', ''session-backed'', ''background-service'']"

text \<open>The first value outside a closed set.\<close>

definition unknownIn :: "string list \<Rightarrow> string \<Rightarrow> string list \<Rightarrow> goerr option" where
  "unknownIn known what vs = map_option (\<lambda>v. Err (what @ '' '' @ v @ '' invalid'')) (find (\<lambda>v. v \<notin> set known) vs)"

definition emptySelector :: "CapabilitySelector \<Rightarrow> bool" where
  "emptySelector s \<longleftrightarrow>
     TrimSpace (sel_ID s) = [] \<and> TrimSpace (sel_Name s) = [] \<and> sel_Kind s = [] \<and> sel_RuntimeFamilies s = [] \<and>
     sel_Tags s = [] \<and> sel_ExcludeTags s = [] \<and> sel_SourceScopes s = [] \<and> sel_TrustClasses s = [] \<and> sel_RiskClasses s = [] \<and>
     sel_EffectClasses s = [] \<and> sel_CoordinationRoles s = [] \<and> sel_CoordinationTaskTypes s = [] \<and>
     sel_CoordinationExecutionModes s = [] \<and> sel_CoordinationLongRunning s = 0 \<and> sel_CoordinationDirectInsertion s = 0"

fun firstSome :: "'a option list \<Rightarrow> 'a option" where
  "firstSome [] = None"
| "firstSome (Some x # xs) = Some x"
| "firstSome (None # xs) = firstSome xs"

definition ValidateCapabilitySelector :: "CapabilitySelector \<Rightarrow> goerr option" where
  "ValidateCapabilitySelector s =
     firstSome
       [if emptySelector s then Some (Err ''selector must declare at least one match field'') else None,
        if list_ex (\<lambda>t. TrimSpace t = []) (sel_Tags s) then Some (Err ''selector contains empty tag'') else None,
        if list_ex (\<lambda>t. TrimSpace t = []) (sel_ExcludeTags s) then Some (Err ''selector contains empty tag'') else None,
        if list_ex (\<lambda>t. TrimSpace t = []) (sel_CoordinationTaskTypes s)
          then Some (Err ''selector contains empty coordination task type'') else None,
        unknownIn knownScopes ''source scope'' (sel_SourceScopes s),
        unknownIn knownFamilies ''runtime family'' (sel_RuntimeFamilies s),
        unknownIn knownTrust ''trust class'' (sel_TrustClasses s),
        unknownIn knownRisks ''risk class'' (sel_RiskClasses s),
        unknownIn knownEffects ''effect class'' (sel_EffectClasses s),
        unknownIn knownRoles ''coordination role'' (sel_CoordinationRoles s),
        unknownIn knownModes ''coordination execution mode'' (sel_CoordinationExecutionModes s),
        if sel_CoordinationLongRunning s \<in> {0, 1, 2} then None
          else Some (Err (''coordination long_running state '' @ fmtInt (sel_CoordinationLongRunning s) @ '' invalid'')),
        if sel_CoordinationDirectInsertion s \<in> {0, 1, 2} then None
          else Some (Err (''coordination direct_insertion state '' @ fmtInt (sel_CoordinationDirectInsertion s) @ '' invalid''))]"

section \<open>The reference matcher\<close>

definition containsTag :: "string \<Rightarrow> string list \<Rightarrow> bool" where
  "containsTag want haystack =
     (let want = ToLower (TrimSpace want) in
      want \<noteq> [] \<and> list_ex (\<lambda>v. EqualFold (TrimSpace v) want) haystack)"

definition containsAllTags :: "string list \<Rightarrow> string list \<Rightarrow> bool" where
  "containsAllTags values haystack = list_all (\<lambda>want. containsTag (TrimSpace want) haystack) values"

definition containsAnyTag :: "string list \<Rightarrow> string list \<Rightarrow> bool" where
  "containsAnyTag values haystack = list_ex (\<lambda>blocked. containsTag (TrimSpace blocked) haystack) values"

definition containsStringFold :: "string \<Rightarrow> string list \<Rightarrow> bool" where
  "containsStringFold want haystack =
     (let want = TrimSpace want in want \<noteq> [] \<and> list_ex (\<lambda>v. EqualFold (TrimSpace v) want) haystack)"

definition containsAllCoordinationTaskTypes :: "string list \<Rightarrow> string list \<Rightarrow> bool" where
  "containsAllCoordinationTaskTypes values haystack = list_all (\<lambda>want. containsStringFold (TrimSpace want) haystack) values"

definition containsAny :: "string list \<Rightarrow> string list \<Rightarrow> bool" where
  "containsAny values haystack = list_ex (\<lambda>needle. list_ex (\<lambda>v. v = needle) haystack) values"

definition onCoordination :: "(CoordinationTargetMetadata \<Rightarrow> bool) \<Rightarrow> CapabilityDescriptor \<Rightarrow> bool" where
  "onCoordination p d = (case cap_Coordination d of None \<Rightarrow> False | Some c \<Rightarrow> p c)"

definition SelectorMatchesDescriptor :: "CapabilitySelector \<Rightarrow> CapabilityDescriptor \<Rightarrow> bool" where
  "SelectorMatchesDescriptor s d \<longleftrightarrow>
     \<not> (TrimSpace (sel_ID s) \<noteq> [] \<and> \<not> EqualFold (TrimSpace (sel_ID s)) (cap_ID d)) \<and>
     \<not> (TrimSpace (sel_Name s) \<noteq> [] \<and> \<not> EqualFold (TrimSpace (sel_Name s)) (cap_Name d)) \<and>
     \<not> (sel_Kind s \<noteq> [] \<and> sel_Kind s \<noteq> cap_Kind d) \<and>
     \<not> (sel_RuntimeFamilies s \<noteq> [] \<and> \<not> list_ex (\<lambda>v. v = cap_RuntimeFamily d) (sel_RuntimeFamilies s)) \<and>
     \<not> (sel_Tags s \<noteq> [] \<and> \<not> containsAllTags (sel_Tags s) (cap_Tags d)) \<and>
     \<not> (sel_ExcludeTags s \<noteq> [] \<and> containsAnyTag (sel_ExcludeTags s) (cap_Tags d)) \<and>
     \<not> (sel_SourceScopes s \<noteq> [] \<and> \<not> list_ex (\<lambda>v. v = csrc_Scope (cap_Source d)) (sel_SourceScopes s)) \<and>
     \<not> (sel_TrustClasses s \<noteq> [] \<and> \<not> list_ex (\<lambda>v. v = cap_TrustClass d) (sel_TrustClasses s)) \<and>
     \<not> (sel_RiskClasses s \<noteq> [] \<and> \<not> containsAny (sel_RiskClasses s) (descRisks d)) \<and>
     \<not> (sel_EffectClasses s \<noteq> [] \<and> \<not> containsAny (sel_EffectClasses s) (cap_EffectClasses d)) \<and>
     \<not> (sel_CoordinationRoles s \<noteq> [] \<and> \<not> onCoordination (\<lambda>c. list_ex (\<lambda>v. v = co_Role c) (sel_CoordinationRoles s)) d) \<and>
     \<not> (sel_CoordinationTaskTypes s \<noteq> [] \<and>
        \<not> onCoordination (\<lambda>c. containsAllCoordinationTaskTypes (sel_CoordinationTaskTypes s) (co_TaskTypes c)) d) \<and>
     \<not> (sel_CoordinationExecutionModes s \<noteq> [] \<and>
        \<not> onCoordination (\<lambda>c. containsAny (sel_CoordinationExecutionModes s) (co_ExecutionModes c)) d) \<and>
     \<not> (sel_CoordinationLongRunning s \<noteq> 0 \<and> \<not> onCoordination (\<lambda>c. co_LongRunning c = sel_CoordinationLongRunning s) d) \<and>
     \<not> (sel_CoordinationDirectInsertion s \<noteq> 0 \<and>
        \<not> onCoordination (\<lambda>c. co_DirectInsertionAllowed c = sel_CoordinationDirectInsertion s) d)"

definition matchesAnySelector :: "CapabilitySelector list \<Rightarrow> CapabilityDescriptor \<Rightarrow> bool" where
  "matchesAnySelector selectors d \<longleftrightarrow> selectors = [] \<or> list_ex (\<lambda>s. SelectorMatchesDescriptor s d) selectors"

section \<open>The compiled matcher\<close>

text \<open>A Go map with empty values is a set of its keys.\<close>

record descriptorProfile =
  pf_id :: string
  pf_name :: string
  pf_kind :: string
  pf_runtimeFamily :: string
  pf_sourceScope :: string
  pf_trustClass :: string
  pf_tags :: "string set"
  pf_riskClasses :: "string set"
  pf_effectClasses :: "string set"
  pf_coordinationRole :: string
  pf_coordinationTaskTypes :: "string set"
  pf_coordinationExecutionModes :: "string set"
  pf_coordinationLongRunning :: int
  pf_coordinationDirectInsertion :: int
  pf_hasCoordination :: bool
  pf_classLabels :: "string list"

record compiledSelector =
  cs_id :: string
  cs_name :: string
  cs_kind :: string
  cs_runtimeFamilies :: "string set"
  cs_tags :: "string set"
  cs_excludeTags :: "string set"
  cs_sourceScopes :: "string set"
  cs_trustClasses :: "string set"
  cs_riskClasses :: "string set"
  cs_effectClasses :: "string set"
  cs_coordinationRoles :: "string set"
  cs_coordinationTaskTypes :: "string set"
  cs_coordinationExecutionModes :: "string set"
  cs_coordinationLongRunning :: int
  cs_coordinationDirectInsertion :: int

definition normalizeComparable :: "string \<Rightarrow> string" where
  "normalizeComparable v = ToLower (TrimSpace v)"

definition normalizedStringSet :: "string list \<Rightarrow> string set" where
  "normalizedStringSet values = set (filter (\<lambda>v. v \<noteq> []) (map normalizeComparable values))"

text \<open>The labels of a descriptor, in the order \<open>ord\<close> in which the map of labels is walked.\<close>

definition capabilityPolicyLabelsForDescriptor :: "(string list \<Rightarrow> string list) \<Rightarrow> CapabilityDescriptor \<Rightarrow> string list" where
  "capabilityPolicyLabelsForDescriptor ord d =
     ord (remdups (map normalizeComparable
       (descRisks d @ cap_EffectClasses d @ (if cap_TrustClass d \<noteq> [] then [cap_TrustClass d] else []) @
        (if cap_RuntimeFamily d \<noteq> [] then [cap_RuntimeFamily d] else []))))"

definition buildDescriptorProfile :: "(string list \<Rightarrow> string list) \<Rightarrow> CapabilityDescriptor \<Rightarrow> descriptorProfile" where
  "buildDescriptorProfile ord d =
     \<lparr>pf_id = normalizeComparable (cap_ID d), pf_name = normalizeComparable (cap_Name d), pf_kind = cap_Kind d,
      pf_runtimeFamily = cap_RuntimeFamily d, pf_sourceScope = csrc_Scope (cap_Source d), pf_trustClass = cap_TrustClass d,
      pf_tags = normalizedStringSet (cap_Tags d), pf_riskClasses = set (descRisks d),
      pf_effectClasses = set (cap_EffectClasses d),
      pf_coordinationRole = (case cap_Coordination d of None \<Rightarrow> [] | Some c \<Rightarrow> co_Role c),
      pf_coordinationTaskTypes = (case cap_Coordination d of None \<Rightarrow> {} | Some c \<Rightarrow> normalizedStringSet (co_TaskTypes c)),
      pf_coordinationExecutionModes = (case cap_Coordination d of None \<Rightarrow> {} | Some c \<Rightarrow> set (co_ExecutionModes c)),
      pf_coordinationLongRunning = (case cap_Coordination d of None \<Rightarrow> 0 | Some c \<Rightarrow> co_LongRunning c),
      pf_coordinationDirectInsertion = (case cap_Coordination d of None \<Rightarrow> 0 | Some c \<Rightarrow> co_DirectInsertionAllowed c),
      pf_hasCoordination = (cap_Coordination d \<noteq> None),
      pf_classLabels = capabilityPolicyLabelsForDescriptor ord d\<rparr>"

definition compileSelector :: "CapabilitySelector \<Rightarrow> compiledSelector" where
  "compileSelector s =
     \<lparr>cs_id = normalizeComparable (sel_ID s), cs_name = normalizeComparable (sel_Name s), cs_kind = sel_Kind s,
      cs_runtimeFamilies = set (sel_RuntimeFamilies s), cs_tags = normalizedStringSet (sel_Tags s),
      cs_excludeTags = normalizedStringSet (sel_ExcludeTags s), cs_sourceScopes = set (sel_SourceScopes s),
      cs_trustClasses = set (sel_TrustClasses s), cs_riskClasses = set (sel_RiskClasses s),
      cs_effectClasses = set (sel_EffectClasses s), cs_coordinationRoles = set (sel_CoordinationRoles s),
      cs_coordinationTaskTypes = normalizedStringSet (sel_CoordinationTaskTypes s),
      cs_coordinationExecutionModes = set (sel_CoordinationExecutionModes s),
      cs_coordinationLongRunning = sel_CoordinationLongRunning s,
      cs_coordinationDirectInsertion = sel_CoordinationDirectInsertion s\<rparr>"

definition compiledSelectorMatches :: "compiledSelector \<Rightarrow> descriptorProfile \<Rightarrow> bool" where
  "compiledSelectorMatches s p \<longleftrightarrow>
     \<not> (cs_id s \<noteq> [] \<and> cs_id s \<noteq> pf_id p) \<and>
     \<not> (cs_name s \<noteq> [] \<and> cs_name s \<noteq> pf_name p) \<and>
     \<not> (cs_kind s \<noteq> [] \<and> cs_kind s \<noteq> pf_kind p) \<and>
     \<not> (cs_runtimeFamilies s \<noteq> {} \<and> pf_runtimeFamily p \<notin> cs_runtimeFamilies s) \<and>
     \<not> (cs_tags s \<noteq> {} \<and> \<not> cs_tags s \<subseteq> pf_tags p) \<and>
     \<not> (cs_excludeTags s \<noteq> {} \<and> cs_excludeTags s \<inter> pf_tags p \<noteq> {}) \<and>
     \<not> (cs_sourceScopes s \<noteq> {} \<and> pf_sourceScope p \<notin> cs_sourceScopes s) \<and>
     \<not> (cs_trustClasses s \<noteq> {} \<and> pf_trustClass p \<notin> cs_trustClasses s) \<and>
     \<not> (cs_riskClasses s \<noteq> {} \<and> cs_riskClasses s \<inter> pf_riskClasses p = {}) \<and>
     \<not> (cs_effectClasses s \<noteq> {} \<and> cs_effectClasses s \<inter> pf_effectClasses p = {}) \<and>
     \<not> (cs_coordinationRoles s \<noteq> {} \<and> (\<not> pf_hasCoordination p \<or> pf_coordinationRole p \<notin> cs_coordinationRoles s)) \<and>
     \<not> (cs_coordinationTaskTypes s \<noteq> {} \<and> (\<not> pf_hasCoordination p \<or> \<not> cs_coordinationTaskTypes s \<subseteq> pf_coordinationTaskTypes p)) \<and>
     \<not> (cs_coordinationExecutionModes s \<noteq> {} \<and>
        (\<not> pf_hasCoordination p \<or> cs_coordinationExecutionModes s \<inter> pf_coordinationExecutionModes p = {})) \<and>
     \<not> (cs_coordinationLongRunning s \<noteq> 0 \<and>
        (\<not> pf_hasCoordination p \<or> pf_coordinationLongRunning p \<noteq> cs_coordinationLongRunning s)) \<and>
     \<not> (cs_coordinationDirectInsertion s \<noteq> 0 \<and>
        (\<not> pf_hasCoordination p \<or> pf_coordinationDirectInsertion p \<noteq> cs_coordinationDirectInsertion s))"

definition matchesAnyCompiledCapabilitySelector :: "compiledSelector list \<Rightarrow> descriptorProfile \<Rightarrow> bool" where
  "matchesAnyCompiledCapabilitySelector selectors p \<longleftrightarrow> selectors = [] \<or> list_ex (\<lambda>s. compiledSelectorMatches s p) selectors"

section \<open>Policies over selectors and labels\<close>

abbreviation AgentPermissionAllow :: string where "AgentPermissionAllow \<equiv> ''allow''"
abbreviation AgentPermissionDeny :: string where "AgentPermissionDeny \<equiv> ''deny''"
abbreviation AgentPermissionAsk :: string where "AgentPermissionAsk \<equiv> ''ask''"

text \<open>The loop that both policy functions run over the levels that apply.\<close>

fun combineLevels :: "string list \<Rightarrow> string \<Rightarrow> string" where
  "combineLevels [] result = result"
| "combineLevels (level # levels) result =
     (if level = AgentPermissionDeny then AgentPermissionDeny
      else if level = AgentPermissionAsk \<and> result \<noteq> AgentPermissionDeny then combineLevels levels AgentPermissionAsk
      else if level = AgentPermissionAllow \<and> result = [] then combineLevels levels AgentPermissionAllow
      else combineLevels levels result)"

record compiledCapabilityPolicy =
  ccp_execute :: string
  ccp_selector :: compiledSelector

definition effectiveCompiledCapabilityPolicyForProfile :: "descriptorProfile \<Rightarrow> compiledCapabilityPolicy list \<Rightarrow> string" where
  "effectiveCompiledCapabilityPolicyForProfile p policies =
     combineLevels (map ccp_execute (filter (\<lambda>q. compiledSelectorMatches (ccp_selector q) p) policies)) []"

definition effectiveClassPolicyForProfile :: "descriptorProfile \<Rightarrow> (string \<times> string) list \<Rightarrow> string" where
  "effectiveClassPolicyForProfile p policies =
     combineLevels (concat (map (\<lambda>l. case map_of policies l of None \<Rightarrow> [] | Some level \<Rightarrow> [level]) (pf_classLabels p))) []"

section \<open>Exposure\<close>

abbreviation ExposureCallable :: string where "ExposureCallable \<equiv> ''callable''"
abbreviation ExposureInspectable :: string where "ExposureInspectable \<equiv> ''inspectable''"

definition defaultCapabilityExposure :: "CapabilityDescriptor \<Rightarrow> string" where
  "defaultCapabilityExposure d =
     (if cap_RuntimeFamily d = ''local-tool'' then ExposureCallable
      else if cap_RuntimeFamily d = ''provider'' then ExposureInspectable
      else if cap_Kind d = ''tool'' then
        (if csrc_Scope (cap_Source d) \<in> {CapabilityScopeProvider, CapabilityScopeRemote} then ExposureInspectable else ExposureCallable)
      else ExposureInspectable)"

text \<open>\<open>invocable\<close> tells whether the handler of the registered entry can be invoked.\<close>

definition defaultCapabilityExposureForEntry :: "CapabilityDescriptor \<Rightarrow> bool \<Rightarrow> string" where
  "defaultCapabilityExposureForEntry d invocable =
     (if cap_RuntimeFamily d = ''local-tool'' then ExposureCallable
      else if cap_RuntimeFamily d = ''provider'' then ExposureInspectable
      else if cap_RuntimeFamily d = ''relurpic'' then (if invocable then ExposureCallable else ExposureInspectable)
      else defaultCapabilityExposure d)"

record compiledExposurePolicy =
  cep_access :: string
  cep_selector :: compiledSelector

definition effectiveExposureLocked ::
  "(string list \<Rightarrow> string list) \<Rightarrow> CapabilityDescriptor \<Rightarrow> (descriptorProfile \<times> bool) option \<Rightarrow> compiledExposurePolicy list \<Rightarrow> string" where
  "effectiveExposureLocked ord d entry policies =
     (let result = (case entry of None \<Rightarrow> defaultCapabilityExposure d | Some (p, invocable) \<Rightarrow> defaultCapabilityExposureForEntry d invocable);
          profile = (case entry of None \<Rightarrow> buildDescriptorProfile ord d | Some (p, invocable) \<Rightarrow> p)
      in fold (\<lambda>q result. if compiledSelectorMatches (cep_selector q) profile then cep_access q else result) policies result)"

section \<open>Insertion of capability output\<close>

record InsertionDecision =
  in_Action :: string
  in_Reason :: string
  in_RequiresHITL :: bool
  in_PolicySnapshotID :: string

definition insertAs :: "string \<Rightarrow> string \<Rightarrow> InsertionDecision" where
  "insertAs action reason = \<lparr>in_Action = action, in_Reason = reason, in_RequiresHITL = False, in_PolicySnapshotID = []\<rparr>"

definition InsertionRestrictiveness :: "string \<Rightarrow> int" where
  "InsertionRestrictiveness action =
     (if action = ''direct'' then 0 else if action = ''summarized'' then 1 else if action = ''metadata-only'' then 2
      else if action = ''hitl-required'' then 3 else 4)"

definition DefaultInsertionDecision :: "CapabilityDescriptor \<Rightarrow> string \<Rightarrow> InsertionDecision" where
  "DefaultInsertionDecision d disposition =
     (if cap_TrustClass d \<in> {''builtin-trusted'', ''workspace-trusted''}
      then insertAs ''direct'' ''trusted capability output allowed for direct insertion''
      else if cap_TrustClass d \<in> {''llm-generated'', ''tool-result''}
      then insertAs ''summarized'' ''generated capability output requires summarized insertion''
      else if cap_TrustClass d = ''remote-approved''
      then insertAs ''summarized'' ''remote-approved capability output requires summarized insertion''
      else if cap_TrustClass d \<in> {''provider-local-untrusted'', ''remote-declared-untrusted''}
      then insertAs ''metadata-only'' ''untrusted capability output defaults to metadata-only insertion''
      else if disposition = ''metadata-only'' then insertAs ''metadata-only'' ''metadata-only content disposition''
      else if disposition = ''summarized'' then insertAs ''summarized'' ''summarized content disposition''
      else insertAs ''summarized'' ''capability output requires summarized insertion by default'')"

record CapabilityResultEnvelope =
  re_Descriptor :: CapabilityDescriptor
  re_Disposition :: string
  re_Insertion :: InsertionDecision
  re_PolicyID :: "string option"

definition insertionStep :: "CapabilityDescriptor \<Rightarrow> CapabilitySelector \<times> string \<Rightarrow> string \<times> InsertionDecision \<Rightarrow> string \<times> InsertionDecision" where
  "insertionStep d q st =
     (case q of (selector, action) \<Rightarrow> case st of (override, decision) \<Rightarrow>
        if \<not> SelectorMatchesDescriptor selector d then (override, decision)
        else if InsertionRestrictiveness action \<ge> InsertionRestrictiveness override
        then (action, decision\<lparr>in_Reason := ''manifest insertion policy override''\<rparr>)
        else (override, decision))"

text \<open>\<open>policies\<close> are the insertion policies of the agent's spec; none are given for a nil spec.\<close>

definition EffectiveInsertionDecision :: "(CapabilitySelector \<times> string) list \<Rightarrow> CapabilityResultEnvelope option \<Rightarrow> InsertionDecision" where
  "EffectiveInsertionDecision policies envelope =
     (case envelope of
        None \<Rightarrow> insertAs ''denied'' ''capability result envelope missing''
      | Some e \<Rightarrow>
          let decision = (if in_Action (re_Insertion e) = [] then DefaultInsertionDecision (re_Descriptor e) (re_Disposition e) else re_Insertion e) in
          if policies = [] then decision
          else case fold (insertionStep (re_Descriptor e)) policies (in_Action decision, decision) of
            (override, decision) \<Rightarrow>
              decision\<lparr>in_Action := override, in_RequiresHITL := (override = ''hitl-required''),
                in_PolicySnapshotID :=
                  (if in_PolicySnapshotID decision = [] then (case re_PolicyID e of None \<Rightarrow> [] | Some i \<Rightarrow> i) else in_PolicySnapshotID decision)\<rparr>)"

section \<open>Admission\<close>

record AdmissionResult =
  ar_CapabilityID :: string
  ar_CapabilityName :: string
  ar_Kind :: string
  ar_Admitted :: bool
  ar_Reason :: string

text \<open>A candidate after normalization, with whether it brings a prompt or resource handler.\<close>

definition EvaluateCandidates :: "(CapabilityDescriptor \<times> bool) list \<Rightarrow> CapabilitySelector list \<Rightarrow> AdmissionResult list" where
  "EvaluateCandidates candidates allowed =
     map (\<lambda>(d, hasHandler).
       let result = \<lparr>ar_CapabilityID = cap_ID d, ar_CapabilityName = cap_Name d, ar_Kind = cap_Kind d, ar_Admitted = False, ar_Reason = []\<rparr> in
       if \<not> matchesAnySelector allowed d then result\<lparr>ar_Reason := ''filtered by allowed capabilities''\<rparr>
       else if hasHandler \<or> cap_ID d \<noteq> [] then result\<lparr>ar_Admitted := True, ar_Reason := ''admitted''\<rparr>
       else result\<lparr>ar_Reason := ''candidate missing registration handler''\<rparr>) candidates"

section \<open>The two matchers agree\<close>

lemma firstSome_None: "firstSome xs = None \<longleftrightarrow> (\<forall>x \<in> set xs. x = None)"
  by (induction xs rule: firstSome.induct) auto

lemma normalizeComparable_simps [simp]:
  "normalizeComparable v = [] \<longleftrightarrow> TrimSpace v = []" "normalizeComparable (TrimSpace v) = normalizeComparable v"
  by (simp_all add: normalizeComparable_def)

lemma normalized_mem:
  "normalizeComparable v \<in> normalizedStringSet vs \<longleftrightarrow>
     normalizeComparable v \<noteq> [] \<and> list_ex (\<lambda>x. normalizeComparable x = normalizeComparable v) vs"
  by (simp add: normalizedStringSet_def list_ex_iff image_iff) (metis normalizeComparable_simps(1))

lemma containsTag_iff: "containsTag v vs \<longleftrightarrow> normalizeComparable v \<in> normalizedStringSet vs"
  unfolding normalized_mem by (simp add: containsTag_def EqualFold_def normalizeComparable_def)

lemma containsTag_trim: "containsTag (TrimSpace v) vs = containsTag v vs"
  by (simp add: containsTag_def)

lemma containsStringFold_iff: "containsStringFold v vs \<longleftrightarrow> normalizeComparable v \<in> normalizedStringSet vs"
  unfolding normalized_mem by (simp add: containsStringFold_def Let_def EqualFold_def normalizeComparable_def)

lemma containsStringFold_trim: "containsStringFold (TrimSpace v) vs = containsStringFold v vs"
  by (simp add: containsStringFold_def)

lemma normalizedStringSet_eq:
  "list_all (\<lambda>v. TrimSpace v \<noteq> []) vs \<Longrightarrow> normalizedStringSet vs = normalizeComparable ` set vs"
  by (auto simp: normalizedStringSet_def list_all_iff)

lemma all_tags:
  "list_all (\<lambda>v. TrimSpace v \<noteq> []) vs \<Longrightarrow> containsAllTags vs ws \<longleftrightarrow> normalizedStringSet vs \<subseteq> normalizedStringSet ws"
  by (auto simp: containsAllTags_def containsTag_trim containsTag_iff normalizedStringSet_eq list_all_iff)

lemma all_types:
  "list_all (\<lambda>v. TrimSpace v \<noteq> []) vs \<Longrightarrow> containsAllCoordinationTaskTypes vs ws \<longleftrightarrow> normalizedStringSet vs \<subseteq> normalizedStringSet ws"
  by (auto simp: containsAllCoordinationTaskTypes_def containsStringFold_trim containsStringFold_iff normalizedStringSet_eq list_all_iff)

lemma any_tag:
  "list_all (\<lambda>v. TrimSpace v \<noteq> []) vs \<Longrightarrow> containsAnyTag vs ws \<longleftrightarrow> normalizedStringSet vs \<inter> normalizedStringSet ws \<noteq> {}"
  by (auto simp: containsAnyTag_def containsTag_trim containsTag_iff normalizedStringSet_eq list_all_iff list_ex_iff)

lemma any_value: "containsAny vs ws \<longleftrightarrow> set vs \<inter> set ws \<noteq> {}"
  by (auto simp: containsAny_def list_ex_iff)

lemma nonempty_set: "list_all (\<lambda>v. TrimSpace v \<noteq> []) vs \<Longrightarrow> normalizedStringSet vs = {} \<longleftrightarrow> vs = []"
  by (simp add: normalizedStringSet_eq)

lemma fold_id: "TrimSpace x = x \<Longrightarrow> EqualFold (TrimSpace y) x \<longleftrightarrow> normalizeComparable y = normalizeComparable x"
  by (simp add: EqualFold_def normalizeComparable_def)

lemma valid_selector:
  assumes "ValidateCapabilitySelector s = None"
  shows "list_all (\<lambda>v. TrimSpace v \<noteq> []) (sel_Tags s)" and "list_all (\<lambda>v. TrimSpace v \<noteq> []) (sel_ExcludeTags s)"
    and "list_all (\<lambda>v. TrimSpace v \<noteq> []) (sel_CoordinationTaskTypes s)"
  using assms by (auto simp: ValidateCapabilitySelector_def firstSome_None list_all_iff list_ex_iff split: if_splits)

text \<open>A descriptor without the blanks around its identifier and its name.\<close>

definition trimmed :: "CapabilityDescriptor \<Rightarrow> CapabilityDescriptor" where
  "trimmed d = d\<lparr>cap_ID := TrimSpace (cap_ID d), cap_Name := TrimSpace (cap_Name d)\<rparr>"

lemma trimmed_sel:
  "cap_Kind (trimmed d) = cap_Kind d" "cap_RuntimeFamily (trimmed d) = cap_RuntimeFamily d" "cap_Tags (trimmed d) = cap_Tags d"
  "cap_Source (trimmed d) = cap_Source d" "cap_TrustClass (trimmed d) = cap_TrustClass d" "cap_EffectClasses (trimmed d) = cap_EffectClasses d"
  "cap_Coordination (trimmed d) = cap_Coordination d" "descRisks (trimmed d) = descRisks d"
  "cap_ID (trimmed d) = TrimSpace (cap_ID d)" "cap_Name (trimmed d) = TrimSpace (cap_Name d)"
  by (simp_all add: trimmed_def)

lemma normalize_trim: "normalizeComparable (TrimSpace x) = normalizeComparable x"
  by (simp add: normalizeComparable_def)

text \<open>
  \<^bold>\<open>C24.\<close> The compiled matcher that the registry runs agrees on every valid selector and every descriptor with what the
  reference matcher says of the descriptor without the blanks around its identifier and its name; where there are
  none, the two matchers agree.
\<close>

theorem compiled_selector_agrees:
  assumes "ValidateCapabilitySelector s = None"
  shows "compiledSelectorMatches (compileSelector s) (buildDescriptorProfile ord d) = SelectorMatchesDescriptor s (trimmed d) \<and>
    (TrimSpace (cap_ID d) = cap_ID d \<and> TrimSpace (cap_Name d) = cap_Name d \<longrightarrow>
       compiledSelectorMatches (compileSelector s) (buildDescriptorProfile ord d) = SelectorMatchesDescriptor s d)"
proof -
  note v = valid_selector [OF assms(1)]
  note set_facts = all_tags [OF v(1)] any_tag [OF v(2)] all_types [OF v(3)] nonempty_set [OF v(1)] nonempty_set [OF v(2)] nonempty_set [OF v(3)]
  have mem: "list_ex (\<lambda>v. v = x) vs \<longleftrightarrow> x \<in> set vs" for x :: string and vs by (auto simp: list_ex_iff)
  have agree: "compiledSelectorMatches (compileSelector s) (buildDescriptorProfile ord d) = SelectorMatchesDescriptor s (trimmed d)"
    unfolding compiledSelectorMatches_def SelectorMatchesDescriptor_def compileSelector_def buildDescriptorProfile_def onCoordination_def trimmed_sel
    by (cases "cap_Coordination d") (simp_all add: fold_id normalize_trim set_facts any_value mem)
  moreover have "trimmed d = d" if "TrimSpace (cap_ID d) = cap_ID d \<and> TrimSpace (cap_Name d) = cap_Name d" using that by (simp add: trimmed_def)
  ultimately show ?thesis by simp
qed

text \<open>On a selector with blank tags only, which validation rejects, the two matchers disagree: the compiled one matches everything.\<close>

lemma blank_tags_match_all:
  "SelectorMatchesDescriptor \<lparr>sel_ID = [], sel_Name = [], sel_Kind = [], sel_RuntimeFamilies = [], sel_Tags = ['' ''], sel_ExcludeTags = [],
     sel_SourceScopes = [], sel_TrustClasses = [], sel_RiskClasses = [], sel_EffectClasses = [], sel_CoordinationRoles = [],
     sel_CoordinationTaskTypes = [], sel_CoordinationExecutionModes = [], sel_CoordinationLongRunning = 0, sel_CoordinationDirectInsertion = 0\<rparr> d = False"
  "compiledSelectorMatches (compileSelector \<lparr>sel_ID = [], sel_Name = [], sel_Kind = [], sel_RuntimeFamilies = [], sel_Tags = ['' ''], sel_ExcludeTags = [],
     sel_SourceScopes = [], sel_TrustClasses = [], sel_RiskClasses = [], sel_EffectClasses = [], sel_CoordinationRoles = [],
     sel_CoordinationTaskTypes = [], sel_CoordinationExecutionModes = [], sel_CoordinationLongRunning = 0, sel_CoordinationDirectInsertion = 0\<rparr>) p"
proof -
  have "TrimSpace '' '' = []" by (simp add: TrimSpace_def is_space_def)
  then show "SelectorMatchesDescriptor \<lparr>sel_ID = [], sel_Name = [], sel_Kind = [], sel_RuntimeFamilies = [], sel_Tags = ['' ''], sel_ExcludeTags = [],
     sel_SourceScopes = [], sel_TrustClasses = [], sel_RiskClasses = [], sel_EffectClasses = [], sel_CoordinationRoles = [],
     sel_CoordinationTaskTypes = [], sel_CoordinationExecutionModes = [], sel_CoordinationLongRunning = 0, sel_CoordinationDirectInsertion = 0\<rparr> d = False"
    "compiledSelectorMatches (compileSelector \<lparr>sel_ID = [], sel_Name = [], sel_Kind = [], sel_RuntimeFamilies = [], sel_Tags = ['' ''], sel_ExcludeTags = [],
     sel_SourceScopes = [], sel_TrustClasses = [], sel_RiskClasses = [], sel_EffectClasses = [], sel_CoordinationRoles = [],
     sel_CoordinationTaskTypes = [], sel_CoordinationExecutionModes = [], sel_CoordinationLongRunning = 0, sel_CoordinationDirectInsertion = 0\<rparr>) p"
    by (simp_all add: SelectorMatchesDescriptor_def compiledSelectorMatches_def compileSelector_def containsAllTags_def containsTag_def
        normalizedStringSet_def normalizeComparable_def)
qed


definition anySelector :: CapabilitySelector where
  "anySelector = \<lparr>sel_ID = [], sel_Name = [], sel_Kind = ''tool'', sel_RuntimeFamilies = [], sel_Tags = [], sel_ExcludeTags = [],
     sel_SourceScopes = [], sel_TrustClasses = [], sel_RiskClasses = [], sel_EffectClasses = [], sel_CoordinationRoles = [],
     sel_CoordinationTaskTypes = [], sel_CoordinationExecutionModes = [], sel_CoordinationLongRunning = 0, sel_CoordinationDirectInsertion = 0\<rparr>"

definition wCap :: CapabilityDescriptor where
  "wCap = \<lparr>cap_ID = ''tool:fmt'', cap_Kind = ''tool'', cap_RuntimeFamily = ''local-tool'', cap_Name = ''Fmt'', cap_Tags = [''Go'', ''format''],
     cap_Source = \<lparr>csrc_ProviderID = [], csrc_Scope = CapabilityScopeBuiltin, csrc_SessionID = []\<rparr>, cap_TrustClass = ''builtin-trusted'',
     cap_EffectClasses = [EffectClassFilesystemMutation], cap_SessionAffinity = [], cap_Coordination = None\<rparr>"

theorem compiled_selector_agrees_witness:
  "compiledSelectorMatches (compileSelector (anySelector\<lparr>sel_Name := '' fmt'', sel_Tags := [''go'']\<rparr>)) (buildDescriptorProfile (\<lambda>x. x) wCap)"
proof -
  have valid: "ValidateCapabilitySelector (anySelector\<lparr>sel_Name := '' fmt'', sel_Tags := [''go'']\<rparr>) = None" by code_simp
  have "SelectorMatchesDescriptor (anySelector\<lparr>sel_Name := '' fmt'', sel_Tags := [''go'']\<rparr>) (trimmed wCap)" by code_simp
  then show ?thesis using compiled_selector_agrees [OF valid, of "\<lambda>x. x" wCap] by blast
qed

text \<open>A descriptor whose name has a blank in front is matched by the compiled matcher and not by the reference matcher.\<close>

lemma padded_name_disagrees:
  "compiledSelectorMatches (compileSelector (anySelector\<lparr>sel_Name := ''fmt''\<rparr>)) (buildDescriptorProfile (\<lambda>x. x) (wCap\<lparr>cap_Name := '' Fmt''\<rparr>)) \<and>
   \<not> SelectorMatchesDescriptor (anySelector\<lparr>sel_Name := ''fmt''\<rparr>) (wCap\<lparr>cap_Name := '' Fmt''\<rparr>)"
  by code_simp

section \<open>Combined policies\<close>

definition strictestLevel :: "string set \<Rightarrow> string" where
  "strictestLevel L =
     (if AgentPermissionDeny \<in> L then AgentPermissionDeny else if AgentPermissionAsk \<in> L then AgentPermissionAsk
      else if AgentPermissionAllow \<in> L then AgentPermissionAllow else [])"

lemma combineLevels_strictest:
  "combineLevels ls AgentPermissionAsk = (if AgentPermissionDeny \<in> set ls then AgentPermissionDeny else AgentPermissionAsk)"
  "combineLevels ls AgentPermissionAllow =
     (if AgentPermissionDeny \<in> set ls then AgentPermissionDeny else if AgentPermissionAsk \<in> set ls then AgentPermissionAsk else AgentPermissionAllow)"
  "combineLevels ls [] = strictestLevel (set ls)"
proof -
  show ask: "combineLevels ls AgentPermissionAsk = (if AgentPermissionDeny \<in> set ls then AgentPermissionDeny else AgentPermissionAsk)" for ls
  proof (induction ls)
    case (Cons l ls)
    then show ?case by (cases "l = AgentPermissionDeny") simp_all
  qed simp
  show allow: "combineLevels ls AgentPermissionAllow =
      (if AgentPermissionDeny \<in> set ls then AgentPermissionDeny else if AgentPermissionAsk \<in> set ls then AgentPermissionAsk else AgentPermissionAllow)" for ls
  proof (induction ls)
    case (Cons l ls)
    then show ?case by (cases "l = AgentPermissionDeny"; cases "l = AgentPermissionAsk") (simp_all add: ask)
  qed simp
  show "combineLevels ls [] = strictestLevel (set ls)"
  proof (induction ls)
    case (Cons l ls)
    consider "l = AgentPermissionDeny" | "l = AgentPermissionAsk" | "l = AgentPermissionAllow"
      | "l \<noteq> AgentPermissionDeny" "l \<noteq> AgentPermissionAsk" "l \<noteq> AgentPermissionAllow" by blast
    then show ?case by cases (simp_all add: ask allow Cons.IH, simp_all add: strictestLevel_def)
  qed (simp add: strictestLevel_def)
qed

text \<open>
  The level that the registry applies to a capability is the strictest of the levels its class labels
  carry, whatever the order in which the labels are walked, and the strictest of the policies whose
  selector matches: a deny wins over an ask, an ask over an allow.
\<close>

theorem registry_policy_strictest:
  assumes "\<forall>xs. set (ord xs) = set xs"
  shows "effectiveClassPolicyForProfile (buildDescriptorProfile ord d) policies =
      strictestLevel {level. \<exists>l \<in> normalizeComparable ` (set (descRisks d) \<union> set (cap_EffectClasses d) \<union>
        ({cap_TrustClass d, cap_RuntimeFamily d} - {[]})). map_of policies l = Some level} \<and>
    effectiveCompiledCapabilityPolicyForProfile p ps =
      strictestLevel {ccp_execute q | q. q \<in> set ps \<and> compiledSelectorMatches (ccp_selector q) p}"
proof
  let ?labels = "capabilityPolicyLabelsForDescriptor ord d"
  have labels: "set ?labels = normalizeComparable ` (set (descRisks d) \<union> set (cap_EffectClasses d) \<union> ({cap_TrustClass d, cap_RuntimeFamily d} - {[]}))"
    using assms by (auto simp: capabilityPolicyLabelsForDescriptor_def)
  have "set (concat (map (\<lambda>l. case map_of policies l of None \<Rightarrow> [] | Some level \<Rightarrow> [level]) ?labels)) =
      {level. \<exists>l \<in> set ?labels. map_of policies l = Some level}"
    by (auto split: option.splits)
  then show "effectiveClassPolicyForProfile (buildDescriptorProfile ord d) policies =
      strictestLevel {level. \<exists>l \<in> normalizeComparable ` (set (descRisks d) \<union> set (cap_EffectClasses d) \<union>
        ({cap_TrustClass d, cap_RuntimeFamily d} - {[]})). map_of policies l = Some level}"
    unfolding labels by (simp add: effectiveClassPolicyForProfile_def combineLevels_strictest(3) buildDescriptorProfile_def)
  have "set (map ccp_execute (filter (\<lambda>q. compiledSelectorMatches (ccp_selector q) p) ps)) =
      {ccp_execute q | q. q \<in> set ps \<and> compiledSelectorMatches (ccp_selector q) p}" by auto
  then show "effectiveCompiledCapabilityPolicyForProfile p ps =
      strictestLevel {ccp_execute q | q. q \<in> set ps \<and> compiledSelectorMatches (ccp_selector q) p}"
    unfolding effectiveCompiledCapabilityPolicyForProfile_def combineLevels_strictest(3) by simp
qed

theorem registry_policy_strictest_witness:
  "effectiveClassPolicyForProfile (buildDescriptorProfile rev wCap) [(''destructive'', ''deny''), (''builtin-trusted'', ''allow'')] = ''deny''"
proof -
  have "effectiveClassPolicyForProfile (buildDescriptorProfile rev wCap) [(''destructive'', ''deny''), (''builtin-trusted'', ''allow'')] =
      strictestLevel {level. \<exists>l \<in> normalizeComparable ` (set (descRisks wCap) \<union> set (cap_EffectClasses wCap) \<union>
        ({cap_TrustClass wCap, cap_RuntimeFamily wCap} - {[]})). map_of [(''destructive'', ''deny''), (''builtin-trusted'', ''allow'')] l = Some level}"
    using registry_policy_strictest [of rev wCap] by simp
  also have "\<dots> = ''deny''"
  proof -
    have "''destructive'' \<in> normalizeComparable ` (set (descRisks wCap) \<union> set (cap_EffectClasses wCap) \<union>
        ({cap_TrustClass wCap, cap_RuntimeFamily wCap} - {[]}))" by code_simp
    then have "''deny'' \<in> {level. \<exists>l \<in> normalizeComparable ` (set (descRisks wCap) \<union> set (cap_EffectClasses wCap) \<union>
        ({cap_TrustClass wCap, cap_RuntimeFamily wCap} - {[]})). map_of [(''destructive'', ''deny''), (''builtin-trusted'', ''allow'')] l = Some level}"
      by (intro CollectI bexI [of _ "''destructive''"]) simp_all
    then show ?thesis by (simp add: strictestLevel_def)
  qed
  finally show ?thesis .
qed

section \<open>Insertion is never loosened\<close>

lemma insertionStep_action: "in_Action (snd (insertionStep d q st)) = in_Action (snd st)"
  by (cases q; cases st) (simp add: insertionStep_def)

lemma insertion_fold:
  assumes "fold (insertionStep d) ps (a, dec0) = (b, dec1)"
  shows "InsertionRestrictiveness a \<le> InsertionRestrictiveness b \<and>
    (\<forall>(s, x) \<in> set ps. SelectorMatchesDescriptor s d \<longrightarrow> InsertionRestrictiveness x \<le> InsertionRestrictiveness b) \<and>
    (b = a \<or> (\<exists>(s, x) \<in> set ps. SelectorMatchesDescriptor s d \<and> x = b))"
  using assms
proof (induction ps arbitrary: a dec0)
  case (Cons p ps)
  obtain s x where p: "p = (s, x)" by (cases p)
  obtain a' d' where st: "insertionStep d p (a, dec0) = (a', d')" by force
  then have rest: "fold (insertionStep d) ps (a', d') = (b, dec1)" using Cons.prems by simp
  have step: "a' = (if SelectorMatchesDescriptor s d \<and> InsertionRestrictiveness a \<le> InsertionRestrictiveness x then x else a)"
    using st unfolding p by (auto simp: insertionStep_def split: if_splits)
  from Cons.IH [OF rest] step show ?case
    unfolding p by (cases "SelectorMatchesDescriptor s d"; cases "InsertionRestrictiveness a \<le> InsertionRestrictiveness x") auto
qed simp

text \<open>
  \<^bold>\<open>C25.\<close> The insertion decision for a capability's output is at least as restrictive as the decision its envelope carries
  (the default of its descriptor and disposition, if it carries none) and as every
  matching policy of the manifest, and is one of these: policies can only tighten what the envelope says. A missing envelope is
  denied, and human approval is required exactly if the resulting action says so, once policies apply.
\<close>

theorem insertion_never_loosened:
  fixes e policies
  defines "base \<equiv> (if in_Action (re_Insertion e) = [] then DefaultInsertionDecision (re_Descriptor e) (re_Disposition e) else re_Insertion e)"
    and "out \<equiv> EffectiveInsertionDecision policies (Some e)"
  shows "in_Action (EffectiveInsertionDecision policies None) = ''denied'' \<and>
    InsertionRestrictiveness (in_Action base) \<le> InsertionRestrictiveness (in_Action out) \<and>
    (\<forall>(s, x) \<in> set policies. SelectorMatchesDescriptor s (re_Descriptor e) \<longrightarrow> InsertionRestrictiveness x \<le> InsertionRestrictiveness (in_Action out)) \<and>
    (in_Action out = in_Action base \<or> (\<exists>(s, x) \<in> set policies. SelectorMatchesDescriptor s (re_Descriptor e) \<and> x = in_Action out)) \<and>
    (policies \<noteq> [] \<longrightarrow> in_RequiresHITL out = (in_Action out = ''hitl-required''))"
proof (cases "policies = []")
  case False
  obtain b d1 where f: "fold (insertionStep (re_Descriptor e)) policies (in_Action base, base) = (b, d1)" by force
  have "in_Action out = b" "in_RequiresHITL out = (b = ''hitl-required'')"
    using False f unfolding out_def base_def by (simp_all add: EffectiveInsertionDecision_def Let_def)
  with insertion_fold [OF f] show ?thesis by (simp add: EffectiveInsertionDecision_def insertAs_def)
qed (simp add: out_def base_def EffectiveInsertionDecision_def insertAs_def Let_def)

definition wResult :: CapabilityResultEnvelope where
  "wResult = \<lparr>re_Descriptor = wCap, re_Disposition = ''raw'', re_Insertion = insertAs [] [], re_PolicyID = Some ''p1''\<rparr>"

theorem insertion_never_loosened_witness:
  "in_Action (EffectiveInsertionDecision [(anySelector, ''hitl-required''), (anySelector, ''direct'')] (Some wResult)) = ''hitl-required'' \<and>
   in_RequiresHITL (EffectiveInsertionDecision [(anySelector, ''hitl-required''), (anySelector, ''direct'')] (Some wResult))"
proof -
  have "in_Action (EffectiveInsertionDecision [(anySelector, ''hitl-required''), (anySelector, ''direct'')] (Some wResult)) = ''hitl-required''"
    by code_simp
  with insertion_never_loosened [of "[(anySelector, ''hitl-required''), (anySelector, ''direct'')]" wResult] show ?thesis by simp
qed

end
