(* ===== verification/Preflight.thy ===== *)
theory Preflight
  imports Selectors
begin

text \<open>
  Node contracts of the agent graph and the preflight that places them (\<open>execution/agentgraph/contracts.go\<close>,
  \<open>preflight.go\<close>, \<open>context/state_boundaries.go\<close>): what a contract may say, the default contracts, and the
  choice of a registered capability for every requirement of every node.
\<close>

section \<open>Contracts\<close>

record StateBoundaryPolicy =
  sb_ReadKeys :: "string list"
  sb_WriteKeys :: "string list"
  sb_AllowHistoryAccess :: bool
  sb_AllowRetrieval :: bool
  sb_AllowedMemoryClasses :: "string list"
  sb_AllowedDataClasses :: "string list"
  sb_MaxStateEntryBytes :: int
  sb_MaxInlineCollectionItems :: int
  sb_PreferArtifactReferences :: bool

definition noBoundary :: StateBoundaryPolicy where
  "noBoundary = \<lparr>sb_ReadKeys = [], sb_WriteKeys = [], sb_AllowHistoryAccess = False, sb_AllowRetrieval = False,
     sb_AllowedMemoryClasses = [], sb_AllowedDataClasses = [], sb_MaxStateEntryBytes = 0, sb_MaxInlineCollectionItems = 0,
     sb_PreferArtifactReferences = False\<rparr>"

record NodeContract =
  nc_RequiredCapabilities :: "CapabilitySelector list"
  nc_SideEffectClass :: string
  nc_Idempotency :: string
  nc_PreferredPlacement :: string
  nc_MaxRiskClass :: RiskClass
  nc_RequiredTrustClass :: string
  nc_Recoverability :: string
  nc_CheckpointPolicy :: string
  nc_ContextPolicy :: StateBoundaryPolicy

definition emptyContract :: NodeContract where
  "emptyContract = \<lparr>nc_RequiredCapabilities = [], nc_SideEffectClass = [], nc_Idempotency = [], nc_PreferredPlacement = [],
     nc_MaxRiskClass = [], nc_RequiredTrustClass = [], nc_Recoverability = [], nc_CheckpointPolicy = [], nc_ContextPolicy = noBoundary\<rparr>"

text \<open>A node by what the graph asks of it statically; \<open>nd_Contract\<close> is present for a \<open>ContractNode\<close>.\<close>

record Node =
  nd_ID :: string
  nd_Type :: string
  nd_Contract :: "NodeContract option"

abbreviation NodeTypeTool :: string where "NodeTypeTool \<equiv> ''tool''"
abbreviation NodeTypeConditional :: string where "NodeTypeConditional \<equiv> ''conditional''"
abbreviation NodeTypeHuman :: string where "NodeTypeHuman \<equiv> ''human''"
abbreviation NodeTypeTerminal :: string where "NodeTypeTerminal \<equiv> ''terminal''"
abbreviation NodeTypeSystem :: string where "NodeTypeSystem \<equiv> ''system''"
abbreviation NodeTypeObservation :: string where "NodeTypeObservation \<equiv> ''observation''"
abbreviation NodeTypeStream :: string where "NodeTypeStream \<equiv> ''stream''"

abbreviation SideEffectNone :: string where "SideEffectNone \<equiv> ''none''"
abbreviation SideEffectContext :: string where "SideEffectContext \<equiv> ''context''"
abbreviation SideEffectLocal :: string where "SideEffectLocal \<equiv> ''local''"
abbreviation SideEffectExternal :: string where "SideEffectExternal \<equiv> ''external''"
abbreviation SideEffectHuman :: string where "SideEffectHuman \<equiv> ''human''"
abbreviation IdempotencyUnknown :: string where "IdempotencyUnknown \<equiv> ''unknown''"
abbreviation IdempotencyReplaySafe :: string where "IdempotencyReplaySafe \<equiv> ''replay-safe''"
abbreviation IdempotencySingleShot :: string where "IdempotencySingleShot \<equiv> ''single-shot''"
abbreviation PlacementPreferenceAny :: string where "PlacementPreferenceAny \<equiv> ''any''"
abbreviation PlacementPreferenceLocal :: string where "PlacementPreferenceLocal \<equiv> ''local''"
abbreviation PlacementPreferenceRemote :: string where "PlacementPreferenceRemote \<equiv> ''remote''"
abbreviation PlacementPreferenceSticky :: string where "PlacementPreferenceSticky \<equiv> ''sticky-session''"

definition knownDataClasses :: "string list" where
  "knownDataClasses = [''task-metadata'', ''step-metadata'', ''routing-flag'', ''artifact-ref'', ''memory-ref'', ''structured-state'',
     ''transcript'', ''raw-payload'', ''retrieval-dump'', ''subagent-history'']"

definition ValidateStateBoundaryPolicy :: "StateBoundaryPolicy \<Rightarrow> goerr option" where
  "ValidateStateBoundaryPolicy p =
     firstSome
       [if list_ex (\<lambda>k. TrimSpace k = []) (sb_ReadKeys p @ sb_WriteKeys p) then Some (Err ''state boundary contains empty key'') else None,
        unknownIn [''working'', ''streamed''] ''memory class'' (sb_AllowedMemoryClasses p),
        unknownIn knownDataClasses ''state data class'' (sb_AllowedDataClasses p),
        if sb_MaxStateEntryBytes p < 0 then Some (Err ''max_state_entry_bytes must be >= 0'') else None,
        if sb_MaxInlineCollectionItems p < 0 then Some (Err ''max_inline_collection_items must be >= 0'') else None]"

definition invalidEnum :: "string \<Rightarrow> string \<Rightarrow> string list \<Rightarrow> string \<Rightarrow> goerr option" where
  "invalidEnum nodeID what known v =
     (if v = [] \<or> v \<in> set known then None
      else Some (Err (''node '' @ nodeID @ '' has invalid '' @ what @ '' '' @ [CHR 0x22] @ v @ [CHR 0x22])))"

definition validateNodeContract :: "Node \<Rightarrow> NodeContract \<Rightarrow> goerr option" where
  "validateNodeContract node c =
     firstSome
       (map (\<lambda>s. map_option (Wrap (''node '' @ nd_ID node @ '' has invalid capability selector: '')) (ValidateCapabilitySelector s))
          (nc_RequiredCapabilities c) @
        [invalidEnum (nd_ID node) ''side effect class''
           [SideEffectNone, SideEffectContext, SideEffectLocal, SideEffectExternal, SideEffectHuman] (nc_SideEffectClass c),
         invalidEnum (nd_ID node) ''idempotency'' [IdempotencyUnknown, IdempotencyReplaySafe, IdempotencySingleShot] (nc_Idempotency c),
         invalidEnum (nd_ID node) ''placement preference''
           [PlacementPreferenceAny, PlacementPreferenceLocal, PlacementPreferenceRemote, PlacementPreferenceSticky] (nc_PreferredPlacement c),
         invalidEnum (nd_ID node) ''recoverability'' [''none'', ''in-process'', ''persisted''] (nc_Recoverability c),
         invalidEnum (nd_ID node) ''checkpoint policy'' [''none'', ''preferred'', ''required''] (nc_CheckpointPolicy c),
         map_option (Wrap (''node '' @ nd_ID node @ '' has invalid context policy: '')) (ValidateStateBoundaryPolicy (nc_ContextPolicy c)),
         if nd_Type node = NodeTypeTool \<and> nc_RequiredCapabilities c = [] \<and> nd_Contract node \<noteq> None
         then Some (Err (''node '' @ nd_ID node @ '' is a tool node but declares no required capabilities'')) else None])"

section \<open>Default contracts\<close>

definition systemContextPolicy :: StateBoundaryPolicy where
  "systemContextPolicy = noBoundary\<lparr>sb_ReadKeys := [''task.*'', ''plan.*'', ''react.*'', ''architect.*''],
     sb_WriteKeys := [''plan.*'', ''react.*'', ''architect.*''], sb_AllowedMemoryClasses := [''working''],
     sb_AllowedDataClasses := [''task-metadata'', ''step-metadata'', ''routing-flag'', ''structured-state''],
     sb_MaxStateEntryBytes := 4096, sb_MaxInlineCollectionItems := 32\<rparr>"

definition humanContextPolicy :: StateBoundaryPolicy where
  "humanContextPolicy = noBoundary\<lparr>sb_ReadKeys := [''task.*'', ''approval.*''], sb_WriteKeys := [''approval.*''],
     sb_AllowHistoryAccess := True, sb_AllowedMemoryClasses := [''working''],
     sb_AllowedDataClasses := [''task-metadata'', ''structured-state''], sb_MaxStateEntryBytes := 4096, sb_MaxInlineCollectionItems := 16\<rparr>"

definition streamContextPolicy :: StateBoundaryPolicy where
  "streamContextPolicy = noBoundary\<lparr>sb_ReadKeys := [''task.*'', ''contextstream.*''], sb_WriteKeys := [''contextstream.*''],
     sb_AllowedMemoryClasses := [''working''],
     sb_AllowedDataClasses := [''task-metadata'', ''structured-state''], sb_MaxStateEntryBytes := 4096, sb_MaxInlineCollectionItems := 16\<rparr>"

definition toolContextPolicy :: StateBoundaryPolicy where
  "toolContextPolicy = noBoundary\<lparr>sb_ReadKeys := [''task.*'', ''react.*'', ''planner.*'', ''architect.*''],
     sb_WriteKeys := [''react.*'', ''planner.*'', ''tool.*'', ''artifact.*''], sb_AllowedMemoryClasses := [''working'', ''streamed''],
     sb_AllowedDataClasses := [''task-metadata'', ''step-metadata'', ''artifact-ref'', ''memory-ref'', ''structured-state''],
     sb_MaxStateEntryBytes := 4096, sb_MaxInlineCollectionItems := 16, sb_PreferArtifactReferences := True\<rparr>"

definition terminalContextPolicy :: StateBoundaryPolicy where
  "terminalContextPolicy = systemContextPolicy\<lparr>sb_WriteKeys := []\<rparr>"

definition basicContract :: "string \<Rightarrow> string \<Rightarrow> StateBoundaryPolicy \<Rightarrow> NodeContract" where
  "basicContract effect idem p = emptyContract\<lparr>nc_SideEffectClass := effect, nc_Idempotency := idem, nc_ContextPolicy := p\<rparr>"

definition HumanNode_Contract :: NodeContract where
  "HumanNode_Contract = basicContract SideEffectHuman IdempotencySingleShot humanContextPolicy"

definition TerminalNode_Contract :: NodeContract where
  "TerminalNode_Contract = basicContract SideEffectNone IdempotencyReplaySafe terminalContextPolicy"

definition defaultNodeContract :: "Node \<Rightarrow> NodeContract" where
  "defaultNodeContract node =
     (if nd_Type node = NodeTypeHuman then basicContract SideEffectHuman IdempotencySingleShot humanContextPolicy
      else if nd_Type node \<in> {NodeTypeTerminal, NodeTypeConditional, NodeTypeObservation, NodeTypeSystem}
      then basicContract SideEffectNone IdempotencyReplaySafe systemContextPolicy
      else if nd_Type node = NodeTypeStream then basicContract SideEffectContext IdempotencyReplaySafe streamContextPolicy
      else if nd_Type node = NodeTypeTool then basicContract SideEffectExternal IdempotencyUnknown toolContextPolicy
      else emptyContract)"

definition ResolveNodeContract :: "Node \<Rightarrow> NodeContract" where
  "ResolveNodeContract node = (case nd_Contract node of Some c \<Rightarrow> c | None \<Rightarrow> defaultNodeContract node)"

definition classifyToolSideEffects :: "CapabilityDescriptor \<Rightarrow> string" where
  "classifyToolSideEffects d =
     (if cap_EffectClasses d = [] then SideEffectNone
      else if list_all (\<lambda>x. x = EffectClassContextInsertion) (cap_EffectClasses d) then SideEffectContext
      else if list_ex (\<lambda>x. x \<notin> {EffectClassContextInsertion, EffectClassFilesystemMutation, EffectClassProcessSpawn}) (cap_EffectClasses d)
      then SideEffectExternal
      else SideEffectLocal)"

definition classifyToolIdempotency :: "CapabilityDescriptor \<Rightarrow> string" where
  "classifyToolIdempotency d =
     (if cap_EffectClasses d = [] then IdempotencyReplaySafe
      else if list_ex (\<lambda>x. x \<in> {EffectClassFilesystemMutation, EffectClassNetworkEgress, EffectClassCredentialUse, EffectClassExternalState,
             EffectClassSessionCreation}) (cap_EffectClasses d)
      then IdempotencySingleShot
      else if list_ex (\<lambda>r. r \<in> {RiskClassDestructive, RiskClassNetwork, RiskClassCredentialed, RiskClassExfiltration, RiskClassSessioned})
             (descRisks d)
      then IdempotencySingleShot
      else IdempotencyReplaySafe)"

text \<open>\<open>desc\<close> is the descriptor of the tool, absent for a nil tool.\<close>

definition toolNodeContract :: "CapabilityDescriptor option \<Rightarrow> NodeContract" where
  "toolNodeContract desc =
     (let contract = basicContract SideEffectExternal IdempotencyUnknown toolContextPolicy in
      case desc of
        None \<Rightarrow> contract
      | Some d \<Rightarrow>
          contract\<lparr>nc_RequiredCapabilities :=
              (if cap_ID d \<noteq> [] \<or> cap_Name d \<noteq> []
               then [\<lparr>sel_ID = cap_ID d, sel_Name = cap_Name d, sel_Kind = ''tool'', sel_RuntimeFamilies = [], sel_Tags = [],
                      sel_ExcludeTags = [], sel_SourceScopes = [], sel_TrustClasses = [], sel_RiskClasses = [], sel_EffectClasses = [],
                      sel_CoordinationRoles = [], sel_CoordinationTaskTypes = [], sel_CoordinationExecutionModes = [],
                      sel_CoordinationLongRunning = 0, sel_CoordinationDirectInsertion = 0\<rparr>]
               else nc_RequiredCapabilities contract),
            nc_SideEffectClass := classifyToolSideEffects d, nc_Idempotency := classifyToolIdempotency d\<rparr>)"

section \<open>Placement\<close>

definition riskRank :: "RiskClass \<Rightarrow> int" where
  "riskRank r =
     (if r = RiskClassReadOnly then 1 else if r = RiskClassSessioned then 2 else if r = RiskClassNetwork then 3
      else if r = RiskClassExecute then 4 else if r = RiskClassCredentialed then 5 else if r = RiskClassExfiltration then 6
      else if r = RiskClassDestructive then 7 else 0)"

definition trustRank :: "string \<Rightarrow> int" where
  "trustRank t =
     (if t = ''remote-declared-untrusted'' then 1 else if t = ''provider-local-untrusted'' then 2 else if t = ''remote-approved'' then 3
      else if t = ''workspace-trusted'' then 4 else if t = ''builtin-trusted'' then 5 else 0)"

definition riskExceeds :: "RiskClass \<Rightarrow> RiskClass list \<Rightarrow> bool" where
  "riskExceeds mx actual = (if mx = [] then False else list_ex (\<lambda>r. riskRank r > riskRank mx) actual)"

definition maxRiskRank :: "RiskClass list \<Rightarrow> int" where
  "maxRiskRank risks = fold (\<lambda>r m. if riskRank r > m then riskRank r else m) risks 0"

definition matchingDescriptors :: "CapabilitySelector \<Rightarrow> CapabilityDescriptor list \<Rightarrow> CapabilityDescriptor list" where
  "matchingDescriptors s ds = filter (SelectorMatchesDescriptor s) ds"

definition filterDescriptorsForContract :: "NodeContract \<Rightarrow> CapabilityDescriptor list \<Rightarrow> CapabilityDescriptor list" where
  "filterDescriptorsForContract c ds =
     filter (\<lambda>d. \<not> (nc_RequiredTrustClass c \<noteq> [] \<and> trustRank (cap_TrustClass d) < trustRank (nc_RequiredTrustClass c)) \<and>
                 \<not> (nc_MaxRiskClass c \<noteq> [] \<and> riskExceeds (nc_MaxRiskClass c) (descRisks d))) ds"

definition placementScore :: "string \<Rightarrow> CapabilityDescriptor \<Rightarrow> int" where
  "placementScore pref d =
     trustRank (cap_TrustClass d) * 100 - maxRiskRank (descRisks d) * 10 +
     (if pref = PlacementPreferenceLocal then (if csrc_ProviderID (cap_Source d) = [] then 50 else 0)
      else if pref = PlacementPreferenceRemote then (if csrc_ProviderID (cap_Source d) \<noteq> [] then 50 else 0)
      else if pref = PlacementPreferenceSticky then (if TrimSpace (cap_SessionAffinity d) \<noteq> [] then 50 else 0)
      else 0)"

definition placementReason :: "string \<Rightarrow> CapabilityDescriptor \<Rightarrow> string" where
  "placementReason pref d =
     (if pref = PlacementPreferenceLocal \<and> csrc_ProviderID (cap_Source d) = [] then ''selected highest-trust local capability''
      else if pref = PlacementPreferenceRemote \<and> csrc_ProviderID (cap_Source d) \<noteq> [] then ''selected highest-trust remote/provider capability''
      else if pref = PlacementPreferenceSticky \<and> cap_SessionAffinity d \<noteq> [] then ''selected sticky-session capability with matching affinity''
      else ''selected highest-trust lowest-risk matching capability'')"

definition selectorString :: "CapabilitySelector \<Rightarrow> string" where
  "selectorString s =
     (if sel_ID s \<noteq> [] then sel_ID s else if sel_Name s \<noteq> [] then sel_Name s else if sel_Kind s \<noteq> [] then sel_Kind s
      else ''unknown-selector'')"

record PreflightIssue =
  pi_NodeID :: string
  pi_Code :: string
  pi_Message :: string
  pi_Blocking :: bool

text \<open>\<open>SelectedCapabilityID\<close> is the identifier of \<open>SelectedCapability\<close>, and empty as long as none is selected.\<close>

record PlacementDecision =
  pd_NodeID :: string
  pd_RequiredSelector :: CapabilitySelector
  pd_Preference :: string
  pd_SelectedCapability :: "CapabilityDescriptor option"
  pd_CandidateCapabilityIDs :: "string list"
  pd_PlacementReason :: string

definition SelectedCapabilityID :: "PlacementDecision \<Rightarrow> string" where
  "SelectedCapabilityID p = (case pd_SelectedCapability p of None \<Rightarrow> [] | Some d \<Rightarrow> cap_ID d)"

record PreflightReport =
  pr_GeneratedAt :: int
  pr_Issues :: "PreflightIssue list"
  pr_Placements :: "PlacementDecision list"

definition HasBlockingIssues :: "PreflightReport \<Rightarrow> bool" where
  "HasBlockingIssues r = list_ex pi_Blocking (pr_Issues r)"

definition blockingPreflightError :: "PreflightIssue list \<Rightarrow> goerr option" where
  "blockingPreflightError issues =
     map_option (\<lambda>i. Err (''graph preflight failed: '' @ pi_Message i @ '' ('' @ pi_NodeID i @ '')'')) (find pi_Blocking issues)"

definition preflightPlacementDecision ::
  "string \<Rightarrow> CapabilitySelector \<Rightarrow> NodeContract \<Rightarrow> CapabilityDescriptor list \<Rightarrow> PlacementDecision \<times> PreflightIssue list" where
  "preflightPlacementDecision nodeID s c ds =
     (let decision = \<lparr>pd_NodeID = nodeID, pd_RequiredSelector = s, pd_Preference = nc_PreferredPlacement c, pd_SelectedCapability = None,
            pd_CandidateCapabilityIDs = [], pd_PlacementReason = []\<rparr>;
          matches = matchingDescriptors s ds;
          filtered = filterDescriptorsForContract c matches;
          sorted = sort_key (\<lambda>d. - placementScore (nc_PreferredPlacement c) d) filtered
      in if matches = []
         then (decision, [\<lparr>pi_NodeID = nodeID, pi_Code = ''capability_missing'',
                 pi_Message = ''no registered capability matches selector '' @ selectorString s, pi_Blocking = True\<rparr>])
         else if filtered = []
         then (decision, [\<lparr>pi_NodeID = nodeID, pi_Code = ''capability_constraints_unsatisfied'',
                 pi_Message = ''matching capabilities for '' @ selectorString s @ '' do not satisfy trust/risk constraints'', pi_Blocking = True\<rparr>])
         else (decision\<lparr>pd_SelectedCapability := Some (hd sorted), pd_CandidateCapabilityIDs := map cap_ID sorted,
                 pd_PlacementReason := placementReason (nc_PreferredPlacement c) (hd sorted)\<rparr>, []))"

text \<open>
  The report of a preflight over the nodes of a graph, sorted by identifier, with their contracts and the
  capabilities of the catalog, absent where no catalog is set.
\<close>

definition nodePlacements ::
  "CapabilityDescriptor list \<Rightarrow> string \<Rightarrow> NodeContract \<Rightarrow> (PlacementDecision \<times> PreflightIssue list) list" where
  "nodePlacements ds nodeID c = map (\<lambda>s. preflightPlacementDecision nodeID s c ds) (nc_RequiredCapabilities c)"

definition preflightReport ::
  "int \<Rightarrow> (string \<times> Node) list \<Rightarrow> (string \<times> NodeContract) list \<Rightarrow> CapabilityDescriptor list option \<Rightarrow> PreflightReport" where
  "preflightReport now nodes contracts catalog =
     (case catalog of
        None \<Rightarrow> \<lparr>pr_GeneratedAt = now, pr_Issues = [], pr_Placements = []\<rparr>
      | Some ds \<Rightarrow>
          let ds = sort_key cap_ID ds;
              outcomes = concat (map (\<lambda>n. nodePlacements ds (nd_ID n)
                (case map_of contracts (nd_ID n) of Some c \<Rightarrow> c | None \<Rightarrow> ResolveNodeContract n)) (sort_key nd_ID (map snd nodes)))
          in \<lparr>pr_GeneratedAt = now, pr_Issues = concat (map snd outcomes),
              pr_Placements = filter (\<lambda>p. SelectedCapabilityID p \<noteq> []) (map fst outcomes)\<rparr>)"

definition preflightError :: "PreflightReport \<Rightarrow> goerr option" where
  "preflightError r = (if HasBlockingIssues r then blockingPreflightError (pr_Issues r) else None)"

section \<open>What a contract may ask\<close>

lemma default_contract_valid:
  assumes "nd_Contract node = None"
  shows "validateNodeContract node (ResolveNodeContract node) = None"
proof -
  have "ValidateStateBoundaryPolicy p = None"
    if "p \<in> {noBoundary, systemContextPolicy, humanContextPolicy, streamContextPolicy, toolContextPolicy}" for p
  proof -
    have "ValidateStateBoundaryPolicy noBoundary = None" "ValidateStateBoundaryPolicy systemContextPolicy = None"
      "ValidateStateBoundaryPolicy humanContextPolicy = None" "ValidateStateBoundaryPolicy streamContextPolicy = None"
      "ValidateStateBoundaryPolicy toolContextPolicy = None" by code_simp+
    with that show ?thesis by blast
  qed
  then show ?thesis
    using assms
    by (simp add: ResolveNodeContract_def defaultNodeContract_def validateNodeContract_def invalidEnum_def basicContract_def emptyContract_def)
qed

section \<open>The best placement\<close>

text \<open>The trust and risk limits of a contract.\<close>

definition withinLimits :: "NodeContract \<Rightarrow> CapabilityDescriptor \<Rightarrow> bool" where
  "withinLimits c d \<longleftrightarrow>
     (nc_RequiredTrustClass c = [] \<or> trustRank (nc_RequiredTrustClass c) \<le> trustRank (cap_TrustClass d)) \<and>
     (nc_MaxRiskClass c = [] \<or> (\<forall>r \<in> set (descRisks d). riskRank r \<le> riskRank (nc_MaxRiskClass c)))"

definition contractOf :: "(string \<times> NodeContract) list \<Rightarrow> Node \<Rightarrow> NodeContract" where
  "contractOf contracts n = (case map_of contracts (nd_ID n) of Some c \<Rightarrow> c | None \<Rightarrow> ResolveNodeContract n)"

lemma filtered_iff:
  "d \<in> set (filterDescriptorsForContract c (matchingDescriptors s ds)) \<longleftrightarrow> d \<in> set ds \<and> SelectorMatchesDescriptor s d \<and> withinLimits c d"
  by (auto simp: filterDescriptorsForContract_def matchingDescriptors_def withinLimits_def riskExceeds_def list_ex_iff not_less)

lemma hd_sort_key:
  fixes f :: "'a \<Rightarrow> 'b :: linorder" and g :: "'a \<Rightarrow> 'c :: linorder"
  assumes "xs \<noteq> []" and "sorted (map g xs)"
  shows "hd (sort_key f xs) \<in> set xs \<and> (\<forall>y \<in> set xs. f (hd (sort_key f xs)) \<le> f y \<and> (f y = f (hd (sort_key f xs)) \<longrightarrow> g (hd (sort_key f xs)) \<le> g y))"
proof -
  let ?k = "f (hd (sort_key f xs))" and ?h = "hd (sort_key f xs)"
  have ne: "sort_key f xs \<noteq> []" using assms(1) by (metis length_0_conv length_sort)
  have "?h \<in> set xs" using ne hd_in_set set_sort by metis
  moreover have least: "?k \<le> f y" if "y \<in> set xs" for y
  proof -
    have "sorted (map f (sort_key f xs))" by simp
    with ne that show ?thesis by (cases "sort_key f xs") (auto, metis list.inject set_ConsD set_sort order_refl)
  qed
  moreover have "g ?h \<le> g y" if "y \<in> set xs" "f y = ?k" for y
  proof -
    have "filter (\<lambda>x. f x = ?k) (sort_key f xs) = filter (\<lambda>x. f x = ?k) xs" by (simp add: sort_key_stable)
    moreover have "filter (\<lambda>x. f x = ?k) (sort_key f xs) = ?h # filter (\<lambda>x. f x = ?k) (tl (sort_key f xs))"
      using ne by (cases "sort_key f xs") auto
    ultimately obtain zs where zs: "filter (\<lambda>x. f x = ?k) xs = ?h # zs" by metis
    have "sorted (map g (filter (\<lambda>x. f x = ?k) xs))" using assms(2) by (rule sorted_filter)
    moreover have "y \<in> set (filter (\<lambda>x. f x = ?k) xs)" using that by simp
    ultimately show ?thesis unfolding zs by auto
  qed
  ultimately show ?thesis by blast
qed

text \<open>What one requirement resolves to.\<close>

lemma placement_decision:
  fixes nodeID s c ds
  defines "ok \<equiv> \<lambda>d. d \<in> set ds \<and> SelectorMatchesDescriptor s d \<and> withinLimits c d"
    and "out \<equiv> preflightPlacementDecision nodeID s c (sort_key cap_ID ds)"
    and "score \<equiv> placementScore (nc_PreferredPlacement c)"
  shows "(list_ex pi_Blocking (snd out) \<longleftrightarrow> \<not> (\<exists>d. ok d))"
    and "pd_SelectedCapability (fst out) = Some d \<Longrightarrow>
      ok d \<and> (\<forall>d'. ok d' \<longrightarrow> score d' \<le> score d \<and> (score d' = score d \<longrightarrow> cap_ID d \<le> cap_ID d'))"
    and "pd_NodeID (fst out) = nodeID \<and> pd_RequiredSelector (fst out) = s"
proof -
  let ?ms = "matchingDescriptors s (sort_key cap_ID ds)" let ?fs = "filterDescriptorsForContract c ?ms"
  have ok: "ok d \<longleftrightarrow> d \<in> set ?fs" for d by (simp add: ok_def filtered_iff)
  have sub: "?ms = [] \<Longrightarrow> ?fs = []" by (simp add: filterDescriptorsForContract_def)
  show "(list_ex pi_Blocking (snd out) \<longleftrightarrow> \<not> (\<exists>d. ok d))"
    unfolding ok out_def preflightPlacementDecision_def Let_def using sub by (cases "?ms = []"; cases "?fs = []") auto
  show "pd_NodeID (fst out) = nodeID \<and> pd_RequiredSelector (fst out) = s"
    unfolding out_def preflightPlacementDecision_def Let_def by simp
  assume sel: "pd_SelectedCapability (fst out) = Some d"
  then have d: "?fs \<noteq> []" "d = hd (sort_key (\<lambda>d. - score d) ?fs)"
    unfolding out_def preflightPlacementDecision_def Let_def score_def by (auto split: if_splits)
  have "sorted (map cap_ID ?fs)"
    unfolding filterDescriptorsForContract_def matchingDescriptors_def by (intro sorted_filter) simp
  from hd_sort_key [OF d(1) this, of "\<lambda>d. - score d"]
  show "ok d \<and> (\<forall>d'. ok d' \<longrightarrow> score d' \<le> score d \<and> (score d' = score d \<longrightarrow> cap_ID d \<le> cap_ID d'))"
    unfolding ok d(2) [symmetric] by auto
qed

lemma preflight_outcomes:
  "preflightReport now nodes contracts (Some ds) =
    \<lparr>pr_GeneratedAt = now,
     pr_Issues = concat (map snd (concat (map (\<lambda>n. nodePlacements (sort_key cap_ID ds) (nd_ID n) (contractOf contracts n)) (sort_key nd_ID (map snd nodes))))),
     pr_Placements = filter (\<lambda>p. SelectedCapabilityID p \<noteq> [])
       (map fst (concat (map (\<lambda>n. nodePlacements (sort_key cap_ID ds) (nd_ID n) (contractOf contracts n)) (sort_key nd_ID (map snd nodes)))))\<rparr>"
  by (simp add: preflightReport_def contractOf_def Let_def)

lemma preflightError_None: "preflightError r = None \<longleftrightarrow> \<not> list_ex pi_Blocking (pr_Issues r)"
  by (auto simp: preflightError_def HasBlockingIssues_def blockingPreflightError_def find_None_iff list_ex_iff)

lemma maxRiskRank_bounds: "0 \<le> maxRiskRank rs \<and> maxRiskRank rs \<le> 7"
proof -
  have "fold (\<lambda>r m. if riskRank r > m then riskRank r else m) rs m0 \<in> {0..7}" if "m0 \<in> {0..7}" for m0 :: int
    using that
  proof (induction rs arbitrary: m0)
    case (Cons r rs)
    have "riskRank r \<le> 7" by (simp add: riskRank_def)
    with Cons show ?case by simp
  qed simp
  from this [of 0] show ?thesis by (simp add: maxRiskRank_def)
qed

lemma score_trust_first:
  assumes "pref \<notin> {PlacementPreferenceLocal, PlacementPreferenceRemote, PlacementPreferenceSticky}"
    and "placementScore pref d' \<le> placementScore pref d"
  shows "trustRank (cap_TrustClass d') \<le> trustRank (cap_TrustClass d)"
    and "trustRank (cap_TrustClass d') = trustRank (cap_TrustClass d) \<Longrightarrow> maxRiskRank (descRisks d) \<le> maxRiskRank (descRisks d')"
  using assms maxRiskRank_bounds [of "descRisks d"] maxRiskRank_bounds [of "descRisks d'"]
  unfolding placementScore_def by auto

lemma preflight_catalog:
  "(preflightError (preflightReport now nodes contracts (Some ds)) = None \<longleftrightarrow>
     (\<forall>n \<in> snd ` set nodes. \<forall>s \<in> set (nc_RequiredCapabilities (contractOf contracts n)).
        \<exists>d \<in> set ds. SelectorMatchesDescriptor s d \<and> withinLimits (contractOf contracts n) d)) \<and>
   (\<forall>p \<in> set (pr_Placements (preflightReport now nodes contracts (Some ds))).
      \<exists>n \<in> snd ` set nodes. \<exists>d \<in> set ds. let c = contractOf contracts n; s = pd_RequiredSelector p; pref = nc_PreferredPlacement c in
        pd_NodeID p = nd_ID n \<and> s \<in> set (nc_RequiredCapabilities c) \<and> pd_SelectedCapability p = Some d \<and>
        SelectorMatchesDescriptor s d \<and> withinLimits c d \<and>
        (\<forall>d' \<in> set ds. SelectorMatchesDescriptor s d' \<and> withinLimits c d' \<longrightarrow>
           placementScore pref d' \<le> placementScore pref d \<and>
           (placementScore pref d' = placementScore pref d \<longrightarrow> cap_ID d \<le> cap_ID d') \<and>
           (pref \<in> {[], PlacementPreferenceAny} \<longrightarrow>
              trustRank (cap_TrustClass d') \<le> trustRank (cap_TrustClass d) \<and>
              (trustRank (cap_TrustClass d') = trustRank (cap_TrustClass d) \<longrightarrow> maxRiskRank (descRisks d) \<le> maxRiskRank (descRisks d')))))"
proof (intro conjI ballI)
 have issues: "list_ex pi_Blocking (pr_Issues (preflightReport now nodes contracts (Some ds))) \<longleftrightarrow>
      (\<exists>n \<in> snd ` set nodes. \<exists>s \<in> set (nc_RequiredCapabilities (contractOf contracts n)).
        list_ex pi_Blocking (snd (preflightPlacementDecision (nd_ID n) s (contractOf contracts n) (sort_key cap_ID ds))))"
    unfolding preflight_outcomes by (auto simp: list_ex_iff nodePlacements_def)
  show "preflightError (preflightReport now nodes contracts (Some ds)) = None \<longleftrightarrow>
     (\<forall>n \<in> snd ` set nodes. \<forall>s \<in> set (nc_RequiredCapabilities (contractOf contracts n)).
        \<exists>d \<in> set ds. SelectorMatchesDescriptor s d \<and> withinLimits (contractOf contracts n) d)"
    unfolding preflightError_None issues placement_decision(1) by auto
  fix p assume "p \<in> set (pr_Placements (preflightReport now nodes contracts (Some ds)))"
  then have "\<exists>n \<in> snd ` set nodes. \<exists>s \<in> set (nc_RequiredCapabilities (contractOf contracts n)).
      p = fst (preflightPlacementDecision (nd_ID n) s (contractOf contracts n) (sort_key cap_ID ds)) \<and> SelectedCapabilityID p \<noteq> []"
    unfolding preflight_outcomes by (force simp: nodePlacements_def)
  then obtain n s where n: "n \<in> snd ` set nodes" and s: "s \<in> set (nc_RequiredCapabilities (contractOf contracts n))"
    and p: "p = fst (preflightPlacementDecision (nd_ID n) s (contractOf contracts n) (sort_key cap_ID ds))"
    and ne: "SelectedCapabilityID p \<noteq> []" by blast
  from ne obtain d where d: "pd_SelectedCapability p = Some d" by (auto simp: SelectedCapabilityID_def split: option.splits)
  let ?c = "contractOf contracts n"
  note best = placement_decision(2) [OF d [unfolded p]]
  have "pref \<in> {[], PlacementPreferenceAny} \<Longrightarrow> pref \<notin> {PlacementPreferenceLocal, PlacementPreferenceRemote, PlacementPreferenceSticky}"
    for pref :: string by auto
  note first = score_trust_first [OF this]
  have sel: "pd_NodeID p = nd_ID n" "pd_RequiredSelector p = s" using placement_decision(3) unfolding p by auto
  show "\<exists>n \<in> snd ` set nodes. \<exists>d \<in> set ds. let c = contractOf contracts n; s = pd_RequiredSelector p; pref = nc_PreferredPlacement c in
        pd_NodeID p = nd_ID n \<and> s \<in> set (nc_RequiredCapabilities c) \<and> pd_SelectedCapability p = Some d \<and>
        SelectorMatchesDescriptor s d \<and> withinLimits c d \<and>
        (\<forall>d' \<in> set ds. SelectorMatchesDescriptor s d' \<and> withinLimits c d' \<longrightarrow>
           placementScore pref d' \<le> placementScore pref d \<and>
           (placementScore pref d' = placementScore pref d \<longrightarrow> cap_ID d \<le> cap_ID d') \<and>
           (pref \<in> {[], PlacementPreferenceAny} \<longrightarrow>
              trustRank (cap_TrustClass d') \<le> trustRank (cap_TrustClass d) \<and>
              (trustRank (cap_TrustClass d') = trustRank (cap_TrustClass d) \<longrightarrow> maxRiskRank (descRisks d) \<le> maxRiskRank (descRisks d'))))"
    unfolding Let_def sel
    by (intro bexI [OF _ n] bexI [of _ d]) (use best d s sel first in \<open>blast+\<close>)
qed


text \<open>
  \<^bold>\<open>C20.\<close> A preflight that is computed, and not served from the report of an earlier one, passes exactly if no catalog is set
  or for every requirement of every node some capability that the catalog holds then matches
  its selector within the trust and risk limits of the contract. A placement it reports selects such a
  capability, one with the best score, on equal scores the one with the least identifier; without a
  placement preference it is the one with the highest trust and, among these, with the least risk. Without a catalog
  there are no placements.
\<close>

theorem preflight_exact:
  "(preflightError (preflightReport now nodes contracts catalog) = None \<longleftrightarrow>
     (\<forall>ds. catalog = Some ds \<longrightarrow> (\<forall>n \<in> snd ` set nodes. \<forall>s \<in> set (nc_RequiredCapabilities (contractOf contracts n)).
        \<exists>d \<in> set ds. SelectorMatchesDescriptor s d \<and> withinLimits (contractOf contracts n) d))) \<and>
   (\<forall>p \<in> set (pr_Placements (preflightReport now nodes contracts catalog)).
      \<exists>ds. catalog = Some ds \<and> (\<exists>n \<in> snd ` set nodes. \<exists>d \<in> set ds. let c = contractOf contracts n; s = pd_RequiredSelector p; pref = nc_PreferredPlacement c in
        pd_NodeID p = nd_ID n \<and> s \<in> set (nc_RequiredCapabilities c) \<and> pd_SelectedCapability p = Some d \<and>
        SelectorMatchesDescriptor s d \<and> withinLimits c d \<and>
        (\<forall>d' \<in> set ds. SelectorMatchesDescriptor s d' \<and> withinLimits c d' \<longrightarrow>
           placementScore pref d' \<le> placementScore pref d \<and>
           (placementScore pref d' = placementScore pref d \<longrightarrow> cap_ID d \<le> cap_ID d') \<and>
           (pref \<in> {[], PlacementPreferenceAny} \<longrightarrow>
              trustRank (cap_TrustClass d') \<le> trustRank (cap_TrustClass d) \<and>
              (trustRank (cap_TrustClass d') = trustRank (cap_TrustClass d) \<longrightarrow> maxRiskRank (descRisks d) \<le> maxRiskRank (descRisks d'))))))"
proof (cases catalog)
  case None
  then show ?thesis by (simp add: preflightReport_def preflightError_None)
next
  case (Some ds)
  show ?thesis unfolding Some option.inject using preflight_catalog [of now nodes contracts ds] by (elim conjE, intro conjI) (simp_all only: ex_simps all_simps simp_thms)
qed

definition wContract :: NodeContract where
  "wContract = (basicContract SideEffectExternal IdempotencyUnknown toolContextPolicy)
     \<lparr>nc_RequiredCapabilities := [anySelector], nc_RequiredTrustClass := ''workspace-trusted''\<rparr>"

definition wNode :: Node where
  "wNode = \<lparr>nd_ID = ''format'', nd_Type = NodeTypeTool, nd_Contract = Some wContract\<rparr>"

theorem preflight_exact_witness:
  "preflightError (preflightReport 0 [(''format'', wNode)] [(''format'', wContract)]
     (Some [wCap\<lparr>cap_ID := ''tool:x'', cap_TrustClass := ''remote-approved''\<rparr>, wCap])) = None"
proof -
  have "contractOf [(''format'', wContract)] wNode = wContract" by code_simp
  moreover have "nc_RequiredCapabilities wContract = [anySelector]" by (simp add: wContract_def)
  moreover have "SelectorMatchesDescriptor anySelector wCap" by code_simp
  moreover have "withinLimits wContract wCap" by code_simp
  ultimately show ?thesis using preflight_exact [of 0 "[(''format'', wNode)]" _ "Some _"] by simp
qed

text \<open>A matching capability without an identifier gives neither a placement nor an issue.\<close>

lemma unnamed_capability_unplaced:
  "preflightReport 0 [(''format'', wNode)] [(''format'', wContract)] (Some [wCap\<lparr>cap_ID := []\<rparr>]) =
     \<lparr>pr_GeneratedAt = 0, pr_Issues = [], pr_Placements = []\<rparr>"
  by code_simp

text \<open>An effect class outside the vocabulary counts as an external side effect, and yet as safe to replay.\<close>

lemma unknown_effect_replay_safe:
  "classifyToolSideEffects (wCap\<lparr>cap_EffectClasses := [''payment'']\<rparr>) = SideEffectExternal"
  "classifyToolIdempotency (wCap\<lparr>cap_EffectClasses := [''payment'']\<rparr>) = IdempotencyReplaySafe"
  by code_simp+


end
