(* ===== verification/AgentGraph.thy ===== *)
theory AgentGraph
  imports ContextData Preflight
begin

text \<open>
  The graph runner (\<open>execution/agentgraph/graph.go\<close>): building and sealing a graph, validation, the run loop
  with its visit cap, and the fan-out over parallel edges with the join of the branch envelopes. The
  graph runs without an epoch coordinator here; \<open>Epoch\<close> models the barrier it would call.

  What a node does is a parameter: the position of a visit in the whole execution, a list of node
  identifiers with a mark for every branch entered, makes every visit a call of its own, so the outcome
  may depend on anything outside. Branches nest; the level of an execution bounds how deep, and \<open>None\<close>
  stands for an execution that needs more levels, so one that is \<open>None\<close> at every level never returns.
\<close>

section \<open>Graphs\<close>

record NodeResult =
  rs_NodeID :: string
  rs_Success :: bool
  rs_Data :: "(string \<times> goval) list"
  rs_Error :: string
  rs_Metadata :: "(string \<times> goval) list"

text \<open>A missing \<open>Condition\<close> is always true.\<close>

record Edge =
  eg_From :: string
  eg_To :: string
  eg_Condition :: "(NodeResult \<Rightarrow> Envelope \<Rightarrow> bool) option"
  eg_Parallel :: bool

text \<open>A catalog answers \<open>InspectableCapabilities\<close> with what it holds at the moment of the call.\<close>

type_synonym catalog = "time \<Rightarrow> CapabilityDescriptor list"

record Graph =
  gr_sealed :: bool
  gr_nodes :: "(string \<times> Node) list"
  gr_nodeContracts :: "(string \<times> NodeContract) list"
  gr_edges :: "(string \<times> Edge list) list"
  gr_startNodeID :: string
  gr_maxNodeVisits :: int
  gr_visitCounts :: "string \<Rightarrow> int"
  gr_executionPath :: "string list"
  gr_capabilityCatalog :: "catalog option"
  gr_lastPreflight :: "PreflightReport option"
  gr_lastPreflightErr :: "goerr option"
  gr_preflightDirty :: bool
  gr_lastValidationErr :: "goerr option"
  gr_validationDirty :: bool

definition NewGraph :: Graph where
  "NewGraph = \<lparr>gr_sealed = False, gr_nodes = [], gr_nodeContracts = [], gr_edges = [], gr_startNodeID = [], gr_maxNodeVisits = 1024,
     gr_visitCounts = (\<lambda>_. 0), gr_executionPath = [], gr_capabilityCatalog = None, gr_lastPreflight = None, gr_lastPreflightErr = None,
     gr_preflightDirty = True, gr_lastValidationErr = None, gr_validationDirty = True\<rparr>"

definition ErrGraphSealed :: goerr where
  "ErrGraphSealed = Err ''agentgraph: graph is sealed (execution in progress or complete)''"

definition invalidatePreflightLocked :: "Graph \<Rightarrow> Graph" where
  "invalidatePreflightLocked g = g\<lparr>gr_preflightDirty := True, gr_lastPreflight := None, gr_lastPreflightErr := None\<rparr>"

definition invalidateStructureLocked :: "Graph \<Rightarrow> Graph" where
  "invalidateStructureLocked g = invalidatePreflightLocked (g\<lparr>gr_validationDirty := True\<rparr>)"

definition SetMaxNodeVisits :: "int \<Rightarrow> Graph \<Rightarrow> goerr option \<times> Graph" where
  "SetMaxNodeVisits limit g =
     (if gr_sealed g then (Some ErrGraphSealed, g)
      else (None, if limit > 0 then g\<lparr>gr_maxNodeVisits := limit\<rparr> else g))"

definition SetStart :: "string \<Rightarrow> Graph \<Rightarrow> goerr option \<times> Graph" where
  "SetStart i g =
     (if gr_sealed g then (Some ErrGraphSealed, g)
      else if map_of (gr_nodes g) i = None then (Some (Err (''start node '' @ i @ '' not found'')), g)
      else (None, invalidateStructureLocked (g\<lparr>gr_startNodeID := i\<rparr>)))"

definition AddNode :: "Node \<Rightarrow> Graph \<Rightarrow> goerr option \<times> Graph" where
  "AddNode node g =
     (if gr_sealed g then (Some ErrGraphSealed, g)
      else if map_of (gr_nodes g) (nd_ID node) \<noteq> None then (Some (Err (''node '' @ nd_ID node @ '' already exists'')), g)
      else (None, invalidateStructureLocked
             (g\<lparr>gr_nodes := AList.update (nd_ID node) node (gr_nodes g),
                gr_nodeContracts := AList.update (nd_ID node) (ResolveNodeContract node) (gr_nodeContracts g)\<rparr>)))"

definition edgesOf :: "Graph \<Rightarrow> string \<Rightarrow> Edge list" where
  "edgesOf g i = (case map_of (gr_edges g) i of None \<Rightarrow> [] | Some es \<Rightarrow> es)"

definition AddEdge :: "string \<Rightarrow> string \<Rightarrow> (NodeResult \<Rightarrow> Envelope \<Rightarrow> bool) option \<Rightarrow> bool \<Rightarrow> Graph \<Rightarrow> goerr option \<times> Graph" where
  "AddEdge from to cond par g =
     (if gr_sealed g then (Some ErrGraphSealed, g)
      else if map_of (gr_nodes g) from = None then (Some (Err (''node '' @ from @ '' not defined'')), g)
      else if map_of (gr_nodes g) to = None then (Some (Err (''node '' @ to @ '' not defined'')), g)
      else (None, invalidateStructureLocked
             (g\<lparr>gr_edges := AList.update from
                  (edgesOf g from @ [\<lparr>eg_From = from, eg_To = to, eg_Condition = cond, eg_Parallel = par\<rparr>]) (gr_edges g)\<rparr>)))"

definition SetCapabilityCatalog :: "catalog option \<Rightarrow> Graph \<Rightarrow> goerr option \<times> Graph" where
  "SetCapabilityCatalog catalog g =
     (if gr_sealed g then (Some ErrGraphSealed, g)
      else (None, invalidatePreflightLocked (g\<lparr>gr_capabilityCatalog := catalog\<rparr>)))"

section \<open>Validation and preflight\<close>

fun danglingEdge :: "(string \<times> Node) list \<Rightarrow> (string \<times> Edge list) list \<Rightarrow> goerr option" where
  "danglingEdge nodes [] = None"
| "danglingEdge nodes ((from, es) # rest) =
     (if map_of nodes from = None then Some (Err (''edge references missing node '' @ from))
      else case find (\<lambda>e. map_of nodes (eg_To e) = None) es of
             Some e \<Rightarrow> Some (Err (''edge references missing node '' @ eg_To e))
           | None \<Rightarrow> danglingEdge nodes rest)"

text \<open>The contracts are resolved as the nodes are walked, up to the first invalid one.\<close>

fun validateContracts :: "Node list \<Rightarrow> (string \<times> NodeContract) list \<Rightarrow> goerr option \<times> (string \<times> NodeContract) list" where
  "validateContracts [] cs = (None, cs)"
| "validateContracts (n # ns) cs =
     (let c = contractOf cs n;
          cs = (if map_of cs (nd_ID n) = None then AList.update (nd_ID n) c cs else cs)
      in case validateNodeContract n c of Some err \<Rightarrow> (Some err, cs) | None \<Rightarrow> validateContracts ns cs)"

definition Graph_Validate :: "Graph \<Rightarrow> goerr option \<times> Graph" where
  "Graph_Validate g =
     (if \<not> gr_validationDirty g then (gr_lastValidationErr g, g)
      else
        let (err, cs) =
          (if gr_nodes g = [] then (Some (Err ''graph has no nodes''), gr_nodeContracts g)
           else if gr_startNodeID g = [] then (Some (Err ''graph has no start node''), gr_nodeContracts g)
           else case danglingEdge (gr_nodes g) (gr_edges g) of
                  Some err \<Rightarrow> (Some err, gr_nodeContracts g)
                | None \<Rightarrow> validateContracts (map snd (gr_nodes g)) (gr_nodeContracts g))
        in (err, g\<lparr>gr_nodeContracts := cs, gr_lastValidationErr := err, gr_validationDirty := False\<rparr>))"

definition Graph_Preflight :: "time \<Rightarrow> Graph \<Rightarrow> goerr option \<times> Graph" where
  "Graph_Preflight now g =
     (if \<not> gr_preflightDirty g \<and> gr_lastPreflight g \<noteq> None then (gr_lastPreflightErr g, g)
      else
        let report = preflightReport now (gr_nodes g) (gr_nodeContracts g) (map_option (\<lambda>catalog. catalog now) (gr_capabilityCatalog g));
            err = preflightError report
        in (err, g\<lparr>gr_lastPreflight := Some report, gr_lastPreflightErr := err, gr_preflightDirty := False\<rparr>))"

text \<open>A report that passed is served again although the catalog has lost what it rested on.\<close>

lemma cached_preflight_outlives_catalog:
  "let g = (NewGraph\<lparr>gr_nodes := [(''format'', wNode)], gr_capabilityCatalog := Some (\<lambda>now. if now = 0 then [wCap] else [])\<rparr>);
       (err, g') = Graph_Preflight 0 g
   in err = None \<and> fst (Graph_Preflight 1 g') = None \<and> fst (Graph_Preflight 1 g) \<noteq> None"
  by code_simp

section \<open>Running\<close>

text \<open>
  What lies outside the graph, by the position of a visit: the node's own execution, the state of the
  context at the head of an iteration, the clock, and the order in which the branches of a fan-out finish.
\<close>

record outside =
  os_Execute :: "string list \<Rightarrow> string \<Rightarrow> Envelope \<Rightarrow> (goerr + NodeResult option) \<times> Envelope"
  os_Done :: "string list \<Rightarrow> goerr option"
  os_Now :: "string list \<Rightarrow> time"
  os_Finish :: "string list \<Rightarrow> nat \<Rightarrow> nat list"

type_synonym outcome = "(goerr + NodeResult option) \<times> Envelope"

definition storeResult :: "time \<Rightarrow> string \<Rightarrow> (string \<times> goval) list \<Rightarrow> Envelope \<Rightarrow> Envelope" where
  "storeResult now current data env =
     fold (\<lambda>(key, value). SetWorkingValueWithClass now (current @ ''.'' @ key) value MemoryClassTask) data env"

definition paused :: "NodeResult \<Rightarrow> bool" where
  "paused r = (map_of (rs_Metadata r) ''euclo.interaction.pause'' = Some (GBool True))"

definition taken :: "NodeResult \<Rightarrow> Envelope \<Rightarrow> Edge \<Rightarrow> bool" where
  "taken r env e = (case eg_Condition e of None \<Rightarrow> True | Some c \<Rightarrow> c r env)"

record parallelBranchResult =
  br_index :: nat
  br_edge :: Edge
  br_env :: Envelope
  br_delta :: BranchDelta
  br_err :: "goerr option"

text \<open>One branch: a clone of the envelope, the branch execution, the delta to the parent.\<close>

definition branchResult :: "(nat \<Rightarrow> string \<Rightarrow> Envelope \<Rightarrow> outcome option) \<Rightarrow> Envelope \<Rightarrow> nat \<Rightarrow> Edge \<Rightarrow> parallelBranchResult option" where
  "branchResult branch env index e =
     map_option (\<lambda>(res, branchEnv). \<lparr>br_index = index, br_edge = e, br_env = branchEnv, br_delta = ComputeBranchDelta env branchEnv,
        br_err = (case res of Inl err \<Rightarrow> Some err | Inr _ \<Rightarrow> None)\<rparr>) (branch index (eg_To e) (Clone env))"

text \<open>The slots of the result slice, written in the order \<open>finish\<close> in which the branches finish.\<close>

definition collectBranches ::
  "(nat \<Rightarrow> string \<Rightarrow> Envelope \<Rightarrow> outcome option) \<Rightarrow> nat list \<Rightarrow> Envelope \<Rightarrow> Edge list \<Rightarrow> parallelBranchResult option list" where
  "collectBranches branch finish env edges =
     fold (\<lambda>i results. results[i := branchResult branch env i (edges ! i)]) finish (replicate (length edges) None)"

fun allSome :: "'a option list \<Rightarrow> 'a list option" where
  "allSome [] = Some []"
| "allSome (None # xs) = None"
| "allSome (Some x # xs) = map_option ((#) x) (allSome xs)"

definition mergeParallelBranchEnvelopes :: "Envelope \<Rightarrow> parallelBranchResult list \<Rightarrow> goerr option \<times> Envelope" where
  "mergeParallelBranchEnvelopes parent branches =
     (if branches = [] then (None, parent)
      else case ValidateBranchMerge (map br_env branches) of
        Some err \<Rightarrow> (Some err, parent)
      | None \<Rightarrow>
          (case ApplyBranchMerges
              (map (\<lambda>b. \<lparr>bu_Index = int (br_index b), bu_ID = eg_To (br_edge b), bu_Delta = br_delta b, bu_Env = Some (br_env b)\<rparr>) branches) parent of
             (Inl err, env) \<Rightarrow> (Some err, env)
           | (Inr stats, env) \<Rightarrow> (None, env)))"

text \<open>The next node, empty at the end of the traversal, and the envelope after the fan-out.\<close>

definition nextNodes ::
  "(nat \<Rightarrow> string \<Rightarrow> Envelope \<Rightarrow> outcome option) \<Rightarrow> (nat \<Rightarrow> nat list) \<Rightarrow> Graph \<Rightarrow> Envelope \<Rightarrow> Node \<Rightarrow> NodeResult \<Rightarrow>
   ((goerr + string) \<times> Envelope) option" where
  "nextNodes branch finish g env node r =
     (let outEdges = edgesOf g (nd_ID node) in
      if outEdges = [] \<or> nd_Type node = NodeTypeTerminal then Some (Inr [], env)
      else
        let followed = filter (taken r env) outEdges;
            serialEdges = filter (\<lambda>e. \<not> eg_Parallel e) followed;
            parallelEdges = filter eg_Parallel followed;
            cont = (\<lambda>env. if serialEdges = [] then (Inr [], env)
                          else if length serialEdges > 1 then (Inl (Err (''ambiguous transitions from '' @ nd_ID node)), env)
                          else (Inr (eg_To (hd serialEdges)), env))
        in if parallelEdges = [] then Some (cont env)
           else case allSome (collectBranches branch (finish (length parallelEdges)) env parallelEdges) of
                  None \<Rightarrow> None
                | Some results \<Rightarrow>
                    (case find (\<lambda>b. br_err b \<noteq> None) results of
                       Some b \<Rightarrow> Some (Inl (the (br_err b)), env)
                     | None \<Rightarrow>
                         (case mergeParallelBranchEnvelopes env results of
                            (Some err, env) \<Rightarrow> Some (Inl err, env)
                          | (None, env) \<Rightarrow> Some (cont env))))"

definition visitsLeft :: "Graph \<Rightarrow> (string \<Rightarrow> int) \<Rightarrow> nat" where
  "visitsLeft g counts = (\<Sum>x \<leftarrow> remdups (map fst (gr_nodes g)). nat (gr_maxNodeVisits g - counts x))"

lemma sum_list_remdups_less:
  fixes f h :: "'a \<Rightarrow> nat"
  assumes "x \<in> set xs" and "h x < f x" and "\<And>y. y \<noteq> x \<Longrightarrow> h y = f y"
  shows "(\<Sum>y \<leftarrow> remdups xs. h y) < (\<Sum>y \<leftarrow> remdups xs. f y)"
proof -
  have "sum h (set xs) < sum f (set xs)"
    by (rule sum_strict_mono_ex1) (use assms in \<open>auto, metis less_or_eq_imp_le\<close>)
  then show ?thesis by (simp add: sum_list_distinct_conv_sum_set)
qed

lemma visitsLeft_less:
  assumes "map_of (gr_nodes g) x = Some n" and "counts x + 1 \<le> gr_maxNodeVisits g"
  shows "visitsLeft g (counts(x := counts x + 1)) < visitsLeft g counts"
  unfolding visitsLeft_def
proof (rule sum_list_remdups_less)
  show "x \<in> set (map fst (gr_nodes g))" using map_of_SomeD [OF assms(1)] by force
qed (use assms(2) in auto)

text \<open>The run loop. A branch of a fan-out is run by \<open>branch\<close>, given the position of the visit that forks.\<close>

function runLoop ::
  "outside \<Rightarrow> Graph \<Rightarrow> (string list \<Rightarrow> nat \<Rightarrow> string \<Rightarrow> Envelope \<Rightarrow> outcome option) \<Rightarrow> string list \<Rightarrow> string \<Rightarrow> Envelope \<Rightarrow>
   (string \<Rightarrow> int) \<Rightarrow> string list \<Rightarrow> NodeResult option \<Rightarrow> (outcome \<times> (string \<Rightarrow> int) \<times> string list) option" where
  "runLoop W g branch at current env counts path lastResult =
     (if current = [] then Some ((Inr lastResult, env), counts, path)
      else case os_Done W (at @ path @ [current]) of
        Some err \<Rightarrow> Some ((Inl err, env), counts, path)
      | None \<Rightarrow>
          (case map_of (gr_nodes g) current of
             None \<Rightarrow> Some ((Inl (Err (''node '' @ current @ '' missing'')), env), counts, path)
           | Some node \<Rightarrow>
               if counts current + 1 > gr_maxNodeVisits g
               then Some ((Inl (Err (''potential cycle detected at node '' @ current)), env), counts(current := counts current + 1), path)
               else
                 (case os_Execute W (at @ path @ [current]) current env of
                    (Inl err, env) \<Rightarrow>
                      Some ((Inl (Wrap (''node '' @ current @ '' execution failed: '') err), env),
                        counts(current := counts current + 1), path @ [current])
                  | (Inr res, env) \<Rightarrow>
                      let r = (case res of None \<Rightarrow> \<lparr>rs_NodeID = current, rs_Success = True, rs_Data = [], rs_Error = [], rs_Metadata = []\<rparr>
                               | Some r \<Rightarrow> r\<lparr>rs_NodeID := current\<rparr>);
                          env = storeResult (os_Now W (at @ path @ [current])) current (rs_Data r) env
                      in if paused r then Some ((Inr (Some r), env), counts(current := counts current + 1), path @ [current])
                         else
                           (case nextNodes (branch (at @ path @ [current])) (os_Finish W (at @ path @ [current])) g env node r of
                              None \<Rightarrow> None
                            | Some (Inl err, env) \<Rightarrow> Some ((Inl err, env), counts(current := counts current + 1), path @ [current])
                            | Some (Inr next, env) \<Rightarrow>
                                runLoop W g branch at next env (counts(current := counts current + 1)) (path @ [current]) (Some r)))))"
  by pat_completeness auto

termination
  by (relation "measure (\<lambda>(W, g, branch, at, current, env, counts, path, lastResult). visitsLeft g counts)")
    (auto intro: visitsLeft_less)

text \<open>\<open>Execute\<close> around the branch executor, and the subgraph of a branch: the snapshot of the sealed graph from another start.\<close>

definition executeWith ::
  "(string list \<Rightarrow> Graph \<Rightarrow> nat \<Rightarrow> string \<Rightarrow> Envelope \<Rightarrow> outcome option) \<Rightarrow> outside \<Rightarrow> string list \<Rightarrow> Graph \<Rightarrow> Envelope \<Rightarrow>
   (outcome \<times> Graph) option" where
  "executeWith branch W at g env =
     (case Graph_Validate (g\<lparr>gr_sealed := True\<rparr>) of
        (Some err, g) \<Rightarrow> Some ((Inl err, env), g)
      | (None, g) \<Rightarrow>
          (case Graph_Preflight (os_Now W at) g of
             (Some err, g) \<Rightarrow> Some ((Inl err, env), g)
           | (None, g) \<Rightarrow>
               if gr_startNodeID g = [] then Some ((Inl (Err ''graph has no start node''), env), g)
               else map_option (\<lambda>(out, counts, path). (out, g\<lparr>gr_visitCounts := counts, gr_executionPath := path\<rparr>))
                      (runLoop W g (\<lambda>here. branch here g) at (gr_startNodeID g) env (\<lambda>_. 0) [] None)))"

definition executeBranch :: "string \<Rightarrow> Graph \<Rightarrow> Graph" where
  "executeBranch start g =
     g\<lparr>gr_sealed := False, gr_startNodeID := start, gr_visitCounts := (\<lambda>_. 0), gr_executionPath := [], gr_validationDirty := False\<rparr>"

definition branchMark :: "nat \<Rightarrow> string" where
  "branchMark i = ''#'' @ dec i"

fun Graph_Execute :: "nat \<Rightarrow> outside \<Rightarrow> string list \<Rightarrow> Graph \<Rightarrow> Envelope \<Rightarrow> (outcome \<times> Graph) option" where
  "Graph_Execute 0 W at g env = None"
| "Graph_Execute (Suc level) W at g env =
     executeWith (\<lambda>here g i start env. map_option fst (Graph_Execute level W (here @ [branchMark i]) (executeBranch start g) env)) W at g env"


section \<open>One visit\<close>

text \<open>
  A visit ends the traversal, or goes on to a next node with the envelope after the fan-out. The lemmas on
  the run loop go through this view of its body.
\<close>

definition visitResult :: "string \<Rightarrow> NodeResult option \<Rightarrow> NodeResult" where
  "visitResult current res =
     (case res of None \<Rightarrow> \<lparr>rs_NodeID = current, rs_Success = True, rs_Data = [], rs_Error = [], rs_Metadata = []\<rparr>
      | Some r \<Rightarrow> r\<lparr>rs_NodeID := current\<rparr>)"

definition visit ::
  "outside \<Rightarrow> Graph \<Rightarrow> (nat \<Rightarrow> string \<Rightarrow> Envelope \<Rightarrow> outcome option) \<Rightarrow> string list \<Rightarrow> string \<Rightarrow> Node \<Rightarrow> Envelope \<Rightarrow>
   (outcome + string \<times> Envelope \<times> NodeResult) option" where
  "visit W g branch here current node env =
     (case os_Execute W here current env of
        (Inl err, env) \<Rightarrow> Some (Inl (Inl (Wrap (''node '' @ current @ '' execution failed: '') err), env))
      | (Inr res, env) \<Rightarrow>
          let r = visitResult current res; env = storeResult (os_Now W here) current (rs_Data r) env
          in if paused r then Some (Inl (Inr (Some r), env))
             else case nextNodes branch (os_Finish W here) g env node r of
                    None \<Rightarrow> None
                  | Some (Inl err, env) \<Rightarrow> Some (Inl (Inl err, env))
                  | Some (Inr next, env) \<Rightarrow> Some (Inr (next, env, r)))"

lemma runLoop_visit:
  "runLoop W g branch at current env counts path lastResult =
     (if current = [] then Some ((Inr lastResult, env), counts, path)
      else case os_Done W (at @ path @ [current]) of
        Some err \<Rightarrow> Some ((Inl err, env), counts, path)
      | None \<Rightarrow>
          (case map_of (gr_nodes g) current of
             None \<Rightarrow> Some ((Inl (Err (''node '' @ current @ '' missing'')), env), counts, path)
           | Some node \<Rightarrow>
               if counts current + 1 > gr_maxNodeVisits g
               then Some ((Inl (Err (''potential cycle detected at node '' @ current)), env), counts(current := counts current + 1), path)
               else
                 (case visit W g (branch (at @ path @ [current])) (at @ path @ [current]) current node env of
                    None \<Rightarrow> None
                  | Some (Inl out) \<Rightarrow> Some (out, counts(current := counts current + 1), path @ [current])
                  | Some (Inr (next, env, r)) \<Rightarrow>
                      runLoop W g branch at next env (counts(current := counts current + 1)) (path @ [current]) (Some r))))"
proof (cases "current = []")
  case False
  then show ?thesis
    by (subst runLoop.simps)
      (auto simp: visit_def visitResult_def Let_def split: option.splits sum.splits prod.splits)
qed (simp add: runLoop.simps)

declare runLoop.simps [simp del]

lemma runLoop_induct:
  assumes "\<And>current env counts path lastResult.
      (\<And>node next env' r. current \<noteq> [] \<Longrightarrow> os_Done W (at @ path @ [current]) = None \<Longrightarrow> map_of (gr_nodes g) current = Some node \<Longrightarrow>
         counts current + 1 \<le> gr_maxNodeVisits g \<Longrightarrow>
         visit W g (branch (at @ path @ [current])) (at @ path @ [current]) current node env = Some (Inr (next, env', r)) \<Longrightarrow>
         P next env' (counts(current := counts current + 1)) (path @ [current]) (Some r)) \<Longrightarrow>
      P current env counts path lastResult"
  shows "P current env counts path lastResult"
proof (induction "visitsLeft g counts" arbitrary: current env counts path lastResult rule: less_induct)
  case less
  show ?case by (rule assms) (rule less, auto intro: visitsLeft_less)
qed

section \<open>The visit cap\<close>

lemma runLoop_capped:
  assumes "runLoop W g branch at current env counts path lastResult = Some (out, counts', path')"
    and "counts = (\<lambda>x. int (count_list path x))" and "\<forall>x. int (count_list path x) \<le> gr_maxNodeVisits g"
  shows "\<forall>x. int (count_list path' x) \<le> gr_maxNodeVisits g"
  using assms
proof (induction current env counts path lastResult rule: runLoop_induct [where W = W and g = g and branch = branch and at = at])
  case (1 current env counts path lastResult)
  show ?case
  proof (cases "\<exists>node next env' r. current \<noteq> [] \<and> os_Done W (at @ path @ [current]) = None \<and> map_of (gr_nodes g) current = Some node \<and>
      counts current + 1 \<le> gr_maxNodeVisits g \<and>
      visit W g (branch (at @ path @ [current])) (at @ path @ [current]) current node env = Some (Inr (next, env', r))")
    case True
    then obtain node "next" env' r where v: "current \<noteq> []" "os_Done W (at @ path @ [current]) = None" "map_of (gr_nodes g) current = Some node"
      "counts current + 1 \<le> gr_maxNodeVisits g"
      "visit W g (branch (at @ path @ [current])) (at @ path @ [current]) current node env = Some (Inr (next, env', r))" by blast
    have "runLoop W g branch at next env' (counts(current := counts current + 1)) (path @ [current]) (Some r) = Some (out, counts', path')"
      using "1.prems"(1) v by (simp add: runLoop_visit [of W g branch at current])
    moreover have "counts(current := counts current + 1) = (\<lambda>x. int (count_list (path @ [current]) x))"
      "\<forall>x. int (count_list (path @ [current]) x) \<le> gr_maxNodeVisits g" using "1.prems"(2,3) v(4) by auto
    ultimately show ?thesis by (rule "1.IH" [OF v])
  next
    case False
    with "1.prems" show ?thesis
      by (auto simp: runLoop_visit [of W g branch at current] not_less split: if_splits option.splits sum.splits prod.splits)
  qed
qed


section \<open>Scheduling\<close>

text \<open>A finishing order in which every branch occurs.\<close>

definition complete :: "(string list \<Rightarrow> nat \<Rightarrow> nat list) \<Rightarrow> bool" where
  "complete finish \<longleftrightarrow> (\<forall>here n. set (finish here n) = {..<n})"

lemma fold_slots:
  assumes "set is \<subseteq> {..<length xs}"
  shows "fold (\<lambda>i ys. ys[i := f i]) is xs = map (\<lambda>i. if i \<in> set is then f i else xs ! i) [0..<length xs]"
  using assms
proof (induction "is" arbitrary: xs)
  case (Cons i "is")
  then show ?case by (auto intro!: nth_equalityI simp: nth_list_update)
qed (simp add: map_nth)

text \<open>The result slice does not depend on the order in which the branches finish.\<close>

lemma collectBranches_eq:
  assumes "set finish = {..<length es}"
  shows "collectBranches branch finish env es = map (\<lambda>i. branchResult branch env i (es ! i)) [0..<length es]"
  using assms by (simp add: collectBranches_def fold_slots)

lemma nextNodes_finish:
  assumes "\<And>n. set (f1 n) = {..<n}" and "\<And>n. set (f2 n) = {..<n}"
  shows "nextNodes branch f1 g env node r = nextNodes branch f2 g env node r"
  unfolding nextNodes_def Let_def by (simp add: collectBranches_eq assms)

lemma visit_finish:
  assumes "complete (os_Finish W)" and "complete f"
  shows "visit (W\<lparr>os_Finish := f\<rparr>) g branch here current node env = visit W g branch here current node env"
proof -
  have eq: "nextNodes branch (f here) g env node r = nextNodes branch (os_Finish W here) g env node r" for env r
    using assms by (intro nextNodes_finish) (auto simp: complete_def)
  obtain res env' where "os_Execute W here current env = (res, env')" by force
  then show ?thesis by (cases res) (simp_all add: visit_def eq Let_def)
qed

lemma runLoop_finish:
  assumes "complete (os_Finish W)" and "complete f"
  shows "runLoop (W\<lparr>os_Finish := f\<rparr>) g branch at current env counts path lastResult =
    runLoop W g branch at current env counts path lastResult"
proof (induction current env counts path lastResult rule: runLoop_induct [where W = W and g = g and branch = branch and at = at])
  case (1 current env counts path lastResult)
  show ?case
    unfolding runLoop_visit [of _ g branch at current] visit_finish [OF assms]
    by (auto split: option.splits sum.splits intro: "1.IH")
qed

lemma Graph_Execute_finish:
  assumes "complete (os_Finish W)" and "complete f"
  shows "Graph_Execute level (W\<lparr>os_Finish := f\<rparr>) at g env = Graph_Execute level W at g env"
proof (induction level arbitrary: at g env)
  case (Suc level)
  have now: "os_Now (W\<lparr>os_Finish := f\<rparr>) = os_Now W" by simp
  show ?case unfolding Graph_Execute.simps executeWith_def Suc runLoop_finish [OF assms] now ..
qed simp

section \<open>Returning\<close>

lemma allSome_map: "(\<forall>x \<in> set xs. f x \<noteq> None) \<Longrightarrow> allSome (map f xs) = Some (map (the \<circ> f) xs)"
  by (induction xs) auto

lemma nextNodes_returns:
  assumes "set (finish (length (filter eg_Parallel (filter (taken r env) (edgesOf g (nd_ID node)))))) =
      {..<length (filter eg_Parallel (filter (taken r env) (edgesOf g (nd_ID node))))}"
    and "\<And>i e. e \<in> set (edgesOf g (nd_ID node)) \<Longrightarrow> eg_Parallel e \<Longrightarrow> branch i (eg_To e) (Clone env) \<noteq> None"
  shows "nextNodes branch finish g env node r \<noteq> None"
proof -
  let ?es = "filter eg_Parallel (filter (taken r env) (edgesOf g (nd_ID node)))"
  have "branchResult branch env i (?es ! i) \<noteq> None" if "i < length ?es" for i
    using assms(2) [of "?es ! i" i] nth_mem [OF that] by (simp add: branchResult_def)
  then have "allSome (collectBranches branch (finish (length ?es)) env ?es) \<noteq> None"
    unfolding collectBranches_eq [OF assms(1)] by (subst allSome_map) auto
  then show ?thesis
    unfolding nextNodes_def Let_def by (auto split: option.splits prod.splits)
qed

lemma nextNodes_target:
  assumes "nextNodes branch finish g env node r = Some (Inr next, env')" and "next \<noteq> []"
  shows "\<exists>e \<in> set (edgesOf g (nd_ID node)). eg_To e = next \<and> \<not> eg_Parallel e"
proof -
  let ?es = "filter (\<lambda>e. \<not> eg_Parallel e) (filter (taken r env) (edgesOf g (nd_ID node)))"
  have "?es \<noteq> [] \<and> next = eg_To (hd ?es)"
    using assms unfolding nextNodes_def Let_def by (auto split: if_splits option.splits prod.splits sum.splits)
  moreover have "set ?es \<subseteq> set (edgesOf g (nd_ID node))" "\<forall>e \<in> set ?es. \<not> eg_Parallel e" by auto
  ultimately show ?thesis using hd_in_set by blast
qed


text \<open>
  A rank of the nodes that no edge increases and every parallel edge decreases. The condition is on the edges alone:
  graphs in which only the edge conditions end the nesting of fan-outs do not meet it.
\<close>

definition ranked :: "Graph \<Rightarrow> (string \<Rightarrow> nat) \<Rightarrow> bool" where
  "ranked g rank \<longleftrightarrow>
     (\<forall>k n. map_of (gr_nodes g) k = Some n \<longrightarrow>
        (\<forall>e \<in> set (edgesOf g (nd_ID n)). rank (eg_To e) \<le> rank k \<and> (eg_Parallel e \<longrightarrow> rank (eg_To e) < rank k)))"

lemma visit_returns:
  assumes "complete (os_Finish W)"
    and "\<And>i e env. e \<in> set (edgesOf g (nd_ID node)) \<Longrightarrow> eg_Parallel e \<Longrightarrow> branch i (eg_To e) env \<noteq> None"
  shows "visit W g branch here current node env \<noteq> None"
proof -
  have "nextNodes branch (os_Finish W here) g env node r \<noteq> None" for env r
    using assms by (intro nextNodes_returns) (auto simp: complete_def)
  note total = this
  obtain res env' where e: "os_Execute W here current env = (res, env')" by force
  show ?thesis
  proof (cases res)
    case (Inr res')
    let ?r = "visitResult current res'"
    obtain o' env'' where "nextNodes branch (os_Finish W here) g (storeResult (os_Now W here) current (rs_Data ?r) env') node ?r = Some (o', env'')"
      using total by fastforce
    with e Inr show ?thesis by (cases o') (simp_all add: visit_def Let_def)
  qed (use e in \<open>simp add: visit_def\<close>)
qed

lemma runLoop_cases:
  obtains (stop) r where "runLoop W g branch at current env counts path lastResult = Some r"
  | (stuck) node where "current \<noteq> []" "map_of (gr_nodes g) current = Some node"
      "visit W g (branch (at @ path @ [current])) (at @ path @ [current]) current node env = None"
  | (go) node "next" env' r where "current \<noteq> []" "os_Done W (at @ path @ [current]) = None" "map_of (gr_nodes g) current = Some node"
      "counts current + 1 \<le> gr_maxNodeVisits g"
      "visit W g (branch (at @ path @ [current])) (at @ path @ [current]) current node env = Some (Inr (next, env', r))"
      "runLoop W g branch at current env counts path lastResult =
        runLoop W g branch at next env' (counts(current := counts current + 1)) (path @ [current]) (Some r)"
proof (cases "runLoop W g branch at current env counts path lastResult = None")
  case False
  then show thesis using stop by blast
next
  case True
  then have c: "current \<noteq> []" "os_Done W (at @ path @ [current]) = None" by (auto simp: runLoop_visit [of W g branch at current] split: if_splits option.splits)
  with True obtain node where n: "map_of (gr_nodes g) current = Some node" by (auto simp: runLoop_visit [of W g branch at current] split: option.splits)
  with True c have m: "counts current + 1 \<le> gr_maxNodeVisits g" by (auto simp: runLoop_visit [of W g branch at current] not_le split: if_splits)
  show thesis
  proof (cases "visit W g (branch (at @ path @ [current])) (at @ path @ [current]) current node env")
    case None
    with c n stuck show thesis by blast
  next
    case (Some v)
    with True c n m obtain w where "v = Inr w" by (cases v) (auto simp: runLoop_visit [of W g branch at current])
    with Some c n m show thesis by (cases w) (auto intro!: go simp: runLoop_visit [of W g branch at current])
  qed
qed

lemma visit_target:
  assumes "visit W g branch here current node env = Some (Inr (next, env', r))" and "next \<noteq> []"
  shows "\<exists>e \<in> set (edgesOf g (nd_ID node)). eg_To e = next \<and> \<not> eg_Parallel e"
  using assms nextNodes_target unfolding visit_def Let_def by (auto split: prod.splits sum.splits option.splits if_splits)

lemma runLoop_returns:
  assumes "complete (os_Finish W)" and "ranked g rank" and "\<And>here i start env. rank start < b \<Longrightarrow> branch here i start env \<noteq> None"
    and "current \<noteq> [] \<Longrightarrow> rank current \<le> b"
  shows "runLoop W g branch at current env counts path lastResult \<noteq> None"
  using assms(4)
proof (induction current env counts path lastResult rule: runLoop_induct [where W = W and g = g and branch = branch and at = at])
  case (1 current env counts path lastResult)
  have v: "visit W g (branch (at @ path @ [current])) (at @ path @ [current]) current node env \<noteq> None"
    if "map_of (gr_nodes g) current = Some node" "current \<noteq> []" for node
    using that assms(2) "1.prems" by (intro visit_returns assms(1,3)) (auto simp: ranked_def, fastforce)
  have "rank next \<le> b"
    if "map_of (gr_nodes g) current = Some node" "current \<noteq> []" "next \<noteq> []"
      "visit W g (branch (at @ path @ [current])) (at @ path @ [current]) current node env = Some (Inr (next, env', r))" for node "next" env' r
    using visit_target [OF that(4,3)] that(1,2) assms(2) "1.prems" unfolding ranked_def by (blast intro: order_trans)
  note rank_next = this
  show ?case
  proof (cases rule: runLoop_cases [of W g branch at current env counts path lastResult])
    case (go node "next" env' r)
    have "runLoop W g branch at next env' (counts(current := counts current + 1)) (path @ [current]) (Some r) \<noteq> None"
      by (rule "1.IH" [OF go(1-5)]) (rule rank_next [OF go(3,1) _ go(5)])
    with go(6) show ?thesis by simp
  qed (use v in auto)
qed

text \<open>The part of a graph that only building changes.\<close>

definition shape :: "Graph \<Rightarrow> (string \<times> Node) list \<times> (string \<times> Edge list) list \<times> string \<times> int \<times> catalog option" where
  "shape g = (gr_nodes g, gr_edges g, gr_startNodeID g, gr_maxNodeVisits g, gr_capabilityCatalog g)"

lemma shape_steps [simp]:
  "shape (snd (Graph_Validate g)) = shape g" "gr_sealed (snd (Graph_Validate g)) = gr_sealed g"
  "shape (snd (Graph_Preflight now g)) = shape g" "gr_sealed (snd (Graph_Preflight now g)) = gr_sealed g"
  "shape (g\<lparr>gr_sealed := b\<rparr>) = shape g" "shape (g\<lparr>gr_visitCounts := c, gr_executionPath := p\<rparr>) = shape g"
  by (auto simp: Graph_Validate_def Graph_Preflight_def shape_def Let_def split: prod.splits)

lemma shape_eq:
  assumes "shape g' = shape g"
  shows "gr_nodes g' = gr_nodes g" "gr_edges g' = gr_edges g" "gr_startNodeID g' = gr_startNodeID g" "gr_maxNodeVisits g' = gr_maxNodeVisits g"
    "ranked g' rank = ranked g rank"
  using assms by (auto simp: shape_def ranked_def edgesOf_def)

lemma executeWith_cases:
  obtains (failed) err g' where "executeWith branch W at g env = Some ((Inl err, env), g')" "shape g' = shape g" "gr_sealed g'"
      "gr_executionPath g' = gr_executionPath g"
  | (ran) g' where "shape g' = shape g" "gr_sealed g'" "gr_startNodeID g \<noteq> []"
      "executeWith branch W at g env = map_option (\<lambda>(out, counts, path). (out, g'\<lparr>gr_visitCounts := counts, gr_executionPath := path\<rparr>))
         (runLoop W g' (\<lambda>here. branch here g') at (gr_startNodeID g) env (\<lambda>_. 0) [] None)"
proof -
  obtain e1 g1 where v: "Graph_Validate (g\<lparr>gr_sealed := True\<rparr>) = (e1, g1)" by force
  obtain e2 g2 where p: "Graph_Preflight (os_Now W at) g1 = (e2, g2)" by force
  have g1: "shape g1 = shape g" "gr_sealed g1" "gr_executionPath g1 = gr_executionPath g"
    using shape_steps(1,2) [of "g\<lparr>gr_sealed := True\<rparr>"] v by (auto simp: Graph_Validate_def Let_def split: if_splits prod.splits)
  have g2: "shape g2 = shape g" "gr_sealed g2" "gr_executionPath g2 = gr_executionPath g"
    using g1 shape_steps(3,4) [of "os_Now W at" g1] p by (auto simp: Graph_Preflight_def Let_def split: if_splits)
  have start: "gr_startNodeID g2 = gr_startNodeID g" by (rule shape_eq(3) [OF g2(1)])
  show thesis
  proof (cases "e1 = None \<and> e2 = None \<and> gr_startNodeID g \<noteq> []")
    case True
    with v p start show thesis by (intro ran [of g2] g2) (auto simp: executeWith_def)
  next
    case False
    have "\<exists>err g'. executeWith branch W at g env = Some ((Inl err, env), g') \<and> shape g' = shape g \<and> gr_sealed g' \<and> gr_executionPath g' = gr_executionPath g"
      using False v p g1 g2 start by (cases e1; cases e2) (auto simp: executeWith_def)
    with failed show thesis by blast
  qed
qed

lemma Graph_Execute_returns:
  assumes "complete (os_Finish W)" and "ranked g rank" and "rank (gr_startNodeID g) < level"
  shows "Graph_Execute level W at g env \<noteq> None"
  using assms(2,3)
proof (induction level arbitrary: at g env)
  case (Suc level)
  let ?branch = "\<lambda>here g i start env. map_option fst (Graph_Execute level W (here @ [branchMark i]) (executeBranch start g) env)"
  show ?case
  proof (cases rule: executeWith_cases [of ?branch W at g env])
    case (ran g')
    have "runLoop W g' (\<lambda>here. ?branch here g') at (gr_startNodeID g) env (\<lambda>_. 0) [] None \<noteq> None"
    proof (rule runLoop_returns [OF assms(1), where rank = rank and b = level])
      show "ranked g' rank" using Suc.prems(1) shape_eq(5) [OF ran(1)] by simp
      fix here i start env assume "rank start < level"
      moreover have "ranked (executeBranch start g') rank" using Suc.prems(1) shape_eq [OF ran(1)] by (simp add: executeBranch_def ranked_def edgesOf_def)
      ultimately show "?branch here g' i start env \<noteq> None" using Suc.IH [of "executeBranch start g'"] by (simp add: executeBranch_def)
    qed (use Suc.prems(2) in simp)
    with ran(4) show ?thesis by simp
  qed simp
qed simp


text \<open>What an execution returns it returns at every higher level.\<close>

lemma allSome_Some: "allSome xs = Some ys \<Longrightarrow> xs = map Some ys"
  by (induction xs arbitrary: ys rule: allSome.induct) auto

lemma branches_mono:
  assumes "\<And>i s env r. b i s env = Some r \<Longrightarrow> b' i s env = Some r" and "set finish = {..<length es}"
    and "allSome (collectBranches b finish env es) = Some rs"
  shows "collectBranches b' finish env es = collectBranches b finish env es"
proof -
  have eq: "map (\<lambda>i. branchResult b env i (es ! i)) [0..<length es] = map Some rs"
    using allSome_Some [OF assms(3)] unfolding collectBranches_eq [OF assms(2)] .
  have "branchResult b' env i (es ! i) = branchResult b env i (es ! i)" if "i < length es" for i
  proof -
    have "branchResult b env i (es ! i) \<noteq> None"
      using arg_cong [OF eq, of "\<lambda>xs. xs ! i"] arg_cong [OF eq, of length] that by simp
    then show ?thesis using assms(1) by (auto simp: branchResult_def)
  qed
  then show ?thesis unfolding collectBranches_eq [OF assms(2)] by simp
qed

lemma nextNodes_bind:
  fixes g env node r
  defines "ps \<equiv> filter eg_Parallel (filter (taken r env) (edgesOf g (nd_ID node)))"
  shows "\<exists>h. \<forall>branch finish. nextNodes branch finish g env node r =
    (if edgesOf g (nd_ID node) = [] \<or> nd_Type node = NodeTypeTerminal \<or> ps = [] then h []
     else Option.bind (allSome (collectBranches branch (finish (length ps)) env ps)) h)"
proof -
  define cont :: "Envelope \<Rightarrow> (goerr + string) \<times> Envelope" where
    "cont env' = (let serial = filter (\<lambda>e. \<not> eg_Parallel e) (filter (taken r env) (edgesOf g (nd_ID node))) in
       if edgesOf g (nd_ID node) = [] \<or> nd_Type node = NodeTypeTerminal \<or> serial = [] then (Inr [], env')
       else if length serial > 1 then (Inl (Err (''ambiguous transitions from '' @ nd_ID node)), env') else (Inr (eg_To (hd serial)), env'))" for env'
  let ?h = "\<lambda>results. case find (\<lambda>b. br_err b \<noteq> None) results of Some b \<Rightarrow> Some (Inl (the (br_err b)), env)
       | None \<Rightarrow> (case mergeParallelBranchEnvelopes env results of (Some err, env) \<Rightarrow> Some (Inl err, env) | (None, env) \<Rightarrow> Some (cont env))"
  have none: "?h [] = Some (cont env)" by (simp add: mergeParallelBranchEnvelopes_def)
  show ?thesis
  proof (intro exI [of _ ?h] allI)
    fix branch finish
    show "nextNodes branch finish g env node r =
      (if edgesOf g (nd_ID node) = [] \<or> nd_Type node = NodeTypeTerminal \<or> ps = [] then ?h []
       else Option.bind (allSome (collectBranches branch (finish (length ps)) env ps)) ?h)"
    proof (cases "edgesOf g (nd_ID node) = [] \<or> nd_Type node = NodeTypeTerminal \<or> ps = []")
      case True
      then show ?thesis unfolding none unfolding nextNodes_def Let_def cont_def ps_def by auto
    next
      case False
      then show ?thesis
        unfolding nextNodes_def Let_def cont_def ps_def Option.bind_eq_Some_conv
        by (cases "allSome (collectBranches branch (finish (length ps)) env ps)") (simp_all add: ps_def split: option.split prod.split)
    qed
  qed
qed

lemma nextNodes_mono:
  assumes "\<And>i s env r. b i s env = Some r \<Longrightarrow> b' i s env = Some r" and "\<And>n. set (finish n) = {..<n}"
    and "nextNodes b finish g env node r = Some out"
  shows "nextNodes b' finish g env node r = Some out"
proof -
  let ?ps = "filter eg_Parallel (filter (taken r env) (edgesOf g (nd_ID node)))"
  obtain h where h: "\<And>branch finish. nextNodes branch finish g env node r =
    (if edgesOf g (nd_ID node) = [] \<or> nd_Type node = NodeTypeTerminal \<or> ?ps = [] then h []
     else Option.bind (allSome (collectBranches branch (finish (length ?ps)) env ?ps)) h)"
    using nextNodes_bind [where g = g and env = env and node = node and r = r] by blast
  show ?thesis
  proof (cases "edgesOf g (nd_ID node) = [] \<or> nd_Type node = NodeTypeTerminal \<or> ?ps = []")
    case True
    then show ?thesis using assms(3) unfolding h by argo
  next
    case False
    then obtain rs where rs: "allSome (collectBranches b (finish (length ?ps)) env ?ps) = Some rs"
      using assms(3) unfolding h by (auto simp del: filter_filter simp: Option.bind_eq_Some_conv)
    have "collectBranches b' (finish (length ?ps)) env ?ps = collectBranches b (finish (length ?ps)) env ?ps"
      by (rule branches_mono [where b = b and b' = b', OF _ _ rs]) (auto intro: assms(1,2) simp: assms(2))
    then show ?thesis using assms(3) unfolding h by presburger
  qed
qed

lemma visit_mono:
  assumes "\<And>i s env r. b i s env = Some r \<Longrightarrow> b' i s env = Some r" and "complete (os_Finish W)"
    and "visit W g b here current node env = Some out"
  shows "visit W g b' here current node env = Some out"
proof -
  obtain res env' where e: "os_Execute W here current env = (res, env')" by force
  show ?thesis
  proof (cases res)
    case (Inr res')
    let ?r = "visitResult current res'" let ?env = "storeResult (os_Now W here) current (rs_Data ?r) env'"
    show ?thesis
    proof (cases "paused ?r")
      case False
      then obtain n where n: "nextNodes b (os_Finish W here) g ?env node ?r = Some n"
        using assms(3) e Inr by (auto simp: visit_def Let_def split: option.splits)
      have "nextNodes b' (os_Finish W here) g ?env node ?r = Some n"
        by (rule nextNodes_mono [OF assms(1) _ n]) (use assms(2) in \<open>auto simp: complete_def\<close>)
      with n assms(3) e Inr False show ?thesis by (simp add: visit_def Let_def)
    qed (use assms(3) e Inr in \<open>simp add: visit_def Let_def\<close>)
  qed (use assms(3) e in \<open>simp add: visit_def\<close>)
qed

lemma runLoop_mono:
  assumes "\<And>here i s env r. b here i s env = Some r \<Longrightarrow> b' here i s env = Some r" and "complete (os_Finish W)"
    and "runLoop W g b at current env counts path lastResult = Some out"
  shows "runLoop W g b' at current env counts path lastResult = Some out"
  using assms(3)
proof (induction current env counts path lastResult rule: runLoop_induct [where W = W and g = g and branch = b and at = at])
  case (1 current env counts path lastResult)
  let ?here = "at @ path @ [current]"
  show ?case
  proof (cases "current \<noteq> [] \<and> os_Done W ?here = None \<and> counts current + 1 \<le> gr_maxNodeVisits g \<and> map_of (gr_nodes g) current \<noteq> None")
    case True
    then obtain node where n: "current \<noteq> []" "os_Done W ?here = None" "map_of (gr_nodes g) current = Some node"
      "counts current + 1 \<le> gr_maxNodeVisits g" by auto
    with "1.prems" obtain v where v: "visit W g (b ?here) ?here current node env = Some v"
      by (auto simp: runLoop_visit [of W g b at current] split: option.splits)
    have v': "visit W g (b' ?here) ?here current node env = Some v" by (rule visit_mono [OF assms(1,2) v])
    show ?thesis
    proof (cases v)
      case (Inl o')
      with "1.prems" n v v' show ?thesis by (simp add: runLoop_visit [of W g _ at current])
    next
      case (Inr w)
      obtain nx env' r where w: "w = (nx, env', r)" by (cases w)
      from "1.prems" n v Inr w have "runLoop W g b at nx env' (counts(current := counts current + 1)) (path @ [current]) (Some r) = Some out"
        by (simp add: runLoop_visit [of W g b at current])
      then have "runLoop W g b' at nx env' (counts(current := counts current + 1)) (path @ [current]) (Some r) = Some out"
        by (rule "1.IH" [OF n v [unfolded Inr w]])
      with n v' Inr w show ?thesis by (simp add: runLoop_visit [of W g b' at current] del: fun_upd_apply)
    qed
  qed (use "1.prems" in \<open>auto simp: runLoop_visit [of W g _ at current] not_le split: if_splits option.splits\<close>)
qed

lemma executeWith_mono:
  assumes "\<And>here g i s env r. b here g i s env = Some r \<Longrightarrow> b' here g i s env = Some r" and "complete (os_Finish W)"
    and "executeWith b W at g env = Some out"
  shows "executeWith b' W at g env = Some out"
  using assms(3) runLoop_mono [OF assms(1,2)] unfolding executeWith_def
  by (auto split: prod.splits option.splits if_splits)

lemma Graph_Execute_mono:
  assumes "complete (os_Finish W)" and "Graph_Execute level W at g env = Some out" and "level \<le> level'"
  shows "Graph_Execute level' W at g env = Some out"
  using assms(2,3)
proof (induction level arbitrary: level' at g env out)
  case (Suc level)
  from Suc.prems(2) obtain l' where l': "level' = Suc l'" "level \<le> l'" by (cases level') auto
  show ?case
    unfolding l'(1) Graph_Execute.simps
  proof (rule executeWith_mono [OF _ assms(1) Suc.prems(1) [unfolded Graph_Execute.simps]])
    fix here g i s env r
    assume "map_option fst (Graph_Execute level W (here @ [branchMark i]) (executeBranch s g) env) = Some r"
    then obtain x where x: "Graph_Execute level W (here @ [branchMark i]) (executeBranch s g) env = Some x" "fst x = r" by auto
    from Suc.IH [OF x(1) l'(2)] x(2)
    show "map_option fst (Graph_Execute l' W (here @ [branchMark i]) (executeBranch s g) env) = Some r" by simp
  qed
qed simp


section \<open>Building and sealing\<close>

text \<open>A graph whose edges connect its own nodes.\<close>

definition wellBuilt :: "Graph \<Rightarrow> bool" where
  "wellBuilt g \<longleftrightarrow>
     distinct (map fst (gr_nodes g)) \<and> (\<forall>(k, n) \<in> set (gr_nodes g). nd_ID n = k) \<and>
     (\<forall>(k, es) \<in> set (gr_edges g). map_of (gr_nodes g) k \<noteq> None \<and>
        (\<forall>e \<in> set es. eg_From e = k \<and> map_of (gr_nodes g) (eg_To e) \<noteq> None)) \<and>
     (gr_startNodeID g = [] \<or> map_of (gr_nodes g) (gr_startNodeID g) \<noteq> None) \<and> 0 < gr_maxNodeVisits g"

datatype graphOp =
    OpNode Node
  | OpEdge string string "(NodeResult \<Rightarrow> Envelope \<Rightarrow> bool) option" bool
  | OpStart string
  | OpMaxVisits int
  | OpCatalog "catalog option"
  | OpValidate
  | OpPreflight time
  | OpExecute nat outside Envelope

text \<open>An execution that has not returned leaves the graph sealed.\<close>

fun applyGraphOp :: "graphOp \<Rightarrow> Graph \<Rightarrow> Graph" where
  "applyGraphOp (OpNode n) g = snd (AddNode n g)"
| "applyGraphOp (OpEdge from to c p) g = snd (AddEdge from to c p g)"
| "applyGraphOp (OpStart i) g = snd (SetStart i g)"
| "applyGraphOp (OpMaxVisits l) g = snd (SetMaxNodeVisits l g)"
| "applyGraphOp (OpCatalog c) g = snd (SetCapabilityCatalog c g)"
| "applyGraphOp OpValidate g = snd (Graph_Validate g)"
| "applyGraphOp (OpPreflight now) g = snd (Graph_Preflight now g)"
| "applyGraphOp (OpExecute level W env) g =
     (case Graph_Execute level W [] g env of None \<Rightarrow> g\<lparr>gr_sealed := True\<rparr> | Some (out, g') \<Rightarrow> g')"

lemma wellBuilt_shape: "shape g' = shape g \<Longrightarrow> wellBuilt g' = wellBuilt g"
  by (simp add: shape_def wellBuilt_def)

lemma executeWith_sealed:
  assumes "executeWith branch W at g env = Some (out, g')" and "0 \<le> gr_maxNodeVisits g"
  shows "shape g' = shape g \<and> gr_sealed g' \<and>
    (gr_executionPath g' = gr_executionPath g \<or> (\<forall>x. int (count_list (gr_executionPath g') x) \<le> gr_maxNodeVisits g))"
proof (cases rule: executeWith_cases [of branch W at g env])
  case (ran h)
  from assms(1) obtain counts path where
    r: "runLoop W h (\<lambda>here. branch here h) at (gr_startNodeID g) env (\<lambda>_. 0) [] None = Some (out, counts, path)"
    and g': "g' = h\<lparr>gr_visitCounts := counts, gr_executionPath := path\<rparr>" unfolding ran(4) by auto
  have "\<forall>x. int (count_list path x) \<le> gr_maxNodeVisits h"
    by (rule runLoop_capped [OF r]) (use assms(2) shape_eq(4) [OF ran(1)] in auto)
  then show ?thesis using ran(1,2) g' shape_eq(4) [OF ran(1)] by simp
qed (use assms in auto)

lemma Graph_Execute_sealed:
  assumes "Graph_Execute level W at g env = Some (out, g')"
  shows "shape g' = shape g \<and> gr_sealed g'"
proof (cases level)
  case (Suc l)
  let ?branch = "\<lambda>here g i start env. map_option fst (Graph_Execute l W (here @ [branchMark i]) (executeBranch start g) env)"
  from assms show ?thesis
    unfolding Suc Graph_Execute.simps by (cases rule: executeWith_cases [of ?branch W at g env]) auto
qed (use assms in simp)

lemma sealed_op: "gr_sealed g \<Longrightarrow> shape (applyGraphOp x g) = shape g \<and> gr_sealed (applyGraphOp x g)"
  by (cases x) (auto simp: AddNode_def AddEdge_def SetStart_def SetMaxNodeVisits_def SetCapabilityCatalog_def
      split: option.splits dest: Graph_Execute_sealed)

lemma invalidate_shape [simp]:
  "shape (invalidateStructureLocked g) = shape g" "shape (invalidatePreflightLocked g) = shape g"
  by (simp_all add: invalidateStructureLocked_def invalidatePreflightLocked_def shape_def)

lemma update_append_new: "k \<notin> fst ` set al \<Longrightarrow> AList.update k v al = al @ [(k, v)]"
  by (induction al) auto

lemma wellBuilt_AddNode: "wellBuilt g \<Longrightarrow> wellBuilt (snd (AddNode n g))"
proof (cases "gr_sealed g \<or> map_of (gr_nodes g) (nd_ID n) \<noteq> None")
  case False
  assume wb: "wellBuilt g"
  let ?g = "g\<lparr>gr_nodes := AList.update (nd_ID n) n (gr_nodes g),
      gr_nodeContracts := AList.update (nd_ID n) (ResolveNodeContract n) (gr_nodeContracts g)\<rparr>"
  have upd: "AList.update (nd_ID n) n (gr_nodes g) = gr_nodes g @ [(nd_ID n, n)]"
    using False by (intro update_append_new) (simp add: map_of_eq_None_iff)
  have look: "map_of (gr_nodes g @ [(nd_ID n, n)]) k \<noteq> None" if "map_of (gr_nodes g) k \<noteq> None" for k
    using that by (auto simp: map_add_def)
  have "nd_ID n \<notin> fst ` set (gr_nodes g)" using False by (simp add: map_of_eq_None_iff)
  then have "wellBuilt ?g"
    using wb look unfolding wellBuilt_def by (simp add: upd) blast
  moreover have "shape (snd (AddNode n g)) = shape ?g" using False by (simp add: AddNode_def)
  ultimately show ?thesis using wellBuilt_shape by blast
qed (auto simp: AddNode_def)


lemma set_update_subset: "set (AList.update k v al) \<subseteq> insert (k, v) (set al)"
  by (induction al) auto

lemma wellBuilt_edges:
  assumes "wellBuilt g" and "e \<in> set (edgesOf g k)"
  shows "eg_From e = k \<and> map_of (gr_nodes g) (eg_To e) \<noteq> None"
proof -
  from assms(2) obtain es where "map_of (gr_edges g) k = Some es" "e \<in> set es" by (cases "map_of (gr_edges g) k") (auto simp: edgesOf_def)
  with assms(1) map_of_SomeD [of "gr_edges g" k es] show ?thesis unfolding wellBuilt_def by fastforce
qed

lemma wellBuilt_AddEdge: "wellBuilt g \<Longrightarrow> wellBuilt (snd (AddEdge from to c p g))"
proof (cases "gr_sealed g \<or> map_of (gr_nodes g) from = None \<or> map_of (gr_nodes g) to = None")
  case False
  assume wb: "wellBuilt g"
  let ?es = "edgesOf g from @ [\<lparr>eg_From = from, eg_To = to, eg_Condition = c, eg_Parallel = p\<rparr>]"
  let ?g = "g\<lparr>gr_edges := AList.update from ?es (gr_edges g)\<rparr>"
  have new: "\<forall>e \<in> set ?es. eg_From e = from \<and> map_of (gr_nodes g) (eg_To e) \<noteq> None"
    using wellBuilt_edges [OF wb] False by auto
  have old: "\<forall>(k, es) \<in> set (gr_edges g). map_of (gr_nodes g) k \<noteq> None \<and> (\<forall>e \<in> set es. eg_From e = k \<and> map_of (gr_nodes g) (eg_To e) \<noteq> None)"
    using wb unfolding wellBuilt_def by blast
  have "\<forall>(k, es) \<in> set (gr_edges ?g). map_of (gr_nodes g) k \<noteq> None \<and> (\<forall>e \<in> set es. eg_From e = k \<and> map_of (gr_nodes g) (eg_To e) \<noteq> None)"
  proof
    fix x assume "x \<in> set (gr_edges ?g)"
    then consider "x = (from, ?es)" | "x \<in> set (gr_edges g)" using set_update_subset by fastforce
    then show "case x of (k, es) \<Rightarrow> map_of (gr_nodes g) k \<noteq> None \<and> (\<forall>e \<in> set es. eg_From e = k \<and> map_of (gr_nodes g) (eg_To e) \<noteq> None)"
      by cases (use new old False in auto)
  qed
  with wb have "wellBuilt ?g" unfolding wellBuilt_def by simp
  moreover have "shape (snd (AddEdge from to c p g)) = shape ?g" using False by (auto simp: AddEdge_def)
  ultimately show ?thesis using wellBuilt_shape by blast
qed (auto simp: AddEdge_def)

lemma wellBuilt_op: "wellBuilt g \<Longrightarrow> wellBuilt (applyGraphOp x g)"
proof (cases x)
  case (OpStart i)
  assume "wellBuilt g"
  then have "map_of (gr_nodes g) i \<noteq> None \<Longrightarrow> wellBuilt (g\<lparr>gr_startNodeID := i\<rparr>)" by (simp add: wellBuilt_def)
  with \<open>wellBuilt g\<close> OpStart show ?thesis
    using wellBuilt_shape [OF invalidate_shape(1) [of "g\<lparr>gr_startNodeID := i\<rparr>"]] by (simp add: SetStart_def)
next
  case (OpMaxVisits l)
  assume "wellBuilt g"
  with OpMaxVisits show ?thesis by (simp add: SetMaxNodeVisits_def wellBuilt_def)
next
  case (OpCatalog c)
  assume "wellBuilt g"
  with OpCatalog show ?thesis by (simp add: SetCapabilityCatalog_def invalidatePreflightLocked_def wellBuilt_def)
next
  case (OpExecute l W env)
  assume "wellBuilt g"
  with OpExecute show ?thesis
    using wellBuilt_shape [OF shape_steps(5)] by (auto split: option.splits dest!: Graph_Execute_sealed wellBuilt_shape)
qed (auto simp: wellBuilt_AddNode wellBuilt_AddEdge wellBuilt_shape [OF shape_steps(1)] wellBuilt_shape [OF shape_steps(3)])

text \<open>
  \<^bold>\<open>C21.\<close> Through every history of building and executing, edges connect nodes of the graph, the start node is
  one of them and the visit cap is positive; and once the graph is sealed its nodes, edges, start, cap and
  catalog never change again.
\<close>

theorem graph_history:
  "wellBuilt (fold applyGraphOp ops NewGraph) \<and>
   (gr_sealed (fold applyGraphOp ops NewGraph) \<longrightarrow>
      shape (fold applyGraphOp (ops @ later) NewGraph) = shape (fold applyGraphOp ops NewGraph) \<and>
      gr_sealed (fold applyGraphOp (ops @ later) NewGraph))"
proof
  have "wellBuilt (fold applyGraphOp ops g)" if "wellBuilt g" for g
    using that by (induction ops arbitrary: g) (auto simp: wellBuilt_op)
  moreover have "wellBuilt NewGraph" by (simp add: wellBuilt_def NewGraph_def)
  ultimately show "wellBuilt (fold applyGraphOp ops NewGraph)" by blast
  have "shape (fold applyGraphOp later g) = shape g \<and> gr_sealed (fold applyGraphOp later g)" if "gr_sealed g" for g
    using that by (induction later arbitrary: g) (auto simp: sealed_op)
  then show "gr_sealed (fold applyGraphOp ops NewGraph) \<longrightarrow>
      shape (fold applyGraphOp (ops @ later) NewGraph) = shape (fold applyGraphOp ops NewGraph) \<and>
      gr_sealed (fold applyGraphOp (ops @ later) NewGraph)" by simp
qed

text \<open>
  \<^bold>\<open>C15.\<close> An execution of a graph with a rank that no edge increases and every parallel edge decreases returns, with the same
  result at every sufficient level, whatever the nodes do and however the graph loops over serial edges; it leaves the
  graph sealed and unchanged. The visit cap holds for each traversal, as the comment of \<open>SetMaxNodeVisits\<close> says: neither
  this execution nor that of the subgraph of a branch, which counts anew, visits a node more often.
\<close>

theorem execution_returns:
  assumes "complete (os_Finish W)" and "ranked g rank" and "0 \<le> gr_maxNodeVisits g"
  shows "(\<exists>out g'. (\<forall>level > rank (gr_startNodeID g). Graph_Execute level W at g env = Some (out, g')) \<and>
      shape g' = shape g \<and> gr_sealed g' \<and>
      (gr_executionPath g' = gr_executionPath g \<or> (\<forall>x. int (count_list (gr_executionPath g') x) \<le> gr_maxNodeVisits g))) \<and>
    (\<forall>level here start h env' out h'. gr_maxNodeVisits h = gr_maxNodeVisits g \<and>
       Graph_Execute level W here (executeBranch start h) env' = Some (out, h') \<longrightarrow>
       (\<forall>x. int (count_list (gr_executionPath h') x) \<le> gr_maxNodeVisits g))"
proof (intro conjI allI impI)
  let ?l = "rank (gr_startNodeID g)"
  obtain out g' where e: "Graph_Execute (Suc ?l) W at g env = Some (out, g')"
    using Graph_Execute_returns [OF assms(1,2), of "Suc ?l"] by fastforce
  have "Graph_Execute level W at g env = Some (out, g')" if "level > ?l" for level
    using that Graph_Execute_mono [OF assms(1) e] by simp
  moreover from executeWith_sealed [OF e [unfolded Graph_Execute.simps] assms(3)]
  have "shape g' = shape g \<and> gr_sealed g' \<and>
    (gr_executionPath g' = gr_executionPath g \<or> (\<forall>x. int (count_list (gr_executionPath g') x) \<le> gr_maxNodeVisits g))" .
  ultimately show "\<exists>out g'. (\<forall>level > ?l. Graph_Execute level W at g env = Some (out, g')) \<and> shape g' = shape g \<and> gr_sealed g' \<and>
      (gr_executionPath g' = gr_executionPath g \<or> (\<forall>x. int (count_list (gr_executionPath g') x) \<le> gr_maxNodeVisits g))" by blast
next
  fix level here start h env' out h' x
  assume h: "gr_maxNodeVisits h = gr_maxNodeVisits g \<and> Graph_Execute level W here (executeBranch start h) env' = Some (out, h')"
  obtain l where l: "level = Suc l" using h by (cases level) auto
  have "0 \<le> gr_maxNodeVisits (executeBranch start h)" using h assms(3) by (simp add: executeBranch_def)
  from executeWith_sealed [OF h [THEN conjunct2, unfolded l Graph_Execute.simps] this]
  show "int (count_list (gr_executionPath h') x) \<le> gr_maxNodeVisits g" using h assms(3) by (auto simp: executeBranch_def)
qed

section \<open>An example\<close>

definition exNode :: "string \<Rightarrow> Node" where
  "exNode i = \<lparr>nd_ID = i, nd_Type = NodeTypeSystem, nd_Contract = None\<rparr>"

definition exOps :: "graphOp list" where
  "exOps = [OpNode (exNode ''a''), OpNode (exNode ''b''), OpNode (exNode ''c''), OpEdge ''a'' ''b'' None True, OpEdge ''a'' ''c'' None True,
     OpEdge ''c'' ''c'' None False, OpStart ''a'', OpMaxVisits 3]"

definition exGraph :: Graph where
  "exGraph = fold applyGraphOp exOps NewGraph"

definition exOutside :: outside where
  "exOutside = \<lparr>os_Execute = (\<lambda>here current env. (Inr None, env)), os_Done = (\<lambda>here. None), os_Now = (\<lambda>here. 0), os_Finish = (\<lambda>here n. [0..<n])\<rparr>"

lemma exGraph_simps:
  "map_of (gr_nodes exGraph) k = (if k \<in> {''a'', ''b'', ''c''} then Some (exNode k) else None)"
  "edgesOf exGraph k = (if k = ''a'' then [\<lparr>eg_From = ''a'', eg_To = ''b'', eg_Condition = None, eg_Parallel = True\<rparr>,
      \<lparr>eg_From = ''a'', eg_To = ''c'', eg_Condition = None, eg_Parallel = True\<rparr>]
    else if k = ''c'' then [\<lparr>eg_From = ''c'', eg_To = ''c'', eg_Condition = None, eg_Parallel = False\<rparr>] else [])"
  "gr_startNodeID exGraph = ''a''" "gr_maxNodeVisits exGraph = 3" "gr_sealed exGraph = False"
  by (simp_all add: exGraph_def exOps_def NewGraph_def AddNode_def AddEdge_def SetStart_def SetMaxNodeVisits_def
      invalidateStructureLocked_def invalidatePreflightLocked_def edgesOf_def exNode_def)

lemma exOutside_complete: "complete (os_Finish exOutside)" "complete (\<lambda>here n. rev [0..<n])"
  by (auto simp: exOutside_def complete_def)

lemma exGraph_ranked: "ranked exGraph (\<lambda>k. if k = ''a'' then 1 else 0)"
  by (auto simp: ranked_def exGraph_simps exNode_def split: if_splits)

theorem execution_returns_witness:
  "\<exists>out g'. Graph_Execute 2 exOutside [] exGraph (NewEnvelope 0 ''t'' ''s'') = Some (out, g') \<and> gr_sealed g'"
  using execution_returns [OF exOutside_complete(1) exGraph_ranked, of "[]" "NewEnvelope 0 ''t'' ''s''"] by (auto simp: exGraph_simps)

theorem graph_history_witness:
  "shape (fold applyGraphOp (exOps @ [OpExecute 0 exOutside (NewEnvelope 0 ''t'' ''s'')] @ [OpNode (exNode ''d''), OpMaxVisits 9]) NewGraph) =
   shape exGraph"
proof -
  let ?ops = "exOps @ [OpExecute 0 exOutside (NewEnvelope 0 ''t'' ''s'')]"
  have s: "fold applyGraphOp ?ops NewGraph = exGraph\<lparr>gr_sealed := True\<rparr>" by (simp add: exGraph_def)
  from graph_history [of ?ops "[OpNode (exNode ''d''), OpMaxVisits 9]"] show ?thesis unfolding s by simp
qed

section \<open>An endless fan-out\<close>

text \<open>
  The visit cap counts per traversal and a branch is a traversal of its own: a node with a parallel edge to
  itself forks branches without end, and the execution returns at no level, although the graph validates.
\<close>

definition loopGraph :: Graph where
  "loopGraph = NewGraph\<lparr>gr_nodes := [(''a'', exNode ''a'')], gr_nodeContracts := [(''a'', ResolveNodeContract (exNode ''a''))],
     gr_edges := [(''a'', [\<lparr>eg_From = ''a'', eg_To = ''a'', eg_Condition = None, eg_Parallel = True\<rparr>])], gr_startNodeID := ''a''\<rparr>"

lemma loopGraph_built: "fold applyGraphOp [OpNode (exNode ''a''), OpEdge ''a'' ''a'' None True, OpStart ''a''] NewGraph = loopGraph"
  by (simp add: loopGraph_def NewGraph_def AddNode_def AddEdge_def SetStart_def invalidateStructureLocked_def invalidatePreflightLocked_def
      edgesOf_def exNode_def)

lemma loopGraph_valid: "fst (Graph_Validate loopGraph) = None"
  by code_simp

lemma loop_contracts:
  "danglingEdge (gr_nodes loopGraph) (gr_edges loopGraph) = None"
  "validateContracts (map snd (gr_nodes loopGraph)) (gr_nodeContracts loopGraph) = (None, gr_nodeContracts loopGraph)"
  by code_simp+

text \<open>The loop graph or a branch of it, validated or not.\<close>

definition loopy :: "Graph \<Rightarrow> bool" where
  "loopy g \<longleftrightarrow> shape g = shape loopGraph \<and> gr_nodeContracts g = gr_nodeContracts loopGraph \<and>
     gr_lastValidationErr g = None \<and> gr_lastPreflightErr g = None"

lemma loopy_simps:
  assumes "loopy g"
  shows "gr_nodes g = [(''a'', exNode ''a'')]" "edgesOf g ''a'' = [\<lparr>eg_From = ''a'', eg_To = ''a'', eg_Condition = None, eg_Parallel = True\<rparr>]"
    "gr_startNodeID g = ''a''" "gr_maxNodeVisits g = 1024"
  using assms by (simp_all add: loopy_def shape_def loopGraph_def NewGraph_def edgesOf_def)

lemma loopy_Validate:
  assumes "loopy g"
  shows "fst (Graph_Validate g) = None \<and> loopy (snd (Graph_Validate g))"
proof -
  have g: "gr_nodes g = gr_nodes loopGraph" "gr_edges g = gr_edges loopGraph" "gr_startNodeID g = ''a''" "gr_nodes loopGraph \<noteq> []"
    using assms by (simp_all add: loopy_def shape_def loopGraph_def)
  have "fst (Graph_Validate g) = None"
    using assms loop_contracts by (simp add: Graph_Validate_def g Let_def loopy_def)
  with assms loop_contracts g show ?thesis
    unfolding loopy_def shape_steps(1) by (auto simp: Graph_Validate_def Let_def)
qed

lemma loopy_Preflight: "loopy g \<Longrightarrow> fst (Graph_Preflight now g) = None \<and> loopy (snd (Graph_Preflight now g))"
  by (auto simp: loopy_def Graph_Preflight_def Let_def shape_def loopGraph_def NewGraph_def preflightReport_def preflightError_def
      HasBlockingIssues_def)

lemma loopy_visit:
  assumes "loopy g" and "\<And>i env. branch i ''a'' env = None"
  shows "visit exOutside g branch here ''a'' (exNode ''a'') env = None"
proof -
  have "nextNodes branch (os_Finish exOutside here) g env (exNode ''a'') r = None" for env r
    by (simp add: nextNodes_def exNode_def loopy_simps [OF assms(1)] taken_def collectBranches_def branchResult_def assms(2) exOutside_def)
  then show ?thesis by (simp add: visit_def exOutside_def visitResult_def paused_def)
qed

lemma parallel_cycle_endless: "loopy g \<Longrightarrow> Graph_Execute level exOutside at g env = None"
proof (induction level arbitrary: at g env)
  case (Suc level)
  let ?branch = "\<lambda>here g i start env. map_option fst (Graph_Execute level exOutside (here @ [branchMark i]) (executeBranch start g) env)"
  have l0: "loopy (g\<lparr>gr_sealed := True\<rparr>)" using Suc.prems by (simp add: loopy_def shape_def)
  obtain g1 where v: "Graph_Validate (g\<lparr>gr_sealed := True\<rparr>) = (None, g1)" "loopy g1" using loopy_Validate [OF l0] by (metis prod.collapse)
  obtain g2 where p: "Graph_Preflight (os_Now exOutside at) g1 = (None, g2)" "loopy g2" using loopy_Preflight [OF v(2)] by (metis prod.collapse)
  have "loopy (executeBranch ''a'' g2)"
    using p(2) by (simp add: loopy_def executeBranch_def shape_def loopGraph_def NewGraph_def)
  from Suc.IH [OF this] have "visit exOutside g2 (?branch here g2) here ''a'' (exNode ''a'') env = None" for here env
    by (intro loopy_visit p(2)) simp
  note stuck = this [of "at @ [''a'']" env]
  have "os_Done exOutside here = None" for here by (simp add: exOutside_def)
  then have "runLoop exOutside g2 (\<lambda>here. ?branch here g2) at ''a'' env (\<lambda>_. 0) [] None = None"
    using stuck by (subst runLoop_visit) (simp add: loopy_simps [OF p(2)])
  with v(1) p(1) show ?case by (simp add: executeWith_def loopy_simps [OF p(2)])
qed simp

lemma loopGraph_endless: "Graph_Execute level exOutside [] loopGraph env = None"
  by (rule parallel_cycle_endless) (simp add: loopy_def loopGraph_def NewGraph_def)


section \<open>The join of a fan-out\<close>

lemma taskMismatch_same: "(\<forall>e \<in> set es. ev_TaskID e = t) \<Longrightarrow> i = 0 \<or> t' = t \<Longrightarrow> taskMismatch t' i es = None"
  by (induction es arbitrary: i t') auto

lemma nextNodes_fan:
  fixes g env node r
  defines "ps \<equiv> filter eg_Parallel (filter (taken r env) (edgesOf g (nd_ID node)))"
  assumes "ps \<noteq> []" and "nd_Type node \<noteq> NodeTypeTerminal" and "collectBranches branch (finish (length ps)) env ps = map Some results"
  shows "\<exists>cont :: Envelope \<Rightarrow> goerr + string. nextNodes branch finish g env node r =
    (case find (\<lambda>b. br_err b \<noteq> None) results of
       Some b \<Rightarrow> Some (Inl (the (br_err b)), env)
     | None \<Rightarrow> (case mergeParallelBranchEnvelopes env results of (Some err, e) \<Rightarrow> Some (Inl err, e) | (None, e) \<Rightarrow> Some (cont e, e)))"
proof -
  have some: "allSome (map Some results) = Some results" for results :: "parallelBranchResult list" by (induction results) auto
  have ne: "edgesOf g (nd_ID node) \<noteq> []" using assms(2) by (auto simp: ps_def)
  define serial where "serial = filter (\<lambda>e. \<not> eg_Parallel e) (filter (taken r env) (edgesOf g (nd_ID node)))"
  let ?cont = "if serial = [] then Inr [] else if length serial > 1 then Inl (Err (''ambiguous transitions from '' @ nd_ID node)) else Inr (eg_To (hd serial))"
  show ?thesis
    using assms(2-4) ne unfolding ps_def nextNodes_def Let_def serial_def [symmetric]
    by (intro exI [of _ "\<lambda>e. ?cont"]) (simp add: some split: option.split prod.split)
qed

lemma find_first: "find P (map f [0..<n]) = Some y \<longleftrightarrow> (\<exists>i<n. P (f i) \<and> (\<forall>j<i. \<not> P (f j)) \<and> y = f i)"
  by (auto simp: find_Some_iff)

text \<open>
  \<^bold>\<open>C16.\<close> A fan-out that returns does what its declaration order says, whatever happens in parallel: the error of
  the first failing branch is the error of the node and leaves the envelope as it was; without an error
  every non-empty key ends with the value of the last branch that changed it, if the branches keep the task of the
  envelope, and the empty key is as before.
\<close>

theorem fanout_joins:
  fixes g env node r outs
  defines "ps \<equiv> filter eg_Parallel (filter (taken r env) (edgesOf g (nd_ID node)))"
  assumes "ps \<noteq> []" and "nd_Type node \<noteq> NodeTypeTerminal" and "set (finish (length ps)) = {..<length ps}"
    and "length outs = length ps" and "\<forall>i < length ps. branch i (eg_To (ps ! i)) (Clone env) = Some (outs ! i)"
  shows "(\<forall>i < length ps. \<forall>err. fst (outs ! i) = Inl err \<and> (\<forall>j < i. \<exists>x. fst (outs ! j) = Inr x) \<longrightarrow>
       nextNodes branch finish g env node r = Some (Inl err, env)) \<and>
    ((\<forall>(res, c) \<in> set outs. (\<exists>x. res = Inr x) \<and> keys_ok c \<and> ev_TaskID c = ev_TaskID env) \<longrightarrow>
       (\<exists>out env'. nextNodes branch finish g env node r = Some (out, env') \<and>
          (\<forall>k. getWorkingValue env' k =
             (case lastChange env (zip (map eg_To ps) (map snd outs)) k of None \<Rightarrow> getWorkingValue env k | Some c \<Rightarrow> getWorkingValue c k))))"
proof -
  define f where "f i = \<lparr>br_index = i, br_edge = ps ! i, br_env = snd (outs ! i), br_delta = ComputeBranchDelta env (snd (outs ! i)),
     br_err = (case fst (outs ! i) of Inl err \<Rightarrow> Some err | Inr _ \<Rightarrow> None)\<rparr>" for i
  let ?results = "map f [0..<length ps]" let ?cs = "zip (map eg_To ps) (map snd outs)"
  have "collectBranches branch (finish (length ps)) env ps = map Some ?results"
    unfolding collectBranches_eq [OF assms(4)] using assms(6) by (auto simp: branchResult_def f_def split: prod.splits)
  from nextNodes_fan [where g = g and env = env and node = node and r = r and branch = branch and finish = finish and results = ?results, folded ps_def, OF assms(2,3) this]
  obtain cont where n: "nextNodes branch finish g env node r =
    (case find (\<lambda>b. br_err b \<noteq> None) ?results of
       Some b \<Rightarrow> Some (Inl (the (br_err b)), env)
     | None \<Rightarrow> (case mergeParallelBranchEnvelopes env ?results of (Some err, e) \<Rightarrow> Some (Inl err, e) | (None, e) \<Rightarrow> Some (cont e, e)))" by blast
  show ?thesis
  proof (intro conjI allI impI)
    fix i err assume i: "i < length ps" "fst (outs ! i) = Inl err \<and> (\<forall>j < i. \<exists>x. fst (outs ! j) = Inr x)"
    then have "\<forall>j < i. br_err (f j) = None" by (auto simp: f_def split: sum.splits)
    moreover have "br_err (f i) = Some err" using i by (simp add: f_def)
    ultimately have "find (\<lambda>b. br_err b \<noteq> None) ?results = Some (f i)" using i(1) unfolding find_first by auto
    with n \<open>br_err (f i) = Some err\<close> show "nextNodes branch finish g env node r = Some (Inl err, env)" by simp
  next
    assume ok: "\<forall>(res, c) \<in> set outs. (\<exists>x. res = Inr x) \<and> keys_ok c \<and> ev_TaskID c = ev_TaskID env"
    have o: "(\<exists>x. fst (outs ! i) = Inr x) \<and> keys_ok (snd (outs ! i)) \<and> ev_TaskID (snd (outs ! i)) = ev_TaskID env" if "i < length ps" for i
      using ok nth_mem [of i outs] that assms(5) by (auto simp: case_prod_beta)
    have "br_err (f i) = None" if "i < length ps" for i using o [OF that] by (auto simp: f_def)
    then have none: "find (\<lambda>b. br_err b \<noteq> None) ?results = None" by (simp add: find_None_iff)
    have units: "map (\<lambda>b. \<lparr>bu_Index = int (br_index b), bu_ID = eg_To (br_edge b), bu_Delta = br_delta b, bu_Env = Some (br_env b)\<rparr>) ?results =
        forkUnits env ?cs"
      by (rule nth_equalityI) (use assms(5) in \<open>auto simp: forkUnits_def f_def nth_enumerate_eq\<close>)
    have keys: "\<forall>(bid, c) \<in> set ?cs. keys_ok c" using o assms(5) by (auto simp: in_set_zip)
    have valid: "ValidateBranchMerge (map br_env ?results) = None"
      using taskMismatch_same [of "map br_env ?results" "ev_TaskID env" 0] o by (simp add: ValidateBranchMerge_def f_def)
    obtain stats where st: "fst (ApplyBranchMerges (forkUnits env ?cs) env) = Inr stats" using ApplyBranchMerges_fork(2) by blast
    have "mergeParallelBranchEnvelopes env ?results = (None, snd (ApplyBranchMerges (forkUnits env ?cs) env))"
      using valid st assms(2) unfolding mergeParallelBranchEnvelopes_def units
      by (cases "ApplyBranchMerges (forkUnits env ?cs) env") auto
    with n none fork_value [OF keys]
    show "\<exists>out env'. nextNodes branch finish g env node r = Some (out, env') \<and>
          (\<forall>k. getWorkingValue env' k =
             (case lastChange env ?cs k of None \<Rightarrow> getWorkingValue env k | Some c \<Rightarrow> getWorkingValue c k))" by simp
  qed
qed


definition exBranch :: "nat \<Rightarrow> string \<Rightarrow> Envelope \<Rightarrow> outcome option" where
  "exBranch i start env = Some (Inr None, SetWorkingValueWithClass 1 ''x'' (GInt (int i)) MemoryClassTask env)"

theorem fanout_joins_witness:
  "\<exists>out env'. nextNodes exBranch (\<lambda>n. rev [0..<n]) exGraph (NewEnvelope 0 ''t'' ''s'') (exNode ''a'') (visitResult ''a'' None) = Some (out, env') \<and>
     getWorkingValue env' ''x'' = Some (GInt 1)"
proof -
  let ?env = "NewEnvelope 0 ''t'' ''s''" let ?r = "visitResult ''a'' None"
  let ?out = "\<lambda>i. SetWorkingValueWithClass 1 ''x'' (GInt i) MemoryClassTask (Clone ?env)"
  have ps: "filter eg_Parallel (filter (taken ?r ?env) (edgesOf exGraph (nd_ID (exNode ''a'')))) = edgesOf exGraph ''a''"
    by (simp add: exGraph_simps exNode_def taken_def)
  have len: "length (edgesOf exGraph ''a'') = 2" by (simp add: exGraph_simps)
  have two: "i < 2 \<longleftrightarrow> i = 0 \<or> i = (1 :: nat)" for i by auto
  have k: "keys_ok (?out 0)" "keys_ok (?out 1)" "ev_TaskID (?out 0) = ev_TaskID ?env" "ev_TaskID (?out 1) = ev_TaskID ?env" by code_simp+
  have l: "lastChange ?env (zip (map eg_To (edgesOf exGraph ''a'')) [?out 0, ?out 1]) ''x'' = Some (?out 1)"
    "getWorkingValue (?out 1) ''x'' = Some (GInt 1)" unfolding exGraph_simps by code_simp+
  have "(\<forall>(res, c) \<in> set [(Inr None, ?out 0), (Inr None, ?out 1)]. (\<exists>x. res = (Inr x :: goerr + NodeResult option)) \<and> keys_ok c \<and> ev_TaskID c = ev_TaskID ?env)"
    using k by simp
  note ok = this
  note fj = fanout_joins [where g = exGraph and env = ?env and node = "exNode ''a''" and r = ?r and branch = exBranch and finish = "\<lambda>n. rev [0..<n]"
      and outs = "[(Inr None, ?out 0), (Inr None, ?out 1)]", unfolded ps len]
  have b: "\<forall>i<2. exBranch i (eg_To (edgesOf exGraph ''a'' ! i)) (Clone ?env) = Some ([(Inr None, ?out 0), (Inr None, ?out 1)] ! i)"
    unfolding two by (auto simp: exBranch_def)
  have e: "edgesOf exGraph ''a'' \<noteq> []" "nd_Type (exNode ''a'') \<noteq> NodeTypeTerminal" using len by (auto simp: exNode_def)
  have s: "set (rev [0..<2]) = {..<2}" "length [(Inr None :: goerr + NodeResult option, ?out 0), (Inr None, ?out 1)] = 2" by auto
  from fj [OF e s b, THEN conjunct2, THEN mp, OF ok] obtain out env' where
    n: "nextNodes exBranch (\<lambda>n. rev [0..<n]) exGraph ?env (exNode ''a'') ?r = Some (out, env')"
    and v: "\<forall>k. getWorkingValue env' k = (case lastChange ?env (zip (map eg_To (edgesOf exGraph ''a'')) [?out 0, ?out 1]) k of
         None \<Rightarrow> getWorkingValue ?env k | Some c \<Rightarrow> getWorkingValue c k)"
    by (simp only: list.map snd_conv) blast
  from v [rule_format, of "''x''"] n l show ?thesis by simp
qed

end
