(* ===== verification/Delegations.thy ===== *)
theory Delegations
  imports ContextData Selectors
begin

text \<open>
  Delegations between coordinated capabilities (\<open>governance/authorization/delegations.go\<close>,
  \<open>governance/policy/delegation_types.go\<close>, \<open>capability/registry/delegation_registry_adapter.go\<close>): the choice and
  policy check of a target, the invocation arguments, the manager's record of every delegation from start
  to its terminal state, and the insertion decision of its result. The capability registry is a
  parameter. A method under the manager's mutex is one step.
\<close>

section \<open>Data\<close>

text \<open>
  Not represented: \<open>ExpectedResult\<close>, and a result's \<open>Provenance\<close>, \<open>Disposition\<close> and \<open>Metadata\<close>, which no
  function of these files reads. A metadata value of \<open>nil\<close> is an absent key; the zero time is \<open>0\<close>.
\<close>

abbreviation DelegationStatePending :: string where "DelegationStatePending \<equiv> ''pending''"
abbreviation DelegationStateRunning :: string where "DelegationStateRunning \<equiv> ''running''"
abbreviation DelegationStateSucceeded :: string where "DelegationStateSucceeded \<equiv> ''succeeded''"
abbreviation DelegationStateFailed :: string where "DelegationStateFailed \<equiv> ''failed''"
abbreviation DelegationStateCancelled :: string where "DelegationStateCancelled \<equiv> ''cancelled''"

record DelegationRequest =
  dq_ID :: string
  dq_WorkflowID :: string
  dq_TaskID :: string
  dq_CallerAgentID :: string
  dq_CallerCapabilityID :: string
  dq_TargetCapabilityID :: string
  dq_TargetProviderID :: string
  dq_TargetSessionID :: string
  dq_TaskType :: string
  dq_Instruction :: string
  dq_ResourceRefs :: "string list"
  dq_Depth :: int
  dq_PolicySnapshotID :: string
  dq_ApprovalRequired :: bool
  dq_Metadata :: "(string \<times> goval) list"
  dq_CreatedAt :: time

record DelegationResult =
  dr_DelegationID :: string
  dr_TargetCapabilityID :: string
  dr_ProviderID :: string
  dr_SessionID :: string
  dr_State :: string
  dr_Success :: bool
  dr_Data :: "(string \<times> goval) list"
  dr_ResourceRefs :: "string list"
  dr_Diagnostics :: "string list"
  dr_Insertion :: "InsertionDecision option"
  dr_RecordedAt :: time
  dr_CompletedAt :: time

record DelegationSnapshot =
  ds_Request :: DelegationRequest
  ds_Result :: "DelegationResult option"
  ds_State :: string
  ds_TrustClass :: string
  ds_Recoverability :: string
  ds_Background :: bool
  ds_Metadata :: "(string \<times> goval) list"
  ds_StartedAt :: time
  ds_UpdatedAt :: time

definition terminalStates :: "string list" where
  "terminalStates = [DelegationStateSucceeded, DelegationStateFailed, DelegationStateCancelled]"

definition delegationStates :: "string list" where
  "delegationStates = DelegationStatePending # DelegationStateRunning # terminalStates"

definition blankRef :: "string list \<Rightarrow> bool" where
  "blankRef refs = list_ex (\<lambda>r. TrimSpace r = []) refs"

definition DelegationRequest_Validate :: "DelegationRequest \<Rightarrow> goerr option" where
  "DelegationRequest_Validate r =
     firstErr
       [(TrimSpace (dq_ID r) = [], Err ''delegation id required''),
        (TrimSpace (dq_TargetCapabilityID r) = [], Err ''target capability id required''),
        (TrimSpace (dq_TaskType r) = [], Err ''task type required''),
        (TrimSpace (dq_Instruction r) = [], Err ''instruction required''),
        (dq_Depth r < 0, Err ''depth cannot be negative''),
        (blankRef (dq_ResourceRefs r), Err ''resource refs cannot contain empty values'')]"

definition DelegationResult_Validate :: "DelegationResult \<Rightarrow> goerr option" where
  "DelegationResult_Validate r =
     firstErr
       [(TrimSpace (dr_DelegationID r) = [], Err ''delegation id required''),
        (dr_State r \<notin> set delegationStates, Err (''delegation state '' @ dr_State r @ '' invalid'')),
        (dr_State r = DelegationStateSucceeded \<and> \<not> dr_Success r, Err ''succeeded delegation result must be successful''),
        (dr_State r = DelegationStateFailed \<and> dr_Success r, Err ''failed delegation result cannot be successful''),
        (blankRef (dr_ResourceRefs r), Err ''resource refs cannot contain empty values''),
        (blankRef (dr_Diagnostics r), Err ''diagnostics cannot contain empty values'')]"

definition DelegationSnapshot_Validate :: "DelegationSnapshot \<Rightarrow> goerr option" where
  "DelegationSnapshot_Validate s =
     (case DelegationRequest_Validate (ds_Request s) of
        Some err \<Rightarrow> Some (Wrap ''delegation request invalid: '' err)
      | None \<Rightarrow>
          if ds_State s \<notin> set delegationStates then Some (Err (''delegation state '' @ ds_State s @ '' invalid''))
          else case ds_Result s of
                 None \<Rightarrow> None
               | Some r \<Rightarrow>
                   (case DelegationResult_Validate r of
                      Some err \<Rightarrow> Some (Wrap ''delegation result invalid: '' err)
                    | None \<Rightarrow>
                        if dr_DelegationID r \<noteq> dq_ID (ds_Request s)
                        then Some (Err (''delegation result id '' @ dr_DelegationID r @ '' does not match request id '' @ dq_ID (ds_Request s)))
                        else if ds_State s \<noteq> dr_State r
                        then Some (Err (''delegation snapshot state '' @ ds_State s @ '' does not match result state '' @ dr_State r))
                        else None))"

definition cmpOr :: "string \<Rightarrow> string \<Rightarrow> string" where
  "cmpOr a b = (if a \<noteq> [] then a else b)"

definition NewDelegationResult ::
  "time \<Rightarrow> DelegationRequest \<Rightarrow> string \<Rightarrow> string \<Rightarrow> string \<Rightarrow> string \<Rightarrow> bool \<Rightarrow> (string \<times> goval) list \<Rightarrow> DelegationResult" where
  "NewDelegationResult now q capID providerID sessionID state success data =
     \<lparr>dr_DelegationID = TrimSpace (dq_ID q), dr_TargetCapabilityID = TrimSpace (cmpOr capID (dq_TargetCapabilityID q)),
      dr_ProviderID = TrimSpace (cmpOr providerID (dq_TargetProviderID q)), dr_SessionID = TrimSpace (cmpOr sessionID (dq_TargetSessionID q)),
      dr_State = state, dr_Success = success, dr_Data = data, dr_ResourceRefs = dq_ResourceRefs q, dr_Diagnostics = [], dr_Insertion = None,
      dr_RecordedAt = now, dr_CompletedAt = (if state \<in> set terminalStates then now else 0)\<rparr>"

section \<open>The manager\<close>

text \<open>
  \<open>rd_cancel\<close> tells whether a cancel hook is registered. \<open>dm_observed\<close> are the snapshots handed to the observer.
\<close>

record delegationRecord =
  rd_snapshot :: DelegationSnapshot
  rd_cancel :: bool

record DelegationManager =
  dm_delegations :: "(string \<times> delegationRecord) list"
  dm_observer :: bool
  dm_observed :: "DelegationSnapshot list"

definition NewDelegationManager :: DelegationManager where
  "NewDelegationManager = \<lparr>dm_delegations = [], dm_observer = False, dm_observed = []\<rparr>"

definition SetObserver :: "bool \<Rightarrow> DelegationManager \<Rightarrow> DelegationManager" where
  "SetObserver present m = m\<lparr>dm_observer := present\<rparr>"

definition observe :: "DelegationSnapshot \<Rightarrow> DelegationManager \<Rightarrow> DelegationManager" where
  "observe s m = (if dm_observer m then m\<lparr>dm_observed := dm_observed m @ [s]\<rparr> else m)"

record DelegationStartOptions =
  so_TrustClass :: string
  so_Recoverability :: string
  so_Background :: bool
  so_PolicySnapshot :: "string option"
  so_Metadata :: "(string \<times> goval) list"
  so_OnCancel :: bool

text \<open>\<open>clk\<close> gives the readings of the clock in the order the function takes them.\<close>

definition StartDelegation ::
  "(nat \<Rightarrow> time) \<Rightarrow> DelegationRequest \<Rightarrow> DelegationStartOptions \<Rightarrow> DelegationManager \<Rightarrow> (goerr + DelegationSnapshot) \<times> DelegationManager" where
  "StartDelegation clk request opts m =
     (let request = (if dq_CreatedAt request = 0 then request\<lparr>dq_CreatedAt := clk 0\<rparr> else request);
          request = (case so_PolicySnapshot opts of
              Some i \<Rightarrow> if dq_PolicySnapshotID request = [] then request\<lparr>dq_PolicySnapshotID := i\<rparr> else request
            | None \<Rightarrow> request);
          snapshot = \<lparr>ds_Request = request, ds_Result = None, ds_State = DelegationStateRunning, ds_TrustClass = so_TrustClass opts,
            ds_Recoverability = so_Recoverability opts, ds_Background = so_Background opts, ds_Metadata = so_Metadata opts,
            ds_StartedAt = clk 1, ds_UpdatedAt = clk 2\<rparr>
      in case DelegationSnapshot_Validate snapshot of
           Some err \<Rightarrow> (Inl err, m)
         | None \<Rightarrow>
             if map_of (dm_delegations m) (dq_ID request) \<noteq> None then (Inl (Err (''delegation '' @ dq_ID request @ '' already exists'')), m)
             else (Inr snapshot, observe snapshot
                    (m\<lparr>dm_delegations := AList.update (dq_ID request) \<lparr>rd_snapshot = snapshot, rd_cancel = so_OnCancel opts\<rparr> (dm_delegations m)\<rparr>)))"

definition ErrDelegationNotFound :: goerr where
  "ErrDelegationNotFound = Err ''delegation not found''"

definition completionCandidate :: "string \<Rightarrow> DelegationResult \<Rightarrow> DelegationResult" where
  "completionCandidate i r = (if dr_DelegationID r = [] then r\<lparr>dr_DelegationID := i\<rparr> else r)"

definition CompleteDelegation ::
  "time \<Rightarrow> string \<Rightarrow> DelegationResult option \<Rightarrow> DelegationManager \<Rightarrow> (goerr + DelegationSnapshot) \<times> DelegationManager" where
  "CompleteDelegation now i result m =
     (let i = TrimSpace i in
      if i = [] then (Inl (Err ''delegation id required''), m)
      else case result of
        None \<Rightarrow> (Inl (Err ''delegation result required''), m)
      | Some r \<Rightarrow>
          let candidate = completionCandidate i r in
          (case DelegationResult_Validate candidate of
             Some err \<Rightarrow> (Inl err, m)
           | None \<Rightarrow>
               if dr_State candidate \<notin> set terminalStates
               then (Inl (Err (''delegation result state '' @ dr_State candidate @ '' not terminal'')), m)
               else case map_of (dm_delegations m) i of
                 None \<Rightarrow> (Inl ErrDelegationNotFound, m)
               | Some rc \<Rightarrow>
                   if ds_State (rd_snapshot rc) \<in> set terminalStates then (Inr (rd_snapshot rc), m)
                   else
                     let s = (rd_snapshot rc)\<lparr>ds_Result := Some candidate, ds_State := dr_State candidate, ds_UpdatedAt := now\<rparr>
                     in (Inr s, observe s
                          (m\<lparr>dm_delegations := AList.update i \<lparr>rd_snapshot = s, rd_cancel = False\<rparr> (dm_delegations m)\<rparr>))))"

text \<open>\<open>hook\<close> is what a registered cancel hook answers; \<open>other\<close> is what other callers do to the manager while it runs.\<close>

definition CancelDelegation ::
  "time \<Rightarrow> time \<Rightarrow> goerr option \<Rightarrow> (DelegationManager \<Rightarrow> DelegationManager) \<Rightarrow> string \<Rightarrow> string \<Rightarrow> DelegationManager \<Rightarrow>
   (goerr + DelegationSnapshot) \<times> DelegationManager" where
  "CancelDelegation now1 now2 hook other i reason m =
     (let i = TrimSpace i in
      if i = [] then (Inl (Err ''delegation id required''), m)
      else case map_of (dm_delegations m) i of
        None \<Rightarrow> (Inl ErrDelegationNotFound, m)
      | Some rc \<Rightarrow>
          let q = ds_Request (rd_snapshot rc);
              result = NewDelegationResult now1 q (dq_TargetCapabilityID q) (dq_TargetProviderID q) (dq_TargetSessionID q)
                DelegationStateCancelled False [(''reason'', GString (TrimSpace reason))];
              result = (if TrimSpace reason \<noteq> [] then result\<lparr>dr_Diagnostics := [TrimSpace reason]\<rparr> else result)
          in case (if rd_cancel rc then hook else None) of
               Some err \<Rightarrow> (Inl err, other m)
             | None \<Rightarrow> CompleteDelegation now2 i (Some result) (other m))"

definition GetDelegation :: "string \<Rightarrow> DelegationManager \<Rightarrow> goerr + DelegationSnapshot" where
  "GetDelegation i m =
     (let i = TrimSpace i in
      if i = [] then Inl (Err ''delegation id required'')
      else case map_of (dm_delegations m) i of None \<Rightarrow> Inl ErrDelegationNotFound | Some rc \<Rightarrow> Inr (rd_snapshot rc))"

record DelegationFilter =
  df_WorkflowID :: string
  df_TaskID :: string
  df_TargetCapabilityID :: string
  df_TargetProviderID :: string
  df_TargetSessionID :: string
  df_States :: "string list"

definition delegationMatchesFilter :: "DelegationSnapshot \<Rightarrow> DelegationFilter \<Rightarrow> bool" where
  "delegationMatchesFilter s f =
     (let q = ds_Request s; differs = (\<lambda>want have. want \<noteq> [] \<and> \<not> EqualFold (TrimSpace want) have) in
      \<not> differs (df_WorkflowID f) (dq_WorkflowID q) \<and> \<not> differs (df_TaskID f) (dq_TaskID q) \<and>
      \<not> differs (df_TargetCapabilityID f) (dq_TargetCapabilityID q) \<and> \<not> differs (df_TargetProviderID f) (dq_TargetProviderID q) \<and>
      \<not> differs (df_TargetSessionID f) (dq_TargetSessionID q) \<and> (df_States f \<noteq> [] \<longrightarrow> list_ex (\<lambda>st. st = ds_State s) (df_States f)))"

text \<open>Sorted by start, then by identifier; identifiers are unique, so the order in which the map is walked does not matter.\<close>

definition ListDelegations :: "DelegationFilter \<Rightarrow> DelegationManager \<Rightarrow> DelegationSnapshot list" where
  "ListDelegations f m =
     sort_key ds_StartedAt (sort_key (\<lambda>s. dq_ID (ds_Request s))
       (filter (\<lambda>s. delegationMatchesFilter s f) (map (rd_snapshot \<circ> snd) (dm_delegations m))))"

section \<open>Targets\<close>

record CoordinationSpec =
  cn_MaxDelegationDepth :: int
  cn_AllowRemoteDelegation :: bool
  cn_AllowBackgroundDelegation :: bool
  cn_RequireApprovalCrossTrust :: bool
  cn_DelegationTargetSelectors :: "CapabilitySelector list"

record ToolResult =
  tr_Success :: bool
  tr_Data :: "(string \<times> goval) list"
  tr_Error :: string

text \<open>
  What the manager uses of the capability registry; an invocation error is given by its text. \<open>rg_Sprint\<close> is \<open>fmt.Sprint\<close> of a metadata value.
\<close>

record delegationRegistry =
  rg_GetCoordinationTarget :: "string \<Rightarrow> CapabilityDescriptor option"
  rg_CoordinationTargets :: "CapabilitySelector list \<Rightarrow> CapabilityDescriptor list"
  rg_InvokeCapability :: "string \<Rightarrow> (string \<times> goval) list \<Rightarrow> string + ToolResult option"
  rg_PolicySnapshot :: "string option"
  rg_Sprint :: "goval \<Rightarrow> string"

definition coordination :: "CapabilityDescriptor \<Rightarrow> CoordinationTargetMetadata" where
  "coordination d =
     (case cap_Coordination d of
        Some c \<Rightarrow> c
      | None \<Rightarrow> \<lparr>co_Target = False, co_Role = [], co_TaskTypes = [], co_ExecutionModes = [], co_LongRunning = 0, co_DirectInsertionAllowed = 0\<rparr>)"

definition firstNonEmpty :: "string \<Rightarrow> string \<Rightarrow> string" where
  "firstNonEmpty a b = (if TrimSpace a \<noteq> [] then TrimSpace a else if TrimSpace b \<noteq> [] then TrimSpace b else [])"

definition delegationRequestedRole :: "(goval \<Rightarrow> string) \<Rightarrow> DelegationRequest \<Rightarrow> string" where
  "delegationRequestedRole sprint q =
     (case map_of (dq_Metadata q) ''target_role'' of
        None \<Rightarrow> []
      | Some v \<Rightarrow> let role = TrimSpace (sprint v) in if EqualFold role ''<nil>'' then [] else role)"

definition delegationSelectorMatchesTaskType :: "string \<Rightarrow> CapabilityDescriptor \<Rightarrow> bool" where
  "delegationSelectorMatchesTaskType taskType d \<longleftrightarrow>
     taskType = [] \<or> list_ex (\<lambda>tt. EqualFold (TrimSpace tt) (TrimSpace taskType)) (co_TaskTypes (coordination d))"

definition resolveDelegationTarget :: "delegationRegistry \<Rightarrow> CoordinationSpec \<Rightarrow> DelegationRequest \<Rightarrow> goerr + CapabilityDescriptor" where
  "resolveDelegationTarget R spec q =
     (let targetID = TrimSpace (dq_TargetCapabilityID q); role = delegationRequestedRole (rg_Sprint R) q in
      if targetID \<noteq> []
      then (case rg_GetCoordinationTarget R targetID of
              None \<Rightarrow> Inl (Err (''delegation target '' @ targetID @ '' not admitted''))
            | Some t \<Rightarrow> Inr t)
      else case find (\<lambda>d. delegationSelectorMatchesTaskType (dq_TaskType q) d \<and> (role = [] \<or> co_Role (coordination d) = role))
                  (rg_CoordinationTargets R (cn_DelegationTargetSelectors spec)) of
             Some t \<Rightarrow> Inr t
           | None \<Rightarrow>
               Inl (Err (''no admitted delegation target for task type '' @ dq_TaskType q @ (if role \<noteq> [] then '' and role '' @ role else []))))"

definition containsBackgroundExecutionMode :: "string list \<Rightarrow> bool" where
  "containsBackgroundExecutionMode modes = list_ex (\<lambda>x. x = ''background-service'' \<or> x = ''session-backed'') modes"

definition requestPrefersBackground :: "DelegationRequest \<Rightarrow> bool" where
  "requestPrefersBackground q =
     (case map_of (dq_Metadata q) ''background'' of
        Some (GBool b) \<Rightarrow> b
      | Some (GString s) \<Rightarrow> EqualFold (TrimSpace s) ''true''
      | _ \<Rightarrow> False)"

definition shouldRunDelegationInBackground :: "CapabilityDescriptor \<Rightarrow> bool \<Rightarrow> bool" where
  "shouldRunDelegationInBackground d requested \<longleftrightarrow>
     co_LongRunning (coordination d) = 1 \<or> (requested \<and> containsBackgroundExecutionMode (co_ExecutionModes (coordination d)))"

definition validateDelegationTargetPolicy :: "DelegationRequest \<Rightarrow> CapabilityDescriptor \<Rightarrow> CoordinationSpec \<Rightarrow> goerr option" where
  "validateDelegationTargetPolicy q d spec =
     firstErr
       [(\<not> co_Target (coordination d), Err (''capability '' @ cap_ID d @ '' is not a coordination target'')),
        (cn_MaxDelegationDepth spec > 0 \<and> dq_Depth q > cn_MaxDelegationDepth spec,
           Err (''delegation depth '' @ fmtInt (dq_Depth q) @ '' exceeds max '' @ fmtInt (cn_MaxDelegationDepth spec))),
        (cap_RuntimeFamily d = ''provider'' \<and> csrc_Scope (cap_Source d) = CapabilityScopeRemote \<and> \<not> cn_AllowRemoteDelegation spec,
           Err (''remote delegation to '' @ cap_Name d @ '' is not allowed'')),
        (co_LongRunning (coordination d) = 1 \<and> \<not> cn_AllowBackgroundDelegation spec,
           Err (''background delegation to '' @ cap_Name d @ '' is not allowed'')),
        (requestPrefersBackground q \<and> \<not> containsBackgroundExecutionMode (co_ExecutionModes (coordination d)) \<and>
           co_LongRunning (coordination d) \<noteq> 1, Err (''delegation target '' @ cap_Name d @ '' is not background-capable'')),
        (requestPrefersBackground q \<and> \<not> cn_AllowBackgroundDelegation spec,
           Err (''session-backed or background delegation to '' @ cap_Name d @ '' is not allowed''))]"

definition dedupeStringSlice :: "string list \<Rightarrow> string list" where
  "dedupeStringSlice input =
     fold (\<lambda>x out. let x = TrimSpace x in if x = [] \<or> x \<in> set out then out else out @ [x]) input []"

definition normalizeStringArray :: "(goval \<Rightarrow> string) \<Rightarrow> goval option \<Rightarrow> goval" where
  "normalizeStringArray sprint v =
     (case v of
        None \<Rightarrow> GList []
      | Some (GList xs) \<Rightarrow> GList xs
      | Some (GStrings xs) \<Rightarrow> GList (map GString (filter (\<lambda>x. TrimSpace x \<noteq> []) xs))
      | Some v \<Rightarrow> if TrimSpace (sprint v) = [] then GList [] else GList [GString (TrimSpace (sprint v))])"

definition normalizeArgumentMap :: "goval option \<Rightarrow> goval" where
  "normalizeArgumentMap v = (case v of Some (GMap xs) \<Rightarrow> GMap xs | _ \<Rightarrow> GMap [])"

definition buildDelegationInvocationArgs :: "(goval \<Rightarrow> string) \<Rightarrow> DelegationRequest \<Rightarrow> CapabilityDescriptor \<Rightarrow> (string \<times> goval) list" where
  "buildDelegationInvocationArgs sprint q d =
     (let args = [(''instruction'', GString (dq_Instruction q)), (''task_id'', GString (dq_TaskID q)), (''workflow_id'', GString (dq_WorkflowID q)),
            (''resource_refs'', GStrings (dq_ResourceRefs q))];
          args = fold (\<lambda>(k, v). AList.update k v) (dq_Metadata q) args;
          role = co_Role (coordination d)
      in if role = ''architect'' then AList.update ''context_summary'' (GString []) args
         else if role = ''reviewer''
         then AList.update ''acceptance_criteria'' (normalizeStringArray sprint (map_of args ''acceptance_criteria''))
                (AList.update ''artifact_summary'' (GString []) args)
         else if role = ''verifier''
         then AList.update ''verification_criteria''
                (normalizeStringArray sprint
                  (case map_of args ''verification_criteria'' of Some c \<Rightarrow> Some c | None \<Rightarrow> map_of args ''acceptance_criteria''))
                (AList.update ''artifact_summary'' (GString []) args)
         else if role = ''executor'' then AList.update ''args'' (normalizeArgumentMap (map_of args ''args'')) args
         else args)"

section \<open>Results\<close>

definition NewCapabilityResultEnvelope :: "CapabilityDescriptor \<Rightarrow> string \<Rightarrow> string option \<Rightarrow> CapabilityResultEnvelope" where
  "NewCapabilityResultEnvelope d disposition snapshot =
     (let insertion = DefaultInsertionDecision d disposition in
      \<lparr>re_Descriptor = d, re_Disposition = disposition,
       re_Insertion = (case snapshot of None \<Rightarrow> insertion | Some i \<Rightarrow> insertion\<lparr>in_PolicySnapshotID := i\<rparr>),
       re_PolicyID = snapshot\<rparr>)"

text \<open>\<open>policies\<close> are the agent specification's insertion policies; a missing tool result counts as a success.\<close>

definition BuildDelegationResult ::
  "time \<Rightarrow> DelegationRequest \<Rightarrow> CapabilityDescriptor \<Rightarrow> string + ToolResult option \<Rightarrow> string option \<Rightarrow>
   (CapabilitySelector \<times> string) list \<Rightarrow> CoordinationSpec \<Rightarrow> string \<Rightarrow> DelegationResult" where
  "BuildDelegationResult now q d outcome snapshot policies spec callerTrust =
     (let new = NewDelegationResult now q (cap_ID d) (csrc_ProviderID (cap_Source d)) (csrc_SessionID (cap_Source d)) in
      case outcome of
        Inl err \<Rightarrow> (new DelegationStateFailed False [])\<lparr>dr_Diagnostics := [err]\<rparr>
      | Inr res \<Rightarrow>
          let tr = (case res of None \<Rightarrow> \<lparr>tr_Success = True, tr_Data = [], tr_Error = []\<rparr> | Some tr \<Rightarrow> tr);
              state = (if tr_Success tr then DelegationStateSucceeded else DelegationStateFailed);
              result = new state (tr_Success tr) (tr_Data tr);
              result = (if tr_Error tr \<noteq> [] then result\<lparr>dr_Diagnostics := dr_Diagnostics result @ [tr_Error tr]\<rparr> else result);
              decision = EffectiveInsertionDecision policies (Some (NewCapabilityResultEnvelope d ''raw'' snapshot));
              decision = (case cap_Coordination d of
                  Some c \<Rightarrow>
                    if co_DirectInsertionAllowed c \<noteq> 1 \<and> in_Action decision = ''direct''
                    then decision\<lparr>in_Action := ''summarized'', in_Reason := ''coordination target requires summarized insertion''\<rparr>
                    else decision
                | None \<Rightarrow> decision);
              decision = (if callerTrust \<noteq> [] \<and> callerTrust \<noteq> cap_TrustClass d \<and> cn_RequireApprovalCrossTrust spec
                then decision\<lparr>in_Action := ''hitl-required'', in_RequiresHITL := True, in_Reason := ''cross-trust delegation requires approval''\<rparr>
                else decision)
          in result\<lparr>dr_Insertion := Some decision\<rparr>)"

section \<open>Execution\<close>

record BackgroundDelegationHandle =
  bh_ProviderID :: string
  bh_SessionID :: string
  bh_Recoverability :: string
  bh_Cancel :: bool

text \<open>
  \<open>eo_Coordination\<close> and \<open>eo_InsertionPolicies\<close> are what the registry reads of the agent specification.
\<close>

record DelegationExecutionOptions =
  eo_Registry :: "delegationRegistry option"
  eo_BackgroundRunner ::
    "(DelegationRequest \<Rightarrow> CapabilityDescriptor \<Rightarrow> (string \<times> goval) list \<Rightarrow> goerr + BackgroundDelegationHandle) option"
  eo_Coordination :: CoordinationSpec
  eo_InsertionPolicies :: "(CapabilitySelector \<times> string) list"
  eo_CallerAgentID :: string
  eo_CallerTrust :: string
  eo_Recoverability :: string
  eo_Background :: bool
  eo_Metadata :: "(string \<times> goval) list"

definition effectiveDelegationRecoverability :: "string \<Rightarrow> string" where
  "effectiveDelegationRecoverability mode =
     (if mode \<in> {''ephemeral'', ''recoverable-in-process'', ''recoverable-from-persisted-state''} then mode else ''recoverable-in-process'')"

definition resolveDelegationResourceRefs :: "DelegationRequest \<Rightarrow> string list" where
  "resolveDelegationResourceRefs q = (if dq_ResourceRefs q \<noteq> [] then dedupeStringSlice (dq_ResourceRefs q) else [])"

definition mergeAnyMaps :: "(string \<times> goval) list \<Rightarrow> (string \<times> goval) list \<Rightarrow> (string \<times> goval) list" where
  "mergeAnyMaps a b = fold (\<lambda>(k, v). AList.update k v) b a"

text \<open>The first half of \<open>ExecuteDelegation\<close>: the target, the policy check and the request as it will be recorded.\<close>

definition prepareDelegation ::
  "delegationRegistry \<Rightarrow> DelegationExecutionOptions \<Rightarrow> DelegationRequest \<Rightarrow> goerr + DelegationRequest \<times> CapabilityDescriptor" where
  "prepareDelegation R opts q =
     (case resolveDelegationTarget R (eo_Coordination opts) q of
        Inl err \<Rightarrow> Inl err
      | Inr d \<Rightarrow>
          (case validateDelegationTargetPolicy q d (eo_Coordination opts) of
             Some err \<Rightarrow> Inl err
           | None \<Rightarrow>
               let q = q\<lparr>dq_CallerAgentID := firstNonEmpty (dq_CallerAgentID q) (eo_CallerAgentID opts),
                         dq_TargetCapabilityID := cap_ID d,
                         dq_TargetProviderID := firstNonEmpty (dq_TargetProviderID q) (csrc_ProviderID (cap_Source d)),
                         dq_TargetSessionID := firstNonEmpty (dq_TargetSessionID q) (csrc_SessionID (cap_Source d))\<rparr>
               in Inr (q\<lparr>dq_ResourceRefs := resolveDelegationResourceRefs q\<rparr>, d)))"

definition startOptions ::
  "delegationRegistry \<Rightarrow> DelegationExecutionOptions \<Rightarrow> DelegationRequest \<Rightarrow> CapabilityDescriptor \<Rightarrow> string \<Rightarrow> bool \<Rightarrow> bool \<Rightarrow> DelegationStartOptions" where
  "startOptions R opts q d recoverability background onCancel =
     \<lparr>so_TrustClass = cap_TrustClass d, so_Recoverability = effectiveDelegationRecoverability recoverability, so_Background = background,
      so_PolicySnapshot = rg_PolicySnapshot R,
      so_Metadata = mergeAnyMaps (eo_Metadata opts)
        [(''target_role'', GString (co_Role (coordination d))), (''task_type'', GString (dq_TaskType q)), (''resource_refs'', GStrings (dq_ResourceRefs q))],
      so_OnCancel = onCancel\<rparr>"

text \<open>
  The snapshot and the error it answers with. \<open>other\<close> is what other callers do to the manager while the target
  runs. The background waiter is \<open>awaitBackgroundDelegation\<close>, a later step of its own.
\<close>

definition executeInBackground ::
  "(nat \<Rightarrow> time) \<Rightarrow> delegationRegistry \<Rightarrow> DelegationExecutionOptions \<Rightarrow> DelegationRequest \<Rightarrow> CapabilityDescriptor \<Rightarrow> DelegationManager \<Rightarrow>
   (DelegationSnapshot option \<times> goerr option) \<times> DelegationManager" where
  "executeInBackground clk R opts q d m =
     (case eo_BackgroundRunner opts of
        None \<Rightarrow> ((None, Some (Err (''background delegation runner required for '' @ cap_Name d))), m)
      | Some run \<Rightarrow>
          (case run q d (buildDelegationInvocationArgs (rg_Sprint R) q d) of
             Inl err \<Rightarrow> ((None, Some err), m)
           | Inr h \<Rightarrow>
               let q = q\<lparr>dq_TargetProviderID := firstNonEmpty (dq_TargetProviderID q) (bh_ProviderID h),
                         dq_TargetSessionID := firstNonEmpty (dq_TargetSessionID q) (bh_SessionID h)\<rparr>;
                   recoverability = (if bh_Recoverability h \<noteq> [] then bh_Recoverability h else eo_Recoverability opts)
               in (case StartDelegation clk q (startOptions R opts q d recoverability True (bh_Cancel h)) m of
                     (Inl err, m) \<Rightarrow> ((None, Some err), m)
                   | (Inr s, m) \<Rightarrow> ((Some s, None), m))))"

definition executeInForeground ::
  "(nat \<Rightarrow> time) \<Rightarrow> (DelegationManager \<Rightarrow> DelegationManager) \<Rightarrow> delegationRegistry \<Rightarrow> DelegationExecutionOptions \<Rightarrow> DelegationRequest \<Rightarrow>
   CapabilityDescriptor \<Rightarrow> DelegationManager \<Rightarrow> (DelegationSnapshot option \<times> goerr option) \<times> DelegationManager" where
  "executeInForeground clk other R opts q d m =
     (case StartDelegation clk q (startOptions R opts q d (eo_Recoverability opts) (eo_Background opts) False) m of
        (Inl err, m) \<Rightarrow> ((None, Some err), m)
      | (Inr s, m) \<Rightarrow>
          let outcome = rg_InvokeCapability R (cap_ID d) (buildDelegationInvocationArgs (rg_Sprint R) q d);
              result = BuildDelegationResult (clk 3) q d outcome (rg_PolicySnapshot R) (eo_InsertionPolicies opts)
                (eo_Coordination opts) (eo_CallerTrust opts)
          in (case CompleteDelegation (clk 4) (dq_ID (ds_Request s)) (Some result) (other m) of
                (Inl err, m) \<Rightarrow> ((None, Some err), m)
              | (Inr s, m) \<Rightarrow> ((Some s, (case outcome of Inl err \<Rightarrow> Some (Err err) | Inr _ \<Rightarrow> None)), m)))"

definition ExecuteDelegation ::
  "(nat \<Rightarrow> time) \<Rightarrow> (DelegationManager \<Rightarrow> DelegationManager) \<Rightarrow> DelegationExecutionOptions \<Rightarrow> DelegationRequest \<Rightarrow> DelegationManager \<Rightarrow>
   (DelegationSnapshot option \<times> goerr option) \<times> DelegationManager" where
  "ExecuteDelegation clk other opts q m =
     (case eo_Registry opts of
        None \<Rightarrow> ((None, Some (Err ''delegation registry required'')), m)
      | Some R \<Rightarrow>
          (case prepareDelegation R opts q of
             Inl err \<Rightarrow> ((None, Some err), m)
           | Inr (q, d) \<Rightarrow>
               if shouldRunDelegationInBackground d (eo_Background opts) then executeInBackground clk R opts q d m
               else executeInForeground clk other R opts q d m))"

text \<open>\<open>outcome\<close> is what the result channel delivers; nothing when it is closed.\<close>

definition awaitBackgroundDelegation ::
  "(nat \<Rightarrow> time) \<Rightarrow> string \<Rightarrow> DelegationRequest \<Rightarrow> CapabilityDescriptor \<Rightarrow> BackgroundDelegationHandle \<Rightarrow> (string + ToolResult option) option \<Rightarrow>
   string option \<Rightarrow> DelegationExecutionOptions \<Rightarrow> DelegationManager \<Rightarrow> DelegationManager" where
  "awaitBackgroundDelegation clk i q d h outcome snapshot opts m =
     (let outcome = (case outcome of
          Some x \<Rightarrow> x
        | None \<Rightarrow> Inl (''background delegation session '' @ bh_SessionID h @ '' closed without result''))
      in snd (CompleteDelegation (clk 1) i
           (Some (BuildDelegationResult (clk 0) q d outcome snapshot (eo_InsertionPolicies opts) (eo_Coordination opts) (eo_CallerTrust opts))) m))"



section \<open>Persistence\<close>

record DelegationEntry =
  de_DelegationID :: string
  de_WorkflowID :: string
  de_RunID :: string
  de_TaskID :: string
  de_State :: string
  de_TrustClass :: string
  de_Recoverability :: string
  de_Background :: bool
  de_Request :: DelegationRequest
  de_Result :: "DelegationResult option"
  de_Metadata :: "(string \<times> goval) list"
  de_StartedAt :: time
  de_UpdatedAt :: time

record DelegationTransitionEntry =
  dt_TransitionID :: string
  dt_DelegationID :: string
  dt_WorkflowID :: string
  dt_RunID :: string
  dt_ToState :: string
  dt_Metadata :: "(string \<times> goval) list"
  dt_CreatedAt :: time

record WorkflowArtifactRecord =
  wa_ArtifactID :: string
  wa_WorkflowID :: string
  wa_RunID :: string
  wa_Kind :: string
  wa_ContentType :: string
  wa_StorageKind :: string
  wa_SummaryText :: string
  wa_SummaryMetadata :: "(string \<times> goval) list"
  wa_InlineRawText :: string
  wa_RawSizeBytes :: int
  wa_CompressionMethod :: string
  wa_CreatedAt :: time

datatype repoWrite =
    UpsertDelegation DelegationEntry
  | AppendDelegationTransition DelegationTransitionEntry
  | UpsertArtifact WorkflowArtifactRecord

definition delegationTransitionID :: "DelegationSnapshot \<Rightarrow> string" where
  "delegationTransitionID s =
     dq_ID (ds_Request s) @ '':'' @ ds_State s @ '':'' @ fmtInt (if ds_UpdatedAt s = 0 then ds_StartedAt s else ds_UpdatedAt s)"

definition delegationResultTarget :: "DelegationResult option \<Rightarrow> string" where
  "delegationResultTarget r = (case r of None \<Rightarrow> [] | Some r \<Rightarrow> dr_TargetCapabilityID r)"

definition delegationSummary :: "DelegationSnapshot \<Rightarrow> string" where
  "delegationSummary s =
     (let target = firstNonEmpty (dq_TargetCapabilityID (ds_Request s)) (delegationResultTarget (ds_Result s)) in
      ''delegation '' @ dq_ID (ds_Request s) @ '' to '' @ target @ '' '' @ (if ds_State s \<in> set terminalStates then ds_State s else ''updated''))"

definition delegationArtifactMetadata :: "DelegationSnapshot \<Rightarrow> (string \<times> goval) list" where
  "delegationArtifactMetadata s =
     (let q = ds_Request s in
      [(''delegation_id'', GString (dq_ID q)), (''state'', GString (ds_State s)), (''target_capability_id'', GString (dq_TargetCapabilityID q)),
       (''target_provider_id'', GString (dq_TargetProviderID q)), (''target_session_id'', GString (dq_TargetSessionID q)),
       (''trust_class'', GString (ds_TrustClass s)), (''background'', GBool (ds_Background s))] @
      (case ds_Result s of None \<Rightarrow> [] | Some r \<Rightarrow> [(''success'', GBool (dr_Success r))]))"

text \<open>\<open>raw\<close> is the encoded redacted payload of a snapshot (\<open>marshalDelegationArtifact\<close>, JSON).\<close>

definition promotedDelegationArtifact :: "(DelegationSnapshot \<Rightarrow> string) \<Rightarrow> DelegationSnapshot \<Rightarrow> string \<Rightarrow> string \<Rightarrow> WorkflowArtifactRecord option" where
  "promotedDelegationArtifact raw s workflowID runID =
     (if ds_Result s = None \<or> ds_State s \<notin> set terminalStates then None
      else Some \<lparr>wa_ArtifactID = ''delegation-result:'' @ dq_ID (ds_Request s), wa_WorkflowID = workflowID, wa_RunID = TrimSpace runID,
        wa_Kind = ''delegation_result'', wa_ContentType = ''application/json'', wa_StorageKind = ''inline'', wa_SummaryText = delegationSummary s,
        wa_SummaryMetadata = delegationArtifactMetadata s, wa_InlineRawText = raw s, wa_RawSizeBytes = int (length (raw s)),
        wa_CompressionMethod = ''none'', wa_CreatedAt = ds_UpdatedAt s\<rparr>)"

text \<open>The writes of one snapshot, in order.\<close>

definition snapshotWrites :: "(DelegationSnapshot \<Rightarrow> string) \<Rightarrow> string \<Rightarrow> string \<Rightarrow> DelegationSnapshot \<Rightarrow> repoWrite list" where
  "snapshotWrites raw workflowID runID s =
     (let q = ds_Request s in
      if TrimSpace workflowID \<noteq> [] \<and> dq_WorkflowID q \<noteq> [] \<and> dq_WorkflowID q \<noteq> workflowID then []
      else
        let wf = firstNonEmpty (dq_WorkflowID q) workflowID in
        [UpsertDelegation \<lparr>de_DelegationID = dq_ID q, de_WorkflowID = wf, de_RunID = TrimSpace runID, de_TaskID = dq_TaskID q, de_State = ds_State s,
           de_TrustClass = ds_TrustClass s, de_Recoverability = ds_Recoverability s, de_Background = ds_Background s, de_Request = q,
           de_Result = ds_Result s, de_Metadata = ds_Metadata s, de_StartedAt = ds_StartedAt s, de_UpdatedAt = ds_UpdatedAt s\<rparr>,
         AppendDelegationTransition \<lparr>dt_TransitionID = delegationTransitionID s, dt_DelegationID = dq_ID q, dt_WorkflowID = wf, dt_RunID = TrimSpace runID,
           dt_ToState = ds_State s,
           dt_Metadata = [(''target_capability_id'', GString (dq_TargetCapabilityID q)), (''target_provider_id'', GString (dq_TargetProviderID q)),
             (''target_session_id'', GString (dq_TargetSessionID q))] @ (if ds_Result s \<noteq> None then [(''has_result'', GBool True)] else []),
           dt_CreatedAt = ds_UpdatedAt s\<rparr>] @
        (case promotedDelegationArtifact raw s wf runID of None \<Rightarrow> [] | Some a \<Rightarrow> [UpsertArtifact a]))"

text \<open>\<open>fails\<close> is the repository's answer to a write; the first failure ends the run. Answers with the writes that succeeded.\<close>

fun writeAll :: "(repoWrite \<Rightarrow> goerr option) \<Rightarrow> repoWrite list \<Rightarrow> goerr option \<times> repoWrite list" where
  "writeAll fails [] = (None, [])"
| "writeAll fails (w # ws) =
     (case fails w of Some err \<Rightarrow> (Some err, []) | None \<Rightarrow> (case writeAll fails ws of (r, done) \<Rightarrow> (r, w # done)))"

definition SnapshotDelegations :: "DelegationManager \<Rightarrow> DelegationSnapshot list" where
  "SnapshotDelegations m =
     ListDelegations \<lparr>df_WorkflowID = [], df_TaskID = [], df_TargetCapabilityID = [], df_TargetProviderID = [], df_TargetSessionID = [], df_States = []\<rparr> m"

definition PersistDelegations ::
  "(DelegationSnapshot \<Rightarrow> string) \<Rightarrow> (repoWrite \<Rightarrow> goerr option) \<Rightarrow> string \<Rightarrow> string \<Rightarrow> DelegationManager \<Rightarrow> goerr option \<times> repoWrite list" where
  "PersistDelegations raw fails workflowID runID m =
     writeAll fails (concat (map (snapshotWrites raw workflowID runID) (SnapshotDelegations m)))"

section \<open>Life of a delegation\<close>

text \<open>Every change of the manager is one of these locked steps.\<close>

inductive delegationSteps :: "DelegationManager \<Rightarrow> DelegationManager \<Rightarrow> bool" where
  none: "delegationSteps m m"
| start: "delegationSteps m m1 \<Longrightarrow> delegationSteps m (snd (StartDelegation clk q opts m1))"
| complete: "delegationSteps m m1 \<Longrightarrow> delegationSteps m (snd (CompleteDelegation now i r m1))"
| observer: "delegationSteps m m1 \<Longrightarrow> delegationSteps m (SetObserver b m1)"

lemma delegationSteps_trans: "delegationSteps b c \<Longrightarrow> delegationSteps a b \<Longrightarrow> delegationSteps a c"
  by (induction rule: delegationSteps.induct) (auto intro: delegationSteps.intros)

lemma one_start: "delegationSteps m (snd (StartDelegation clk q opts m))"
  by (rule start) (rule none)

lemma one_complete: "delegationSteps m (snd (CompleteDelegation now i r m))"
  by (rule complete) (rule none)

lemma observe_delegations [simp]: "dm_delegations (observe s m) = dm_delegations m"
  by (simp add: observe_def)

definition okRecord :: "string \<Rightarrow> delegationRecord \<Rightarrow> bool" where
  "okRecord i rc =
     (let s = rd_snapshot rc in
      dq_ID (ds_Request s) = i \<and> DelegationRequest_Validate (ds_Request s) = None \<and>
      (case ds_Result s of
         None \<Rightarrow> ds_State s = DelegationStateRunning
       | Some r \<Rightarrow> ds_State s \<in> set terminalStates \<and> dr_State r = ds_State s \<and> DelegationResult_Validate r = None \<and> \<not> rd_cancel rc))"

definition okManager :: "DelegationManager \<Rightarrow> bool" where
  "okManager m \<longleftrightarrow> (\<forall>i rc. map_of (dm_delegations m) i = Some rc \<longrightarrow> okRecord i rc)"

definition follows :: "delegationRecord \<Rightarrow> delegationRecord \<Rightarrow> bool" where
  "follows rc rc' \<longleftrightarrow>
     ds_Request (rd_snapshot rc') = ds_Request (rd_snapshot rc) \<and> ds_StartedAt (rd_snapshot rc') = ds_StartedAt (rd_snapshot rc) \<and>
     (ds_State (rd_snapshot rc) \<in> set terminalStates \<longrightarrow> rc' = rc)"

definition continues :: "DelegationManager \<Rightarrow> DelegationManager \<Rightarrow> bool" where
  "continues m m' \<longleftrightarrow>
     (\<forall>i rc. map_of (dm_delegations m) i = Some rc \<longrightarrow> (\<exists>rc'. map_of (dm_delegations m') i = Some rc' \<and> follows rc rc'))"

lemma continues_refl [simp]: "continues m m"
  by (simp add: continues_def follows_def)

lemma follows_trans: "follows a b \<Longrightarrow> follows b c \<Longrightarrow> follows a c"
  by (auto simp: follows_def)

lemma continues_trans: "continues a b \<Longrightarrow> continues b c \<Longrightarrow> continues a c"
  unfolding continues_def using follows_trans by blast

lemma start_cases:
  obtains err where "StartDelegation clk q opts m = (Inl err, m)"
  | s m' where "StartDelegation clk q opts m = (Inr s, m')" "map_of (dm_delegations m) (dq_ID q) = None"
      "dm_delegations m' = AList.update (dq_ID q) \<lparr>rd_snapshot = s, rd_cancel = so_OnCancel opts\<rparr> (dm_delegations m)"
      "DelegationSnapshot_Validate s = None" "ds_State s = DelegationStateRunning" "ds_Result s = None"
      "dq_ID (ds_Request s) = dq_ID q" "dq_TargetCapabilityID (ds_Request s) = dq_TargetCapabilityID q"
      "ds_Background s = so_Background opts"
proof -
  have "(\<exists>err. StartDelegation clk q opts m = (Inl err, m)) \<or>
    (\<exists>s m'. StartDelegation clk q opts m = (Inr s, m') \<and> map_of (dm_delegations m) (dq_ID q) = None \<and>
      dm_delegations m' = AList.update (dq_ID q) \<lparr>rd_snapshot = s, rd_cancel = so_OnCancel opts\<rparr> (dm_delegations m) \<and>
      DelegationSnapshot_Validate s = None \<and> ds_State s = DelegationStateRunning \<and> ds_Result s = None \<and>
      dq_ID (ds_Request s) = dq_ID q \<and> dq_TargetCapabilityID (ds_Request s) = dq_TargetCapabilityID q \<and>
      ds_Background s = so_Background opts)"
    by (cases "dq_CreatedAt q = 0"; cases "so_PolicySnapshot opts"; cases "dq_PolicySnapshotID q = []")
      (auto simp: StartDelegation_def Let_def split: option.splits)
  then show thesis using that by blast
qed

lemma complete_cases:
  obtains x where "CompleteDelegation now i r m = (x, m)"
      "\<And>s. x = Inr s \<Longrightarrow> \<exists>rc. map_of (dm_delegations m) (TrimSpace i) = Some rc \<and> s = rd_snapshot rc \<and> ds_State s \<in> set terminalStates"
  | rc c s m' where "CompleteDelegation now i r m = (Inr s, m')" "map_of (dm_delegations m) (TrimSpace i) = Some rc"
      "ds_State (rd_snapshot rc) \<notin> set terminalStates" "DelegationResult_Validate c = None" "dr_State c \<in> set terminalStates"
      "s = (rd_snapshot rc)\<lparr>ds_Result := Some c, ds_State := dr_State c, ds_UpdatedAt := now\<rparr>"
      "dm_delegations m' = AList.update (TrimSpace i) \<lparr>rd_snapshot = s, rd_cancel = False\<rparr> (dm_delegations m)"
proof -
  have "(\<exists>x. CompleteDelegation now i r m = (x, m) \<and>
      (\<forall>s. x = Inr s \<longrightarrow> (\<exists>rc. map_of (dm_delegations m) (TrimSpace i) = Some rc \<and> s = rd_snapshot rc \<and> ds_State s \<in> set terminalStates))) \<or>
    (\<exists>rc c s m'. CompleteDelegation now i r m = (Inr s, m') \<and> map_of (dm_delegations m) (TrimSpace i) = Some rc \<and>
      ds_State (rd_snapshot rc) \<notin> set terminalStates \<and> DelegationResult_Validate c = None \<and> dr_State c \<in> set terminalStates \<and>
      s = (rd_snapshot rc)\<lparr>ds_Result := Some c, ds_State := dr_State c, ds_UpdatedAt := now\<rparr> \<and>
      dm_delegations m' = AList.update (TrimSpace i) \<lparr>rd_snapshot = s, rd_cancel = False\<rparr> (dm_delegations m))"
  proof (cases r)
    case (Some r0)
    show ?thesis
      unfolding Some
      by (cases "DelegationResult_Validate (completionCandidate (TrimSpace i) r0)"; cases "map_of (dm_delegations m) (TrimSpace i)")
        (auto simp: CompleteDelegation_def Let_def intro: exI [of _ "completionCandidate (TrimSpace i) r0"])
  qed (simp add: CompleteDelegation_def Let_def)
  then show thesis using that by blast
qed


lemma map_of_AList_update: "map_of (AList.update k v xs) i = (if i = k then Some v else map_of xs i)"
  by (simp add: AList.update_conv')

lemma snapshot_request_ok: "DelegationSnapshot_Validate s = None \<Longrightarrow> DelegationRequest_Validate (ds_Request s) = None"
  by (simp add: DelegationSnapshot_Validate_def split: option.splits)

lemma start_keeps:
  assumes "okManager m" shows "okManager (snd (StartDelegation clk q opts m)) \<and> continues m (snd (StartDelegation clk q opts m))"
proof (rule start_cases [of clk q opts m])
  fix s m'
  assume "StartDelegation clk q opts m = (Inr s, m')" "map_of (dm_delegations m) (dq_ID q) = None"
    "dm_delegations m' = AList.update (dq_ID q) \<lparr>rd_snapshot = s, rd_cancel = so_OnCancel opts\<rparr> (dm_delegations m)"
    "DelegationSnapshot_Validate s = None" "ds_State s = DelegationStateRunning" "ds_Result s = None" "dq_ID (ds_Request s) = dq_ID q"
  then show ?thesis using assms
    by (auto simp: okManager_def continues_def follows_def okRecord_def map_of_AList_update snapshot_request_ok)
qed (use assms in simp)

lemma complete_keeps:
  assumes "okManager m" shows "okManager (snd (CompleteDelegation now i r m)) \<and> continues m (snd (CompleteDelegation now i r m))"
proof (rule complete_cases [of now i r m])
  fix rc c s m'
  assume "CompleteDelegation now i r m = (Inr s, m')" and rc: "map_of (dm_delegations m) (TrimSpace i) = Some rc"
    and "ds_State (rd_snapshot rc) \<notin> set terminalStates" "DelegationResult_Validate c = None" "dr_State c \<in> set terminalStates"
    "s = (rd_snapshot rc)\<lparr>ds_Result := Some c, ds_State := dr_State c, ds_UpdatedAt := now\<rparr>"
    "dm_delegations m' = AList.update (TrimSpace i) \<lparr>rd_snapshot = s, rd_cancel = False\<rparr> (dm_delegations m)"
  moreover have "okRecord (TrimSpace i) rc" using assms rc by (simp add: okManager_def)
  ultimately show ?thesis using assms
    by (auto simp: okManager_def continues_def follows_def okRecord_def map_of_AList_update Let_def)
qed (use assms in simp)

lemma observer_keeps: "okManager (SetObserver b m) = okManager m" "continues m (SetObserver b m)"
  by (simp_all add: okManager_def continues_def follows_def SetObserver_def)

lemma steps_keep: "delegationSteps m m' \<Longrightarrow> okManager m \<Longrightarrow> okManager m' \<and> continues m m'"
  by (induction rule: delegationSteps.induct) (auto simp: observer_keeps intro: continues_trans dest: start_keeps complete_keeps)

lemma cancel_steps:
  assumes "delegationSteps m (other m)" shows "delegationSteps m (snd (CancelDelegation now1 now2 hook other i reason m))"
proof -
  have c: "delegationSteps m (snd (CompleteDelegation now i r (other m)))" for now i r
    using assms by (rule complete)
  show ?thesis unfolding CancelDelegation_def Let_def by (auto simp: assms none c split: option.splits)
qed

lemma await_steps: "delegationSteps m (awaitBackgroundDelegation clk i q d h outcome snapshot opts m)"
  by (simp add: awaitBackgroundDelegation_def one_complete)

lemma background_cases:
  obtains e where "executeInBackground clk R opts q d m = ((None, Some e), m)"
  | q' o' s m' where "executeInBackground clk R opts q d m = ((Some s, None), m')" "StartDelegation clk q' o' m = (Inr s, m')"
      "dq_ID q' = dq_ID q" "dq_TargetCapabilityID q' = dq_TargetCapabilityID q" "so_Background o'"
proof -
  have "(\<exists>e. executeInBackground clk R opts q d m = ((None, Some e), m)) \<or>
    (\<exists>q' o' s m'. executeInBackground clk R opts q d m = ((Some s, None), m') \<and> StartDelegation clk q' o' m = (Inr s, m') \<and>
      dq_ID q' = dq_ID q \<and> dq_TargetCapabilityID q' = dq_TargetCapabilityID q \<and> so_Background o')"
  proof (cases "eo_BackgroundRunner opts")
    case (Some run)
    show ?thesis
    proof (cases "run q d (buildDelegationInvocationArgs (rg_Sprint R) q d)")
      case (Inr h)
      define q1 where "q1 = q\<lparr>dq_TargetProviderID := firstNonEmpty (dq_TargetProviderID q) (bh_ProviderID h),
        dq_TargetSessionID := firstNonEmpty (dq_TargetSessionID q) (bh_SessionID h)\<rparr>"
      define o1 where "o1 = startOptions R opts q1 d (if bh_Recoverability h \<noteq> [] then bh_Recoverability h else eo_Recoverability opts) True (bh_Cancel h)"
      have eq: "executeInBackground clk R opts q d m =
        (case StartDelegation clk q1 o1 m of (Inl err, m) \<Rightarrow> ((None, Some err), m) | (Inr s, m) \<Rightarrow> ((Some s, None), m))"
        using Some Inr unfolding executeInBackground_def o1_def q1_def Let_def by (auto split: prod.split sum.split)
      have same: "dq_ID q1 = dq_ID q" "dq_TargetCapabilityID q1 = dq_TargetCapabilityID q" "so_Background o1"
        by (simp_all add: q1_def o1_def startOptions_def)
      show ?thesis by (rule start_cases [of clk q1 o1 m]) (use eq same in auto)
    qed (use Some in \<open>simp add: executeInBackground_def\<close>)
  qed (simp add: executeInBackground_def)
  then show thesis using that by blast
qed

lemma foreground_cases:
  obtains e where "executeInForeground clk other R opts q d m = ((None, Some e), m)"
  | o' s m1 r where "snd (executeInForeground clk other R opts q d m) = snd (CompleteDelegation (clk 4) (dq_ID q) (Some r) (other m1))"
      "StartDelegation clk q o' m = (Inr s, m1)" "so_Background o' = eo_Background opts"
      "r = BuildDelegationResult (clk 3) q d (rg_InvokeCapability R (cap_ID d) (buildDelegationInvocationArgs (rg_Sprint R) q d))
         (rg_PolicySnapshot R) (eo_InsertionPolicies opts) (eo_Coordination opts) (eo_CallerTrust opts)"
proof (rule start_cases [of clk q "startOptions R opts q d (eo_Recoverability opts) (eo_Background opts) False" m])
  fix err assume "StartDelegation clk q (startOptions R opts q d (eo_Recoverability opts) (eo_Background opts) False) m = (Inl err, m)"
  then have "executeInForeground clk other R opts q d m = ((None, Some err), m)" by (simp add: executeInForeground_def)
  then show thesis by (rule that(1))
next
  fix s m1
  assume st: "StartDelegation clk q (startOptions R opts q d (eo_Recoverability opts) (eo_Background opts) False) m = (Inr s, m1)"
    and i: "dq_ID (ds_Request s) = dq_ID q"
  let ?r = "BuildDelegationResult (clk 3) q d (rg_InvokeCapability R (cap_ID d) (buildDelegationInvocationArgs (rg_Sprint R) q d))
         (rg_PolicySnapshot R) (eo_InsertionPolicies opts) (eo_Coordination opts) (eo_CallerTrust opts)"
  have "snd (executeInForeground clk other R opts q d m) = snd (CompleteDelegation (clk 4) (dq_ID q) (Some ?r) (other m1))"
    by (cases "CompleteDelegation (clk 4) (dq_ID q) (Some ?r) (other m1)"; cases "fst (CompleteDelegation (clk 4) (dq_ID q) (Some ?r) (other m1))")
      (simp_all add: executeInForeground_def st i Let_def)
  then show thesis by (rule that(2) [OF _ st]) (simp_all add: startOptions_def)
qed


lemma prepare_facts:
  assumes "prepareDelegation R opts q = Inr (q1, d)"
  shows "validateDelegationTargetPolicy q d (eo_Coordination opts) = None" "dq_ID q1 = dq_ID q" "dq_TargetCapabilityID q1 = cap_ID d"
  using assms by (auto simp: prepareDelegation_def Let_def split: sum.splits option.splits)

lemma execute_cases:
  assumes other: "\<And>x. delegationSteps x (other x)"
  obtains "snd (ExecuteDelegation clk other opts q m) = m" "fst (fst (ExecuteDelegation clk other opts q m)) = None"
  | R q1 d q2 o2 s m1 where "eo_Registry opts = Some R" "prepareDelegation R opts q = Inr (q1, d)"
      "dq_ID q2 = dq_ID q" "dq_TargetCapabilityID q2 = cap_ID d" "StartDelegation clk q2 o2 m = (Inr s, m1)"
      "delegationSteps m1 (snd (ExecuteDelegation clk other opts q m))"
proof (cases "eo_Registry opts")
  case None
  then show thesis by (intro that(1)) (simp_all add: ExecuteDelegation_def)
next
  case (Some R)
  show thesis
  proof (cases "prepareDelegation R opts q")
    case (Inl e)
    with Some show thesis by (intro that(1)) (simp_all add: ExecuteDelegation_def)
  next
    case (Inr qd)
    obtain q1 d where p: "prepareDelegation R opts q = Inr (q1, d)" using Inr by (cases qd) simp
    note go = that(2) [OF Some p]
    show thesis
    proof (cases "shouldRunDelegationInBackground d (eo_Background opts)")
      case True
      then have eq: "ExecuteDelegation clk other opts q m = executeInBackground clk R opts q1 d m" using Some p by (simp add: ExecuteDelegation_def)
      show thesis
        by (rule background_cases [of clk R opts q1 d m]) (auto simp: eq prepare_facts [OF p] none intro: that(1) go)
    next
      case False
      then have eq: "ExecuteDelegation clk other opts q m = executeInForeground clk other R opts q1 d m" using Some p by (simp add: ExecuteDelegation_def)
      show thesis
      proof (rule foreground_cases [of clk other R opts q1 d m])
        fix e assume "executeInForeground clk other R opts q1 d m = ((None, Some e), m)"
        then show thesis by (intro that(1)) (simp_all add: eq)
      next
        fix o' s m1 r
        assume "snd (executeInForeground clk other R opts q1 d m) = snd (CompleteDelegation (clk 4) (dq_ID q1) (Some r) (other m1))"
          and "StartDelegation clk q1 o' m = (Inr s, m1)"
        then show thesis using complete [OF other, of m1] by (intro go [of q1 o' s m1]) (simp_all add: eq prepare_facts [OF p])
      qed
    qed
  qed
qed

lemma execute_steps:
  assumes "\<And>x. delegationSteps x (other x)" shows "delegationSteps m (snd (ExecuteDelegation clk other opts q m))"
  using assms
proof (rule execute_cases [of other clk opts q m])
  fix R q1 d q2 o2 s m1
  assume "StartDelegation clk q2 o2 m = (Inr s, m1)" and st: "delegationSteps m1 (snd (ExecuteDelegation clk other opts q m))"
  then have "delegationSteps m m1" using one_start [of m clk q2 o2] by simp
  with st show ?thesis by (rule delegationSteps_trans)
qed (simp_all add: none)

lemma okManager_new: "okManager NewDelegationManager"
  by (simp add: okManager_def NewDelegationManager_def)

text \<open>
  \<^bold>\<open>C22.\<close> Starting, executing, completing, cancelling and awaiting delegations, in any order and interleaving, keep
  every recorded delegation under its own identifier with a valid request; it has no result exactly while it is
  running, and otherwise a valid result of its state and no cancel hook. Later steps neither remove it nor touch
  its request, and once it is terminal they do not change it at all.
\<close>
theorem delegation_lifecycle:
  assumes "delegationSteps NewDelegationManager m" and "delegationSteps m m'"
    and "map_of (dm_delegations m) i = Some rc"
  defines "s \<equiv> rd_snapshot rc"
  shows "dq_ID (ds_Request s) = i \<and> DelegationRequest_Validate (ds_Request s) = None \<and>
    (case ds_Result s of
       None \<Rightarrow> ds_State s = DelegationStateRunning
     | Some r \<Rightarrow> ds_State s \<in> set terminalStates \<and> dr_State r = ds_State s \<and> DelegationResult_Validate r = None \<and> \<not> rd_cancel rc) \<and>
    (\<exists>rc'. map_of (dm_delegations m') i = Some rc' \<and> ds_Request (rd_snapshot rc') = ds_Request s \<and>
       ds_StartedAt (rd_snapshot rc') = ds_StartedAt s \<and> (ds_State s \<in> set terminalStates \<longrightarrow> rc' = rc))"
proof -
  have "okManager m" using steps_keep [OF assms(1) okManager_new] by blast
  then have "okRecord i rc" "continues m m'" using steps_keep [OF assms(2)] assms(3) by (auto simp: okManager_def)
  with assms(3) show ?thesis unfolding s_def by (auto simp: okRecord_def continues_def follows_def Let_def)
qed

text \<open>
  \<^bold>\<open>C34.\<close> When executing a delegation changes the manager, its target is a coordination target, its depth is
  within the bound, a remote provider target, a long-running target and a request that prefers the background were allowed (the
  option \<open>Background\<close> of the call is not checked),
  its identifier was free, and it is recorded under it with that target.
\<close>
theorem delegation_guarded:
  fixes clk opts q m
  assumes "delegationSteps NewDelegationManager m" and "\<And>x. delegationSteps x (other x)"
  defines "m' \<equiv> snd (ExecuteDelegation clk other opts q m)" and "spec \<equiv> eo_Coordination opts"
  assumes "m' \<noteq> m"
  shows "\<exists>R q1 d. eo_Registry opts = Some R \<and> prepareDelegation R opts q = Inr (q1, d) \<and> co_Target (coordination d) \<and>
    (0 < cn_MaxDelegationDepth spec \<longrightarrow> dq_Depth q \<le> cn_MaxDelegationDepth spec) \<and>
    (cap_RuntimeFamily d = ''provider'' \<and> csrc_Scope (cap_Source d) = CapabilityScopeRemote \<longrightarrow> cn_AllowRemoteDelegation spec) \<and>
    (co_LongRunning (coordination d) = 1 \<or> requestPrefersBackground q \<longrightarrow> cn_AllowBackgroundDelegation spec) \<and>
    map_of (dm_delegations m) (dq_ID q) = None \<and>
    (\<exists>rc. map_of (dm_delegations m') (dq_ID q) = Some rc \<and> dq_TargetCapabilityID (ds_Request (rd_snapshot rc)) = cap_ID d)"
  using assms(2)
proof (rule execute_cases [of other clk opts q m])
  fix R q1 d q2 o2 s m1
  assume reg: "eo_Registry opts = Some R" and p: "prepareDelegation R opts q = Inr (q1, d)" and q2: "dq_ID q2 = dq_ID q" "dq_TargetCapabilityID q2 = cap_ID d"
    and st: "StartDelegation clk q2 o2 m = (Inr s, m1)" and m': "delegationSteps m1 (snd (ExecuteDelegation clk other opts q m))"
  have "validateDelegationTargetPolicy q d spec = None" using prepare_facts(1) [OF p] by (simp add: spec_def)
  then have pol: "co_Target (coordination d) \<and> (0 < cn_MaxDelegationDepth spec \<longrightarrow> dq_Depth q \<le> cn_MaxDelegationDepth spec) \<and>
    (cap_RuntimeFamily d = ''provider'' \<and> csrc_Scope (cap_Source d) = CapabilityScopeRemote \<longrightarrow> cn_AllowRemoteDelegation spec) \<and>
    (co_LongRunning (coordination d) = 1 \<or> requestPrefersBackground q \<longrightarrow> cn_AllowBackgroundDelegation spec)"
    by (auto simp: validateDelegationTargetPolicy_def firstErr_None simp del: firstErr.simps)
  have ok: "okManager m1" using start_keeps [of m clk q2 o2] steps_keep [OF assms(1) okManager_new] st by simp
  have rc: "map_of (dm_delegations m) (dq_ID q) = None" "\<exists>rc. map_of (dm_delegations m1) (dq_ID q) = Some rc \<and> dq_TargetCapabilityID (ds_Request (rd_snapshot rc)) = cap_ID d"
    by (rule start_cases [of clk q2 o2 m]; use st q2 in \<open>auto simp: map_of_AList_update\<close>)+
  have "\<exists>rc. map_of (dm_delegations m') (dq_ID q) = Some rc \<and> dq_TargetCapabilityID (ds_Request (rd_snapshot rc)) = cap_ID d"
    using rc(2) steps_keep [OF m' ok] unfolding m'_def continues_def follows_def by metis
  with reg p pol rc(1) show ?thesis by blast
qed (use assms(5) in \<open>simp add: m'_def\<close>)


section \<open>Results of executed delegations\<close>

lemma build_result_terminal:
  "dr_State (BuildDelegationResult now q d outcome snap policies spec trust) \<in> {DelegationStateSucceeded, DelegationStateFailed}"
  "dr_Success (BuildDelegationResult now q d outcome snap policies spec trust) \<longleftrightarrow>
     dr_State (BuildDelegationResult now q d outcome snap policies spec trust) = DelegationStateSucceeded"
  by (auto simp: BuildDelegationResult_def NewDelegationResult_def Let_def split: sum.splits option.splits)

lemma build_result_fields:
  "dr_DelegationID (BuildDelegationResult now q d outcome snap policies spec trust) = TrimSpace (dq_ID q)"
  "dr_ResourceRefs (BuildDelegationResult now q d outcome snap policies spec trust) = dq_ResourceRefs q"
  "dr_Diagnostics (BuildDelegationResult now q d outcome snap policies spec trust) =
     (case outcome of Inl e \<Rightarrow> [e] | Inr None \<Rightarrow> [] | Inr (Some tr) \<Rightarrow> if tr_Error tr = [] then [] else [tr_Error tr])"
  by (auto simp: BuildDelegationResult_def NewDelegationResult_def Let_def split: sum.splits option.splits)

definition readableOutcome :: "string + ToolResult option \<Rightarrow> bool" where
  "readableOutcome outcome =
     (case outcome of Inl e \<Rightarrow> TrimSpace e \<noteq> [] | Inr None \<Rightarrow> True | Inr (Some tr) \<Rightarrow> tr_Error tr = [] \<or> TrimSpace (tr_Error tr) \<noteq> [])"

lemma build_result_valid:
  assumes "DelegationRequest_Validate q = None" and "readableOutcome outcome"
  shows "DelegationResult_Validate (BuildDelegationResult now q d outcome snap policies spec trust) = None"
proof -
  let ?r = "BuildDelegationResult now q d outcome snap policies spec trust"
  have "TrimSpace (dq_ID q) \<noteq> []" "\<not> blankRef (dq_ResourceRefs q)"
    using assms(1) by (auto simp: DelegationRequest_Validate_def firstErr_None simp del: firstErr.simps)
  moreover have "\<not> blankRef (dr_Diagnostics ?r)"
    using assms(2) by (auto simp: build_result_fields readableOutcome_def blankRef_def split: sum.splits option.splits)
  moreover have "dr_State ?r \<in> set delegationStates" using build_result_terminal(1) [of now q d outcome snap policies spec trust]
    by (auto simp: delegationStates_def terminalStates_def)
  ultimately show ?thesis using build_result_terminal [of now q d outcome snap policies spec trust]
    by (auto simp: DelegationResult_Validate_def firstErr_None build_result_fields simp del: firstErr.simps)
qed

lemma start_succeeds:
  assumes "DelegationRequest_Validate q = None" and "map_of (dm_delegations m) (dq_ID q) = None"
  obtains s m' where "StartDelegation clk q opts m = (Inr s, m')"
proof -
  have v: "DelegationRequest_Validate (q\<lparr>dq_CreatedAt := a\<rparr>) = None" "DelegationRequest_Validate (q\<lparr>dq_PolicySnapshotID := b\<rparr>) = None"
    "DelegationRequest_Validate (q\<lparr>dq_CreatedAt := a, dq_PolicySnapshotID := b\<rparr>) = None" for a b
    using assms(1) by (simp_all add: DelegationRequest_Validate_def firstErr_None del: firstErr.simps)
  have "\<exists>s m'. StartDelegation clk q opts m = (Inr s, m')"
    using assms v by (cases "dq_CreatedAt q = 0"; cases "so_PolicySnapshot opts"; cases "dq_PolicySnapshotID q = []")
      (simp_all add: StartDelegation_def Let_def DelegationSnapshot_Validate_def delegationStates_def)
  then show thesis using that by blast
qed

lemma complete_succeeds:
  assumes "TrimSpace i = i" and "i \<noteq> []" and "dr_DelegationID r \<noteq> []" and "DelegationResult_Validate r = None"
    and "dr_State r \<in> set terminalStates" and "map_of (dm_delegations m) i = Some rc"
  obtains s m' rc' where "CompleteDelegation now i (Some r) m = (Inr s, m')" "map_of (dm_delegations m') i = Some rc'"
    "rd_snapshot rc' = s" "ds_State s \<in> set terminalStates"
proof (cases "ds_State (rd_snapshot rc) \<in> set terminalStates")
  case True
  with assms show thesis by (intro that [of "rd_snapshot rc" m rc]) (simp_all add: CompleteDelegation_def completionCandidate_def)
next
  case False
  let ?s = "(rd_snapshot rc)\<lparr>ds_Result := Some r, ds_State := dr_State r, ds_UpdatedAt := now\<rparr>"
  from False assms show thesis
    by (intro that [of ?s _ "\<lparr>rd_snapshot = ?s, rd_cancel = False\<rparr>"])
      (auto simp: CompleteDelegation_def completionCandidate_def map_of_AList_update Let_def)
qed

text \<open>
  \<^bold>\<open>C32.\<close> A valid delegation run in the foreground under a trimmed, free identifier, with a target that answers or fails
  with a message that is not blank, is terminal when \<open>ExecuteDelegation\<close>
  returns, whatever other callers did meanwhile, and the snapshot it returns is the recorded one.
\<close>
theorem executed_delegation_ends:
  assumes "delegationSteps NewDelegationManager m" and "\<And>x. delegationSteps x (other x)"
    and "eo_Registry opts = Some R" and "prepareDelegation R opts q = Inr (q1, d)"
    and "\<not> shouldRunDelegationInBackground d (eo_Background opts)"
    and "DelegationRequest_Validate q1 = None" and "TrimSpace (dq_ID q) = dq_ID q" and "map_of (dm_delegations m) (dq_ID q) = None"
    and "readableOutcome (rg_InvokeCapability R (cap_ID d) (buildDelegationInvocationArgs (rg_Sprint R) q1 d))"
  shows "\<exists>rc. map_of (dm_delegations (snd (ExecuteDelegation clk other opts q m))) (dq_ID q) = Some rc \<and>
    ds_State (rd_snapshot rc) \<in> set terminalStates \<and> fst (fst (ExecuteDelegation clk other opts q m)) = Some (rd_snapshot rc)"
proof -
  let ?o = "startOptions R opts q1 d (eo_Recoverability opts) (eo_Background opts) False"
  let ?out = "rg_InvokeCapability R (cap_ID d) (buildDelegationInvocationArgs (rg_Sprint R) q1 d)"
  let ?r = "BuildDelegationResult (clk 3) q1 d ?out (rg_PolicySnapshot R) (eo_InsertionPolicies opts) (eo_Coordination opts) (eo_CallerTrust opts)"
  have i: "dq_ID q1 = dq_ID q" by (rule prepare_facts [OF assms(4)])
  obtain s m1 where st: "StartDelegation clk q1 ?o m = (Inr s, m1)"
    using start_succeeds [OF assms(6)] assms(8) i by metis
  have si: "dq_ID (ds_Request s) = dq_ID q" and "map_of (dm_delegations m1) (dq_ID q) \<noteq> None"
    by (rule start_cases [of clk q1 ?o m]; use st i in \<open>auto simp: map_of_AList_update\<close>)+
  moreover have "okManager m1" using start_keeps [of m clk q1 ?o] steps_keep [OF assms(1) okManager_new] st by simp
  ultimately obtain rc where rc: "map_of (dm_delegations (other m1)) (dq_ID q) = Some rc"
    using steps_keep [OF assms(2)] unfolding continues_def by blast
  have ne: "dq_ID q \<noteq> []" using assms(6) i by (auto simp: DelegationRequest_Validate_def firstErr_None simp del: firstErr.simps)
  have t: "dr_State ?r \<in> set terminalStates"
    using build_result_terminal(1) [of "clk 3" q1 d ?out "rg_PolicySnapshot R" "eo_InsertionPolicies opts" "eo_Coordination opts" "eo_CallerTrust opts"]
    by (auto simp: terminalStates_def)
  have dn: "dr_DelegationID ?r \<noteq> []" using ne assms(7) i by (simp add: build_result_fields)
  obtain s' m' rc' where c: "CompleteDelegation (clk 4) (dq_ID q) (Some ?r) (other m1) = (Inr s', m')" "map_of (dm_delegations m') (dq_ID q) = Some rc'"
    "rd_snapshot rc' = s'" "ds_State s' \<in> set terminalStates"
    by (rule complete_succeeds [OF assms(7) ne dn build_result_valid [OF assms(6,9)] t rc])
  have "ExecuteDelegation clk other opts q m = ((Some s', (case ?out of Inl err \<Rightarrow> Some (Err err) | Inr _ \<Rightarrow> None)), m')"
    using assms(3,4,5) by (simp add: ExecuteDelegation_def executeInForeground_def st si c Let_def)
  with c show ?thesis by simp
qed

text \<open>
  The result of a successful invocation may be inserted directly only when the policies decide so, the
  target allows direct insertion and no approval across trust classes is due; when one is due, the
  insertion waits for a human.
\<close>
lemma delegation_insertion:
  fixes now q d res snap policies spec trust
  defines "given \<equiv> dr_Insertion (BuildDelegationResult now q d (Inr res) snap policies spec trust)"
    and "cross \<equiv> trust \<noteq> [] \<and> trust \<noteq> cap_TrustClass d \<and> cn_RequireApprovalCrossTrust spec"
  shows "\<exists>x. given = Some x \<and> (cross \<longrightarrow> in_Action x = ''hitl-required'' \<and> in_RequiresHITL x) \<and>
    (in_Action x = ''direct'' \<longleftrightarrow>
       \<not> cross \<and> (\<forall>c. cap_Coordination d = Some c \<longrightarrow> co_DirectInsertionAllowed c = 1) \<and>
       in_Action (EffectiveInsertionDecision policies (Some (NewCapabilityResultEnvelope d ''raw'' snap))) = ''direct'')"
  unfolding given_def cross_def by (auto simp: BuildDelegationResult_def Let_def split: option.splits)


section \<open>Concrete delegations\<close>

definition wCoordination :: CoordinationTargetMetadata where
  "wCoordination = \<lparr>co_Target = True, co_Role = ''reviewer'', co_TaskTypes = [''review''], co_ExecutionModes = [''session-backed''],
     co_LongRunning = 0, co_DirectInsertionAllowed = 1\<rparr>"

definition wReviewer :: CapabilityDescriptor where
  "wReviewer = wCap\<lparr>cap_ID := ''agent:review'', cap_Coordination := Some wCoordination\<rparr>"

definition wCoordSpec :: CoordinationSpec where
  "wCoordSpec = \<lparr>cn_MaxDelegationDepth = 2, cn_AllowRemoteDelegation = False, cn_AllowBackgroundDelegation = False,
     cn_RequireApprovalCrossTrust = True, cn_DelegationTargetSelectors = []\<rparr>"

definition wRegistry :: delegationRegistry where
  "wRegistry = \<lparr>rg_GetCoordinationTarget = (\<lambda>i. if i = ''agent:review'' then Some wReviewer else None), rg_CoordinationTargets = (\<lambda>_. [wReviewer]),
     rg_InvokeCapability = (\<lambda>_ _. Inr (Some \<lparr>tr_Success = True, tr_Data = [], tr_Error = []\<rparr>)), rg_PolicySnapshot = None, rg_Sprint = (\<lambda>_. [])\<rparr>"

definition wDelegation :: DelegationRequest where
  "wDelegation = \<lparr>dq_ID = ''d1'', dq_WorkflowID = ''w'', dq_TaskID = ''t'', dq_CallerAgentID = [], dq_CallerCapabilityID = [],
     dq_TargetCapabilityID = [], dq_TargetProviderID = [], dq_TargetSessionID = [], dq_TaskType = ''Review'', dq_Instruction = ''look'',
     dq_ResourceRefs = [''a'', ''a''], dq_Depth = 1, dq_PolicySnapshotID = [], dq_ApprovalRequired = False, dq_Metadata = [], dq_CreatedAt = 5\<rparr>"

definition wExecution :: DelegationExecutionOptions where
  "wExecution = \<lparr>eo_Registry = Some wRegistry, eo_BackgroundRunner = None, eo_Coordination = wCoordSpec, eo_InsertionPolicies = [],
     eo_CallerAgentID = ''main'', eo_CallerTrust = ''builtin-trusted'', eo_Recoverability = [], eo_Background = False, eo_Metadata = []\<rparr>"

definition wDelegated :: DelegationManager where
  "wDelegated = snd (ExecuteDelegation (\<lambda>n. 10 + int n) (\<lambda>m. m) wExecution wDelegation NewDelegationManager)"

definition wDelegationRecord :: delegationRecord where
  "wDelegationRecord = the (map_of (dm_delegations wDelegated) ''d1'')"

lemma wDelegated_reached: "delegationSteps NewDelegationManager wDelegated"
  unfolding wDelegated_def by (rule execute_steps) (rule none)

theorem delegation_lifecycle_witness:
  "map_of (dm_delegations (snd (CancelDelegation 20 21 None (\<lambda>m. m) ''d1'' ''late'' wDelegated))) ''d1'' = Some wDelegationRecord \<and>
   ds_State (rd_snapshot wDelegationRecord) = DelegationStateSucceeded"
proof -
  have st: "delegationSteps wDelegated (snd (CancelDelegation 20 21 None (\<lambda>m. m) ''d1'' ''late'' wDelegated))"
    by (rule cancel_steps) (rule none)
  have rc: "map_of (dm_delegations wDelegated) ''d1'' = Some wDelegationRecord" by code_simp
  have "ds_State (rd_snapshot wDelegationRecord) = DelegationStateSucceeded" by code_simp
  moreover have "ds_State (rd_snapshot wDelegationRecord) \<in> set terminalStates" by code_simp
  ultimately show ?thesis using delegation_lifecycle [OF wDelegated_reached st rc] by auto
qed

theorem delegation_guarded_witness:
  "\<exists>R q1 d. eo_Registry wExecution = Some R \<and> prepareDelegation R wExecution wDelegation = Inr (q1, d) \<and> co_Target (coordination d)"
proof -
  have "dm_delegations (snd (ExecuteDelegation (\<lambda>n. 10 + int n) (\<lambda>m. m) wExecution wDelegation NewDelegationManager)) \<noteq> dm_delegations NewDelegationManager"
    by code_simp
  then have "snd (ExecuteDelegation (\<lambda>n. 10 + int n) (\<lambda>m. m) wExecution wDelegation NewDelegationManager) \<noteq> NewDelegationManager" by metis
  from delegation_guarded [OF none none this] show ?thesis by blast
qed

theorem executed_delegation_ends_witness:
  "\<exists>rc. map_of (dm_delegations (snd (ExecuteDelegation (\<lambda>n. 10 + int n) (\<lambda>m. m) wExecution wDelegation NewDelegationManager))) ''d1'' = Some rc \<and>
     ds_State (rd_snapshot rc) \<in> set terminalStates"
proof -
  define q1 where "q1 = wDelegation\<lparr>dq_CallerAgentID := ''main'', dq_TargetCapabilityID := ''agent:review'', dq_ResourceRefs := [''a'']\<rparr>"
  have "eo_Registry wExecution = Some wRegistry" by (simp add: wExecution_def)
  moreover have "prepareDelegation wRegistry wExecution wDelegation = Inr (q1, wReviewer)" unfolding q1_def by code_simp
  moreover have "\<not> shouldRunDelegationInBackground wReviewer (eo_Background wExecution)" by code_simp
  moreover have "DelegationRequest_Validate q1 = None" unfolding q1_def by code_simp
  moreover have i: "TrimSpace (dq_ID wDelegation) = dq_ID wDelegation" by code_simp
  moreover have "map_of (dm_delegations NewDelegationManager) (dq_ID wDelegation) = None" by code_simp
  moreover have "readableOutcome (rg_InvokeCapability wRegistry (cap_ID wReviewer) (buildDelegationInvocationArgs (rg_Sprint wRegistry) q1 wReviewer))"
    unfolding q1_def by code_simp
  ultimately have "\<exists>rc. map_of (dm_delegations (snd (ExecuteDelegation (\<lambda>n. 10 + int n) (\<lambda>m. m) wExecution wDelegation NewDelegationManager))) (dq_ID wDelegation) = Some rc \<and>
     ds_State (rd_snapshot rc) \<in> set terminalStates \<and>
     fst (fst (ExecuteDelegation (\<lambda>n. 10 + int n) (\<lambda>m. m) wExecution wDelegation NewDelegationManager)) = Some (rd_snapshot rc)"
    by (intro executed_delegation_ends) (auto intro: none)
  moreover have "dq_ID wDelegation = ''d1''" by code_simp
  ultimately show ?thesis by auto
qed

lemma delegation_insertion_witness:
  "\<exists>x. dr_Insertion (BuildDelegationResult 0 wDelegation wReviewer (Inr None) None [] wCoordSpec ''tool-result'') = Some x \<and> in_Action x = ''hitl-required''"
proof -
  have "''tool-result'' \<noteq> [] \<and> ''tool-result'' \<noteq> cap_TrustClass wReviewer \<and> cn_RequireApprovalCrossTrust wCoordSpec" by code_simp
  with delegation_insertion [of 0 wDelegation wReviewer None None "[]" wCoordSpec "''tool-result''"] show ?thesis by blast
qed

text \<open>An identifier with surrounding blanks is accepted, but no later call can reach the delegation.\<close>

lemma padded_id_unreachable:
  assumes "delegationSteps m m'" and "TrimSpace i \<noteq> i" and "map_of (dm_delegations m) i = Some rc"
  shows "map_of (dm_delegations m') i = Some rc"
  using assms
proof (induction rule: delegationSteps.induct)
  case (start m m1 clk q opts)
  then have i: "map_of (dm_delegations m1) i = Some rc" by simp
  show ?case by (rule start_cases [of clk q opts m1]) (use i in \<open>auto simp: map_of_AList_update\<close>)
next
  case (complete m m1 now j r)
  then have "TrimSpace j \<noteq> i" "map_of (dm_delegations m1) i = Some rc" by auto
  then show ?case by - (rule complete_cases [of now j r m1], auto simp: map_of_AList_update)
qed (simp_all add: SetObserver_def)

text \<open>The option \<open>Background\<close> starts a background run that the specification does not allow.\<close>

lemma background_option_unchecked:
  "validateDelegationTargetPolicy wDelegation wReviewer wCoordSpec = None" "shouldRunDelegationInBackground wReviewer True" "\<not> cn_AllowBackgroundDelegation wCoordSpec"
  by code_simp+

text \<open>A result of another delegation is accepted and leaves a snapshot that its own validation refuses.\<close>

definition wForeign :: DelegationResult where
  "wForeign = NewDelegationResult 3 (wDelegation\<lparr>dq_ID := ''d2''\<rparr>) [] [] [] DelegationStateSucceeded True []"

definition wStartOptions :: DelegationStartOptions where
  "wStartOptions = startOptions wRegistry wExecution wDelegation wReviewer [] False False"

lemma foreign_result_accepted:
  "case CompleteDelegation 9 ''d1'' (Some wForeign)
       (snd (StartDelegation int (wDelegation\<lparr>dq_TargetCapabilityID := ''agent:review''\<rparr>) wStartOptions NewDelegationManager)) of
     (Inr s, m) \<Rightarrow> DelegationSnapshot_Validate s \<noteq> None
   | _ \<Rightarrow> False"
  by code_simp

text \<open>An approval across trust classes replaces a denial by a question.\<close>

lemma denied_insertion_reopened:
  "map_option in_Action (dr_Insertion (BuildDelegationResult 0 wDelegation wReviewer (Inr None) None [(anySelector, ''denied'')] wCoordSpec ''builtin-trusted'')) = Some ''denied''"
  "map_option in_Action (dr_Insertion (BuildDelegationResult 0 wDelegation wReviewer (Inr None) None [(anySelector, ''denied'')] wCoordSpec ''tool-result'')) = Some ''hitl-required''"
  by code_simp+


section \<open>Persisted delegations\<close>

lemma writeAll_None: "fst (writeAll fails ws) = None \<Longrightarrow> snd (writeAll fails ws) = ws"
  by (induction ws) (auto split: option.splits prod.splits)

lemma writeAll_prefix: "\<exists>zs. ws = snd (writeAll fails ws) @ zs \<and> (\<forall>e. fst (writeAll fails ws) = Some e \<longrightarrow> (\<exists>w rest. zs = w # rest \<and> fails w = Some e))"
  by (induction ws) (auto split: option.splits prod.splits)

lemma set_SnapshotDelegations: "set (SnapshotDelegations m) = (rd_snapshot \<circ> snd) ` set (dm_delegations m)"
  by (auto simp: SnapshotDelegations_def ListDelegations_def delegationMatchesFilter_def)

text \<open>
  A run without errors stores every recorded delegation of the workflow with its current state, and one that has
  ended with its artifact.
\<close>

lemma persist_complete:
  assumes "PersistDelegations raw fails workflowID runID m = (None, ws)" and "map_of (dm_delegations m) i = Some rc"
    and "dq_WorkflowID (ds_Request (rd_snapshot rc)) \<in> {[], workflowID}"
  defines "s \<equiv> rd_snapshot rc"
  shows "\<exists>e. UpsertDelegation e \<in> set ws \<and> de_DelegationID e = dq_ID (ds_Request s) \<and> de_State e = ds_State s \<and> de_Result e = ds_Result s"
    and "ds_Result s \<noteq> None \<and> ds_State s \<in> set terminalStates \<Longrightarrow>
      \<exists>a. UpsertArtifact a \<in> set ws \<and> wa_ArtifactID a = ''delegation-result:'' @ dq_ID (ds_Request s) \<and> wa_InlineRawText a = raw s"
proof -
  have "ws = concat (map (snapshotWrites raw workflowID runID) (SnapshotDelegations m))"
    using assms(1) writeAll_None unfolding PersistDelegations_def by (metis fst_conv snd_conv)
  moreover have "s \<in> set (SnapshotDelegations m)" using map_of_SomeD [OF assms(2)] by (force simp: set_SnapshotDelegations s_def)
  ultimately have sub: "set (snapshotWrites raw workflowID runID s) \<subseteq> set ws" by auto
  have wf: "dq_WorkflowID (ds_Request s) = [] \<or> dq_WorkflowID (ds_Request s) = workflowID" using assms(3) by (simp add: s_def)
  show "\<exists>e. UpsertDelegation e \<in> set ws \<and> de_DelegationID e = dq_ID (ds_Request s) \<and> de_State e = ds_State s \<and> de_Result e = ds_Result s"
    using sub wf by (auto simp: snapshotWrites_def Let_def)
  show "\<exists>a. UpsertArtifact a \<in> set ws \<and> wa_ArtifactID a = ''delegation-result:'' @ dq_ID (ds_Request s) \<and> wa_InlineRawText a = raw s"
    if "ds_Result s \<noteq> None \<and> ds_State s \<in> set terminalStates"
    using sub wf that by (auto simp: snapshotWrites_def promotedDelegationArtifact_def Let_def)
qed


text \<open>A target that fails with a blank message leaves the delegation running: its result does not validate, so it is not recorded.\<close>

lemma blank_failure_stays_running:
  "let opts = wExecution\<lparr>eo_Registry := Some (wRegistry\<lparr>rg_InvokeCapability := (\<lambda>c a. Inl '' '')\<rparr>)\<rparr>;
       m' = snd (ExecuteDelegation (\<lambda>n. 10 + int n) (\<lambda>m. m) opts wDelegation NewDelegationManager)
   in map_option (\<lambda>rc. ds_State (rd_snapshot rc)) (map_of (dm_delegations m') ''d1'') = Some DelegationStateRunning"
  by code_simp

end
