(* ===== verification/Spec2Isabelle.thy ===== *)
theory Spec2Isabelle
  imports PolicyEngine CommandAuth AuditWriter Hitl JobSystem Epoch AgentGraph Delegations
begin

text \<open>
  Relurpify runs coding agents: an agent proposes actions (tool calls, commands, network access,
  session operations), a governance layer decides whether an action may happen, asking a human where
  its policy says so, and a daemon runs background jobs that survive crashes. The agent itself is a graph
  of nodes that share an envelope of working memory. This development models the governance core, the
  job subsystem, the graph runner and the data it works on as shallow embeddings of the Go sources and
  proves what they promise.

  \<^bold>\<open>Conventions.\<close> A struct is a record whose fields carry the struct's initials; an enumeration of strings
  stays a string, with an abbreviation per constant. \<open>int64\<close> values are integers with the wrap-around
  written out where the code can reach it. A \<open>time.Time\<close> is an integer number of nanoseconds, zero
  for the zero time; each reading of the clock is an argument. Go errors are values of \<open>goerr\<close>;
  \<open>error + value\<close> results are sums. A Go map whose iteration order matters is an association list in
  that order, and the theorems hold for every order. A method under a mutex is one step.

  \<^bold>\<open>Theories and sources.\<close>
  \<^item> \<open>Prelude\<close>: strings (\<open>TrimSpace\<close>, \<open>ToLower\<close>, decimal formatting), errors, association lists, locales for
    keep-the-strongest folds; \<open>GoTime\<close>: parsing of clock times.
  \<^item> \<open>Bounded\<close>: \<open>governance/bounded/cache.go\<close>, \<open>ring.go\<close>. The cache with capacity and lazy expiry and the ring
    buffer: capacity, exactly-once consumption, round trips.
  \<^item> \<open>Risk\<close>: \<open>governance/classification\<close>, \<open>governance/risk\<close>. Class strings and risk classes.
  \<^item> \<open>NetHost\<close>, \<open>NetResolve\<close>: \<open>governance/netpolicy\<close>. Host spellings, address classes, resolution with a
    cache; a private answer cannot be laundered into a public one.
  \<^item> \<open>Policy\<close>: \<open>governance/policy\<close>, \<open>governance/permissions/decision.go\<close>, \<open>governance/identity\<close>. The data.
  \<^item> \<open>PolicyMatch\<close>, \<open>PolicyEngine\<close>: \<open>policy_match.go\<close>, \<open>policy_compile.go\<close>, \<open>policy_engine.go\<close>,
    \<open>policy_enforcement.go\<close> under \<open>governance/authorization\<close>. Compilation of the agent's policy input to
    rules, the strongest matching effect, fallbacks, enforcement: a request passes only on an allow or
    a granted approval.
  \<^item> \<open>Globs\<close>: \<open>policy_helpers.go\<close>, \<open>match_command_glob.go\<close>, \<open>glob_cache.go\<close>. Deny-first decisions; the regular
    expressions the globs are translated to agree with the glob grammar.
  \<^item> \<open>Grants\<close>: \<open>permissions.go\<close>, \<open>perm_delegation.go\<close>. The permission manager: cached grants, one-time use,
    session release, task grants, rate limit.
  \<^item> \<open>Paths\<close>: \<open>path/filepath\<close> as the checks use it. \<open>Declared\<close>: \<open>userconfig/permissions\<close> and the file matrix of
    \<open>permissions.go\<close>. The declared permissions and their validation. \<open>Redact\<close>: \<open>redact.go\<close>. Redaction of what
    is written to the audit trail.
  \<^item> \<open>PermFile\<close>, \<open>PermChecks\<close>: \<open>perm_file.go\<close>, \<open>perm_exec.go\<close>, \<open>perm_net.go\<close>, \<open>perm_tool.go\<close>. The checks on paths,
    programs, hosts and tools: exactly which accesses pass, and that no history of checks makes the
    verdict caches answer differently from the declared permissions. An approval is a live cached grant under
    the key of the permission, or the answer of the approver to exactly the request of the check.
  \<^item> \<open>CommandLift\<close>, \<open>CommandSpec\<close>, \<open>CommandAuth\<close>: \<open>command_semantics.go\<close>, \<open>command_authorization.go\<close>,
    \<open>command_policy.go\<close>. A command line is unwrapped and lifted to the permissions it needs, which are checked one by
    one. \<open>CommandSpec\<close> states apart from the code what the usual wrappers, shells and commands do with their
    arguments (the relation \<open>does\<close>): in these forms nothing is hidden from the lifting, and an authorized command
    does only what was checked or approved. Forms that the lifting misses are lemmas at its end.
  \<^item> \<open>AuditChain\<close>, \<open>AuditWriter\<close>: \<open>governance/policy/chain_logger.go\<close>, \<open>audit.go\<close>. The hash-chained log: the
    writer, started on an empty directory, keeps every accepted record in order in a chain that verifies, as long
    as it is not restarted and no day is rotated a hundred times; tampering shows in the hash.
  \<^item> \<open>Hitl\<close>: \<open>hitl.go\<close>. The approval broker as a transition system over requests, waiters and channels.
  \<^item> \<open>Jobs\<close>, \<open>JobsStore\<close>, \<open>JobsRecovery\<close>: \<open>jobs\<close>, \<open>context/jobsstore/jobsstore.go\<close>. Jobs, their store over a
    transactional key-value database, and recovery after a crash.
  \<^item> \<open>Runner\<close>, \<open>Spool\<close>, \<open>JobSystem\<close>: \<open>ayenitd/executor.go\<close>, \<open>spool.go\<close>, \<open>spoolclient.go\<close>. One attempt of a job, the
    spool with a process death between any two effects, and the interleaving of all of it.
  \<^item> \<open>ContextData\<close>: \<open>context/contextdata\<close>. The envelope, its references and origins, the delta of a branch and the
    join of branches: the last branch in declaration order that changed a non-empty key wins, references stay
    coherent, a joined value is no less restricted in its origin than in the winning branch.
  \<^item> \<open>ContextStream\<close>, \<open>Epoch\<close>: \<open>context/contextstream\<close>, \<open>execution/agentgraph/epoch.go\<close>. Applying a compiled context
    with the stale guard and the budget test in the width of an \<open>int\<close>, and rendering it; the epoch coordinator as a
    transition system over its critical sections, in which no capture is lost or duplicated.
  \<^item> \<open>Selectors\<close>, \<open>Preflight\<close>: \<open>capability/registry\<close>, \<open>capability/result\<close>, \<open>execution/agentgraph/contracts.go\<close>,
    \<open>preflight.go\<close>. Capability selectors with their two matchers, the policies and insertion decisions over
    them, node contracts and the placement of their requirements.
  \<^item> \<open>AgentGraph\<close>: \<open>execution/agentgraph/graph.go\<close>. Building, sealing and executing a graph: executions return,
    fan-outs join in declaration order, and the visit cap holds in each traversal.
  \<^item> \<open>Delegations\<close>: \<open>governance/authorization/delegations.go\<close>, \<open>governance/policy/delegation_types.go\<close> and
    \<open>capability/registry/delegation_registry_adapter.go\<close>. Targets and their policy check, the life of every
    delegation in the manager, its result and its persistence.

  \<^bold>\<open>How the parts interact.\<close> Enforcement evaluates the compiled rules, and on a require-approval calls the
  permission manager, which consults its bounded cache of grants and asks the broker. A command is lifted to file, host and
  program accesses, each of which goes through the check of its kind; every check writes a redacted
  record to the audit log, and one that the log refuses fails. Submissions
  enter the spool as files; the watcher turns them into jobs of the store; workers claim jobs, run an
  attempt and write its outcome; opening the store after a crash requeues what was running. A graph is
  placed on registered capabilities through their selectors before it runs; its nodes write to the
  envelope, branches work on clones that are joined, and barriers ground what was captured.

  \<^bold>\<open>Parameters.\<close> Badger is a record of operations with the laws \<open>badger_laws\<close> (reads see writes, scans are
  sorted and complete); its errors and commit conflicts are arbitrary unless a theorem says otherwise,
  and \<open>memB\<close> is a model of it. The DNS resolver, the handlers of jobs and the approver are functions.
  The file system is a function from paths to the answers of \<open>EvalSymlinks\<close>; the shell parser is a function
  from a text to its syntax nodes in the order of the walk; SHA-256 and the JSON encoding are the
  fields of \<open>chainCodec\<close>, arbitrary functions where a theorem does not say otherwise; the outcome of each
  operation on audit files is a value of \<open>chainIO\<close>. What a graph node does, the cancellation of its context, the
  clock and the order in which branches finish are the fields of \<open>outside\<close>, by the position of the visit in
  the execution; the compiler of contexts, the grounder and the fate of background jobs are arbitrary. The capability registry that
  delegations call is the record \<open>delegationRegistry\<close>, and what other callers do meanwhile is an arbitrary
  sequence of manager steps.

  \<^bold>\<open>Bounds.\<close> Transaction retries use the source's own bound. Loops over lists are structural. The lifting of a
  command and the choice of a rotation name have termination proofs (the depth bound \<open>maxUnwrapDepth\<close> of
  the source, the finite directory), and so has the run loop of a graph (the visits left under the cap). The
  level of \<open>Graph_Execute\<close> bounds the nesting of fan-outs; \<open>execution_returns\<close> gives the level that is enough and
  that a higher one changes nothing. No other fuel is used. \<open>sp_left\<close> in \<open>Spool\<close> is not fuel of the model but the number of effects before the process dies.

  \<^bold>\<open>Not modelled.\<close> The enforcer facade, policy resolution and configuration
  loading; registration and invocation in the capability registry, the knowledge store, the context
  compiler, checkpoint and retrieval nodes, paradigm agents and the named agent, platform adapters, user
  interface and telemetry: input and output or orchestration of external services. Of the audit log,
  \<open>ReadChain\<close> and the waiting of a flush are left out; of the graph runner, telemetry, the capability envelope
  of a tool node and the barrier inside the run loop; a branch is a function of its position and the clone it
  works on, so node instances and an epoch coordinator that the goroutines of branches share are not represented.
  The catalog of a graph is read at the time of a preflight, and a cached report is served as the code serves it. The
  rank that \<open>execution_returns\<close> asks for is static: graphs whose edge conditions alone end the nesting of
  fan-outs are outside it. The effects of command lines are stated for the literal forms of \<open>does\<close> only.
\<close>

end
